(* ===== verification/Prelude.thy ===== *)
theory Prelude imports
  Complex_Main
  "HOL-Library.AList"
  "HOL-Library.Multiset"
  "HOL-Library.Product_Lexorder"
  "HOL-Library.List_Lexorder"
  "HOL-Library.Char_ord"
begin

text \<open>
  Shared notions of the development: Python values and the string methods the sources
  use, insertion-ordered dictionaries, priority queues with the contract of heapq, and
  per-key counters. Nothing here models one particular component; the lemmas of this
  theory carry the component proofs, through the simpset and the collections
  \<open>host_simps\<close> and \<open>queue_defs\<close>.

  Conventions. A Python string over the code points U+0000 to U+00FF is a HOL string of
  the same code points. A float is a real number or one of nan, inf and -inf: rounding is
  not modelled. A dictionary is an association list with distinct keys in insertion
  order, updated by \<open>AList.update\<close> (in place, or appended) and \<open>AList.delete\<close>.
  An operation that raises returns \<open>Inl\<close> of the exception.
\<close>

named_theorems host_simps "facts on canonical hosts"
named_theorems queue_defs "definitions of the queue operations"

section \<open>Python values\<close>

datatype pyfloat = PyNaN | NegInf | Fin real | PosInf

text \<open>
  \<open>PyObj\<close> stands for an object of any other class, with its \<open>str\<close> and its truth
  value; it has no conversion to a number.
\<close>

datatype pyval =
    PyNone
  | PyBool bool
  | PyInt int
  | PyFloat pyfloat
  | PyStr string
  | PyList "pyval list"
  | PyDict "(string \<times> pyval) list"
  | PyObj string bool

datatype py_error =
    ValueError string
  | TypeError string
  | LookupError string
  | KeyError string
  | RuntimeError string
  | OSError string
  | OverflowError string
  | CrawlerRuntimeError string
  | SchedulerClosedError

type_synonym 'a result = "py_error + 'a"
type_synonym py_dict = "(string \<times> pyval) list"

abbreviation dict_get :: "('k \<times> 'v) list \<Rightarrow> 'k \<Rightarrow> 'v option" where
  "dict_get m k \<equiv> map_of m k"

definition get_default :: "('k \<times> 'v) list \<Rightarrow> 'k \<Rightarrow> 'v \<Rightarrow> 'v" where
  "get_default m k d = (case map_of m k of None \<Rightarrow> d | Some v \<Rightarrow> v)"

definition py_get :: "py_dict \<Rightarrow> string \<Rightarrow> pyval" where
  "py_get m k = get_default m k PyNone"

text \<open>Sequencing of operations that may raise.\<close>

definition and_then :: "'a result \<Rightarrow> ('a \<Rightarrow> 'b result) \<Rightarrow> 'b result" where
  "and_then r f = (case r of Inl e \<Rightarrow> Inl e | Inr x \<Rightarrow> f x)"

lemma and_then_simps [simp]: "and_then (Inl e) f = Inl e" "and_then (Inr x) f = f x"
  by (simp_all add: and_then_def)

lemma and_then_Inr [simp]: "and_then r f = Inr y \<longleftrightarrow> (\<exists>x. r = Inr x \<and> f x = Inr y)"
  by (cases r) auto

lemma and_then_Inl: "and_then r f = Inl e \<longleftrightarrow> r = Inl e \<or> (\<exists>x. r = Inr x \<and> f x = Inl e)"
  by (cases r) auto

subsection \<open>String methods\<close>

text \<open>The code points \<open>str.strip\<close> removes, and \<open>str.lower\<close> on code points.\<close>

definition space_code :: "nat \<Rightarrow> bool" where
  "space_code n \<longleftrightarrow> 9 \<le> n \<and> n \<le> 13 \<or> 28 \<le> n \<and> n \<le> 32 \<or> n = 133 \<or> n = 160"

definition lower_code :: "nat \<Rightarrow> nat" where
  "lower_code n = (if 65 \<le> n \<and> n \<le> 90 \<or> 192 \<le> n \<and> n \<le> 222 \<and> n \<noteq> 215 then n + 32 else n)"

definition py_space :: "char \<Rightarrow> bool" where
  "py_space c = space_code (of_char c)"

definition py_strip :: "string \<Rightarrow> string" where
  "py_strip s = rev (dropWhile py_space (rev (dropWhile py_space s)))"

definition py_lower_char :: "char \<Rightarrow> char" where
  "py_lower_char c = char_of (lower_code (of_char c))"

definition py_lower :: "string \<Rightarrow> string" where
  "py_lower s = map py_lower_char s"

fun starts_with :: "string \<Rightarrow> string \<Rightarrow> bool" where
  "starts_with s [] = True"
| "starts_with [] (p # ps) = False"
| "starts_with (c # s) (p # ps) = (c = p \<and> starts_with s ps)"

definition ends_with :: "string \<Rightarrow> string \<Rightarrow> bool" where
  "ends_with s p = starts_with (rev s) (rev p)"

lemma starts_with_append [simp]: "starts_with (p @ s) p"
  by (induction p) auto

lemma starts_with_iff: "starts_with s p \<longleftrightarrow> (\<exists>r. s = p @ r)"
  by (induction s p rule: starts_with.induct) auto

lemma dropWhile_not_hd: "dropWhile P xs = [] \<or> \<not> P (hd (dropWhile P xs))"
  by (induction xs) auto

lemma dropWhile_id: "xs = [] \<or> \<not> P (hd xs) \<Longrightarrow> dropWhile P xs = xs"
  by (cases xs) auto

lemma hd_rev_dropWhile_rev:
  assumes "ys = rev (dropWhile P (rev xs))" and "xs = [] \<or> \<not> P (hd xs)"
  shows "ys = [] \<or> \<not> P (hd ys)"
proof (cases "ys = []")
  case False
  obtain zs where "rev xs = zs @ dropWhile P (rev xs)"
    by (metis takeWhile_dropWhile_id)
  then have "xs = ys @ rev zs"
    using assms(1) by (metis rev_append rev_rev_ident)
  then have "hd xs = hd ys" and "xs \<noteq> []"
    using False by auto
  with assms(2) show ?thesis by simp
qed simp

lemma py_strip_strip [simp]: "py_strip (py_strip s) = py_strip s"
proof -
  define u where "u = dropWhile py_space s"
  define v where "v = rev (dropWhile py_space (rev u))"
  have "u = [] \<or> \<not> py_space (hd u)"
    unfolding u_def by (rule dropWhile_not_hd)
  then have v: "v = [] \<or> \<not> py_space (hd v)"
    by (rule hd_rev_dropWhile_rev [OF v_def])
  then have "dropWhile py_space v = v"
    by (rule dropWhile_id)
  moreover have "dropWhile py_space (rev v) = rev v"
    unfolding v_def rev_rev_ident by (rule dropWhile_id [OF dropWhile_not_hd])
  ultimately show ?thesis
    by (simp add: py_strip_def v_def u_def)
qed

lemma of_char_py_lower_char [simp]: "of_char (py_lower_char c) = lower_code (of_char c)"
proof -
  have "lower_code (of_char c) < 256"
    using nat_of_char_less_256 [of c] by (auto simp: lower_code_def simp del: nat_of_char_less_256)
  then show ?thesis
    unfolding py_lower_char_def of_char_of by (rule mod_less)
qed

lemma lower_code_idem [simp]: "lower_code (lower_code n) = lower_code n"
  by (auto simp: lower_code_def)

lemma space_code_lower [simp]: "space_code (lower_code n) = space_code n"
  by (auto simp: lower_code_def space_code_def)

lemma py_lower_char_idem [simp]: "py_lower_char (py_lower_char c) = py_lower_char c"
  by (subst py_lower_char_def) (simp add: py_lower_char_def [symmetric])

lemma py_lower_lower [simp]: "py_lower (py_lower s) = py_lower s"
  by (simp add: py_lower_def comp_def)

lemma py_space_lower [simp]: "py_space (py_lower_char c) = py_space c"
  by (simp add: py_space_def)

lemma dropWhile_lower: "dropWhile py_space (map py_lower_char s) = map py_lower_char (dropWhile py_space s)"
  by (induction s) auto

lemma py_strip_lower: "py_strip (py_lower s) = py_lower (py_strip s)"
  by (simp add: py_strip_def py_lower_def dropWhile_lower rev_map)

subsection \<open>Printing\<close>

fun dec_nat :: "nat \<Rightarrow> string" where
  "dec_nat n = (if n < 10 then [char_of (48 + n)] else dec_nat (n div 10) @ [char_of (48 + n mod 10)])"

declare dec_nat.simps [simp del]

definition dec_int :: "int \<Rightarrow> string" where
  "dec_int i = (if i < 0 then CHR ''-'' # dec_nat (nat (- i)) else dec_nat (nat i))"

definition hex_digit :: "nat \<Rightarrow> char" where
  "hex_digit n = (if n < 10 then char_of (48 + n) else char_of (87 + n))"

text \<open>
  \<open>repr\<close> of a float. A finite float is printed with the least number of decimals (at
  most 30) that represents it, in positional notation between 1e-4 and 1e16 and with a
  two-digit exponent elsewhere, as Python does.
\<close>

definition int_parts :: "real \<Rightarrow> nat \<Rightarrow> bool" where
  "int_parts r n \<longleftrightarrow> of_int \<lfloor>r * 10 ^ n\<rfloor> = r * 10 ^ n"

fun decimals_from :: "nat \<Rightarrow> nat \<Rightarrow> real \<Rightarrow> nat" where
  "decimals_from 0 n r = n"
| "decimals_from (Suc k) n r = (if int_parts r n then n else decimals_from k (Suc n) r)"

definition pad_left :: "nat \<Rightarrow> string \<Rightarrow> string" where
  "pad_left n s = replicate (n - length s) (CHR ''0'') @ s"

definition positional :: "nat \<Rightarrow> real \<Rightarrow> string" where
  "positional n r = (let k = nat \<lfloor>r * 10 ^ n\<rfloor> in
     dec_nat (k div 10 ^ n) @ (if n = 0 then [] else CHR ''.'' # pad_left n (dec_nat (k mod 10 ^ n))))"

fun exponent_up :: "nat \<Rightarrow> nat \<Rightarrow> real \<Rightarrow> nat" where
  "exponent_up 0 e r = e"
| "exponent_up (Suc k) e r = (if r < 10 then e else exponent_up k (Suc e) (r / 10))"

fun exponent_down :: "nat \<Rightarrow> nat \<Rightarrow> real \<Rightarrow> nat" where
  "exponent_down 0 e r = e"
| "exponent_down (Suc k) e r = (if 1 \<le> r then e else exponent_down k (Suc e) (r * 10))"

definition repr_pos :: "real \<Rightarrow> string" where
  "repr_pos r = (if 1 / 10000 \<le> r \<and> r < 10 ^ 16 then positional (decimals_from 29 1 r) r
     else if r < 1 then (let e = exponent_down 400 0 r; m = r * 10 ^ e in
       positional (decimals_from 30 0 m) m @ ''e-'' @ pad_left 2 (dec_nat e))
     else (let e = exponent_up 400 0 r; m = r / 10 ^ e in
       positional (decimals_from 30 0 m) m @ ''e+'' @ pad_left 2 (dec_nat e)))"

fun float_repr :: "pyfloat \<Rightarrow> string" where
  "float_repr PyNaN = ''nan''"
| "float_repr NegInf = ''-inf''"
| "float_repr PosInf = ''inf''"
| "float_repr (Fin r) = (if r = 0 then ''0.0''
     else if r < 0 then CHR ''-'' # repr_pos (- r) else repr_pos r)"

text \<open>The escapes of \<open>repr\<close> on a string, with the quote character it chose.\<close>

definition repr_char :: "char \<Rightarrow> char \<Rightarrow> string" where
  "repr_char q c = (let n = (of_char c :: nat) in
     if c = q \<or> n = 92 then [char_of (92 :: nat), c]
     else if n = 10 then [char_of (92 :: nat), CHR ''n'']
     else if n = 13 then [char_of (92 :: nat), CHR ''r'']
     else if n = 9 then [char_of (92 :: nat), CHR ''t'']
     else if n < 32 \<or> 127 \<le> n \<and> n \<le> 160 \<or> n = 173
       then [char_of (92 :: nat), CHR ''x'', hex_digit (n div 16), hex_digit (n mod 16)]
     else [c])"

definition repr_str :: "string \<Rightarrow> string" where
  "repr_str s = (let a = char_of (39 :: nat); d = char_of (34 :: nat);
       q = (if a \<in> set s \<and> d \<notin> set s then d else a)
     in q # concat (map (repr_char q) s) @ [q])"

fun join_with :: "string \<Rightarrow> string list \<Rightarrow> string" where
  "join_with sep [] = []"
| "join_with sep [x] = x"
| "join_with sep (x # y # xs) = x @ sep @ join_with sep (y # xs)"

fun py_repr :: "pyval \<Rightarrow> string" where
  "py_repr PyNone = ''None''"
| "py_repr (PyBool b) = (if b then ''True'' else ''False'')"
| "py_repr (PyInt i) = dec_int i"
| "py_repr (PyFloat x) = float_repr x"
| "py_repr (PyStr s) = repr_str s"
| "py_repr (PyList xs) = ''['' @ join_with '', '' (map py_repr xs) @ '']''"
| "py_repr (PyDict kvs) =
     CHR 0x7B # join_with '', '' (map (\<lambda>(k, v). repr_str k @ '': '' @ py_repr v) kvs) @ [CHR 0x7D]"
| "py_repr (PyObj t b) = t"

fun py_str :: "pyval \<Rightarrow> string" where
  "py_str (PyStr s) = s"
| "py_str v = py_repr v"

fun py_truthy :: "pyval \<Rightarrow> bool" where
  "py_truthy PyNone = False"
| "py_truthy (PyBool b) = b"
| "py_truthy (PyInt i) = (i \<noteq> 0)"
| "py_truthy (PyFloat x) = (x \<noteq> Fin 0)"
| "py_truthy (PyStr s) = (s \<noteq> [])"
| "py_truthy (PyList xs) = (xs \<noteq> [])"
| "py_truthy (PyDict kvs) = (kvs \<noteq> [])"
| "py_truthy (PyObj t b) = b"

section \<open>Priority queues\<close>

text \<open>
  \<open>heapq\<close> is used through its contract only: a heap is the list of its entries in the
  order in which \<open>heappop\<close> yields them. \<open>heappush\<close> keeps that order; entries with
  equal keys stay in insertion order. \<open>heapify\<close> and \<open>sorted\<close> are the stable sort.
\<close>

fun heap_push :: "('a \<Rightarrow> 'k::linorder) \<Rightarrow> 'a \<Rightarrow> 'a list \<Rightarrow> 'a list" where
  "heap_push f x [] = [x]"
| "heap_push f x (y # ys) = (if f x < f y then x # y # ys else y # heap_push f x ys)"

fun heap_pop :: "'a list \<Rightarrow> ('a \<times> 'a list) option" where
  "heap_pop [] = None"
| "heap_pop (x # xs) = Some (x, xs)"

definition heap_ok :: "('a \<Rightarrow> 'k::linorder) \<Rightarrow> 'a list \<Rightarrow> bool" where
  "heap_ok f xs = sorted (map f xs)"

abbreviation heapify :: "('a \<Rightarrow> 'k::linorder) \<Rightarrow> 'a list \<Rightarrow> 'a list" where
  "heapify f xs \<equiv> sort_key f xs"

lemma mset_heap_push [simp]: "mset (heap_push f x xs) = add_mset x (mset xs)"
  by (induction xs) auto

lemma set_heap_push [simp]: "set (heap_push f x xs) = insert x (set xs)"
  by (induction xs) auto

lemma length_heap_push [simp]: "length (heap_push f x xs) = Suc (length xs)"
  by (induction xs) auto

lemma heap_push_not_Nil [simp]: "heap_push f x xs \<noteq> []"
  by (cases xs) auto

lemma heap_ok_Nil [simp]: "heap_ok f []"
  by (simp add: heap_ok_def)

lemma heap_ok_Cons: "heap_ok f (x # xs) \<longleftrightarrow> (\<forall>y\<in>set xs. f x \<le> f y) \<and> heap_ok f xs"
  by (simp add: heap_ok_def)

lemma heap_ok_push [intro]: "heap_ok f xs \<Longrightarrow> heap_ok f (heap_push f x xs)"
  by (induction xs) (auto simp: heap_ok_Cons)

lemma heap_ok_sort [intro]: "heap_ok f (sort_key f xs)"
  by (simp add: heap_ok_def)

lemma heap_push_last: "\<forall>y\<in>set xs. f y \<le> f x \<Longrightarrow> heap_push f x xs = xs @ [x]"
  by (induction xs) (auto simp: not_less)

lemma foldl_heap_push: "heap_ok f (xs @ ys) \<Longrightarrow> foldl (\<lambda>h x. heap_push f x h) xs ys = xs @ ys"
  by (induction ys arbitrary: xs) (auto simp: heap_ok_def sorted_append heap_push_last)

locale priority_heap =
  fixes push :: "'e \<Rightarrow> 'q \<Rightarrow> 'q"
    and pop :: "'q \<Rightarrow> ('e \<times> 'q) option"
    and elems :: "'q \<Rightarrow> 'e multiset"
    and ok :: "'q \<Rightarrow> bool"
    and key :: "'e \<Rightarrow> 'k::linorder"
  assumes ok_push: "ok q \<Longrightarrow> ok (push e q)"
    and elems_push: "ok q \<Longrightarrow> elems (push e q) = add_mset e (elems q)"
    and pop_None: "ok q \<Longrightarrow> pop q = None \<longleftrightarrow> elems q = {#}"
    and pop_ok: "ok q \<Longrightarrow> pop q = Some (e, q') \<Longrightarrow> ok q'"
    and pop_elems: "ok q \<Longrightarrow> pop q = Some (e, q') \<Longrightarrow> elems q = add_mset e (elems q')"
    and pop_least: "ok q \<Longrightarrow> pop q = Some (e, q') \<Longrightarrow> x \<in># elems q \<Longrightarrow> key e \<le> key x"
begin

lemma pop_after_push:
  assumes "ok q"
  shows "\<exists>e q'. pop (push x q) = Some (e, q') \<and> key e \<le> key x"
proof -
  have "pop (push x q) \<noteq> None"
    using assms pop_None [OF ok_push] by (simp add: elems_push)
  then obtain e q' where e: "pop (push x q) = Some (e, q')"
    by auto
  have "key e \<le> key x"
    using pop_least [OF ok_push [OF assms] e] by (simp add: elems_push [OF assms])
  with e show ?thesis by blast
qed

lemma pop_size: "ok q \<Longrightarrow> pop q = Some (e, q') \<Longrightarrow> size (elems q) = Suc (size (elems q'))"
  by (simp add: pop_elems)

end

text \<open>Every key function gives a heap on lists, so each queue of the model gets its own instance.\<close>

lemma priority_heap_list: "priority_heap (heap_push f) heap_pop mset (heap_ok f) f"
proof
  fix q e q' x
  assume "heap_ok f q" and "heap_pop q = Some (e, q')" and "x \<in># mset q"
  then show "f e \<le> f x"
    by (cases q) (auto simp: heap_ok_Cons)
next
  fix q :: "'a list" and e q'
  assume "heap_ok f q" and "heap_pop q = Some (e, q')"
  then show "heap_ok f q'" and "mset q = add_mset e (mset q')"
    by (cases q; auto simp: heap_ok_Cons)+
next
  fix q :: "'a list"
  show "heap_pop q = None \<longleftrightarrow> mset q = {#}"
    by (cases q) auto
qed auto

section \<open>Counters per key\<close>

text \<open>
  A dictionary that counts the elements of a collection by key, as the queues and the
  registry keep one per host: the counter agrees with the multiset of keys, and a key
  whose count falls to zero is removed.
\<close>

definition cnt_ok :: "('k \<times> int) list \<Rightarrow> 'k multiset \<Rightarrow> bool" where
  "cnt_ok m M \<longleftrightarrow> distinct (map fst m) \<and>
     (\<forall>k. map_of m k = (if k \<in># M then Some (int (count M k)) else None))"

definition cnt_inc :: "'k \<Rightarrow> ('k \<times> int) list \<Rightarrow> ('k \<times> int) list" where
  "cnt_inc k m = AList.update k (get_default m k 0 + 1) m"

definition cnt_dec :: "'k \<Rightarrow> ('k \<times> int) list \<Rightarrow> ('k \<times> int) list" where
  "cnt_dec k m = (let previous = get_default m k 0 in
     if previous \<le> 1 then AList.delete k m else AList.update k (previous - 1) m)"

lemma get_default_update [simp]: "get_default (AList.update k v m) k' d = (if k' = k then v else get_default m k' d)"
  by (simp add: get_default_def update_conv')

lemma get_default_delete [simp]: "get_default (AList.delete k m) k' d = (if k' = k then d else get_default m k' d)"
  by (simp add: get_default_def delete_conv')

lemma cnt_ok_get: "cnt_ok m M \<Longrightarrow> get_default m k 0 = int (count M k)"
  by (auto simp: cnt_ok_def get_default_def not_in_iff)

lemma cnt_ok_distinct: "cnt_ok m M \<Longrightarrow> distinct (map fst m)"
  by (simp add: cnt_ok_def)

lemma cnt_ok_empty [simp]: "cnt_ok [] {#}"
  by (simp add: cnt_ok_def)

lemma cnt_ok_Nil_iff: "cnt_ok m {#} \<longleftrightarrow> m = []"
  by (cases m) (auto simp: cnt_ok_def split: if_splits dest: fun_cong)

lemma cnt_ok_dom: "cnt_ok m M \<Longrightarrow> set (map fst m) = set_mset M"
  unfolding cnt_ok_def set_map
  by (metis (full_types) dom_map_of_conv_image_fst domIff option.distinct(1) subsetI subset_antisym)

lemma cnt_ok_inc: "cnt_ok m M \<Longrightarrow> cnt_ok (cnt_inc k m) (add_mset k M)"
  by (auto simp: cnt_ok_def cnt_inc_def update_conv' get_default_def distinct_update not_in_iff
      split: if_splits)

lemma cnt_ok_dec:
  assumes "cnt_ok m (add_mset k M)"
  shows "cnt_ok (cnt_dec k m) M"
proof -
  have "get_default m k 0 = int (count M k) + 1"
    using cnt_ok_get [OF assms] by simp
  with assms show ?thesis
    by (auto simp: cnt_ok_def cnt_dec_def Let_def update_conv' delete_conv' distinct_update
        distinct_delete not_in_iff split: if_splits)
qed

end
