(* ===== verification/Value_Parser.thy ===== *)
theory Value_Parser imports
  Prelude
begin

text \<open>
  Coercion of untrusted values: \<open>crawler/scheduling/scheduling_value_parser.py\<close> and
  \<open>crawler/numeric.py\<close>, over a model of Python's \<open>int(x)\<close> and \<open>float(x)\<close>.
  The literal parsers follow the language reference: surrounding whitespace, a sign,
  digits with single underscores between them, for floats a fraction, an exponent, or
  one of the names of the special values; an integer literal has at most 4300 digits.
\<close>

section \<open>Number literals\<close>

definition is_digit :: "char \<Rightarrow> bool" where
  "is_digit c \<longleftrightarrow> 48 \<le> (of_char c :: nat) \<and> (of_char c :: nat) \<le> 57"

definition digit_value :: "char \<Rightarrow> nat" where
  "digit_value c = of_char c - 48"

text \<open>The digits at the front: their value, their number, and what follows them.\<close>

fun scan_digits :: "string \<Rightarrow> nat \<Rightarrow> nat \<Rightarrow> nat \<times> nat \<times> string" where
  "scan_digits [] v n = (v, n, [])"
| "scan_digits (c # cs) v n =
     (if is_digit c then scan_digits cs (10 * v + digit_value c) (Suc n)
      else if c = CHR ''_'' \<and> 0 < n \<and> cs \<noteq> [] \<and> is_digit (hd cs) then scan_digits cs v n
      else (v, n, c # cs))"

fun scan_sign :: "string \<Rightarrow> bool \<times> string" where
  "scan_sign [] = (False, [])"
| "scan_sign (c # cs) = (if c = CHR ''-'' then (True, cs) else if c = CHR ''+'' then (False, cs) else (False, c # cs))"

definition parse_int :: "string \<Rightarrow> int option" where
  "parse_int s = (case scan_sign (py_strip s) of (neg, body) \<Rightarrow>
     (case scan_digits body 0 0 of (v, n, rest) \<Rightarrow>
        if n = 0 \<or> rest \<noteq> [] \<or> 4300 < n then None
        else Some (if neg then - int v else int v)))"

text \<open>Values from \<open>2 ^ 1024 - 2 ^ 970\<close> on round to infinity in double precision.\<close>

definition float_limit :: real where
  "float_limit = 2 ^ 1024 - 2 ^ 970"

definition to_double :: "real \<Rightarrow> pyfloat" where
  "to_double r = (if float_limit \<le> r then PosInf else if r \<le> - float_limit then NegInf else Fin r)"

definition scan_exponent :: "string \<Rightarrow> int option" where
  "scan_exponent s = (case s of [] \<Rightarrow> Some 0
    | c # cs \<Rightarrow> if c = CHR ''e'' \<or> c = CHR ''E'' then
        (case scan_sign cs of (neg, body) \<Rightarrow> (case scan_digits body 0 0 of (v, n, rest) \<Rightarrow>
           if n = 0 \<or> rest \<noteq> [] then None else Some (if neg then - int v else int v)))
      else None)"

definition scan_fraction :: "string \<Rightarrow> nat \<Rightarrow> nat \<times> nat \<times> string" where
  "scan_fraction s v = (case s of [] \<Rightarrow> (v, 0, [])
    | c # cs \<Rightarrow> if c = CHR ''.'' then scan_digits cs v 0 else (v, 0, s))"

definition scale10 :: "nat \<Rightarrow> int \<Rightarrow> real" where
  "scale10 v e = (if 0 \<le> e then of_nat v * 10 ^ nat e else of_nat v / 10 ^ nat (- e))"

definition parse_float :: "string \<Rightarrow> pyfloat option" where
  "parse_float s = (case scan_sign (py_strip s) of (neg, body) \<Rightarrow>
     if py_lower body \<in> {''inf'', ''infinity''} then Some (if neg then NegInf else PosInf)
     else if py_lower body = ''nan'' then Some PyNaN
     else (case scan_digits body 0 0 of (v1, n1, rest1) \<Rightarrow>
       (case scan_fraction rest1 v1 of (v2, n2, rest2) \<Rightarrow>
         if n1 + n2 = 0 then None else map_option (\<lambda>e.
           to_double (if neg then - scale10 v2 (e - int n2) else scale10 v2 (e - int n2)))
           (scan_exponent rest2))))"

section \<open>Conversions of the language\<close>

definition truncate_real :: "real \<Rightarrow> int" where
  "truncate_real r = (if r < 0 then \<lceil>r\<rceil> else \<lfloor>r\<rfloor>)"

fun float_to_int :: "pyfloat \<Rightarrow> int result" where
  "float_to_int (Fin r) = Inr (truncate_real r)"
| "float_to_int PyNaN = Inl (ValueError ''cannot convert float NaN to integer'')"
| "float_to_int _ = Inl (OverflowError ''cannot convert float infinity to integer'')"

fun py_int :: "pyval \<Rightarrow> int result" where
  "py_int (PyBool b) = Inr (if b then 1 else 0)"
| "py_int (PyInt i) = Inr i"
| "py_int (PyFloat x) = float_to_int x"
| "py_int (PyStr s) = (case parse_int s of None \<Rightarrow> Inl (ValueError ''invalid literal for int()'') | Some i \<Rightarrow> Inr i)"
| "py_int _ = Inl (TypeError ''int() argument'')"

definition int_to_float :: "int \<Rightarrow> pyfloat result" where
  "int_to_float i = (case to_double (of_int i) of Fin r \<Rightarrow> Inr (Fin r)
     | _ \<Rightarrow> Inl (OverflowError ''int too large to convert to float''))"

fun py_float :: "pyval \<Rightarrow> pyfloat result" where
  "py_float (PyBool b) = Inr (Fin (if b then 1 else 0))"
| "py_float (PyInt i) = int_to_float i"
| "py_float (PyFloat x) = Inr x"
| "py_float (PyStr s) = (case parse_float s of None \<Rightarrow> Inl (ValueError ''could not convert string to float'') | Some x \<Rightarrow> Inr x)"
| "py_float _ = Inl (TypeError ''float() argument'')"

section \<open>numeric.py\<close>

definition finite_float_or_none :: "pyval \<Rightarrow> real option" where
  "finite_float_or_none v = (case py_float v of Inr (Fin r) \<Rightarrow> Some r | _ \<Rightarrow> None)"

definition coerce_finite_float :: "pyval \<Rightarrow> pyval \<Rightarrow> pyval \<Rightarrow> pyval \<Rightarrow> real" where
  "coerce_finite_float v dflt minimum maximum =
    (let fallback = finite_float_or_none dflt;
         result = (case finite_float_or_none v of None \<Rightarrow> (case fallback of None \<Rightarrow> 0 | Some d \<Rightarrow> d) | Some r \<Rightarrow> r);
         result = (case finite_float_or_none minimum of None \<Rightarrow> result | Some lo \<Rightarrow> max result lo)
     in (case finite_float_or_none maximum of None \<Rightarrow> result | Some hi \<Rightarrow> min result hi))"

section \<open>scheduling\_value\_parser.py\<close>

definition coerce_int :: "pyval \<Rightarrow> int option \<Rightarrow> bool \<Rightarrow> int option" where
  "coerce_int v dflt allow_bool = (case v of
     PyNone \<Rightarrow> dflt
   | PyBool b \<Rightarrow> (if allow_bool then Some (if b then 1 else 0) else dflt)
   | PyStr s \<Rightarrow>
       (if CHR ''.'' \<in> set (py_strip s)
        then (case py_float (PyStr (py_strip s)) of Inl e \<Rightarrow> dflt
              | Inr x \<Rightarrow> (case float_to_int x of Inl e \<Rightarrow> dflt | Inr i \<Rightarrow> Some i))
        else (case py_int v of Inl e \<Rightarrow> dflt | Inr i \<Rightarrow> Some i))
   | _ \<Rightarrow> (case py_int v of Inl e \<Rightarrow> dflt | Inr i \<Rightarrow> Some i))"

definition coerce_float :: "pyval \<Rightarrow> real option \<Rightarrow> bool \<Rightarrow> real option" where
  "coerce_float v dflt allow_bool = (case v of
     PyNone \<Rightarrow> dflt
   | PyBool b \<Rightarrow> (if allow_bool then Some (if b then 1 else 0) else dflt)
   | _ \<Rightarrow> (case finite_float_or_none v of None \<Rightarrow> dflt | Some r \<Rightarrow> Some r))"

definition coerce_bool :: "pyval \<Rightarrow> bool option \<Rightarrow> bool option" where
  "coerce_bool v dflt = (case v of
     PyNone \<Rightarrow> dflt
   | PyBool b \<Rightarrow> Some b
   | PyInt i \<Rightarrow> (if i = 1 then Some True else if i = 0 then Some False else dflt)
   | PyFloat x \<Rightarrow> (if x = Fin 1 then Some True else if x = Fin 0 then Some False else dflt)
   | PyStr s \<Rightarrow> (let lowered = py_lower (py_strip s) in
       if lowered \<in> {''1'', ''true'', ''yes'', ''y'', ''on''} then Some True
       else if lowered \<in> {''0'', ''false'', ''no'', ''n'', ''off''} then Some False
       else dflt)
   | _ \<Rightarrow> (case dflt of None \<Rightarrow> Some (py_truthy v) | Some d \<Rightarrow> dflt))"

definition coerce_str :: "pyval \<Rightarrow> bool \<Rightarrow> bool \<Rightarrow> string option" where
  "coerce_str v strip empty_as_none = (if v = PyNone then None
     else (let text = (if strip then py_strip (py_str v) else py_str v)
           in if empty_as_none \<and> text = [] then None else Some text))"

definition coerce_lower_str :: "pyval \<Rightarrow> string option" where
  "coerce_lower_str v = map_option py_lower (coerce_str v True True)"

fun first_int_attribute :: "py_dict \<Rightarrow> string list \<Rightarrow> int \<Rightarrow> int" where
  "first_int_attribute owner [] dflt = dflt"
| "first_int_attribute owner (name # names) dflt =
     (case coerce_int (py_get owner name) None False of
        Some parsed \<Rightarrow> parsed | None \<Rightarrow> first_int_attribute owner names dflt)"

section \<open>Lemmas\<close>

lemma is_digit_48: "(d :: nat) < 10 \<Longrightarrow> is_digit (char_of (48 + d))"
  by (simp add: is_digit_def of_char_of)

lemma digit_value_48: "(d :: nat) < 10 \<Longrightarrow> digit_value (char_of (48 + d)) = d"
  by (simp add: digit_value_def of_char_of)

lemma scan_digits_append:
  "\<forall>c\<in>set xs. is_digit c \<Longrightarrow>
   scan_digits (xs @ ys) v k = scan_digits ys (foldl (\<lambda>a c. 10 * a + digit_value c) v xs) (k + length xs)"
  by (induction xs arbitrary: v k) auto

lemma dec_nat_digits: "c \<in> set (dec_nat n) \<Longrightarrow> is_digit c"
proof (induction n rule: dec_nat.induct)
  case (1 n)
  then show ?case
    by (subst (asm) dec_nat.simps) (auto simp: is_digit_48 split: if_splits)
qed

lemma dec_nat_not_Nil [simp]: "dec_nat n \<noteq> []"
  by (subst dec_nat.simps) simp

lemma dec_nat_value: "foldl (\<lambda>a c. 10 * a + digit_value c) 0 (dec_nat n) = n"
proof (induction n rule: dec_nat.induct)
  case (1 n)
  show ?case
  proof (cases "n < 10")
    case True
    then show ?thesis by (subst dec_nat.simps) (simp add: digit_value_48)
  next
    case False
    with 1 have "foldl (\<lambda>a c. 10 * a + digit_value c) 0 (dec_nat (n div 10)) = n div 10"
      by blast
    with False show ?thesis
      by (subst dec_nat.simps) (simp add: digit_value_48)
  qed
qed

lemma scan_digits_dec_nat: "scan_digits (dec_nat n) 0 0 = (n, length (dec_nat n), [])"
  using scan_digits_append [of "dec_nat n" "[]" 0 0] dec_nat_digits
  by (simp add: dec_nat_value)

lemma digit_not_space: "is_digit c \<Longrightarrow> \<not> py_space c"
  by (simp add: is_digit_def py_space_def space_code_def)

lemma py_strip_no_space: "\<forall>c\<in>set s. \<not> py_space c \<Longrightarrow> py_strip s = s"
proof -
  assume *: "\<forall>c\<in>set s. \<not> py_space c"
  then have "dropWhile py_space s = s" and "dropWhile py_space (rev s) = rev s"
    using hd_in_set [of "rev s"] by (auto simp: dropWhile_eq_self_iff)
  then show ?thesis by (simp add: py_strip_def)
qed

lemma minus_not_space: "\<not> py_space (CHR ''-'')"
  by (simp add: py_space_def space_code_def)

lemma py_strip_dec_int: "py_strip (dec_int i) = dec_int i"
  by (rule py_strip_no_space)
    (auto simp: dec_int_def minus_not_space dest: dec_nat_digits digit_not_space)

lemma scan_sign_dec_nat: "scan_sign (dec_nat n) = (False, dec_nat n)"
proof (cases "dec_nat n")
  case (Cons c cs)
  then have "is_digit c" using dec_nat_digits [of c n] by simp
  then have "c \<noteq> CHR ''-''" and "c \<noteq> CHR ''+''" by (auto simp: is_digit_def)
  with Cons show ?thesis by simp
qed simp

text \<open>An integer that is printed and read back is unchanged.\<close>

lemma parse_int_dec_int:
  assumes "length (dec_nat (nat \<bar>i\<bar>)) \<le> 4300"
  shows "parse_int (dec_int i) = Some i"
  using assms unfolding parse_int_def py_strip_dec_int
  by (cases "i < 0") (simp_all add: dec_int_def scan_sign_dec_nat scan_digits_dec_nat)

lemma coerce_finite_float_bounds:
  assumes "finite_float_or_none lo = Some a" and "finite_float_or_none hi = Some b" and "a \<le> b"
  shows "a \<le> coerce_finite_float v d lo hi \<and> coerce_finite_float v d lo hi \<le> b"
  using assms by (simp add: coerce_finite_float_def Let_def)

lemma coerce_int_PyInt [simp]: "coerce_int (PyInt i) d b = Some i"
  by (simp add: coerce_int_def)

lemma coerce_int_None [simp]: "coerce_int PyNone d b = d"
  by (simp add: coerce_int_def)

lemma coerce_str_idem: "coerce_str v True True = Some t \<Longrightarrow> coerce_str (PyStr t) True True = Some t"
  by (auto simp: coerce_str_def Let_def split: if_splits)

end
