(* ===== verification/Crawl_Context.thy ===== *)
theory Crawl_Context imports
  Value_Parser
begin

text \<open>
  The discovery context of a crawl task: \<open>crawler/crawl_tasks/crawl_task_context.py\<close>
  (the record and \<open>to_dict\<close>) and \<open>crawl_task_context_builder.py\<close> (normalisation of an
  untrusted mapping). The mapping is a dictionary of Python values. A context that
  \<open>coerce_crawl_task_context\<close> returned is a fixed point of export and coercion.
\<close>

section \<open>The record\<close>

record crawl_task_context =
  tag_name :: "string option"
  source_tag :: "string option"
  source_attribute :: "string option"
  text_hint :: "string option"
  surrounding_text :: "string option"
  mime_hint :: "string option"
  alt_text :: "string option"
  caption_text :: "string option"
  width :: "int option"
  height :: "int option"
  duration_seconds :: "pyfloat option"
  asset_quality_score :: "pyfloat option"
  asset_fetch_mode :: "string option"
  asset_rejection_reason :: "string option"
  embed_url :: "string option"
  embed_host :: "string option"
  poster_url :: "string option"
  parent_text_hash :: "string option"
  parent_text_preview :: "string option"
  parent_title :: "string option"
  html_dom_path :: "string option"
  asset_discovery_stage :: "string option"
  source_page_url :: "string option"
  discovery_reason :: "string option"
  candidate_strength :: "pyfloat option"
  selection_reason :: "string option"
  admission_reason :: "string option"
  media_identity :: "string option"
  source_page_depth :: "int option"
  is_boilerplate_asset :: "bool option"
  boilerplate_reason :: "string option"

definition opt_entry :: "string \<Rightarrow> ('a \<Rightarrow> pyval) \<Rightarrow> 'a option \<Rightarrow> py_dict" where
  "opt_entry k f v = (case v of None \<Rightarrow> [] | Some x \<Rightarrow> [(k, f x)])"

definition context_to_dict :: "crawl_task_context \<Rightarrow> py_dict" where
  "context_to_dict c = concat [
     opt_entry ''tag_name'' PyStr (tag_name c),
     opt_entry ''source_tag'' PyStr (source_tag c),
     opt_entry ''source_attribute'' PyStr (source_attribute c),
     opt_entry ''text_hint'' PyStr (text_hint c),
     opt_entry ''surrounding_text'' PyStr (surrounding_text c),
     opt_entry ''mime_hint'' PyStr (mime_hint c),
     opt_entry ''alt_text'' PyStr (alt_text c),
     opt_entry ''caption_text'' PyStr (caption_text c),
     opt_entry ''width'' PyInt (width c),
     opt_entry ''height'' PyInt (height c),
     opt_entry ''duration_seconds'' PyFloat (duration_seconds c),
     opt_entry ''asset_quality_score'' PyFloat (asset_quality_score c),
     opt_entry ''asset_fetch_mode'' PyStr (asset_fetch_mode c),
     opt_entry ''asset_rejection_reason'' PyStr (asset_rejection_reason c),
     opt_entry ''embed_url'' PyStr (embed_url c),
     opt_entry ''embed_host'' PyStr (embed_host c),
     opt_entry ''poster_url'' PyStr (poster_url c),
     opt_entry ''parent_text_hash'' PyStr (parent_text_hash c),
     opt_entry ''parent_text_preview'' PyStr (parent_text_preview c),
     opt_entry ''parent_title'' PyStr (parent_title c),
     opt_entry ''html_dom_path'' PyStr (html_dom_path c),
     opt_entry ''asset_discovery_stage'' PyStr (asset_discovery_stage c),
     opt_entry ''source_page_url'' PyStr (source_page_url c),
     opt_entry ''discovery_reason'' PyStr (discovery_reason c),
     opt_entry ''candidate_strength'' PyFloat (candidate_strength c),
     opt_entry ''selection_reason'' PyStr (selection_reason c),
     opt_entry ''admission_reason'' PyStr (admission_reason c),
     opt_entry ''media_identity'' PyStr (media_identity c),
     opt_entry ''source_page_depth'' PyInt (source_page_depth c),
     opt_entry ''is_boilerplate_asset'' PyBool (is_boilerplate_asset c),
     opt_entry ''boilerplate_reason'' PyStr (boilerplate_reason c)]"

section \<open>Field coercions\<close>

text \<open>\<open>str.split()\<close> without arguments.\<close>

fun py_words :: "string \<Rightarrow> string \<Rightarrow> string list" where
  "py_words [] acc = (if acc = [] then [] else [acc])"
| "py_words (c # cs) acc =
     (if py_space c then (if acc = [] then py_words cs [] else acc # py_words cs [])
      else py_words cs (acc @ [c]))"

definition compact_text :: "string \<Rightarrow> string" where
  "compact_text s = join_with '' '' (py_words s [])"

definition normalize_context_text :: "pyval \<Rightarrow> nat \<Rightarrow> string option" where
  "normalize_context_text v max_chars = (if v = PyNone then None
     else (let text = compact_text (py_str v) in if text = [] then None else Some (take max_chars text)))"

definition context_int :: "pyval \<Rightarrow> int option" where
  "context_int v = (case v of PyNone \<Rightarrow> None
     | PyBool b \<Rightarrow> Some (if b then 1 else 0)
     | PyInt i \<Rightarrow> Some i
     | _ \<Rightarrow> (let text = py_strip (py_str v) in if text = [] then None else parse_int text))"

text \<open>Only \<open>ValueError\<close> is caught: an integer too large for a float raises \<open>OverflowError\<close>.\<close>

definition context_float :: "pyval \<Rightarrow> pyfloat option result" where
  "context_float v = (case v of PyNone \<Rightarrow> Inr None
     | PyBool b \<Rightarrow> Inr None
     | PyInt i \<Rightarrow> map_sum id Some (int_to_float i)
     | PyFloat x \<Rightarrow> Inr (Some x)
     | _ \<Rightarrow> (let text = py_strip (py_str v) in if text = [] then Inr None else Inr (parse_float text)))"

definition context_bool :: "pyval \<Rightarrow> bool option" where
  "context_bool v = (case v of PyNone \<Rightarrow> None
     | PyBool b \<Rightarrow> Some b
     | _ \<Rightarrow> (let lowered = py_lower (py_strip (py_str v)) in
         if lowered \<in> {''1'', ''true'', ''yes'', ''on''} then Some True
         else if lowered \<in> {''0'', ''false'', ''no'', ''off''} then Some False else None))"

text \<open>A parsed field as a value of the intermediate dictionary.\<close>

definition opt_val :: "('a \<Rightarrow> pyval) \<Rightarrow> 'a option \<Rightarrow> pyval" where
  "opt_val f v = (case v of None \<Rightarrow> PyNone | Some x \<Rightarrow> f x)"

definition parse_base_context_fields :: "py_dict \<Rightarrow> py_dict result" where
  "parse_base_context_fields v = (case context_float (py_get v ''duration_seconds'') of Inl e \<Rightarrow> Inl e | Inr duration_seconds' \<Rightarrow> (Inr [
     (''tag_name'', opt_val PyStr (normalize_context_text (py_get v ''tag_name'') 64)),
     (''source_tag'', opt_val PyStr (normalize_context_text (py_get v ''source_tag'') 64)),
     (''source_attribute'', opt_val PyStr (normalize_context_text (py_get v ''source_attribute'') 64)),
     (''text_hint'', opt_val PyStr (normalize_context_text (py_get v ''text_hint'') 280)),
     (''surrounding_text'', opt_val PyStr (normalize_context_text (py_get v ''surrounding_text'') 500)),
     (''mime_hint'', opt_val PyStr (normalize_context_text (py_get v ''mime_hint'') 128)),
     (''alt_text'', opt_val PyStr (normalize_context_text (py_get v ''alt_text'') 280)),
     (''caption_text'', opt_val PyStr (normalize_context_text (py_get v ''caption_text'') 500)),
     (''width'', opt_val PyInt (context_int (py_get v ''width''))),
     (''height'', opt_val PyInt (context_int (py_get v ''height''))),
     (''duration_seconds'', opt_val PyFloat duration_seconds'),
     (''embed_url'', opt_val PyStr (normalize_context_text (py_get v ''embed_url'') 500)),
     (''embed_host'', opt_val PyStr (normalize_context_text (py_get v ''embed_host'') 253)),
     (''poster_url'', opt_val PyStr (normalize_context_text (py_get v ''poster_url'') 500))]))"

definition parse_logging_context_fields :: "py_dict \<Rightarrow> py_dict" where
  "parse_logging_context_fields v = [
     (''discovery_reason'', opt_val PyStr (normalize_context_text (py_get v ''discovery_reason'') 128)),
     (''selection_reason'', opt_val PyStr (normalize_context_text (py_get v ''selection_reason'') 128)),
     (''admission_reason'', opt_val PyStr (normalize_context_text (py_get v ''admission_reason'') 128)),
     (''asset_discovery_stage'', opt_val PyStr (normalize_context_text (py_get v ''asset_discovery_stage'') 64)),
     (''boilerplate_reason'', opt_val PyStr (normalize_context_text (py_get v ''boilerplate_reason'') 128))]"

definition parse_coverage_context_fields :: "py_dict \<Rightarrow> py_dict" where
  "parse_coverage_context_fields v = [
     (''source_page_url'', opt_val PyStr (normalize_context_text (py_get v ''source_page_url'') 500)),
     (''source_page_depth'', opt_val PyInt (context_int (py_get v ''source_page_depth''))),
     (''parent_text_hash'', opt_val PyStr (normalize_context_text (py_get v ''parent_text_hash'') 128)),
     (''parent_text_preview'', opt_val PyStr (normalize_context_text (py_get v ''parent_text_preview'') 500)),
     (''parent_title'', opt_val PyStr (normalize_context_text (py_get v ''parent_title'') 280)),
     (''html_dom_path'', opt_val PyStr (normalize_context_text (py_get v ''html_dom_path'') 280))]"

definition parse_workflow_context_fields :: "py_dict \<Rightarrow> py_dict result" where
  "parse_workflow_context_fields v = (case context_float (py_get v ''asset_quality_score'') of Inl e \<Rightarrow> Inl e | Inr asset_quality_score' \<Rightarrow> (case context_float (py_get v ''candidate_strength'') of Inl e \<Rightarrow> Inl e | Inr candidate_strength' \<Rightarrow> (Inr [
     (''asset_quality_score'', opt_val PyFloat asset_quality_score'),
     (''asset_fetch_mode'', opt_val PyStr (normalize_context_text (py_get v ''asset_fetch_mode'') 64)),
     (''candidate_strength'', opt_val PyFloat candidate_strength'),
     (''media_identity'', opt_val PyStr (normalize_context_text (py_get v ''media_identity'') 768)),
     (''asset_rejection_reason'', opt_val PyStr (normalize_context_text (py_get v ''asset_rejection_reason'') 128)),
     (''is_boilerplate_asset'', opt_val PyBool (context_bool (py_get v ''is_boilerplate_asset'')))])))"

section \<open>coerce\_crawl\_task\_context\<close>

datatype context_input = NoContext | ContextObject crawl_task_context | ContextMapping py_dict | OtherInput

definition context_from_fields :: "py_dict \<Rightarrow> crawl_task_context result" where
  "context_from_fields v = (
     case context_float (py_get v ''duration_seconds'') of Inl e \<Rightarrow> Inl e | Inr duration_seconds' \<Rightarrow> (
     case context_float (py_get v ''asset_quality_score'') of Inl e \<Rightarrow> Inl e | Inr asset_quality_score' \<Rightarrow> (
     case context_float (py_get v ''candidate_strength'') of Inl e \<Rightarrow> Inl e | Inr candidate_strength' \<Rightarrow> (Inr \<lparr>
     tag_name = normalize_context_text (py_get v ''tag_name'') 64,
     source_tag = normalize_context_text (py_get v ''source_tag'') 64,
     source_attribute = normalize_context_text (py_get v ''source_attribute'') 64,
     text_hint = normalize_context_text (py_get v ''text_hint'') 280,
     surrounding_text = normalize_context_text (py_get v ''surrounding_text'') 500,
     mime_hint = normalize_context_text (py_get v ''mime_hint'') 128,
     alt_text = normalize_context_text (py_get v ''alt_text'') 280,
     caption_text = normalize_context_text (py_get v ''caption_text'') 500,
     width = context_int (py_get v ''width''),
     height = context_int (py_get v ''height''),
     duration_seconds = duration_seconds',
     asset_quality_score = asset_quality_score',
     asset_fetch_mode = normalize_context_text (py_get v ''asset_fetch_mode'') 64,
     asset_rejection_reason = normalize_context_text (py_get v ''asset_rejection_reason'') 128,
     embed_url = normalize_context_text (py_get v ''embed_url'') 500,
     embed_host = normalize_context_text (py_get v ''embed_host'') 253,
     poster_url = normalize_context_text (py_get v ''poster_url'') 500,
     parent_text_hash = normalize_context_text (py_get v ''parent_text_hash'') 128,
     parent_text_preview = normalize_context_text (py_get v ''parent_text_preview'') 500,
     parent_title = normalize_context_text (py_get v ''parent_title'') 280,
     html_dom_path = normalize_context_text (py_get v ''html_dom_path'') 280,
     asset_discovery_stage = normalize_context_text (py_get v ''asset_discovery_stage'') 64,
     source_page_url = normalize_context_text (py_get v ''source_page_url'') 500,
     discovery_reason = normalize_context_text (py_get v ''discovery_reason'') 128,
     candidate_strength = candidate_strength',
     selection_reason = normalize_context_text (py_get v ''selection_reason'') 128,
     admission_reason = normalize_context_text (py_get v ''admission_reason'') 128,
     media_identity = normalize_context_text (py_get v ''media_identity'') 768,
     source_page_depth = context_int (py_get v ''source_page_depth''),
     is_boilerplate_asset = (case py_get v ''is_boilerplate_asset'' of PyBool b \<Rightarrow> Some b | _ \<Rightarrow> None),
     boilerplate_reason = normalize_context_text (py_get v ''boilerplate_reason'') 128\<rparr>))))"

definition coerce_crawl_task_context :: "context_input \<Rightarrow> crawl_task_context option result" where
  "coerce_crawl_task_context value = (case value of
     NoContext \<Rightarrow> Inr None
   | ContextObject c \<Rightarrow> Inr (if context_to_dict c \<noteq> [] then Some c else None)
   | OtherInput \<Rightarrow> Inr None
   | ContextMapping m \<Rightarrow>
       (case parse_base_context_fields m of Inl e \<Rightarrow> Inl e | Inr base \<Rightarrow>
         (case parse_workflow_context_fields m of Inl e \<Rightarrow> Inl e | Inr workflow \<Rightarrow>
           (let fields = base @ parse_logging_context_fields m @ parse_coverage_context_fields m @ workflow
            in if \<not> list_ex (\<lambda>(k, v). py_truthy v) fields then Inr None
               else map_sum id Some (context_from_fields fields)))))"

section \<open>Lemmas\<close>

subsection \<open>Text\<close>

lemma py_words_word: "\<forall>c\<in>set w. \<not> py_space c \<Longrightarrow> py_words (w @ s) acc = py_words s (acc @ w)"
  by (induction w arbitrary: acc) auto

lemma py_words_ok: "\<forall>c\<in>set acc. \<not> py_space c \<Longrightarrow> x \<in> set (py_words s acc) \<Longrightarrow> x \<noteq> [] \<and> (\<forall>c\<in>set x. \<not> py_space c)"
proof (induction s arbitrary: acc)
  case Nil
  then show ?case by (simp split: if_splits)
next
  case (Cons c cs)
  consider "py_space c" "x \<in> set (py_words cs [])" | "py_space c" "x = acc" "acc \<noteq> []"
    | "\<not> py_space c" "x \<in> set (py_words cs (acc @ [c]))"
    using Cons.prems(2) by (auto split: if_splits)
  then show ?case
  proof cases
    case 1
    then show ?thesis using Cons.IH [of "[]"] by simp
  next
    case 2
    then show ?thesis using Cons.prems(1) by simp
  next
    case 3
    then have "\<forall>d\<in>set (acc @ [c]). \<not> py_space d" using Cons.prems(1) by auto
    then show ?thesis using 3(2) by (rule Cons.IH)
  qed
qed

lemma blank_space: "py_space (CHR '' '')"
  unfolding py_space_def space_code_def by simp

lemma py_words_join:
  "\<forall>x\<in>set ws. x \<noteq> [] \<and> (\<forall>c\<in>set x. \<not> py_space c) \<Longrightarrow> py_words (join_with '' '' ws) [] = ws"
proof (induction "'' ''" ws rule: join_with.induct)
  case (2 x)
  then show ?case using py_words_word [of x "[]" "[]"] by simp
next
  case (3 x y ys)
  then show ?case using py_words_word [of x "'' '' @ join_with '' '' (y # ys)" "[]"]
    by (simp add: blank_space)
qed simp

lemma py_words_ok': "x \<in> set (py_words s []) \<Longrightarrow> x \<noteq> [] \<and> (\<forall>c\<in>set x. \<not> py_space c)"
  by (rule py_words_ok [of "[]"]) simp_all

lemma compact_text_idem [simp]: "compact_text (compact_text s) = compact_text s"
  unfolding compact_text_def by (subst py_words_join) (simp_all add: py_words_ok')

lemma join_with_Cons: "join_with sep (x # xs) = x @ (if xs = [] then [] else sep @ join_with sep xs)"
  by (cases xs) auto

lemma length_join_words: "length (join_with '' '' (py_words s acc)) \<le> length acc + length s"
  by (induction s acc rule: py_words.induct) (auto simp: join_with_Cons split: if_splits)

lemma length_compact_text: "length (compact_text s) \<le> length s"
  using length_join_words [of s "[]"] by (simp add: compact_text_def)

lemma compact_text_hd: "compact_text s \<noteq> [] \<Longrightarrow> \<not> py_space (hd (compact_text s))"
proof (cases "py_words s []")
  case (Cons x xs)
  then have "x \<noteq> []" and "\<not> py_space (hd x)" using py_words_ok' [of x s] by auto
  then show ?thesis using Cons by (simp add: compact_text_def join_with_Cons)
qed (simp add: compact_text_def)

lemma py_words_not_Nil: "acc \<noteq> [] \<Longrightarrow> py_words s acc \<noteq> []"
  by (induction s acc rule: py_words.induct) auto

lemma compact_text_not_Nil:
  assumes "s \<noteq> []" and "\<not> py_space (hd s)"
  shows "compact_text s \<noteq> []"
proof -
  obtain c cs where s: "s = c # cs" using assms by (cases s) auto
  have "py_words s [] \<noteq> []" using assms py_words_not_Nil [of "[c]" cs] by (simp add: s)
  then show ?thesis using py_words_ok' [of _ s] unfolding compact_text_def
    by (cases "py_words s []") (simp_all add: join_with_Cons)
qed

definition text_ok :: "nat \<Rightarrow> string option \<Rightarrow> bool" where
  "text_ok n x = (case x of None \<Rightarrow> True | Some u \<Rightarrow> compact_text u = u \<and> u \<noteq> [] \<and> length u \<le> n)"

lemma opt_val_simps [simp]: "opt_val f None = PyNone" "opt_val f (Some x) = f x"
  by (simp_all add: opt_val_def)

lemma normalize_text_None [simp]: "normalize_context_text PyNone n = None"
  by (simp add: normalize_context_text_def)

lemma normalize_text_fix: "text_ok n x \<Longrightarrow> normalize_context_text (opt_val PyStr x) n = x"
  by (cases x) (auto simp: text_ok_def normalize_context_text_def)

lemma normalize_text_twice_ok: "text_ok n (normalize_context_text (opt_val PyStr (normalize_context_text v n)) n)"
proof (cases "normalize_context_text v n")
  case (Some t)
  then have "length t \<le> n" by (auto simp: normalize_context_text_def Let_def split: if_splits)
  then have "length (compact_text t) \<le> n" using length_compact_text [of t] by simp
  then show ?thesis using Some by (simp add: normalize_context_text_def text_ok_def Let_def)
qed (simp add: text_ok_def)

lemma normalize_text_twice_None:
  assumes "0 < n"
  shows "normalize_context_text (opt_val PyStr (normalize_context_text v n)) n = None \<longleftrightarrow> normalize_context_text v n = None"
proof (cases "normalize_context_text v n")
  case (Some t)
  obtain s where t: "t = take n (compact_text s)" and s: "compact_text s \<noteq> []"
    using Some by (auto simp: normalize_context_text_def Let_def split: if_splits)
  have "t \<noteq> []" and "hd t = hd (compact_text s)"
    using t s assms by auto
  then have "compact_text t \<noteq> []" using compact_text_hd [OF s] by (intro compact_text_not_Nil) simp_all
  then show ?thesis using Some by (simp add: normalize_context_text_def Let_def)
qed simp

lemma truthy_text: "0 < n \<Longrightarrow> py_truthy (opt_val PyStr (normalize_context_text v n)) \<longleftrightarrow> normalize_context_text v n \<noteq> None"
  by (auto simp: normalize_context_text_def Let_def)

lemma context_int_fix [simp]: "context_int (opt_val PyInt x) = x"
  by (cases x) (auto simp: context_int_def)

lemma context_float_fix [simp]: "context_float (opt_val PyFloat x) = Inr x"
  by (cases x) (auto simp: context_float_def)

lemma context_bool_fix [simp]: "context_bool (opt_val PyBool x) = x"
  by (cases x) (auto simp: context_bool_def)

lemma opt_bool_fix [simp]: "(case opt_val PyBool x of PyBool b \<Rightarrow> Some b | _ \<Rightarrow> None) = x"
  by (cases x) auto

subsection \<open>Dictionaries of fields\<close>

lemma py_get_Cons: "py_get ((k, v) # m) k' = (if k = k' then v else py_get m k')"
  by (simp add: py_get_def get_default_def)

lemma py_get_Nil: "py_get [] k = PyNone"
  by (simp add: py_get_def get_default_def)

lemma py_get_opt_entry:
  "py_get (opt_entry k f v @ m) k' = (if k = k' then (case v of None \<Rightarrow> py_get m k' | Some x \<Rightarrow> f x) else py_get m k')"
  by (simp add: opt_entry_def py_get_Cons split: option.splits)

lemma py_get_opt_entry_last:
  "py_get (opt_entry k f v) k' = (if k = k' then opt_val f v else PyNone)"
  using py_get_opt_entry [of k f v "[]" k'] by (simp add: opt_val_def py_get_Nil split: option.splits)

lemmas py_get_simps = py_get_Cons py_get_Nil py_get_opt_entry py_get_opt_entry_last

lemma py_get_context_to_dict:
  shows "py_get (context_to_dict c) ''tag_name'' = opt_val PyStr (tag_name c)"
    and "py_get (context_to_dict c) ''source_tag'' = opt_val PyStr (source_tag c)"
    and "py_get (context_to_dict c) ''source_attribute'' = opt_val PyStr (source_attribute c)"
    and "py_get (context_to_dict c) ''text_hint'' = opt_val PyStr (text_hint c)"
    and "py_get (context_to_dict c) ''surrounding_text'' = opt_val PyStr (surrounding_text c)"
    and "py_get (context_to_dict c) ''mime_hint'' = opt_val PyStr (mime_hint c)"
    and "py_get (context_to_dict c) ''alt_text'' = opt_val PyStr (alt_text c)"
    and "py_get (context_to_dict c) ''caption_text'' = opt_val PyStr (caption_text c)"
    and "py_get (context_to_dict c) ''width'' = opt_val PyInt (width c)"
    and "py_get (context_to_dict c) ''height'' = opt_val PyInt (height c)"
    and "py_get (context_to_dict c) ''duration_seconds'' = opt_val PyFloat (duration_seconds c)"
    and "py_get (context_to_dict c) ''asset_quality_score'' = opt_val PyFloat (asset_quality_score c)"
    and "py_get (context_to_dict c) ''asset_fetch_mode'' = opt_val PyStr (asset_fetch_mode c)"
    and "py_get (context_to_dict c) ''asset_rejection_reason'' = opt_val PyStr (asset_rejection_reason c)"
    and "py_get (context_to_dict c) ''embed_url'' = opt_val PyStr (embed_url c)"
    and "py_get (context_to_dict c) ''embed_host'' = opt_val PyStr (embed_host c)"
    and "py_get (context_to_dict c) ''poster_url'' = opt_val PyStr (poster_url c)"
    and "py_get (context_to_dict c) ''parent_text_hash'' = opt_val PyStr (parent_text_hash c)"
    and "py_get (context_to_dict c) ''parent_text_preview'' = opt_val PyStr (parent_text_preview c)"
    and "py_get (context_to_dict c) ''parent_title'' = opt_val PyStr (parent_title c)"
    and "py_get (context_to_dict c) ''html_dom_path'' = opt_val PyStr (html_dom_path c)"
    and "py_get (context_to_dict c) ''asset_discovery_stage'' = opt_val PyStr (asset_discovery_stage c)"
    and "py_get (context_to_dict c) ''source_page_url'' = opt_val PyStr (source_page_url c)"
    and "py_get (context_to_dict c) ''discovery_reason'' = opt_val PyStr (discovery_reason c)"
    and "py_get (context_to_dict c) ''candidate_strength'' = opt_val PyFloat (candidate_strength c)"
    and "py_get (context_to_dict c) ''selection_reason'' = opt_val PyStr (selection_reason c)"
    and "py_get (context_to_dict c) ''admission_reason'' = opt_val PyStr (admission_reason c)"
    and "py_get (context_to_dict c) ''media_identity'' = opt_val PyStr (media_identity c)"
    and "py_get (context_to_dict c) ''source_page_depth'' = opt_val PyInt (source_page_depth c)"
    and "py_get (context_to_dict c) ''is_boilerplate_asset'' = opt_val PyBool (is_boilerplate_asset c)"
    and "py_get (context_to_dict c) ''boilerplate_reason'' = opt_val PyStr (boilerplate_reason c)"
  unfolding context_to_dict_def concat.simps
  by (simp_all add: py_get_simps opt_val_def split: option.splits)

definition context_ok :: "crawl_task_context \<Rightarrow> bool" where
  "context_ok c \<longleftrightarrow> text_ok 64 (tag_name c) \<and> text_ok 64 (source_tag c) \<and> text_ok 64 (source_attribute c) \<and> text_ok 280 (text_hint c) \<and> text_ok 500 (surrounding_text c) \<and> text_ok 128 (mime_hint c) \<and> text_ok 280 (alt_text c) \<and> text_ok 500 (caption_text c) \<and> text_ok 64 (asset_fetch_mode c) \<and> text_ok 128 (asset_rejection_reason c) \<and> text_ok 500 (embed_url c) \<and> text_ok 253 (embed_host c) \<and> text_ok 500 (poster_url c) \<and> text_ok 128 (parent_text_hash c) \<and> text_ok 500 (parent_text_preview c) \<and> text_ok 280 (parent_title c) \<and> text_ok 280 (html_dom_path c) \<and> text_ok 64 (asset_discovery_stage c) \<and> text_ok 500 (source_page_url c) \<and> text_ok 128 (discovery_reason c) \<and> text_ok 128 (selection_reason c) \<and> text_ok 128 (admission_reason c) \<and> text_ok 768 (media_identity c) \<and> text_ok 128 (boilerplate_reason c)"

definition context_truthy :: "crawl_task_context \<Rightarrow> bool" where
  "context_truthy c \<longleftrightarrow> py_truthy (opt_val PyStr (tag_name c)) \<or> py_truthy (opt_val PyStr (source_tag c)) \<or> py_truthy (opt_val PyStr (source_attribute c)) \<or> py_truthy (opt_val PyStr (text_hint c)) \<or> py_truthy (opt_val PyStr (surrounding_text c)) \<or> py_truthy (opt_val PyStr (mime_hint c)) \<or> py_truthy (opt_val PyStr (alt_text c)) \<or> py_truthy (opt_val PyStr (caption_text c)) \<or> py_truthy (opt_val PyInt (width c)) \<or> py_truthy (opt_val PyInt (height c)) \<or> py_truthy (opt_val PyFloat (duration_seconds c)) \<or> py_truthy (opt_val PyStr (embed_url c)) \<or> py_truthy (opt_val PyStr (embed_host c)) \<or> py_truthy (opt_val PyStr (poster_url c)) \<or> py_truthy (opt_val PyStr (discovery_reason c)) \<or> py_truthy (opt_val PyStr (selection_reason c)) \<or> py_truthy (opt_val PyStr (admission_reason c)) \<or> py_truthy (opt_val PyStr (asset_discovery_stage c)) \<or> py_truthy (opt_val PyStr (boilerplate_reason c)) \<or> py_truthy (opt_val PyStr (source_page_url c)) \<or> py_truthy (opt_val PyInt (source_page_depth c)) \<or> py_truthy (opt_val PyStr (parent_text_hash c)) \<or> py_truthy (opt_val PyStr (parent_text_preview c)) \<or> py_truthy (opt_val PyStr (parent_title c)) \<or> py_truthy (opt_val PyStr (html_dom_path c)) \<or> py_truthy (opt_val PyFloat (asset_quality_score c)) \<or> py_truthy (opt_val PyStr (asset_fetch_mode c)) \<or> py_truthy (opt_val PyFloat (candidate_strength c)) \<or> py_truthy (opt_val PyStr (media_identity c)) \<or> py_truthy (opt_val PyStr (asset_rejection_reason c)) \<or> py_truthy (opt_val PyBool (is_boilerplate_asset c))"

subsection \<open>The coercion as one normalisation\<close>

text \<open>The record the coercion builds: each text is normalised twice, once while parsing and once more.\<close>

definition twice_text :: "pyval \<Rightarrow> nat \<Rightarrow> string option" where
  "twice_text v n = normalize_context_text (opt_val PyStr (normalize_context_text v n)) n"

lemma twice_text_ok [simp]: "text_ok n (twice_text v n)"
  by (simp add: twice_text_def normalize_text_twice_ok)

lemma twice_text_fix: "text_ok n x \<Longrightarrow> twice_text (opt_val PyStr x) n = x"
  by (simp add: twice_text_def normalize_text_fix)

lemma truthy_twice_text:
  "0 < n \<Longrightarrow> py_truthy (opt_val PyStr (twice_text v n)) \<longleftrightarrow> py_truthy (opt_val PyStr (normalize_context_text v n))"
  using truthy_text [of n "opt_val PyStr (normalize_context_text v n)"]
  by (simp add: twice_text_def truthy_text normalize_text_twice_None)

definition normalized_context :: "py_dict \<Rightarrow> pyfloat option \<Rightarrow> pyfloat option \<Rightarrow> pyfloat option \<Rightarrow> crawl_task_context" where
  "normalized_context m d q s = \<lparr>
     tag_name = twice_text (py_get m ''tag_name'') 64,
     source_tag = twice_text (py_get m ''source_tag'') 64,
     source_attribute = twice_text (py_get m ''source_attribute'') 64,
     text_hint = twice_text (py_get m ''text_hint'') 280,
     surrounding_text = twice_text (py_get m ''surrounding_text'') 500,
     mime_hint = twice_text (py_get m ''mime_hint'') 128,
     alt_text = twice_text (py_get m ''alt_text'') 280,
     caption_text = twice_text (py_get m ''caption_text'') 500,
     width = context_int (py_get m ''width''),
     height = context_int (py_get m ''height''),
     duration_seconds = d,
     asset_quality_score = q,
     asset_fetch_mode = twice_text (py_get m ''asset_fetch_mode'') 64,
     asset_rejection_reason = twice_text (py_get m ''asset_rejection_reason'') 128,
     embed_url = twice_text (py_get m ''embed_url'') 500,
     embed_host = twice_text (py_get m ''embed_host'') 253,
     poster_url = twice_text (py_get m ''poster_url'') 500,
     parent_text_hash = twice_text (py_get m ''parent_text_hash'') 128,
     parent_text_preview = twice_text (py_get m ''parent_text_preview'') 500,
     parent_title = twice_text (py_get m ''parent_title'') 280,
     html_dom_path = twice_text (py_get m ''html_dom_path'') 280,
     asset_discovery_stage = twice_text (py_get m ''asset_discovery_stage'') 64,
     source_page_url = twice_text (py_get m ''source_page_url'') 500,
     discovery_reason = twice_text (py_get m ''discovery_reason'') 128,
     candidate_strength = s,
     selection_reason = twice_text (py_get m ''selection_reason'') 128,
     admission_reason = twice_text (py_get m ''admission_reason'') 128,
     media_identity = twice_text (py_get m ''media_identity'') 768,
     source_page_depth = context_int (py_get m ''source_page_depth''),
     is_boilerplate_asset = context_bool (py_get m ''is_boilerplate_asset''),
     boilerplate_reason = twice_text (py_get m ''boilerplate_reason'') 128\<rparr>"

lemma context_from_all_fields:
  assumes "context_float (py_get m ''duration_seconds'') = Inr d"
    and "context_float (py_get m ''asset_quality_score'') = Inr q"
    and "context_float (py_get m ''candidate_strength'') = Inr s"
  shows "\<exists>base workflow. parse_base_context_fields m = Inr base \<and>
     parse_workflow_context_fields m = Inr workflow \<and>
     context_from_fields (base @ parse_logging_context_fields m @ parse_coverage_context_fields m @ workflow)
       = Inr (normalized_context m d q s) \<and>
     list_ex (\<lambda>(k, v). py_truthy v) (base @ parse_logging_context_fields m @ parse_coverage_context_fields m @ workflow)
       = context_truthy (normalized_context m d q s)"
  unfolding parse_base_context_fields_def parse_workflow_context_fields_def
    parse_logging_context_fields_def parse_coverage_context_fields_def assms sum.case append.simps
  apply (intro exI conjI, rule refl, rule refl)
  subgoal
    unfolding context_from_fields_def normalized_context_def
    by (simp add: py_get_Cons twice_text_def [symmetric])
  subgoal
    unfolding context_truthy_def normalized_context_def
    by (simp add: truthy_twice_text)
  done

lemma coerce_mapping_eq:
  "coerce_crawl_task_context (ContextMapping m) =
    (case context_float (py_get m ''duration_seconds'') of Inl e \<Rightarrow> Inl e | Inr d \<Rightarrow>
     (case context_float (py_get m ''asset_quality_score'') of Inl e \<Rightarrow> Inl e | Inr q \<Rightarrow>
      (case context_float (py_get m ''candidate_strength'') of Inl e \<Rightarrow> Inl e | Inr s \<Rightarrow>
        (if context_truthy (normalized_context m d q s)
         then Inr (Some (normalized_context m d q s)) else Inr None))))"
proof (cases "context_float (py_get m ''duration_seconds'')")
  case d: (Inr d)
  show ?thesis
  proof (cases "context_float (py_get m ''asset_quality_score'')")
    case q: (Inr q)
    show ?thesis
    proof (cases "context_float (py_get m ''candidate_strength'')")
      case s: (Inr s)
      show ?thesis
        using context_from_all_fields [OF d q s]
        by (auto simp: coerce_crawl_task_context_def d q s Let_def)
    qed (simp add: coerce_crawl_task_context_def parse_base_context_fields_def parse_workflow_context_fields_def d q)
  qed (simp add: coerce_crawl_task_context_def parse_base_context_fields_def parse_workflow_context_fields_def d)
qed (simp add: coerce_crawl_task_context_def parse_base_context_fields_def)

lemma normalized_context_ok: "context_ok (normalized_context m d q s)"
  unfolding context_ok_def normalized_context_def by simp

lemma coerced_context_ok:
  assumes "coerce_crawl_task_context (ContextMapping m) = Inr (Some c)"
  shows "context_ok c" and "context_truthy c"
  using assms by (auto simp: coerce_mapping_eq normalized_context_ok split: sum.splits if_splits)

lemma normalized_context_fix:
  assumes "context_ok c"
  shows "normalized_context (context_to_dict c) (duration_seconds c) (asset_quality_score c) (candidate_strength c) = c"
  using assms unfolding context_ok_def normalized_context_def
  by (simp add: py_get_context_to_dict twice_text_fix)

lemma coerce_context_fix:
  assumes "context_ok c" and "context_truthy c"
  shows "coerce_crawl_task_context (ContextMapping (context_to_dict c)) = Inr (Some c)"
  using assms by (simp add: coerce_mapping_eq py_get_context_to_dict normalized_context_fix)

end
