(* ===== verification/Crawl_Task.thy ===== *)
theory Crawl_Task imports
  Crawl_Context
begin

text \<open>
  The crawl task: \<open>crawler/classification/media_kind.py\<close>, \<open>crawler/crawl_tasks/crawl_task.py\<close>,
  the duplicate identity of \<open>crawler/discovery/task_identity.py\<close>. The identifier generator is
  outside the model: an operation that may call it takes the string it would return.
\<close>

section \<open>Media kinds\<close>

datatype media_kind = PAGE | FEED | IMAGE | AUDIO | VIDEO | DOCUMENT

fun kind_value :: "media_kind \<Rightarrow> string" where
  "kind_value PAGE = ''page''"
| "kind_value FEED = ''feed''"
| "kind_value IMAGE = ''image''"
| "kind_value AUDIO = ''audio''"
| "kind_value VIDEO = ''video''"
| "kind_value DOCUMENT = ''document''"

definition kind_members :: "(string \<times> media_kind) list" where
  "kind_members = map (\<lambda>k. (kind_value k, k)) [PAGE, FEED, IMAGE, AUDIO, VIDEO, DOCUMENT]"

datatype kind_input = KindObject media_kind | KindText string | KindOther

text \<open>\<open>str.casefold\<close>: lower case, and \<open>ss\<close> for U+00DF.\<close>

definition py_casefold :: "string \<Rightarrow> string" where
  "py_casefold s = concat (map (\<lambda>c. if (of_char c :: nat) = 223 then ''ss'' else [py_lower_char c]) s)"

definition parse_kind :: "kind_input \<Rightarrow> media_kind result" where
  "parse_kind value = (case value of
     KindObject k \<Rightarrow> Inr k
   | KindOther \<Rightarrow> Inl (TypeError ''media kind must be a string or MediaKind'')
   | KindText s \<Rightarrow> (let normalized = py_casefold (py_strip s) in
       if normalized = [] then Inl (ValueError ''media kind cannot be empty'')
       else (case map_of kind_members normalized of
           Some k \<Rightarrow> Inr k
         | None \<Rightarrow> Inl (ValueError (''unsupported media kind: '' @ repr_str s)))))"

section \<open>Tasks\<close>

record crawl_task =
  task_url :: string
  task_source_name :: string
  task_id :: "string option"
  task_kind :: media_kind
  task_depth :: int
  task_source_type :: string
  task_priority :: int
  task_parent_url :: "string option"
  task_context :: "crawl_task_context option"

definition generate_task_id :: "string \<Rightarrow> string result" where
  "generate_task_id raw_id = (let normalized = py_strip raw_id in
     if normalized = [] then Inl (ValueError ''id generator returned an empty task identifier'')
     else Inr (take 16 normalized))"

definition clean_optional_text :: "pyval \<Rightarrow> string option" where
  "clean_optional_text v = (if v = PyNone then None
     else (let text = py_strip (py_str v) in if text = [] then None else Some text))"

definition clean_required_url :: "string \<Rightarrow> string result" where
  "clean_required_url s = (let u = py_strip s in
     if u = [] then Inl (ValueError ''crawl task url is required'') else Inr u)"

definition clean_required_source_name :: "pyval \<Rightarrow> string result" where
  "clean_required_source_name v = (let n = py_lower (py_strip (py_str v)) in
     if n = [] then Inl (ValueError ''crawl task source_name is required'') else Inr n)"

definition task_coerce_int :: "pyval \<Rightarrow> int option" where
  "task_coerce_int v = (case v of
     PyStr s \<Rightarrow> (if CHR ''.'' \<in> set (py_strip s)
        then (case py_float (PyStr (py_strip s)) of Inl e \<Rightarrow> None
              | Inr x \<Rightarrow> (case float_to_int x of Inl e \<Rightarrow> None | Inr i \<Rightarrow> Some i))
        else (case py_int v of Inl e \<Rightarrow> None | Inr i \<Rightarrow> Some i))
   | PyInt i \<Rightarrow> Some i
   | PyFloat x \<Rightarrow> (case py_int v of Inl e \<Rightarrow> None | Inr i \<Rightarrow> Some i)
   | _ \<Rightarrow> None)"

text \<open>The constructor, with the normalisation of \<open>__post_init__\<close>.\<close>

definition construct_task :: "crawl_task \<Rightarrow> crawl_task result" where
  "construct_task t = (let name = py_lower (py_strip (task_source_name t)) in
     if name = [] then Inl (ValueError ''crawl task source_name is required'')
     else Inr (t\<lparr>task_source_name := name\<rparr>))"

record task_changes =
  new_url :: "string option"
  new_source_name :: "string option"
  new_kind :: "kind_input option"
  new_depth :: "int option"
  new_source_type :: "string option"
  new_priority :: "int option"
  new_parent_url :: "string option"
  new_task_id :: "string option"
  new_context :: context_input

definition no_changes :: task_changes where
  "no_changes = \<lparr>new_url = None, new_source_name = None, new_kind = None, new_depth = None,
     new_source_type = None, new_priority = None, new_parent_url = None, new_task_id = None,
     new_context = NoContext\<rparr>"

definition or_else :: "'a option \<Rightarrow> 'a \<Rightarrow> 'a" where
  "or_else x d = (case x of None \<Rightarrow> d | Some v \<Rightarrow> v)"

definition clone :: "crawl_task \<Rightarrow> task_changes \<Rightarrow> crawl_task result" where
  "clone t c =
    and_then (case new_kind c of None \<Rightarrow> Inr (task_kind t) | Some k \<Rightarrow> parse_kind k) (\<lambda>k.
    and_then (case new_context c of NoContext \<Rightarrow> Inr (task_context t) | x \<Rightarrow> coerce_crawl_task_context x) (\<lambda>ctx.
    construct_task \<lparr>
      task_url = or_else (new_url c) (task_url t),
      task_source_name = or_else (new_source_name c) (task_source_name t),
      task_id = (case new_task_id c of None \<Rightarrow> task_id t | Some i \<Rightarrow> clean_optional_text (PyStr i)),
      task_kind = k,
      task_depth = or_else (new_depth c) (task_depth t),
      task_source_type = or_else (new_source_type c) (task_source_type t),
      task_priority = or_else (new_priority c) (task_priority t),
      task_parent_url = (case new_parent_url c of None \<Rightarrow> task_parent_url t | Some u \<Rightarrow> Some u),
      task_context = ctx\<rparr>))"

definition opt_text :: "string option \<Rightarrow> pyval" where
  "opt_text v = (case v of None \<Rightarrow> PyNone | Some s \<Rightarrow> PyStr s)"

definition ensure_id :: "string \<Rightarrow> crawl_task \<Rightarrow> crawl_task result" where
  "ensure_id raw_id t = (if clean_optional_text (opt_text (task_id t)) \<noteq> None then Inr t
     else and_then (generate_task_id raw_id) (\<lambda>i. clone t (no_changes\<lparr>new_task_id := Some i\<rparr>)))"

section \<open>Construction\<close>

record task_build_request =
  req_url :: string
  req_source_name :: string
  req_kind :: "kind_input option"
  req_depth :: "int option"
  req_source_type :: "string option"
  req_priority :: "int option"
  req_parent_url :: "string option"
  req_task_id :: "string option"
  req_context :: context_input
  req_default_kind :: kind_input
  req_default_depth :: int
  req_default_source_type :: string
  req_default_priority :: int

definition build_request :: "string \<Rightarrow> string \<Rightarrow> task_build_request" where
  "build_request u name = \<lparr>req_url = u, req_source_name = name, req_kind = None, req_depth = None,
     req_source_type = None, req_priority = None, req_parent_url = None, req_task_id = None,
     req_context = NoContext, req_default_kind = KindObject PAGE, req_default_depth = 0,
     req_default_source_type = ''seed'', req_default_priority = 0\<rparr>"

definition build :: "string \<Rightarrow> task_build_request \<Rightarrow> crawl_task result" where
  "build raw_id r =
    and_then (case clean_optional_text (opt_text (req_task_id r)) of
        Some i \<Rightarrow> Inr i | None \<Rightarrow> generate_task_id raw_id) (\<lambda>i.
    and_then (clean_required_url (req_url r)) (\<lambda>u.
    and_then (clean_required_source_name (PyStr (req_source_name r))) (\<lambda>name.
    and_then (parse_kind (or_else (req_kind r) (req_default_kind r))) (\<lambda>k.
    and_then (coerce_crawl_task_context (req_context r)) (\<lambda>ctx.
    construct_task \<lparr>
      task_url = u,
      task_source_name = name,
      task_id = Some i,
      task_kind = k,
      task_depth = max 0 (or_else (req_depth r) (req_default_depth r)),
      task_source_type = or_else (clean_optional_text (opt_text (req_source_type r))) (req_default_source_type r),
      task_priority = or_else (req_priority r) (req_default_priority r),
      task_parent_url = clean_optional_text (opt_text (req_parent_url r)),
      task_context = ctx\<rparr>)))))"

definition build_seed :: "string \<Rightarrow> string \<Rightarrow> string \<Rightarrow> string \<Rightarrow> kind_input option \<Rightarrow> crawl_task result" where
  "build_seed raw_id u name source_type k = build raw_id ((build_request u name)
     \<lparr>req_kind := k, req_source_type := Some source_type, req_default_source_type := source_type\<rparr>)"

definition build_discovered ::
  "string \<Rightarrow> string \<Rightarrow> string \<Rightarrow> kind_input option \<Rightarrow> int \<Rightarrow> string \<Rightarrow> string \<Rightarrow> context_input \<Rightarrow>
   int option \<Rightarrow> kind_input \<Rightarrow> crawl_task result" where
  "build_discovered raw_id name u k parent_depth source_type parent_url ctx priority default_kind =
    and_then (parse_kind (or_else k default_kind)) (\<lambda>resolved_kind.
    (let resolved_depth = max 0 parent_depth;
         resolved_depth = (if resolved_kind \<in> {PAGE, FEED} then resolved_depth + 1 else resolved_depth)
     in build raw_id ((build_request u name)
          \<lparr>req_kind := Some (KindObject resolved_kind), req_depth := Some resolved_depth,
           req_source_type := Some source_type, req_priority := priority,
           req_parent_url := Some parent_url, req_context := ctx,
           req_default_kind := KindObject resolved_kind, req_default_depth := resolved_depth,
           req_default_source_type := source_type\<rparr>)))"

text \<open>\<open>payload.get("context")\<close> of a decoded payload is a mapping or another value.\<close>

definition context_of_value :: "pyval \<Rightarrow> context_input" where
  "context_of_value v = (case v of PyDict m \<Rightarrow> ContextMapping m | _ \<Rightarrow> NoContext)"

definition from_mapping ::
  "string \<Rightarrow> py_dict \<Rightarrow> kind_input \<Rightarrow> string \<Rightarrow> int \<Rightarrow> (crawl_task \<Rightarrow> int) option \<Rightarrow> crawl_task option result" where
  "from_mapping raw_id payload default_kind default_source_type default_priority priority_resolver =
    (case clean_optional_text (py_get payload ''url'') of None \<Rightarrow> Inr None | Some u \<Rightarrow>
      (case clean_optional_text (py_get payload ''source_name'') of
         None \<Rightarrow> Inl (ValueError ''persisted crawl task is missing source_name'')
       | Some name \<Rightarrow>
        (let priority = task_coerce_int (py_get payload ''priority'') in
         and_then (build raw_id ((build_request u name)
            \<lparr>req_kind := map_option KindText (clean_optional_text (py_get payload ''kind'')),
             req_depth := task_coerce_int (py_get payload ''depth''),
             req_source_type := clean_optional_text (py_get payload ''source_type''),
             req_priority := priority,
             req_parent_url := clean_optional_text (py_get payload ''parent_url''),
             req_task_id := clean_optional_text (py_get payload ''task_id''),
             req_context := context_of_value (py_get payload ''context''),
             req_default_kind := default_kind,
             req_default_source_type := default_source_type,
             req_default_priority := default_priority\<rparr>)) (\<lambda>task.
         case priority_resolver of
           None \<Rightarrow> Inr (Some task)
         | Some resolve \<Rightarrow> (if priority \<noteq> None then Inr (Some task)
             else map_sum id Some (clone task (no_changes\<lparr>new_priority := Some (resolve task)\<rparr>)))))))"

definition with_url_and_preserved_priority :: "crawl_task \<Rightarrow> string \<Rightarrow> int option \<Rightarrow> crawl_task result" where
  "with_url_and_preserved_priority t u priority =
     clone t (no_changes\<lparr>new_url := Some u, new_priority := Some (or_else priority (task_priority t))\<rparr>)"

definition with_url_and_resolved_priority :: "crawl_task \<Rightarrow> string \<Rightarrow> (crawl_task \<Rightarrow> int) \<Rightarrow> crawl_task result" where
  "with_url_and_resolved_priority t u resolve =
     and_then (clone t (no_changes\<lparr>new_url := Some u\<rparr>)) (\<lambda>candidate.
       clone candidate (no_changes\<lparr>new_priority := Some (resolve candidate)\<rparr>))"

definition prepare_for_enqueue :: "crawl_task \<Rightarrow> (crawl_task \<Rightarrow> int) \<Rightarrow> crawl_task result" where
  "prepare_for_enqueue t resolve = clone t (no_changes\<lparr>new_priority := Some (resolve t)\<rparr>)"

section \<open>Identity\<close>

definition normalize_token :: "string \<Rightarrow> string \<Rightarrow> string" where
  "normalize_token v dflt = (let token = py_lower (py_strip v) in if token = [] then dflt else token)"

definition identity_from_parts :: "string \<Rightarrow> string \<Rightarrow> string \<Rightarrow> string" where
  "identity_from_parts u k source_type =
     py_strip u @ ''|'' @ normalize_token k ''unknown'' @ ''|'' @ normalize_token source_type ''unknown''"

definition discovered_task_identity :: "crawl_task \<Rightarrow> string \<Rightarrow> string" where
  "discovered_task_identity t u = identity_from_parts u (kind_value (task_kind t)) (task_source_type t)"

definition scheduler_task_identity_key :: "crawl_task \<Rightarrow> string" where
  "scheduler_task_identity_key t = discovered_task_identity t (task_url t)"

definition scheduler_task_identity_key_for_url :: "crawl_task \<Rightarrow> string \<Rightarrow> string" where
  "scheduler_task_identity_key_for_url t u = discovered_task_identity t u"

section \<open>Lemmas\<close>

text \<open>Every task that a constructor returns has a normalised source name.\<close>

definition task_ok :: "crawl_task \<Rightarrow> bool" where
  "task_ok t \<longleftrightarrow> task_source_name t \<noteq> [] \<and> py_lower (py_strip (task_source_name t)) = task_source_name t"

lemma construct_task_ok [dest]: "construct_task t = Inr t' \<Longrightarrow> task_ok t'"
  by (auto simp: construct_task_def task_ok_def Let_def py_strip_lower split: if_splits)

lemma construct_task_id: "task_ok t \<Longrightarrow> construct_task t = Inr t"
  by (simp add: construct_task_def task_ok_def)

lemma clone_ok: "clone t c = Inr t' \<Longrightarrow> task_ok t'"
  by (auto simp: clone_def)

lemma build_ok: "build i r = Inr t \<Longrightarrow> task_ok t"
  by (auto simp: build_def)

lemma ensure_id_ok: "task_ok t \<Longrightarrow> ensure_id i t = Inr t' \<Longrightarrow> task_ok t'"
  by (auto simp: ensure_id_def clone_ok split: if_splits)

lemma or_else_simps [simp]: "or_else None d = d" "or_else (Some x) d = x"
  by (simp_all add: or_else_def)

lemma no_changes_simps [simp]:
  "new_url no_changes = None" "new_source_name no_changes = None" "new_kind no_changes = None"
  "new_depth no_changes = None" "new_source_type no_changes = None" "new_priority no_changes = None"
  "new_parent_url no_changes = None" "new_task_id no_changes = None" "new_context no_changes = NoContext"
  by (simp_all add: no_changes_def)

lemma clone_priority [simp]:
  "task_ok t \<Longrightarrow> clone t (no_changes\<lparr>new_priority := Some p\<rparr>) = Inr (t\<lparr>task_priority := p\<rparr>)"
  by (simp add: clone_def construct_task_def task_ok_def)

lemma clone_url [simp]:
  "task_ok t \<Longrightarrow> clone t (no_changes\<lparr>new_url := Some u\<rparr>) = Inr (t\<lparr>task_url := u\<rparr>)"
  by (simp add: clone_def construct_task_def task_ok_def)

lemma clone_url_priority [simp]:
  "task_ok t \<Longrightarrow> clone t (no_changes\<lparr>new_url := Some u, new_priority := Some p\<rparr>)
     = Inr (t\<lparr>task_url := u, task_priority := p\<rparr>)"
  by (simp add: clone_def construct_task_def task_ok_def)

lemma task_ok_update [simp]:
  "task_ok (t\<lparr>task_url := u\<rparr>) = task_ok t" "task_ok (t\<lparr>task_priority := p\<rparr>) = task_ok t"
  "task_ok (t\<lparr>task_id := i\<rparr>) = task_ok t" "task_ok (t\<lparr>task_depth := d\<rparr>) = task_ok t"
  by (simp_all add: task_ok_def)

lemma prepare_for_enqueue_ok: "task_ok t \<Longrightarrow> prepare_for_enqueue t f = Inr (t\<lparr>task_priority := f t\<rparr>)"
  by (simp add: prepare_for_enqueue_def)

text \<open>The generated identifier survives the cleaning of \<open>clone\<close>, so the result has one.\<close>

lemma py_strip_not_Nil:
  assumes "s \<noteq> []" and "\<not> py_space (hd s)"
  shows "py_strip s \<noteq> []"
proof -
  have "dropWhile py_space s = s" using assms by (simp add: dropWhile_eq_self_iff)
  moreover have "\<exists>x\<in>set (rev s). \<not> py_space x" using assms by (auto intro: bexI [of _ "hd s"])
  ultimately show ?thesis by (simp add: py_strip_def dropWhile_eq_Nil_conv)
qed

lemma py_strip_hd: "py_strip s \<noteq> [] \<Longrightarrow> \<not> py_space (hd (py_strip s))"
  using hd_rev_dropWhile_rev [of "py_strip s" py_space "dropWhile py_space s"] dropWhile_not_hd [of py_space s]
  by (auto simp: py_strip_def)

lemma generated_id_clean:
  assumes "generate_task_id raw = Inr i"
  shows "\<exists>j. clean_optional_text (PyStr i) = Some j \<and> j \<noteq> []"
proof -
  have "i \<noteq> []" and "\<not> py_space (hd i)"
    using assms py_strip_hd [of raw] by (auto simp: generate_task_id_def Let_def split: if_splits)
  then have "py_strip i \<noteq> []" by (rule py_strip_not_Nil)
  then show ?thesis by (auto simp: clean_optional_text_def Let_def)
qed

lemma ensure_id_some:
  assumes "ensure_id raw t = Inr t'"
  shows "\<exists>i. clean_optional_text (opt_text (task_id t')) = Some i"
proof (cases "clean_optional_text (opt_text (task_id t)) = None")
  case False
  then show ?thesis using assms by (auto simp: ensure_id_def)
next
  case True
  then obtain i where i: "generate_task_id raw = Inr i" and c: "clone t (no_changes\<lparr>new_task_id := Some i\<rparr>) = Inr t'"
    using assms by (auto simp: ensure_id_def)
  obtain j where j: "clean_optional_text (PyStr i) = Some j" and "j \<noteq> []"
    using generated_id_clean [OF i] by blast
  have "task_id t' = Some j" using c j by (auto simp: clone_def construct_task_def Let_def split: if_splits)
  moreover have "py_strip j = j" using j by (auto simp: clean_optional_text_def Let_def split: if_splits)
  ultimately show ?thesis using \<open>j \<noteq> []\<close> by (auto simp: opt_text_def clean_optional_text_def)
qed

subsection \<open>Identities\<close>

lemma split_at_last:
  assumes "xs @ c # ys = xs' @ c # ys'" and "c \<notin> set ys" and "c \<notin> set ys'"
  shows "xs = xs' \<and> ys = ys'"
proof -
  have "takeWhile (\<lambda>d. d \<noteq> c) (rev ys @ c # rev xs) = rev ys"
    and "takeWhile (\<lambda>d. d \<noteq> c) (rev ys' @ c # rev xs') = rev ys'"
    using assms(2,3) by (auto simp: takeWhile_append)
  moreover have "rev ys @ c # rev xs = rev ys' @ c # rev xs'"
    using arg_cong [OF assms(1), of rev] by simp
  ultimately have "rev ys = rev ys'" by simp
  then show ?thesis using assms(1) by simp
qed

lemma py_lower_inv: "py_lower_char c = CHR ''|'' \<Longrightarrow> c = CHR ''|''"
proof -
  assume "py_lower_char c = CHR ''|''"
  then have "lower_code (of_char c) = 124"
    using of_char_py_lower_char [of c] by simp
  then have "(of_char c :: nat) = 124"
    by (auto simp: lower_code_def split: if_splits)
  then have "(of_char c :: nat) = of_char (CHR ''|'')" by simp
  then show ?thesis by (simp only: of_char_eq_iff)
qed

lemma set_py_strip: "set (py_strip s) \<subseteq> set s"
  unfolding py_strip_def by (metis set_dropWhileD set_rev subsetI)

lemma normalize_token_bar: "CHR ''|'' \<notin> set s \<Longrightarrow> CHR ''|'' \<notin> set (normalize_token s ''unknown'')"
proof -
  assume s: "CHR ''|'' \<notin> set s"
  have "CHR ''|'' \<notin> set (py_lower (py_strip s))"
  proof
    assume "CHR ''|'' \<in> set (py_lower (py_strip s))"
    then obtain c where "c \<in> set (py_strip s)" and "py_lower_char c = CHR ''|''"
      by (auto simp: py_lower_def)
    then show False using s set_py_strip [of s] py_lower_inv [of c] by auto
  qed
  then show ?thesis by (simp add: normalize_token_def Let_def)
qed

lemma kind_value_lower: "py_lower (py_strip (kind_value k)) = kind_value k"
  by (induction k) code_simp+

lemma kind_value_facts:
  "CHR ''|'' \<notin> set (kind_value k)" "normalize_token (kind_value k) d = kind_value k" "kind_value k \<noteq> []"
  unfolding normalize_token_def kind_value_lower by (cases k; simp)+

lemma kind_value_inj [simp]: "kind_value k = kind_value k' \<longleftrightarrow> k = k'"
  by (cases k; cases k'; simp)

lemma discovered_identity_inj:
  assumes "discovered_task_identity t u = discovered_task_identity t' u'"
    and "CHR ''|'' \<notin> set (task_source_type t)" and "CHR ''|'' \<notin> set (task_source_type t')"
  shows "py_strip u = py_strip u' \<and> task_kind t = task_kind t' \<and>
     normalize_token (task_source_type t) ''unknown'' = normalize_token (task_source_type t') ''unknown''"
proof -
  define a where "a = normalize_token (task_source_type t) ''unknown''"
  define a' where "a' = normalize_token (task_source_type t') ''unknown''"
  have "(py_strip u @ CHR ''|'' # kind_value (task_kind t)) @ CHR ''|'' # a
      = (py_strip u' @ CHR ''|'' # kind_value (task_kind t')) @ CHR ''|'' # a'"
    using assms(1) by (simp add: discovered_task_identity_def identity_from_parts_def kind_value_facts a_def a'_def)
  then have "py_strip u @ CHR ''|'' # kind_value (task_kind t) = py_strip u' @ CHR ''|'' # kind_value (task_kind t') \<and> a = a'"
    by (rule split_at_last) (simp_all add: a_def a'_def normalize_token_bar assms)
  moreover from this have "py_strip u = py_strip u' \<and> kind_value (task_kind t) = kind_value (task_kind t')"
    by (intro split_at_last [of _ "CHR ''|''"]) (simp_all add: kind_value_facts)
  ultimately show ?thesis by (simp add: a_def a'_def)
qed

end
