(* ===== verification/Scheduling_Settings.thy ===== *)
theory Scheduling_Settings imports
  Crawl_Task
begin

text \<open>
  The scheduling settings, \<open>SchedulingSettings\<close> of \<open>config/collection/discovery.py\<close>: the
  fields the scheduler reads, their declared ranges, the cross-field validation, and the
  depth limits of \<open>crawler/scheduling/admission/admission_task_identity.py\<close>. The nested
  discovery feedback settings belong to the signal scorer, which is not modelled.
\<close>

record scheduling_settings =
  cfg_max_depth :: int
  cfg_max_document_candidate_depth :: "int option"
  cfg_max_audio_candidate_depth :: "int option"
  cfg_max_video_candidate_depth :: "int option"
  cfg_max_seen :: int
  cfg_seen_url_ttl_seconds :: "real option"
  cfg_max_pending_per_host :: int
  cfg_max_pending_per_host_under_pressure :: "int option"
  cfg_max_pending_per_host_critical :: "int option"
  cfg_max_pending_per_host_by_kind :: "(string \<times> int) list"
  cfg_max_pending_per_host_by_kind_under_pressure :: "(string \<times> int) list"
  cfg_max_pending_per_host_by_kind_critical :: "(string \<times> int) list"
  cfg_max_media_bytes_per_host :: int
  cfg_max_media_bytes_per_host_by_kind :: "(string \<times> int) list"
  cfg_max_inflight_per_host :: int
  cfg_inflight_host_wait_seconds :: real
  cfg_max_total_attempts :: int
  cfg_max_deferrals :: int
  cfg_max_timeouts :: int
  cfg_feed_max_total_attempts :: int
  cfg_feed_max_deferrals :: int
  cfg_feed_max_timeouts :: int
  cfg_max_total_attempts_by_kind :: "(string \<times> int) list"
  cfg_max_deferrals_by_kind :: "(string \<times> int) list"
  cfg_max_timeouts_by_kind :: "(string \<times> int) list"
  cfg_default_retry_wait_seconds :: real
  cfg_timeout_retry_wait_seconds :: real
  cfg_dead_letter_on_drain :: bool
  cfg_allow_scheduler_feedback :: bool
  cfg_record_host_quality :: bool
  cfg_host_feedback_max_hosts :: "int option"
  cfg_dynamic_crawl_budget_enabled :: bool
  cfg_crawl_budget_window :: int
  cfg_crawl_budget_low_info_threshold :: real
  cfg_max_feeds_per_host :: int
  cfg_max_feed_depth :: int
  cfg_robots_advice_ttl_seconds :: "real option"
  cfg_robots_advice_max_hosts :: int
  cfg_hostility_reject_threshold :: real
  cfg_queue_high_watermark :: int
  cfg_queue_critical_watermark :: int
  cfg_abandon_suppressed_threshold :: "real option"

definition opt_at_least :: "'a::linorder \<Rightarrow> 'a option \<Rightarrow> bool" where
  "opt_at_least lo v = (case v of None \<Rightarrow> True | Some x \<Rightarrow> lo \<le> x)"

text \<open>The ranges of the field declarations.\<close>

definition settings_in_range :: "scheduling_settings \<Rightarrow> bool" where
  "settings_in_range s \<longleftrightarrow>
     0 \<le> cfg_max_depth s \<and> opt_at_least 0 (cfg_max_document_candidate_depth s) \<and>
     opt_at_least 0 (cfg_max_audio_candidate_depth s) \<and> opt_at_least 0 (cfg_max_video_candidate_depth s) \<and>
     1 \<le> cfg_max_seen s \<and> opt_at_least 0 (cfg_seen_url_ttl_seconds s) \<and>
     1 \<le> cfg_max_pending_per_host s \<and> opt_at_least 1 (cfg_max_pending_per_host_under_pressure s) \<and>
     opt_at_least 1 (cfg_max_pending_per_host_critical s) \<and> 1 \<le> cfg_max_media_bytes_per_host s \<and>
     1 \<le> cfg_max_inflight_per_host s \<and> 0 < cfg_inflight_host_wait_seconds s \<and>
     0 \<le> cfg_max_total_attempts s \<and> 0 \<le> cfg_max_deferrals s \<and> 0 \<le> cfg_max_timeouts s \<and>
     0 \<le> cfg_feed_max_total_attempts s \<and> 0 \<le> cfg_feed_max_deferrals s \<and> 0 \<le> cfg_feed_max_timeouts s \<and>
     0 \<le> cfg_default_retry_wait_seconds s \<and> 0 \<le> cfg_timeout_retry_wait_seconds s \<and>
     opt_at_least 1 (cfg_host_feedback_max_hosts s) \<and> 1 \<le> cfg_crawl_budget_window s \<and>
     0 \<le> cfg_crawl_budget_low_info_threshold s \<and> cfg_crawl_budget_low_info_threshold s \<le> 1 \<and>
     0 \<le> cfg_max_feeds_per_host s \<and> 0 \<le> cfg_max_feed_depth s \<and>
     (case cfg_robots_advice_ttl_seconds s of None \<Rightarrow> True | Some t \<Rightarrow> 0 < t) \<and>
     0 \<le> cfg_robots_advice_max_hosts s \<and>
     0 \<le> cfg_hostility_reject_threshold s \<and> cfg_hostility_reject_threshold s \<le> 1 \<and>
     1 \<le> cfg_queue_high_watermark s \<and> 1 \<le> cfg_queue_critical_watermark s \<and>
     opt_at_least 0 (cfg_abandon_suppressed_threshold s)"

fun check_kind_limits :: "string \<Rightarrow> (string \<times> int) list \<Rightarrow> unit result" where
  "check_kind_limits field_name [] = Inr ()"
| "check_kind_limits field_name ((kind, limit) # rest) =
    (if kind \<notin> {''page'', ''image'', ''audio'', ''document'', ''video''}
     then Inl (ValueError (field_name @ '' only supports: page, image, audio, document, video''))
     else if limit < 1 then Inl (ValueError (field_name @ '' values must be >= 1''))
     else check_kind_limits field_name rest)"

fun check_media_limits :: "int \<Rightarrow> (string \<times> int) list \<Rightarrow> unit result" where
  "check_media_limits cap [] = Inr ()"
| "check_media_limits cap ((kind, limit) # rest) =
    (if kind \<notin> {''image'', ''audio'', ''document'', ''video''}
     then Inl (ValueError ''max_media_bytes_per_host_by_kind only supports: image, audio, document, video'')
     else if limit < 0 then Inl (ValueError ''max_media_bytes_per_host_by_kind values must be >= 0'')
     else if cap < limit
     then Inl (ValueError ''max_media_bytes_per_host_by_kind values must not exceed max_media_bytes_per_host'')
     else check_media_limits cap rest)"

definition validate_scheduler_thresholds :: "scheduling_settings \<Rightarrow> scheduling_settings result" where
  "validate_scheduler_thresholds s =
    (if cfg_queue_critical_watermark s < cfg_queue_high_watermark s
     then Inl (ValueError ''queue_critical_watermark must be greater than or equal to queue_high_watermark'')
     else if (case cfg_max_pending_per_host_under_pressure s of None \<Rightarrow> False | Some p \<Rightarrow> cfg_max_pending_per_host s < p)
     then Inl (ValueError ''max_pending_per_host_under_pressure must be less than or equal to max_pending_per_host'')
     else if (case (cfg_max_pending_per_host_critical s, cfg_max_pending_per_host_under_pressure s) of
         (Some c, Some p) \<Rightarrow> p < c | _ \<Rightarrow> False)
     then Inl (ValueError ''max_pending_per_host_critical must be less than or equal to max_pending_per_host_under_pressure'')
     else
       and_then (check_kind_limits ''max_pending_per_host_by_kind'' (cfg_max_pending_per_host_by_kind s)) (\<lambda>_.
       and_then (check_kind_limits ''max_pending_per_host_by_kind_under_pressure''
           (cfg_max_pending_per_host_by_kind_under_pressure s)) (\<lambda>_.
       and_then (check_kind_limits ''max_pending_per_host_by_kind_critical''
           (cfg_max_pending_per_host_by_kind_critical s)) (\<lambda>_.
       and_then (check_media_limits (cfg_max_media_bytes_per_host s) (cfg_max_media_bytes_per_host_by_kind s)) (\<lambda>_.
       Inr s)))))"

section \<open>Depth limits\<close>

definition effective_max_document_candidate_depth :: "scheduling_settings \<Rightarrow> int" where
  "effective_max_document_candidate_depth s = or_else (cfg_max_document_candidate_depth s) (cfg_max_depth s + 1)"

definition effective_max_audio_candidate_depth :: "scheduling_settings \<Rightarrow> int" where
  "effective_max_audio_candidate_depth s = or_else (cfg_max_audio_candidate_depth s) (cfg_max_depth s + 1)"

definition effective_max_video_candidate_depth :: "scheduling_settings \<Rightarrow> int" where
  "effective_max_video_candidate_depth s = or_else (cfg_max_video_candidate_depth s) (cfg_max_depth s + 1)"

definition max_depth_for_task :: "scheduling_settings \<Rightarrow> crawl_task \<Rightarrow> int" where
  "max_depth_for_task s t =
    (if task_kind t = DOCUMENT then effective_max_document_candidate_depth s
     else if task_kind t = AUDIO then effective_max_audio_candidate_depth s
     else if task_kind t = VIDEO then effective_max_video_candidate_depth s
     else if task_kind t \<noteq> PAGE then cfg_max_depth s
     else (let reason = (case task_context t of None \<Rightarrow> []
             | Some c \<Rightarrow> py_lower (py_strip (or_else (selection_reason c) [])))
       in if starts_with reason ''document_candidate_page'' then effective_max_document_candidate_depth s
          else if starts_with reason ''audio_candidate_page'' then effective_max_audio_candidate_depth s
          else if starts_with reason ''video_candidate_page'' then effective_max_video_candidate_depth s
          else cfg_max_depth s))"

text \<open>Settings for concrete instances: the declared defaults.\<close>

definition default_settings :: scheduling_settings where
  "default_settings = \<lparr>cfg_max_depth = 2, cfg_max_document_candidate_depth = None,
     cfg_max_audio_candidate_depth = None, cfg_max_video_candidate_depth = None,
     cfg_max_seen = 10000, cfg_seen_url_ttl_seconds = None,
     cfg_max_pending_per_host = 8, cfg_max_pending_per_host_under_pressure = Some 2,
     cfg_max_pending_per_host_critical = Some 1,
     cfg_max_pending_per_host_by_kind = [(''page'', 12), (''image'', 16), (''audio'', 8), (''document'', 8), (''video'', 4)],
     cfg_max_pending_per_host_by_kind_under_pressure = [], cfg_max_pending_per_host_by_kind_critical = [],
     cfg_max_media_bytes_per_host = 512000000,
     cfg_max_media_bytes_per_host_by_kind =
       [(''image'', 256000000), (''audio'', 128000000), (''document'', 128000000), (''video'', 96000000)],
     cfg_max_inflight_per_host = 1, cfg_inflight_host_wait_seconds = 1 / 10,
     cfg_max_total_attempts = 4, cfg_max_deferrals = 3, cfg_max_timeouts = 1,
     cfg_feed_max_total_attempts = 3, cfg_feed_max_deferrals = 2, cfg_feed_max_timeouts = 1,
     cfg_max_total_attempts_by_kind = [], cfg_max_deferrals_by_kind = [], cfg_max_timeouts_by_kind = [],
     cfg_default_retry_wait_seconds = 5, cfg_timeout_retry_wait_seconds = 5, cfg_dead_letter_on_drain = True,
     cfg_allow_scheduler_feedback = True, cfg_record_host_quality = True, cfg_host_feedback_max_hosts = Some 2048,
     cfg_dynamic_crawl_budget_enabled = True, cfg_crawl_budget_window = 200,
     cfg_crawl_budget_low_info_threshold = 12 / 100, cfg_max_feeds_per_host = 2, cfg_max_feed_depth = 1,
     cfg_robots_advice_ttl_seconds = Some 1800, cfg_robots_advice_max_hosts = 2048,
     cfg_hostility_reject_threshold = 3 / 10, cfg_queue_high_watermark = 96, cfg_queue_critical_watermark = 160,
     cfg_abandon_suppressed_threshold = Some 1200\<rparr>"

lemma default_settings_in_range: "settings_in_range default_settings"
  by (simp add: settings_in_range_def default_settings_def opt_at_least_def)

lemma default_settings_valid: "validate_scheduler_thresholds default_settings = Inr default_settings"
  by (simp add: validate_scheduler_thresholds_def default_settings_def)

lemma check_kind_limits_ok:
  "check_kind_limits f m = Inr () \<Longrightarrow> (k, l) \<in> set m \<Longrightarrow> 1 \<le> l"
  by (induction f m rule: check_kind_limits.induct) (auto split: if_splits)

end
