(* ===== verification/Host_Task_Queue.thy ===== *)
theory Host_Task_Queue imports
  Prelude
begin

text \<open>
  The fair per-host queue, \<open>crawler/scheduling/queueing/host_task_queue.py\<close>: one heap per
  host, a rotation of the hosts that have work, and counters. The host normaliser is a
  function argument. Each operation refines an operation on the round-robin list
  \<open>htq_abs\<close>, the hosts in rotation order with their entries in pop order.
\<close>

section \<open>Hosts\<close>

type_synonym host = "string option"

text \<open>What the queues rely on of \<open>HostNormalizer.normalize\<close>.\<close>

locale host_canonical =
  fixes nrm :: "host \<Rightarrow> host"
  assumes nrm_nrm [simp, host_simps]: "nrm (nrm h) = nrm h"
    and nrm_None [simp, host_simps]: "nrm None = None"
begin

lemma nrm_fixed_image: "h = nrm h' \<Longrightarrow> nrm h = h"
  by simp

end

section \<open>The state\<close>

record 'a queue_entry =
  entry_priority :: int
  entry_sequence :: int
  entry_task :: 'a

definition entry_key :: "'a queue_entry \<Rightarrow> int \<times> int" where
  "entry_key e = (entry_priority e, entry_sequence e)"

record 'a host_task_queue =
  queues :: "(host \<times> 'a queue_entry list) list"
  pending_by_host :: "(host \<times> int) list"
  host_order :: "host list"
  hosts_in_rotation :: "host set"
  queued_count :: int

record 'a host_task_queue_state =
  state_host_order :: "host list"
  state_host_queues :: "(host \<times> (int \<times> int \<times> 'a) list) list"

type_synonym 'a queue_item = "host \<times> int \<times> int \<times> 'a"

definition entry_item :: "host \<Rightarrow> 'a queue_entry \<Rightarrow> 'a queue_item" where
  "entry_item h e = (h, entry_priority e, entry_sequence e, entry_task e)"

definition empty_queue :: "'a host_task_queue" where
  "empty_queue = \<lparr>queues = [], pending_by_host = [], host_order = [], hosts_in_rotation = {}, queued_count = 0\<rparr>"

section \<open>Operations\<close>

definition max_pending_count :: "('k \<times> int) list \<Rightarrow> int" where
  "max_pending_count pending = (if pending = [] then 0 else Max (set (map snd pending)))"

definition queue_size :: "'a host_task_queue \<Rightarrow> int" where
  "queue_size q = queued_count q"

definition host_count :: "'a host_task_queue \<Rightarrow> nat" where
  "host_count q = length (queues q)"

definition max_pending_for_any_host :: "'a host_task_queue \<Rightarrow> int" where
  "max_pending_for_any_host q = max_pending_count (pending_by_host q)"

definition pending_for_host :: "(host \<Rightarrow> host) \<Rightarrow> 'a host_task_queue \<Rightarrow> host \<Rightarrow> int" where
  "pending_for_host nrm q h = get_default (pending_by_host q) (nrm h) 0"

definition pending_count_by_host :: "'a host_task_queue \<Rightarrow> (host \<times> int) list" where
  "pending_count_by_host q = pending_by_host q"

definition push :: "(host \<Rightarrow> host) \<Rightarrow> host \<Rightarrow> int \<Rightarrow> int \<Rightarrow> 'a \<Rightarrow> 'a host_task_queue \<Rightarrow> 'a host_task_queue" where
  "push nrm host priority sequence task q =
    (let host = nrm host;
         queue = get_default (queues q) host [];
         entry = \<lparr>entry_priority = priority, entry_sequence = sequence, entry_task = task\<rparr>;
         q = q\<lparr>queues := AList.update host (heap_push entry_key entry queue) (queues q),
               pending_by_host := AList.update host (get_default (pending_by_host q) host 0 + 1) (pending_by_host q),
               queued_count := queued_count q + 1\<rparr>
     in if queue = [] \<and> host \<notin> hosts_in_rotation q
        then q\<lparr>host_order := host_order q @ [host], hosts_in_rotation := insert host (hosts_in_rotation q)\<rparr>
        else q)"

definition drop_host :: "host \<Rightarrow> host list \<Rightarrow> host list" where
  "drop_host host order = filter (\<lambda>queued_host. queued_host \<noteq> host) order"

definition pop_item_for_host ::
  "(host \<Rightarrow> host) \<Rightarrow> host \<Rightarrow> 'a host_task_queue \<Rightarrow> 'a queue_item option \<times> 'a host_task_queue" where
  "pop_item_for_host nrm host q =
    (let host = nrm host in
     case heap_pop (get_default (queues q) host []) of
       None \<Rightarrow> (None, q)
     | Some (entry, rest) \<Rightarrow>
        (let remaining = get_default (pending_by_host q) host 0 - 1;
             q = q\<lparr>queues := AList.update host rest (queues q), queued_count := queued_count q - 1\<rparr>;
             q = (if 0 < remaining then
                   (let q = q\<lparr>pending_by_host := AList.update host remaining (pending_by_host q)\<rparr>
                    in if host \<notin> hosts_in_rotation q
                       then q\<lparr>host_order := host_order q @ [host], hosts_in_rotation := insert host (hosts_in_rotation q)\<rparr>
                       else q)
                  else q\<lparr>queues := AList.delete host (queues q),
                         pending_by_host := AList.delete host (pending_by_host q),
                         hosts_in_rotation := hosts_in_rotation q - {host},
                         host_order := drop_host host (host_order q)\<rparr>)
         in (Some (entry_item host entry), q)))"

definition pop_item :: "'a host_task_queue \<Rightarrow> 'a queue_item result \<times> 'a host_task_queue" where
  "pop_item q =
    (case host_order q of
       [] \<Rightarrow> (Inl (LookupError ''no queued tasks available''), q)
     | host # order \<Rightarrow>
        (let q = q\<lparr>host_order := order, hosts_in_rotation := hosts_in_rotation q - {host}\<rparr> in
         case heap_pop (get_default (queues q) host []) of
           None \<Rightarrow> (Inl (LookupError ''scheduler state corrupted: host rotation contains empty host''), q)
         | Some (entry, rest) \<Rightarrow>
            (let remaining = get_default (pending_by_host q) host 0 - 1;
                 q = q\<lparr>queues := AList.update host rest (queues q), queued_count := queued_count q - 1\<rparr>;
                 q = (if 0 < remaining
                      then q\<lparr>pending_by_host := AList.update host remaining (pending_by_host q),
                             host_order := host_order q @ [host],
                             hosts_in_rotation := insert host (hosts_in_rotation q)\<rparr>
                      else q\<lparr>queues := AList.delete host (queues q),
                             pending_by_host := AList.delete host (pending_by_host q)\<rparr>)
             in (Inr (entry_item host entry), q))))"

definition pop :: "'a host_task_queue \<Rightarrow> 'a result \<times> 'a host_task_queue" where
  "pop q = (case pop_item q of (r, q') \<Rightarrow> (and_then r (\<lambda>(h, p, s, t). Inr t), q'))"

definition discard_host :: "(host \<Rightarrow> host) \<Rightarrow> host \<Rightarrow> 'a host_task_queue \<Rightarrow> int \<times> 'a host_task_queue" where
  "discard_host nrm host q =
    (let host = nrm host;
         queue = get_default (queues q) host [];
         q = q\<lparr>queues := AList.delete host (queues q)\<rparr>
     in if queue = [] then
          (0, q\<lparr>pending_by_host := AList.delete host (pending_by_host q),
                hosts_in_rotation := hosts_in_rotation q - {host},
                host_order := drop_host host (host_order q)\<rparr>)
        else
          (int (length queue),
           q\<lparr>queued_count := max 0 (queued_count q - int (length queue)),
             pending_by_host := AList.delete host (pending_by_host q),
             hosts_in_rotation := hosts_in_rotation q - {host},
             host_order := drop_host host (host_order q)\<rparr>))"

definition clear_queue :: "'a host_task_queue \<Rightarrow> 'a host_task_queue" where
  "clear_queue q = q\<lparr>queues := [], pending_by_host := [], host_order := [], hosts_in_rotation := {}, queued_count := 0\<rparr>"

subsection \<open>Snapshots\<close>

lemma heap_pop_length: "heap_pop q = Some (e, q') \<Longrightarrow> length q = Suc (length q')"
  by (cases q) auto

function iter_heap_in_pop_order :: "'e list \<Rightarrow> 'e list" where
  "iter_heap_in_pop_order q = (case heap_pop q of None \<Rightarrow> [] | Some (e, q') \<Rightarrow> e # iter_heap_in_pop_order q')"
  by pat_completeness auto
termination
  by (relation "measure length") (auto dest: heap_pop_length)

declare iter_heap_in_pop_order.simps [simp del]

definition total_entries :: "('k \<times> 'e list) list \<Rightarrow> nat" where
  "total_entries m = sum_list (map (length \<circ> snd) m)"

lemma total_entries_update:
  "map_of m k = Some v \<Longrightarrow> total_entries (AList.update k w m) + length v = total_entries m + length w"
  by (induction m) (auto simp: total_entries_def split: if_splits)

function snapshot_loop :: "(host \<times> 'a queue_entry list) list \<Rightarrow> host list \<Rightarrow> 'a queue_item list" where
  "snapshot_loop queues_copy [] = []"
| "snapshot_loop queues_copy (host # rotation) =
     (case heap_pop (get_default queues_copy host []) of
        None \<Rightarrow> snapshot_loop queues_copy rotation
      | Some (entry, rest) \<Rightarrow> entry_item host entry #
          snapshot_loop (AList.update host rest queues_copy) (if rest = [] then rotation else rotation @ [host]))"
  by pat_completeness auto
termination
proof (relation "measure (\<lambda>(m, r). length r + total_entries m)")
  fix m :: "(host \<times> 'a queue_entry list) list" and host rotation x entry rest
  assume *: "heap_pop (get_default m host []) = Some x" and "(entry, rest) = x"
  then have "map_of m host = Some (entry # rest)"
    by (cases "map_of m host"; cases "the (map_of m host)") (auto simp: get_default_def)
  from total_entries_update [OF this, of rest]
  show "((AList.update host rest m, if rest = [] then rotation else rotation @ [host]), m, host # rotation)
      \<in> measure (\<lambda>(m, r). length r + total_entries m)"
    by auto
qed auto

definition snapshot_items :: "'a host_task_queue \<Rightarrow> 'a queue_item list" where
  "snapshot_items q = (if host_order q = [] then [] else snapshot_loop (queues q) (host_order q))"

fun collect_hosts :: "(host \<times> 'a queue_entry list) list \<Rightarrow> host list \<Rightarrow> host list \<Rightarrow> host list" where
  "collect_hosts m [] ordered = ordered"
| "collect_hosts m (host # hosts) ordered =
     (if host \<in> set ordered \<or> get_default m host [] = [] then collect_hosts m hosts ordered
      else collect_hosts m hosts (ordered @ [host]))"

definition entry_triple :: "'a queue_entry \<Rightarrow> int \<times> int \<times> 'a" where
  "entry_triple e = (entry_priority e, entry_sequence e, entry_task e)"

definition snapshot_state :: "'a host_task_queue \<Rightarrow> 'a host_task_queue_state" where
  "snapshot_state q =
    (let ordered_hosts = collect_hosts (queues q) (map fst (queues q)) (collect_hosts (queues q) (host_order q) [])
     in \<lparr>state_host_order = ordered_hosts,
         state_host_queues = concat (map (\<lambda>host. let queue = get_default (queues q) host [] in
            if queue = [] then [] else [(host, map entry_triple (iter_heap_in_pop_order queue))]) ordered_hosts)\<rparr>)"

definition triple_entry :: "int \<times> int \<times> 'a \<Rightarrow> 'a queue_entry" where
  "triple_entry = (\<lambda>(p, s, t). \<lparr>entry_priority = p, entry_sequence = s, entry_task = t\<rparr>)"

text \<open>The two loops of \<open>restore_state\<close>: the heaps and counters, then the rotation.\<close>

fun restore_queues ::
  "(host \<Rightarrow> host) \<Rightarrow> (host \<times> (int \<times> int \<times> 'a) list) list \<Rightarrow> 'a host_task_queue \<times> host list \<Rightarrow>
   'a host_task_queue \<times> host list" where
  "restore_queues nrm [] (q, active) = (q, active)"
| "restore_queues nrm ((raw_host, entries) # rest) (q, active) =
    (let host = nrm raw_host;
         queue = foldl (\<lambda>h t. heap_push entry_key (triple_entry t) h) (get_default (queues q) host []) entries;
         q = q\<lparr>queues := AList.update host queue (queues q)\<rparr>
     in restore_queues nrm rest
        (if queue = [] then (q, active)
         else (q\<lparr>pending_by_host := AList.update host (int (length queue)) (pending_by_host q)\<rparr>,
               if host \<in> set active then active else active @ [host])))"

fun restore_rotation :: "(host \<Rightarrow> host) \<Rightarrow> host list \<Rightarrow> host list \<Rightarrow> 'a host_task_queue \<Rightarrow> 'a host_task_queue" where
  "restore_rotation nrm active [] q = q"
| "restore_rotation nrm active (raw_host # hosts) q =
    (let host = nrm raw_host in
     restore_rotation nrm active hosts
       (if host \<in> set active \<and> host \<notin> hosts_in_rotation q
        then q\<lparr>host_order := host_order q @ [host], hosts_in_rotation := insert host (hosts_in_rotation q)\<rparr>
        else q))"

definition restore_state ::
  "(host \<Rightarrow> host) \<Rightarrow> 'a host_task_queue_state \<Rightarrow> 'a host_task_queue \<Rightarrow> int \<times> 'a host_task_queue" where
  "restore_state nrm state q =
    (case restore_queues nrm (state_host_queues state) (clear_queue q, []) of (q, active_hosts) \<Rightarrow>
      (let q = q\<lparr>queued_count := sum_list (map (int \<circ> length \<circ> snd) (queues q))\<rparr>;
           q = restore_rotation nrm active_hosts (state_host_order state) q;
           q = restore_rotation id active_hosts active_hosts q
       in (queued_count q, q)))"

section \<open>The abstract round robin\<close>

text \<open>
  What the queue promises: the hosts in rotation order, each with its entries in pop
  order. A push inserts by priority and puts a new host last; a pop takes the first entry
  of the first host, which goes to the back while it has work.
\<close>

type_synonym 'a rotation = "(host \<times> 'a queue_entry list) list"

definition rr_push :: "host \<Rightarrow> 'a queue_entry \<Rightarrow> 'a rotation \<Rightarrow> 'a rotation" where
  "rr_push h e r = AList.update h (heap_push entry_key e (get_default r h [])) r"

fun rr_pop :: "'a rotation \<Rightarrow> ('a queue_item \<times> 'a rotation) option" where
  "rr_pop [] = None"
| "rr_pop ((h, []) # r) = None"
| "rr_pop ((h, e # es) # r) = Some (entry_item h e, if es = [] then r else r @ [(h, es)])"

fun rr_pop_for :: "host \<Rightarrow> 'a rotation \<Rightarrow> 'a queue_item option \<times> 'a rotation" where
  "rr_pop_for h r = (case get_default r h [] of
     [] \<Rightarrow> (None, r)
   | e # es \<Rightarrow> (Some (entry_item h e), if es = [] then AList.delete h r else AList.update h es r))"

definition rr_discard :: "host \<Rightarrow> 'a rotation \<Rightarrow> int \<times> 'a rotation" where
  "rr_discard h r = (int (length (get_default r h [])), AList.delete h r)"

definition htq_abs :: "'a host_task_queue \<Rightarrow> 'a rotation" where
  "htq_abs q = map (\<lambda>h. (h, get_default (queues q) h [])) (host_order q)"

definition htq_inv :: "(host \<Rightarrow> host) \<Rightarrow> 'a host_task_queue \<Rightarrow> bool" where
  "htq_inv nrm q \<longleftrightarrow>
     distinct (map fst (queues q)) \<and> distinct (map fst (pending_by_host q)) \<and> distinct (host_order q) \<and>
     set (host_order q) = dom (map_of (queues q)) \<and> hosts_in_rotation q = dom (map_of (queues q)) \<and>
     (\<forall>h es. map_of (queues q) h = Some es \<longrightarrow> es \<noteq> [] \<and> heap_ok entry_key es \<and> nrm h = h) \<and>
     (\<forall>h. map_of (pending_by_host q) h = map_option (\<lambda>es. int (length es)) (map_of (queues q) h)) \<and>
     queued_count q = int (total_entries (queues q))"

section \<open>Lemmas\<close>

subsection \<open>Association lists\<close>

lemma total_entries_put:
  "total_entries (AList.update k w m) + length (get_default m k []) = total_entries m + length w"
  by (induction m) (auto simp: total_entries_def get_default_def split: option.splits)

lemma total_entries_delete:
  "distinct (map fst m) \<Longrightarrow> total_entries (AList.delete k m) + length (get_default m k []) = total_entries m"
proof (induction m)
  case (Cons x m)
  show ?case
  proof (cases "fst x = k")
    case True
    then have "AList.delete k (x # m) = m"
      using Cons.prems by (cases x) (simp add: AList.delete_id)
    then show ?thesis using True by (cases x) (simp add: total_entries_def get_default_def)
  next
    case False
    then show ?thesis using Cons by (cases x) (simp add: total_entries_def get_default_def)
  qed
qed (simp add: total_entries_def get_default_def)

lemma delete_update_same [simp]: "AList.delete k (AList.update k v m) = AList.delete k m"
  by (induction m) auto

lemma update_map_pairs:
  "distinct hs \<Longrightarrow> AList.update h v (map (\<lambda>x. (x, f x)) hs) =
     (if h \<in> set hs then map (\<lambda>x. (x, if x = h then v else f x)) hs else map (\<lambda>x. (x, f x)) hs @ [(h, v)])"
  by (induction hs) auto

lemma delete_map_pairs: "AList.delete h (map (\<lambda>x. (x, f x)) hs) = map (\<lambda>x. (x, f x)) (filter (\<lambda>x. x \<noteq> h) hs)"
  by (induction hs) auto

lemma get_default_map_pairs: "get_default (map (\<lambda>x. (x, f x)) hs) h d = (if h \<in> set hs then f h else d)"
  by (induction hs) (auto simp: get_default_def)

lemma get_default_Some: "map_of m k = Some v \<Longrightarrow> get_default m k d = v"
  by (simp add: get_default_def)

lemma get_default_None: "map_of m k = None \<Longrightarrow> get_default m k d = d"
  by (simp add: get_default_def)

lemma distinct_keys_update [simp]: "distinct (map fst m) \<Longrightarrow> distinct (map fst (AList.update k v m))"
  by (rule distinct_update)

lemma distinct_keys_delete [simp]: "distinct (map fst m) \<Longrightarrow> distinct (map fst (AList.delete k m))"
  by (rule distinct_delete)

lemmas alist_simps = update_conv' delete_conv' get_default_Some get_default_None

subsection \<open>The invariant\<close>

lemma htq_invD:
  assumes "htq_inv nrm q"
  shows "distinct (map fst (queues q))" and "distinct (map fst (pending_by_host q))"
    and "distinct (host_order q)" and "set (host_order q) = dom (map_of (queues q))"
    and "hosts_in_rotation q = dom (map_of (queues q))"
    and "map_of (queues q) h = Some es \<Longrightarrow> es \<noteq> [] \<and> heap_ok entry_key es \<and> nrm h = h"
    and "map_of (pending_by_host q) h = map_option (\<lambda>es. int (length es)) (map_of (queues q) h)"
    and "queued_count q = int (total_entries (queues q))"
  using assms unfolding htq_inv_def by blast+

lemma htq_inv_pending:
  "htq_inv nrm q \<Longrightarrow> get_default (pending_by_host q) h 0 = int (length (get_default (queues q) h []))"
  using htq_invD(7) [of nrm q h] by (cases "map_of (queues q) h") (auto simp: alist_simps)

lemma htq_inv_heap: "htq_inv nrm q \<Longrightarrow> heap_ok entry_key (get_default (queues q) h [])"
  using htq_invD(6) [of nrm q h] by (cases "map_of (queues q) h") (auto simp: alist_simps)

lemma htq_inv_empty_iff: "htq_inv nrm q \<Longrightarrow> get_default (queues q) h [] = [] \<longleftrightarrow> h \<notin> set (host_order q)"
  using htq_invD(6) [of nrm q h] htq_invD(4) [of nrm q]
  by (cases "map_of (queues q) h") (auto simp: alist_simps)

lemma htq_abs_get: "htq_inv nrm q \<Longrightarrow> get_default (htq_abs q) h [] = get_default (queues q) h []"
  using htq_inv_empty_iff [of nrm q h] by (auto simp: htq_abs_def get_default_map_pairs)

lemma empty_queue_inv: "htq_inv nrm empty_queue"
  by (simp add: htq_inv_def empty_queue_def total_entries_def)

lemma clear_queue_eq: "clear_queue q = empty_queue"
  by (simp add: clear_queue_def empty_queue_def)

text \<open>Storing a non-empty heap for a host, and removing a host, keep the invariant.\<close>

lemma htq_inv_store:
  assumes "htq_inv nrm q" and "es \<noteq> []" and "heap_ok entry_key es" and "nrm h = h"
    and "queues q' = AList.update h es (queues q)"
    and "pending_by_host q' = AList.update h (int (length es)) (pending_by_host q)"
    and "distinct (host_order q')" and "set (host_order q') = insert h (set (host_order q))"
    and "hosts_in_rotation q' = insert h (hosts_in_rotation q)"
    and "queued_count q' + int (length (get_default (queues q) h [])) = queued_count q + int (length es)"
  shows "htq_inv nrm q'"
  unfolding htq_inv_def
  using assms(2-) htq_invD(1-5) [OF assms(1)] htq_invD(6,7,8) [OF assms(1)]
    total_entries_put [of h es "queues q"]
  by (simp add: update_conv' dom_def) auto

lemma htq_inv_remove:
  assumes "htq_inv nrm q"
    and "queues q' = AList.delete h (queues q)"
    and "pending_by_host q' = AList.delete h (pending_by_host q)"
    and "distinct (host_order q')" and "set (host_order q') = set (host_order q) - {h}"
    and "hosts_in_rotation q' = hosts_in_rotation q - {h}"
    and "queued_count q' + int (length (get_default (queues q) h [])) = queued_count q"
  shows "htq_inv nrm q'"
  unfolding htq_inv_def
  using assms(2-) htq_invD(1-5) [OF assms(1)] htq_invD(6,7,8) [OF assms(1)]
    total_entries_delete [of "queues q" h]
  by (auto simp add: delete_conv' dom_def)

subsection \<open>Every operation refines the round robin and keeps the invariant\<close>

interpretation host_heap: priority_heap "heap_push entry_key" heap_pop mset "heap_ok entry_key" entry_key
  by (rule priority_heap_list)

context host_canonical begin

lemma push_inv:
  assumes "htq_inv nrm q"
  shows "htq_inv nrm (push nrm h p s t q)"
proof -
  define e where "e = \<lparr>entry_priority = p, entry_sequence = s, entry_task = t\<rparr>"
  define es where "es = get_default (queues q) (nrm h) []"
  have "heap_ok entry_key (heap_push entry_key e es)"
    unfolding es_def by (rule host_heap.ok_push [OF htq_inv_heap [OF assms]])
  then show ?thesis
    using htq_invD(3,4,5) [OF assms] htq_inv_pending [OF assms, of "nrm h"] htq_inv_empty_iff [OF assms, of "nrm h"]
    by (intro htq_inv_store [OF assms, where h = "nrm h" and es = "heap_push entry_key e es"])
      (auto simp: push_def Let_def es_def e_def ac_simps)
qed

lemma push_abs:
  assumes "htq_inv nrm q"
  shows "htq_abs (push nrm h p s t q) =
    rr_push (nrm h) \<lparr>entry_priority = p, entry_sequence = s, entry_task = t\<rparr> (htq_abs q)"
proof -
  have rot: "hosts_in_rotation q = set (host_order q)" using htq_invD(4,5) [OF assms] by simp
  note facts = rot htq_invD(3) [OF assms] htq_inv_empty_iff [OF assms, of "nrm h"]
  show ?thesis
    unfolding rr_push_def htq_abs_get [OF assms] unfolding htq_abs_def
    by (cases "nrm h \<in> set (host_order q)")
      (use facts in \<open>auto simp: push_def Let_def update_map_pairs\<close>)
qed

lemma pop_item_for_host_inv:
  assumes "htq_inv nrm q"
  shows "htq_inv nrm (snd (pop_item_for_host nrm h q))"
proof (cases "get_default (queues q) (nrm h) []")
  case (Cons e es)
  have in_order: "nrm h \<in> set (host_order q)"
    using htq_inv_empty_iff [OF assms, of "nrm h"] Cons by auto
  have pend: "get_default (pending_by_host q) (nrm h) 0 = 1 + int (length es)"
    using htq_inv_pending [OF assms, of "nrm h"] Cons by simp
  have rot: "nrm h \<in> hosts_in_rotation q" using htq_invD(4,5) [OF assms] in_order by simp
  show ?thesis
  proof (cases "es = []")
    case True
    then show ?thesis
      using htq_invD(3) [OF assms] Cons pend
      by (intro htq_inv_remove [OF assms, where h = "nrm h"])
        (auto simp: pop_item_for_host_def Let_def drop_host_def)
  next
    case False
    have "heap_ok entry_key es"
      using host_heap.pop_ok [OF htq_inv_heap [OF assms, of "nrm h"], of e es] Cons by simp
    with False show ?thesis
      using htq_invD(3) [OF assms] Cons pend in_order rot
      by (intro htq_inv_store [OF assms, where h = "nrm h" and es = es])
        (auto simp: pop_item_for_host_def Let_def)
  qed
qed (simp add: pop_item_for_host_def Let_def assms)

lemma pop_item_for_host_abs:
  assumes "htq_inv nrm q"
  shows "rr_pop_for (nrm h) (htq_abs q) =
    (fst (pop_item_for_host nrm h q), htq_abs (snd (pop_item_for_host nrm h q)))"
proof (cases "get_default (queues q) (nrm h) []")
  case (Cons e es)
  have in_order: "nrm h \<in> set (host_order q)"
    using htq_inv_empty_iff [OF assms, of "nrm h"] Cons by auto
  have pend: "get_default (pending_by_host q) (nrm h) 0 = 1 + int (length es)"
    using htq_inv_pending [OF assms, of "nrm h"] Cons by simp
  have rot: "nrm h \<in> hosts_in_rotation q" using htq_invD(4,5) [OF assms] in_order by simp
  show ?thesis
    using htq_invD(3) [OF assms] Cons pend in_order rot
    by (auto simp: htq_abs_get [OF assms])
      (auto simp: htq_abs_def pop_item_for_host_def Let_def update_map_pairs delete_map_pairs
        drop_host_def)
qed (simp add: htq_abs_get [OF assms], simp add: pop_item_for_host_def Let_def)

lemma pop_item_inv:
  assumes "htq_inv nrm q"
  shows "htq_inv nrm (snd (pop_item q))"
proof (cases "host_order q")
  case (Cons h hs)
  have nonempty: "get_default (queues q) h [] \<noteq> []"
    using htq_inv_empty_iff [OF assms, of h] Cons by simp
  then obtain e es where es: "get_default (queues q) h [] = e # es" by (meson neq_Nil_conv)
  have nh: "nrm h = h"
    using htq_invD(6) [OF assms, of h] nonempty by (cases "map_of (queues q) h") (auto simp: alist_simps)
  have pend: "get_default (pending_by_host q) h 0 = 1 + int (length es)"
    using htq_inv_pending [OF assms, of h] es by simp
  have h: "h \<notin> set hs" "distinct hs" using htq_invD(3) [OF assms] Cons by auto
  have rot: "hosts_in_rotation q = insert h (set hs)" using htq_invD(4,5) [OF assms] Cons by simp
  show ?thesis
  proof (cases "es = []")
    case True
    then show ?thesis
      using h es pend Cons rot
      by (intro htq_inv_remove [OF assms, where h = h])
        (auto simp: pop_item_def Let_def)
  next
    case False
    have "heap_ok entry_key es"
      using host_heap.pop_ok [OF htq_inv_heap [OF assms, of h], of e es] es by simp
    with False nh show ?thesis
      using h es pend Cons rot
      by (intro htq_inv_store [OF assms, where h = h and es = es])
        (auto simp: pop_item_def Let_def)
  qed
qed (simp add: pop_item_def assms)

lemma pop_item_abs:
  assumes "htq_inv nrm q"
  shows "case rr_pop (htq_abs q) of
      None \<Rightarrow> pop_item q = (Inl (LookupError ''no queued tasks available''), q)
    | Some (item, r) \<Rightarrow> fst (pop_item q) = Inr item \<and> htq_abs (snd (pop_item q)) = r"
proof (cases "host_order q")
  case (Cons h hs)
  have nonempty: "get_default (queues q) h [] \<noteq> []"
    using htq_inv_empty_iff [OF assms, of h] Cons by simp
  then obtain e es where es: "get_default (queues q) h [] = e # es" by (meson neq_Nil_conv)
  have pend: "get_default (pending_by_host q) h 0 = 1 + int (length es)"
    using htq_inv_pending [OF assms, of h] es by simp
  have h: "h \<notin> set hs" using htq_invD(3) [OF assms] Cons by auto
  show ?thesis
    using h es pend Cons by (auto simp: htq_abs_def pop_item_def Let_def)
qed (simp add: pop_item_def htq_abs_def)

lemma discard_host_inv:
  assumes "htq_inv nrm q"
  shows "htq_inv nrm (snd (discard_host nrm h q))"
  using htq_invD(3,8) [OF assms] total_entries_delete [OF htq_invD(1) [OF assms], of "nrm h"]
  by (intro htq_inv_remove [OF assms, where h = "nrm h"])
    (auto simp: discard_host_def Let_def drop_host_def)

lemma discard_host_abs:
  assumes "htq_inv nrm q"
  shows "rr_discard (nrm h) (htq_abs q) = (fst (discard_host nrm h q), htq_abs (snd (discard_host nrm h q)))"
  unfolding rr_discard_def htq_abs_get [OF assms]
  by (auto simp: htq_abs_def discard_host_def Let_def delete_map_pairs drop_host_def)

end

subsection \<open>Sequences of pops\<close>

text \<open>The items that \<open>n\<close> calls of \<open>pop_item\<close> return, up to the first that raises.\<close>

fun pops :: "nat \<Rightarrow> 'a host_task_queue \<Rightarrow> 'a queue_item list" where
  "pops 0 q = []"
| "pops (Suc n) q = (case pop_item q of (Inl err, q') \<Rightarrow> [] | (Inr item, q') \<Rightarrow> item # pops n q')"

lemma rr_pop_entries: "rr_pop r = Some (x, r') \<Longrightarrow> total_entries r = Suc (total_entries r')"
  by (cases r rule: rr_pop.cases) (auto simp: total_entries_def split: if_splits)

function rr_drain :: "'a rotation \<Rightarrow> 'a queue_item list" where
  "rr_drain r = (case rr_pop r of None \<Rightarrow> [] | Some (x, r') \<Rightarrow> x # rr_drain r')"
  by pat_completeness auto
termination
  by (relation "measure total_entries") (auto dest: rr_pop_entries)

declare rr_drain.simps [simp del]

definition rr_ok :: "'a rotation \<Rightarrow> bool" where
  "rr_ok r \<longleftrightarrow> (\<forall>(h, es)\<in>set r. es \<noteq> [])"

lemma rr_drain_Nil [simp]: "rr_drain [] = []"
  by (simp add: rr_drain.simps)

lemma rr_drain_Cons [simp]:
  "rr_drain ((h, e # es) # r) = entry_item h e # rr_drain (if es = [] then r else r @ [(h, es)])"
  by (subst rr_drain.simps) simp

lemma length_rr_drain: "rr_ok r \<Longrightarrow> length (rr_drain r) = total_entries r"
proof (induction r rule: rr_drain.induct)
  case (1 r)
  show ?case
  proof (cases r rule: rr_pop.cases)
    case (2 h r')
    then show ?thesis using 1 by (simp add: rr_ok_def)
  next
    case (3 h e es r')
    then show ?thesis using 1 by (auto simp: rr_ok_def total_entries_def)
  qed (simp add: total_entries_def)
qed

lemma rr_drain_round: "rr_ok r1 \<Longrightarrow> map fst (take (length r1) (rr_drain (r1 @ r2))) = map fst r1"
proof (induction r1 arbitrary: r2)
  case (Cons x r1)
  then obtain h e es where "x = (h, e # es)" by (cases x) (auto simp: rr_ok_def neq_Nil_conv)
  then show ?case using Cons by (simp add: rr_ok_def entry_item_def)
qed simp

lemma htq_abs_ok: "htq_inv nrm q \<Longrightarrow> rr_ok (htq_abs q)"
  by (auto simp: rr_ok_def htq_abs_def htq_inv_empty_iff)

lemma total_entries_sum:
  "distinct (map fst m) \<Longrightarrow> total_entries m = (\<Sum>k\<in>dom (map_of m). length (get_default m k []))"
proof -
  assume m: "distinct (map fst m)"
  have "map (length \<circ> snd) m = map (\<lambda>k. length (get_default m k [])) (map fst m)"
    using m by (auto simp: get_default_def)
  then have "total_entries m = sum_list (map (\<lambda>k. length (get_default m k [])) (map fst m))"
    by (simp only: total_entries_def)
  then show ?thesis
    using m by (simp only: sum_list_distinct_conv_sum_set dom_map_of_conv_image_fst set_map)
qed

lemma total_entries_abs: "htq_inv nrm q \<Longrightarrow> total_entries (htq_abs q) = total_entries (queues q)"
proof -
  assume inv: "htq_inv nrm q"
  have "total_entries (htq_abs q) = (\<Sum>h\<in>set (host_order q). length (get_default (queues q) h []))"
    using htq_invD(3) [OF inv] by (simp add: htq_abs_def total_entries_def comp_def sum_list_distinct_conv_sum_set)
  then show ?thesis by (simp only: total_entries_sum [OF htq_invD(1) [OF inv]] htq_invD(4) [OF inv])
qed

lemma snapshot_loop_drain:
  "distinct order \<Longrightarrow> \<forall>h\<in>set order. get_default m h [] \<noteq> [] \<Longrightarrow>
   snapshot_loop m order = rr_drain (map (\<lambda>h. (h, get_default m h [])) order)"
proof (induction m order rule: snapshot_loop.induct)
  case (2 m h hs)
  then obtain e es where e: "get_default m h [] = e # es" by (auto simp: neq_Nil_conv)
  have h: "h \<notin> set hs" using 2 by simp
  define m' where "m' = AList.update h es m"
  have get: "map (\<lambda>x. (x, get_default m' x [])) hs = map (\<lambda>x. (x, get_default m x [])) hs"
    using h by (auto simp: m'_def)
  have "snapshot_loop m' (if es = [] then hs else hs @ [h]) =
      rr_drain (map (\<lambda>h. (h, get_default m' h [])) (if es = [] then hs else hs @ [h]))"
    unfolding m'_def by (rule 2(2)) (use 2(3,4) e h in auto)
  moreover have "get_default m' h [] = es" by (simp add: m'_def)
  ultimately show ?case using e by (simp add: m'_def [symmetric] get del: map_eq_conv)
qed simp

context host_canonical begin

lemma snapshot_items_drain: "htq_inv nrm q \<Longrightarrow> snapshot_items q = rr_drain (htq_abs q)"
  using snapshot_loop_drain [of "host_order q" "queues q"] htq_invD(3) [of nrm q]
  by (auto simp: snapshot_items_def htq_abs_def htq_inv_empty_iff)

lemma pops_drain: "htq_inv nrm q \<Longrightarrow> pops n q = take n (rr_drain (htq_abs q))"
proof (induction n arbitrary: q)
  case (Suc n)
  show ?case
  proof (cases "rr_pop (htq_abs q)")
    case None
    then show ?thesis using pop_item_abs [OF Suc.prems] by (simp add: rr_drain.simps)
  next
    case (Some x)
    obtain item r where x: "x = (item, r)" by (cases x)
    then have "fst (pop_item q) = Inr item" and r: "htq_abs (snd (pop_item q)) = r"
      using pop_item_abs [OF Suc.prems] Some by auto
    then obtain q' where q': "pop_item q = (Inr item, q')" by (cases "pop_item q") auto
    then have "htq_inv nrm q'" using pop_item_inv [OF Suc.prems] by simp
    then have "pops n q' = take n (rr_drain r)" using Suc.IH r q' by simp
    then show ?thesis using q' Some x by (subst rr_drain.simps) simp
  qed
qed simp

lemma snapshot_items_pops:
  assumes "htq_inv nrm q"
  shows "snapshot_items q = pops (nat (queue_size q)) q" and "length (snapshot_items q) = nat (queue_size q)"
  using assms htq_abs_ok [OF assms] htq_invD(8) [OF assms]
  by (simp_all add: snapshot_items_drain pops_drain length_rr_drain total_entries_abs queue_size_def)

end

subsection \<open>Snapshot and restore\<close>

lemma iter_heap_id [simp]: "iter_heap_in_pop_order es = es"
  by (induction es) (subst iter_heap_in_pop_order.simps, simp)+

lemma collect_hosts_new:
  "\<forall>h\<in>set hs. get_default m h [] \<noteq> [] \<Longrightarrow> distinct (acc @ hs) \<Longrightarrow> collect_hosts m hs acc = acc @ hs"
  by (induction hs arbitrary: acc) auto

lemma collect_hosts_known: "set hs \<subseteq> set acc \<Longrightarrow> collect_hosts m hs acc = acc"
  by (induction hs) auto

lemma snapshot_state_eq:
  assumes "htq_inv nrm q"
  shows "snapshot_state q = \<lparr>state_host_order = host_order q,
    state_host_queues = map (\<lambda>(h, es). (h, map entry_triple es)) (htq_abs q)\<rparr>"
proof -
  have "collect_hosts (queues q) (host_order q) [] = host_order q"
    using collect_hosts_new [of "host_order q" "queues q" "[]"] htq_invD(3) [OF assms] htq_inv_empty_iff [OF assms]
    by auto
  moreover have "collect_hosts (queues q) (map fst (queues q)) (host_order q) = host_order q"
    using htq_invD(4) [OF assms] by (intro collect_hosts_known) (simp add: dom_map_of_conv_image_fst)
  moreover have "concat (map (\<lambda>host. if get_default (queues q) host [] = [] then []
        else [(host, map entry_triple (get_default (queues q) host []))]) (host_order q))
      = map (\<lambda>(h, es). (h, map entry_triple es)) (htq_abs q)"
  proof -
    have "map (\<lambda>host. if get_default (queues q) host [] = [] then []
        else [(host, map entry_triple (get_default (queues q) host []))]) (host_order q)
      = map (\<lambda>h. [(h, map entry_triple (get_default (queues q) h []))]) (host_order q)"
      using htq_inv_empty_iff [OF assms] by auto
    then show ?thesis by (simp only: concat_map_singleton htq_abs_def map_map comp_def prod.case)
  qed
  ultimately show ?thesis by (simp add: snapshot_state_def Let_def cong: if_cong)
qed

lemma triple_entry_inv [simp]: "triple_entry (entry_triple e) = e"
  by (simp add: triple_entry_def entry_triple_def)

lemma foldl_restore: "heap_ok entry_key es \<Longrightarrow>
  foldl (\<lambda>h t. heap_push entry_key (triple_entry t) h) [] (map entry_triple es) = es"
  using foldl_heap_push [of entry_key "[]" es] by (simp add: foldl_map)

lemma update_new: "map_of m k = None \<Longrightarrow> AList.update k v m = m @ [(k, v)]"
  by (induction m) (auto split: if_splits)

lemma restore_queues_eq:
  assumes "distinct (map fst L)" and "\<forall>(h, es)\<in>set L. es \<noteq> [] \<and> heap_ok entry_key es \<and> nrm h = h"
    and "\<forall>h\<in>fst ` set L. map_of (queues q) h = None \<and> map_of (pending_by_host q) h = None \<and> h \<notin> set active"
  shows "restore_queues nrm (map (\<lambda>(h, es). (h, map entry_triple es)) L) (q, active) =
    (q\<lparr>queues := queues q @ L,
       pending_by_host := pending_by_host q @ map (\<lambda>(h, es). (h, int (length es))) L\<rparr>, active @ map fst L)"
  using assms
proof (induction L arbitrary: q active)
  case (Cons x L)
  obtain h es where x: "x = (h, es)" by (cases x)
  define q' where "q' = q\<lparr>queues := queues q @ [(h, es)], pending_by_host := pending_by_host q @ [(h, int (length es))]\<rparr>"
  have h: "es \<noteq> []" "heap_ok entry_key es" "nrm h = h" "map_of (queues q) h = None"
      "map_of (pending_by_host q) h = None" "h \<notin> set active"
    using Cons.prems x by auto
  have "restore_queues nrm (map (\<lambda>(h, es). (h, map entry_triple es)) (x # L)) (q, active) =
      restore_queues nrm (map (\<lambda>(h, es). (h, map entry_triple es)) L) (q', active @ [h])"
    using h by (simp add: x q'_def foldl_restore update_new get_default_None)
  also have "\<dots> = (q'\<lparr>queues := queues q' @ L,
       pending_by_host := pending_by_host q' @ map (\<lambda>(h, es). (h, int (length es))) L\<rparr>, (active @ [h]) @ map fst L)"
    using Cons.prems x by (intro Cons.IH) (auto simp: q'_def map_add_def)
  finally show ?case by (simp add: x q'_def)
qed simp

lemma restore_rotation_new:
  assumes "distinct hs" and "set hs \<subseteq> set active" and "set hs \<inter> hosts_in_rotation q = {}" and "\<forall>h\<in>set hs. f h = h"
  shows "restore_rotation f active hs q =
    q\<lparr>host_order := host_order q @ hs, hosts_in_rotation := hosts_in_rotation q \<union> set hs\<rparr>"
  using assms by (induction hs arbitrary: q) (auto simp: Let_def insert_commute Un_insert_right)

lemma restore_rotation_known:
  "\<forall>h\<in>set hs. f h \<in> hosts_in_rotation q \<Longrightarrow> restore_rotation f active hs q = q"
  by (induction hs) (auto simp: Let_def)

context host_canonical begin

lemma restore_snapshot:
  assumes "htq_inv nrm q"
  shows "fst (restore_state nrm (snapshot_state q) q0) = queue_size q"
    and "htq_abs (snd (restore_state nrm (snapshot_state q) q0)) = htq_abs q"
    and "htq_inv nrm (snd (restore_state nrm (snapshot_state q) q0))"
proof -
  define L where "L = htq_abs q"
  have keys: "map fst L = host_order q" by (simp add: L_def htq_abs_def comp_def)
  have dist: "distinct (map fst L)" using htq_invD(3) [OF assms] keys by simp
  have wf: "\<forall>(h, es)\<in>set L. es \<noteq> [] \<and> heap_ok entry_key es \<and> nrm h = h"
  proof clarify
    fix h es assume "(h, es) \<in> set L"
    then have h: "h \<in> set (host_order q)" and es: "es = get_default (queues q) h []"
      by (auto simp: L_def htq_abs_def)
    then have "map_of (queues q) h = Some es" using htq_invD(4) [OF assms] by (auto simp: alist_simps)
    then show "es \<noteq> [] \<and> heap_ok entry_key es \<and> nrm h = h" by (rule htq_invD(6) [OF assms])
  qed
  define q1 :: "'a host_task_queue" where "q1 = \<lparr>queues = L, pending_by_host = map (\<lambda>(h, es). (h, int (length es))) L,
     host_order = host_order q, hosts_in_rotation = set (host_order q), queued_count = int (total_entries L)\<rparr>"
  have sum: "sum_list (map (int \<circ> length \<circ> snd) L) = int (total_entries L)"
    by (induction L) (simp_all add: total_entries_def)
  have fixed: "\<forall>h\<in>set (host_order q). nrm h = h"
    using htq_invD(4,6) [OF assms] by blast
  have rot1: "restore_rotation nrm (host_order q) (host_order q)
      \<lparr>queues = L, pending_by_host = map (\<lambda>(h, es). (h, int (length es))) L,
        host_order = [], hosts_in_rotation = {}, queued_count = int (total_entries L)\<rparr> = q1"
    using fixed htq_invD(3) [OF assms] by (subst restore_rotation_new) (simp_all add: q1_def)
  have rot2: "restore_rotation id (host_order q) (host_order q) q1 = q1"
    by (rule restore_rotation_known) (simp add: q1_def)
  have count: "queued_count q1 = int (total_entries L)" by (simp add: q1_def)
  have "restore_state nrm (snapshot_state q) q0 = (int (total_entries L), q1)"
    unfolding restore_state_def snapshot_state_eq [OF assms] L_def [symmetric]
      host_task_queue_state.simps clear_queue_eq
    by (subst restore_queues_eq [OF dist wf]) (simp_all add: empty_queue_def Let_def keys sum rot1 rot2 count)
  moreover have "htq_abs q1 = htq_abs q"
  proof -
    have "htq_abs q1 = map (\<lambda>h. (h, get_default (htq_abs q) h [])) (host_order q)"
      unfolding htq_abs_def [of q1] by (simp add: q1_def L_def)
    then show ?thesis by (simp only: htq_abs_get [OF assms] htq_abs_def [of q, symmetric])
  qed
  moreover have "htq_inv nrm q1"
  proof -
    have "map_of (map (\<lambda>(h, es). (h, int (length es))) L) h = map_option (\<lambda>es. int (length es)) (map_of L h)" for h
      by (induction L) auto
    moreover have "map_of L h = Some es \<Longrightarrow> es \<noteq> [] \<and> heap_ok entry_key es \<and> nrm h = h" for h es
      using wf by (auto dest: map_of_SomeD)
    moreover have "dom (map_of L) = set (host_order q)"
      by (simp add: dom_map_of_conv_image_fst flip: keys)
    ultimately show ?thesis
      using dist htq_invD(3) [OF assms] by (simp add: htq_inv_def q1_def comp_def split_beta)
  qed
  ultimately show "fst (restore_state nrm (snapshot_state q) q0) = queue_size q"
    and "htq_abs (snd (restore_state nrm (snapshot_state q) q0)) = htq_abs q"
    and "htq_inv nrm (snd (restore_state nrm (snapshot_state q) q0))"
    using total_entries_abs [OF assms] htq_invD(8) [OF assms]
    by (simp_all add: L_def queue_size_def)
qed

end

section \<open>Conservation\<close>

text \<open>The queued items as a multiset, and the operations on it.\<close>

definition queued_items :: "'a host_task_queue \<Rightarrow> 'a queue_item multiset" where
  "queued_items q = mset (concat (map (\<lambda>(h, es). map (entry_item h) es) (htq_abs q)))"

lemma rr_items_update:
  "mset (concat (map (\<lambda>(h, es). map (entry_item h) es) (AList.update k w r))) + mset (map (entry_item k) (get_default r k []))
     = mset (concat (map (\<lambda>(h, es). map (entry_item h) es) r)) + mset (map (entry_item k) w)"
  by (induction r) (auto simp: get_default_def split: option.splits)

lemma rr_items_delete:
  "distinct (map fst r) \<Longrightarrow>
   mset (concat (map (\<lambda>(h, es). map (entry_item h) es) (AList.delete k r))) + mset (map (entry_item k) (get_default r k []))
     = mset (concat (map (\<lambda>(h, es). map (entry_item h) es) r))"
proof (induction r)
  case (Cons x r)
  show ?case
  proof (cases "fst x = k")
    case True
    then have "AList.delete k (x # r) = r"
      using Cons.prems by (cases x) (simp add: AList.delete_id)
    then show ?thesis using True by (cases x) (simp add: get_default_def)
  next
    case False
    then show ?thesis using Cons by (cases x) (auto simp: get_default_def ac_simps)
  qed
qed (simp add: get_default_def)

lemma rr_drain_items: "rr_ok r \<Longrightarrow> mset (rr_drain r) = mset (concat (map (\<lambda>(h, es). map (entry_item h) es) r))"
proof (induction r rule: rr_drain.induct)
  case (1 r)
  show ?case
  proof (cases r rule: rr_pop.cases)
    case (2 h r')
    then show ?thesis using 1 by (simp add: rr_ok_def)
  next
    case (3 h e es r')
    then show ?thesis using 1 by (auto simp: rr_ok_def)
  qed simp
qed

context host_canonical begin

lemma push_items:
  assumes "htq_inv nrm q"
  shows "queued_items (push nrm h p s t q) = add_mset (nrm h, p, s, t) (queued_items q)"
  using rr_items_update [of "nrm h" "heap_push entry_key \<lparr>entry_priority = p, entry_sequence = s, entry_task = t\<rparr>
      (get_default (htq_abs q) (nrm h) [])" "htq_abs q"]
  by (simp add: queued_items_def push_abs [OF assms] rr_push_def mset_map entry_item_def del: mset_concat)

lemma pop_item_items:
  assumes "htq_inv nrm q" and "pop_item q = (Inr item, q')"
  shows "queued_items q = add_mset item (queued_items q')"
proof (cases "htq_abs q" rule: rr_pop.cases)
  case (3 h e es r')
  then show ?thesis using pop_item_abs [OF assms(1)] assms(2) by (auto simp: queued_items_def split: if_splits)
qed (use pop_item_abs [OF assms(1)] assms(2) in simp_all)

lemma snapshot_items_mset: "htq_inv nrm q \<Longrightarrow> mset (snapshot_items q) = queued_items q"
  by (simp only: snapshot_items_drain queued_items_def rr_drain_items htq_abs_ok)

lemma pop_item_None: "htq_inv nrm q \<Longrightarrow> fst (pop_item q) = Inl err \<Longrightarrow> queue_size q = 0 \<and> err = LookupError ''no queued tasks available''"
  using pop_item_abs [of q] htq_abs_ok [of nrm q] total_entries_abs [of nrm q] htq_invD(8) [of nrm q]
  by (cases "htq_abs q" rule: rr_pop.cases) (auto simp: rr_ok_def total_entries_def queue_size_def)

end

section \<open>Waiting\<close>

text \<open>
  A run of the queue as its users drive it: tasks are pushed in between pops. The hosts
  that the pops of the run served, in order.
\<close>

datatype 'a queue_event = Pushed host int int 'a | Popped

fun served :: "(host \<Rightarrow> host) \<Rightarrow> 'a queue_event list \<Rightarrow> 'a host_task_queue \<Rightarrow> host list" where
  "served nrm [] q = []"
| "served nrm (Pushed h p s t # evs) q = served nrm evs (push nrm h p s t q)"
| "served nrm (Popped # evs) q = (case pop_item q of
     (Inl err, q') \<Rightarrow> served nrm evs q' | (Inr (h, _), q') \<Rightarrow> h # served nrm evs q')"

definition pop_events :: "'a queue_event list \<Rightarrow> nat" where
  "pop_events evs = length (filter (\<lambda>ev. case ev of Popped \<Rightarrow> True | _ \<Rightarrow> False) evs)"

definition rotation_position :: "host \<Rightarrow> 'a host_task_queue \<Rightarrow> nat" where
  "rotation_position h q = length (takeWhile (\<lambda>x. x \<noteq> h) (host_order q))"

lemma push_host_order:
  "host_order (push nrm h p s t q) = host_order q \<or> host_order (push nrm h p s t q) = host_order q @ [nrm h]"
  by (auto simp: push_def Let_def)

lemma pop_item_host_order:
  assumes "htq_inv nrm q" and "host_order q = h # hs"
  shows "\<exists>p s t q'. pop_item q = (Inr (h, p, s, t), q') \<and> (host_order q' = hs \<or> host_order q' = hs @ [h])"
proof -
  obtain e es where "get_default (queues q) h [] = e # es"
    using htq_inv_empty_iff [OF assms(1), of h] assms(2) by (auto simp: neq_Nil_conv)
  then show ?thesis using assms(2) by (auto simp: pop_item_def Let_def entry_item_def)
qed

context host_canonical begin

lemma bounded_waiting:
  "htq_inv nrm q \<Longrightarrow> h \<in> set (host_order q) \<Longrightarrow> rotation_position h q < pop_events evs \<Longrightarrow>
   h \<in> set (served nrm evs q)"
proof (induction evs arbitrary: q)
  case (Cons ev evs)
  show ?case
  proof (cases ev)
    case (Pushed h' p s t)
    define q' where "q' = push nrm h' p s t q"
    have "h \<in> set (host_order q') \<and> rotation_position h q' = rotation_position h q"
      using push_host_order [of nrm h' p s t q] Cons.prems(2)
      by (auto simp: q'_def rotation_position_def takeWhile_append)
    then have "h \<in> set (served nrm evs q')"
      using Cons.prems Pushed by (intro Cons.IH) (simp_all add: q'_def push_inv pop_events_def)
    then show ?thesis using Pushed by (simp add: q'_def)
  next
    case Popped
    obtain k hs where order: "host_order q = k # hs" using Cons.prems(2) by (cases "host_order q") auto
    then obtain p s t q' where pop: "pop_item q = (Inr (k, p, s, t), q')"
      and order': "host_order q' = hs \<or> host_order q' = hs @ [k]"
      using pop_item_host_order [OF Cons.prems(1)] by blast
    show ?thesis
    proof (cases "k = h")
      case False
      have "htq_inv nrm q'" using pop_item_inv [OF Cons.prems(1)] pop by simp
      moreover have "h \<in> set (host_order q')" using Cons.prems(2) order order' False by auto
      moreover have "rotation_position h q' < pop_events evs"
        using Cons.prems(2,3) order order' False Popped
        by (auto simp: rotation_position_def pop_events_def takeWhile_append)
      ultimately have "h \<in> set (served nrm evs q')" by (rule Cons.IH)
      then show ?thesis using Popped pop by simp
    qed (simp add: Popped pop)
  qed
qed (simp add: pop_events_def)

end

section \<open>Properties\<close>

inductive htq_reachable :: "(host \<Rightarrow> host) \<Rightarrow> 'a host_task_queue \<Rightarrow> bool" for nrm where
  htq_init: "htq_reachable nrm empty_queue"
| htq_push: "htq_reachable nrm q \<Longrightarrow> htq_reachable nrm (push nrm h p s t q)"
| htq_pop: "htq_reachable nrm q \<Longrightarrow> htq_reachable nrm (snd (pop_item q))"
| htq_pop_for: "htq_reachable nrm q \<Longrightarrow> htq_reachable nrm (snd (pop_item_for_host nrm h q))"
| htq_discard: "htq_reachable nrm q \<Longrightarrow> htq_reachable nrm (snd (discard_host nrm h q))"
| htq_clear: "htq_reachable nrm q \<Longrightarrow> htq_reachable nrm (clear_queue q)"
| htq_restore: "htq_reachable nrm q \<Longrightarrow> htq_reachable nrm q0 \<Longrightarrow>
    htq_reachable nrm (snd (restore_state nrm (snapshot_state q) q0))"

context host_canonical begin

lemma reachable_inv: "htq_reachable nrm q \<Longrightarrow> htq_inv nrm q"
  by (induction rule: htq_reachable.induct)
    (simp_all add: empty_queue_inv push_inv pop_item_inv pop_item_for_host_inv discard_host_inv
      clear_queue_eq restore_snapshot)

end

text \<open>A normaliser for the concrete instances of the properties.\<close>

definition lower_host :: "host \<Rightarrow> host" where
  "lower_host = map_option py_lower"

lemma lower_host_canonical: "host_canonical lower_host"
  by unfold_locales (auto simp: lower_host_def option.map_comp comp_def option.map_ident)

definition sample_queue :: "nat host_task_queue" where
  "sample_queue = push lower_host (Some ''B'') 5 3 30 (push lower_host None 1 2 20
     (push lower_host (Some ''b'') 2 1 10 empty_queue))"

lemma sample_reachable: "htq_reachable lower_host sample_queue"
  unfolding sample_queue_def by (intro htq_push htq_init)

text \<open>C9: In every state that a sequence of queue operations reaches, from an empty queue,
  the hosts of the rotation are pairwise distinct, they are exactly the hosts with
  pending work and exactly the members of the rotation set, no heap is empty and every
  heap is in priority order, the pending counter of a host is the length of its heap,
  the total counter is the number of entries, and every stored host is normalised.\<close>

theorem htq_reachable_invariant:
  assumes "host_canonical nrm" and "htq_reachable nrm q"
  shows "distinct (host_order q) \<and> set (host_order q) = set (map fst (queues q)) \<and>
    hosts_in_rotation q = set (host_order q) \<and>
    (\<forall>(h, es)\<in>set (queues q). es \<noteq> [] \<and> sorted (map entry_key es) \<and> nrm h = h \<and>
       pending_for_host nrm q h = int (length es)) \<and>
    queue_size q = (\<Sum>(h, es)\<leftarrow>queues q. int (length es))"
proof -
  have inv: "htq_inv nrm q" using assms by (rule host_canonical.reachable_inv)
  have sum: "(\<Sum>(h, es)\<leftarrow>m. int (length es)) = int (total_entries m)" for m :: "(host \<times> 'a queue_entry list) list"
    by (induction m) (auto simp: total_entries_def)
  have "es \<noteq> [] \<and> sorted (map entry_key es) \<and> nrm h = h \<and> pending_for_host nrm q h = int (length es)"
    if "(h, es) \<in> set (queues q)" for h es
  proof -
    have m: "map_of (queues q) h = Some es" using that htq_invD(1) [OF inv] by simp
    show ?thesis using htq_invD(6) [OF inv m] htq_inv_pending [OF inv, of h] m
      by (simp add: pending_for_host_def heap_ok_def alist_simps)
  qed
  then show ?thesis
    using htq_invD(3,4,5,8) [OF inv]
    by (auto simp: dom_map_of_conv_image_fst queue_size_def sum)
qed

theorem htq_reachable_invariant_witness:
  "hosts_in_rotation sample_queue = {Some ''b'', None} \<and> queue_size sample_queue = 3"
  using htq_reachable_invariant [OF lower_host_canonical sample_reachable]
  unfolding sample_queue_def by code_simp




text \<open>\<open>snapshot_items\<close> lists exactly the items that the future calls of \<open>pop_item\<close>
  return, in that order, one per queued task.\<close>

theorem snapshot_is_pop_order:
  assumes "host_canonical nrm" and "htq_reachable nrm q"
  shows "snapshot_items q = pops (nat (queue_size q)) q \<and>
    int (length (snapshot_items q)) = queue_size q"
  using host_canonical.snapshot_items_pops [OF assms(1) host_canonical.reachable_inv [OF assms]]
    htq_invD(8) [OF host_canonical.reachable_inv [OF assms]]
  by (simp add: queue_size_def)

theorem snapshot_is_pop_order_witness:
  "map fst (snapshot_items sample_queue) = [Some ''b'', None, Some ''b''] \<and>
   snapshot_items sample_queue = pops 3 sample_queue"
  using snapshot_is_pop_order [OF lower_host_canonical sample_reachable]
  unfolding sample_queue_def by code_simp



text \<open>C12: No host waits forever. However many pushes come in between, a host with
  pending work at position \<open>i\<close> of the rotation is served by one of the next \<open>i + 1\<close> pops.\<close>

theorem host_waits_at_most_one_round:
  assumes "host_canonical nrm" and "htq_reachable nrm q" and "h \<in> set (host_order q)"
    and "rotation_position h q < pop_events evs"
  shows "h \<in> set (served nrm evs q)"
  using host_canonical.bounded_waiting [OF assms(1) host_canonical.reachable_inv [OF assms(1,2)] assms(3,4)] .

theorem host_waits_at_most_one_round_witness:
  "None \<in> set (served lower_host [Popped, Pushed (Some ''c'') 0 7 70, Popped] sample_queue)"
  by (rule host_waits_at_most_one_round [OF lower_host_canonical sample_reachable];
      unfold sample_queue_def; code_simp)

text \<open>Tasks are neither lost nor duplicated: a push adds exactly its item, a pop that
  returns removes exactly the item it returns, and the snapshot holds exactly the
  queued items.\<close>

theorem queue_conserves_items:
  assumes "host_canonical nrm" and "htq_reachable nrm q"
  shows "queued_items (push nrm h p s t q) = add_mset (nrm h, p, s, t) (queued_items q) \<and>
    (\<forall>item q'. pop_item q = (Inr item, q') \<longrightarrow> queued_items q = add_mset item (queued_items q')) \<and>
    mset (snapshot_items q) = queued_items q"
  using host_canonical.push_items [OF assms(1) host_canonical.reachable_inv [OF assms]]
    host_canonical.pop_item_items [OF assms(1) host_canonical.reachable_inv [OF assms]]
    host_canonical.snapshot_items_mset [OF assms(1) host_canonical.reachable_inv [OF assms]]
  by blast

theorem queue_conserves_items_witness:
  "queued_items (push lower_host None 0 4 40 sample_queue) = add_mset (None, 0, 4, 40) (queued_items sample_queue)"
  using queue_conserves_items [OF lower_host_canonical sample_reachable, of None 0 4 40]
  by (simp add: lower_host_def)

end
