(* ===== verification/Delayed_Task_Queue.thy ===== *)
theory Delayed_Task_Queue imports
  Host_Task_Queue
  Value_Parser
begin

text \<open>
  Delayed work, \<open>crawler/scheduling/queueing/delayed_task_queue.py\<close>: one heap ordered by
  ready time and sequence, a pending counter per host, and the promotion of due entries
  into the host queue. An operation that reads the monotonic clock takes its value as
  \<open>clock\<close>; a \<open>now\<close> argument is the untrusted value of the source.
\<close>

section \<open>Coercions\<close>

definition coerce_wait_seconds :: "pyval \<Rightarrow> real result" where
  "coerce_wait_seconds w = (case coerce_float w None False of
     None \<Rightarrow> Inl (ValueError (''wait_seconds must be a finite number, got '' @ py_repr w))
   | Some v \<Rightarrow> Inr (max 0 v))"

definition coerce_monotonic_timestamp :: "real \<Rightarrow> pyval \<Rightarrow> real result" where
  "coerce_monotonic_timestamp clock v = (if v = PyNone then Inr clock
     else (case coerce_float v None False of
       None \<Rightarrow> Inl (ValueError (''monotonic timestamp must be finite, got '' @ py_repr v))
     | Some t \<Rightarrow> Inr t))"

section \<open>The state\<close>

record 'a delayed_entry =
  delayed_ready_at :: real
  delayed_sequence :: int
  delayed_host :: host
  delayed_priority :: int
  delayed_task :: 'a

definition delayed_key :: "'a delayed_entry \<Rightarrow> real \<times> int" where
  "delayed_key e = (delayed_ready_at e, delayed_sequence e)"

record 'a delayed_task_queue =
  delayed_entries :: "'a delayed_entry list"
  delayed_pending_by_host :: "(host \<times> int) list"

definition empty_delayed :: "'a delayed_task_queue" where
  "empty_delayed = \<lparr>delayed_entries = [], delayed_pending_by_host = []\<rparr>"

section \<open>Operations\<close>

definition delayed_size :: "'a delayed_task_queue \<Rightarrow> int" where
  "delayed_size d = int (length (delayed_entries d))"

definition delayed_pending_host_count :: "'a delayed_task_queue \<Rightarrow> int" where
  "delayed_pending_host_count d = int (length (delayed_pending_by_host d))"

definition delayed_max_pending :: "'a delayed_task_queue \<Rightarrow> int" where
  "delayed_max_pending d = max_pending_count (delayed_pending_by_host d)"

definition delayed_clear :: "'a delayed_task_queue \<Rightarrow> 'a delayed_task_queue" where
  "delayed_clear d = d\<lparr>delayed_entries := [], delayed_pending_by_host := []\<rparr>"

definition delayed_pending_for_host :: "(host \<Rightarrow> host) \<Rightarrow> 'a delayed_task_queue \<Rightarrow> host \<Rightarrow> int" where
  "delayed_pending_for_host nrm d h = get_default (delayed_pending_by_host d) (nrm h) 0"

definition delayed_push ::
  "(host \<Rightarrow> host) \<Rightarrow> real \<Rightarrow> host \<Rightarrow> int \<Rightarrow> int \<Rightarrow> 'a \<Rightarrow> pyval \<Rightarrow> pyval \<Rightarrow> 'a delayed_task_queue \<Rightarrow>
   bool result \<times> 'a delayed_task_queue" where
  "delayed_push nrm clock host priority sequence task wait_seconds now d =
    (case coerce_wait_seconds wait_seconds of
       Inl err \<Rightarrow> (Inl err, d)
     | Inr clamped \<Rightarrow>
        if clamped \<le> 0 then (Inr False, d)
        else (let host = nrm host in
          case coerce_monotonic_timestamp clock now of
            Inl err \<Rightarrow> (Inl err, d)
          | Inr current_time \<Rightarrow>
             (Inr True,
              d\<lparr>delayed_entries := heap_push delayed_key
                   \<lparr>delayed_ready_at = current_time + clamped, delayed_sequence = sequence,
                    delayed_host = host, delayed_priority = priority, delayed_task = task\<rparr> (delayed_entries d),
                delayed_pending_by_host := cnt_inc host (delayed_pending_by_host d)\<rparr>)))"

definition peek_next_ready_at :: "'a delayed_task_queue \<Rightarrow> real option" where
  "peek_next_ready_at d = (case delayed_entries d of [] \<Rightarrow> None | e # es \<Rightarrow> Some (delayed_ready_at e))"

definition delayed_next_ready_in_seconds :: "real \<Rightarrow> pyval \<Rightarrow> 'a delayed_task_queue \<Rightarrow> real option result" where
  "delayed_next_ready_in_seconds clock now d = (case peek_next_ready_at d of
     None \<Rightarrow> Inr None
   | Some r \<Rightarrow> and_then (coerce_monotonic_timestamp clock now) (\<lambda>t. Inr (Some (max 0 (r - t)))))"

definition wait_seconds_total :: "real \<Rightarrow> pyval \<Rightarrow> 'a delayed_task_queue \<Rightarrow> real result" where
  "wait_seconds_total clock now d = and_then (coerce_monotonic_timestamp clock now) (\<lambda>t.
     Inr (sum_list (map (\<lambda>e. max 0 (delayed_ready_at e - t)) (delayed_entries d))))"

definition average_wait_seconds :: "real \<Rightarrow> pyval \<Rightarrow> 'a delayed_task_queue \<Rightarrow> real option result" where
  "average_wait_seconds clock now d = (if delayed_entries d = [] then Inr None
     else and_then (wait_seconds_total clock now d) (\<lambda>w. Inr (Some (w / real (length (delayed_entries d))))))"

definition delayed_has_ready :: "real \<Rightarrow> pyval \<Rightarrow> 'a delayed_task_queue \<Rightarrow> bool result" where
  "delayed_has_ready clock now d = (case peek_next_ready_at d of
     None \<Rightarrow> Inr False
   | Some r \<Rightarrow> and_then (coerce_monotonic_timestamp clock now) (\<lambda>t. Inr (r \<le> t)))"

definition delayed_ready_count :: "real \<Rightarrow> pyval \<Rightarrow> 'a delayed_task_queue \<Rightarrow> int result" where
  "delayed_ready_count clock now d = and_then (coerce_monotonic_timestamp clock now) (\<lambda>t.
     Inr (int (length (filter (\<lambda>e. delayed_ready_at e \<le> t) (delayed_entries d)))))"

function promote_loop ::
  "(host \<Rightarrow> host) \<Rightarrow> real \<Rightarrow> int option \<Rightarrow> int \<Rightarrow> 'a delayed_task_queue \<Rightarrow> 'a host_task_queue \<Rightarrow>
   int \<times> 'a delayed_task_queue \<times> 'a host_task_queue" where
  "promote_loop nrm t limit promoted d q =
    (case heap_pop (delayed_entries d) of
       None \<Rightarrow> (promoted, d, q)
     | Some (e, rest) \<Rightarrow>
        if (case limit of None \<Rightarrow> False | Some l \<Rightarrow> l \<le> promoted) then (promoted, d, q)
        else if t < delayed_ready_at e then (promoted, d, q)
        else promote_loop nrm t limit (promoted + 1)
          (d\<lparr>delayed_entries := rest, delayed_pending_by_host := cnt_dec (delayed_host e) (delayed_pending_by_host d)\<rparr>)
          (push nrm (delayed_host e) (delayed_priority e) (delayed_sequence e) (delayed_task e) q))"
  by pat_completeness auto
termination
  by (relation "measure (\<lambda>(nrm, t, l, p, d, q). length (delayed_entries d))") (auto dest: heap_pop_length)

declare promote_loop.simps [simp del]

definition promote_ready ::
  "(host \<Rightarrow> host) \<Rightarrow> real \<Rightarrow> pyval \<Rightarrow> int option \<Rightarrow> 'a delayed_task_queue \<Rightarrow> 'a host_task_queue \<Rightarrow>
   int result \<times> 'a delayed_task_queue \<times> 'a host_task_queue" where
  "promote_ready nrm clock now limit d q =
    (if (case limit of None \<Rightarrow> False | Some l \<Rightarrow> l \<le> 0) then (Inr 0, d, q)
     else (case coerce_monotonic_timestamp clock now of
        Inl err \<Rightarrow> (Inl err, d, q)
      | Inr t \<Rightarrow> (case promote_loop nrm t limit 0 d q of (n, d', q') \<Rightarrow> (Inr n, d', q'))))"

definition delayed_snapshot_items :: "'a delayed_task_queue \<Rightarrow> 'a delayed_entry list" where
  "delayed_snapshot_items d = sort_key delayed_key (delayed_entries d)"

definition delayed_discard_host :: "(host \<Rightarrow> host) \<Rightarrow> host \<Rightarrow> 'a delayed_task_queue \<Rightarrow> int \<times> 'a delayed_task_queue" where
  "delayed_discard_host nrm host d =
    (if delayed_entries d = [] then (0, d)
     else (let host = nrm host;
               kept = filter (\<lambda>e. delayed_host e \<noteq> host) (delayed_entries d);
               dropped = int (length (delayed_entries d)) - int (length kept)
           in if dropped \<le> 0 then (0, d)
              else (dropped, d\<lparr>delayed_entries := heapify delayed_key kept,
                               delayed_pending_by_host := AList.delete host (delayed_pending_by_host d)\<rparr>)))"

definition deserialize_wait_seconds :: "pyval \<Rightarrow> real option" where
  "deserialize_wait_seconds item = (case item of
     PyDict m \<Rightarrow> map_option (max 0) (coerce_float (py_get m ''delay_remaining_seconds'') None False)
   | _ \<Rightarrow> None)"

definition coerce_requeue_wait_seconds :: "string \<Rightarrow> py_dict option \<Rightarrow> real option" where
  "coerce_requeue_wait_seconds outcome flds =
    (case flds of None \<Rightarrow> None | Some m \<Rightarrow>
      if outcome \<noteq> ''deferred'' \<or> m = [] then None
      else (case coerce_float (py_get m ''retry_after_seconds'') None False of
         None \<Rightarrow> None | Some w \<Rightarrow> if w \<le> 0 then None else Some w))"

fun combine_pending_maps :: "(host \<times> int) list \<Rightarrow> (host \<times> int) list \<Rightarrow> (host \<times> int) list" where
  "combine_pending_maps combined [] = combined"
| "combine_pending_maps combined ((h, n) # delayed_counts) =
     combine_pending_maps (AList.update h (get_default combined h 0 + n) combined) delayed_counts"

section \<open>Lemmas\<close>

lemma monotonic_timestamp_simps [simp]:
  "coerce_monotonic_timestamp c PyNone = Inr c"
  "coerce_monotonic_timestamp c (PyFloat (Fin t)) = Inr t"
  by (simp_all add: coerce_monotonic_timestamp_def coerce_float_def finite_float_or_none_def)

lemma coerce_wait_seconds_simp [simp]: "coerce_wait_seconds (PyFloat (Fin w)) = Inr (max 0 w)"
  by (simp add: coerce_wait_seconds_def coerce_float_def finite_float_or_none_def)

definition dtq_inv :: "(host \<Rightarrow> host) \<Rightarrow> 'a delayed_task_queue \<Rightarrow> bool" where
  "dtq_inv nrm d \<longleftrightarrow> heap_ok delayed_key (delayed_entries d) \<and>
     cnt_ok (delayed_pending_by_host d) (image_mset delayed_host (mset (delayed_entries d))) \<and>
     (\<forall>e\<in>set (delayed_entries d). nrm (delayed_host e) = delayed_host e)"

lemma empty_delayed_inv: "dtq_inv nrm empty_delayed"
  by (simp add: dtq_inv_def empty_delayed_def)

lemma delayed_clear_eq: "delayed_clear d = empty_delayed"
  by (simp add: delayed_clear_def empty_delayed_def)

lemma count_keys: "count (image_mset f (mset xs)) k = length (filter (\<lambda>x. f x = k) xs)"
  by (induction xs) auto

lemma delayed_pending_count:
  "dtq_inv nrm d \<Longrightarrow> delayed_pending_for_host nrm d h =
     int (length (filter (\<lambda>e. delayed_host e = nrm h) (delayed_entries d)))"
proof -
  assume "dtq_inv nrm d"
  then have "cnt_ok (delayed_pending_by_host d) (image_mset delayed_host (mset (delayed_entries d)))"
    by (simp add: dtq_inv_def)
  from cnt_ok_get [OF this, of "nrm h"] show ?thesis
    by (simp only: count_keys delayed_pending_for_host_def)
qed

lemma cnt_ok_delete_key:
  assumes "cnt_ok m M"
  shows "cnt_ok (AList.delete k m) (filter_mset (\<lambda>x. x \<noteq> k) M)"
  using assms by (auto simp: cnt_ok_def delete_conv' distinct_delete)

context host_canonical begin

lemma delayed_push_inv:
  assumes "dtq_inv nrm d"
  shows "dtq_inv nrm (snd (delayed_push nrm clock h p s t w now d))"
  using assms
  by (auto simp: delayed_push_def dtq_inv_def Let_def cnt_ok_inc split: sum.splits)

lemma delayed_discard_inv:
  assumes "dtq_inv nrm d"
  shows "dtq_inv nrm (snd (delayed_discard_host nrm h d))"
proof -
  have "image_mset delayed_host (mset (filter (\<lambda>e. delayed_host e \<noteq> nrm h) (delayed_entries d)))
      = filter_mset (\<lambda>x. x \<noteq> nrm h) (image_mset delayed_host (mset (delayed_entries d)))"
    by (simp add: filter_mset_image_mset)
  then show ?thesis
    using assms cnt_ok_delete_key
    by (auto simp: delayed_discard_host_def dtq_inv_def Let_def simp del: mset_filter)
qed

end

subsection \<open>Promotion\<close>

text \<open>The entries that are due, in order, at most \<open>limit\<close> of them.\<close>

definition due_entries :: "real \<Rightarrow> int option \<Rightarrow> 'a delayed_entry list \<Rightarrow> 'a delayed_entry list" where
  "due_entries t limit es = (case limit of None \<Rightarrow> filter (\<lambda>e. delayed_ready_at e \<le> t) es
     | Some l \<Rightarrow> take (nat l) (filter (\<lambda>e. delayed_ready_at e \<le> t) es))"

definition push_delayed :: "(host \<Rightarrow> host) \<Rightarrow> 'a delayed_entry \<Rightarrow> 'a host_task_queue \<Rightarrow> 'a host_task_queue" where
  "push_delayed nrm e = push nrm (delayed_host e) (delayed_priority e) (delayed_sequence e) (delayed_task e)"

interpretation delayed_heap: priority_heap "heap_push delayed_key" heap_pop mset "heap_ok delayed_key" delayed_key
  by (rule priority_heap_list)

lemma delayed_key_le: "delayed_key e \<le> delayed_key e' \<Longrightarrow> delayed_ready_at e \<le> delayed_ready_at e'"
  by (auto simp: delayed_key_def less_eq_prod_def)

lemma due_entries_Cons:
  "due_entries t limit (e # es) = (if (case limit of None \<Rightarrow> False | Some l \<Rightarrow> l \<le> 0) then []
     else if delayed_ready_at e \<le> t then e # due_entries t (map_option (\<lambda>l. l - 1) limit) es
     else due_entries t limit es)"
  by (cases limit) (auto simp: due_entries_def take_Cons' nat_diff_distrib)

lemma due_entries_none: "\<forall>e\<in>set es. t < delayed_ready_at e \<Longrightarrow> due_entries t limit es = []"
  by (auto simp: due_entries_def filter_empty_conv split: option.splits)

lemma promote_loop_spec:
  assumes "heap_ok delayed_key (delayed_entries d)"
    and "cnt_ok (delayed_pending_by_host d) (image_mset delayed_host (mset (delayed_entries d)))"
    and "promote_loop nrm t limit n d q = (n', d', q')"
  defines "D \<equiv> due_entries t (map_option (\<lambda>l. l - n) limit) (delayed_entries d)"
  shows "n' = n + int (length D) \<and> q' = fold (push_delayed nrm) D q \<and>
    delayed_entries d = D @ delayed_entries d' \<and> heap_ok delayed_key (delayed_entries d') \<and>
    cnt_ok (delayed_pending_by_host d') (image_mset delayed_host (mset (delayed_entries d')))"
  using assms(1-3) unfolding D_def
proof (induction nrm t limit n d q arbitrary: n' d' q' rule: promote_loop.induct)
  case (1 nrm t limit n d q)
  show ?case
  proof (cases "delayed_entries d")
    case Nil
    then show ?thesis using 1(2-4) by (subst (asm) promote_loop.simps) (simp add: due_entries_def split: option.splits)
  next
    case (Cons e es)
    have order: "heap_ok delayed_key es" "\<forall>x\<in>set es. delayed_ready_at e \<le> delayed_ready_at x"
      using delayed_heap.pop_ok [OF 1(2), of e es] delayed_heap.pop_least [OF 1(2), of e es] Cons
      by (auto dest: delayed_key_le)
    define stop where "stop = (case limit of None \<Rightarrow> False | Some l \<Rightarrow> l \<le> n)"
    have lim: "(case map_option (\<lambda>l. l - n) limit of None \<Rightarrow> False | Some l \<Rightarrow> l \<le> 0) = stop"
      by (cases limit) (auto simp: stop_def)
    consider "stop" | "\<not> stop" "t < delayed_ready_at e" | "\<not> stop" "delayed_ready_at e \<le> t" by fastforce
    then show ?thesis
    proof cases
      case 1
      then show ?thesis using \<open>promote_loop nrm t limit n d q = (n', d', q')\<close> Cons
          \<open>heap_ok delayed_key (delayed_entries d)\<close> lim
          \<open>cnt_ok (delayed_pending_by_host d) (image_mset delayed_host (mset (delayed_entries d)))\<close>
        by (subst (asm) promote_loop.simps) (auto simp: due_entries_Cons stop_def [symmetric])
    next
      case 2
      then have "due_entries t (map_option (\<lambda>l. l - n) limit) (e # es) = []"
        using order by (intro due_entries_none) auto
      then show ?thesis using 2 \<open>promote_loop nrm t limit n d q = (n', d', q')\<close> Cons
          \<open>heap_ok delayed_key (delayed_entries d)\<close>
          \<open>cnt_ok (delayed_pending_by_host d) (image_mset delayed_host (mset (delayed_entries d)))\<close>
        by (subst (asm) promote_loop.simps) (auto simp: stop_def [symmetric])
    next
      case 3
      define d1 where "d1 = d\<lparr>delayed_entries := es,
        delayed_pending_by_host := cnt_dec (delayed_host e) (delayed_pending_by_host d)\<rparr>"
      have run: "promote_loop nrm t limit (n + 1) d1 (push_delayed nrm e q) = (n', d', q')"
        using 3 1(4) Cons
        by (subst (asm) promote_loop.simps) (auto simp: stop_def [symmetric] d1_def push_delayed_def)
      have cnt: "cnt_ok (delayed_pending_by_host d1) (image_mset delayed_host (mset (delayed_entries d1)))"
        using 1(3) Cons by (simp add: d1_def cnt_ok_dec)
      have step: "n' = n + 1 + int (length (due_entries t (map_option (\<lambda>l. l - (n + 1)) limit) es)) \<and>
          q' = fold (push_delayed nrm) (due_entries t (map_option (\<lambda>l. l - (n + 1)) limit) es) (push_delayed nrm e q) \<and>
          es = due_entries t (map_option (\<lambda>l. l - (n + 1)) limit) es @ delayed_entries d' \<and>
          heap_ok delayed_key (delayed_entries d') \<and>
          cnt_ok (delayed_pending_by_host d') (image_mset delayed_host (mset (delayed_entries d')))"
        using 1(1) [of "(e, es)" e es n' d' q'] 3 Cons order cnt run
        by (simp add: stop_def [symmetric] d1_def push_delayed_def [abs_def])
      have "map_option (\<lambda>l. l - (n + 1)) limit = map_option (\<lambda>l. l - 1) (map_option (\<lambda>l. l - n) limit)"
        by (cases limit) auto
      then have "due_entries t (map_option (\<lambda>l. l - n) limit) (e # es) =
          e # due_entries t (map_option (\<lambda>l. l - (n + 1)) limit) es"
        using 3 lim by (simp add: due_entries_Cons)
      then show ?thesis using step Cons by simp
    qed
  qed
qed

lemma promote_ready_spec:
  assumes "dtq_inv nrm d" and "coerce_monotonic_timestamp clock now = Inr t"
    and "promote_ready nrm clock now limit d q = (r, d', q')"
  shows "r = Inr (int (length (due_entries t limit (delayed_entries d)))) \<and>
    q' = fold (push_delayed nrm) (due_entries t limit (delayed_entries d)) q \<and>
    delayed_entries d = due_entries t limit (delayed_entries d) @ delayed_entries d' \<and> dtq_inv nrm d'"
proof (cases "case limit of None \<Rightarrow> False | Some l \<Rightarrow> l \<le> 0")
  case True
  then have "due_entries t limit (delayed_entries d) = []"
    by (auto simp: due_entries_def split: option.splits)
  then show ?thesis using True assms by (auto simp: promote_ready_def)
next
  case False
  obtain n where run: "promote_loop nrm t limit 0 d q = (n, d', q')" and r: "r = Inr n"
    using assms(2,3) False by (auto simp: promote_ready_def split: prod.splits)
  have lim: "map_option (\<lambda>l. l - 0) limit = limit" by (cases limit) auto
  note spec = promote_loop_spec [OF _ _ run, unfolded lim]
  have "heap_ok delayed_key (delayed_entries d)"
    and "cnt_ok (delayed_pending_by_host d) (image_mset delayed_host (mset (delayed_entries d)))"
    using assms(1) by (simp_all add: dtq_inv_def)
  note facts = spec [OF this]
  then have "set (delayed_entries d') \<subseteq> set (delayed_entries d)"
    by (metis Un_upper2 set_append)
  then show ?thesis using facts r assms(1) by (auto simp: dtq_inv_def)
qed

definition delayed_items :: "'a delayed_task_queue \<Rightarrow> 'a queue_item multiset" where
  "delayed_items d = image_mset (\<lambda>e. (delayed_host e, delayed_priority e, delayed_sequence e, delayed_task e))
     (mset (delayed_entries d))"

context host_canonical begin

lemma fold_push_delayed:
  assumes "htq_inv nrm q" and "\<forall>e\<in>set es. nrm (delayed_host e) = delayed_host e"
  shows "htq_inv nrm (fold (push_delayed nrm) es q) \<and>
    queued_items (fold (push_delayed nrm) es q) = queued_items q +
      image_mset (\<lambda>e. (delayed_host e, delayed_priority e, delayed_sequence e, delayed_task e)) (mset es)"
  using assms by (induction es arbitrary: q) (auto simp: push_delayed_def push_inv push_items)

lemma promote_ready_inv:
  assumes "dtq_inv nrm d" and "htq_inv nrm q" and "promote_ready nrm clock now limit d q = (r, d', q')"
  shows "dtq_inv nrm d' \<and> htq_inv nrm q' \<and>
    queued_items q' + delayed_items d' = queued_items q + delayed_items d"
proof (cases "coerce_monotonic_timestamp clock now")
  case (Inl err)
  then show ?thesis using assms by (auto simp: promote_ready_def split: if_splits)
next
  case (Inr t)
  note spec = promote_ready_spec [OF assms(1) Inr assms(3)]
  define D where "D = due_entries t limit (delayed_entries d)"
  have split: "delayed_entries d = D @ delayed_entries d'" and q': "q' = fold (push_delayed nrm) D q"
    and d': "dtq_inv nrm d'"
    using spec by (simp_all add: D_def)
  have "\<forall>e\<in>set D. nrm (delayed_host e) = delayed_host e"
    using assms(1) split by (simp add: dtq_inv_def)
  from fold_push_delayed [OF assms(2) this]
  show ?thesis using d' q' by (simp add: delayed_items_def split)
qed

end

section \<open>The interface of a per-host buffer\<close>

text \<open>
  What the frontier relies on of both queues: the counters tell the truth about the hosts
  of the buffered tasks, and discarding a host removes exactly that host's tasks.
\<close>

locale host_buffer = host_canonical +
  fixes inv :: "'q \<Rightarrow> bool"
    and hosts :: "'q \<Rightarrow> host multiset"
    and count_of :: "'q \<Rightarrow> int"
    and pending :: "'q \<Rightarrow> host \<Rightarrow> int"
    and discard :: "host \<Rightarrow> 'q \<Rightarrow> int \<times> 'q"
  assumes count_law: "inv q \<Longrightarrow> count_of q = int (size (hosts q))"
    and pending_law: "inv q \<Longrightarrow> pending q h = int (count (hosts q) (nrm h))"
    and discard_inv: "inv q \<Longrightarrow> inv (snd (discard h q))"
    and discard_hosts: "inv q \<Longrightarrow> hosts (snd (discard h q)) = filter_mset (\<lambda>x. x \<noteq> nrm h) (hosts q)"
    and discard_count: "inv q \<Longrightarrow> fst (discard h q) = int (count (hosts q) (nrm h))"
begin

lemma pending_le_count: "inv q \<Longrightarrow> 0 \<le> pending q h \<and> pending q h \<le> count_of q"
  by (simp add: count_law pending_law count_le_size)

lemma pending_nrm: "inv q \<Longrightarrow> pending q (nrm h) = pending q h"
  by (simp add: pending_law)

lemma discard_returns_pending: "inv q \<Longrightarrow> fst (discard h q) = pending q h"
  by (simp add: discard_count pending_law)

lemma discard_pending:
  "inv q \<Longrightarrow> pending (snd (discard h q)) h' = (if nrm h' = nrm h then 0 else pending q h')"
  by (simp add: pending_law discard_inv discard_hosts)

lemma discard_size: "inv q \<Longrightarrow> count_of (snd (discard h q)) = count_of q - fst (discard h q)"
proof -
  assume inv: "inv q"
  have "size (hosts q) = size (filter_mset (\<lambda>x. x \<noteq> nrm h) (hosts q)) + size (filter_mset (\<lambda>x. x = nrm h) (hosts q))"
    by (metis multiset_partition size_union add.commute)
  moreover have "size (filter_mset (\<lambda>x. x = nrm h) (hosts q)) = count (hosts q) (nrm h)"
    by (simp add: filter_eq_replicate_mset flip: count_conv_size_mset)
  ultimately show ?thesis using inv by (simp add: count_law discard_inv discard_hosts discard_count)
qed

end

lemma size_rr_items: "size (mset (concat (map (\<lambda>(h, es). map (entry_item h) es) r))) = total_entries r"
  by (induction r) (auto simp: total_entries_def)

lemma fst_rr_items: "image_mset fst (mset (map (entry_item h) es)) = replicate_mset (length es) h"
  by (induction es) (auto simp: entry_item_def)

lemma count_rr_hosts:
  "distinct (map fst r) \<Longrightarrow>
   count (image_mset fst (mset (concat (map (\<lambda>(h, es). map (entry_item h) es) r)))) k = length (get_default r k [])"
proof (induction r)
  case (Cons x r)
  obtain h es where x: "x = (h, es)" by (cases x)
  have "k = h \<Longrightarrow> get_default r k [] = []"
    using Cons.prems x by (intro get_default_None) (simp add: map_of_eq_None_iff)
  then show ?case using Cons fst_rr_items [of h es] by (auto simp: x get_default_def)
qed (simp add: get_default_def)

context host_canonical begin

lemma queued_hosts_count:
  assumes "htq_inv nrm q"
  shows "count (image_mset fst (queued_items q)) h = length (get_default (queues q) h [])"
proof -
  have "distinct (map fst (htq_abs q))"
    using htq_invD(3) [OF assms] by (simp add: htq_abs_def comp_def)
  then show ?thesis
    unfolding queued_items_def by (simp only: count_rr_hosts htq_abs_get [OF assms])
qed

lemma queued_hosts_size: "htq_inv nrm q \<Longrightarrow> size (image_mset fst (queued_items q)) = nat (queue_size q)"
  by (simp only: queued_items_def size_image_mset size_rr_items total_entries_abs htq_invD(8) queue_size_def nat_int)

end

sublocale host_canonical \<subseteq> ready: host_buffer nrm "htq_inv nrm" "\<lambda>q. image_mset fst (queued_items q)"
  queue_size "pending_for_host nrm" "discard_host nrm"
proof
  fix q :: "'a host_task_queue" and h
  assume inv: "htq_inv nrm q"
  show "queue_size q = int (size (image_mset fst (queued_items q)))"
    using queued_hosts_size [OF inv] htq_invD(8) [OF inv] by (simp add: queue_size_def)
  show "pending_for_host nrm q h = int (count (image_mset fst (queued_items q)) (nrm h))"
    by (simp only: queued_hosts_count [OF inv] pending_for_host_def htq_inv_pending [OF inv])
  show "htq_inv nrm (snd (discard_host nrm h q))" by (rule discard_host_inv [OF inv])
  show "fst (discard_host nrm h q) = int (count (image_mset fst (queued_items q)) (nrm h))"
    by (simp only: queued_hosts_count [OF inv]) (simp add: discard_host_def Let_def)
  show "image_mset fst (queued_items (snd (discard_host nrm h q))) =
      filter_mset (\<lambda>x. x \<noteq> nrm h) (image_mset fst (queued_items q))"
    by (rule multiset_eqI)
      (simp only: queued_hosts_count [OF discard_host_inv [OF inv]] queued_hosts_count [OF inv]
        count_filter_mset, simp add: discard_host_def Let_def)
qed

sublocale host_canonical \<subseteq> later: host_buffer nrm "dtq_inv nrm" "\<lambda>d. image_mset delayed_host (mset (delayed_entries d))"
  delayed_size "delayed_pending_for_host nrm" "delayed_discard_host nrm"
proof
  fix d :: "'a delayed_task_queue" and h
  assume inv: "dtq_inv nrm d"
  let ?H = "\<lambda>d :: 'a delayed_task_queue. image_mset delayed_host (mset (delayed_entries d))"
  show "delayed_size d = int (size (?H d))" by (simp add: delayed_size_def)
  show "delayed_pending_for_host nrm d h = int (count (?H d) (nrm h))"
    by (simp only: delayed_pending_count [OF inv] count_keys)
  show "dtq_inv nrm (snd (delayed_discard_host nrm h d))" by (rule delayed_discard_inv [OF inv])
  have kept: "length (filter (\<lambda>e. delayed_host e \<noteq> nrm h) (delayed_entries d)) +
      length (filter (\<lambda>e. delayed_host e = nrm h) (delayed_entries d)) = length (delayed_entries d)"
    using sum_length_filter_compl [of "\<lambda>e. delayed_host e \<noteq> nrm h" "delayed_entries d"] by simp
  show "fst (delayed_discard_host nrm h d) = int (count (?H d) (nrm h))"
  proof (cases "delayed_entries d = []")
    case False
    then show ?thesis using kept
      by (simp only: count_keys delayed_discard_host_def Let_def if_False fst_conv split: if_split) linarith
  qed (simp add: delayed_discard_host_def)
  show "?H (snd (delayed_discard_host nrm h d)) = filter_mset (\<lambda>x. x \<noteq> nrm h) (?H d)"
  proof (rule multiset_eqI)
    fix x
    have "filter (\<lambda>e. delayed_host e \<noteq> nrm h) (delayed_entries d) = delayed_entries d"
      if "length (delayed_entries d) \<le> length (filter (\<lambda>e. delayed_host e \<noteq> nrm h) (delayed_entries d))"
      using that length_filter_le by (metis filter_id_conv le_antisym length_filter_less not_less)
    then show "count (?H (snd (delayed_discard_host nrm h d))) x = count (filter_mset (\<lambda>x. x \<noteq> nrm h) (?H d)) x"
      by (auto simp: delayed_discard_host_def Let_def filter_mset_image_mset simp flip: mset_filter)
  qed
qed

lemma combine_pending_get:
  "distinct (map fst b) \<Longrightarrow> get_default (combine_pending_maps a b) h 0 = get_default a h 0 + get_default b h 0"
proof (induction a b rule: combine_pending_maps.induct)
  case (2 a k n b)
  then show ?case
    by (auto simp: get_default_None map_of_eq_None_iff) (auto simp: get_default_def)
qed (simp add: get_default_def)

section \<open>Properties\<close>

inductive dtq_reachable :: "(host \<Rightarrow> host) \<Rightarrow> 'a delayed_task_queue \<Rightarrow> bool" for nrm where
  dtq_init: "dtq_reachable nrm empty_delayed"
| dtq_push: "dtq_reachable nrm d \<Longrightarrow> dtq_reachable nrm (snd (delayed_push nrm clock h p s t w now d))"
| dtq_promote: "dtq_reachable nrm d \<Longrightarrow> dtq_reachable nrm (fst (snd (promote_ready nrm clock now limit d empty_queue)))"
| dtq_discard: "dtq_reachable nrm d \<Longrightarrow> dtq_reachable nrm (snd (delayed_discard_host nrm h d))"
| dtq_clear: "dtq_reachable nrm d \<Longrightarrow> dtq_reachable nrm (delayed_clear d)"

context host_canonical begin

lemma delayed_reachable_inv: "dtq_reachable nrm d \<Longrightarrow> dtq_inv nrm d"
proof (induction rule: dtq_reachable.induct)
  case (dtq_promote d clock now limit)
  then show ?case
    using promote_ready_inv [OF _ empty_queue_inv, of d clock now limit]
    by (cases "promote_ready nrm clock now limit d empty_queue") auto
qed (simp_all add: empty_delayed_inv delayed_push_inv delayed_discard_inv delayed_clear_eq)

lemmas delayed_discard_laws = later.discard_returns_pending later.discard_pending later.discard_size
lemmas ready_discard_laws = ready.discard_returns_pending ready.discard_pending ready.discard_size

end

definition sample_delayed :: "nat delayed_task_queue" where
  "sample_delayed =
     snd (delayed_push lower_host 0 (Some ''b'') 4 2 20 (PyFloat (Fin 9)) PyNone
     (snd (delayed_push lower_host 0 (Some ''A'') 5 1 10 (PyFloat (Fin 3)) PyNone empty_delayed)))"

lemma sample_delayed_reachable: "dtq_reachable lower_host sample_delayed"
  unfolding sample_delayed_def by (intro dtq_push dtq_init)

text \<open>In every reachable state of the delayed queue the entries are in the order of
  ready time and sequence, and the counter of a host is the number of its entries;
  clearing a host's entries returns that number, makes the counter zero and leaves every
  other host's counter alone.\<close>

theorem delayed_counters_agree:
  assumes "host_canonical nrm" and "dtq_reachable nrm d"
  shows "sorted (map delayed_key (delayed_entries d)) \<and>
    delayed_pending_for_host nrm d h = int (length (filter (\<lambda>e. delayed_host e = nrm h) (delayed_entries d))) \<and>
    fst (delayed_discard_host nrm h d) = delayed_pending_for_host nrm d h \<and>
    delayed_pending_for_host nrm (snd (delayed_discard_host nrm h d)) h' =
      (if nrm h' = nrm h then 0 else delayed_pending_for_host nrm d h')"
proof -
  note inv = host_canonical.delayed_reachable_inv [OF assms]
  show ?thesis
    using host_canonical.delayed_discard_laws [OF assms(1) inv] delayed_pending_count [OF inv] inv
    by (simp add: dtq_inv_def heap_ok_def)
qed

theorem delayed_counters_agree_witness:
  "fst (delayed_discard_host lower_host (Some ''a'') sample_delayed) =
     delayed_pending_for_host lower_host sample_delayed (Some ''a'') \<and>
   delayed_size sample_delayed = 2"
  using delayed_counters_agree [OF lower_host_canonical sample_delayed_reachable]
  by (simp add: sample_delayed_def delayed_push_def Let_def delayed_size_def empty_delayed_def)

text \<open>Promotion never releases a task early and never leaves a due task behind: without
  a limit it pushes the entries whose ready time has come, in the order of ready time and
  sequence, and keeps exactly the others. With a limit it promotes the first ones.\<close>

theorem promote_ready_exact:
  assumes "host_canonical nrm" and "dtq_reachable nrm d"
    and "coerce_monotonic_timestamp clock now = Inr t"
    and "promote_ready nrm clock now limit d q = (r, d', q')"
    and "due = filter (\<lambda>e. delayed_ready_at e \<le> t) (delayed_entries d)"
  shows "(limit = None \<longrightarrow> r = Inr (int (length due)) \<and> q' = fold (push_delayed nrm) due q \<and>
      delayed_entries d' = filter (\<lambda>e. t < delayed_ready_at e) (delayed_entries d)) \<and>
    (\<forall>l. limit = Some l \<longrightarrow> r = Inr (int (length (take (nat l) due))) \<and> q' = fold (push_delayed nrm) (take (nat l) due) q)"
proof -
  note inv = host_canonical.delayed_reachable_inv [OF assms(1,2)]
  note spec = promote_ready_spec [OF inv assms(3,4)]
  show ?thesis
  proof (cases limit)
    case (Some l)
    then show ?thesis using spec by (simp add: due_entries_def assms(5))
  next
    case None
    let ?due = "\<lambda>e. delayed_ready_at e \<le> t"
    have D: "due_entries t limit (delayed_entries d) = due"
      using None by (simp add: due_entries_def assms(5))
    note facts = spec [unfolded D]
    then have split: "delayed_entries d = due @ delayed_entries d'" by blast
    have due: "filter ?due due = due" by (simp add: assms(5))
    have "due = filter ?due (due @ delayed_entries d')"
      unfolding split [symmetric] by (rule assms(5))
    then have none: "filter ?due (delayed_entries d') = []" by (simp add: due)
    have "filter (\<lambda>e. t < delayed_ready_at e) (due @ delayed_entries d') = delayed_entries d'"
      using none due by (auto simp: filter_empty_conv filter_id_conv not_le not_less)
    then have "delayed_entries d' = filter (\<lambda>e. t < delayed_ready_at e) (delayed_entries d)"
      by (simp only: split [symmetric])
    then show ?thesis using facts None by blast
  qed
qed

theorem promote_ready_exact_witness:
  "fst (promote_ready lower_host 5 PyNone None sample_delayed empty_queue) = Inr 1"
proof -
  obtain r d' q' where run: "promote_ready lower_host 5 PyNone None sample_delayed empty_queue = (r, d', q')"
    by (cases "promote_ready lower_host 5 PyNone None sample_delayed empty_queue") auto
  show ?thesis
    using promote_ready_exact [OF lower_host_canonical sample_delayed_reachable _ run refl] run
    by (simp add: sample_delayed_def delayed_push_def Let_def empty_delayed_def delayed_key_def)
qed

text \<open>Promotion loses and duplicates nothing: the tasks of the delayed queue and of the
  host queue together are the same before and after, and both invariants are kept.\<close>

theorem promote_ready_conserves:
  assumes "host_canonical nrm" and "dtq_reachable nrm d" and "htq_reachable nrm q"
    and "promote_ready nrm clock now limit d q = (r, d', q')"
  shows "queued_items q' + delayed_items d' = queued_items q + delayed_items d \<and>
    dtq_inv nrm d' \<and> htq_inv nrm q'"
  using host_canonical.promote_ready_inv [OF assms(1) host_canonical.delayed_reachable_inv [OF assms(1,2)]
      host_canonical.reachable_inv [OF assms(1,3)] assms(4)] by blast

theorem promote_ready_conserves_witness:
  "\<exists>r d' q'. promote_ready lower_host 5 PyNone (Some 1) sample_delayed sample_queue = (r, d', q') \<and>
     queued_items q' + delayed_items d' = queued_items sample_queue + delayed_items sample_delayed"
  using promote_ready_conserves [OF lower_host_canonical sample_delayed_reachable sample_reachable]
  by (metis prod_cases3)

end
