(* ===== verification/Host_Eligibility.thy ===== *)
theory Host_Eligibility imports
  Delayed_Task_Queue
begin

text \<open>
  Host dispatch eligibility, \<open>crawler/scheduling/queueing/host_eligibility_queue.py\<close>: the
  states of the tracked hosts and a heap with one entry per update, of which those with
  an old generation are stale and skipped by \<open>peek\<close>.
\<close>

section \<open>Timestamps\<close>

text \<open>\<open>math.inf\<close> marks a host that is blocked until a completion releases it.\<close>

datatype etime = BeforeAll | At real | Blocked

instantiation etime :: linorder
begin

fun less_eq_etime :: "etime \<Rightarrow> etime \<Rightarrow> bool" where
  "less_eq_etime BeforeAll y = True"
| "less_eq_etime (At r) BeforeAll = False"
| "less_eq_etime (At r) (At s) = (r \<le> s)"
| "less_eq_etime (At r) Blocked = True"
| "less_eq_etime Blocked y = (y = Blocked)"

definition less_etime :: "etime \<Rightarrow> etime \<Rightarrow> bool" where
  "less_etime x y = (x \<le> y \<and> \<not> y \<le> x)"

instance
proof
  fix x y z :: etime
  show "(x < y) = (x \<le> y \<and> \<not> y \<le> x)" by (simp add: less_etime_def)
  show "x \<le> x" by (cases x) auto
  show "x \<le> y \<Longrightarrow> y \<le> z \<Longrightarrow> x \<le> z" by (cases x; cases y; cases z) auto
  show "x \<le> y \<Longrightarrow> y \<le> x \<Longrightarrow> x = y" by (cases x; cases y) auto
  show "x \<le> y \<or> y \<le> x" by (cases x; cases y) auto
qed

end

fun float_etime :: "pyfloat \<Rightarrow> etime result" where
  "float_etime PyNaN = Inl (ValueError ''next_eligible_at must not be NaN'')"
| "float_etime NegInf = Inr BeforeAll"
| "float_etime (Fin r) = Inr (At r)"
| "float_etime PosInf = Inr Blocked"

text \<open>An \<open>OverflowError\<close> of \<open>float\<close> is not caught.\<close>

definition coerce_eligible_at :: "pyval \<Rightarrow> etime result" where
  "coerce_eligible_at v = (case py_float v of
     Inl (OverflowError m) \<Rightarrow> Inl (OverflowError m)
   | Inl e \<Rightarrow> Inl (ValueError (''next_eligible_at must be a number, got '' @ py_repr v))
   | Inr x \<Rightarrow> float_etime x)"

section \<open>The state\<close>

record host_dispatch_state =
  dispatch_host :: host
  next_eligible_at :: etime
  dispatch_inflight :: int
  dispatch_generation :: int

type_synonym eligibility_entry = "etime \<times> int \<times> host"

record host_eligibility_queue =
  elig_states :: "(host \<times> host_dispatch_state) list"
  elig_heap :: "eligibility_entry list"
  elig_generation :: int

definition elig_key :: "eligibility_entry \<Rightarrow> etime \<times> int" where
  "elig_key e = (fst e, fst (snd e))"

definition empty_eligibility :: host_eligibility_queue where
  "empty_eligibility = \<lparr>elig_states = [], elig_heap = [], elig_generation = 0\<rparr>"

section \<open>Operations\<close>

definition elig_size :: "host_eligibility_queue \<Rightarrow> int" where
  "elig_size q = int (length (elig_states q))"

definition elig_clear :: "host_eligibility_queue \<Rightarrow> host_eligibility_queue" where
  "elig_clear q = q\<lparr>elig_states := [], elig_heap := []\<rparr>"

definition elig_next :: "host \<Rightarrow> host_eligibility_queue \<Rightarrow> etime option" where
  "elig_next host q = map_option next_eligible_at (map_of (elig_states q) host)"

definition upsert :: "host \<Rightarrow> pyval \<Rightarrow> int \<Rightarrow> host_eligibility_queue \<Rightarrow> unit result \<times> host_eligibility_queue" where
  "upsert host eligible_at inflight q =
    (let q = q\<lparr>elig_generation := elig_generation q + 1\<rparr> in
     case coerce_eligible_at eligible_at of
       Inl e \<Rightarrow> (Inl e, q)
     | Inr t \<Rightarrow>
        (let state = \<lparr>dispatch_host = host, next_eligible_at = t, dispatch_inflight = max 0 inflight,
                      dispatch_generation = elig_generation q\<rparr>
         in (Inr (), q\<lparr>elig_states := AList.update host state (elig_states q),
                       elig_heap := heap_push elig_key (t, elig_generation q, host) (elig_heap q)\<rparr>)))"

definition elig_remove :: "host \<Rightarrow> host_eligibility_queue \<Rightarrow> host_eligibility_queue" where
  "elig_remove host q = q\<lparr>elig_states := AList.delete host (elig_states q)\<rparr>"

definition release_blocked :: "host \<Rightarrow> host_eligibility_queue \<Rightarrow> host_eligibility_queue" where
  "release_blocked host q = (case map_of (elig_states q) host of
     None \<Rightarrow> q
   | Some state \<Rightarrow> (if next_eligible_at state \<notin> {Blocked, BeforeAll} then q
       else snd (upsert host (PyFloat (Fin 0)) (dispatch_inflight state) q)))"

text \<open>The loop of \<open>peek\<close> on the heap: the earliest entry of a current generation, and the rest of the heap.\<close>

fun peek_loop :: "(host \<times> host_dispatch_state) list \<Rightarrow> eligibility_entry list \<Rightarrow>
    (host \<times> etime) option \<times> eligibility_entry list" where
  "peek_loop states [] = (None, [])"
| "peek_loop states ((t, generation, host) # heap) =
    (case map_of states host of
       Some state \<Rightarrow> (if dispatch_generation state = generation
         then (Some (host, t), (t, generation, host) # heap) else peek_loop states heap)
     | None \<Rightarrow> peek_loop states heap)"

definition peek :: "host_eligibility_queue \<Rightarrow> (host \<times> etime) option \<times> host_eligibility_queue" where
  "peek q = (case peek_loop (elig_states q) (elig_heap q) of (r, heap) \<Rightarrow> (r, q\<lparr>elig_heap := heap\<rparr>))"

definition elig_has_ready :: "real \<Rightarrow> pyval \<Rightarrow> host_eligibility_queue \<Rightarrow> bool result \<times> host_eligibility_queue" where
  "elig_has_ready clock now q = (case coerce_monotonic_timestamp clock now of
     Inl e \<Rightarrow> (Inl e, q)
   | Inr current_time \<Rightarrow> (case peek q of
       (None, q) \<Rightarrow> (Inr False, q)
     | (Some (host, ready_at), q) \<Rightarrow> (Inr (ready_at \<le> At current_time), q)))"

definition elig_next_ready_in_seconds ::
  "real \<Rightarrow> pyval \<Rightarrow> host_eligibility_queue \<Rightarrow> real option result \<times> host_eligibility_queue" where
  "elig_next_ready_in_seconds clock now q = (case coerce_monotonic_timestamp clock now of
     Inl e \<Rightarrow> (Inl e, q)
   | Inr current_time \<Rightarrow> (case peek q of
       (None, q) \<Rightarrow> (Inr None, q)
     | (Some (host, ready_at), q) \<Rightarrow>
        (Inr (case ready_at of At r \<Rightarrow> Some (max 0 (r - current_time)) | _ \<Rightarrow> None), q)))"

definition states_items :: "host_eligibility_queue \<Rightarrow> (host \<times> host_dispatch_state) list" where
  "states_items q = elig_states q"

section \<open>The invariant\<close>

text \<open>
  The heap is in order, every tracked host has an entry of its current generation, and an
  entry of the current generation carries the host's time.
\<close>

definition heq_inv :: "host_eligibility_queue \<Rightarrow> bool" where
  "heq_inv q \<longleftrightarrow> heap_ok elig_key (elig_heap q) \<and> distinct (map fst (elig_states q)) \<and>
     (\<forall>h st. map_of (elig_states q) h = Some st \<longrightarrow>
        dispatch_host st = h \<and> dispatch_generation st \<le> elig_generation q \<and>
        (next_eligible_at st, dispatch_generation st, h) \<in> set (elig_heap q)) \<and>
     (\<forall>t g h. (t, g, h) \<in> set (elig_heap q) \<longrightarrow> g \<le> elig_generation q) \<and>
     (\<forall>t g h st. (t, g, h) \<in> set (elig_heap q) \<longrightarrow> map_of (elig_states q) h = Some st \<longrightarrow>
        dispatch_generation st = g \<longrightarrow> next_eligible_at st = t)"

interpretation elig_order: priority_heap "heap_push elig_key" heap_pop mset "heap_ok elig_key" elig_key
  by (rule priority_heap_list)

lemma heq_invD:
  assumes "heq_inv q"
  shows "heap_ok elig_key (elig_heap q)" and "distinct (map fst (elig_states q))"
    and "map_of (elig_states q) h = Some st \<Longrightarrow> dispatch_host st = h \<and> dispatch_generation st \<le> elig_generation q \<and>
        (next_eligible_at st, dispatch_generation st, h) \<in> set (elig_heap q)"
    and "(t, g, h) \<in> set (elig_heap q) \<Longrightarrow> g \<le> elig_generation q"
    and "(t, g, h) \<in> set (elig_heap q) \<Longrightarrow> map_of (elig_states q) h = Some st \<Longrightarrow>
        dispatch_generation st = g \<Longrightarrow> next_eligible_at st = t"
  using assms unfolding heq_inv_def by blast+

lemma empty_eligibility_inv: "heq_inv empty_eligibility"
  by (simp add: heq_inv_def empty_eligibility_def)

lemma elig_clear_inv: "heq_inv (elig_clear q)"
  by (simp add: heq_inv_def elig_clear_def)

lemma heq_inv_generation: "heq_inv q \<Longrightarrow> heq_inv (q\<lparr>elig_generation := elig_generation q + 1\<rparr>)"
proof -
  assume inv: "heq_inv q"
  show ?thesis
    unfolding heq_inv_def
    using heq_invD(1,2) [OF inv] heq_invD(3,4) [OF inv] heq_invD(5) [OF inv]
    by (auto intro!: add_increasing2)
qed

lemma upsert_inv:
  assumes "heq_inv q"
  shows "heq_inv (snd (upsert h v n q))"
proof (cases "coerce_eligible_at v")
  case (Inl e)
  then show ?thesis using heq_inv_generation [OF assms] by (simp add: upsert_def Let_def)
next
  case (Inr t)
  define q' where "q' = snd (upsert h v n q)"
  have q': "elig_heap q' = heap_push elig_key (t, elig_generation q + 1, h) (elig_heap q)"
    "map_of (elig_states q') = (map_of (elig_states q))(h \<mapsto> \<lparr>dispatch_host = h, next_eligible_at = t,
       dispatch_inflight = max 0 n, dispatch_generation = elig_generation q + 1\<rparr>)"
    "elig_generation q' = elig_generation q + 1" "distinct (map fst (elig_states q'))"
    using Inr heq_invD(2) [OF assms] by (simp_all add: q'_def upsert_def update_conv' distinct_update)
  have old: "g \<noteq> elig_generation q + 1" if "(t', g, h') \<in> set (elig_heap q)" for t' g h'
    using heq_invD(4) [OF assms that] by simp
  show ?thesis
    unfolding heq_inv_def q'_def [symmetric]
  proof (intro conjI allI impI)
    show "heap_ok elig_key (elig_heap q')"
      unfolding q' by (rule elig_order.ok_push [OF heq_invD(1) [OF assms]])
    show "distinct (map fst (elig_states q'))" by (rule q')
  next
    fix h' st assume "map_of (elig_states q') h' = Some st"
    then show "dispatch_host st = h'" "dispatch_generation st \<le> elig_generation q'"
      "(next_eligible_at st, dispatch_generation st, h') \<in> set (elig_heap q')"
      using q' heq_invD(3) [OF assms, of h' st] by (auto split: if_splits)
  next
    fix t' g h' assume "(t', g, h') \<in> set (elig_heap q')"
    then show "g \<le> elig_generation q'" using q' heq_invD(4) [OF assms, of t' g h'] by auto
  next
    fix t' g h' st
    assume "(t', g, h') \<in> set (elig_heap q')" and "map_of (elig_states q') h' = Some st" and "dispatch_generation st = g"
    then show "next_eligible_at st = t'"
      using q' old [of t' g h'] heq_invD(3) [OF assms, of h' st] heq_invD(5) [OF assms, of t' g h' st]
      by (auto split: if_splits)
  qed
qed

lemma elig_remove_inv: "heq_inv q \<Longrightarrow> heq_inv (elig_remove h q)"
proof -
  assume inv: "heq_inv q"
  show ?thesis
    unfolding heq_inv_def
    using heq_invD(1,2) [OF inv] heq_invD(3,4) [OF inv] heq_invD(5) [OF inv]
    by (auto simp: elig_remove_def delete_conv' distinct_delete split: if_splits)
qed

lemma release_blocked_inv: "heq_inv q \<Longrightarrow> heq_inv (release_blocked h q)"
  by (auto simp: release_blocked_def upsert_inv split: option.splits)

lemma peek_loop_suffix: "\<exists>dropped. heap = dropped @ snd (peek_loop states heap) \<and>
    (\<forall>(t, g, h)\<in>set dropped. \<forall>st. map_of states h = Some st \<longrightarrow> dispatch_generation st \<noteq> g)"
proof (induction states heap rule: peek_loop.induct)
  case (2 states t g h heap)
  show ?case
  proof (cases "map_of states h")
    case None
    with 2 obtain dropped where "heap = dropped @ snd (peek_loop states heap)"
      "\<forall>(t, g, h)\<in>set dropped. \<forall>st. map_of states h = Some st \<longrightarrow> dispatch_generation st \<noteq> g" by blast
    then show ?thesis using None by (intro exI [of _ "(t, g, h) # dropped"]) auto
  next
    case (Some st)
    show ?thesis
    proof (cases "dispatch_generation st = g")
      case False
      with 2 Some obtain dropped where "heap = dropped @ snd (peek_loop states heap)"
        "\<forall>(t, g, h)\<in>set dropped. \<forall>st. map_of states h = Some st \<longrightarrow> dispatch_generation st \<noteq> g" by blast
      then show ?thesis using Some False by (intro exI [of _ "(t, g, h) # dropped"]) auto
    qed (simp add: Some)
  qed
qed simp

lemma peek_loop_None: "fst (peek_loop states heap) = None \<Longrightarrow> snd (peek_loop states heap) = []"
  by (induction states heap rule: peek_loop.induct) (auto split: option.splits if_splits)

lemma peek_loop_Some:
  "fst (peek_loop states heap) = Some (h, t) \<Longrightarrow> \<exists>st rest. map_of states h = Some st \<and>
     snd (peek_loop states heap) = (t, dispatch_generation st, h) # rest"
  by (induction states heap rule: peek_loop.induct) (auto split: option.splits if_splits)

lemma peek_inv:
  assumes "heq_inv q"
  shows "heq_inv (snd (peek q))"
proof -
  obtain dropped where heap: "elig_heap q = dropped @ snd (peek_loop (elig_states q) (elig_heap q))"
    and stale: "\<forall>(t, g, h)\<in>set dropped. \<forall>st. map_of (elig_states q) h = Some st \<longrightarrow> dispatch_generation st \<noteq> g"
    using peek_loop_suffix by blast
  define rest where "rest = snd (peek_loop (elig_states q) (elig_heap q))"
  have split: "elig_heap q = dropped @ rest" using heap by (simp add: rest_def)
  have "snd (peek q) = q\<lparr>elig_heap := rest\<rparr>"
    by (simp add: peek_def rest_def split: prod.splits)
  moreover have "heap_ok elig_key rest"
    using assms split by (simp add: heq_inv_def heap_ok_def sorted_append)
  moreover have "(next_eligible_at st, dispatch_generation st, h) \<in> set rest"
    if "map_of (elig_states q) h = Some st" for h st
    using heq_invD(3) [OF assms that] stale that split by auto
  moreover have "set rest \<subseteq> set (elig_heap q)" using split by simp
  ultimately show ?thesis
    unfolding heq_inv_def
    using heq_invD(2) [OF assms] heq_invD(3,4) [OF assms] heq_invD(5) [OF assms]
    by auto
qed

lemma peek_least:
  assumes "heq_inv q"
  shows "case fst (peek q) of
      None \<Rightarrow> elig_states q = []
    | Some (h, t) \<Rightarrow> \<exists>st. map_of (elig_states q) h = Some st \<and> next_eligible_at st = t \<and>
        (\<forall>h' st'. map_of (elig_states q) h' = Some st' \<longrightarrow>
          (t, dispatch_generation st) \<le> (next_eligible_at st', dispatch_generation st'))"
proof -
  have inv: "heq_inv (snd (peek q))" by (rule peek_inv [OF assms])
  have states: "elig_states (snd (peek q)) = elig_states q" by (simp add: peek_def split: prod.splits)
  have heap: "elig_heap (snd (peek q)) = snd (peek_loop (elig_states q) (elig_heap q))"
    by (simp add: peek_def split: prod.splits)
  have res: "fst (peek q) = fst (peek_loop (elig_states q) (elig_heap q))"
    by (simp add: peek_def split: prod.splits)
  show ?thesis
  proof (cases "fst (peek q)")
    case None
    then have "elig_heap (snd (peek q)) = []" using peek_loop_None heap res by simp
    then have "map_of (elig_states q) h = None" for h
      using inv states by (cases "map_of (elig_states q) h") (auto simp: heq_inv_def)
    then have "elig_states q = []" by (cases "elig_states q") (auto, metis option.distinct(1))
    then show ?thesis using None by simp
  next
    case (Some x)
    obtain h t where x: "x = (h, t)" by (cases x)
    then obtain st rest where st: "map_of (elig_states q) h = Some st"
      and first: "elig_heap (snd (peek q)) = (t, dispatch_generation st, h) # rest"
      using peek_loop_Some [of "elig_states q" "elig_heap q" h t] Some heap res by auto
    have t: "next_eligible_at st = t" using inv st first states by (auto simp: heq_inv_def)
    have "(t, dispatch_generation st) \<le> (next_eligible_at st', dispatch_generation st')"
      if "map_of (elig_states q) h' = Some st'" for h' st'
    proof -
      have "(next_eligible_at st', dispatch_generation st', h') \<in> set (elig_heap (snd (peek q)))"
        using inv that states by (simp add: heq_inv_def)
      moreover have "\<forall>e\<in>set (elig_heap (snd (peek q))). elig_key (t, dispatch_generation st, h) \<le> elig_key e"
        using elig_order.pop_least [OF heq_invD(1) [OF inv]] first by auto
      ultimately have "elig_key (t, dispatch_generation st, h) \<le> elig_key (next_eligible_at st', dispatch_generation st', h')"
        by blast
      then show ?thesis by (simp add: elig_key_def)
    qed
    then show ?thesis using Some x st t by auto
  qed
qed

section \<open>Properties\<close>

inductive heq_reachable :: "host_eligibility_queue \<Rightarrow> bool" where
  heq_init: "heq_reachable empty_eligibility"
| heq_upsert: "heq_reachable q \<Longrightarrow> heq_reachable (snd (upsert h v n q))"
| heq_remove: "heq_reachable q \<Longrightarrow> heq_reachable (elig_remove h q)"
| heq_release: "heq_reachable q \<Longrightarrow> heq_reachable (release_blocked h q)"
| heq_peek: "heq_reachable q \<Longrightarrow> heq_reachable (snd (peek q))"
| heq_clear: "heq_reachable q \<Longrightarrow> heq_reachable (elig_clear q)"

lemma heq_reachable_inv: "heq_reachable q \<Longrightarrow> heq_inv q"
  by (induction rule: heq_reachable.induct)
    (simp_all add: empty_eligibility_inv upsert_inv elig_remove_inv release_blocked_inv peek_inv elig_clear_inv)

lemma has_ready_iff:
  assumes "heq_inv q"
  shows "fst (elig_has_ready clock PyNone q) = Inr (\<exists>h st. map_of (elig_states q) h = Some st \<and> next_eligible_at st \<le> At clock)"
proof (cases "fst (peek q)")
  case None
  then have "elig_states q = []" using peek_least [OF assms] by simp
  then show ?thesis using None by (cases "peek q") (simp add: elig_has_ready_def)
next
  case (Some x)
  obtain h t where x: "x = (h, t)" by (cases x)
  obtain st where st: "map_of (elig_states q) h = Some st" "next_eligible_at st = t"
    and least: "\<And>h' st'. map_of (elig_states q) h' = Some st' \<Longrightarrow> t \<le> next_eligible_at st'"
    using peek_least [OF assms] Some x by (fastforce simp: less_eq_prod_def)
  have "(t \<le> At clock) = (\<exists>h st. map_of (elig_states q) h = Some st \<and> next_eligible_at st \<le> At clock)"
    using st least order_trans by blast
  then show ?thesis using Some x by (cases "peek q") (simp add: elig_has_ready_def)
qed

definition sample_eligibility :: host_eligibility_queue where
  "sample_eligibility = snd (upsert (Some ''a'') (PyFloat PosInf) 2 (snd (upsert (Some ''b'') (PyFloat (Fin 7)) 0
     (snd (upsert (Some ''a'') (PyFloat (Fin 3)) 1 empty_eligibility)))))"

lemma sample_eligibility_reachable: "heq_reachable sample_eligibility"
  unfolding sample_eligibility_def by (intro heq_upsert heq_init)

lemma sample_eligibility_states: "map_of (elig_states sample_eligibility) (Some ''b'') = Some \<lparr>dispatch_host = Some ''b'',
   next_eligible_at = At 7, dispatch_inflight = 0, dispatch_generation = 2\<rparr>"
  by (simp add: sample_eligibility_def upsert_def Let_def coerce_eligible_at_def empty_eligibility_def)

text \<open>Stale heap entries are harmless. In every reachable state \<open>peek\<close> answers \<open>None\<close> exactly
  when no host is tracked, and otherwise a tracked host with its own current time that is
  minimal over all tracked hosts, the one updated first among equal times. It tracks the
  same hosts afterwards.\<close>

theorem peek_is_earliest_tracked:
  assumes "heq_reachable q" and "peek q = (r, q')"
  shows "states_items q' = states_items q \<and> (r = None \<longleftrightarrow> states_items q = []) \<and>
    (\<forall>h t. r = Some (h, t) \<longrightarrow> elig_next h q = Some t \<and>
      (\<exists>st. map_of (states_items q) h = Some st \<and>
        (\<forall>h' st'. map_of (states_items q) h' = Some st' \<longrightarrow>
          (t, dispatch_generation st) \<le> (next_eligible_at st', dispatch_generation st'))))"
proof -
  have inv: "heq_inv q" using assms(1) by (rule heq_reachable_inv)
  have "elig_states q' = elig_states q" using assms(2) by (auto simp: peek_def split: prod.splits)
  moreover have "fst (peek q) = r" using assms(2) by simp
  ultimately show ?thesis
    using peek_least [OF inv] by (cases r) (auto simp: states_items_def elig_next_def)
qed

theorem peek_is_earliest_tracked_witness:
  "\<exists>h t. fst (peek sample_eligibility) = Some (h, t) \<and> t \<le> At 7"
proof -
  obtain r q' where run: "peek sample_eligibility = (r, q')" by (cases "peek sample_eligibility")
  note facts = peek_is_earliest_tracked [OF sample_eligibility_reachable run]
  have "states_items sample_eligibility \<noteq> []"
    using sample_eligibility_states by (auto simp: states_items_def)
  then obtain h t where r: "r = Some (h, t)" using facts by (cases r) auto
  then have "t \<le> At 7"
    using facts sample_eligibility_states by (fastforce simp: states_items_def less_eq_prod_def)
  then show ?thesis using run r by simp
qed

text \<open>\<open>has_ready\<close> is true exactly when some tracked host is due, however many stale
  entries are in front of it; a host that is blocked is never due.\<close>

theorem has_ready_iff_host_due:
  assumes "heq_reachable q"
  shows "fst (elig_has_ready clock PyNone q) =
    Inr (\<exists>h t. elig_next h q = Some (At t) \<and> t \<le> clock \<or> elig_next h q = Some BeforeAll)"
proof -
  have "(\<exists>st. map_of (elig_states q) h = Some st \<and> next_eligible_at st \<le> At clock) =
      (\<exists>t. elig_next h q = Some (At t) \<and> t \<le> clock \<or> elig_next h q = Some BeforeAll)" for h
    by (cases "map_of (elig_states q) h"; cases "next_eligible_at (the (map_of (elig_states q) h))")
      (auto simp: elig_next_def)
  then show ?thesis unfolding has_ready_iff [OF heq_reachable_inv [OF assms]] by simp
qed

theorem has_ready_iff_host_due_witness:
  "fst (elig_has_ready 7 PyNone sample_eligibility) = Inr True"
  unfolding has_ready_iff_host_due [OF sample_eligibility_reachable]
  by (rule arg_cong [of _ _ Inr]) (auto simp: elig_next_def sample_eligibility_states intro: exI [of _ "Some ''b''"])

end
