(* ===== verification/Seen_Url_Registry.thy ===== *)
theory Seen_Url_Registry imports
  Value_Parser
  Host_Task_Queue
begin

text \<open>
  The duplicate registry, \<open>crawler/scheduling/dedupe/seen_url_registry.py\<close>: an ordered
  dictionary from identities to the time they were remembered, bounded in size and with
  an optional time to live. An operation that reads the wall clock takes its value as
  \<open>now\<close>, read once per call.
\<close>

section \<open>The state\<close>

record seen_url_registry =
  max_seen :: int
  ttl_seconds :: "real option"
  seen :: "(string \<times> real) list"

definition init_registry :: "int \<Rightarrow> real option \<Rightarrow> seen_url_registry result" where
  "init_registry n ttl =
    (if n \<le> 0 then Inl (ValueError ''max_seen must be greater than 0'')
     else if (case ttl of None \<Rightarrow> False | Some t \<Rightarrow> t \<le> 0)
       then Inl (ValueError ''ttl_seconds must be greater than 0 when provided'')
     else Inr \<lparr>max_seen = n, ttl_seconds = ttl, seen = []\<rparr>)"

definition normalize_seen_url :: "string \<Rightarrow> string option" where
  "normalize_seen_url u = (let normalized = py_strip u in if normalized = [] then None else Some normalized)"

section \<open>Operations\<close>

text \<open>\<open>pop\<close> of every expired key: the others stay, in order.\<close>

definition purge_expired :: "real \<Rightarrow> seen_url_registry \<Rightarrow> seen_url_registry" where
  "purge_expired now r = (case ttl_seconds r of None \<Rightarrow> r
     | Some ttl \<Rightarrow>
        (let expired = map fst (filter (\<lambda>(u, stored_at). stored_at \<le> now - ttl) (seen r))
         in r\<lparr>seen := foldl (\<lambda>m u. AList.delete u m) (seen r) expired\<rparr>))"

definition evict_oldest_if_needed :: "seen_url_registry \<Rightarrow> seen_url_registry" where
  "evict_oldest_if_needed r = (if max_seen r \<le> int (length (seen r)) then r\<lparr>seen := tl (seen r)\<rparr> else r)"

definition put_newest :: "string \<Rightarrow> real \<Rightarrow> (string \<times> real) list \<Rightarrow> (string \<times> real) list" where
  "put_newest u t m = AList.update u t (AList.delete u m)"

definition put :: "string \<Rightarrow> real \<Rightarrow> seen_url_registry \<Rightarrow> seen_url_registry" where
  "put u t r = r\<lparr>seen := put_newest u t (seen r)\<rparr>"

definition registry_size :: "real \<Rightarrow> seen_url_registry \<Rightarrow> int \<times> seen_url_registry" where
  "registry_size now r = (let r = purge_expired now r in (int (length (seen r)), r))"

definition is_seen :: "real \<Rightarrow> string \<Rightarrow> seen_url_registry \<Rightarrow> bool \<times> seen_url_registry" where
  "is_seen now u r = (let r = purge_expired now r in
     (case normalize_seen_url u of None \<Rightarrow> False | Some k \<Rightarrow> map_of (seen r) k \<noteq> None, r))"

definition remember :: "real \<Rightarrow> string \<Rightarrow> seen_url_registry \<Rightarrow> bool \<times> seen_url_registry" where
  "remember now u r = (let r = purge_expired now r in
     case normalize_seen_url u of None \<Rightarrow> (False, r)
     | Some k \<Rightarrow> (if map_of (seen r) k \<noteq> None then (False, put k now r)
                 else (True, put k now (evict_oldest_if_needed r))))"

fun remember_all :: "real \<Rightarrow> string list \<Rightarrow> seen_url_registry \<Rightarrow> seen_url_registry" where
  "remember_all now [] r = r"
| "remember_all now (u # us) r = (case normalize_seen_url u of None \<Rightarrow> remember_all now us r
     | Some k \<Rightarrow> remember_all now us (put k now
         (if map_of (seen r) k = None then evict_oldest_if_needed r else r)))"

definition remember_equivalent_urls :: "real \<Rightarrow> string list \<Rightarrow> seen_url_registry \<Rightarrow> seen_url_registry" where
  "remember_equivalent_urls now us r = remember_all now us (purge_expired now r)"

definition forget :: "real \<Rightarrow> string \<Rightarrow> seen_url_registry \<Rightarrow> bool \<times> seen_url_registry" where
  "forget now u r = (let r = purge_expired now r in
     case normalize_seen_url u of None \<Rightarrow> (False, r)
     | Some k \<Rightarrow> (map_of (seen r) k \<noteq> None, r\<lparr>seen := AList.delete k (seen r)\<rparr>))"

definition export_entries :: "real \<Rightarrow> seen_url_registry \<Rightarrow> (string \<times> real) list \<times> seen_url_registry" where
  "export_entries now r = (let r = purge_expired now r in (seen r, r))"

definition seen_timestamp :: "pyval \<Rightarrow> real option" where
  "seen_timestamp v = (case py_float v of Inr (Fin t) \<Rightarrow> Some t | _ \<Rightarrow> None)"

fun load_entries :: "(string \<times> pyval) list \<Rightarrow> (string \<times> real) list \<Rightarrow> (string \<times> real) list" where
  "load_entries [] restored = restored"
| "load_entries ((u, ts) # entries) restored =
     (case normalize_seen_url u of None \<Rightarrow> load_entries entries restored
      | Some k \<Rightarrow> (case seen_timestamp ts of None \<Rightarrow> load_entries entries restored
          | Some t \<Rightarrow> load_entries entries (put_newest k t restored)))"

text \<open>\<open>while len(restored) > max_seen: restored.popitem(last=False)\<close>.\<close>

fun keep_newest :: "int \<Rightarrow> 'a list \<Rightarrow> 'a list" where
  "keep_newest n [] = []"
| "keep_newest n (x # xs) = (if n < int (length (x # xs)) then keep_newest n xs else x # xs)"

definition replace_entries :: "real \<Rightarrow> (string \<times> pyval) list \<Rightarrow> seen_url_registry \<Rightarrow> int \<times> seen_url_registry" where
  "replace_entries now entries r =
     (let r = purge_expired now (r\<lparr>seen := keep_newest (max_seen r) (load_entries entries [])\<rparr>)
      in (int (length (seen r)), r))"

definition export_urls :: "real \<Rightarrow> seen_url_registry \<Rightarrow> string list \<times> seen_url_registry" where
  "export_urls now r = (let r = purge_expired now r in (map fst (seen r), r))"

definition snapshot_urls :: "seen_url_registry \<Rightarrow> string list" where
  "snapshot_urls r = map fst (seen r)"

fun load_urls :: "real \<Rightarrow> string list \<Rightarrow> (string \<times> real) list \<Rightarrow> (string \<times> real) list" where
  "load_urls now [] restored = restored"
| "load_urls now (u # us) restored =
     (case normalize_seen_url u of None \<Rightarrow> load_urls now us restored
      | Some k \<Rightarrow> load_urls now us (put_newest k now restored))"

definition replace_urls :: "real \<Rightarrow> string list \<Rightarrow> seen_url_registry \<Rightarrow> int \<times> seen_url_registry" where
  "replace_urls now us r =
     (let r = r\<lparr>seen := keep_newest (max_seen r) (load_urls now us [])\<rparr> in (int (length (seen r)), r))"

section \<open>Lemmas\<close>

definition seen_ok :: "(string \<times> real) list \<Rightarrow> bool" where
  "seen_ok m \<longleftrightarrow> distinct (map fst m) \<and> (\<forall>u\<in>fst ` set m. normalize_seen_url u = Some u)"

definition sur_inv :: "seen_url_registry \<Rightarrow> bool" where
  "sur_inv r \<longleftrightarrow> 0 < max_seen r \<and> seen_ok (seen r) \<and> int (length (seen r)) \<le> max_seen r"

lemma seen_ok_Nil [simp]: "seen_ok []"
  by (simp add: seen_ok_def)

lemma seen_ok_distinct [dest]: "seen_ok m \<Longrightarrow> distinct (map fst m)"
  by (simp add: seen_ok_def)

lemma seen_ok_filter: "seen_ok m \<Longrightarrow> seen_ok (filter P m)"
  by (auto simp: seen_ok_def distinct_map_filter)

lemma seen_ok_drop: "seen_ok m \<Longrightarrow> seen_ok (drop n m)"
  by (auto simp: seen_ok_def drop_map [symmetric] dest: in_set_dropD)

lemma seen_ok_tl: "seen_ok m \<Longrightarrow> seen_ok (tl m)"
  using seen_ok_drop [of m 1] by (simp add: drop_Suc)

lemma seen_ok_delete: "seen_ok m \<Longrightarrow> seen_ok (AList.delete k m)"
  unfolding AList.delete_eq by (rule seen_ok_filter)

lemma normalize_seen_fixed: "normalize_seen_url u = Some k \<Longrightarrow> normalize_seen_url k = Some k"
  by (auto simp: normalize_seen_url_def Let_def split: if_splits)

lemma foldl_delete: "foldl (\<lambda>m u. AList.delete u m) m us = filter (\<lambda>(k, v). k \<notin> set us) m"
  by (induction us arbitrary: m) (auto simp: AList.delete_eq intro!: filter_cong)

lemma purge_seen:
  assumes "distinct (map fst (seen r))"
  shows "seen (purge_expired now r) = (case ttl_seconds r of None \<Rightarrow> seen r
    | Some ttl \<Rightarrow> filter (\<lambda>(u, t). now - ttl < t) (seen r))"
proof (cases "ttl_seconds r")
  case (Some ttl)
  have "(u \<notin> fst ` {x \<in> set (seen r). snd x \<le> now - ttl}) = (now - ttl < t)" if "(u, t) \<in> set (seen r)" for u t
    using that assms by (auto simp: image_iff not_le dest: eq_key_imp_eq_value)
  then show ?thesis
    using Some by (auto simp: purge_expired_def foldl_delete Let_def split_beta intro!: filter_cong)
qed (simp add: purge_expired_def)

lemma purge_other [simp]: "max_seen (purge_expired now r) = max_seen r" "ttl_seconds (purge_expired now r) = ttl_seconds r"
  by (auto simp: purge_expired_def Let_def split: option.splits)

lemma purge_inv:
  assumes "sur_inv r"
  shows "sur_inv (purge_expired now r)"
proof -
  have "seen (purge_expired now r) = filter (\<lambda>(u, t). case ttl_seconds r of None \<Rightarrow> True | Some ttl \<Rightarrow> now - ttl < t) (seen r)"
    using assms by (subst purge_seen) (auto simp: sur_inv_def split: option.splits)
  moreover have "int (length (filter P (seen r))) \<le> max_seen r" for P
    using assms length_filter_le [of P "seen r"] unfolding sur_inv_def by linarith
  ultimately show ?thesis
    using assms by (simp add: sur_inv_def seen_ok_filter)
qed

lemma put_newest_eq: "put_newest k t m = AList.delete k m @ [(k, t)]"
proof -
  have "map_of (AList.delete k m) k = None" by (simp add: delete_conv')
  then show ?thesis unfolding put_newest_def by (rule update_new)
qed

lemma put_newest_get: "map_of (put_newest k t m) = (map_of m)(k \<mapsto> t)"
  by (simp add: put_newest_def update_conv' delete_conv')

lemma put_newest_keys: "set (map fst (put_newest k t m)) = insert k (set (map fst m))"
  by (auto simp: put_newest_eq AList.delete_eq)

lemma seen_ok_put:
  assumes "seen_ok m" and "normalize_seen_url k = Some k"
  shows "seen_ok (put_newest k t m)"
proof -
  have "distinct (map fst (put_newest k t m))"
    using assms(1) unfolding put_newest_def seen_ok_def by (simp add: distinct_update distinct_delete)
  moreover have "fst ` set (put_newest k t m) = insert k (fst ` set m)"
    using put_newest_keys [of k t m] by (simp only: set_map)
  ultimately show ?thesis using assms by (simp add: seen_ok_def)
qed

lemma length_delete_in:
  "distinct (map fst m) \<Longrightarrow> map_of m k \<noteq> None \<Longrightarrow> Suc (length (AList.delete k m)) = length m"
proof (induction m)
  case (Cons x m)
  show ?case
  proof (cases "fst x = k")
    case True
    then have "AList.delete k (x # m) = m"
      using Cons.prems by (cases x) (simp add: AList.delete_id)
    then show ?thesis by simp
  next
    case False
    then show ?thesis using Cons by (cases x) auto
  qed
qed simp

lemma length_put_newest:
  "distinct (map fst m) \<Longrightarrow> length (put_newest k t m) = (if map_of m k = None then Suc (length m) else length m)"
  using length_delete_in [of m k]
  by (auto simp: put_newest_eq AList.delete_id map_of_eq_None_iff)

lemma keep_newest_drop: "0 \<le> n \<Longrightarrow> keep_newest n xs = drop (length xs - nat n) xs"
proof (induction xs)
  case (Cons x xs)
  show ?case
  proof (cases "n < int (length (x # xs))")
    case True
    then have "length (x # xs) - nat n = Suc (length xs - nat n)" using Cons.prems by (simp add: nat_less_iff)
    then show ?thesis using True Cons by simp
  qed auto
qed simp

lemma keep_newest_all: "int (length xs) \<le> n \<Longrightarrow> keep_newest n xs = xs"
  by (cases xs) auto

lemma evict_inv:
  assumes "sur_inv r"
  shows "sur_inv (evict_oldest_if_needed r)" and "int (length (seen (evict_oldest_if_needed r))) < max_seen r"
proof -
  have "0 < max_seen r" and "int (length (seen r)) \<le> max_seen r" and "seen_ok (tl (seen r))"
    using assms seen_ok_tl [of "seen r"] by (simp_all add: sur_inv_def)
  then show "sur_inv (evict_oldest_if_needed r)" and "int (length (seen (evict_oldest_if_needed r))) < max_seen r"
    using assms by (auto simp: sur_inv_def evict_oldest_if_needed_def)
qed

lemma evict_other [simp]: "max_seen (evict_oldest_if_needed r) = max_seen r" "ttl_seconds (evict_oldest_if_needed r) = ttl_seconds r"
  by (auto simp: evict_oldest_if_needed_def)

lemma put_inv:
  assumes "sur_inv r" and "normalize_seen_url k = Some k"
    and "map_of (seen r) k \<noteq> None \<or> int (length (seen r)) < max_seen r"
  shows "sur_inv (put k t r)"
  using assms length_put_newest [of "seen r" k t]
  by (auto simp: sur_inv_def put_def seen_ok_put)

lemma remember_inv: "sur_inv r \<Longrightarrow> sur_inv (snd (remember now u r))"
proof -
  assume r: "sur_inv r"
  define p where "p = purge_expired now r"
  have p: "sur_inv p" using purge_inv [OF r] by (simp add: p_def)
  show ?thesis
  proof (cases "normalize_seen_url u")
    case (Some k)
    then have "normalize_seen_url k = Some k" by (rule normalize_seen_fixed)
    then show ?thesis using Some put_inv [OF p, of k now] put_inv [OF evict_inv(1) [OF p], of k now] evict_inv(2) [OF p]
      by (auto simp: remember_def p_def [symmetric])
  qed (use p in \<open>simp add: remember_def p_def\<close>)
qed

lemma remember_all_inv: "sur_inv r \<Longrightarrow> sur_inv (remember_all now us r)"
proof (induction now us r rule: remember_all.induct)
  case (2 now u us r)
  show ?case
  proof (cases "normalize_seen_url u")
    case (Some k)
    then have "normalize_seen_url k = Some k" by (rule normalize_seen_fixed)
    then have "sur_inv (put k now (if map_of (seen r) k = None then evict_oldest_if_needed r else r))"
      using put_inv [OF 2(3), of k now] put_inv [OF evict_inv(1) [OF 2(3)], of k now] evict_inv(2) [OF 2(3)] by auto
    then show ?thesis using 2(2) [OF Some] Some by simp
  qed (use 2 in simp)
qed simp

lemma forget_inv: "sur_inv r \<Longrightarrow> sur_inv (snd (forget now u r))"
proof -
  assume r: "sur_inv r"
  define p where "p = purge_expired now r"
  have p: "sur_inv p" using purge_inv [OF r] by (simp add: p_def)
  have "int (length (AList.delete k (seen p))) \<le> max_seen p" for k
    using p length_delete_le [of k "seen p"] unfolding sur_inv_def by linarith
  then show ?thesis using p
    by (auto simp: forget_def p_def [symmetric] sur_inv_def seen_ok_delete Let_def split: option.splits)
qed

lemma load_entries_ok: "seen_ok m \<Longrightarrow> seen_ok (load_entries es m)"
  by (induction es m rule: load_entries.induct)
    (auto simp: seen_ok_put normalize_seen_fixed split: option.splits)

lemma load_urls_eq: "load_urls now us m = load_entries (map (\<lambda>u. (u, PyFloat (Fin now))) us) m"
  by (induction us arbitrary: m) (auto simp: seen_timestamp_def split: option.splits)

lemma keep_newest_inv:
  "0 < max_seen r \<Longrightarrow> seen_ok m \<Longrightarrow> sur_inv (r\<lparr>seen := keep_newest (max_seen r) m\<rparr>)"
  by (auto simp: sur_inv_def keep_newest_drop seen_ok_drop)

lemma replace_entries_inv: "0 < max_seen r \<Longrightarrow> sur_inv (snd (replace_entries now es r))"
  using keep_newest_inv [of r "load_entries es []"] load_entries_ok [of "[]"]
  by (simp add: replace_entries_def Let_def purge_inv)

lemma replace_urls_inv: "0 < max_seen r \<Longrightarrow> sur_inv (snd (replace_urls now us r))"
  using keep_newest_inv [of r "load_urls now us []"] load_entries_ok [of "[]"]
  by (simp add: replace_urls_def Let_def load_urls_eq)

section \<open>What the operations do\<close>

text \<open>The identities the registry holds at a time: those the time to live has not expired.\<close>

definition live :: "real \<Rightarrow> seen_url_registry \<Rightarrow> (string \<times> real) list" where
  "live now r = (case ttl_seconds r of None \<Rightarrow> seen r | Some ttl \<Rightarrow> filter (\<lambda>(u, t). now - ttl < t) (seen r))"

lemma purge_live: "sur_inv r \<Longrightarrow> seen (purge_expired now r) = live now r"
  unfolding live_def by (rule purge_seen) (simp add: sur_inv_def seen_ok_distinct)

lemma live_ok: "sur_inv r \<Longrightarrow> seen_ok (live now r)"
  using purge_inv [of r now] purge_live [of r now] by (simp add: sur_inv_def)

lemma live_purged: "sur_inv r \<Longrightarrow> live now (purge_expired now r) = live now r"
  using purge_live [of r now] by (auto simp: live_def [of now "purge_expired now r"] live_def [of now r] split: option.splits)

lemma is_seen_live:
  "sur_inv r \<Longrightarrow> fst (is_seen now u r) = (case normalize_seen_url u of None \<Rightarrow> False | Some k \<Rightarrow> map_of (live now r) k \<noteq> None)"
  by (simp add: is_seen_def Let_def purge_live split: option.splits)

lemma remember_seen:
  assumes "sur_inv r" and "normalize_seen_url u = Some k"
  shows "fst (remember now u r) = (map_of (live now r) k = None)"
    and "seen (snd (remember now u r)) =
      put_newest k now (if map_of (live now r) k = None \<and> max_seen r \<le> int (length (live now r))
                        then tl (live now r) else live now r)"
    and "max_seen (snd (remember now u r)) = max_seen r" and "ttl_seconds (snd (remember now u r)) = ttl_seconds r"
  using assms by (auto simp: remember_def Let_def put_def evict_oldest_if_needed_def purge_live)

lemma forget_seen:
  assumes "sur_inv r" and "normalize_seen_url u = Some k"
  shows "fst (forget now u r) = (map_of (live now r) k \<noteq> None)"
    and "seen (snd (forget now u r)) = AList.delete k (live now r)"
    and "ttl_seconds (snd (forget now u r)) = ttl_seconds r"
  using assms by (auto simp: forget_def Let_def purge_live)

lemma map_of_filter_value:
  "distinct (map fst m) \<Longrightarrow> map_of (filter (\<lambda>(k, v). P v) m) k = (case map_of m k of None \<Rightarrow> None | Some v \<Rightarrow> if P v then Some v else None)"
proof (induction m)
  case (Cons x m)
  have "fst x = k \<Longrightarrow> map_of m k = None" using Cons.prems by (auto simp: map_of_eq_None_iff)
  then show ?case using Cons by (cases x) (auto split: option.splits)
qed simp

lemma live_get:
  "sur_inv r \<Longrightarrow> map_of (live now r) k = (case map_of (seen r) k of None \<Rightarrow> None
     | Some t \<Rightarrow> if (case ttl_seconds r of None \<Rightarrow> True | Some ttl \<Rightarrow> now - ttl < t) then Some t else None)"
proof -
  assume "sur_inv r"
  then have "distinct (map fst (seen r))" by (simp add: sur_inv_def seen_ok_distinct)
  then show ?thesis by (auto simp: live_def map_of_filter_value split: option.splits)
qed

lemma tl_get: "seen_ok m \<Longrightarrow> m \<noteq> [] \<Longrightarrow> map_of (tl m) k = (if k = fst (hd m) then None else map_of m k)"
  by (cases m) (auto simp: seen_ok_def map_of_eq_None_iff)

section \<open>Loading\<close>

text \<open>The entries of a snapshot that are usable, with normalised identities.\<close>

definition usable_entries :: "(string \<times> pyval) list \<Rightarrow> (string \<times> real) list" where
  "usable_entries es = concat (map (\<lambda>(u, ts). case normalize_seen_url u of None \<Rightarrow> []
     | Some k \<Rightarrow> (case seen_timestamp ts of None \<Rightarrow> [] | Some t \<Rightarrow> [(k, t)])) es)"

lemma load_entries_usable: "load_entries es m = fold (\<lambda>(k, t). put_newest k t) (usable_entries es) m"
  by (induction es m rule: load_entries.induct) (auto simp: usable_entries_def split: option.splits)

lemma fold_put_get: "map_of (fold (\<lambda>(k, t). put_newest k t) ps m) = map_of m ++ map_of (rev ps)"
proof (induction ps arbitrary: m)
  case (Cons p ps)
  then show ?case by (cases p) (simp add: put_newest_get map_of_append map_add_assoc [symmetric] map_add_upd_left map_add_def fun_eq_iff split: option.split)
qed simp

lemma fold_put_fresh:
  "distinct (map fst (m @ ps)) \<Longrightarrow> fold (\<lambda>(k, t). put_newest k t) ps m = m @ ps"
proof (induction ps arbitrary: m)
  case (Cons p ps)
  obtain k t where p: "p = (k, t)" by (cases p)
  have "put_newest k t m = m @ [(k, t)]"
    using Cons.prems p by (simp add: put_newest_eq AList.delete_id)
  then show ?case using Cons.IH [of "m @ [(k, t)]"] Cons.prems p by simp
qed simp

lemma usable_exported:
  "seen_ok m \<Longrightarrow> usable_entries (map (\<lambda>(u, t). (u, PyFloat (Fin t))) m) = m"
  by (induction m) (auto simp: usable_entries_def seen_ok_def seen_timestamp_def)

lemma replace_exported:
  assumes "sur_inv r" and "max_seen r' = max_seen r" and "ttl_seconds r' = ttl_seconds r"
  shows "replace_entries now (map (\<lambda>(u, t). (u, PyFloat (Fin t))) (fst (export_entries now r))) r' =
    (int (length (live now r)), r'\<lparr>seen := live now r\<rparr>)"
proof -
  have m: "seen_ok (live now r)" "int (length (live now r)) \<le> max_seen r"
    using purge_inv [OF assms(1), of now] by (auto simp: sur_inv_def purge_live [OF assms(1)])
  have "load_entries (map (\<lambda>(u, t). (u, PyFloat (Fin t))) (live now r)) [] = live now r"
    unfolding load_entries_usable usable_exported [OF m(1)] using m(1)
    by (subst fold_put_fresh) (auto dest: seen_ok_distinct)
  moreover have "purge_expired now (r'\<lparr>seen := live now r\<rparr>) = r'\<lparr>seen := live now r\<rparr>"
  proof -
    have "seen (purge_expired now (r'\<lparr>seen := live now r\<rparr>)) = live now r"
      using m(1) live_purged [OF assms(1), of now] assms(3)
      by (subst purge_seen) (auto simp: live_def split: option.splits dest: seen_ok_distinct)
    then show ?thesis by (auto simp: purge_expired_def Let_def split: option.splits)
  qed
  ultimately show ?thesis
    using m(2) assms by (simp add: export_entries_def Let_def purge_live replace_entries_def keep_newest_all)
qed

section \<open>Properties\<close>

inductive sur_reachable :: "seen_url_registry \<Rightarrow> bool" where
  sur_init: "init_registry n ttl = Inr r \<Longrightarrow> sur_reachable r"
| sur_size: "sur_reachable r \<Longrightarrow> sur_reachable (snd (registry_size now r))"
| sur_is_seen: "sur_reachable r \<Longrightarrow> sur_reachable (snd (is_seen now u r))"
| sur_remember: "sur_reachable r \<Longrightarrow> sur_reachable (snd (remember now u r))"
| sur_remember_all: "sur_reachable r \<Longrightarrow> sur_reachable (remember_equivalent_urls now us r)"
| sur_forget: "sur_reachable r \<Longrightarrow> sur_reachable (snd (forget now u r))"
| sur_export: "sur_reachable r \<Longrightarrow> sur_reachable (snd (export_entries now r))"
| sur_export_urls: "sur_reachable r \<Longrightarrow> sur_reachable (snd (export_urls now r))"
| sur_replace: "sur_reachable r \<Longrightarrow> sur_reachable (snd (replace_entries now es r))"
| sur_replace_urls: "sur_reachable r \<Longrightarrow> sur_reachable (snd (replace_urls now us r))"

lemma init_registry_inv: "init_registry n ttl = Inr r \<Longrightarrow> sur_inv r"
  by (auto simp: init_registry_def sur_inv_def split: if_splits)

lemma sur_reachable_inv: "sur_reachable r \<Longrightarrow> sur_inv r"
proof (induction rule: sur_reachable.induct)
  case (sur_replace r now es)
  then show ?case using replace_entries_inv by (simp add: sur_inv_def)
next
  case (sur_replace_urls r now us)
  then show ?case using replace_urls_inv by (simp add: sur_inv_def)
qed (auto simp: init_registry_inv remember_inv remember_equivalent_urls_def remember_all_inv purge_inv forget_inv
    registry_size_def is_seen_def export_entries_def export_urls_def Let_def)

definition sample_registry :: seen_url_registry where
  "sample_registry = snd (remember 2 ''c'' (snd (remember 1 '' b'' (snd (remember 0 ''a''
     \<lparr>max_seen = 3, ttl_seconds = Some 10, seen = []\<rparr>)))))"

lemma sample_registry_reachable: "sur_reachable sample_registry"
  unfolding sample_registry_def
  by (intro sur_remember sur_init [of 3 "Some 10"]) (simp add: init_registry_def)

lemma sample_registry_seen: "seen sample_registry = [(''a'', 0), (''b'', 1), (''c'', 2)]"
  "max_seen sample_registry = 3" "ttl_seconds sample_registry = Some 10"
proof -
  have b: "py_strip '' b'' = ''b''" "py_strip ''a'' = ''a''" "py_strip ''c'' = ''c''" by code_simp+
  show "seen sample_registry = [(''a'', 0), (''b'', 1), (''c'', 2)]"
    "max_seen sample_registry = 3" "ttl_seconds sample_registry = Some 10"
    by (simp_all add: sample_registry_def remember_def purge_expired_def normalize_seen_url_def b put_def
        put_newest_def evict_oldest_if_needed_def)
qed

text \<open>In every reachable state the registry holds at most \<open>max_seen\<close> identities, no
  identity twice, and every stored identity is stripped and not blank.\<close>

theorem registry_is_bounded:
  assumes "sur_reachable r"
  shows "int (length (snapshot_urls r)) \<le> max_seen r \<and> distinct (snapshot_urls r) \<and>
    (\<forall>u\<in>set (snapshot_urls r). u \<noteq> [] \<and> py_strip u = u)"
  using sur_reachable_inv [OF assms]
  by (auto simp: sur_inv_def seen_ok_def snapshot_urls_def normalize_seen_url_def Let_def split: if_splits)

theorem registry_is_bounded_witness:
  "length (snapshot_urls sample_registry) = 3 \<and> int (length (snapshot_urls sample_registry)) \<le> max_seen sample_registry"
  using registry_is_bounded [OF sample_registry_reachable]
  by (simp add: snapshot_urls_def sample_registry_seen)

text \<open>A remembered identity is seen until its time to live is over, and not after it.
  \<open>remember\<close> reports whether the identity was new, and costs at most one other identity: the
  oldest one, and only when a new identity meets a full registry.\<close>

theorem remember_is_seen:
  assumes "sur_reachable r" and "normalize_seen_url u = Some k" and "now \<le> later"
    and "remember now u r = (fresh, r')"
  shows "fst (is_seen later u r') = (case ttl_seconds r of None \<Rightarrow> True | Some ttl \<Rightarrow> later - ttl < now) \<and>
    fresh = (\<not> fst (is_seen now u r)) \<and>
    (\<forall>k'. k' \<noteq> k \<longrightarrow> map_of (seen r') k' =
      (if fresh \<and> max_seen r \<le> int (length (live now r)) \<and> k' = fst (hd (live now r)) then None
       else map_of (live now r) k'))"
proof -
  have inv: "sur_inv r" using assms(1) by (rule sur_reachable_inv)
  have inv': "sur_inv r'" using remember_inv [OF inv, of now u] assms(4) by simp
  note facts = remember_seen [OF inv assms(2), of now, unfolded assms(4) fst_conv snd_conv]
  have pos: "0 < max_seen r" using inv by (simp add: sur_inv_def)
  have "map_of (seen r') k = Some now" using facts by (simp add: put_newest_get)
  then have "fst (is_seen later u r') = (case ttl_seconds r of None \<Rightarrow> True | Some ttl \<Rightarrow> later - ttl < now)"
    using facts(4) by (simp add: is_seen_live [OF inv'] assms(2) live_get [OF inv'] split: option.splits)
  moreover have "map_of (seen r') k' =
      (if fresh \<and> max_seen r \<le> int (length (live now r)) \<and> k' = fst (hd (live now r)) then None
       else map_of (live now r) k')" if "k' \<noteq> k" for k'
  proof -
    have "live now r \<noteq> []" if "max_seen r \<le> int (length (live now r))" using that pos by auto
    then show ?thesis using facts(1,2) \<open>k' \<noteq> k\<close> tl_get [OF live_ok [OF inv], of now k']
      by (auto simp: put_newest_get)
  qed
  moreover have "fresh = (\<not> fst (is_seen now u r))"
    using facts(1) by (simp add: is_seen_live [OF inv] assms(2))
  ultimately show ?thesis by blast
qed

theorem remember_is_seen_witness:
  "\<exists>r'. remember 3 ''d'' sample_registry = (True, r') \<and> fst (is_seen 12 ''d'' r') \<and> \<not> fst (is_seen 13 ''d'' r') \<and>
     map_of (seen r') ''a'' = None \<and> map_of (seen r') ''b'' = Some 1"
proof -
  obtain fresh r' where run: "remember 3 ''d'' sample_registry = (fresh, r')" by (cases "remember 3 ''d'' sample_registry")
  have d: "normalize_seen_url ''d'' = Some ''d''" by code_simp
  have live: "live 3 sample_registry = [(''a'', 0), (''b'', 1), (''c'', 2)]"
    by (simp add: live_def sample_registry_seen)
  have "\<not> fst (is_seen 3 ''d'' sample_registry)"
    by (simp add: is_seen_live [OF sur_reachable_inv [OF sample_registry_reachable]] d live)
  then show ?thesis
    using remember_is_seen [OF sample_registry_reachable d _ run, of 12]
      remember_is_seen [OF sample_registry_reachable d _ run, of 13] run
    by (simp add: live sample_registry_seen)
qed

text \<open>\<open>forget\<close> reports whether the identity was seen, the identity is not seen afterwards,
  and every other identity is seen exactly when it was before.\<close>

theorem forget_is_not_seen:
  assumes "sur_reachable r" and "normalize_seen_url u = Some k" and "normalize_seen_url v = Some k'" and "k' \<noteq> k"
    and "forget now u r = (found, r')"
  shows "found = fst (is_seen now u r) \<and> \<not> fst (is_seen now u r') \<and>
    fst (is_seen now v r') = fst (is_seen now v r)"
proof -
  have inv: "sur_inv r" using assms(1) by (rule sur_reachable_inv)
  have inv': "sur_inv r'" using forget_inv [OF inv, of now u] assms(5) by simp
  note facts = forget_seen [OF inv assms(2), of now, unfolded assms(5) fst_conv snd_conv]
  show ?thesis
    using facts assms(4)
    by (simp add: is_seen_live [OF inv] is_seen_live [OF inv'] assms(2,3) live_get [OF inv'] live_get [OF inv]
        delete_conv' split: option.splits)
qed

theorem forget_is_not_seen_witness:
  "\<exists>r'. forget 4 ''b'' sample_registry = (True, r') \<and> \<not> fst (is_seen 4 ''b'' r') \<and> fst (is_seen 4 ''a'' r')"
proof -
  obtain found r' where run: "forget 4 ''b'' sample_registry = (found, r')" by (cases "forget 4 ''b'' sample_registry")
  have n: "normalize_seen_url ''b'' = Some ''b''" "normalize_seen_url ''a'' = Some ''a''" by code_simp+
  have "fst (is_seen 4 ''b'' sample_registry)" "fst (is_seen 4 ''a'' sample_registry)"
    by (simp_all add: is_seen_live [OF sur_reachable_inv [OF sample_registry_reachable]] n live_def sample_registry_seen)
  then show ?thesis
    using forget_is_not_seen [OF sample_registry_reachable n _ run] run by simp
qed

text \<open>A snapshot that is loaded at the same time, into any registry with the same limits,
  restores the live identities with their times and order, and reports their number.\<close>

theorem export_replace_roundtrip:
  assumes "sur_reachable r" and "max_seen r' = max_seen r" and "ttl_seconds r' = ttl_seconds r"
  shows "replace_entries now (map (\<lambda>(u, t). (u, PyFloat (Fin t))) (fst (export_entries now r))) r' =
    (int (length (live now r)), r'\<lparr>seen := live now r\<rparr>)"
  using replace_exported [OF sur_reachable_inv [OF assms(1)] assms(2,3)] .

theorem export_replace_roundtrip_witness:
  "fst (replace_entries 11 (map (\<lambda>(u, t). (u, PyFloat (Fin t))) (fst (export_entries 11 sample_registry))) sample_registry) = 1"
  using export_replace_roundtrip [OF sample_registry_reachable refl refl, of 11]
  by (simp add: live_def sample_registry_seen)

text \<open>Loading untrusted entries keeps, for each identity, the time of its last usable
  occurrence: entries with a blank identity or a time that is not finite do not count.\<close>

theorem load_keeps_last_occurrence:
  "map_of (load_entries entries []) = map_of (rev (usable_entries entries))"
  by (simp add: load_entries_usable fold_put_get)

end
