(* ===== verification/Retry_Budget.thy ===== *)
theory Retry_Budget imports
  Scheduling_Settings
begin

text \<open>
  The retry budget, \<open>crawler/scheduling/completion/scheduler_retry_budget.py\<close>: counters per
  task, the decision before a deferred or timed-out task is requeued, and their
  checkpoint form. The callback \<open>is_drained\<close> is the value it returns.
\<close>

section \<open>The state\<close>

record task_retry_decision =
  decision_terminal :: bool
  decision_reason :: "string option"

record task_retry_state =
  http_request_attempts :: int
  task_processing_attempts :: int
  retry_cycles :: int
  retryable_deferrals :: int
  timeouts :: int
  transport_timeout_count :: int
  body_timeout_count :: int
  processing_timeout_count :: int
  fatal_parse_count :: int
  last_outcome :: "string option"
  last_reason :: "string option"
  last_retry_class :: "string option"
  last_error_type :: "string option"
  last_error :: "string option"

definition new_retry_state :: task_retry_state where
  "new_retry_state = \<lparr>http_request_attempts = 0, task_processing_attempts = 0, retry_cycles = 0,
     retryable_deferrals = 0, timeouts = 0, transport_timeout_count = 0, body_timeout_count = 0,
     processing_timeout_count = 0, fatal_parse_count = 0, last_outcome = None, last_reason = None,
     last_retry_class = None, last_error_type = None, last_error = None\<rparr>"

type_synonym retry_budget = "(string \<times> task_retry_state) list"

section \<open>Checkpoint payloads\<close>

definition retry_to_payload :: "task_retry_state \<Rightarrow> py_dict" where
  "retry_to_payload s = [
     (''http_request_attempts'', PyInt (http_request_attempts s)),
     (''task_processing_attempts'', PyInt (task_processing_attempts s)),
     (''retry_cycles'', PyInt (retry_cycles s)),
     (''retryable_deferrals'', PyInt (retryable_deferrals s)),
     (''timeouts'', PyInt (timeouts s)),
     (''transport_timeout_count'', PyInt (transport_timeout_count s)),
     (''body_timeout_count'', PyInt (body_timeout_count s)),
     (''processing_timeout_count'', PyInt (processing_timeout_count s)),
     (''fatal_parse_count'', PyInt (fatal_parse_count s)),
     (''last_outcome'', opt_text (last_outcome s)),
     (''last_reason'', opt_text (last_reason s)),
     (''last_retry_class'', opt_text (last_retry_class s)),
     (''last_error_type'', opt_text (last_error_type s)),
     (''last_error'', opt_text (last_error s))]"

definition retry_field_names :: "string list" where
  "retry_field_names = map fst (retry_to_payload new_retry_state)"

definition int_from_payload :: "pyval \<Rightarrow> string \<Rightarrow> int result" where
  "int_from_payload v field_name = (case v of
     PyNone \<Rightarrow> Inr 0
   | PyInt i \<Rightarrow> (if i < 0 then Inl (ValueError (''retry budget checkpoint payload contains negative '' @ field_name))
       else Inr i)
   | _ \<Rightarrow> Inl (ValueError (''retry budget checkpoint payload contains non-integer '' @ field_name)))"

definition optional_str :: "pyval \<Rightarrow> string option result" where
  "optional_str v = (case v of PyNone \<Rightarrow> Inr None | PyStr s \<Rightarrow> Inr (Some s)
     | _ \<Rightarrow> Inl (ValueError ''retry budget checkpoint payload contains non-string metadata''))"

definition retry_from_payload :: "py_dict \<Rightarrow> task_retry_state result" where
  "retry_from_payload p =
    (if \<exists>k\<in>set (map fst p). k \<notin> set retry_field_names
     then Inl (ValueError ''retry budget checkpoint payload contains unknown fields'')
     else
       and_then (int_from_payload (py_get p ''http_request_attempts'') ''http_request_attempts'') (\<lambda>a.
       and_then (int_from_payload (py_get p ''task_processing_attempts'') ''task_processing_attempts'') (\<lambda>b.
       and_then (int_from_payload (py_get p ''retry_cycles'') ''retry_cycles'') (\<lambda>c.
       and_then (int_from_payload (py_get p ''retryable_deferrals'') ''retryable_deferrals'') (\<lambda>d.
       and_then (int_from_payload (py_get p ''timeouts'') ''timeouts'') (\<lambda>e.
       and_then (int_from_payload (py_get p ''transport_timeout_count'') ''transport_timeout_count'') (\<lambda>f.
       and_then (int_from_payload (py_get p ''body_timeout_count'') ''body_timeout_count'') (\<lambda>g.
       and_then (int_from_payload (py_get p ''processing_timeout_count'') ''processing_timeout_count'') (\<lambda>h.
       and_then (int_from_payload (py_get p ''fatal_parse_count'') ''fatal_parse_count'') (\<lambda>i.
       and_then (optional_str (py_get p ''last_outcome'')) (\<lambda>j.
       and_then (optional_str (py_get p ''last_reason'')) (\<lambda>k.
       and_then (optional_str (py_get p ''last_retry_class'')) (\<lambda>l.
       and_then (optional_str (py_get p ''last_error_type'')) (\<lambda>m.
       and_then (optional_str (py_get p ''last_error'')) (\<lambda>n.
       Inr \<lparr>http_request_attempts = a, task_processing_attempts = b, retry_cycles = c,
         retryable_deferrals = d, timeouts = e, transport_timeout_count = f, body_timeout_count = g,
         processing_timeout_count = h, fatal_parse_count = i, last_outcome = j, last_reason = k,
         last_retry_class = l, last_error_type = m, last_error = n\<rparr>)))))))))))))))"

section \<open>Classification of outcomes\<close>

definition is_body_timeout_retry :: "string option \<Rightarrow> string option \<Rightarrow> string option \<Rightarrow> bool" where
  "is_body_timeout_retry retry_class retry_error_kind error_type \<longleftrightarrow>
     (\<exists>v\<in>{retry_class, retry_error_kind, error_type}. v \<in> {Some ''body_timeout'', Some ''responsebodytimeout'',
        Some ''first_byte_timeout'', Some ''read_chunk_timeout'', Some ''max_idle_seconds'', Some ''max_stream_seconds''})"

definition is_transport_timeout_retry :: "string option \<Rightarrow> string option \<Rightarrow> string option \<Rightarrow> bool" where
  "is_transport_timeout_retry retry_class retry_error_kind error_type \<longleftrightarrow>
     (\<exists>v\<in>{retry_class, retry_error_kind, error_type}. v \<in> {Some ''transport_timeout'', Some ''fetch_timeout'',
        Some ''timeouterror'', Some ''async_timeout''})"

definition retry_budget_reasons :: "string option set" where
  "retry_budget_reasons = {Some ''retryable_fetch_error'', Some ''transient_lock_race'', Some ''processor_timeout'',
     Some ''fetch_timeout'', Some ''body_timeout'', Some ''transport_timeout'', Some ''handler_timeout''}"

definition is_fetch_implied_retry :: "string option \<Rightarrow> string option \<Rightarrow> bool" where
  "is_fetch_implied_retry reason retry_class \<longleftrightarrow>
     reason \<in> {Some ''retryable_fetch_error'', Some ''processor_timeout'', Some ''fetch_timeout'', Some ''body_timeout'',
       Some ''transport_timeout'', Some ''handler_timeout'', Some ''fatal_parse''} \<or>
     retry_class \<in> {Some ''fetch_retryable'', Some ''processor_timeout'', Some ''fetch_timeout'', Some ''body_timeout'',
       Some ''transport_timeout'', Some ''handler_timeout'', Some ''fatal_parse''}"

text \<open>\<open>fields.get(name) if fields else None\<close>: an absent dictionary behaves as an empty one.\<close>

definition field_text :: "py_dict \<Rightarrow> string \<Rightarrow> string option" where
  "field_text flds name = coerce_lower_str (py_get flds name)"

definition counts_toward_retry_budget :: "crawl_task \<Rightarrow> string \<Rightarrow> py_dict \<Rightarrow> bool" where
  "counts_toward_retry_budget task outcome flds =
    (if outcome = ''timeout'' then True
     else if outcome \<noteq> ''deferred'' then False
     else if coerce_bool (py_get flds ''counts_toward_task_retry_budget'') (Some False) = Some True then True
     else (let reason = field_text flds ''reason''; retry_class = field_text flds ''retry_class'' in
       if reason \<in> retry_budget_reasons then True
       else if retry_class \<in> {Some ''fetch_retryable'', Some ''body_timeout'', Some ''transport_timeout'',
           Some ''fetch_timeout'', Some ''transient_lock_race'', Some ''processor_timeout''} then True
       else if reason = Some ''host_not_ready'' then False
       else task_kind task = FEED \<and> reason = Some ''retryable_fetch_error''))"

definition terminal_eligible :: "py_dict \<Rightarrow> string \<Rightarrow> bool" where
  "terminal_eligible flds outcome =
    (if outcome = ''timeout'' then True
     else if coerce_bool (py_get flds ''terminal_eligible'') (Some False) = Some True then True
     else field_text flds ''reason'' \<in> retry_budget_reasons \<or>
       field_text flds ''retry_class'' \<in> {Some ''fetch_retryable'', Some ''body_timeout'', Some ''transport_timeout'',
         Some ''fetch_timeout'', Some ''transient_lock_race''})"

definition should_terminal_on_drain :: "scheduling_settings \<Rightarrow> bool \<Rightarrow> crawl_task \<Rightarrow> string \<Rightarrow> py_dict \<Rightarrow> bool" where
  "should_terminal_on_drain cfg is_drained task outcome flds =
    (if \<not> cfg_dead_letter_on_drain cfg then False
     else if task_kind task \<noteq> FEED then False
     else if outcome \<notin> {''deferred'', ''timeout''} then False
     else if \<not> terminal_eligible flds outcome then False
     else is_drained)"

definition task_limit :: "crawl_task \<Rightarrow> (string \<times> int) list \<Rightarrow> int \<Rightarrow> int \<Rightarrow> int" where
  "task_limit task by_kind feed_default dflt = (case map_of by_kind (kind_value (task_kind task)) of
     Some n \<Rightarrow> max 0 n
   | None \<Rightarrow> (if task_kind task = FEED then feed_default else dflt))"

definition state_key :: "crawl_task \<Rightarrow> string" where
  "state_key task = (if or_else (task_id task) [] \<noteq> [] then ''id:'' @ or_else (task_id task) []
     else ''url:'' @ kind_value (task_kind task) @ '':'' @ task_url task)"

section \<open>Operations\<close>

definition max_attempts_for :: "scheduling_settings \<Rightarrow> crawl_task \<Rightarrow> int" where
  "max_attempts_for cfg task =
     task_limit task (cfg_max_total_attempts_by_kind cfg) (cfg_feed_max_total_attempts cfg) (cfg_max_total_attempts cfg)"

definition max_deferrals_for :: "scheduling_settings \<Rightarrow> crawl_task \<Rightarrow> int" where
  "max_deferrals_for cfg task =
     task_limit task (cfg_max_deferrals_by_kind cfg) (cfg_feed_max_deferrals cfg) (cfg_max_deferrals cfg)"

definition max_timeouts_for :: "scheduling_settings \<Rightarrow> crawl_task \<Rightarrow> int" where
  "max_timeouts_for cfg task =
     task_limit task (cfg_max_timeouts_by_kind cfg) (cfg_feed_max_timeouts cfg) (cfg_max_timeouts cfg)"

text \<open>The counters after one counted outcome, in the steps of the source.\<close>

definition consume_outcome :: "string \<Rightarrow> task_retry_state \<Rightarrow> task_retry_state" where
  "consume_outcome outcome s =
    (if outcome = ''deferred'' then s\<lparr>retryable_deferrals := retryable_deferrals s + 1\<rparr>
     else if outcome = ''timeout'' then s\<lparr>timeouts := timeouts s + 1,
       processing_timeout_count := processing_timeout_count s + 1\<rparr>
     else s)"

definition consume_fetch :: "string \<Rightarrow> string option \<Rightarrow> string option \<Rightarrow> task_retry_state \<Rightarrow> task_retry_state" where
  "consume_fetch outcome reason retry_class s =
    (if outcome = ''timeout'' \<or> is_fetch_implied_retry reason retry_class
     then s\<lparr>http_request_attempts := http_request_attempts s + 1\<rparr> else s)"

definition consume_class :: "string option \<Rightarrow> string option \<Rightarrow> string option \<Rightarrow> task_retry_state \<Rightarrow> task_retry_state" where
  "consume_class retry_class retry_error_kind error_type s =
    (if is_body_timeout_retry retry_class retry_error_kind error_type
     then s\<lparr>body_timeout_count := body_timeout_count s + 1\<rparr>
     else if is_transport_timeout_retry retry_class retry_error_kind error_type
     then s\<lparr>transport_timeout_count := transport_timeout_count s + 1\<rparr>
     else if retry_class = Some ''processor_timeout''
     then s\<lparr>processing_timeout_count := processing_timeout_count s + 1\<rparr>
     else if retry_class = Some ''fatal_parse'' then s\<lparr>fatal_parse_count := fatal_parse_count s + 1\<rparr>
     else s)"

definition consume :: "string \<Rightarrow> py_dict \<Rightarrow> task_retry_state \<Rightarrow> task_retry_state" where
  "consume outcome flds s =
    consume_class (field_text flds ''retry_class'') (field_text flds ''retry_error_kind'') (field_text flds ''error_type'')
     (consume_fetch outcome (field_text flds ''reason'') (field_text flds ''retry_class'')
     (consume_outcome outcome
       (s\<lparr>task_processing_attempts := task_processing_attempts s + 1, last_outcome := Some outcome,
          last_reason := field_text flds ''reason'', last_retry_class := field_text flds ''retry_class'',
          last_error_type := field_text flds ''error_type'', last_error := field_text flds ''error''\<rparr>)))"

definition evaluate ::
  "scheduling_settings \<Rightarrow> bool \<Rightarrow> crawl_task \<Rightarrow> string \<Rightarrow> py_dict \<Rightarrow> retry_budget \<Rightarrow> task_retry_decision \<times> retry_budget" where
  "evaluate cfg is_drained task outcome flds b =
    (if \<not> counts_toward_retry_budget task outcome flds
     then (\<lparr>decision_terminal = False, decision_reason = None\<rparr>, b)
     else
       (let key = state_key task;
            s = consume outcome flds (get_default b key new_retry_state);
            b' = AList.update key s b;
            max_attempts = max_attempts_for cfg task;
            max_deferrals = max_deferrals_for cfg task;
            max_timeouts = max_timeouts_for cfg task
        in if should_terminal_on_drain cfg is_drained task outcome flds
           then (\<lparr>decision_terminal = True, decision_reason = Some ''drain_mode_retry_task_abandoned''\<rparr>, b')
           else if http_request_attempts s \<ge> max_attempts \<and> max_attempts \<ge> 0
           then (\<lparr>decision_terminal = True, decision_reason = Some ''max_total_attempts_exceeded''\<rparr>, b')
           else if retryable_deferrals s \<ge> max_deferrals \<and> max_deferrals \<ge> 0
           then (\<lparr>decision_terminal = True, decision_reason = Some ''max_deferrals_exceeded''\<rparr>, b')
           else if processing_timeout_count s \<ge> max_timeouts \<and> max_timeouts \<ge> 0
           then (\<lparr>decision_terminal = True, decision_reason = Some ''max_timeouts_exceeded''\<rparr>, b')
           else (\<lparr>decision_terminal = False, decision_reason = None\<rparr>,
                 AList.update key (s\<lparr>retry_cycles := retry_cycles s + 1\<rparr>) b')))"

definition forget_retry :: "crawl_task \<Rightarrow> retry_budget \<Rightarrow> retry_budget" where
  "forget_retry task b = AList.delete (state_key task) b"

definition export_retry_state :: "retry_budget \<Rightarrow> py_dict" where
  "export_retry_state b = map (\<lambda>(k, s). (k, PyDict (retry_to_payload s))) b"

fun parse_retry_state :: "py_dict \<Rightarrow> retry_budget result" where
  "parse_retry_state [] = Inr []"
| "parse_retry_state ((key, value) # rest) =
    (case value of
       PyDict p \<Rightarrow>
         (if py_strip key = [] then Inl (ValueError ''invalid retry budget checkpoint payload'')
          else and_then (retry_from_payload p) (\<lambda>s. and_then (parse_retry_state rest) (\<lambda>b. Inr ((key, s) # b))))
     | _ \<Rightarrow> Inl (ValueError ''invalid retry budget checkpoint payload''))"

definition apply_retry_state :: "retry_budget \<Rightarrow> retry_budget \<Rightarrow> retry_budget" where
  "apply_retry_state s b = s"

definition restore_retry_state :: "py_dict \<Rightarrow> retry_budget \<Rightarrow> retry_budget result" where
  "restore_retry_state payload b = map_sum id (\<lambda>s. apply_retry_state s b) (parse_retry_state payload)"

definition timeout_retry_wait_seconds :: "scheduling_settings \<Rightarrow> real" where
  "timeout_retry_wait_seconds cfg = cfg_timeout_retry_wait_seconds cfg"

section \<open>Lemmas\<close>

definition retry_ok :: "task_retry_state \<Rightarrow> bool" where
  "retry_ok s \<longleftrightarrow> 0 \<le> http_request_attempts s \<and> 0 \<le> task_processing_attempts s \<and> 0 \<le> retry_cycles s \<and>
     0 \<le> retryable_deferrals s \<and> 0 \<le> timeouts s \<and> 0 \<le> transport_timeout_count s \<and> 0 \<le> body_timeout_count s \<and>
     0 \<le> processing_timeout_count s \<and> 0 \<le> fatal_parse_count s"

definition budget_ok :: "retry_budget \<Rightarrow> bool" where
  "budget_ok b \<longleftrightarrow> distinct (map fst b) \<and> (\<forall>(k, s)\<in>set b. retry_ok s \<and> py_strip k \<noteq> [])"

lemma new_retry_ok: "retry_ok new_retry_state"
  by (simp add: retry_ok_def new_retry_state_def)

lemma consume_steps_ok:
  "retry_ok s \<Longrightarrow> retry_ok (consume_outcome outcome s)"
  "retry_ok s \<Longrightarrow> retry_ok (consume_fetch outcome r c s)"
  "retry_ok s \<Longrightarrow> retry_ok (consume_class c k e s)"
  by (simp_all add: retry_ok_def consume_outcome_def consume_fetch_def consume_class_def)

lemma consume_ok: "retry_ok s \<Longrightarrow> retry_ok (consume outcome flds s)"
  unfolding consume_def by (intro consume_steps_ok) (simp add: retry_ok_def)

lemma state_key_not_blank: "py_strip (state_key task) \<noteq> []"
proof -
  have "\<not> py_space (CHR ''i'')" and "\<not> py_space (CHR ''u'')" unfolding py_space_def space_code_def by simp_all
  then show ?thesis by (simp add: state_key_def py_strip_not_Nil)
qed

lemma set_update_subset: "set (AList.update k v m) \<subseteq> insert (k, v) (set m)"
  by (induction m) auto

lemma budget_ok_update:
  "budget_ok b \<Longrightarrow> retry_ok s \<Longrightarrow> py_strip k \<noteq> [] \<Longrightarrow> budget_ok (AList.update k s b)"
  using set_update_subset [of k s b] by (auto simp: budget_ok_def distinct_update)

lemma budget_ok_get: "budget_ok b \<Longrightarrow> retry_ok (get_default b k new_retry_state)"
  by (auto simp: budget_ok_def get_default_def new_retry_ok dest: map_of_SomeD split: option.splits)

lemma retry_cycle_ok: "retry_ok s \<Longrightarrow> retry_ok (s\<lparr>retry_cycles := retry_cycles s + 1\<rparr>)"
  by (simp add: retry_ok_def)

lemma evaluate_ok: "budget_ok b \<Longrightarrow> budget_ok (snd (evaluate cfg drained task outcome flds b))"
  by (simp add: evaluate_def Let_def budget_ok_update budget_ok_get consume_ok retry_cycle_ok state_key_not_blank)

lemma forget_retry_ok: "budget_ok b \<Longrightarrow> budget_ok (forget_retry task b)"
  by (auto simp: budget_ok_def forget_retry_def distinct_delete AList.delete_eq distinct_map_filter)

lemma optional_str_text [simp]: "optional_str (opt_text v) = Inr v"
  by (cases v) (simp_all add: optional_str_def opt_text_def)

lemma int_from_payload_nonneg [simp]: "0 \<le> i \<Longrightarrow> int_from_payload (PyInt i) f = Inr i"
  by (simp add: int_from_payload_def)

lemma retry_payload_roundtrip: "retry_ok s \<Longrightarrow> retry_from_payload (retry_to_payload s) = Inr s"
proof -
  assume s: "retry_ok s"
  have known: "\<not> (\<exists>k\<in>set (map fst (retry_to_payload s)). k \<notin> set retry_field_names)"
    by (simp add: retry_to_payload_def retry_field_names_def)
  show ?thesis
    using s unfolding retry_from_payload_def if_not_P [OF known]
    by (simp add: retry_to_payload_def py_get_Cons retry_ok_def)
qed

lemma parse_export: "budget_ok b \<Longrightarrow> parse_retry_state (export_retry_state b) = Inr b"
  by (induction b) (auto simp: budget_ok_def export_retry_state_def retry_payload_roundtrip)

lemma retry_from_payload_ok: "retry_from_payload p = Inr s \<Longrightarrow> retry_ok s"
proof -
  have nonneg: "int_from_payload v f = Inr i \<Longrightarrow> 0 \<le> i" for v f i
    by (auto simp: int_from_payload_def split: pyval.splits if_splits)
  assume "retry_from_payload p = Inr s"
  then show ?thesis
    unfolding retry_from_payload_def
    by (auto simp: retry_ok_def split: if_splits dest!: nonneg)
qed

lemma parse_retry_ok: "distinct (map fst p) \<Longrightarrow> parse_retry_state p = Inr b \<Longrightarrow> budget_ok b \<and> map fst b = map fst p"
proof (induction p arbitrary: b)
  case (Cons kv p)
  obtain key v where kv: "kv = (key, v)" by (cases kv)
  obtain m st b' where v: "v = PyDict m" and key: "py_strip key \<noteq> []" and st: "retry_from_payload m = Inr st"
    and rest: "parse_retry_state p = Inr b'" and b: "b = (key, st) # b'"
    using Cons.prems(2) kv by (cases v) (auto split: if_splits)
  have "budget_ok b' \<and> map fst b' = map fst p" using Cons.IH [OF _ rest] Cons.prems(1) by simp
  then show ?case
    using Cons.prems(1) kv key b retry_from_payload_ok [OF st]
    by (auto simp: budget_ok_def simp flip: set_map)
qed (simp add: budget_ok_def)

subsection \<open>Counting\<close>

lemma consume_outcome_counts:
  "task_processing_attempts (consume_outcome outcome s) = task_processing_attempts s"
  "retryable_deferrals (consume_outcome outcome s) = retryable_deferrals s + (if outcome = ''deferred'' then 1 else 0)"
  "timeouts (consume_outcome outcome s) = timeouts s + (if outcome = ''timeout'' then 1 else 0)"
  "processing_timeout_count (consume_outcome outcome s) = processing_timeout_count s + (if outcome = ''timeout'' then 1 else 0)"
  by (simp_all add: consume_outcome_def)

lemma consume_fetch_counts:
  "task_processing_attempts (consume_fetch outcome r c s) = task_processing_attempts s"
  "retryable_deferrals (consume_fetch outcome r c s) = retryable_deferrals s"
  "timeouts (consume_fetch outcome r c s) = timeouts s"
  "processing_timeout_count (consume_fetch outcome r c s) = processing_timeout_count s"
  by (simp_all add: consume_fetch_def)

lemma consume_class_counts:
  "task_processing_attempts (consume_class c k e s) = task_processing_attempts s"
  "retryable_deferrals (consume_class c k e s) = retryable_deferrals s"
  "timeouts (consume_class c k e s) = timeouts s"
  "processing_timeout_count s \<le> processing_timeout_count (consume_class c k e s)"
  by (simp_all add: consume_class_def)

lemma consume_counts:
  "task_processing_attempts (consume outcome flds s) = task_processing_attempts s + 1"
  "retryable_deferrals (consume outcome flds s) = retryable_deferrals s + (if outcome = ''deferred'' then 1 else 0)"
  "timeouts (consume outcome flds s) = timeouts s + (if outcome = ''timeout'' then 1 else 0)"
  "processing_timeout_count s + (if outcome = ''timeout'' then 1 else 0) \<le> processing_timeout_count (consume outcome flds s)"
  unfolding consume_def
  by (simp_all add: consume_class_counts(1-3) consume_fetch_counts consume_outcome_counts split del: if_split)
    (rule order_trans [OF _ consume_class_counts(4)], simp add: consume_fetch_counts consume_outcome_counts)

lemma evaluate_continue:
  assumes "evaluate cfg drained task outcome flds b = (d, b')" and "\<not> decision_terminal d"
    and "counts_toward_retry_budget task outcome flds"
  defines "s \<equiv> consume outcome flds (get_default b (state_key task) new_retry_state)"
  shows "get_default b' (state_key task) new_retry_state = s\<lparr>retry_cycles := retry_cycles s + 1\<rparr> \<and>
    (0 \<le> max_deferrals_for cfg task \<longrightarrow> retryable_deferrals s < max_deferrals_for cfg task) \<and>
    (0 \<le> max_timeouts_for cfg task \<longrightarrow> processing_timeout_count s < max_timeouts_for cfg task) \<and>
    (0 \<le> max_attempts_for cfg task \<longrightarrow> http_request_attempts s < max_attempts_for cfg task)"
  using assms(1-3) unfolding evaluate_def s_def [symmetric] Let_def by (auto split: if_splits)

lemma counted_outcome: "counts_toward_retry_budget task outcome flds \<Longrightarrow> outcome = ''deferred'' \<or> outcome = ''timeout''"
  by (auto simp: counts_toward_retry_budget_def split: if_splits)

text \<open>Successive evaluations of one task, and the decisions.\<close>

fun evaluate_all :: "scheduling_settings \<Rightarrow> crawl_task \<Rightarrow> (bool \<times> string \<times> py_dict) list \<Rightarrow> retry_budget \<Rightarrow>
    task_retry_decision list \<times> retry_budget" where
  "evaluate_all cfg task [] b = ([], b)"
| "evaluate_all cfg task ((drained, outcome, flds) # evs) b =
    (case evaluate cfg drained task outcome flds b of (d, b') \<Rightarrow>
      (case evaluate_all cfg task evs b' of (ds, b'') \<Rightarrow> (d # ds, b'')))"

lemma evaluate_all_count:
  assumes "evaluate_all cfg task evs b = (ds, b')" and "\<forall>d\<in>set ds. \<not> decision_terminal d"
    and "\<forall>(drained, outcome, flds)\<in>set evs. counts_toward_retry_budget task outcome flds"
    and "0 \<le> max_deferrals_for cfg task" and "0 \<le> max_timeouts_for cfg task"
  defines "st \<equiv> \<lambda>b. get_default b (state_key task) new_retry_state"
  assumes "timeouts (st b) \<le> processing_timeout_count (st b)"
  shows "retryable_deferrals (st b') + timeouts (st b') = retryable_deferrals (st b) + timeouts (st b) + int (length evs) \<and>
    timeouts (st b') \<le> processing_timeout_count (st b') \<and>
    (evs \<noteq> [] \<longrightarrow> retryable_deferrals (st b') < max_deferrals_for cfg task \<and>
       processing_timeout_count (st b') < max_timeouts_for cfg task)"
  using assms(1,2,3,7) unfolding st_def
proof (induction evs arbitrary: b ds)
  case (Cons ev evs)
  obtain drained outcome flds where ev: "ev = (drained, outcome, flds)" by (cases ev)
  obtain d b1 where one: "evaluate cfg drained task outcome flds b = (d, b1)"
    by (cases "evaluate cfg drained task outcome flds b")
  obtain ds1 where rest: "evaluate_all cfg task evs b1 = (ds1, b')" and ds: "ds = d # ds1"
    using Cons.prems(1) ev one by (auto split: prod.splits)
  have counted: "counts_toward_retry_budget task outcome flds" using Cons.prems(3) ev by simp
  define s where "s = consume outcome flds (get_default b (state_key task) new_retry_state)"
  have step: "get_default b1 (state_key task) new_retry_state = s\<lparr>retry_cycles := retry_cycles s + 1\<rparr>"
    "retryable_deferrals s < max_deferrals_for cfg task" "processing_timeout_count s < max_timeouts_for cfg task"
    using evaluate_continue [OF one _ counted] Cons.prems(2) ds assms(4,5) by (simp_all add: s_def)
  have sum: "retryable_deferrals s + timeouts s = retryable_deferrals (get_default b (state_key task) new_retry_state)
      + timeouts (get_default b (state_key task) new_retry_state) + 1"
    and le: "timeouts s \<le> processing_timeout_count s"
    using consume_counts [where outcome = outcome and flds = flds and s = "get_default b (state_key task) new_retry_state"]
      counted_outcome [OF counted] Cons.prems(4) by (auto simp: s_def)
  show ?case
  proof (cases "evs = []")
    case True
    then show ?thesis using rest step sum le by simp
  next
    case False
    then show ?thesis
      using Cons.IH [OF rest] Cons.prems(2,3) ds step sum le by simp
  qed
qed simp

section \<open>Properties\<close>

inductive retry_reachable :: "retry_budget \<Rightarrow> bool" where
  retry_init: "retry_reachable []"
| retry_evaluate: "retry_reachable b \<Longrightarrow> retry_reachable (snd (evaluate cfg drained task outcome flds b))"
| retry_forget: "retry_reachable b \<Longrightarrow> retry_reachable (forget_retry task b)"
| retry_restore: "retry_reachable b \<Longrightarrow> distinct (map fst p) \<Longrightarrow> restore_retry_state p b = Inr b' \<Longrightarrow> retry_reachable b'"

lemma retry_reachable_ok: "retry_reachable b \<Longrightarrow> budget_ok b"
proof (induction rule: retry_reachable.induct)
  case (retry_restore b p b')
  then have "parse_retry_state p = Inr b'"
    by (cases "parse_retry_state p") (auto simp: restore_retry_state_def apply_retry_state_def)
  then show ?case using parse_retry_ok retry_restore by blast
qed (simp_all add: evaluate_ok forget_retry_ok, simp add: budget_ok_def)

definition sample_task :: crawl_task where
  "sample_task = \<lparr>task_url = ''http://h/a'', task_source_name = ''s'', task_id = Some ''t1'', task_kind = PAGE,
     task_depth = 0, task_source_type = ''seed'', task_priority = 0, task_parent_url = None, task_context = None\<rparr>"

text \<open>A budget that the retry budget can reach is restored exactly from its own
  checkpoint payload: no counter and no metadata is lost, and none is rejected.\<close>

theorem retry_checkpoint_roundtrip:
  assumes "retry_reachable b"
  shows "restore_retry_state (export_retry_state b) b0 = Inr b"
  using parse_export [OF retry_reachable_ok [OF assms]]
  by (simp add: restore_retry_state_def apply_retry_state_def)

theorem retry_checkpoint_roundtrip_witness:
  "restore_retry_state (export_retry_state (snd (evaluate default_settings False sample_task ''timeout'' [] []))) [] =
     Inr (snd (evaluate default_settings False sample_task ''timeout'' [] []))"
  by (rule retry_checkpoint_roundtrip [OF retry_evaluate [OF retry_init]])

text \<open>C14: No task is retried forever. From a budget that does not know the task, fewer than
  \<open>max_deferrals + max_timeouts\<close> counted outcomes in a row can be answered with a retry,
  whatever their fields are: a run of \<open>n\<close> of them that is never terminal has
  \<open>n + 2 \<le> max_deferrals + max_timeouts\<close>.\<close>

theorem retries_are_bounded:
  assumes "evaluate_all cfg task evs b = (ds, b')" and "map_of b (state_key task) = None" and "evs \<noteq> []"
    and "\<forall>(drained, outcome, flds)\<in>set evs. counts_toward_retry_budget task outcome flds"
    and "\<forall>d\<in>set ds. \<not> decision_terminal d"
    and "0 \<le> max_deferrals_for cfg task" and "0 \<le> max_timeouts_for cfg task"
  shows "int (length evs) + 2 \<le> max_deferrals_for cfg task + max_timeouts_for cfg task"
proof -
  have "get_default b (state_key task) new_retry_state = new_retry_state"
    using assms(2) by (simp add: get_default_def)
  then show ?thesis
    using evaluate_all_count [OF assms(1,5,4,6,7)] assms(3) by (simp add: new_retry_state_def)
qed

theorem retries_are_bounded_witness:
  "int (length [(False, ''deferred'', [(''retry_class'', PyStr ''fetch_timeout'')]),
      (False, ''deferred'', [(''retry_class'', PyStr ''fetch_timeout'')])]) + 2
    \<le> max_deferrals_for default_settings sample_task + max_timeouts_for default_settings sample_task"
proof -
  let ?ev = "(False, ''deferred'', [(''retry_class'', PyStr ''fetch_timeout'')])"
  obtain ds b' where run: "evaluate_all default_settings sample_task [?ev, ?ev] [] = (ds, b')"
    by (cases "evaluate_all default_settings sample_task [?ev, ?ev] []")
  have ft: "field_text [(''retry_class'', PyStr ''fetch_timeout'')] k =
      (if k = ''retry_class'' then Some ''fetch_timeout'' else None)" for k
  proof -
    have "coerce_lower_str (PyStr ''fetch_timeout'') = Some ''fetch_timeout''" by code_simp
    moreover have "coerce_lower_str PyNone = None" by code_simp
    ultimately show ?thesis by (auto simp: field_text_def py_get_Cons py_get_Nil)
  qed
  have counted: "counts_toward_retry_budget sample_task ''deferred'' [(''retry_class'', PyStr ''fetch_timeout'')]"
    by (simp add: counts_toward_retry_budget_def ft Let_def)
  have "\<forall>d\<in>set ds. \<not> decision_terminal d"
    using run counted
    by (auto simp: evaluate_def Let_def consume_def consume_outcome_def consume_fetch_def consume_class_def ft new_retry_state_def get_default_def
        max_attempts_for_def max_deferrals_for_def max_timeouts_for_def task_limit_def default_settings_def
        sample_task_def should_terminal_on_drain_def is_fetch_implied_retry_def is_body_timeout_retry_def
        is_transport_timeout_retry_def)
  then show ?thesis
    using counted
    by (intro retries_are_bounded [OF run])
      (auto simp: max_deferrals_for_def max_timeouts_for_def task_limit_def default_settings_def sample_task_def)
qed

text \<open>A timed-out task whose retry class is \<open>processor_timeout\<close> is charged two processing
  timeouts for one timeout. With a limit of two timeouts it is dead-lettered at its first,
  where the same timeout without the class is retried.\<close>

theorem processor_timeout_is_charged_twice:
  "decision_reason (fst (evaluate (default_settings\<lparr>cfg_max_timeouts := 2\<rparr>) False sample_task ''timeout''
      [(''retry_class'', PyStr ''processor_timeout'')] [])) = Some ''max_timeouts_exceeded'' \<and>
   timeouts (consume ''timeout'' [(''retry_class'', PyStr ''processor_timeout'')] new_retry_state) = 1 \<and>
   processing_timeout_count (consume ''timeout'' [(''retry_class'', PyStr ''processor_timeout'')] new_retry_state) = 2 \<and>
   \<not> decision_terminal (fst (evaluate (default_settings\<lparr>cfg_max_timeouts := 2\<rparr>) False sample_task ''timeout'' [] []))"
proof -
  have "coerce_lower_str (PyStr ''processor_timeout'') = Some ''processor_timeout''" "coerce_lower_str PyNone = None"
    by code_simp+
  then have ft: "field_text [(''retry_class'', PyStr ''processor_timeout'')] k =
      (if k = ''retry_class'' then Some ''processor_timeout'' else None)" "field_text [] k = None" for k
    by (auto simp: field_text_def py_get_Cons py_get_Nil)
  show ?thesis
    by (simp add: evaluate_def Let_def counts_toward_retry_budget_def consume_def consume_outcome_def
        consume_fetch_def consume_class_def ft new_retry_state_def get_default_def
        max_attempts_for_def max_deferrals_for_def max_timeouts_for_def task_limit_def default_settings_def
        sample_task_def should_terminal_on_drain_def is_fetch_implied_retry_def is_body_timeout_retry_def
        is_transport_timeout_retry_def)
qed

end
