(* ===== verification/Active_Task_Registry.thy ===== *)
theory Active_Task_Registry imports
  Crawl_Task
  Delayed_Task_Queue
begin

text \<open>
  The in-flight tasks, \<open>crawler/scheduling/progress/active_task_registry.py\<close>: dispatching,
  active and dead-letter-pending records by task identity, and the in-flight counter per
  host that the dispatcher compares with the host limit.
\<close>

section \<open>The state\<close>

record active_task_record =
  rec_host :: host
  rec_priority :: int
  rec_sequence :: int
  rec_task :: crawl_task

type_synonym record_dict = "(string \<times> active_task_record) list"

record active_task_registry =
  active_records :: record_dict
  inflight_count_by_host :: "(host \<times> int) list"
  dispatching_records :: record_dict
  dead_letter_pending_records :: record_dict

definition empty_registry :: active_task_registry where
  "empty_registry = \<lparr>active_records = [], inflight_count_by_host = [], dispatching_records = [],
     dead_letter_pending_records = []\<rparr>"

section \<open>Operations\<close>

definition require_host :: "(host \<Rightarrow> host) \<Rightarrow> host \<Rightarrow> string result" where
  "require_host nrm h = (case nrm h of None \<Rightarrow> Inl (ValueError ''A valid host is required'') | Some k \<Rightarrow> Inr k)"

text \<open>\<open>decrement_inflight_for_host\<close> on the counter; a host that cannot be normalised raises.\<close>

definition decrement_inflight ::
  "(host \<Rightarrow> host) \<Rightarrow> host \<Rightarrow> (host \<times> int) list \<Rightarrow> (host \<times> int) list result" where
  "decrement_inflight nrm h counts = (if h = None then Inr counts
     else and_then (require_host nrm h) (\<lambda>k. Inr (cnt_dec (Some k) counts)))"

definition increment_inflight :: "host \<Rightarrow> (host \<times> int) list \<Rightarrow> (host \<times> int) list" where
  "increment_inflight h counts = (if h = None then counts else cnt_inc h counts)"

text \<open>Storing a record as active: a previous record of the same identity is released first.\<close>

definition store_active ::
  "(host \<Rightarrow> host) \<Rightarrow> string \<Rightarrow> active_task_record \<Rightarrow> active_task_registry \<Rightarrow> unit result \<times> active_task_registry" where
  "store_active nrm identity rec r =
    (case (case map_of (active_records r) identity of
             None \<Rightarrow> Inr (inflight_count_by_host r)
           | Some previous \<Rightarrow> decrement_inflight nrm (rec_host previous) (inflight_count_by_host r)) of
       Inl e \<Rightarrow> (Inl e, r)
     | Inr counts \<Rightarrow> (Inr (), r\<lparr>active_records := AList.update identity rec (active_records r),
         inflight_count_by_host := increment_inflight (rec_host rec) counts\<rparr>))"

definition add_active ::
  "(host \<Rightarrow> host) \<Rightarrow> host \<Rightarrow> int \<Rightarrow> int \<Rightarrow> crawl_task \<Rightarrow> active_task_registry \<Rightarrow> unit result \<times> active_task_registry" where
  "add_active nrm host priority sequence task r =
    store_active nrm (scheduler_task_identity_key task)
      \<lparr>rec_host = nrm host, rec_priority = priority, rec_sequence = sequence, rec_task = task\<rparr> r"

definition remove_active ::
  "(host \<Rightarrow> host) \<Rightarrow> crawl_task \<Rightarrow> active_task_registry \<Rightarrow> active_task_record option result \<times> active_task_registry" where
  "remove_active nrm task r =
    (let identity = scheduler_task_identity_key task in
     case map_of (active_records r) identity of
       None \<Rightarrow> (Inr None, r)
     | Some rec \<Rightarrow>
        (let r = r\<lparr>active_records := AList.delete identity (active_records r)\<rparr> in
         case decrement_inflight nrm (rec_host rec) (inflight_count_by_host r) of
           Inl e \<Rightarrow> (Inl e, r)
         | Inr counts \<Rightarrow> (Inr (Some rec), r\<lparr>inflight_count_by_host := counts\<rparr>)))"

definition stage_dead_letter :: "active_task_record \<Rightarrow> active_task_registry \<Rightarrow> active_task_registry" where
  "stage_dead_letter rec r = r\<lparr>dead_letter_pending_records :=
     AList.update (scheduler_task_identity_key (rec_task rec)) rec (dead_letter_pending_records r)\<rparr>"

definition remove_dead_letter_pending ::
  "crawl_task \<Rightarrow> active_task_registry \<Rightarrow> active_task_record option \<times> active_task_registry" where
  "remove_dead_letter_pending task r =
    (let identity = scheduler_task_identity_key task in
     (map_of (dead_letter_pending_records r) identity,
      r\<lparr>dead_letter_pending_records := AList.delete identity (dead_letter_pending_records r)\<rparr>))"

definition dead_letter_pending_count :: "active_task_registry \<Rightarrow> int" where
  "dead_letter_pending_count r = int (length (dead_letter_pending_records r))"

definition dead_letter_pending_values :: "active_task_registry \<Rightarrow> active_task_record list" where
  "dead_letter_pending_values r = map snd (dead_letter_pending_records r)"

definition active_count :: "active_task_registry \<Rightarrow> int" where
  "active_count r = int (length (active_records r))"

definition mark_dispatching ::
  "(host \<Rightarrow> host) \<Rightarrow> host \<Rightarrow> int \<Rightarrow> int \<Rightarrow> crawl_task \<Rightarrow> active_task_registry \<Rightarrow> active_task_registry" where
  "mark_dispatching nrm host priority sequence task r =
     r\<lparr>dispatching_records := AList.update (scheduler_task_identity_key task)
        \<lparr>rec_host = nrm host, rec_priority = priority, rec_sequence = sequence, rec_task = task\<rparr>
        (dispatching_records r)\<rparr>"

definition activate_dispatching ::
  "(host \<Rightarrow> host) \<Rightarrow> crawl_task \<Rightarrow> active_task_registry \<Rightarrow> active_task_record option result \<times> active_task_registry" where
  "activate_dispatching nrm task r =
    (let identity = scheduler_task_identity_key task in
     case map_of (dispatching_records r) identity of
       None \<Rightarrow> (Inr None, r)
     | Some rec \<Rightarrow>
        (case store_active nrm identity rec (r\<lparr>dispatching_records := AList.delete identity (dispatching_records r)\<rparr>) of
           (Inl e, r) \<Rightarrow> (Inl e, r)
         | (Inr _, r) \<Rightarrow> (Inr (Some rec), r)))"

definition remove_dispatching :: "crawl_task \<Rightarrow> active_task_registry \<Rightarrow> active_task_record option \<times> active_task_registry" where
  "remove_dispatching task r =
    (let identity = scheduler_task_identity_key task in
     (map_of (dispatching_records r) identity,
      r\<lparr>dispatching_records := AList.delete identity (dispatching_records r)\<rparr>))"

definition dispatching_count :: "active_task_registry \<Rightarrow> int" where
  "dispatching_count r = int (length (dispatching_records r))"

definition total_tracked_count :: "active_task_registry \<Rightarrow> int" where
  "total_tracked_count r = active_count r + dispatching_count r + dead_letter_pending_count r"

definition dispatching_values :: "active_task_registry \<Rightarrow> active_task_record list" where
  "dispatching_values r = map snd (dispatching_records r)"

definition clear_registry :: "active_task_registry \<Rightarrow> active_task_registry" where
  "clear_registry r = r\<lparr>active_records := [], dispatching_records := [], dead_letter_pending_records := [],
     inflight_count_by_host := []\<rparr>"

definition active_values :: "active_task_registry \<Rightarrow> active_task_record list" where
  "active_values r = map snd (active_records r)"

definition active_items :: "active_task_registry \<Rightarrow> record_dict" where
  "active_items r = active_records r"

section \<open>The invariant\<close>

text \<open>The hosts of active records that have one, with multiplicity.\<close>

definition active_hosts :: "active_task_registry \<Rightarrow> host multiset" where
  "active_hosts r = filter_mset (\<lambda>h. h \<noteq> None) (image_mset (\<lambda>x. rec_host (snd x)) (mset (active_records r)))"

definition keyed :: "(host \<Rightarrow> host) \<Rightarrow> record_dict \<Rightarrow> bool" where
  "keyed nrm m \<longleftrightarrow> distinct (map fst m) \<and>
     (\<forall>k rec. map_of m k = Some rec \<longrightarrow> k = scheduler_task_identity_key (rec_task rec) \<and> nrm (rec_host rec) = rec_host rec)"

definition atr_inv :: "(host \<Rightarrow> host) \<Rightarrow> active_task_registry \<Rightarrow> bool" where
  "atr_inv nrm r \<longleftrightarrow> keyed nrm (active_records r) \<and> keyed nrm (dispatching_records r) \<and>
     keyed nrm (dead_letter_pending_records r) \<and> cnt_ok (inflight_count_by_host r) (active_hosts r)"

lemma mset_update_some:
  "map_of m k = Some v \<Longrightarrow> add_mset (k, v) (mset (AList.update k w m)) = add_mset (k, w) (mset m)"
  by (induction m) (auto split: if_splits)

lemma mset_update_none: "map_of m k = None \<Longrightarrow> mset (AList.update k w m) = add_mset (k, w) (mset m)"
  by (simp add: update_new)

lemma mset_delete_some:
  "distinct (map fst m) \<Longrightarrow> map_of m k = Some v \<Longrightarrow> mset m = add_mset (k, v) (mset (AList.delete k m))"
proof (induction m)
  case (Cons x m)
  show ?case
  proof (cases "fst x = k")
    case True
    then have "AList.delete k (x # m) = m"
      using Cons.prems by (cases x) (simp add: AList.delete_id)
    then show ?thesis using True Cons.prems by (cases x) simp
  next
    case False
    then show ?thesis using Cons by (cases x) auto
  qed
qed simp

lemma keyed_update:
  "keyed nrm m \<Longrightarrow> nrm (rec_host rec) = rec_host rec \<Longrightarrow> keyed nrm (AList.update (scheduler_task_identity_key (rec_task rec)) rec m)"
  by (auto simp: keyed_def update_conv' distinct_update)

lemma keyed_delete: "keyed nrm m \<Longrightarrow> keyed nrm (AList.delete k m)"
  by (auto simp: keyed_def delete_conv' distinct_delete split: if_splits)

lemma keyed_Nil [simp]: "keyed nrm []"
  by (simp add: keyed_def)

lemma empty_registry_inv: "atr_inv nrm empty_registry"
  by (simp add: atr_inv_def empty_registry_def active_hosts_def)

lemma clear_registry_eq: "clear_registry r = empty_registry"
  by (simp add: clear_registry_def empty_registry_def)

lemma decrement_ok:
  assumes "cnt_ok c (filter_mset (\<lambda>h. h \<noteq> None) (add_mset h M))" and "nrm h = h"
  shows "\<exists>c'. decrement_inflight nrm h c = Inr c' \<and> cnt_ok c' (filter_mset (\<lambda>h. h \<noteq> None) M)"
proof (cases h)
  case (Some k)
  then show ?thesis using assms cnt_ok_dec [of c h "filter_mset (\<lambda>h. h \<noteq> None) M"]
    by (auto simp: decrement_inflight_def require_host_def)
qed (use assms in \<open>simp add: decrement_inflight_def\<close>)

lemma increment_ok:
  "cnt_ok c (filter_mset (\<lambda>h. h \<noteq> None) M) \<Longrightarrow> cnt_ok (increment_inflight h c) (filter_mset (\<lambda>h. h \<noteq> None) (add_mset h M))"
  by (auto simp: increment_inflight_def cnt_ok_inc)

lemma store_active_inv:
  assumes "atr_inv nrm r" and "nrm (rec_host rec) = rec_host rec"
  shows "fst (store_active nrm (scheduler_task_identity_key (rec_task rec)) rec r) = Inr () \<and>
    atr_inv nrm (snd (store_active nrm (scheduler_task_identity_key (rec_task rec)) rec r))"
proof -
  let ?k = "scheduler_task_identity_key (rec_task rec)"
  let ?H = "\<lambda>m. image_mset (\<lambda>x. rec_host (snd x)) (mset m)"
  have keyed: "keyed nrm (active_records r)" and cnt: "cnt_ok (inflight_count_by_host r) (filter_mset (\<lambda>h. h \<noteq> None) (?H (active_records r)))"
    using assms(1) by (simp_all add: atr_inv_def active_hosts_def)
  show ?thesis
  proof (cases "map_of (active_records r) ?k")
    case None
    then show ?thesis
      using assms increment_ok [OF cnt] keyed_update [OF keyed assms(2)]
      by (simp add: store_active_def atr_inv_def active_hosts_def mset_update_none)
  next
    case (Some previous)
    have "add_mset (rec_host previous) (?H (AList.update ?k rec (active_records r))) = add_mset (rec_host rec) (?H (active_records r))"
      using arg_cong [OF mset_update_some [OF Some, of rec], of "image_mset (\<lambda>x. rec_host (snd x))"] by simp
    moreover obtain M where M: "?H (active_records r) = add_mset (rec_host previous) M"
      using mset_delete_some [OF _ Some] keyed by (auto simp: keyed_def)
    ultimately have new: "?H (AList.update ?k rec (active_records r)) = add_mset (rec_host rec) M"
      by (simp add: add_mset_commute)
    have "nrm (rec_host previous) = rec_host previous" using keyed Some by (simp add: keyed_def)
    then obtain c' where
      c': "decrement_inflight nrm (rec_host previous) (inflight_count_by_host r) = Inr c'"
      and ok: "cnt_ok c' (filter_mset (\<lambda>h. h \<noteq> None) M)"
      using decrement_ok [where h = "rec_host previous" and M = M] cnt [unfolded M] by blast
    show ?thesis
      using assms Some c' increment_ok [OF ok, of "rec_host rec"] keyed_update [OF keyed assms(2)] new
      by (simp add: store_active_def atr_inv_def active_hosts_def)
  qed
qed

lemma remove_active_inv:
  assumes "atr_inv nrm r"
  shows "fst (remove_active nrm task r) = Inr (map_of (active_records r) (scheduler_task_identity_key task)) \<and>
    atr_inv nrm (snd (remove_active nrm task r))"
proof (cases "map_of (active_records r) (scheduler_task_identity_key task)")
  case (Some rec)
  let ?k = "scheduler_task_identity_key task"
  let ?H = "\<lambda>m. image_mset (\<lambda>x. rec_host (snd x)) (mset m)"
  have keyed: "keyed nrm (active_records r)" and cnt: "cnt_ok (inflight_count_by_host r) (filter_mset (\<lambda>h. h \<noteq> None) (?H (active_records r)))"
    using assms by (simp_all add: atr_inv_def active_hosts_def)
  have "?H (active_records r) = add_mset (rec_host rec) (?H (AList.delete ?k (active_records r)))"
    using keyed Some by (subst mset_delete_some [of _ ?k rec]) (auto simp: keyed_def)
  moreover have "nrm (rec_host rec) = rec_host rec" using keyed Some by (simp add: keyed_def)
  ultimately obtain c' where "decrement_inflight nrm (rec_host rec) (inflight_count_by_host r) = Inr c'"
    "cnt_ok c' (filter_mset (\<lambda>h. h \<noteq> None) (?H (AList.delete ?k (active_records r))))"
    using decrement_ok cnt by metis
  then show ?thesis
    using assms Some by (simp add: remove_active_def Let_def atr_inv_def active_hosts_def keyed_delete)
qed (simp add: remove_active_def Let_def assms)

lemma stage_dead_letter_inv: "atr_inv nrm r \<Longrightarrow> nrm (rec_host rec) = rec_host rec \<Longrightarrow> atr_inv nrm (stage_dead_letter rec r)"
  by (simp add: atr_inv_def stage_dead_letter_def active_hosts_def keyed_update)

lemma remove_dead_letter_inv: "atr_inv nrm r \<Longrightarrow> atr_inv nrm (snd (remove_dead_letter_pending task r))"
  by (simp add: atr_inv_def remove_dead_letter_pending_def active_hosts_def keyed_delete Let_def)

lemma remove_dispatching_inv: "atr_inv nrm r \<Longrightarrow> atr_inv nrm (snd (remove_dispatching task r))"
  by (simp add: atr_inv_def remove_dispatching_def active_hosts_def keyed_delete Let_def)

lemma activate_dispatching_inv:
  assumes "atr_inv nrm r"
  shows "fst (activate_dispatching nrm task r) = Inr (map_of (dispatching_records r) (scheduler_task_identity_key task)) \<and>
    atr_inv nrm (snd (activate_dispatching nrm task r))"
proof (cases "map_of (dispatching_records r) (scheduler_task_identity_key task)")
  case (Some rec)
  define r' where "r' = r\<lparr>dispatching_records := AList.delete (scheduler_task_identity_key task) (dispatching_records r)\<rparr>"
  have rec: "scheduler_task_identity_key task = scheduler_task_identity_key (rec_task rec)" "nrm (rec_host rec) = rec_host rec"
    using assms Some by (simp_all add: atr_inv_def keyed_def)
  have "atr_inv nrm r'" using assms by (simp add: r'_def atr_inv_def keyed_delete active_hosts_def)
  from store_active_inv [OF this rec(2), unfolded rec(1) [symmetric]] show ?thesis
    using Some by (cases "store_active nrm (scheduler_task_identity_key task) rec r'")
      (auto simp: activate_dispatching_def Let_def r'_def [symmetric])
qed (simp add: activate_dispatching_def Let_def assms)

context host_canonical begin

lemma add_active_inv:
  assumes "atr_inv nrm r"
  shows "fst (add_active nrm h p s t r) = Inr () \<and> atr_inv nrm (snd (add_active nrm h p s t r))"
  using store_active_inv [OF assms, of "\<lparr>rec_host = nrm h, rec_priority = p, rec_sequence = s, rec_task = t\<rparr>"]
  by (simp add: add_active_def)

lemma mark_dispatching_inv: "atr_inv nrm r \<Longrightarrow> atr_inv nrm (mark_dispatching nrm h p s t r)"
  using keyed_update [of nrm "dispatching_records r" "\<lparr>rec_host = nrm h, rec_priority = p, rec_sequence = s, rec_task = t\<rparr>"]
  by (simp add: atr_inv_def mark_dispatching_def active_hosts_def)

end

lemma inflight_count_eq:
  assumes "atr_inv nrm r"
  shows "get_default (inflight_count_by_host r) (Some h) 0 =
    int (length (filter (\<lambda>rec. rec_host rec = Some h) (active_values r)))"
proof -
  have "count (active_hosts r) (Some h) = length (filter (\<lambda>x. rec_host (snd x) = Some h) (active_records r))"
    by (simp add: active_hosts_def count_keys)
  then show ?thesis
    using cnt_ok_get [of "inflight_count_by_host r" "active_hosts r" "Some h"] assms
    by (simp add: atr_inv_def active_values_def filter_map comp_def)
qed

section \<open>Properties\<close>

inductive atr_reachable :: "(host \<Rightarrow> host) \<Rightarrow> active_task_registry \<Rightarrow> bool" for nrm where
  atr_init: "atr_reachable nrm empty_registry"
| atr_add: "atr_reachable nrm r \<Longrightarrow> atr_reachable nrm (snd (add_active nrm h p s t r))"
| atr_remove: "atr_reachable nrm r \<Longrightarrow> atr_reachable nrm (snd (remove_active nrm t r))"
| atr_mark: "atr_reachable nrm r \<Longrightarrow> atr_reachable nrm (mark_dispatching nrm h p s t r)"
| atr_activate: "atr_reachable nrm r \<Longrightarrow> atr_reachable nrm (snd (activate_dispatching nrm t r))"
| atr_unmark: "atr_reachable nrm r \<Longrightarrow> atr_reachable nrm (snd (remove_dispatching t r))"
| atr_stage: "atr_reachable nrm r \<Longrightarrow> rec \<in> set (active_values r) \<Longrightarrow> atr_reachable nrm (stage_dead_letter rec r)"
| atr_unstage: "atr_reachable nrm r \<Longrightarrow> atr_reachable nrm (snd (remove_dead_letter_pending t r))"
| atr_clear: "atr_reachable nrm r \<Longrightarrow> atr_reachable nrm (clear_registry r)"

context host_canonical begin

lemma atr_reachable_inv: "atr_reachable nrm r \<Longrightarrow> atr_inv nrm r"
proof (induction rule: atr_reachable.induct)
  case (atr_stage r rec)
  then obtain k where "(k, rec) \<in> set (active_records r)" by (auto simp: active_values_def)
  then have "map_of (active_records r) k = Some rec" using atr_stage by (simp add: atr_inv_def keyed_def)
  then show ?case using atr_stage by (intro stage_dead_letter_inv) (auto simp: atr_inv_def keyed_def)
qed (simp_all add: empty_registry_inv clear_registry_eq add_active_inv remove_active_inv mark_dispatching_inv
    activate_dispatching_inv remove_dispatching_inv remove_dead_letter_inv)

end

definition sample_page :: "string \<Rightarrow> crawl_task" where
  "sample_page u = \<lparr>task_url = u, task_source_name = ''s'', task_id = None, task_kind = PAGE,
     task_depth = 0, task_source_type = ''seed'', task_priority = 0, task_parent_url = None, task_context = None\<rparr>"

definition sample_active :: active_task_registry where
  "sample_active = snd (add_active lower_host (Some ''H'') 1 2 (sample_page ''u2'')
     (snd (add_active lower_host (Some ''h'') 1 1 (sample_page ''u1'') empty_registry)))"

lemma sample_active_reachable: "atr_reachable lower_host sample_active"
  unfolding sample_active_def by (intro atr_add atr_init)

text \<open>C13: In every reachable state the in-flight counter of a host is the number of active
  records of that host, also when the same task is added twice or a task is removed that
  is not active, and no counter is zero; no operation of the registry raises there.\<close>

theorem inflight_counts_active_records:
  assumes "host_canonical nrm" and "atr_reachable nrm r"
  shows "get_default (inflight_count_by_host r) (Some h) 0 =
      int (length (filter (\<lambda>rec. rec_host rec = Some h) (active_values r))) \<and>
    (\<forall>k n. map_of (inflight_count_by_host r) k = Some n \<longrightarrow> 0 < n) \<and>
    fst (add_active nrm host p s t r) = Inr () \<and>
    fst (remove_active nrm t r) = Inr (map_of (active_items r) (scheduler_task_identity_key t)) \<and>
    fst (activate_dispatching nrm t r) = Inr (map_of (dispatching_records r) (scheduler_task_identity_key t))"
proof -
  have inv: "atr_inv nrm r" using assms by (rule host_canonical.atr_reachable_inv)
  have "0 < n" if "map_of (inflight_count_by_host r) k = Some n" for k n
    using inv that by (auto simp: atr_inv_def cnt_ok_def split: if_splits)
  then show ?thesis
    using inflight_count_eq [OF inv] host_canonical.add_active_inv [OF assms(1) inv]
      remove_active_inv [OF inv] activate_dispatching_inv [OF inv] by (simp add: active_items_def)
qed

theorem inflight_counts_active_records_witness:
  "get_default (inflight_count_by_host sample_active) (Some ''h'') 0 =
     int (length (filter (\<lambda>rec. rec_host rec = Some ''h'') (active_values sample_active)))"
  using inflight_counts_active_records [OF lower_host_canonical sample_active_reachable] by blast

end
