(* ===== verification/Progress_State.thy ===== *)
theory Progress_State imports
  Retry_Budget
  Delayed_Task_Queue
begin

text \<open>
  Scheduler counters and decisions: \<open>crawler/scheduling/admission/schedule_decision.py\<close>,
  \<open>crawler/scheduling/progress/scheduler_progress_state.py\<close>, \<open>scheduler_runtime_state.py\<close>
  and \<open>scheduler_backlog_reader.py\<close>.
\<close>

section \<open>Decisions\<close>

datatype schedule_decision_reason =
    ACCEPTED | SCHEDULER_CLOSED | SCHEDULER_UNAVAILABLE | MAX_DEPTH_EXCEEDED | URL_FILTERED
  | CRAWL_SCOPE_BLOCKED | INVALID_URL | BLACKLISTED | DUPLICATE_URL | NOT_MODIFIED_THIS_RUN
  | FORBIDDEN_ENDPOINT_THIS_RUN | SCHEDULER_BACKPRESSURE | HOSTILITY_BACKPRESSURE
  | MAX_PENDING_PER_HOST_REACHED | CRAWL_BUDGET_EXHAUSTED

fun reason_value :: "schedule_decision_reason \<Rightarrow> string" where
  "reason_value ACCEPTED = ''accepted''"
| "reason_value SCHEDULER_CLOSED = ''scheduler_closed''"
| "reason_value SCHEDULER_UNAVAILABLE = ''scheduler_unavailable''"
| "reason_value MAX_DEPTH_EXCEEDED = ''max_depth_exceeded''"
| "reason_value URL_FILTERED = ''url_filtered''"
| "reason_value CRAWL_SCOPE_BLOCKED = ''crawl_scope_blocked''"
| "reason_value INVALID_URL = ''invalid_url''"
| "reason_value BLACKLISTED = ''blacklisted''"
| "reason_value DUPLICATE_URL = ''duplicate_url''"
| "reason_value NOT_MODIFIED_THIS_RUN = ''not_modified_this_run''"
| "reason_value FORBIDDEN_ENDPOINT_THIS_RUN = ''forbidden_endpoint_this_run''"
| "reason_value SCHEDULER_BACKPRESSURE = ''scheduler_backpressure''"
| "reason_value HOSTILITY_BACKPRESSURE = ''hostility_backpressure''"
| "reason_value MAX_PENDING_PER_HOST_REACHED = ''max_pending_per_host_reached''"
| "reason_value CRAWL_BUDGET_EXHAUSTED = ''crawl_budget_exhausted''"

record schedule_decision =
  dec_accepted :: bool
  dec_reason :: schedule_decision_reason
  dec_normalized_url :: string
  dec_task :: "crawl_task option"

definition accept_decision :: "string \<Rightarrow> crawl_task \<Rightarrow> schedule_decision" where
  "accept_decision u t = \<lparr>dec_accepted = True, dec_reason = ACCEPTED, dec_normalized_url = u, dec_task = Some t\<rparr>"

definition reject_decision :: "schedule_decision_reason \<Rightarrow> string \<Rightarrow> schedule_decision" where
  "reject_decision reason u = \<lparr>dec_accepted = False, dec_reason = reason, dec_normalized_url = u, dec_task = None\<rparr>"

section \<open>Runtime state\<close>

record scheduler_runtime_state =
  run_closed :: bool
  next_sequence_value :: int

definition allocate_sequence :: "scheduler_runtime_state \<Rightarrow> int \<times> scheduler_runtime_state" where
  "allocate_sequence r = (next_sequence_value r, r\<lparr>next_sequence_value := next_sequence_value r + 1\<rparr>)"

section \<open>Progress counters\<close>

type_synonym counter = "(string \<times> int) list"

record scheduler_progress_state =
  accepted_total :: int
  filtered_total :: int
  rejected_total :: int
  duplicate_total :: int
  rejected_by_reason :: counter
  completed_by_outcome :: counter
  deferrals_by_reason :: counter
  drain_completed_baseline :: "int option"
  drain_accepted_baseline :: "int option"
  drain_reserved :: int

record progress_restore_state =
  rst_accepted_total :: int
  rst_filtered_total :: int
  rst_rejected_total :: int
  rst_duplicate_total :: int
  rst_rejected_by_reason :: counter
  rst_completed_by_outcome :: counter
  rst_deferrals_by_reason :: counter

definition initial_progress :: scheduler_progress_state where
  "initial_progress = \<lparr>accepted_total = 0, filtered_total = 0, rejected_total = 0, duplicate_total = 0,
     rejected_by_reason = [], completed_by_outcome = [], deferrals_by_reason = [],
     drain_completed_baseline = None, drain_accepted_baseline = None, drain_reserved = 0\<rparr>"

definition record_accepted_task :: "scheduler_progress_state \<Rightarrow> scheduler_progress_state" where
  "record_accepted_task p = p\<lparr>accepted_total := accepted_total p + 1\<rparr>"

definition record_rejected_decision :: "schedule_decision \<Rightarrow> scheduler_progress_state \<Rightarrow> scheduler_progress_state" where
  "record_rejected_decision d p =
    (if dec_accepted d then p
     else (let p = p\<lparr>rejected_by_reason := cnt_inc (reason_value (dec_reason d)) (rejected_by_reason p)\<rparr> in
       if dec_reason d = URL_FILTERED then p\<lparr>filtered_total := filtered_total p + 1\<rparr>
       else (let p = p\<lparr>rejected_total := rejected_total p + 1\<rparr> in
         if dec_reason d = DUPLICATE_URL then p\<lparr>duplicate_total := duplicate_total p + 1\<rparr> else p)))"

definition normalize_key :: "string \<Rightarrow> string" where
  "normalize_key v = (let k = py_lower (py_strip v) in if k = [] then ''unknown'' else k)"

definition record_completed_outcome :: "string \<Rightarrow> scheduler_progress_state \<Rightarrow> scheduler_progress_state" where
  "record_completed_outcome outcome p =
     p\<lparr>completed_by_outcome := cnt_inc (normalize_key outcome) (completed_by_outcome p)\<rparr>"

definition record_task_deferral :: "string option \<Rightarrow> scheduler_progress_state \<Rightarrow> scheduler_progress_state" where
  "record_task_deferral reason p =
     p\<lparr>deferrals_by_reason := cnt_inc (normalize_key (or_else reason [])) (deferrals_by_reason p)\<rparr>"

definition completed_total :: "scheduler_progress_state \<Rightarrow> int" where
  "completed_total p = sum_list (map snd (completed_by_outcome p))"

subsection \<open>The drain budget\<close>

definition ensure_drain_budget_window :: "scheduler_progress_state \<Rightarrow> scheduler_progress_state" where
  "ensure_drain_budget_window p =
    (if drain_completed_baseline p \<noteq> None \<and> drain_accepted_baseline p \<noteq> None then p
     else p\<lparr>drain_completed_baseline := Some (completed_total p),
            drain_accepted_baseline := Some (accepted_total p), drain_reserved := 0\<rparr>)"

definition reset_drain_budget_window :: "scheduler_progress_state \<Rightarrow> scheduler_progress_state" where
  "reset_drain_budget_window p = p\<lparr>drain_completed_baseline := None, drain_accepted_baseline := None, drain_reserved := 0\<rparr>"

definition available_drain_budget :: "scheduler_progress_state \<Rightarrow> int \<times> scheduler_progress_state" where
  "available_drain_budget p =
    (let p = ensure_drain_budget_window p;
         completed_since_window = completed_total p - or_else (drain_completed_baseline p) 0;
         accepted_since_window = accepted_total p - or_else (drain_accepted_baseline p) 0
     in (max 0 (completed_since_window - accepted_since_window - max 0 (drain_reserved p)), p))"

definition reserve_drain_budget :: "int \<Rightarrow> scheduler_progress_state \<Rightarrow> int \<times> scheduler_progress_state" where
  "reserve_drain_budget configured_cap p =
    (let normalized_cap = max 0 configured_cap in
     if normalized_cap \<le> 0 then (0, p)
     else (case available_drain_budget p of (available, p) \<Rightarrow>
       (let allowed = min normalized_cap available
        in (allowed, p\<lparr>drain_reserved := drain_reserved p + allowed\<rparr>))))"

definition release_drain_budget_reservation :: "int \<Rightarrow> scheduler_progress_state \<Rightarrow> scheduler_progress_state" where
  "release_drain_budget_reservation reserved p = p\<lparr>drain_reserved := max 0 (drain_reserved p - max 0 reserved)\<rparr>"

subsection \<open>Checkpoints\<close>

definition counter_payload :: "counter \<Rightarrow> pyval" where
  "counter_payload c = PyDict (map (\<lambda>(k, n). (k, PyInt n)) (sort c))"

definition export_progress :: "scheduler_progress_state \<Rightarrow> py_dict" where
  "export_progress p = [
     (''accepted_total'', PyInt (accepted_total p)),
     (''filtered_total'', PyInt (filtered_total p)),
     (''rejected_total'', PyInt (rejected_total p)),
     (''duplicate_total'', PyInt (duplicate_total p)),
     (''rejected_by_reason'', counter_payload (rejected_by_reason p)),
     (''completed_by_outcome'', counter_payload (completed_by_outcome p)),
     (''deferrals_by_reason'', counter_payload (deferrals_by_reason p))]"

definition positive_int_from_mapping :: "py_dict \<Rightarrow> string \<Rightarrow> int result" where
  "positive_int_from_mapping payload key = (case map_of payload key of
     None \<Rightarrow> Inl (ValueError (''progress counters missing '' @ key))
   | Some (PyInt i) \<Rightarrow> (if i < 0 then Inl (ValueError (key @ '' must be non-negative'')) else Inr i)
   | Some _ \<Rightarrow> Inl (TypeError (key @ '' must be an integer'')))"

fun restore_counter :: "string \<Rightarrow> py_dict \<Rightarrow> counter \<Rightarrow> counter result" where
  "restore_counter key [] restored = Inr restored"
| "restore_counter key ((raw_key, raw_count) # rest) restored =
    (if py_strip raw_key = [] then Inl (ValueError (key @ '' contains an invalid counter name''))
     else (case raw_count of
       PyInt n \<Rightarrow>
         (if n < 0 then Inl (ValueError (key @ ''.'' @ raw_key @ '' must be non-negative''))
          else restore_counter key rest (if 0 < n then AList.update raw_key n restored else restored))
     | _ \<Rightarrow> Inl (TypeError (key @ ''.'' @ raw_key @ '' must be an integer''))))"

definition counter_from_mapping :: "py_dict \<Rightarrow> string \<Rightarrow> counter option \<Rightarrow> counter result" where
  "counter_from_mapping payload key dflt = (case map_of payload key of
     None \<Rightarrow> (case dflt of None \<Rightarrow> Inl (ValueError (''progress counters missing '' @ key)) | Some d \<Rightarrow> Inr d)
   | Some (PyDict m) \<Rightarrow> restore_counter key m []
   | Some _ \<Rightarrow> Inl (TypeError (key @ '' must be a dictionary'')))"

definition parse_progress :: "py_dict \<Rightarrow> progress_restore_state result" where
  "parse_progress payload =
     and_then (positive_int_from_mapping payload ''accepted_total'') (\<lambda>a.
     and_then (positive_int_from_mapping payload ''filtered_total'') (\<lambda>f.
     and_then (positive_int_from_mapping payload ''rejected_total'') (\<lambda>r.
     and_then (positive_int_from_mapping payload ''duplicate_total'') (\<lambda>d.
     and_then (counter_from_mapping payload ''rejected_by_reason'' None) (\<lambda>rr.
     and_then (counter_from_mapping payload ''completed_by_outcome'' None) (\<lambda>co.
     and_then (counter_from_mapping payload ''deferrals_by_reason'' (Some [])) (\<lambda>dr.
     Inr \<lparr>rst_accepted_total = a, rst_filtered_total = f, rst_rejected_total = r, rst_duplicate_total = d,
       rst_rejected_by_reason = sort rr, rst_completed_by_outcome = sort co, rst_deferrals_by_reason = sort dr\<rparr>)))))))"

definition apply_progress :: "progress_restore_state \<Rightarrow> scheduler_progress_state \<Rightarrow> scheduler_progress_state" where
  "apply_progress s p = reset_drain_budget_window (p\<lparr>accepted_total := rst_accepted_total s,
     filtered_total := rst_filtered_total s, rejected_total := rst_rejected_total s,
     duplicate_total := rst_duplicate_total s, rejected_by_reason := rst_rejected_by_reason s,
     completed_by_outcome := rst_completed_by_outcome s, deferrals_by_reason := rst_deferrals_by_reason s\<rparr>)"

definition restore_progress :: "py_dict \<Rightarrow> scheduler_progress_state \<Rightarrow> scheduler_progress_state result" where
  "restore_progress payload p = map_sum id (\<lambda>s. apply_progress s p) (parse_progress payload)"

definition reset_progress :: "scheduler_progress_state \<Rightarrow> scheduler_progress_state" where
  "reset_progress p = reset_drain_budget_window (p\<lparr>accepted_total := 0, filtered_total := 0, rejected_total := 0,
     duplicate_total := 0, rejected_by_reason := [], completed_by_outcome := [], deferrals_by_reason := []\<rparr>)"

section \<open>Backlog\<close>

definition pending_maps ::
  "crawl_task host_task_queue \<Rightarrow> crawl_task delayed_task_queue \<Rightarrow> (host \<times> int) list \<times> (host \<times> int) list \<times> (host \<times> int) list" where
  "pending_maps q d = (pending_count_by_host q, delayed_pending_by_host d,
     combine_pending_maps (pending_count_by_host q) (delayed_pending_by_host d))"

definition combined_pending_count_by_host ::
  "crawl_task host_task_queue \<Rightarrow> crawl_task delayed_task_queue \<Rightarrow> (host \<times> int) list" where
  "combined_pending_count_by_host q d = snd (snd (pending_maps q d))"

definition backlog_host_pending :: "(host \<Rightarrow> host) \<Rightarrow> crawl_task host_task_queue \<Rightarrow> host \<Rightarrow> int" where
  "backlog_host_pending nrm q h = pending_for_host nrm q h"

definition kind_host_pending :: "crawl_task host_task_queue \<Rightarrow> host \<Rightarrow> media_kind \<Rightarrow> int" where
  "kind_host_pending q h k = (if h = None then 0
     else int (length (filter (\<lambda>(queued_host, p, s, t). queued_host = h \<and> task_kind t = k) (snapshot_items q))))"

definition needs_kind_host_pending :: "int \<Rightarrow> crawl_task \<Rightarrow> bool" where
  "needs_kind_host_pending max_feeds_per_host t =
    (if task_source_type t = ''seed'' then False
     else if task_kind t = FEED then 0 < max 0 max_feeds_per_host
     else task_kind t \<in> {PAGE, IMAGE, AUDIO, DOCUMENT, VIDEO})"

definition kind_host_pending_if_needed :: "int \<Rightarrow> crawl_task host_task_queue \<Rightarrow> crawl_task \<Rightarrow> host \<Rightarrow> int" where
  "kind_host_pending_if_needed max_feeds_per_host q t h =
    (if \<not> needs_kind_host_pending max_feeds_per_host t then 0 else kind_host_pending q h (task_kind t))"

section \<open>Lemmas\<close>

definition counter_ok :: "counter \<Rightarrow> bool" where
  "counter_ok c \<longleftrightarrow> distinct (map fst c) \<and> (\<forall>(k, n)\<in>set c. 0 < n \<and> py_strip k \<noteq> [])"

definition progress_inv :: "scheduler_progress_state \<Rightarrow> bool" where
  "progress_inv p \<longleftrightarrow> counter_ok (rejected_by_reason p) \<and> counter_ok (completed_by_outcome p) \<and>
     counter_ok (deferrals_by_reason p) \<and> 0 \<le> accepted_total p \<and> 0 \<le> filtered_total p \<and>
     0 \<le> rejected_total p \<and> 0 \<le> duplicate_total p \<and> duplicate_total p \<le> rejected_total p \<and>
     filtered_total p + rejected_total p = sum_list (map snd (rejected_by_reason p)) \<and> 0 \<le> drain_reserved p"

lemma counter_ok_Nil [simp]: "counter_ok []"
  by (simp add: counter_ok_def)

lemma counter_ok_inc:
  assumes "counter_ok c" and "py_strip k \<noteq> []"
  shows "counter_ok (cnt_inc k c)"
proof -
  have "0 \<le> get_default c k 0"
    using assms by (auto simp: counter_ok_def get_default_def dest!: map_of_SomeD split: option.splits)
  then show ?thesis
    using assms set_update_subset [of k "get_default c k 0 + 1" c]
    by (auto simp: counter_ok_def cnt_inc_def distinct_update)
qed

lemma sum_cnt_inc: "sum_list (map snd (cnt_inc k c)) = sum_list (map snd c) + 1"
proof -
  have "sum_list (map snd (AList.update k v c)) + get_default c k 0 = sum_list (map snd c) + v" for v :: int
    by (induction c) (auto simp: get_default_def split: option.splits)
  from this [of "get_default c k 0 + 1"] show ?thesis by (simp add: cnt_inc_def)
qed

lemma reason_not_blank: "py_strip (reason_value r) \<noteq> []"
  by (induction r) code_simp+

lemma normalize_key_not_blank: "py_strip (normalize_key v) \<noteq> []"
proof -
  have "py_strip ''unknown'' \<noteq> []" by code_simp
  moreover have "py_strip (py_lower (py_strip v)) = py_lower (py_strip v)"
    by (simp add: py_strip_lower)
  ultimately show ?thesis by (simp add: normalize_key_def Let_def)
qed

lemma initial_progress_inv: "progress_inv initial_progress"
  by (simp add: progress_inv_def initial_progress_def)

lemma record_accepted_inv: "progress_inv p \<Longrightarrow> progress_inv (record_accepted_task p)"
  by (simp add: progress_inv_def record_accepted_task_def)

lemma record_rejected_inv: "progress_inv p \<Longrightarrow> progress_inv (record_rejected_decision d p)"
  using reason_not_blank [of URL_FILTERED] reason_not_blank [of DUPLICATE_URL]
  by (simp add: progress_inv_def record_rejected_decision_def Let_def counter_ok_inc reason_not_blank sum_cnt_inc)

lemma record_completed_inv: "progress_inv p \<Longrightarrow> progress_inv (record_completed_outcome out p)"
  by (simp add: progress_inv_def record_completed_outcome_def counter_ok_inc normalize_key_not_blank)

lemma record_deferral_inv: "progress_inv p \<Longrightarrow> progress_inv (record_task_deferral r p)"
  by (simp add: progress_inv_def record_task_deferral_def counter_ok_inc normalize_key_not_blank)

lemma available_inv: "progress_inv p \<Longrightarrow> progress_inv (snd (available_drain_budget p))"
  by (auto simp: progress_inv_def available_drain_budget_def ensure_drain_budget_window_def Let_def)

lemma available_nonneg: "0 \<le> fst (available_drain_budget p)"
  by (simp add: available_drain_budget_def Let_def)

lemma available_window:
  "drain_completed_baseline (snd (available_drain_budget p)) \<noteq> None \<and> drain_accepted_baseline (snd (available_drain_budget p)) \<noteq> None"
  by (auto simp: available_drain_budget_def ensure_drain_budget_window_def Let_def)

lemma available_idem: "available_drain_budget (snd (available_drain_budget p)) = available_drain_budget p"
  by (auto simp: available_drain_budget_def ensure_drain_budget_window_def Let_def)

lemma reserve_inv: "progress_inv p \<Longrightarrow> progress_inv (snd (reserve_drain_budget cap p))"
proof -
  assume p: "progress_inv p"
  obtain a p' where a: "available_drain_budget p = (a, p')" by (cases "available_drain_budget p")
  have "progress_inv p'" "0 \<le> a" using available_inv [OF p] available_nonneg [of p] a by simp_all
  then show ?thesis using p a by (auto simp: reserve_drain_budget_def Let_def progress_inv_def)
qed

lemma release_inv: "progress_inv p \<Longrightarrow> progress_inv (release_drain_budget_reservation n p)"
  by (simp add: progress_inv_def release_drain_budget_reservation_def)

lemma reset_progress_inv: "progress_inv (reset_progress p)"
  by (simp add: progress_inv_def reset_progress_def reset_drain_budget_window_def)

subsection \<open>The checkpoint of the counters\<close>

lemma counter_ok_sort: "counter_ok c \<Longrightarrow> counter_ok (sort c)"
proof -
  assume c: "counter_ok c"
  have "mset (map fst (sort c)) = mset (map fst c)" by (simp only: mset_map mset_sort)
  then have "distinct (map fst (sort c))"
    using c by (metis counter_ok_def mset_eq_imp_distinct_iff)
  then show ?thesis using c by (simp add: counter_ok_def)
qed

lemma restore_counter_fresh:
  "counter_ok (acc @ c) \<Longrightarrow> restore_counter key (map (\<lambda>(k, n). (k, PyInt n)) c) acc = Inr (acc @ c)"
proof (induction c arbitrary: acc)
  case (Cons x c)
  obtain k n where x: "x = (k, n)" by (cases x)
  have "map_of acc k = None" using Cons.prems x by (auto simp: counter_ok_def map_of_eq_None_iff)
  then have "AList.update k n acc = acc @ [(k, n)]" by (rule update_new)
  moreover have "0 < n" "py_strip k \<noteq> []" using Cons.prems x by (auto simp: counter_ok_def)
  ultimately show ?case using Cons.IH [of "acc @ [(k, n)]"] Cons.prems x by simp
qed simp

lemma sort_counter [simp]: "sort (sort c) = sort (c :: counter)"
  by (simp add: sorted_sort_id)

lemma map_of_sort: "counter_ok c \<Longrightarrow> map_of (sort c) = map_of c"
  using counter_ok_sort [of c] by (subst map_of_inject_set) (simp_all add: counter_ok_def)

lemma counter_from_payload:
  assumes "counter_ok c" and "map_of payload key = Some (counter_payload c)"
  shows "counter_from_mapping payload key d = Inr (sort c)"
  using restore_counter_fresh [of "[]" "sort c" key] counter_ok_sort [OF assms(1)] assms(2)
  by (simp add: counter_from_mapping_def counter_payload_def)

lemma parse_export_progress:
  assumes "progress_inv p"
  shows "parse_progress (export_progress p) = Inr \<lparr>rst_accepted_total = accepted_total p,
    rst_filtered_total = filtered_total p, rst_rejected_total = rejected_total p, rst_duplicate_total = duplicate_total p,
    rst_rejected_by_reason = sort (rejected_by_reason p), rst_completed_by_outcome = sort (completed_by_outcome p),
    rst_deferrals_by_reason = sort (deferrals_by_reason p)\<rparr>"
proof -
  have "counter_from_mapping (export_progress p) ''rejected_by_reason'' None = Inr (sort (rejected_by_reason p))"
    "counter_from_mapping (export_progress p) ''completed_by_outcome'' None = Inr (sort (completed_by_outcome p))"
    "counter_from_mapping (export_progress p) ''deferrals_by_reason'' (Some []) = Inr (sort (deferrals_by_reason p))"
    using assms by (auto intro!: counter_from_payload simp: progress_inv_def export_progress_def)
  then show ?thesis
    using assms by (simp add: parse_progress_def positive_int_from_mapping_def export_progress_def progress_inv_def)
qed

lemma sum_sort_counter: "sum_list (map snd (sort c)) = sum_list (map snd (c :: counter))"
proof -
  have "mset (map snd (sort c)) = mset (map snd c)" by (simp only: mset_map mset_sort)
  then show ?thesis by (simp only: sum_mset_sum_list [symmetric])
qed

lemma apply_export_inv:
  assumes "progress_inv p" and "restore_progress (export_progress p) p0 = Inr p'"
  shows "progress_inv p'"
  using assms parse_export_progress [OF assms(1)]
  by (auto simp: restore_progress_def apply_progress_def reset_drain_budget_window_def progress_inv_def
      counter_ok_sort sum_sort_counter)

section \<open>Properties\<close>

inductive progress_reachable :: "scheduler_progress_state \<Rightarrow> bool" where
  progress_init: "progress_reachable initial_progress"
| progress_accepted: "progress_reachable p \<Longrightarrow> progress_reachable (record_accepted_task p)"
| progress_rejected: "progress_reachable p \<Longrightarrow> progress_reachable (record_rejected_decision d p)"
| progress_completed: "progress_reachable p \<Longrightarrow> progress_reachable (record_completed_outcome out p)"
| progress_deferral: "progress_reachable p \<Longrightarrow> progress_reachable (record_task_deferral r p)"
| progress_available: "progress_reachable p \<Longrightarrow> progress_reachable (snd (available_drain_budget p))"
| progress_reserve: "progress_reachable p \<Longrightarrow> progress_reachable (snd (reserve_drain_budget cap p))"
| progress_release: "progress_reachable p \<Longrightarrow> progress_reachable (release_drain_budget_reservation n p)"
| progress_window: "progress_reachable p \<Longrightarrow> progress_reachable (reset_drain_budget_window p)"
| progress_reset: "progress_reachable p \<Longrightarrow> progress_reachable (reset_progress p)"
| progress_restore: "progress_reachable p \<Longrightarrow> restore_progress (export_progress p) p0 = Inr p' \<Longrightarrow> progress_reachable p'"

lemma progress_reachable_inv: "progress_reachable p \<Longrightarrow> progress_inv p"
proof (induction rule: progress_reachable.induct)
  case (progress_window p)
  then show ?case by (simp add: progress_inv_def reset_drain_budget_window_def)
qed (simp_all add: initial_progress_inv record_accepted_inv record_rejected_inv record_completed_inv record_deferral_inv
    available_inv reserve_inv release_inv reset_progress_inv apply_export_inv)

text \<open>In every reachable state the rejections counted by reason are exactly the filtered and
  the rejected ones together, duplicates are among the rejected, and the counters survive a
  checkpoint: restoring the exported payload never raises and gives the same totals and
  the same count for every name, with the drain window closed.\<close>

theorem progress_checkpoint_roundtrip:
  assumes "progress_reachable p"
  shows "filtered_total p + rejected_total p = sum_list (map snd (rejected_by_reason p)) \<and>
    duplicate_total p \<le> rejected_total p \<and>
    (\<exists>p'. restore_progress (export_progress p) p0 = Inr p' \<and> accepted_total p' = accepted_total p \<and>
      filtered_total p' = filtered_total p \<and> rejected_total p' = rejected_total p \<and>
      duplicate_total p' = duplicate_total p \<and> completed_total p' = completed_total p \<and>
      map_of (rejected_by_reason p') = map_of (rejected_by_reason p) \<and>
      map_of (completed_by_outcome p') = map_of (completed_by_outcome p) \<and>
      map_of (deferrals_by_reason p') = map_of (deferrals_by_reason p) \<and>
      drain_completed_baseline p' = None \<and> drain_accepted_baseline p' = None \<and> drain_reserved p' = 0)"
  using progress_reachable_inv [OF assms] parse_export_progress [OF progress_reachable_inv [OF assms]]
  by (simp add: restore_progress_def apply_progress_def reset_drain_budget_window_def progress_inv_def
      map_of_sort completed_total_def sum_sort_counter)

theorem progress_checkpoint_roundtrip_witness:
  "\<exists>p'. restore_progress (export_progress (record_completed_outcome '' OK '' (record_accepted_task initial_progress)))
      initial_progress = Inr p' \<and> accepted_total p' = 1 \<and> completed_total p' = 1"
  using progress_checkpoint_roundtrip [OF progress_completed [OF progress_accepted [OF progress_init]],
      where ?p0.0 = initial_progress and out1 = "'' OK ''"]
  by (fastforce simp: record_accepted_task_def record_completed_outcome_def initial_progress_def completed_total_def
      sum_cnt_inc)

text \<open>Reservations one after the other, and what they were granted.\<close>

fun reserve_all :: "int list \<Rightarrow> scheduler_progress_state \<Rightarrow> int list \<times> scheduler_progress_state" where
  "reserve_all [] p = ([], p)"
| "reserve_all (cap # caps) p = (case reserve_drain_budget cap p of (n, p) \<Rightarrow>
     (case reserve_all caps p of (ns, p) \<Rightarrow> (n # ns, p)))"

lemma available_open:
  assumes "drain_completed_baseline p = Some c" and "drain_accepted_baseline p = Some a"
  shows "available_drain_budget p = (max 0 (completed_total p - c - (accepted_total p - a) - max 0 (drain_reserved p)), p)"
  using assms by (simp add: available_drain_budget_def ensure_drain_budget_window_def Let_def)

lemma available_after_reserve:
  assumes "progress_inv p" and "reserve_drain_budget cap p = (n, p')"
  shows "0 \<le> n \<and> n \<le> max 0 cap \<and> fst (available_drain_budget p') = fst (available_drain_budget p) - n"
proof (cases "cap \<le> 0")
  case False
  obtain av p1 where av: "available_drain_budget p = (av, p1)" by (cases "available_drain_budget p")
  obtain c a where base: "drain_completed_baseline p1 = Some c" "drain_accepted_baseline p1 = Some a"
    using available_window [of p] av by auto
  define X where "X = completed_total p1 - c - (accepted_total p1 - a)"
  have av_eq: "av = max 0 (X - max 0 (drain_reserved p1))"
    using available_idem [of p] av available_open [OF base] by (simp add: X_def)
  have "progress_inv p1" using available_inv [OF assms(1)] av by simp
  then have r: "0 \<le> drain_reserved p1" by (simp add: progress_inv_def)
  have n: "n = min (max 0 cap) av" and p': "p' = p1\<lparr>drain_reserved := drain_reserved p1 + n\<rparr>"
    using assms(2) av False by (auto simp: reserve_drain_budget_def Let_def)
  have "fst (available_drain_budget p') = max 0 (X - max 0 (drain_reserved p1 + n))"
    using base by (subst available_open) (simp_all add: p' X_def completed_total_def)
  then show ?thesis using n av_eq r av by (auto simp: min_def max_def split: if_splits)
qed (use assms in \<open>auto simp: reserve_drain_budget_def\<close>)

text \<open>The drain budget is never granted twice. However often slots are reserved before they
  are released, every grant is at least zero and at most its cap, and the grants together are at most
  the completions that the window has had beyond its admissions and its earlier reservations.\<close>

theorem drain_reservations_bounded:
  assumes "progress_reachable p" and "reserve_all caps p = (ns, p')"
  shows "sum_list ns \<le> fst (available_drain_budget p) \<and> list_all2 (\<lambda>n cap. 0 \<le> n \<and> n \<le> max 0 cap) ns caps"
proof -
  have "progress_inv p" using assms(1) by (rule progress_reachable_inv)
  then show ?thesis
    using assms(2)
  proof (induction caps arbitrary: p ns)
    case (Cons cap caps)
    obtain n p1 where one: "reserve_drain_budget cap p = (n, p1)" by (cases "reserve_drain_budget cap p")
    obtain ns1 where rest: "reserve_all caps p1 = (ns1, p')" and ns: "ns = n # ns1"
      using Cons.prems(2) one by (auto split: prod.splits)
    have "progress_inv p1" using reserve_inv [OF Cons.prems(1), of cap] one by simp
    then show ?case
      using Cons.IH [OF _ rest] available_after_reserve [OF Cons.prems(1) one] ns by auto
  qed (simp add: available_nonneg)
qed

theorem drain_reservations_bounded_witness:
  "\<exists>ns p'. reserve_all [2, 2] (record_completed_outcome ''ok'' (snd (available_drain_budget initial_progress))) = (ns, p') \<and>
     sum_list ns \<le> 1"
proof -
  let ?p = "record_completed_outcome ''ok'' (snd (available_drain_budget initial_progress))"
  obtain ns p' where run: "reserve_all [2, 2] ?p = (ns, p')" by (cases "reserve_all [2, 2] ?p")
  have "fst (available_drain_budget ?p) = 1"
    by (simp add: available_drain_budget_def ensure_drain_budget_window_def initial_progress_def Let_def
        record_completed_outcome_def completed_total_def sum_cnt_inc)
  then show ?thesis
    using drain_reservations_bounded [OF progress_completed [OF progress_available [OF progress_init]] run] run by auto
qed

text \<open>A task without a host has a bucket of its own, whose size the backlog reports.\<close>

lemma none_host_has_a_bucket:
  "backlog_host_pending lower_host (push lower_host None 0 0 t empty_queue) None = 1"
  by (simp add: backlog_host_pending_def pending_for_host_def push_def Let_def lower_host_def empty_queue_def get_default_def)

end
