(* ===== verification/Discovery_Signal.thy ===== *)
theory Discovery_Signal imports
  Value_Parser
begin

text \<open>
  The discovery signal scorer, \<open>crawler/scheduling/host_control/discovery_signal_scorer.py\<close>,
  and its settings, \<open>DiscoveryFeedbackSettings\<close> of \<open>config/collection/discovery.py\<close>. Scores
  are reals; rounding of the float operations is not modelled.
\<close>

section \<open>Settings\<close>

record discovery_feedback_settings =
  fb_ewma_alpha :: real
  fb_default_info_gain :: real
  fb_default_host_quality :: real
  fb_seed_host_quality :: real
  fb_success_weight_novelty :: real
  fb_success_weight_acceptance :: real
  fb_success_weight_retained_after_truncation :: real
  fb_success_weight_low_rejection :: real
  fb_filtered_rejection_penalty_scale :: real
  fb_quality_hint_blend_weight :: real
  fb_cancelled_info_gain :: real
  fb_dropped_info_gain :: real
  fb_failed_info_gain :: real

definition default_feedback_settings :: discovery_feedback_settings where
  "default_feedback_settings = \<lparr>fb_ewma_alpha = 35 / 100, fb_default_info_gain = 1 / 2,
     fb_default_host_quality = 1 / 2, fb_seed_host_quality = 65 / 100, fb_success_weight_novelty = 4 / 10,
     fb_success_weight_acceptance = 35 / 100, fb_success_weight_retained_after_truncation = 15 / 100,
     fb_success_weight_low_rejection = 1 / 10, fb_filtered_rejection_penalty_scale = 1 / 2,
     fb_quality_hint_blend_weight = 2 / 10, fb_cancelled_info_gain = 3 / 10, fb_dropped_info_gain = 2 / 10,
     fb_failed_info_gain = 1 / 10\<rparr>"

definition unit_interval :: "real \<Rightarrow> bool" where
  "unit_interval x \<longleftrightarrow> 0 \<le> x \<and> x \<le> 1"

definition feedback_in_range :: "discovery_feedback_settings \<Rightarrow> bool" where
  "feedback_in_range s \<longleftrightarrow> 0 < fb_ewma_alpha s \<and> fb_ewma_alpha s \<le> 1 \<and>
     unit_interval (fb_default_info_gain s) \<and> unit_interval (fb_default_host_quality s) \<and>
     unit_interval (fb_seed_host_quality s) \<and> unit_interval (fb_success_weight_novelty s) \<and>
     unit_interval (fb_success_weight_acceptance s) \<and>
     unit_interval (fb_success_weight_retained_after_truncation s) \<and>
     unit_interval (fb_success_weight_low_rejection s) \<and>
     unit_interval (fb_filtered_rejection_penalty_scale s) \<and>
     unit_interval (fb_quality_hint_blend_weight s) \<and> unit_interval (fb_cancelled_info_gain s) \<and>
     unit_interval (fb_dropped_info_gain s) \<and> unit_interval (fb_failed_info_gain s)"

definition success_weight_sum :: "discovery_feedback_settings \<Rightarrow> real" where
  "success_weight_sum s = fb_success_weight_novelty s + fb_success_weight_acceptance s +
     fb_success_weight_retained_after_truncation s + fb_success_weight_low_rejection s"

definition validate_success_weights :: "discovery_feedback_settings \<Rightarrow> discovery_feedback_settings result" where
  "validate_success_weights s = (if success_weight_sum s \<le> 0
     then Inl (ValueError ''at least one success weight must be greater than zero'') else Inr s)"

section \<open>Coercion of scores\<close>

definition non_negative_int :: "int option \<Rightarrow> int" where
  "non_negative_int v = (case v of None \<Rightarrow> 0 | Some parsed \<Rightarrow> max 0 parsed)"

definition score_clamp :: "real \<Rightarrow> real" where
  "score_clamp x = coerce_finite_float (PyFloat (Fin x)) (PyFloat (Fin 0)) (PyFloat (Fin 0)) (PyFloat (Fin 1))"

definition coerce_score :: "pyval \<Rightarrow> real \<Rightarrow> real" where
  "coerce_score v dflt = (case coerce_float v None True of
     None \<Rightarrow> dflt
   | Some x \<Rightarrow> (if x < 0 then 0 else if 1 < x then 1 else x))"

abbreviation real_score :: "real \<Rightarrow> real \<Rightarrow> real" where
  "real_score x dflt \<equiv> coerce_score (PyFloat (Fin x)) dflt"

definition field_as_int :: "py_dict option \<Rightarrow> string \<Rightarrow> int option" where
  "field_as_int flds key = (case flds of None \<Rightarrow> None | Some d \<Rightarrow> coerce_int (py_get d key) None True)"

definition field_as_float :: "py_dict option \<Rightarrow> string \<Rightarrow> real option" where
  "field_as_float flds key = (case flds of None \<Rightarrow> None | Some d \<Rightarrow> coerce_float (py_get d key) None True)"

definition field_as_str :: "py_dict option \<Rightarrow> string \<Rightarrow> string option" where
  "field_as_str flds key = (case flds of None \<Rightarrow> None | Some d \<Rightarrow>
     (if py_get d key = PyNone then None
      else (let text = py_strip (py_str (py_get d key)) in if text = [] then None else Some text)))"

section \<open>Scores\<close>

record discovery_signal_scores =
  sig_info_gain :: real
  sig_novelty_gain :: real
  sig_acceptance_ratio :: real
  sig_duplicate_pressure :: real
  sig_truncation_pressure :: real
  sig_rejection_pressure :: real

text \<open>The keyword arguments of \<open>score\<close> and \<open>outcome_info_gain\<close>.\<close>

record signal_counts =
  n_discovered :: "int option"
  n_scheduled :: "int option"
  n_filtered :: "int option"
  n_rejected :: "int option"
  n_truncated :: "int option"
  n_duplicates :: "int option"
  hint_relevance :: "real option"
  hint_quality :: "real option"

definition has_signal_inputs :: "signal_counts \<Rightarrow> bool" where
  "has_signal_inputs c \<longleftrightarrow> n_discovered c \<noteq> None \<or> n_scheduled c \<noteq> None \<or> n_filtered c \<noteq> None \<or>
     n_rejected c \<noteq> None \<or> n_truncated c \<noteq> None \<or> n_duplicates c \<noteq> None \<or>
     hint_relevance c \<noteq> None \<or> hint_quality c \<noteq> None"

definition weighted_success_info_gain ::
  "discovery_feedback_settings \<Rightarrow> real \<Rightarrow> real \<Rightarrow> real \<Rightarrow> real \<Rightarrow> real" where
  "weighted_success_info_gain s acceptance_ratio novelty_gain truncation_pressure rejection_pressure =
    score_clamp ((acceptance_ratio * fb_success_weight_acceptance s + novelty_gain * fb_success_weight_novelty s +
      (1 - truncation_pressure) * fb_success_weight_retained_after_truncation s +
      (1 - rejection_pressure) * fb_success_weight_low_rejection s) /
     (fb_success_weight_acceptance s + fb_success_weight_novelty s +
      fb_success_weight_retained_after_truncation s + fb_success_weight_low_rejection s))"

definition quality_hints :: "real option \<Rightarrow> real option \<Rightarrow> real list" where
  "quality_hints r q = map score_clamp ((case r of None \<Rightarrow> [] | Some x \<Rightarrow> [x]) @ (case q of None \<Rightarrow> [] | Some x \<Rightarrow> [x]))"

definition blend_quality_hints :: "real \<Rightarrow> real option \<Rightarrow> real option \<Rightarrow> real \<Rightarrow> real" where
  "blend_quality_hints base r q blend_weight =
    (let hints = quality_hints r q in
     if hints = [] then score_clamp base
     else (let bounded_weight = score_clamp blend_weight;
               blended_hint = sum_list hints / of_nat (length hints)
           in score_clamp ((1 - bounded_weight) * score_clamp base + bounded_weight * blended_hint)))"

definition observed_total :: "signal_counts \<Rightarrow> int" where
  "observed_total c = max 1 (max (non_negative_int (n_discovered c))
     (non_negative_int (n_scheduled c) + non_negative_int (n_filtered c) + non_negative_int (n_rejected c)))"

definition observed_ratio :: "signal_counts \<Rightarrow> real \<Rightarrow> real" where
  "observed_ratio c x = score_clamp (x / of_int (observed_total c))"

definition novelty_score :: "signal_counts \<Rightarrow> real" where
  "novelty_score c = (let scheduled_count = non_negative_int (n_scheduled c) in
     score_clamp (of_int (max 0 (scheduled_count - non_negative_int (n_duplicates c))) /
       of_int (max 1 (max scheduled_count (non_negative_int (n_discovered c))))))"

definition score_signals :: "discovery_feedback_settings \<Rightarrow> signal_counts \<Rightarrow> discovery_signal_scores" where
  "score_signals s c =
    (let acceptance_ratio = observed_ratio c (of_int (non_negative_int (n_scheduled c)));
         duplicate_pressure = observed_ratio c (of_int (non_negative_int (n_duplicates c)));
         truncation_pressure = observed_ratio c (of_int (non_negative_int (n_truncated c)));
         penalized_rejections = of_int (non_negative_int (n_rejected c)) +
           of_int (non_negative_int (n_filtered c)) * fb_filtered_rejection_penalty_scale s;
         rejection_pressure = observed_ratio c penalized_rejections;
         novelty_gain = novelty_score c;
         base_info_gain = (if has_signal_inputs c
           then weighted_success_info_gain s acceptance_ratio novelty_gain truncation_pressure rejection_pressure
           else fb_default_info_gain s);
         info_gain = blend_quality_hints base_info_gain (hint_relevance c) (hint_quality c)
           (fb_quality_hint_blend_weight s)
     in \<lparr>sig_info_gain = score_clamp info_gain, sig_novelty_gain = novelty_gain,
         sig_acceptance_ratio = acceptance_ratio, sig_duplicate_pressure = duplicate_pressure,
         sig_truncation_pressure = truncation_pressure, sig_rejection_pressure = rejection_pressure\<rparr>)"

definition positive_outcomes :: "string set" where
  "positive_outcomes = {''accepted'', ''complete'', ''completed'', ''done'', ''fetched'', ''processed'', ''success''}"

definition failed_outcomes :: "string set" where
  "failed_outcomes = {''cancelled_error'', ''error'', ''failed'', ''failure'', ''fetch_error'', ''http_error'',
     ''parse_error'', ''rejected'', ''timeout''}"

definition cancelled_outcomes :: "string set" where
  "cancelled_outcomes = {''cancelled'', ''interrupted''}"

definition dropped_outcomes :: "string set" where
  "dropped_outcomes = {''dropped'', ''duplicate'', ''filtered'', ''ignored'', ''skipped'', ''truncated''}"

definition outcome_info_gain :: "discovery_feedback_settings \<Rightarrow> string \<Rightarrow> signal_counts \<Rightarrow> real" where
  "outcome_info_gain s outcome c =
    (let normalized_outcome = py_lower (py_strip outcome) in
     if normalized_outcome \<in> failed_outcomes then score_clamp (fb_failed_info_gain s)
     else if normalized_outcome \<in> dropped_outcomes then score_clamp (fb_dropped_info_gain s)
     else if normalized_outcome \<in> cancelled_outcomes then score_clamp (fb_cancelled_info_gain s)
     else (let info_gain = sig_info_gain (score_signals s c) in
       if normalized_outcome \<in> positive_outcomes then info_gain
       else if normalized_outcome = ''deferred'' then score_clamp (min (info_gain * (45 / 100)) (18 / 100))
       else score_clamp ((info_gain + fb_default_info_gain s) / 2)))"

definition signal_counts_of :: "py_dict option \<Rightarrow> signal_counts" where
  "signal_counts_of flds = \<lparr>n_discovered = field_as_int flds ''discovered'', n_scheduled = field_as_int flds ''scheduled'',
     n_filtered = field_as_int flds ''filtered'', n_rejected = field_as_int flds ''rejected'',
     n_truncated = field_as_int flds ''truncated'', n_duplicates = field_as_int flds ''duplicates'',
     hint_relevance = field_as_float flds ''relevance_score'', hint_quality = field_as_float flds ''quality_score''\<rparr>"

definition calculate_info_gain :: "discovery_feedback_settings \<Rightarrow> string \<Rightarrow> py_dict option \<Rightarrow> real" where
  "calculate_info_gain s outcome flds =
     real_score (outcome_info_gain s outcome (signal_counts_of flds)) (fb_default_info_gain s)"

definition blend_quality :: "discovery_feedback_settings \<Rightarrow> real \<Rightarrow> real \<Rightarrow> real \<Rightarrow> real" where
  "blend_quality s relevance info_gain topic_score =
     real_score (4 / 10 * relevance + 4 / 10 * info_gain + 2 / 10 * topic_score) (fb_default_host_quality s)"

definition ewma :: "discovery_feedback_settings \<Rightarrow> real \<Rightarrow> real \<Rightarrow> real" where
  "ewma s previous current =
    (let safe_previous = real_score previous (fb_default_info_gain s);
         safe_current = real_score current safe_previous
     in real_score (fb_ewma_alpha s * safe_current + (1 - fb_ewma_alpha s) * safe_previous) safe_previous)"

definition default_relevance_for_outcome :: "string \<Rightarrow> real" where
  "default_relevance_for_outcome outcome =
    (let normalized_outcome = py_lower (py_strip outcome) in
     if normalized_outcome = ''success'' then 1 / 2
     else if normalized_outcome = ''deferred'' then 2 / 10
     else if normalized_outcome = ''cancelled'' then 15 / 100
     else if normalized_outcome = ''dropped'' then 5 / 100
     else if normalized_outcome \<in> {''failed'', ''error'', ''rejected''} then 5 / 100
     else 2 / 10)"

section \<open>Lemmas\<close>

lemma score_clamp_eq: "score_clamp x = min (max x 0) 1"
  by (simp add: score_clamp_def coerce_finite_float_def finite_float_or_none_def)

lemma score_clamp_unit [simp]: "unit_interval (score_clamp x)"
  by (simp add: score_clamp_eq unit_interval_def)

lemma score_clamp_id [simp]: "unit_interval x \<Longrightarrow> score_clamp x = x"
  by (simp add: score_clamp_eq unit_interval_def)

lemma real_score_eq: "real_score x dflt = score_clamp x"
  by (simp add: coerce_score_def coerce_float_def finite_float_or_none_def score_clamp_eq)

lemma coerce_score_unit: "unit_interval dflt \<Longrightarrow> unit_interval (coerce_score v dflt)"
  by (auto simp: coerce_score_def unit_interval_def split: option.splits)

lemma convex_unit:
  assumes "unit_interval w" "unit_interval a" "unit_interval b"
  shows "unit_interval (w * a + (1 - w) * b)"
proof -
  have "w * a \<le> w" and "(1 - w) * b \<le> 1 - w"
    using assms by (auto simp: unit_interval_def intro: mult_left_le)
  moreover have "0 \<le> w * a" and "0 \<le> (1 - w) * b"
    using assms by (simp_all add: unit_interval_def)
  ultimately have "0 \<le> w * a + (1 - w) * b" and "w * a + (1 - w) * b \<le> 1"
    by linarith+
  then show ?thesis
    by (simp add: unit_interval_def)
qed

lemma ewma_eq:
  assumes "feedback_in_range s" "unit_interval previous" "unit_interval current"
  shows "ewma s previous current = fb_ewma_alpha s * current + (1 - fb_ewma_alpha s) * previous"
  using assms convex_unit [of "fb_ewma_alpha s" current previous]
  by (simp add: ewma_def Let_def real_score_eq feedback_in_range_def unit_interval_def [of "fb_ewma_alpha s"])

lemma ewma_unit [simp]: "unit_interval (ewma s previous current)"
  by (simp add: ewma_def Let_def real_score_eq)

lemma calculate_info_gain_unit [simp]: "unit_interval (calculate_info_gain s outcome flds)"
  by (simp add: calculate_info_gain_def real_score_eq)

lemma blend_quality_unit [simp]: "unit_interval (blend_quality s r i t)"
  by (simp add: blend_quality_def real_score_eq)

text \<open>
  The success formula is a weighted mean of four scores, so the clamp around it never acts.
\<close>

lemma weighted_success_unclamped:
  assumes "feedback_in_range s" and "0 < success_weight_sum s"
    and "unit_interval a" "unit_interval n" "unit_interval t" "unit_interval r"
  shows "weighted_success_info_gain s a n t r =
    (a * fb_success_weight_acceptance s + n * fb_success_weight_novelty s +
     (1 - t) * fb_success_weight_retained_after_truncation s + (1 - r) * fb_success_weight_low_rejection s) /
     success_weight_sum s"
proof -
  let ?num = "a * fb_success_weight_acceptance s + n * fb_success_weight_novelty s +
     (1 - t) * fb_success_weight_retained_after_truncation s + (1 - r) * fb_success_weight_low_rejection s"
  have w: "0 \<le> fb_success_weight_acceptance s" "0 \<le> fb_success_weight_novelty s"
    "0 \<le> fb_success_weight_retained_after_truncation s" "0 \<le> fb_success_weight_low_rejection s"
    using assms(1) by (auto simp: feedback_in_range_def unit_interval_def)
  have x: "0 \<le> a" "a \<le> 1" "0 \<le> n" "n \<le> 1" "0 \<le> 1 - t" "1 - t \<le> 1" "0 \<le> 1 - r" "1 - r \<le> 1"
    using assms by (auto simp: unit_interval_def)
  have "0 \<le> ?num"
    using w x by simp
  moreover have "?num \<le> success_weight_sum s"
    using mult_right_mono [OF x(2) w(1)] mult_right_mono [OF x(4) w(2)]
      mult_right_mono [OF x(6) w(3)] mult_right_mono [OF x(8) w(4)]
    by (simp add: success_weight_sum_def)
  ultimately have "unit_interval (?num / success_weight_sum s)"
    using assms(2) by (simp add: unit_interval_def)
  then show ?thesis
    by (simp add: weighted_success_info_gain_def success_weight_sum_def add_ac)
qed

lemma observed_ratio_unit [simp]: "unit_interval (observed_ratio c x)"
  by (simp add: observed_ratio_def)

lemma novelty_score_unit [simp]: "unit_interval (novelty_score c)"
  by (simp add: novelty_score_def Let_def)

section \<open>Properties\<close>

text \<open>Whatever the counters and hints are, every score of \<open>score\<close>, the information gain
  of an outcome and the blended quality lie between 0 and 1; and with valid settings an
  EWMA step is the exact weighted mean of two such scores, so it stays between the old value
  and the new signal.\<close>

theorem signal_scores_bounded:
  assumes "feedback_in_range s" and "unit_interval previous"
  shows "unit_interval (sig_info_gain (score_signals s c)) \<and> unit_interval (sig_novelty_gain (score_signals s c)) \<and>
    unit_interval (sig_acceptance_ratio (score_signals s c)) \<and> unit_interval (sig_duplicate_pressure (score_signals s c)) \<and>
    unit_interval (sig_truncation_pressure (score_signals s c)) \<and> unit_interval (sig_rejection_pressure (score_signals s c)) \<and>
    unit_interval (calculate_info_gain s outcome flds) \<and> unit_interval (blend_quality s r i t) \<and>
    ewma s previous (calculate_info_gain s outcome flds) =
      fb_ewma_alpha s * calculate_info_gain s outcome flds + (1 - fb_ewma_alpha s) * previous \<and>
    min previous (calculate_info_gain s outcome flds) \<le> ewma s previous (calculate_info_gain s outcome flds) \<and>
    ewma s previous (calculate_info_gain s outcome flds) \<le> max previous (calculate_info_gain s outcome flds)"
proof -
  let ?g = "calculate_info_gain s outcome flds" and ?a = "fb_ewma_alpha s"
  have e: "ewma s previous ?g = ?a * ?g + (1 - ?a) * previous"
    using assms by (simp add: ewma_eq)
  have a: "0 \<le> ?a" "0 \<le> 1 - ?a"
    using assms(1) by (simp_all add: feedback_in_range_def)
  have mean: "?a * x + (1 - ?a) * x = x" for x
    by (simp add: algebra_simps)
  have "?a * min previous ?g + (1 - ?a) * min previous ?g \<le> ?a * ?g + (1 - ?a) * previous"
    using a by (intro add_mono mult_left_mono) simp_all
  then have lo: "min previous ?g \<le> ewma s previous ?g"
    unfolding mean e .
  have "?a * ?g + (1 - ?a) * previous \<le> ?a * max previous ?g + (1 - ?a) * max previous ?g"
    using a by (intro add_mono mult_left_mono) simp_all
  then have hi: "ewma s previous ?g \<le> max previous ?g"
    unfolding mean e .
  show ?thesis
    by (intro conjI e lo hi) (simp_all add: score_signals_def Let_def)
qed

lemma default_feedback_in_range: "feedback_in_range default_feedback_settings"
  by (simp add: feedback_in_range_def default_feedback_settings_def unit_interval_def)

theorem signal_scores_bounded_witness:
  "unit_interval (sig_info_gain (score_signals default_feedback_settings
     \<lparr>n_discovered = Some 10, n_scheduled = Some 4, n_filtered = Some 3, n_rejected = Some 9, n_truncated = None,
      n_duplicates = Some 1, hint_relevance = Some 3, hint_quality = None\<rparr>)) \<and>
   calculate_info_gain default_feedback_settings ''Timeout'' None = 1 / 10 \<and>
   ewma default_feedback_settings (1 / 2) (calculate_info_gain default_feedback_settings ''Timeout'' None) \<le>
     max (1 / 2) (calculate_info_gain default_feedback_settings ''Timeout'' None)"
proof -
  have "py_lower (py_strip ''Timeout'') = ''timeout''"
    by code_simp
  then have "calculate_info_gain default_feedback_settings ''Timeout'' None = 1 / 10"
    by (simp add: calculate_info_gain_def real_score_eq outcome_info_gain_def failed_outcomes_def
        score_clamp_eq default_feedback_settings_def)
  moreover have half: "unit_interval (1 / 2)"
    by (simp add: unit_interval_def)
  ultimately show ?thesis
    using signal_scores_bounded [OF default_feedback_in_range half] by blast
qed

text \<open>With validated settings the success score is exactly the weighted mean of the
  acceptance ratio, the novelty, the retained share and the low-rejection share: neither the
  division by the sum of the weights nor the clamp distorts it.\<close>

theorem success_score_is_weighted_mean:
  assumes "feedback_in_range s" and "validate_success_weights s = Inr s"
    and "has_signal_inputs c" "hint_relevance c = None" "hint_quality c = None"
  shows "sig_info_gain (score_signals s c) * success_weight_sum s =
    sig_acceptance_ratio (score_signals s c) * fb_success_weight_acceptance s +
    sig_novelty_gain (score_signals s c) * fb_success_weight_novelty s +
    (1 - sig_truncation_pressure (score_signals s c)) * fb_success_weight_retained_after_truncation s +
    (1 - sig_rejection_pressure (score_signals s c)) * fb_success_weight_low_rejection s"
proof -
  have pos: "0 < success_weight_sum s"
    using assms(2) by (simp add: validate_success_weights_def split: if_splits)
  have clamp: "score_clamp (weighted_success_info_gain s a n t r) = weighted_success_info_gain s a n t r" for a n t r
    by (simp add: weighted_success_info_gain_def)
  show ?thesis
    using assms pos by (simp add: score_signals_def Let_def blend_quality_hints_def quality_hints_def clamp
        weighted_success_unclamped)
qed

theorem success_score_is_weighted_mean_witness:
  "sig_info_gain (score_signals default_feedback_settings
     \<lparr>n_discovered = Some 10, n_scheduled = Some 4, n_filtered = Some 2, n_rejected = Some 1, n_truncated = Some 5,
      n_duplicates = Some 1, hint_relevance = None, hint_quality = None\<rparr>) = 415 / 1000"
  using success_score_is_weighted_mean [OF default_feedback_in_range, where
     c = "\<lparr>n_discovered = Some 10, n_scheduled = Some 4, n_filtered = Some 2, n_rejected = Some 1, n_truncated = Some 5,
      n_duplicates = Some 1, hint_relevance = None, hint_quality = None\<rparr>"]
  by (simp add: validate_success_weights_def success_weight_sum_def default_feedback_settings_def has_signal_inputs_def
      score_signals_def Let_def observed_ratio_def observed_total_def non_negative_int_def novelty_score_def score_clamp_eq)

end
