(* ===== verification/Host_Control.thy ===== *)
theory Host_Control imports
  Discovery_Signal
  Retry_Budget
  Active_Task_Registry
begin

text \<open>
  What the scheduler knows about hosts: \<open>host_advice.py\<close>, \<open>host_advice_tracker.py\<close>,
  \<open>host_media_byte_budget.py\<close>, \<open>host_feedback_aggregator.py\<close> and \<open>host_budget_tracker.py\<close>
  of \<open>crawler/scheduling/host_control\<close>. The host normaliser and the host extractor are
  function arguments; the monotonic clock is a reading. An \<open>OrderedDict\<close> is an association
  list, oldest entry first; log output is left out.
\<close>

section \<open>Advice\<close>

record host_advice =
  adv_discovery_factor :: "pyfloat option"
  adv_priority_penalty :: "pyfloat option"
  adv_hostility_score :: "pyfloat option"
  adv_crawl_delay_seconds :: "pyfloat option"

definition no_advice :: host_advice where
  "no_advice = \<lparr>adv_discovery_factor = None, adv_priority_penalty = None, adv_hostility_score = None,
     adv_crawl_delay_seconds = None\<rparr>"

record advice_entry =
  ent_advice :: host_advice
  ent_touched_at :: real

record advice_tracker =
  adv_ttl_seconds :: "real option"
  adv_max_hosts :: int
  adv_entries :: "(string \<times> advice_entry) list"

definition advice_get :: "(host \<Rightarrow> host) \<Rightarrow> advice_tracker \<Rightarrow> host \<Rightarrow> advice_entry option" where
  "advice_get nrm t h = (case nrm h of None \<Rightarrow> None | Some k \<Rightarrow> map_of (adv_entries t) k)"

text \<open>\<open>while len(entries) > max_hosts: popitem(last=False)\<close>, and the number of items popped.\<close>

definition over_capacity :: "int \<Rightarrow> 'a list \<Rightarrow> nat" where
  "over_capacity max_hosts es = nat (int (length es) - max_hosts)"

text \<open>Expired entries at the front; the scan stops at the first live one.\<close>

fun drop_expired :: "real \<Rightarrow> (string \<times> advice_entry) list \<Rightarrow> (string \<times> advice_entry) list" where
  "drop_expired expire_before [] = []"
| "drop_expired expire_before ((h, e) # es) =
    (if expire_before < ent_touched_at e then (h, e) # es else drop_expired expire_before es)"

definition advice_prune :: "real \<Rightarrow> advice_tracker \<Rightarrow> int \<times> advice_tracker" where
  "advice_prune now t =
    (let live = (case adv_ttl_seconds t of None \<Rightarrow> adv_entries t | Some ttl \<Rightarrow> drop_expired (now - ttl) (adv_entries t));
         kept = drop (over_capacity (adv_max_hosts t) live) live
     in (int (length (adv_entries t)) - int (length kept), t\<lparr>adv_entries := kept\<rparr>))"

definition advice_remember ::
  "(host \<Rightarrow> host) \<Rightarrow> real \<Rightarrow> host \<Rightarrow> host_advice \<Rightarrow> advice_tracker \<Rightarrow> unit result \<times> advice_tracker" where
  "advice_remember nrm now h advice t =
    (if adv_max_hosts t = 0 then (Inr (), t)
     else (case require_host nrm h of
       Inl e \<Rightarrow> (Inl e, t)
     | Inr k \<Rightarrow>
        (let t = snd (advice_prune now t);
             es = AList.delete k (adv_entries t) @ [(k, \<lparr>ent_advice = advice, ent_touched_at = now\<rparr>)]
         in (Inr (), t\<lparr>adv_entries := drop (over_capacity (adv_max_hosts t) es) es\<rparr>))))"

definition advice_clear :: "advice_tracker \<Rightarrow> advice_tracker" where
  "advice_clear t = t\<lparr>adv_entries := []\<rparr>"

definition extract_crawl_delay_seconds :: "host_advice \<Rightarrow> real option" where
  "extract_crawl_delay_seconds advice = (case adv_crawl_delay_seconds advice of
     Some (Fin x) \<Rightarrow> (if x < 0 then None else Some x) | _ \<Rightarrow> None)"

section \<open>Byte budget\<close>

definition media_kinds :: "media_kind set" where
  "media_kinds = {IMAGE, AUDIO, DOCUMENT, VIDEO}"

record media_byte_budget =
  max_bytes_per_host :: int
  max_bytes_per_host_by_kind :: "(string \<times> int) list"
  host_totals :: "(string \<times> int) list"
  host_kind_totals :: "((string \<times> media_kind) \<times> int) list"

definition record_download ::
  "(host \<Rightarrow> host) \<Rightarrow> host \<Rightarrow> media_kind \<Rightarrow> int \<Rightarrow> media_byte_budget \<Rightarrow> unit result \<times> media_byte_budget" where
  "record_download nrm h kind byte_count b =
    (if byte_count \<le> 0 then (Inr (), b)
     else (case require_host nrm h of
       Inl e \<Rightarrow> (Inl e, b)
     | Inr k \<Rightarrow>
        (let b = b\<lparr>host_totals := AList.update k (get_default (host_totals b) k 0 + byte_count) (host_totals b)\<rparr>
         in (Inr (), if kind \<in> media_kinds
              then b\<lparr>host_kind_totals := AList.update (k, kind)
                (get_default (host_kind_totals b) (k, kind) 0 + byte_count) (host_kind_totals b)\<rparr>
              else b))))"

definition media_budget_exhausted ::
  "(host \<Rightarrow> host) \<Rightarrow> crawl_task \<Rightarrow> host \<Rightarrow> media_byte_budget \<Rightarrow> (bool \<times> string option) result" where
  "media_budget_exhausted nrm t h b =
    and_then (require_host nrm h) (\<lambda>k.
      if max_bytes_per_host b \<le> get_default (host_totals b) k 0
      then Inr (True, Some ''host_media_byte_budget_exceeded'')
      else if task_kind t \<in> media_kinds
      then (case map_of (max_bytes_per_host_by_kind b) (kind_value (task_kind t)) of
          None \<Rightarrow> Inr (False, None)
        | Some kind_limit \<Rightarrow>
            if 0 < kind_limit \<and> kind_limit \<le> get_default (host_kind_totals b) (k, task_kind t) 0
            then Inr (True, Some (''host_'' @ kind_value (task_kind t) @ ''_byte_budget_exceeded''))
            else Inr (False, None))
      else Inr (False, None))"

section \<open>Feedback\<close>

record host_feedback =
  observed_tasks :: int
  budgeted_tasks :: int
  info_gain_ewma :: real
  quality_ewma :: real

record feedback_aggregator =
  fba_max_hosts :: "int option"
  fba_default_info_gain :: real
  fba_default_host_quality :: real
  fba_feedback :: "(string \<times> host_feedback) list"
  fba_expanded_hosts :: "(string \<times> string) set"

definition feedback_get :: "(host \<Rightarrow> host) \<Rightarrow> feedback_aggregator \<Rightarrow> host \<Rightarrow> host_feedback option" where
  "feedback_get nrm a h = (case nrm h of None \<Rightarrow> None | Some k \<Rightarrow> map_of (fba_feedback a) k)"

definition host_for_url :: "(host \<Rightarrow> host) \<Rightarrow> (string \<Rightarrow> host) \<Rightarrow> string \<Rightarrow> host" where
  "host_for_url nrm extract url = nrm (extract url)"

definition fresh_feedback :: "feedback_aggregator \<Rightarrow> host_feedback" where
  "fresh_feedback a = \<lparr>observed_tasks = 0, budgeted_tasks = 0, info_gain_ewma = fba_default_info_gain a,
     quality_ewma = fba_default_host_quality a\<rparr>"

text \<open>\<open>get_or_create\<close> returns a reference into the dictionary; here the key and the state.\<close>

definition get_or_create ::
  "(host \<Rightarrow> host) \<Rightarrow> host \<Rightarrow> feedback_aggregator \<Rightarrow> (string \<times> host_feedback) result \<times> feedback_aggregator" where
  "get_or_create nrm h a = (case require_host nrm h of
     Inl e \<Rightarrow> (Inl e, a)
   | Inr k \<Rightarrow> (case map_of (fba_feedback a) k of
       Some f \<Rightarrow> (Inr (k, f), a\<lparr>fba_feedback := AList.delete k (fba_feedback a) @ [(k, f)]\<rparr>)
     | None \<Rightarrow>
        (let full = (case fba_max_hosts a of None \<Rightarrow> False | Some m \<Rightarrow> m \<le> int (length (fba_feedback a))) in
         if full \<and> fba_feedback a = [] then (Inl (KeyError ''dictionary is empty''), a)
         else (let kept = (if full then tl (fba_feedback a) else fba_feedback a)
           in (Inr (k, fresh_feedback a), a\<lparr>fba_feedback := kept @ [(k, fresh_feedback a)]\<rparr>)))))"

definition is_expanded_host :: "(host \<Rightarrow> host) \<Rightarrow> feedback_aggregator \<Rightarrow> string \<Rightarrow> host \<Rightarrow> bool" where
  "is_expanded_host nrm a source_name h = (case nrm h of None \<Rightarrow> False
     | Some k \<Rightarrow> (source_name, k) \<in> fba_expanded_hosts a)"

definition mark_expanded ::
  "(host \<Rightarrow> host) \<Rightarrow> string \<Rightarrow> host \<Rightarrow> feedback_aggregator \<Rightarrow> unit result \<times> feedback_aggregator" where
  "mark_expanded nrm source_name h a = (case require_host nrm h of
     Inl e \<Rightarrow> (Inl e, a)
   | Inr k \<Rightarrow> (Inr (), a\<lparr>fba_expanded_hosts := insert (source_name, k) (fba_expanded_hosts a)\<rparr>))"

definition expanded_host_count :: "feedback_aggregator \<Rightarrow> int" where
  "expanded_host_count a = int (card (fba_expanded_hosts a))"

section \<open>Crawl budgets\<close>

text \<open>The settings and collaborators of \<open>HostBudgetTracker\<close>; the state is the aggregator.\<close>

record url_filter_settings =
  uf_allow_subdomains_of_seed_hosts :: bool
  uf_intelligent_domain_expansion_enabled :: bool
  uf_max_expanded_hosts :: int
  uf_expanded_host_min_quality :: real
  uf_expanded_host_topic_keywords :: "string list"

record budget_config =
  bud_settings :: scheduling_settings
  bud_feedback_settings :: discovery_feedback_settings
  bud_url_filter :: url_filter_settings
  bud_seed_hosts :: "string set"
  bud_extract :: "string \<Rightarrow> host"

definition extract_seed_hosts :: "(host \<Rightarrow> host) \<Rightarrow> (string \<Rightarrow> host) \<Rightarrow> string list \<Rightarrow> string set" where
  "extract_seed_hosts nrm extract seed_urls = set (List.map_filter (\<lambda>u. nrm (extract u)) seed_urls)"

fun has_infix :: "string \<Rightarrow> string \<Rightarrow> bool" where
  "has_infix [] p = (p = [])"
| "has_infix (c # s) p = (starts_with (c # s) p \<or> has_infix s p)"

definition is_seed_host :: "(host \<Rightarrow> host) \<Rightarrow> budget_config \<Rightarrow> host \<Rightarrow> bool" where
  "is_seed_host nrm c h = (case nrm h of None \<Rightarrow> False
     | Some k \<Rightarrow> k \<in> bud_seed_hosts c \<or>
         uf_allow_subdomains_of_seed_hosts (bud_url_filter c) \<and>
         (\<exists>s\<in>bud_seed_hosts c. ends_with k (CHR ''.'' # s)))"

definition host_budget_exhausted :: "(host \<Rightarrow> host) \<Rightarrow> budget_config \<Rightarrow> feedback_aggregator \<Rightarrow> host \<Rightarrow> bool" where
  "host_budget_exhausted nrm c a h =
    (if \<not> cfg_dynamic_crawl_budget_enabled (bud_settings c) then False
     else (case feedback_get nrm a h of None \<Rightarrow> False
       | Some f \<Rightarrow> if budgeted_tasks f < cfg_crawl_budget_window (bud_settings c) then False
           else info_gain_ewma f < cfg_crawl_budget_low_info_threshold (bud_settings c)))"

definition host_quality :: "(host \<Rightarrow> host) \<Rightarrow> budget_config \<Rightarrow> feedback_aggregator \<Rightarrow> host \<Rightarrow> real" where
  "host_quality nrm c a h = (case feedback_get nrm a h of
     None \<Rightarrow> fb_default_host_quality (bud_feedback_settings c)
   | Some f \<Rightarrow> real_score (quality_ewma f) (fb_default_host_quality (bud_feedback_settings c)))"

definition host_info_gain :: "(host \<Rightarrow> host) \<Rightarrow> budget_config \<Rightarrow> feedback_aggregator \<Rightarrow> host \<Rightarrow> real" where
  "host_info_gain nrm c a h = (case feedback_get nrm a h of
     None \<Rightarrow> fb_default_info_gain (bud_feedback_settings c)
   | Some f \<Rightarrow> real_score (info_gain_ewma f) (fb_default_info_gain (bud_feedback_settings c)))"

definition ignored_feedback_reason :: "string \<Rightarrow> string option" where
  "ignored_feedback_reason outcome = (let normalized_outcome = py_lower (py_strip outcome) in
     if normalized_outcome \<in> {''cancelled'', ''interrupted''} then Some normalized_outcome else None)"

definition topic_score :: "budget_config \<Rightarrow> string \<Rightarrow> string option \<Rightarrow> real" where
  "topic_score c url category =
    (let keywords = uf_expanded_host_topic_keywords (bud_url_filter c) in
     if \<exists>k\<in>set keywords. has_infix (py_lower (or_else category [])) k then 1
     else if \<exists>k\<in>set keywords. has_infix (py_lower url) k then 8 / 10
     else 0)"

definition should_expand_host ::
  "(host \<Rightarrow> host) \<Rightarrow> budget_config \<Rightarrow> feedback_aggregator \<Rightarrow> crawl_task \<Rightarrow> host \<Rightarrow> real \<Rightarrow> real \<Rightarrow> bool" where
  "should_expand_host nrm c a t h quality topic \<longleftrightarrow>
     uf_intelligent_domain_expansion_enabled (bud_url_filter c) \<and> \<not> is_seed_host nrm c h \<and>
     \<not> is_expanded_host nrm a (task_source_name t) h \<and>
     expanded_host_count a < uf_max_expanded_hosts (bud_url_filter c) \<and>
     uf_expanded_host_min_quality (bud_url_filter c) \<le> quality \<and> 0 < topic"

definition store_feedback :: "string \<Rightarrow> host_feedback \<Rightarrow> feedback_aggregator \<Rightarrow> feedback_aggregator" where
  "store_feedback k f a = a\<lparr>fba_feedback := AList.update k f (fba_feedback a)\<rparr>"

definition record_host_quality ::
  "(host \<Rightarrow> host) \<Rightarrow> budget_config \<Rightarrow> crawl_task \<Rightarrow> string \<Rightarrow> py_dict option \<Rightarrow> string \<Rightarrow> host_feedback \<Rightarrow> real \<Rightarrow>
    feedback_aggregator \<Rightarrow> unit result \<times> feedback_aggregator" where
  "record_host_quality nrm c t outcome flds k f info_gain a =
    (let s = bud_feedback_settings c;
         topic = topic_score c (task_url t) (field_as_str flds ''category'');
         relevance_value = (case field_as_float flds ''relevance_score'' of
           None \<Rightarrow> default_relevance_for_outcome outcome | Some r \<Rightarrow> r);
         relevance = real_score relevance_value (25 / 100);
         blended = blend_quality s relevance info_gain topic;
         quality = ewma s (quality_ewma f) blended;
         a = store_feedback k (f\<lparr>quality_ewma := quality\<rparr>) a
     in if should_expand_host nrm c a t (Some k) quality topic
        then mark_expanded nrm (task_source_name t) (Some k) a else (Inr (), a))"

definition register_task_outcome ::
  "(host \<Rightarrow> host) \<Rightarrow> budget_config \<Rightarrow> crawl_task \<Rightarrow> string \<Rightarrow> py_dict option \<Rightarrow>
    feedback_aggregator \<Rightarrow> unit result \<times> feedback_aggregator" where
  "register_task_outcome nrm c t outcome flds a =
    (if \<not> cfg_allow_scheduler_feedback (bud_settings c) then (Inr (), a)
     else (case host_for_url nrm (bud_extract c) (task_url t) of
       None \<Rightarrow> (Inr (), a)
     | Some h \<Rightarrow> if h = [] then (Inr (), a)
        else (case get_or_create nrm (Some h) a of
          (Inl e, a) \<Rightarrow> (Inl e, a)
        | (Inr (k, f), a) \<Rightarrow>
           (let f = f\<lparr>observed_tasks := observed_tasks f + 1\<rparr> in
            if ignored_feedback_reason outcome \<noteq> None then (Inr (), store_feedback k f a)
            else (let info_gain = calculate_info_gain (bud_feedback_settings c) outcome flds;
                      f = f\<lparr>budgeted_tasks := budgeted_tasks f + 1,
                        info_gain_ewma := ewma (bud_feedback_settings c) (info_gain_ewma f) info_gain\<rparr>;
                      a = store_feedback k f a
                  in if cfg_record_host_quality (bud_settings c)
                     then record_host_quality nrm c t outcome flds k f info_gain a
                     else (Inr (), a))))))"

section \<open>Lemmas on advice\<close>

inductive advice_reachable :: "(host \<Rightarrow> host) \<Rightarrow> real \<Rightarrow> advice_tracker \<Rightarrow> bool" for nrm where
  advice_init: "adv_entries t = [] \<Longrightarrow> 0 \<le> adv_max_hosts t \<Longrightarrow> advice_reachable nrm now t"
| advice_remember_step: "advice_reachable nrm now t \<Longrightarrow> now \<le> now' \<Longrightarrow>
    advice_reachable nrm now' (snd (advice_remember nrm now' h advice t))"
| advice_prune_step: "advice_reachable nrm now t \<Longrightarrow> now \<le> now' \<Longrightarrow>
    advice_reachable nrm now' (snd (advice_prune now' t))"
| advice_clear_step: "advice_reachable nrm now t \<Longrightarrow> advice_reachable nrm now (advice_clear t)"

definition touch_times :: "(string \<times> advice_entry) list \<Rightarrow> real list" where
  "touch_times es = map (\<lambda>x. ent_touched_at (snd x)) es"

definition touched_ok :: "real \<Rightarrow> (string \<times> advice_entry) list \<Rightarrow> bool" where
  "touched_ok now es \<longleftrightarrow> distinct (map fst es) \<and> sorted (touch_times es) \<and> (\<forall>x\<in>set (touch_times es). x \<le> now)"

definition advice_ok :: "real \<Rightarrow> advice_tracker \<Rightarrow> bool" where
  "advice_ok now t \<longleftrightarrow> touched_ok now (adv_entries t) \<and> 0 \<le> adv_max_hosts t \<and>
     int (length (adv_entries t)) \<le> adv_max_hosts t"

lemma touched_ok_drop: "touched_ok now es \<Longrightarrow> touched_ok now (drop n es)"
  by (auto simp: touched_ok_def touch_times_def drop_map [symmetric] sorted_wrt_drop dest!: in_set_dropD)

lemma touched_ok_append:
  assumes "touched_ok now es"
  shows "touched_ok now (AList.delete k es @ [(k, \<lparr>ent_advice = a, ent_touched_at = now\<rparr>)])"
proof -
  have "AList.delete k es = filter (\<lambda>x. fst x \<noteq> k) es"
    by (simp add: AList.delete_eq split_def eq_commute [of k])
  with assms show ?thesis
    by (auto simp: touched_ok_def touch_times_def sorted_append sorted_filter distinct_map_filter)
qed

lemma drop_expired_suffix: "\<exists>n. drop_expired b es = drop n es"
proof (induction b es rule: drop_expired.induct)
  case (2 b h e es)
  then obtain n where "\<not> b < ent_touched_at e \<Longrightarrow> drop_expired b es = drop (Suc n) ((h, e) # es)"
    by auto
  then show ?case
    by (cases "b < ent_touched_at e") (auto intro: exI [of _ 0] exI [of _ "Suc n"])
qed simp

lemma drop_expired_live:
  "sorted (touch_times es) \<Longrightarrow> x \<in> set (touch_times (drop_expired b es)) \<Longrightarrow> b < x"
  by (induction b es rule: drop_expired.induct) (auto simp: touch_times_def split: if_splits)

lemma prune_suffix: "\<exists>n. snd (advice_prune now t) = t\<lparr>adv_entries := drop n (adv_entries t)\<rparr>"
proof (cases "adv_ttl_seconds t")
  case (Some ttl)
  obtain n where "drop_expired (now - ttl) (adv_entries t) = drop n (adv_entries t)"
    using drop_expired_suffix by blast
  then show ?thesis
    using Some by (auto simp: advice_prune_def Let_def)
qed (auto simp: advice_prune_def Let_def)

lemma advice_prune_live:
  assumes "touched_ok n (adv_entries t)" and "adv_ttl_seconds t = Some ttl"
    and "e \<in> set (adv_entries (snd (advice_prune now t)))"
  shows "now - ttl < ent_touched_at (snd e)"
  using assms drop_expired_live [of "adv_entries t" "ent_touched_at (snd e)" "now - ttl"]
  by (auto simp: advice_prune_def Let_def touched_ok_def touch_times_def dest!: in_set_dropD)

lemma advice_ok_later: "advice_ok now t \<Longrightarrow> now \<le> now' \<Longrightarrow> advice_ok now' t"
  by (auto simp: advice_ok_def touched_ok_def)

lemma advice_ok_prune:
  assumes "advice_ok now t"
  shows "advice_ok now (snd (advice_prune now' t))"
proof -
  obtain n where n: "snd (advice_prune now' t) = t\<lparr>adv_entries := drop n (adv_entries t)\<rparr>"
    using prune_suffix by blast
  show ?thesis
    using assms touched_ok_drop [of now "adv_entries t" n] unfolding n by (auto simp: advice_ok_def)
qed

lemma advice_remember_eq:
  assumes "adv_max_hosts t \<noteq> 0" and "nrm h = Some k"
  shows "advice_remember nrm now h a t = (Inr (), t\<lparr>adv_entries :=
    (let es = AList.delete k (adv_entries (snd (advice_prune now t))) @ [(k, \<lparr>ent_advice = a, ent_touched_at = now\<rparr>)]
     in drop (over_capacity (adv_max_hosts t) es) es)\<rparr>)"
proof -
  obtain n where n: "snd (advice_prune now t) = t\<lparr>adv_entries := drop n (adv_entries t)\<rparr>"
    using prune_suffix by blast
  show ?thesis
    using assms by (simp add: advice_remember_def require_host_def n Let_def)
qed

lemma advice_remember_skip:
  "adv_max_hosts t = 0 \<or> nrm h = None \<Longrightarrow> snd (advice_remember nrm now h a t) = t"
  by (auto simp: advice_remember_def require_host_def)

lemma advice_ok_remember:
  assumes "advice_ok now t"
  shows "advice_ok now (snd (advice_remember nrm now h a t))"
proof (cases "adv_max_hosts t = 0 \<or> nrm h = None")
  case False
  then obtain k where k: "nrm h = Some k" and m: "adv_max_hosts t \<noteq> 0" by auto
  have "touched_ok now (adv_entries (snd (advice_prune now t)))"
    using advice_ok_prune [OF assms] by (simp add: advice_ok_def)
  then show ?thesis
    using assms touched_ok_drop [OF touched_ok_append]
    by (auto simp: advice_remember_eq [OF m, of nrm, OF k] advice_ok_def Let_def over_capacity_def)
qed (use assms advice_remember_skip [of t nrm h now a] in simp)

lemma advice_reachable_ok: "advice_reachable nrm now t \<Longrightarrow> advice_ok now t"
proof (induction rule: advice_reachable.induct)
  case (advice_remember_step now t now' h advice)
  then show ?case by (blast intro: advice_ok_remember advice_ok_later)
next
  case (advice_prune_step now t now')
  then show ?case by (blast intro: advice_ok_prune advice_ok_later)
qed (simp_all add: advice_ok_def advice_clear_def touched_ok_def touch_times_def)

section \<open>Lemmas on byte budgets\<close>

type_synonym download = "host \<times> media_kind \<times> int"

fun record_downloads :: "(host \<Rightarrow> host) \<Rightarrow> download list \<Rightarrow> media_byte_budget \<Rightarrow> media_byte_budget" where
  "record_downloads nrm [] b = b"
| "record_downloads nrm ((h, kind, n) # entries) b = record_downloads nrm entries (snd (record_download nrm h kind n b))"

definition downloaded :: "(host \<Rightarrow> host) \<Rightarrow> (media_kind \<Rightarrow> bool) \<Rightarrow> string \<Rightarrow> download list \<Rightarrow> int" where
  "downloaded nrm P k entries = (\<Sum>(h, kind, n)\<leftarrow>entries. if nrm h = Some k \<and> P kind \<and> 0 < n then n else 0)"

definition empty_byte_budget :: "int \<Rightarrow> (string \<times> int) list \<Rightarrow> media_byte_budget" where
  "empty_byte_budget cap caps = \<lparr>max_bytes_per_host = cap, max_bytes_per_host_by_kind = caps, host_totals = [],
     host_kind_totals = []\<rparr>"

lemma record_download_caps [simp]:
  "max_bytes_per_host (snd (record_download nrm h kind n b)) = max_bytes_per_host b"
  "max_bytes_per_host_by_kind (snd (record_download nrm h kind n b)) = max_bytes_per_host_by_kind b"
  by (auto simp: record_download_def Let_def split: sum.split)

lemma record_download_total:
  "get_default (host_totals (snd (record_download nrm h kind n b))) k 0 =
    get_default (host_totals b) k 0 + (if nrm h = Some k \<and> 0 < n then n else 0)"
  by (auto simp: record_download_def require_host_def Let_def split: option.split)

lemma record_download_kind_total:
  "kind' \<in> media_kinds \<Longrightarrow> get_default (host_kind_totals (snd (record_download nrm h kind n b))) (k, kind') 0 =
    get_default (host_kind_totals b) (k, kind') 0 + (if nrm h = Some k \<and> kind = kind' \<and> 0 < n then n else 0)"
  by (auto simp: record_download_def require_host_def Let_def split: option.split)

lemma record_downloads_caps [simp]:
  "max_bytes_per_host (record_downloads nrm entries b) = max_bytes_per_host b"
  "max_bytes_per_host_by_kind (record_downloads nrm entries b) = max_bytes_per_host_by_kind b"
  by (induction nrm entries b rule: record_downloads.induct) auto

lemma record_downloads_total:
  "get_default (host_totals (record_downloads nrm entries b)) k 0 =
    get_default (host_totals b) k 0 + downloaded nrm (\<lambda>_. True) k entries"
  by (induction nrm entries b rule: record_downloads.induct) (auto simp: downloaded_def record_download_total)

lemma record_downloads_kind_total:
  "kind \<in> media_kinds \<Longrightarrow> get_default (host_kind_totals (record_downloads nrm entries b)) (k, kind) 0 =
    get_default (host_kind_totals b) (k, kind) 0 + downloaded nrm (\<lambda>x. x = kind) k entries"
  by (induction nrm entries b rule: record_downloads.induct) (auto simp: downloaded_def record_download_kind_total)

section \<open>Lemmas on feedback\<close>

definition feedback_ok :: "host_feedback \<Rightarrow> bool" where
  "feedback_ok f \<longleftrightarrow> 0 \<le> budgeted_tasks f \<and> budgeted_tasks f \<le> observed_tasks f \<and>
     unit_interval (info_gain_ewma f) \<and> unit_interval (quality_ewma f)"

definition budget_inv :: "(host \<Rightarrow> host) \<Rightarrow> budget_config \<Rightarrow> feedback_aggregator \<Rightarrow> bool" where
  "budget_inv nrm c a \<longleftrightarrow>
     opt_at_least 1 (fba_max_hosts a) \<and> unit_interval (fba_default_info_gain a) \<and>
     unit_interval (fba_default_host_quality a) \<and>
     distinct (map fst (fba_feedback a)) \<and>
     (case fba_max_hosts a of None \<Rightarrow> True | Some m \<Rightarrow> int (length (fba_feedback a)) \<le> m) \<and>
     (\<forall>(k, f)\<in>set (fba_feedback a). nrm (Some k) = Some k \<and> feedback_ok f) \<and>
     finite (fba_expanded_hosts a) \<and>
     (fba_expanded_hosts a = {} \<or> expanded_host_count a \<le> uf_max_expanded_hosts (bud_url_filter c)) \<and>
     (\<forall>(source, k)\<in>fba_expanded_hosts a. nrm (Some k) = Some k \<and> \<not> is_seed_host nrm c (Some k))"

lemma length_delete_mem:
  "distinct (map fst m) \<Longrightarrow> map_of m k = Some f \<Longrightarrow> Suc (length (AList.delete k m)) = length m"
proof (induction m)
  case (Cons x m)
  then show ?case
    by (cases "fst x = k") (auto simp: delete_id split: if_splits)
qed simp

lemma set_delete_alist: "set (AList.delete k m) = {x \<in> set m. fst x \<noteq> k}"
  by (auto simp: AList.delete_eq)

lemma get_or_create_ok:
  assumes "budget_inv nrm c a" and "nrm (Some h) = Some h"
  obtains f a' where "get_or_create nrm (Some h) a = (Inr (h, f), a')" and "budget_inv nrm c a'"
    and "map_of (fba_feedback a') h = Some f" and "feedback_ok f"
proof (cases "map_of (fba_feedback a) h")
  case (Some f)
  let ?a = "a\<lparr>fba_feedback := AList.delete h (fba_feedback a) @ [(h, f)]\<rparr>"
  have "feedback_ok f"
    using assms map_of_SomeD [OF Some] by (auto simp: budget_inv_def)
  moreover have "budget_inv nrm c ?a"
    using assms length_delete_mem [OF _ Some] \<open>feedback_ok f\<close>
    by (auto simp: budget_inv_def distinct_delete set_delete_alist expanded_host_count_def is_seed_host_def
        split: option.splits)
  moreover have "get_or_create nrm (Some h) a = (Inr (h, f), ?a)"
    using assms Some by (simp add: get_or_create_def require_host_def)
  moreover have "map_of (fba_feedback ?a) h = Some f"
    by (simp add: map_add_def delete_conv')
  ultimately show ?thesis using that by blast
next
  case None
  define full where "full = (case fba_max_hosts a of None \<Rightarrow> False | Some m \<Rightarrow> m \<le> int (length (fba_feedback a)))"
  define kept where "kept = (if full then tl (fba_feedback a) else fba_feedback a)"
  let ?a = "a\<lparr>fba_feedback := kept @ [(h, fresh_feedback a)]\<rparr>"
  have nonempty: "\<not> (full \<and> fba_feedback a = [])"
    using assms by (auto simp: full_def budget_inv_def opt_at_least_def split: option.splits)
  have sub: "set kept \<subseteq> set (fba_feedback a)"
    by (cases "fba_feedback a") (auto simp: kept_def)
  have dis: "distinct (map fst kept)"
    using assms by (auto simp: kept_def budget_inv_def map_tl distinct_tl)
  have new: "h \<notin> fst ` set kept"
    using None sub by (auto simp: map_of_eq_None_iff)
  have len: "case fba_max_hosts a of None \<Rightarrow> True | Some m \<Rightarrow> int (length kept) + 1 \<le> m"
    using assms nonempty
    by (cases "fba_feedback a") (auto simp: kept_def full_def budget_inv_def split: option.splits)
  have "feedback_ok (fresh_feedback a)"
    using assms by (simp add: feedback_ok_def fresh_feedback_def budget_inv_def)
  moreover have "budget_inv nrm c ?a"
    using assms sub dis new len calculation
    by (auto simp: budget_inv_def expanded_host_count_def is_seed_host_def split: option.splits)
  moreover have "get_or_create nrm (Some h) a = (Inr (h, fresh_feedback a), ?a)"
    using assms None nonempty unfolding kept_def full_def by (simp add: get_or_create_def require_host_def Let_def)
  moreover have "map_of (fba_feedback ?a) h = Some (fresh_feedback a)"
    using new by (simp add: map_add_def map_of_eq_None_iff [THEN iffD2] split: option.split)
  ultimately show ?thesis using that by blast
qed

lemma store_feedback_ok:
  assumes "budget_inv nrm c a" and "map_of (fba_feedback a) k = Some g" and "feedback_ok f"
  shows "budget_inv nrm c (store_feedback k f a) \<and> map_of (fba_feedback (store_feedback k f a)) k = Some f"
proof -
  have "length (AList.update k f m) = length m" if "map_of m k = Some g" for m :: "(string \<times> host_feedback) list"
    using that by (induction m) (auto split: if_splits)
  moreover have "nrm (Some k) = Some k"
    using assms map_of_SomeD by (fastforce simp: budget_inv_def)
  ultimately show ?thesis
    using assms set_update_subset [of k f "fba_feedback a"]
    by (auto simp: budget_inv_def store_feedback_def distinct_update update_conv' expanded_host_count_def
        is_seed_host_def split: option.splits)
qed

lemma mark_expanded_ok:
  assumes "budget_inv nrm c a" and "nrm (Some h) = Some h" and "\<not> is_seed_host nrm c (Some h)"
    and "expanded_host_count a < uf_max_expanded_hosts (bud_url_filter c)"
  shows "fst (mark_expanded nrm source (Some h) a) = Inr () \<and> budget_inv nrm c (snd (mark_expanded nrm source (Some h) a))"
  using assms by (auto simp: mark_expanded_def require_host_def budget_inv_def expanded_host_count_def
      card_insert_if split: option.splits)

lemma record_host_quality_ok:
  assumes "budget_inv nrm c a" and "map_of (fba_feedback a) k = Some f" and "nrm (Some k) = Some k" and "feedback_ok f"
  shows "fst (record_host_quality nrm c t outcome flds k f g a) = Inr () \<and>
    budget_inv nrm c (snd (record_host_quality nrm c t outcome flds k f g a))"
proof -
  have inv: "budget_inv nrm c (store_feedback k (f\<lparr>quality_ewma := ewma s p x\<rparr>) a)" for s p x
    using assms store_feedback_ok [OF assms(1,2), of "f\<lparr>quality_ewma := ewma s p x\<rparr>"]
    by (simp add: feedback_ok_def)
  show ?thesis
    unfolding record_host_quality_def Let_def
    using inv mark_expanded_ok [OF inv assms(3)]
    by (auto simp: should_expand_host_def)
qed

lemma register_task_outcome_ok:
  assumes "host_canonical nrm" and "budget_inv nrm c a"
  shows "fst (register_task_outcome nrm c t outcome flds a) = Inr () \<and>
    budget_inv nrm c (snd (register_task_outcome nrm c t outcome flds a))"
proof (cases "cfg_allow_scheduler_feedback (bud_settings c) \<and> host_for_url nrm (bud_extract c) (task_url t) \<noteq> None \<and>
    host_for_url nrm (bud_extract c) (task_url t) \<noteq> Some []")
  case True
  then obtain h where h: "host_for_url nrm (bud_extract c) (task_url t) = Some h" "h \<noteq> []" by auto
  then have n: "nrm (Some h) = Some h"
    using host_canonical.nrm_nrm [OF assms(1), of "bud_extract c (task_url t)"] by (simp add: host_for_url_def)
  obtain f a' where g: "get_or_create nrm (Some h) a = (Inr (h, f), a')" and inv: "budget_inv nrm c a'"
    and m: "map_of (fba_feedback a') h = Some f" and f: "feedback_ok f"
    using get_or_create_ok [OF assms(2) n] by blast
  have store: "budget_inv nrm c (store_feedback h f' a') \<and> map_of (fba_feedback (store_feedback h f' a')) h = Some f'"
    if "feedback_ok f'" for f'
    using store_feedback_ok [OF inv m that] .
  define f1 where "f1 = f\<lparr>observed_tasks := observed_tasks f + 1\<rparr>"
  define gain where "gain = calculate_info_gain (bud_feedback_settings c) outcome flds"
  define f2 where "f2 = f1\<lparr>budgeted_tasks := budgeted_tasks f1 + 1,
    info_gain_ewma := ewma (bud_feedback_settings c) (info_gain_ewma f1) gain\<rparr>"
  have ok: "feedback_ok f1" "feedback_ok f2"
    using f by (auto simp: feedback_ok_def f1_def f2_def)
  have quality: "fst (record_host_quality nrm c t outcome flds h f2 gain (store_feedback h f2 a')) = Inr () \<and>
      budget_inv nrm c (snd (record_host_quality nrm c t outcome flds h f2 gain (store_feedback h f2 a')))"
    using store [OF ok(2)] record_host_quality_ok [where nrm = nrm and k = h] n ok(2) by blast
  have "register_task_outcome nrm c t outcome flds a =
    (if ignored_feedback_reason outcome \<noteq> None then (Inr (), store_feedback h f1 a')
     else if cfg_record_host_quality (bud_settings c)
       then record_host_quality nrm c t outcome flds h f2 gain (store_feedback h f2 a')
     else (Inr (), store_feedback h f2 a'))"
    using True h g unfolding f2_def f1_def gain_def by (simp add: register_task_outcome_def Let_def)
  then show ?thesis
    using quality store [OF ok(1)] store [OF ok(2)] by simp
qed (use assms(2) in \<open>auto simp: register_task_outcome_def split: option.split\<close>)

text \<open>A history of outcomes, from the empty tracker.\<close>

type_synonym outcome_event = "crawl_task \<times> string \<times> py_dict option"

fun register_all :: "(host \<Rightarrow> host) \<Rightarrow> budget_config \<Rightarrow> outcome_event list \<Rightarrow> feedback_aggregator \<Rightarrow> feedback_aggregator" where
  "register_all nrm c [] a = a"
| "register_all nrm c ((t, outcome, flds) # es) a =
    register_all nrm c es (snd (register_task_outcome nrm c t outcome flds a))"

definition empty_aggregator :: "int option \<Rightarrow> discovery_feedback_settings \<Rightarrow> feedback_aggregator" where
  "empty_aggregator m s = \<lparr>fba_max_hosts = m, fba_default_info_gain = fb_default_info_gain s,
     fba_default_host_quality = fb_default_host_quality s, fba_feedback = [], fba_expanded_hosts = {}\<rparr>"

lemma register_all_ok:
  "host_canonical nrm \<Longrightarrow> budget_inv nrm c a \<Longrightarrow> budget_inv nrm c (register_all nrm c es a)"
  by (induction nrm c es a rule: register_all.induct) (auto simp: register_task_outcome_ok)

lemma register_max_hosts:
  "fba_max_hosts (snd (register_task_outcome nrm c t outcome flds a)) = fba_max_hosts a"
  by (auto simp: register_task_outcome_def get_or_create_def record_host_quality_def mark_expanded_def
      store_feedback_def Let_def split: option.splits sum.splits prod.splits if_splits)

lemma register_all_max_hosts: "fba_max_hosts (register_all nrm c es a) = fba_max_hosts a"
  by (induction nrm c es a rule: register_all.induct) (auto simp: register_max_hosts)

lemma empty_aggregator_ok:
  "feedback_in_range s \<Longrightarrow> opt_at_least 1 m \<Longrightarrow> budget_inv nrm c (empty_aggregator m s)"
  by (auto simp: budget_inv_def empty_aggregator_def feedback_in_range_def opt_at_least_def split: option.splits)

section \<open>Properties\<close>

text \<open>However advice arrives, the tracker keeps at most its capacity of hosts, one entry per
  host, in the order of their times. Remembering advice for a valid host makes exactly this
  advice the one that is found, and leaves no entry that was already expired, whatever the
  host; a host that cannot be normalised changes nothing.\<close>

theorem advice_remember_bounded:
  assumes "advice_reachable nrm before t" and "before \<le> now" and "0 < adv_max_hosts t"
    and "\<forall>ttl. adv_ttl_seconds t = Some ttl \<longrightarrow> 0 < ttl"
  shows "(let t' = snd (advice_remember nrm now h advice t) in
    distinct (map fst (adv_entries t')) \<and> int (length (adv_entries t')) \<le> adv_max_hosts t \<and>
    sorted (touch_times (adv_entries t')) \<and>
    (nrm h = None \<longrightarrow> t' = t) \<and>
    (nrm h \<noteq> None \<longrightarrow> advice_get nrm t' h = Some \<lparr>ent_advice = advice, ent_touched_at = now\<rparr> \<and>
      (\<forall>e\<in>set (adv_entries t'). \<forall>ttl. adv_ttl_seconds t = Some ttl \<longrightarrow> now < ent_touched_at (snd e) + ttl)))"
proof -
  have ok: "advice_ok now t"
    using advice_ok_later [OF advice_reachable_ok [OF assms(1)] assms(2)] .
  have ok': "advice_ok now (snd (advice_remember nrm now h advice t))"
    using advice_ok_remember [OF ok] .
  have max': "adv_max_hosts (snd (advice_remember nrm now h advice t)) = adv_max_hosts t"
    using assms(3) by (cases "nrm h") (simp_all add: advice_remember_skip advice_remember_eq)
  have found: "advice_get nrm (snd (advice_remember nrm now h advice t)) h = Some \<lparr>ent_advice = advice, ent_touched_at = now\<rparr> \<and>
      (\<forall>e\<in>set (adv_entries (snd (advice_remember nrm now h advice t))). \<forall>ttl. adv_ttl_seconds t = Some ttl \<longrightarrow>
        now < ent_touched_at (snd e) + ttl)" if k: "nrm h = Some k" for k
  proof -
    define old where "old = adv_entries (snd (advice_prune now t))"
    define new where "new = (k, \<lparr>ent_advice = advice, ent_touched_at = now\<rparr>)"
    define n where "n = over_capacity (adv_max_hosts t) (AList.delete k old @ [new])"
    have n: "n \<le> length (AList.delete k old)"
      using assms(3) by (simp add: n_def over_capacity_def)
    have t': "adv_entries (snd (advice_remember nrm now h advice t)) = drop n (AList.delete k old) @ [new]"
      using assms(3) n k by (simp add: advice_remember_eq Let_def n_def old_def new_def)
    have "k \<notin> fst ` set (drop n (AList.delete k old))"
      by (auto dest!: in_set_dropD simp: set_delete_alist)
    then have "advice_get nrm (snd (advice_remember nrm now h advice t)) h = Some (snd new)"
      using k by (simp add: advice_get_def t' new_def map_add_def map_of_eq_None_iff [THEN iffD2])
    moreover have "now < ent_touched_at (snd e) + ttl"
      if "e \<in> set (drop n (AList.delete k old) @ [new])" and ttl: "adv_ttl_seconds t = Some ttl" for e ttl
    proof (cases "e = new")
      case False
      then have "e \<in> set old"
        using that by (auto dest!: in_set_dropD simp: set_delete_alist)
      then show ?thesis
        using advice_prune_live [OF _ ttl, of now e now] ok by (simp add: old_def advice_ok_def)
    qed (use assms(4) ttl in \<open>simp add: new_def\<close>)
    ultimately show ?thesis
      unfolding t' by (simp add: new_def)
  qed
  show ?thesis
    using ok' max' found advice_remember_skip [of t nrm h now advice]
    by (cases "nrm h") (auto simp: Let_def advice_ok_def touched_ok_def)
qed

definition sample_tracker :: advice_tracker where
  "sample_tracker = snd (advice_remember lower_host 5 (Some ''b'') no_advice
     (snd (advice_remember lower_host 1 (Some ''A'') no_advice
       \<lparr>adv_ttl_seconds = Some 10, adv_max_hosts = 2, adv_entries = []\<rparr>)))"

theorem advice_remember_bounded_witness:
  "advice_get lower_host (snd (advice_remember lower_host 12 (Some ''C'') no_advice sample_tracker)) (Some ''c'') =
     Some \<lparr>ent_advice = no_advice, ent_touched_at = 12\<rparr> \<and>
   map fst (adv_entries (snd (advice_remember lower_host 12 (Some ''C'') no_advice sample_tracker))) = [''b'', ''c'']"
proof -
  have "advice_reachable lower_host 5 sample_tracker"
    unfolding sample_tracker_def by (intro advice_remember_step [where now = 1] advice_remember_step [where now = 0 and now' = 1] advice_init) simp_all
  moreover have "0 < adv_max_hosts sample_tracker" "adv_ttl_seconds sample_tracker = Some 10"
    unfolding sample_tracker_def by code_simp+
  moreover have c: "lower_host (Some ''C'') \<noteq> None" "lower_host (Some ''C'') = lower_host (Some ''c'')"
    by code_simp+
  ultimately have "advice_get lower_host (snd (advice_remember lower_host 12 (Some ''C'') no_advice sample_tracker)) (Some ''C'') =
      Some \<lparr>ent_advice = no_advice, ent_touched_at = 12\<rparr>"
    using advice_remember_bounded [of lower_host 5 sample_tracker 12 "Some ''C''" no_advice] unfolding Let_def by force
  moreover have "map fst (adv_entries (snd (advice_remember lower_host 12 (Some ''C'') no_advice sample_tracker))) = [''b'', ''c'']"
    unfolding sample_tracker_def by code_simp
  ultimately show ?thesis
    unfolding advice_get_def c(2) by blast
qed

text \<open>The byte budget counts exactly: after any sequence of recorded downloads, a host is
  exhausted for a task if and only if the positive byte counts of the downloads whose host
  normalises to it reach the cap of the host, or the task is a media task, its kind has a
  positive cap and the downloads of that kind reach it; the reason names which.\<close>

theorem media_budget_counts_downloads:
  assumes "nrm h = Some k"
  shows "media_budget_exhausted nrm t h (record_downloads nrm entries (empty_byte_budget cap caps)) =
    Inr (if cap \<le> downloaded nrm (\<lambda>_. True) k entries then (True, Some ''host_media_byte_budget_exceeded'')
      else if task_kind t \<in> {IMAGE, AUDIO, DOCUMENT, VIDEO} \<and>
        (\<exists>lim>0. map_of caps (kind_value (task_kind t)) = Some lim \<and>
          lim \<le> downloaded nrm (\<lambda>x. x = task_kind t) k entries)
      then (True, Some (''host_'' @ kind_value (task_kind t) @ ''_byte_budget_exceeded''))
      else (False, None))"
proof -
  have "get_default (host_totals (empty_byte_budget cap caps)) k 0 = 0"
    and "get_default (host_kind_totals (empty_byte_budget cap caps)) (k, task_kind t) 0 = 0"
    and "max_bytes_per_host (empty_byte_budget cap caps) = cap"
    and "max_bytes_per_host_by_kind (empty_byte_budget cap caps) = caps"
    by (simp_all add: empty_byte_budget_def get_default_def)
  then have eq: "media_budget_exhausted nrm t h (record_downloads nrm entries (empty_byte_budget cap caps)) =
    Inr (if cap \<le> downloaded nrm (\<lambda>_. True) k entries then (True, Some ''host_media_byte_budget_exceeded'')
      else if task_kind t \<in> media_kinds \<and> (\<exists>lim>0. map_of caps (kind_value (task_kind t)) = Some lim \<and>
          lim \<le> downloaded nrm (\<lambda>x. x = task_kind t) k entries)
      then (True, Some (''host_'' @ kind_value (task_kind t) @ ''_byte_budget_exceeded''))
      else (False, None))"
    using assms record_downloads_kind_total [of "task_kind t" nrm entries "empty_byte_budget cap caps" k]
    by (cases "map_of caps (kind_value (task_kind t))"; cases "task_kind t \<in> media_kinds")
      (simp_all add: media_budget_exhausted_def require_host_def record_downloads_total)
  show ?thesis
    unfolding eq media_kinds_def ..
qed

theorem media_budget_counts_downloads_witness:
  "media_budget_exhausted lower_host (sample_page ''https://a/x'') (Some ''A'')
     (record_downloads lower_host [(Some ''a'', PAGE, 4), (Some ''A'', IMAGE, 6), (None, IMAGE, 9)] (empty_byte_budget 10 [])) =
   Inr (True, Some ''host_media_byte_budget_exceeded'')"
proof -
  have "lower_host (Some ''A'') = Some ''a''"
    by code_simp
  moreover have "10 \<le> downloaded lower_host (\<lambda>_. True) ''a'' [(Some ''a'', PAGE, 4), (Some ''A'', IMAGE, 6), (None, IMAGE, 9)]"
    by code_simp
  ultimately show ?thesis
    using media_budget_counts_downloads [where nrm = lower_host and h = "Some ''A''" and k = "''a''" and cap = 10]
    by (simp del: record_downloads.simps)
qed

text \<open>From an empty tracker with valid settings, registering any task outcomes never raises;
  the number of hosts with feedback stays within the configured maximum, every stored
  average is a score between 0 and 1, no host has more budgeted than observed tasks, and
  adaptive expansion admits at most the configured number of hosts, none of them a seed host.\<close>

theorem host_feedback_bounded:
  assumes "host_canonical nrm" and "feedback_in_range s" and "opt_at_least 1 m"
    and "a = register_all nrm c es (empty_aggregator m s)"
  shows "fst (register_task_outcome nrm c t outcome flds a) = Inr () \<and>
    (case m of None \<Rightarrow> True | Some cap \<Rightarrow> int (length (fba_feedback a)) \<le> cap) \<and>
    (\<forall>(k, f)\<in>set (fba_feedback a). nrm (Some k) = Some k \<and> unit_interval (info_gain_ewma f) \<and>
      unit_interval (quality_ewma f) \<and> budgeted_tasks f \<le> observed_tasks f) \<and>
    expanded_host_count a \<le> max 0 (uf_max_expanded_hosts (bud_url_filter c)) \<and>
    (\<forall>(source, k)\<in>fba_expanded_hosts a. \<not> is_seed_host nrm c (Some k))"
proof -
  have inv: "budget_inv nrm c a"
    unfolding assms(4) using register_all_ok [OF assms(1) empty_aggregator_ok [OF assms(2,3)]] .
  have "fba_max_hosts a = m"
    by (simp add: assms(4) register_all_max_hosts empty_aggregator_def)
  then show ?thesis
    using inv register_task_outcome_ok [OF assms(1) inv]
    by (auto simp: budget_inv_def feedback_ok_def expanded_host_count_def)
qed

definition sample_budget :: budget_config where
  "sample_budget = \<lparr>bud_settings = default_settings, bud_feedback_settings = default_feedback_settings,
     bud_url_filter = \<lparr>uf_allow_subdomains_of_seed_hosts = True, uf_intelligent_domain_expansion_enabled = True,
       uf_max_expanded_hosts = 1, uf_expanded_host_min_quality = 1 / 10, uf_expanded_host_topic_keywords = [''api'']\<rparr>,
     bud_seed_hosts = {''a''}, bud_extract = (\<lambda>u. Some (take 1 u))\<rparr>"

theorem host_feedback_bounded_witness:
  "expanded_host_count (register_all lower_host sample_budget
     [(sample_page ''b/api'', ''success'', None), (sample_page ''c/api'', ''success'', None)]
     (empty_aggregator (Some 5) default_feedback_settings)) \<le> max 0 1 \<and>
   fst (register_task_outcome lower_host sample_budget (sample_page ''a/'') ''cancelled'' None (register_all lower_host sample_budget
     [(sample_page ''b/api'', ''success'', None), (sample_page ''c/api'', ''success'', None)]
     (empty_aggregator (Some 5) default_feedback_settings))) = Inr ()"
proof -
  have "opt_at_least 1 (Some (5 :: int))"
    by (simp add: opt_at_least_def)
  moreover have "uf_max_expanded_hosts (bud_url_filter sample_budget) = 1"
    by (simp add: sample_budget_def)
  ultimately show ?thesis
    using host_feedback_bounded [OF lower_host_canonical default_feedback_in_range _ refl, of "Some 5" sample_budget]
    by (simp del: register_all.simps)
qed

end
