(* ===== verification/Source_Scope.thy ===== *)
theory Source_Scope imports
  Prelude
begin

text \<open>
  Source-bound host scopes, \<open>crawler/governance/source_scope/source_scope_registry.py\<close>: the
  normalisation in the constructors, the host tests and the fail-closed lookup. Hosts and
  names are strings; \<open>None\<close> for a host collection is the empty set.
\<close>

section \<open>Scopes\<close>

definition remove_final_dot :: "string \<Rightarrow> string" where
  "remove_final_dot s = (if s \<noteq> [] \<and> last s = CHR ''.'' then butlast s else s)"

definition normalize_source_name :: "string \<Rightarrow> string result" where
  "normalize_source_name v = (let source_name = py_lower (py_strip v) in
     if source_name = [] then Inl (ValueError ''source scope requires source_name'') else Inr source_name)"

definition scope_host :: "string \<Rightarrow> string" where
  "scope_host v = remove_final_dot (py_lower (py_strip v))"

fun normalize_host_list :: "string \<Rightarrow> string list \<Rightarrow> string list result" where
  "normalize_host_list field_name [] = Inr []"
| "normalize_host_list field_name (v # vs) =
    (if scope_host v = [] then Inl (ValueError (field_name @ '' contains an empty host''))
     else map_sum id (\<lambda>hs. scope_host v # hs) (normalize_host_list field_name vs))"

definition normalize_hosts :: "string \<Rightarrow> string list option \<Rightarrow> string set result" where
  "normalize_hosts field_name vs = (case vs of None \<Rightarrow> Inr {}
     | Some hs \<Rightarrow> map_sum id set (normalize_host_list field_name hs))"

record source_scope =
  scope_source_name :: string
  scope_page_hosts :: "string set"
  scope_asset_hosts :: "string set"
  scope_redirect_hosts :: "string set"
  scope_allow_subdomains :: bool

definition make_scope ::
  "string \<Rightarrow> string list option \<Rightarrow> string list option \<Rightarrow> string list option \<Rightarrow> bool \<Rightarrow> source_scope result" where
  "make_scope name page asset redirect allow_subdomains =
     and_then (normalize_source_name name) (\<lambda>n.
     and_then (normalize_hosts ''page_hosts'' page) (\<lambda>p.
     and_then (normalize_hosts ''asset_hosts'' asset) (\<lambda>a.
     and_then (normalize_hosts ''redirect_hosts'' redirect) (\<lambda>r.
       if p = {} \<and> a = {} then Inl (ValueError (''source scope '' @ repr_str n @ '' has no approved hosts''))
       else Inr \<lparr>scope_source_name = n, scope_page_hosts = p, scope_asset_hosts = a, scope_redirect_hosts = r,
         scope_allow_subdomains = allow_subdomains\<rparr>))))"

definition scope_matches :: "source_scope \<Rightarrow> string \<Rightarrow> string set \<Rightarrow> bool" where
  "scope_matches s h allowed_hosts = (let candidate = scope_host h in
     if candidate = [] then False
     else if candidate \<in> allowed_hosts then True
     else if \<not> scope_allow_subdomains s then False
     else (\<exists>allowed\<in>allowed_hosts. ends_with candidate (CHR ''.'' # allowed)))"

definition allows_page_host :: "source_scope \<Rightarrow> string \<Rightarrow> bool" where
  "allows_page_host s h = scope_matches s h (scope_page_hosts s)"

definition allows_asset_host :: "source_scope \<Rightarrow> string \<Rightarrow> bool" where
  "allows_asset_host s h = scope_matches s h (scope_asset_hosts s)"

definition allows_redirect_host :: "source_scope \<Rightarrow> string \<Rightarrow> bool" where
  "allows_redirect_host s h = scope_matches s h (scope_redirect_hosts s)"

section \<open>The registry\<close>

type_synonym scope_registry = "(string \<times> source_scope) list"

fun collect_scopes :: "source_scope list \<Rightarrow> scope_registry \<Rightarrow> scope_registry result" where
  "collect_scopes [] normalized = Inr normalized"
| "collect_scopes (s # ss) normalized =
    (if map_of normalized (scope_source_name s) \<noteq> None
     then Inl (ValueError (''duplicate source scope: '' @ repr_str (scope_source_name s)))
     else collect_scopes ss (AList.update (scope_source_name s) s normalized))"

definition make_registry :: "source_scope list \<Rightarrow> scope_registry result" where
  "make_registry scopes = and_then (collect_scopes scopes []) (\<lambda>normalized.
     if normalized = [] then Inl (ValueError ''source scope registry must not be empty'') else Inr normalized)"

definition source_names :: "scope_registry \<Rightarrow> string list" where
  "source_names r = sort (map fst r)"

definition require_scope :: "scope_registry \<Rightarrow> string \<Rightarrow> source_scope result" where
  "require_scope r source_name = and_then (normalize_source_name source_name) (\<lambda>n.
     case map_of r n of Some s \<Rightarrow> Inr s | None \<Rightarrow> Inl (ValueError (''Unknown source scope: '' @ repr_str n)))"

section \<open>Lemmas\<close>

lemma collect_scopes_map:
  "collect_scopes ss r = Inr r' \<Longrightarrow> \<forall>(k, s)\<in>set r. scope_source_name s = k \<Longrightarrow> distinct (map fst r) \<Longrightarrow>
    distinct (map fst r') \<and> (\<forall>(k, s)\<in>set r'. scope_source_name s = k) \<and> snd ` set r' = snd ` set r \<union> set ss"
proof (induction ss r rule: collect_scopes.induct)
  case (2 s ss r)
  then have new: "map_of r (scope_source_name s) = None"
    by (cases "map_of r (scope_source_name s)") (auto split: if_splits)
  then have "AList.update (scope_source_name s) s r = r @ [(scope_source_name s, s)]"
    by (induction r) (auto split: if_splits)
  moreover have "scope_source_name s \<notin> fst ` set r"
    using new by (simp add: map_of_eq_None_iff)
  ultimately show ?case
    using 2 new by (auto split: if_splits)
qed auto

lemma normalize_host_list_set:
  "normalize_host_list f vs = Inr hs \<Longrightarrow> set hs = scope_host ` set vs \<and> [] \<notin> set hs"
  by (induction f vs arbitrary: hs rule: normalize_host_list.induct)
    (auto split: if_splits simp: map_sum_def split: sum.splits)

lemma normalize_hosts_set:
  assumes "normalize_hosts f vs = Inr hs"
  shows "hs = scope_host ` set (case vs of None \<Rightarrow> [] | Some l \<Rightarrow> l) \<and> [] \<notin> hs"
proof (cases vs)
  case (Some l)
  then obtain xs where "normalize_host_list f l = Inr xs" and "hs = set xs"
    using assms by (auto simp: normalize_hosts_def map_sum_def split: sum.splits)
  then show ?thesis
    using Some normalize_host_list_set [of f l xs] by (metis option.simps(5))
qed (use assms in \<open>simp add: normalize_hosts_def\<close>)

section \<open>Properties\<close>

text \<open>The registry is a fail-closed map: every registered scope is found under its name in
  any case and with any surrounding white space, and whatever is found was registered
  under exactly the normalised name; every other name raises.\<close>

theorem scope_lookup_exact:
  assumes "make_registry scopes = Inr r"
  shows "require_scope r name = Inr s \<longleftrightarrow>
    s \<in> set scopes \<and> scope_source_name s = py_lower (py_strip name) \<and> scope_source_name s \<noteq> []"
proof -
  have r: "distinct (map fst r)" "\<forall>(k, s)\<in>set r. scope_source_name s = k" "snd ` set r = set scopes"
    using assms collect_scopes_map [of scopes "[]" r] by (auto simp: make_registry_def split: if_splits)
  have "(k, s) \<in> set r \<longleftrightarrow> s \<in> set scopes \<and> scope_source_name s = k" for k
    unfolding r(3) [symmetric] using r(2) by (force simp: image_iff)
  then have "map_of r k = Some s \<longleftrightarrow> s \<in> set scopes \<and> scope_source_name s = k" for k
    using r(1) by (simp add: map_of_eq_Some_iff)
  from this [of "py_lower (py_strip name)"] show ?thesis
    by (cases "map_of r (py_lower (py_strip name))")
      (auto simp: require_scope_def normalize_source_name_def Let_def)
qed

definition sample_scope :: source_scope where
  "sample_scope = \<lparr>scope_source_name = ''noaa'', scope_page_hosts = {''noaa.gov''}, scope_asset_hosts = {},
     scope_redirect_hosts = {}, scope_allow_subdomains = True\<rparr>"

theorem scope_lookup_exact_witness:
  "require_scope [(''noaa'', sample_scope)] '' NOAA '' = Inr sample_scope"
proof -
  have "make_registry [sample_scope] = Inr [(''noaa'', sample_scope)]"
    by (simp add: make_registry_def sample_scope_def)
  moreover have "py_lower (py_strip '' NOAA '') = ''noaa''"
    by code_simp
  ultimately show ?thesis
    using scope_lookup_exact [where scopes = "[sample_scope]" and r = "[(''noaa'', sample_scope)]" and name = "'' NOAA ''" and s = sample_scope]
    by (simp add: sample_scope_def)
qed

text \<open>A constructed scope admits a page host exactly when the host, in lower case, stripped
  and without a final dot, is one of the normalised page hosts it was given or, if
  subdomains are allowed, a proper subdomain of one; a blank host is never admitted.\<close>

theorem page_host_test_exact:
  assumes "make_scope name page asset redirect sub = Inr s"
  shows "allows_page_host s h \<longleftrightarrow> (\<exists>p\<in>set (case page of None \<Rightarrow> [] | Some l \<Rightarrow> l).
    scope_host h \<noteq> [] \<and> (scope_host h = scope_host p \<or> sub \<and> (\<exists>label. scope_host h = label @ ''.'' @ scope_host p)))"
proof -
  have hosts: "scope_page_hosts s = scope_host ` set (case page of None \<Rightarrow> [] | Some l \<Rightarrow> l)"
    and sub: "scope_allow_subdomains s = sub"
    using assms normalize_hosts_set by (force simp: make_scope_def split: if_splits)+
  have "ends_with u (CHR ''.'' # v) \<longleftrightarrow> (\<exists>label. u = label @ ''.'' @ v)" for u v
    unfolding ends_with_def starts_with_iff by (metis append_Cons append_Nil append_assoc rev_append rev_rev_ident rev.simps(2))
  then show ?thesis
    by (auto simp: allows_page_host_def scope_matches_def Let_def hosts sub)
qed

theorem page_host_test_exact_witness:
  "\<exists>s. make_scope ''NOAA'' (Some [''NOAA.gov.'']) None None True = Inr s \<and> allows_page_host s ''www.noaa.gov'' \<and>
    \<not> allows_page_host s ''evilnoaa.gov''"
proof -
  have e: "scope_host ''NOAA.gov.'' = ''noaa.gov''" "scope_host ''www.noaa.gov'' = ''www.'' @ ''noaa.gov''"
    "scope_host ''evilnoaa.gov'' = ''evilnoaa.gov''" "py_lower (py_strip ''NOAA'') = ''noaa''"
    by code_simp+
  define s where "s = \<lparr>scope_source_name = ''noaa'', scope_page_hosts = {''noaa.gov''}, scope_asset_hosts = {},
     scope_redirect_hosts = {}, scope_allow_subdomains = True\<rparr>"
  have s: "make_scope ''NOAA'' (Some [''NOAA.gov.'']) None None True = Inr s"
    by (simp add: make_scope_def normalize_source_name_def normalize_hosts_def e s_def)
  have evil: "\<not> (\<exists>label. ''evilnoaa.gov'' = label @ ''.'' @ ''noaa.gov'')"
    by (simp add: Cons_eq_append_conv)
  have www: "\<exists>label. ''www.'' @ ''noaa.gov'' = label @ ''.'' @ ''noaa.gov''"
    by (intro exI [of _ "''www''"]) simp
  have "allows_page_host s ''www.noaa.gov''"
    unfolding page_host_test_exact [OF s] using www by (simp add: e)
  moreover have "\<not> allows_page_host s ''evilnoaa.gov''"
    unfolding page_host_test_exact [OF s] using evil by (simp add: e)
  ultimately show ?thesis
    using s by blast
qed

end
