(* ===== verification/Run_Url_Feedback.thy ===== *)
theory Run_Url_Feedback imports
  Crawl_Task
begin

text \<open>
  Feedback of the current run about URLs, \<open>crawler/scheduling/completion/run_url_feedback.py\<close>.
  The URL parser of the standard library is an argument: \<open>split_url\<close> gives the host name, the
  percent-decoded path and the decoded query pairs of a URL, or \<open>None\<close> where \<open>urlsplit\<close>
  raises. What the code does with these parts is modelled.
\<close>

section \<open>Endpoint identities\<close>

record url_parts =
  up_hostname :: "string option"
  up_path :: string
  up_query_pairs :: "(string \<times> string) list"

type_synonym url_splitter = "string \<Rightarrow> url_parts option"

definition rstrip_char :: "char \<Rightarrow> string \<Rightarrow> string" where
  "rstrip_char c s = rev (dropWhile (\<lambda>x. x = c) (rev s))"

text \<open>\<open>while "//" in path: path = path.replace("//", "/")\<close>\<close>

fun collapse_slashes :: "string \<Rightarrow> string" where
  "collapse_slashes (a # b # s) = (if a = CHR ''/'' \<and> b = CHR ''/'' then collapse_slashes (b # s)
     else a # collapse_slashes (b # s))"
| "collapse_slashes s = s"

fun split_on :: "char \<Rightarrow> string \<Rightarrow> string list" where
  "split_on c [] = [[]]"
| "split_on c (x # s) = (if x = c then [] # split_on c s
     else (case split_on c s of [] \<Rightarrow> [[x]] | w # ws \<Rightarrow> (x # w) # ws))"

text \<open>The component stack of \<open>posixpath.normpath\<close>, innermost component first.\<close>

fun norm_components :: "bool \<Rightarrow> string list \<Rightarrow> string list \<Rightarrow> string list" where
  "norm_components absolute [] stack = rev stack"
| "norm_components absolute (w # ws) stack =
    (if w = [] \<or> w = ''.'' then norm_components absolute ws stack
     else if w \<noteq> ''..'' \<or> (\<not> absolute \<and> stack = []) \<or> (stack \<noteq> [] \<and> hd stack = ''..'')
     then norm_components absolute ws (w # stack)
     else norm_components absolute ws (tl stack))"

definition normpath :: "string \<Rightarrow> string" where
  "normpath path = (if path = [] then ''.''
     else (let absolute = starts_with path ''/'';
               joined = join_with ''/'' (norm_components absolute (split_on (CHR ''/'') path) []);
               result = (if absolute then CHR ''/'' # joined else joined)
           in if result = [] then ''.'' else result))"

definition endpoint_path :: "string \<Rightarrow> string" where
  "endpoint_path raw =
    (let path = map (\<lambda>c. if (of_char c :: nat) = 92 then CHR ''/'' else c) (if raw = [] then ''/'' else raw);
         n = normpath (collapse_slashes path);
         n = (if starts_with n ''/'' then n else CHR ''/'' # n);
         n = rstrip_char (CHR ''/'') n
     in if n = [] then ''/'' else n)"

definition forbidden_endpoint_identity :: "url_splitter \<Rightarrow> string \<Rightarrow> string" where
  "forbidden_endpoint_identity split_url url = (case split_url url of
     None \<Rightarrow> []
   | Some p \<Rightarrow>
      (let h = rstrip_char (CHR ''.'') (py_lower (or_else (up_hostname p) [])) in
       if h = [] then []
       else (let query_keys = sort (remdups (map fst (up_query_pairs p)));
                 query = (if query_keys = [] then [] else CHR ''?'' # join_with ''&'' query_keys)
             in h @ endpoint_path (up_path p) @ query)))"

section \<open>The registry\<close>

record run_url_feedback =
  not_modified_identities :: "string set"
  forbidden_endpoint_identities :: "string set"

definition empty_feedback :: run_url_feedback where
  "empty_feedback = \<lparr>not_modified_identities = {}, forbidden_endpoint_identities = {}\<rparr>"

definition feedback_identity :: "(string \<Rightarrow> string) \<Rightarrow> crawl_task \<Rightarrow> string option \<Rightarrow> string" where
  "feedback_identity normalize_url t url =
    (let normalized_url = normalize_url (or_else url (task_url t)) in
     if normalized_url = [] then [] else discovered_task_identity t normalized_url)"

definition remember_not_modified ::
  "(string \<Rightarrow> string) \<Rightarrow> crawl_task \<Rightarrow> string option \<Rightarrow> run_url_feedback \<Rightarrow> bool \<times> run_url_feedback" where
  "remember_not_modified normalize_url t url r =
    (let i = feedback_identity normalize_url t url in
     if i = [] then (False, r)
     else (i \<notin> not_modified_identities r, r\<lparr>not_modified_identities := insert i (not_modified_identities r)\<rparr>))"

definition was_not_modified :: "(string \<Rightarrow> string) \<Rightarrow> crawl_task \<Rightarrow> string option \<Rightarrow> run_url_feedback \<Rightarrow> bool" where
  "was_not_modified normalize_url t url r =
    (let i = feedback_identity normalize_url t url in i \<noteq> [] \<and> i \<in> not_modified_identities r)"

definition remember_forbidden_endpoint ::
  "url_splitter \<Rightarrow> string \<Rightarrow> run_url_feedback \<Rightarrow> bool \<times> run_url_feedback" where
  "remember_forbidden_endpoint split_url url r =
    (let i = forbidden_endpoint_identity split_url url in
     if i = [] then (False, r)
     else (i \<notin> forbidden_endpoint_identities r,
       r\<lparr>forbidden_endpoint_identities := insert i (forbidden_endpoint_identities r)\<rparr>))"

definition is_forbidden_endpoint :: "url_splitter \<Rightarrow> string \<Rightarrow> run_url_feedback \<Rightarrow> bool" where
  "is_forbidden_endpoint split_url url r =
    (let i = forbidden_endpoint_identity split_url url in i \<noteq> [] \<and> i \<in> forbidden_endpoint_identities r)"

definition not_modified_count :: "run_url_feedback \<Rightarrow> nat" where
  "not_modified_count r = card (not_modified_identities r)"

definition forbidden_endpoint_count :: "run_url_feedback \<Rightarrow> nat" where
  "forbidden_endpoint_count r = card (forbidden_endpoint_identities r)"

section \<open>Lemmas\<close>

definition no_double_slash :: "string \<Rightarrow> bool" where
  "no_double_slash s \<longleftrightarrow> (\<forall>u v. s \<noteq> u @ ''//'' @ v)"

lemma collapse_hd: "s \<noteq> [] \<Longrightarrow> collapse_slashes s \<noteq> [] \<and> hd (collapse_slashes s) = hd s"
  by (induction s rule: collapse_slashes.induct) auto

lemma no_double_slash_Cons:
  assumes "no_double_slash s" and "\<not> (a = CHR ''/'' \<and> starts_with s ''/'')"
  shows "no_double_slash (a # s)"
  unfolding no_double_slash_def
proof (intro allI notI)
  fix u v
  assume "a # s = u @ ''//'' @ v"
  then consider "a = CHR ''/'' \<and> s = CHR ''/'' # v" | u' where "s = u' @ ''//'' @ v"
    by (cases u) simp_all
  then show False
  proof cases
    case 1
    then have "starts_with s ''/''"
      using starts_with_append [of "''/''" v] by simp
    with 1 assms(2) show False by blast
  next
    case 2
    then show False using assms(1) unfolding no_double_slash_def by blast
  qed
qed

text \<open>The recursive form agrees with the loop: its result has no double slash left.\<close>

lemma collapse_no_double: "no_double_slash (collapse_slashes s)"
proof (induction s rule: collapse_slashes.induct)
  case (1 a b s)
  have "starts_with (collapse_slashes (b # s)) ''/'' \<longleftrightarrow> b = CHR ''/''"
    using collapse_hd [of "b # s"] by (cases "collapse_slashes (b # s)") auto
  with 1 show ?case
    by (auto intro: no_double_slash_Cons)
qed (auto simp: no_double_slash_def)

lemma split_on_no_sep: "w \<in> set (split_on c s) \<Longrightarrow> c \<notin> set w"
  by (induction c s arbitrary: w rule: split_on.induct) (auto split: if_splits list.splits)

definition plain_component :: "string \<Rightarrow> bool" where
  "plain_component w \<longleftrightarrow> w \<noteq> [] \<and> w \<noteq> ''.'' \<and> w \<noteq> ''..'' \<and> CHR ''/'' \<notin> set w"

lemma norm_components_absolute:
  "list_all plain_component stack \<Longrightarrow> \<forall>w\<in>set ws. CHR ''/'' \<notin> set w \<Longrightarrow>
   list_all plain_component (norm_components True ws stack)"
proof (induction True ws stack rule: norm_components.induct)
  case (2 w ws stack)
  have up: "\<not> (stack \<noteq> [] \<and> hd stack = ''..'')"
    using "2.prems"(1) by (cases stack) (auto simp: plain_component_def)
  show ?case
  proof (cases "w = [] \<or> w = ''.''")
    case True
    then show ?thesis using 2 by simp
  next
    case False
    show ?thesis
    proof (cases "w = ''..''")
      case True
      have "list_all plain_component (tl stack)"
        using "2.prems"(1) by (cases stack) auto
      then show ?thesis
        using 2 up False True by auto
    next
      case no: False
      then have "plain_component w"
        using False "2.prems"(2) by (simp add: plain_component_def)
      then show ?thesis
        using 2 False no by simp
    qed
  qed
qed simp

lemma rstrip_last: "rstrip_char c s = [] \<or> last (rstrip_char c s) \<noteq> c"
  using dropWhile_not_hd [of "\<lambda>x. x = c" "rev s"] by (auto simp: rstrip_char_def last_rev)

lemma hd_rstrip: "rstrip_char c s \<noteq> [] \<Longrightarrow> hd (rstrip_char c s) = hd s"
proof -
  assume ne: "rstrip_char c s \<noteq> []"
  obtain zs where "rev s = zs @ dropWhile (\<lambda>x. x = c) (rev s)"
    by (metis takeWhile_dropWhile_id)
  then have "s = rstrip_char c s @ rev zs"
    by (metis rev_append rev_rev_ident rstrip_char_def)
  then show ?thesis
    using ne by (metis hd_append2)
qed

lemma starts_with_slash: "starts_with s ''/'' \<longleftrightarrow> s \<noteq> [] \<and> hd s = CHR ''/''"
  by (cases s) auto

lemma rstrip_id: "s \<noteq> [] \<Longrightarrow> last s \<noteq> c \<Longrightarrow> rstrip_char c s = s"
  by (simp add: rstrip_char_def dropWhile_id hd_rev)

lemma join_last:
  "ws \<noteq> [] \<Longrightarrow> list_all plain_component ws \<Longrightarrow>
   join_with ''/'' ws \<noteq> [] \<and> last (join_with ''/'' ws) \<noteq> CHR ''/''"
proof (induction "''/''" ws rule: join_with.induct)
  case (2 x)
  then have "x \<noteq> []" and "CHR ''/'' \<notin> set x"
    by (simp_all add: plain_component_def)
  moreover from this have "last x \<noteq> CHR ''/''"
    by (metis last_in_set)
  ultimately show ?case by simp
next
  case (3 x y xs)
  then show ?case by simp
qed simp

lemma absolute_normpath:
  assumes "path \<noteq> []" and "hd path = CHR ''/''"
  shows "\<exists>ws. normpath (collapse_slashes path) = CHR ''/'' # join_with ''/'' ws \<and> list_all plain_component ws"
proof -
  define ws where "ws = norm_components True (split_on (CHR ''/'') (collapse_slashes path)) []"
  have "list_all plain_component ws"
    unfolding ws_def
    by (rule norm_components_absolute) (use split_on_no_sep in \<open>auto\<close>)
  moreover have "normpath (collapse_slashes path) = CHR ''/'' # join_with ''/'' ws"
    using assms collapse_hd [of path] by (simp add: normpath_def Let_def ws_def starts_with_slash)
  ultimately show ?thesis by blast
qed

section \<open>Properties\<close>


definition sample_splitter :: url_splitter where
  "sample_splitter u = Some \<lparr>up_hostname = Some (take 1 u), up_path = ''/s'', up_query_pairs = [(''q'', drop 1 u)]\<rparr>"


text \<open>The path of an endpoint identity is canonical: it is absolute, ends with a slash only
  when it is the root, and contains no empty, \<open>.\<close> or \<open>..\<close> component when the raw
  path is absolute, so spellings of one path with such detours give one identity.\<close>

theorem endpoint_path_canonical:
  "starts_with (endpoint_path raw) ''/'' \<and> (endpoint_path raw = ''/'' \<or> last (endpoint_path raw) \<noteq> CHR ''/'') \<and>
   (starts_with raw ''/'' \<longrightarrow> (\<exists>ws. endpoint_path raw = CHR ''/'' # join_with ''/'' ws \<and>
      (\<forall>w\<in>set ws. w \<noteq> [] \<and> w \<noteq> ''.'' \<and> w \<noteq> ''..'' \<and> CHR ''/'' \<notin> set w)))"
proof -
  define path where "path = map (\<lambda>c. if (of_char c :: nat) = 92 then CHR ''/'' else c) (if raw = [] then ''/'' else raw)"
  define n where "n = normpath (collapse_slashes path)"
  define m where "m = (if starts_with n ''/'' then n else CHR ''/'' # n)"
  define r where "r = rstrip_char (CHR ''/'') m"
  have e: "endpoint_path raw = (if r = [] then ''/'' else r)"
    by (simp add: endpoint_path_def Let_def path_def n_def m_def r_def)
  have m: "m \<noteq> []" "hd m = CHR ''/''"
    by (auto simp: m_def starts_with_slash)
  have r: "r = [] \<or> hd r = CHR ''/'' \<and> last r \<noteq> CHR ''/''"
    using hd_rstrip [of "CHR ''/''" m] rstrip_last [of "CHR ''/''" m] m by (auto simp: r_def)
  have "\<exists>ws. endpoint_path raw = CHR ''/'' # join_with ''/'' ws \<and>
      list_all plain_component ws" if abs: "starts_with raw ''/''"
  proof -
    have "path \<noteq> []" "hd path = CHR ''/''"
      using abs by (auto simp: path_def starts_with_slash hd_map)
    then obtain ws where "normpath (collapse_slashes path) = CHR ''/'' # join_with ''/'' ws" and ws: "list_all plain_component ws"
      using absolute_normpath by blast
    then have mws: "m = CHR ''/'' # join_with ''/'' ws"
      by (simp add: m_def n_def)
    have last: "ws \<noteq> [] \<Longrightarrow> join_with ''/'' ws \<noteq> [] \<and> last (join_with ''/'' ws) \<noteq> CHR ''/''"
      using join_last [OF _ ws] .
    have "endpoint_path raw = CHR ''/'' # join_with ''/'' ws"
    proof (cases "ws = []")
      case False
      then have "last m \<noteq> CHR ''/''"
        using last mws by simp
      then have "r = m"
        unfolding r_def by (rule rstrip_id [OF m(1)])
      then show ?thesis
        using m(1) mws by (simp add: e)
    next
      case True
      then show ?thesis
        using mws by (simp add: e r_def rstrip_char_def)
    qed
    with ws show ?thesis by blast
  qed
  then show ?thesis
    using r by (auto simp: e starts_with_slash list_all_iff plain_component_def)
qed

theorem endpoint_path_canonical_witness:
  "starts_with (endpoint_path ''/a//b/../c/.'') ''/'' \<and> endpoint_path ''/a//b/../c/.'' = ''/a/c''"
proof -
  have "endpoint_path ''/a//b/../c/.'' = ''/a/c''"
    by code_simp
  then show ?thesis
    using endpoint_path_canonical [of "''/a//b/../c/.''"] by blast
qed

end
