(* ===== verification/Task_Priority.thy ===== *)
theory Task_Priority imports
  Host_Control
begin

text \<open>
  Task priorities: \<open>crawler/scheduling/priority/crawl_task_priority_calculator.py\<close> and its
  settings, \<open>UrlPrioritySettings\<close> of \<open>config/collection/discovery.py\<close>. A lower number is a
  higher priority.
\<close>

section \<open>Settings\<close>

datatype feed_level = high_feeds | medium_feeds | low_feeds

record priority_settings =
  pri_seed_priority :: int
  pri_discovered_priority :: int
  pri_feed_priority :: feed_level
  pri_depth_penalty :: int
  pri_min_priority :: int
  pri_max_priority :: int
  pri_host_quality_boost_scale :: real
  pri_host_noise_penalty_scale :: real
  pri_info_gain_boost_scale :: real
  pri_external_host_exploration_penalty :: int
  pri_low_info_gain_penalty_enabled :: bool
  pri_low_info_gain_penalty_threshold :: real
  pri_low_info_gain_penalty :: int

definition default_priority_settings :: priority_settings where
  "default_priority_settings = \<lparr>pri_seed_priority = 0, pri_discovered_priority = 10, pri_feed_priority = medium_feeds,
     pri_depth_penalty = 1, pri_min_priority = - 100, pri_max_priority = 10000, pri_host_quality_boost_scale = 12,
     pri_host_noise_penalty_scale = 12, pri_info_gain_boost_scale = 6, pri_external_host_exploration_penalty = 8,
     pri_low_info_gain_penalty_enabled = True, pri_low_info_gain_penalty_threshold = 12 / 100,
     pri_low_info_gain_penalty = 5\<rparr>"

definition priority_settings_in_range :: "priority_settings \<Rightarrow> bool" where
  "priority_settings_in_range p \<longleftrightarrow> 0 \<le> pri_depth_penalty p \<and> 0 \<le> pri_host_quality_boost_scale p \<and>
     0 \<le> pri_host_noise_penalty_scale p \<and> 0 \<le> pri_info_gain_boost_scale p \<and>
     0 \<le> pri_external_host_exploration_penalty p \<and> unit_interval (pri_low_info_gain_penalty_threshold p) \<and>
     0 \<le> pri_low_info_gain_penalty p"

definition validate_priority_bounds :: "priority_settings \<Rightarrow> priority_settings result" where
  "validate_priority_bounds p =
    (if pri_max_priority p < pri_min_priority p
     then Inl (ValueError ''max_priority must be greater than or equal to min_priority'')
     else if \<not> (pri_min_priority p \<le> pri_seed_priority p \<and> pri_seed_priority p \<le> pri_max_priority p)
     then Inl (ValueError ''seed_priority must be between min_priority and max_priority'')
     else if \<not> (pri_min_priority p \<le> pri_discovered_priority p \<and> pri_discovered_priority p \<le> pri_max_priority p)
     then Inl (ValueError ''discovered_priority must be between min_priority and max_priority'')
     else Inr p)"

section \<open>Resolution\<close>

text \<open>\<open>round\<close> on a float: to the nearest integer, a tie to the even one.\<close>

definition py_round :: "real \<Rightarrow> int" where
  "py_round x = (let f = \<lfloor>x\<rfloor> in
     if x - of_int f < 1 / 2 then f else if 1 / 2 < x - of_int f then f + 1
     else if even f then f else f + 1)"

fun feed_offset :: "feed_level \<Rightarrow> int" where
  "feed_offset high_feeds = - 3"
| "feed_offset medium_feeds = 0"
| "feed_offset low_feeds = 3"

definition valid_host :: "host \<Rightarrow> bool" where
  "valid_host h \<longleftrightarrow> h \<noteq> None \<and> h \<noteq> Some []"

definition priority_host_quality :: "(host \<Rightarrow> host) \<Rightarrow> budget_config \<Rightarrow> feedback_aggregator \<Rightarrow> host \<Rightarrow> real" where
  "priority_host_quality nrm c a h = (if valid_host h then max 0 (min 1 (host_quality nrm c a h)) else 2 / 10)"

definition priority_info_gain :: "(host \<Rightarrow> host) \<Rightarrow> budget_config \<Rightarrow> feedback_aggregator \<Rightarrow> host \<Rightarrow> real" where
  "priority_info_gain nrm c a h = (if valid_host h then max 0 (min 1 (host_info_gain nrm c a h)) else 2 / 10)"

definition base_priority :: "priority_settings \<Rightarrow> int \<Rightarrow> string \<Rightarrow> media_kind \<Rightarrow> int" where
  "base_priority p depth source_type kind =
     (if source_type = ''seed'' then pri_seed_priority p else pri_discovered_priority p) +
     depth * pri_depth_penalty p + (if kind = FEED then feed_offset (pri_feed_priority p) else 0)"

definition signal_adjustment :: "priority_settings \<Rightarrow> real \<Rightarrow> real \<Rightarrow> int" where
  "signal_adjustment p quality info_gain =
    (let quality_boost = py_round (quality * pri_host_quality_boost_scale p);
         info_gain_boost = py_round (info_gain * pri_info_gain_boost_scale p);
         noise_penalty = py_round ((1 - quality) * pri_host_noise_penalty_scale p)
     in noise_penalty - (quality_boost + info_gain_boost))"

definition low_gain_adjustment :: "priority_settings \<Rightarrow> real \<Rightarrow> int" where
  "low_gain_adjustment p info_gain =
    (if pri_low_info_gain_penalty_enabled p \<and> info_gain < pri_low_info_gain_penalty_threshold p
     then pri_low_info_gain_penalty p else 0)"

definition resolve ::
  "(host \<Rightarrow> host) \<Rightarrow> budget_config \<Rightarrow> priority_settings \<Rightarrow> feedback_aggregator \<Rightarrow>
    string \<Rightarrow> int \<Rightarrow> string \<Rightarrow> media_kind \<Rightarrow> int" where
  "resolve nrm c p a url depth source_type kind =
    (let h = bud_extract c url;
         quality = priority_host_quality nrm c a h;
         info_gain = priority_info_gain nrm c a h;
         priority = base_priority p depth source_type kind + signal_adjustment p quality info_gain;
         priority = (if source_type \<noteq> ''seed'' \<and> valid_host h \<and> \<not> is_seed_host nrm c h
           then priority + pri_external_host_exploration_penalty p else priority);
         priority = priority + low_gain_adjustment p info_gain
     in max (pri_min_priority p) (min priority (pri_max_priority p)))"

definition resolve_task ::
  "(host \<Rightarrow> host) \<Rightarrow> budget_config \<Rightarrow> priority_settings \<Rightarrow> feedback_aggregator \<Rightarrow> crawl_task \<Rightarrow> int" where
  "resolve_task nrm c p a t = resolve nrm c p a (task_url t) (task_depth t) (task_source_type t) (task_kind t)"

section \<open>Lemmas\<close>

lemma py_round_bounds: "x - 1 / 2 \<le> of_int (py_round x) \<and> of_int (py_round x) \<le> x + 1 / 2"
  unfolding py_round_def Let_def by (auto; linarith)

lemma py_round_int [simp]: "py_round (of_int i) = i"
  by (simp add: py_round_def)

lemma py_round_mono: "x \<le> y \<Longrightarrow> py_round x \<le> py_round y"
proof (cases "\<lfloor>x\<rfloor> = \<lfloor>y\<rfloor>")
  case True
  assume "x \<le> y"
  with True show ?thesis by (auto simp: py_round_def Let_def)
next
  case False
  assume "x \<le> y"
  then have "\<lfloor>x\<rfloor> + 1 \<le> \<lfloor>y\<rfloor>"
    using False floor_mono [of x y] by linarith
  moreover have "py_round x \<le> \<lfloor>x\<rfloor> + 1" and "\<lfloor>y\<rfloor> \<le> py_round y"
    by (auto simp: py_round_def Let_def)
  ultimately show ?thesis by linarith
qed

lemma signal_adjustment_antimono:
  assumes "priority_settings_in_range p" and "q \<le> q'" and "g \<le> g'"
  shows "signal_adjustment p q' g' \<le> signal_adjustment p q g"
proof -
  have "py_round (q * pri_host_quality_boost_scale p) \<le> py_round (q' * pri_host_quality_boost_scale p)"
    and "py_round (g * pri_info_gain_boost_scale p) \<le> py_round (g' * pri_info_gain_boost_scale p)"
    and "py_round ((1 - q') * pri_host_noise_penalty_scale p) \<le> py_round ((1 - q) * pri_host_noise_penalty_scale p)"
    using assms by (auto simp: priority_settings_in_range_def intro!: py_round_mono mult_right_mono)
  then show ?thesis
    by (simp add: signal_adjustment_def Let_def)
qed

lemma low_gain_antimono: "priority_settings_in_range p \<Longrightarrow> g \<le> g' \<Longrightarrow> low_gain_adjustment p g' \<le> low_gain_adjustment p g"
  by (auto simp: low_gain_adjustment_def priority_settings_in_range_def)

section \<open>Properties\<close>

text \<open>With validated settings every resolved priority lies between the configured bounds,
  and the order of priorities is the intended one: a deeper task, or one whose host has no
  better quality and no better information gain, never gets a smaller number.\<close>

theorem priority_bounded_and_monotone:
  assumes "priority_settings_in_range p" and "validate_priority_bounds p = Inr p"
    and "depth \<le> depth'" and "host_quality nrm c a' (bud_extract c u) \<le> host_quality nrm c a (bud_extract c u)"
    and "host_info_gain nrm c a' (bud_extract c u) \<le> host_info_gain nrm c a (bud_extract c u)"
  shows "pri_min_priority p \<le> resolve nrm c p a u depth source_type kind \<and>
    resolve nrm c p a u depth source_type kind \<le> pri_max_priority p \<and>
    resolve nrm c p a u depth source_type kind \<le> resolve nrm c p a' u depth' source_type kind"
proof -
  let ?h = "bud_extract c u"
  have q: "priority_host_quality nrm c a' ?h \<le> priority_host_quality nrm c a ?h"
    and g: "priority_info_gain nrm c a' ?h \<le> priority_info_gain nrm c a ?h"
    using assms(4,5) by (auto simp: priority_host_quality_def priority_info_gain_def)
  have "depth * pri_depth_penalty p \<le> depth' * pri_depth_penalty p"
    using assms(1,3) by (simp add: priority_settings_in_range_def mult_right_mono)
  then have "base_priority p depth source_type kind \<le> base_priority p depth' source_type kind"
    by (simp add: base_priority_def)
  moreover note signal_adjustment_antimono [OF assms(1) q g] low_gain_antimono [OF assms(1) g]
  ultimately have "resolve nrm c p a u depth source_type kind \<le> resolve nrm c p a' u depth' source_type kind"
    unfolding resolve_def Let_def by (intro max.mono min.mono order_refl) (simp split: if_split)
  moreover have "pri_min_priority p \<le> pri_max_priority p"
    using assms(2) by (simp add: validate_priority_bounds_def split: if_splits)
  ultimately show ?thesis
    by (simp add: resolve_def Let_def)
qed

lemma default_priority_ok:
  "priority_settings_in_range default_priority_settings"
  "validate_priority_bounds default_priority_settings = Inr default_priority_settings"
  by (simp_all add: priority_settings_in_range_def default_priority_settings_def unit_interval_def validate_priority_bounds_def)

theorem priority_bounded_and_monotone_witness:
  "- 100 \<le> resolve lower_host sample_budget default_priority_settings (empty_aggregator None default_feedback_settings)
     ''a/x'' 1 ''link'' PAGE \<and>
   resolve lower_host sample_budget default_priority_settings (empty_aggregator None default_feedback_settings)
     ''a/x'' 1 ''link'' PAGE \<le>
   resolve lower_host sample_budget default_priority_settings (empty_aggregator None default_feedback_settings)
     ''a/x'' 4 ''link'' PAGE"
  using priority_bounded_and_monotone [OF default_priority_ok, where nrm = lower_host and c = sample_budget and u = "''a/x''"
    and depth = 1 and depth' = 4 and a = "empty_aggregator None default_feedback_settings"
    and a' = "empty_aggregator None default_feedback_settings" and source_type = "''link''" and kind = PAGE]
  by (simp add: default_priority_settings_def)

end
