(* ===== verification/Admission.thy ===== *)
theory Admission imports
  Source_Scope
  Run_Url_Feedback
  Task_Priority
  Seen_Url_Registry
  Progress_State
begin

text \<open>
  Task admission, \<open>crawler/scheduling/admission\<close>: the prerequisite, scope and pressure checks,
  the host limits and \<open>SchedulerTaskAdmitter.evaluate\<close>, which runs them in a fixed order. The
  collaborators are fields of one environment record: the URL filter and the blacklist are
  predicates, as are the URL normaliser, the URL parser and the media page classifier; the
  other collaborators are the models of their components. Metrics and log output are left out.
\<close>

section \<open>The environment\<close>

record url_filter =
  filter_allows_task :: "crawl_task \<Rightarrow> bool"
  filter_restrict_to_seed_hosts :: bool

record admission_env =
  env_settings :: scheduling_settings
  env_normalizer :: "host \<Rightarrow> host"
  env_url_filter :: "url_filter option"
  env_blacklist :: "(string \<Rightarrow> bool) option"
  env_run_feedback :: "run_url_feedback option"
  env_normalize_url :: "string \<Rightarrow> string"
  env_split_url :: url_splitter
  env_media_page :: "string \<Rightarrow> crawl_task_context option \<Rightarrow> bool"
  env_scopes :: scope_registry
  env_budget :: "(budget_config \<times> feedback_aggregator) option"
  env_media_budget :: "media_byte_budget option"
  env_advice :: advice_tracker

record admission_context =
  ctx_task :: crawl_task
  ctx_host :: host
  ctx_source :: "string option"
  ctx_now :: real
  ctx_queue_size :: int
  ctx_host_pending :: int
  ctx_closed :: bool
  ctx_kind_host_pending :: int

section \<open>Prerequisites\<close>

definition was_not_modified_in :: "admission_env \<Rightarrow> crawl_task \<Rightarrow> bool" where
  "was_not_modified_in env t = (case env_run_feedback env of None \<Rightarrow> False
     | Some f \<Rightarrow> was_not_modified (env_normalize_url env) t (Some (task_url t)) f)"

definition is_forbidden_in :: "admission_env \<Rightarrow> crawl_task \<Rightarrow> bool" where
  "is_forbidden_in env t = (case env_run_feedback env of None \<Rightarrow> False
     | Some f \<Rightarrow> is_forbidden_endpoint (env_split_url env) (task_url t) f)"

text \<open>
  The duplicate test asks the registry, which may drop expired identities, or the set of keys
  the caller passes.
\<close>

definition identity_seen ::
  "real \<Rightarrow> crawl_task \<Rightarrow> string set option \<Rightarrow> seen_url_registry \<Rightarrow> bool \<times> seen_url_registry" where
  "identity_seen now t seen_identity_keys r = (let key = scheduler_task_identity_key t in
     case seen_identity_keys of None \<Rightarrow> is_seen now key r | Some keys \<Rightarrow> (key \<in> keys, r))"

definition prerequisite_evaluate ::
  "admission_env \<Rightarrow> real \<Rightarrow> crawl_task \<Rightarrow> bool \<Rightarrow> string set option \<Rightarrow> seen_url_registry \<Rightarrow>
    schedule_decision option \<times> seen_url_registry" where
  "prerequisite_evaluate env now t is_closed seen_identity_keys r =
    (if is_closed then (Some (reject_decision SCHEDULER_CLOSED (task_url t)), r)
     else if max_depth_for_task (env_settings env) t < task_depth t
     then (Some (reject_decision MAX_DEPTH_EXCEEDED (task_url t)), r)
     else if (case env_url_filter env of None \<Rightarrow> False | Some f \<Rightarrow> \<not> filter_allows_task f t)
     then (Some (reject_decision URL_FILTERED (task_url t)), r)
     else if (case env_blacklist env of None \<Rightarrow> False | Some contains \<Rightarrow> contains (task_url t))
     then (Some (reject_decision BLACKLISTED (task_url t)), r)
     else if was_not_modified_in env t then (Some (reject_decision NOT_MODIFIED_THIS_RUN (task_url t)), r)
     else if is_forbidden_in env t then (Some (reject_decision FORBIDDEN_ENDPOINT_THIS_RUN (task_url t)), r)
     else (case identity_seen now t seen_identity_keys r of
       (True, r) \<Rightarrow> (Some (reject_decision DUPLICATE_URL (task_url t)), r)
     | (False, r) \<Rightarrow> (None, r)))"

section \<open>Scope\<close>

definition restrict_to_seed_hosts_enabled :: "admission_env \<Rightarrow> bool" where
  "restrict_to_seed_hosts_enabled env = (case env_url_filter env of None \<Rightarrow> True | Some f \<Rightarrow> filter_restrict_to_seed_hosts f)"

definition is_source_authorized :: "admission_env \<Rightarrow> string \<Rightarrow> string \<Rightarrow> string \<Rightarrow> bool" where
  "is_source_authorized env source_name h source_type = (case require_scope (env_scopes env) source_name of
     Inl e \<Rightarrow> False
   | Inr s \<Rightarrow> if source_type = ''embedded_asset'' then allows_page_host s h \<or> allows_asset_host s h
       else allows_page_host s h)"

definition scope_rejection_reason :: "admission_env \<Rightarrow> crawl_task \<Rightarrow> host \<Rightarrow> schedule_decision_reason option" where
  "scope_rejection_reason env t h =
    (if task_source_type t = ''seed'' then None
     else (case h of None \<Rightarrow> Some CRAWL_SCOPE_BLOCKED
       | Some k \<Rightarrow>
          if \<not> is_source_authorized env (task_source_name t) k (task_source_type t) then Some CRAWL_SCOPE_BLOCKED
          else if task_source_type t = ''embedded_asset'' then None
          else if \<not> restrict_to_seed_hosts_enabled env then None
          else (case env_budget env of None \<Rightarrow> Some CRAWL_SCOPE_BLOCKED
            | Some (c, a) \<Rightarrow>
               if is_seed_host (env_normalizer env) c h then None
               else if is_expanded_host (env_normalizer env) a (task_source_name t) h then None
               else Some CRAWL_SCOPE_BLOCKED)))"

section \<open>Pressure\<close>

definition is_high_backpressure :: "admission_env \<Rightarrow> int \<Rightarrow> bool" where
  "is_high_backpressure env qsize = (cfg_queue_high_watermark (env_settings env) \<le> qsize)"

definition is_critical_backpressure :: "admission_env \<Rightarrow> int \<Rightarrow> bool" where
  "is_critical_backpressure env qsize = (cfg_queue_critical_watermark (env_settings env) \<le> qsize)"

definition queue_pressure_state :: "admission_env \<Rightarrow> int \<Rightarrow> string" where
  "queue_pressure_state env qsize = (if is_critical_backpressure env qsize then ''critical''
     else if is_high_backpressure env qsize then ''high'' else ''normal'')"

definition coverage_recovery_target_kind :: "crawl_task \<Rightarrow> media_kind option" where
  "coverage_recovery_target_kind t =
    (if task_kind t \<notin> {DOCUMENT, IMAGE, AUDIO, VIDEO} then None
     else (let reason = (case task_context t of None \<Rightarrow> []
             | Some c \<Rightarrow> py_lower (py_strip (or_else (selection_reason c) [])))
       in if reason \<noteq> ''coverage_recovery'' then None else Some (task_kind t)))"

definition is_coverage_recovery_target_task :: "crawl_task \<Rightarrow> bool" where
  "is_coverage_recovery_target_task t = (coverage_recovery_target_kind t \<noteq> None)"

definition should_reject_for_high_backpressure :: "admission_env \<Rightarrow> crawl_task \<Rightarrow> bool" where
  "should_reject_for_high_backpressure env t =
    (if is_coverage_recovery_target_task t then False
     else if task_kind t \<in> {IMAGE, AUDIO, DOCUMENT, VIDEO} \<and> task_source_type t = ''embedded_asset'' then False
     else if task_kind t = PAGE
     then task_source_type t \<noteq> ''seed'' \<and> \<not> env_media_page env (task_url t) (task_context t)
     else task_source_type t \<noteq> ''seed'')"

definition pressure_rejection_reason :: "admission_env \<Rightarrow> crawl_task \<Rightarrow> int \<Rightarrow> schedule_decision_reason option" where
  "pressure_rejection_reason env t qsize =
    (if is_critical_backpressure env qsize
     then (if task_source_type t \<noteq> ''seed'' then Some SCHEDULER_BACKPRESSURE else None)
     else if is_high_backpressure env qsize
     then (if should_reject_for_high_backpressure env t then Some SCHEDULER_BACKPRESSURE else None)
     else None)"

definition float_value :: "pyfloat option \<Rightarrow> pyval" where
  "float_value v = (case v of None \<Rightarrow> PyNone | Some x \<Rightarrow> PyFloat x)"

definition hostility_rejection_reason ::
  "admission_env \<Rightarrow> crawl_task \<Rightarrow> host \<Rightarrow> bool \<Rightarrow> schedule_decision_reason option" where
  "hostility_rejection_reason env t h use_host_advice =
    (if \<not> use_host_advice \<or> h = None \<or> task_source_type t = ''seed'' then None
     else (case advice_get (env_normalizer env) (env_advice env) h of None \<Rightarrow> None
       | Some entry \<Rightarrow>
          (case coerce_float (float_value (adv_hostility_score (ent_advice entry))) None True of None \<Rightarrow> None
           | Some score \<Rightarrow>
              if score < cfg_hostility_reject_threshold (env_settings env) \<or> task_kind t = PAGE then None
              else Some HOSTILITY_BACKPRESSURE)))"

section \<open>Host limits\<close>

definition kind_pending_limit :: "media_kind \<Rightarrow> (string \<times> int) list \<Rightarrow> int option" where
  "kind_pending_limit kind limits = (case map_of limits (kind_value kind) of
     None \<Rightarrow> None | Some l \<Rightarrow> if l < 0 then None else Some l)"

definition pending_for_limit :: "admission_env \<Rightarrow> admission_context \<Rightarrow> int" where
  "pending_for_limit env ctx =
    (let s = env_settings env; kind = task_kind (ctx_task ctx) in
     if \<exists>limits\<in>{cfg_max_pending_per_host_by_kind s, cfg_max_pending_per_host_by_kind_under_pressure s,
         cfg_max_pending_per_host_by_kind_critical s}. kind_pending_limit kind limits \<noteq> None
     then ctx_kind_host_pending ctx else ctx_host_pending ctx)"

definition pressure_host_limit :: "admission_env \<Rightarrow> media_kind \<Rightarrow> int \<Rightarrow> int option" where
  "pressure_host_limit env kind qsize =
    (let s = env_settings env in
     if is_critical_backpressure env qsize
     then (case kind_pending_limit kind (cfg_max_pending_per_host_by_kind_critical s) of
         Some l \<Rightarrow> Some l | None \<Rightarrow> cfg_max_pending_per_host_critical s)
     else if is_high_backpressure env qsize
     then (case kind_pending_limit kind (cfg_max_pending_per_host_by_kind_under_pressure s) of
         Some l \<Rightarrow> Some l | None \<Rightarrow> cfg_max_pending_per_host_under_pressure s)
     else None)"

definition coerce_discovery_factor :: "pyfloat option \<Rightarrow> real" where
  "coerce_discovery_factor v = (case coerce_float (float_value v) None True of
     None \<Rightarrow> 1 | Some x \<Rightarrow> max 0 (min 1 x))"

definition base_pending_limit :: "admission_env \<Rightarrow> media_kind \<Rightarrow> int \<Rightarrow> int option" where
  "base_pending_limit env kind qsize =
    (let s = env_settings env;
         base_limit = (case kind_pending_limit kind (cfg_max_pending_per_host_by_kind s) of
           Some l \<Rightarrow> Some l
         | None \<Rightarrow> if cfg_max_pending_per_host s < 0 then None else Some (cfg_max_pending_per_host s))
     in (case pressure_host_limit env kind qsize of
          None \<Rightarrow> base_limit
        | Some p \<Rightarrow> Some (case base_limit of None \<Rightarrow> p | Some b \<Rightarrow> min b p)))"

definition scaled_limit :: "real \<Rightarrow> int option \<Rightarrow> int option" where
  "scaled_limit discovery_factor base_limit =
    (if discovery_factor = 0 then Some 0
     else (case base_limit of None \<Rightarrow> None
       | Some b \<Rightarrow> if b = 0 then Some 0 else Some (max 1 (py_round (of_int b * discovery_factor)))))"

definition effective_max_pending_limit :: "admission_env \<Rightarrow> media_kind \<Rightarrow> host \<Rightarrow> int \<Rightarrow> bool \<Rightarrow> int option" where
  "effective_max_pending_limit env kind h qsize use_host_advice =
    (let base_limit = base_pending_limit env kind qsize in
     if h = None \<or> \<not> use_host_advice then base_limit
     else (case advice_get (env_normalizer env) (env_advice env) h of None \<Rightarrow> base_limit
       | Some entry \<Rightarrow> scaled_limit (coerce_discovery_factor (adv_discovery_factor (ent_advice entry))) base_limit))"

definition effective_max_pending_per_host :: "admission_env \<Rightarrow> crawl_task \<Rightarrow> host \<Rightarrow> int \<Rightarrow> bool \<Rightarrow> int option" where
  "effective_max_pending_per_host env t h qsize use_host_advice =
    (if task_source_type t = ''seed'' then None
     else effective_max_pending_limit env (task_kind t) h qsize use_host_advice)"

definition effective_max_pending_for_kind :: "admission_env \<Rightarrow> media_kind \<Rightarrow> host \<Rightarrow> int \<Rightarrow> bool \<Rightarrow> int option" where
  "effective_max_pending_for_kind env kind h qsize use_host_advice =
     effective_max_pending_limit env kind h qsize use_host_advice"

definition crawl_budget_rejection_reason :: "admission_env \<Rightarrow> crawl_task \<Rightarrow> host \<Rightarrow> schedule_decision_reason option" where
  "crawl_budget_rejection_reason env t h =
    (if task_source_type t = ''seed'' \<or> h = None then None
     else (case env_budget env of None \<Rightarrow> None
       | Some (c, a) \<Rightarrow> if host_budget_exhausted (env_normalizer env) c a h then Some CRAWL_BUDGET_EXHAUSTED else None))"

section \<open>The decision\<close>

definition media_bytes_exhausted :: "admission_env \<Rightarrow> admission_context \<Rightarrow> bool result" where
  "media_bytes_exhausted env ctx = (case env_media_budget env of None \<Rightarrow> Inr False
     | Some b \<Rightarrow> if ctx_host ctx = None then Inr False
         else map_sum id fst (media_budget_exhausted (env_normalizer env) (ctx_task ctx) (ctx_host ctx) b))"

text \<open>The checks after the byte budget, in the order of the source.\<close>

definition limit_rejection_reason :: "admission_env \<Rightarrow> bool \<Rightarrow> admission_context \<Rightarrow> schedule_decision_reason option" where
  "limit_rejection_reason env use_host_advice ctx =
    (let s = env_settings env; t = ctx_task ctx in
     if cfg_queue_critical_watermark s \<le> ctx_queue_size ctx \<and> task_source_type t \<noteq> ''seed''
     then Some SCHEDULER_BACKPRESSURE
     else if task_kind t = FEED \<and> task_source_type t \<noteq> ''seed'' \<and> cfg_max_feed_depth s < task_depth t
     then Some SCHEDULER_BACKPRESSURE
     else if task_kind t = FEED \<and> task_source_type t \<noteq> ''seed'' \<and>
       cfg_max_feeds_per_host s \<le> ctx_kind_host_pending ctx \<and> 0 < cfg_max_feeds_per_host s
     then Some MAX_PENDING_PER_HOST_REACHED
     else (case pressure_rejection_reason env t (ctx_queue_size ctx) of
       Some reason \<Rightarrow> Some reason
     | None \<Rightarrow>
        (case hostility_rejection_reason env t (ctx_host ctx) use_host_advice of
          Some reason \<Rightarrow> Some reason
        | None \<Rightarrow>
           (case effective_max_pending_per_host env t (ctx_host ctx) (ctx_queue_size ctx) use_host_advice of
             Some l \<Rightarrow> if l \<le> pending_for_limit env ctx then Some MAX_PENDING_PER_HOST_REACHED
                 else crawl_budget_rejection_reason env t (ctx_host ctx)
           | None \<Rightarrow> crawl_budget_rejection_reason env t (ctx_host ctx)))))"

definition admit_evaluate ::
  "admission_env \<Rightarrow> real \<Rightarrow> admission_context \<Rightarrow> string set option \<Rightarrow> bool \<Rightarrow> seen_url_registry \<Rightarrow>
    schedule_decision result \<times> seen_url_registry" where
  "admit_evaluate env now ctx seen_identity_keys use_host_advice r =
    (let t = ctx_task ctx in
     case prerequisite_evaluate env now t (ctx_closed ctx) seen_identity_keys r of
       (Some decision, r) \<Rightarrow> (Inr decision, r)
     | (None, r) \<Rightarrow>
        (case scope_rejection_reason env t (ctx_host ctx) of
          Some reason \<Rightarrow> (Inr (reject_decision reason (task_url t)), r)
        | None \<Rightarrow>
           (case media_bytes_exhausted env ctx of
             Inl e \<Rightarrow> (Inl e, r)
           | Inr True \<Rightarrow> (Inr (reject_decision SCHEDULER_BACKPRESSURE (task_url t)), r)
           | Inr False \<Rightarrow>
              (case limit_rejection_reason env use_host_advice ctx of
                Some reason \<Rightarrow> (Inr (reject_decision reason (task_url t)), r)
              | None \<Rightarrow> (Inr (accept_decision (task_url t) t), r)))))"

definition host_pending_limit :: "admission_env \<Rightarrow> media_kind \<Rightarrow> host \<Rightarrow> int \<Rightarrow> int option" where
  "host_pending_limit env kind h qsize = effective_max_pending_for_kind env kind h qsize True"

section \<open>Lemmas\<close>

lemma reject_simps [simp]:
  "dec_accepted (reject_decision reason u) = False" "dec_reason (reject_decision reason u) = reason"
  "dec_normalized_url (reject_decision reason u) = u" "dec_task (reject_decision reason u) = None"
  by (simp_all add: reject_decision_def)

lemma accept_simps [simp]:
  "dec_accepted (accept_decision u t) = True" "dec_reason (accept_decision u t) = ACCEPTED"
  "dec_normalized_url (accept_decision u t) = u" "dec_task (accept_decision u t) = Some t"
  by (simp_all add: accept_decision_def)

definition prerequisites_met :: "admission_env \<Rightarrow> crawl_task \<Rightarrow> bool \<Rightarrow> bool" where
  "prerequisites_met env t is_closed \<longleftrightarrow> \<not> is_closed \<and> task_depth t \<le> max_depth_for_task (env_settings env) t \<and>
     (\<forall>f. env_url_filter env = Some f \<longrightarrow> filter_allows_task f t) \<and>
     (\<forall>b. env_blacklist env = Some b \<longrightarrow> \<not> b (task_url t)) \<and> \<not> was_not_modified_in env t \<and> \<not> is_forbidden_in env t"

lemma prerequisite_None:
  "fst (prerequisite_evaluate env now t is_closed keys r) = None \<longleftrightarrow>
    prerequisites_met env t is_closed \<and> \<not> fst (identity_seen now t keys r)"
  by (auto simp: prerequisite_evaluate_def prerequisites_met_def split: option.splits prod.splits bool.splits)

lemma prerequisite_reject:
  "fst (prerequisite_evaluate env now t is_closed keys r) = Some d \<Longrightarrow>
    \<not> dec_accepted d \<and> dec_reason d \<noteq> ACCEPTED \<and> dec_normalized_url d = task_url t \<and> dec_task d = None"
  by (auto simp: prerequisite_evaluate_def split: if_splits prod.splits bool.splits)

lemma reasons_not_accepted:
  "scope_rejection_reason env t h = Some reason \<Longrightarrow> reason \<noteq> ACCEPTED"
  "limit_rejection_reason env adv ctx = Some reason' \<Longrightarrow> reason' \<noteq> ACCEPTED"
  by (auto simp: scope_rejection_reason_def limit_rejection_reason_def pressure_rejection_reason_def
      hostility_rejection_reason_def crawl_budget_rejection_reason_def Let_def split: if_splits option.splits)

lemma limit_None:
  "limit_rejection_reason env adv ctx = None \<longleftrightarrow>
    (task_source_type (ctx_task ctx) \<noteq> ''seed'' \<longrightarrow>
      ctx_queue_size ctx < cfg_queue_critical_watermark (env_settings env) \<and>
      (task_kind (ctx_task ctx) = FEED \<longrightarrow> task_depth (ctx_task ctx) \<le> cfg_max_feed_depth (env_settings env) \<and>
        (0 < cfg_max_feeds_per_host (env_settings env) \<longrightarrow>
          ctx_kind_host_pending ctx < cfg_max_feeds_per_host (env_settings env)))) \<and>
    pressure_rejection_reason env (ctx_task ctx) (ctx_queue_size ctx) = None \<and>
    hostility_rejection_reason env (ctx_task ctx) (ctx_host ctx) adv = None \<and>
    (\<forall>l. effective_max_pending_per_host env (ctx_task ctx) (ctx_host ctx) (ctx_queue_size ctx) adv = Some l \<longrightarrow>
      pending_for_limit env ctx < l) \<and>
    crawl_budget_rejection_reason env (ctx_task ctx) (ctx_host ctx) = None"
  by (auto simp: limit_rejection_reason_def Let_def split: option.splits)

lemma admit_accepted_iff:
  "(\<exists>d. fst (admit_evaluate env now ctx keys adv r) = Inr d \<and> dec_accepted d) \<longleftrightarrow>
    prerequisites_met env (ctx_task ctx) (ctx_closed ctx) \<and> \<not> fst (identity_seen now (ctx_task ctx) keys r) \<and>
    scope_rejection_reason env (ctx_task ctx) (ctx_host ctx) = None \<and> media_bytes_exhausted env ctx = Inr False \<and>
    limit_rejection_reason env adv ctx = None"
proof (cases "prerequisite_evaluate env now (ctx_task ctx) (ctx_closed ctx) keys r")
  case (Pair d r')
  then show ?thesis
    using prerequisite_None [of env now "ctx_task ctx" "ctx_closed ctx" keys r]
      prerequisite_reject [of env now "ctx_task ctx" "ctx_closed ctx" keys r]
    by (cases d; cases "media_bytes_exhausted env ctx")
      (auto simp: admit_evaluate_def Let_def split: option.splits bool.splits)
qed

lemma admit_decision:
  assumes "fst (admit_evaluate env now ctx keys adv r) = Inr d"
  shows "dec_normalized_url d = task_url (ctx_task ctx) \<and> (dec_accepted d \<longleftrightarrow> dec_reason d = ACCEPTED) \<and>
    dec_task d = (if dec_accepted d then Some (ctx_task ctx) else None)"
proof (cases "prerequisite_evaluate env now (ctx_task ctx) (ctx_closed ctx) keys r")
  case (Pair d' r')
  then show ?thesis
    using assms prerequisite_reject [of env now "ctx_task ctx" "ctx_closed ctx" keys r]
      reasons_not_accepted
    by (cases d') (auto simp: admit_evaluate_def Let_def split: option.splits bool.splits sum.splits)
qed

lemma kind_pending_base:
  "base_pending_limit env kind qsize = Some l \<Longrightarrow> qsize' \<le> qsize \<Longrightarrow> qsize < cfg_queue_critical_watermark (env_settings env) \<Longrightarrow>
    base_pending_limit env kind qsize' = None \<or> (\<exists>l'. base_pending_limit env kind qsize' = Some l' \<and> l \<le> l')"
  by (auto simp: base_pending_limit_def pressure_host_limit_def is_critical_backpressure_def is_high_backpressure_def Let_def
      split: option.splits if_splits)

lemma base_pending_None:
  "base_pending_limit env kind qsize = None \<Longrightarrow> qsize' \<le> qsize \<Longrightarrow> qsize < cfg_queue_critical_watermark (env_settings env) \<Longrightarrow>
    base_pending_limit env kind qsize' = None"
  by (auto simp: base_pending_limit_def pressure_host_limit_def is_critical_backpressure_def is_high_backpressure_def Let_def
      split: option.splits if_splits)

lemma kind_pending_limit_nonneg: "kind_pending_limit kind limits = Some l \<Longrightarrow> 0 \<le> l"
  by (auto simp: kind_pending_limit_def split: option.splits if_splits)

lemma pressure_limits_in_range:
  assumes "settings_in_range s"
  shows "1 \<le> cfg_max_pending_per_host s" "cfg_max_pending_per_host_under_pressure s = Some l \<Longrightarrow> 0 \<le> l"
    "cfg_max_pending_per_host_critical s = Some l \<Longrightarrow> 0 \<le> l"
  using assms by (simp_all add: settings_in_range_def opt_at_least_def)

lemma pressure_host_limit_nonneg:
  "settings_in_range (env_settings env) \<Longrightarrow> pressure_host_limit env kind qsize = Some l \<Longrightarrow> 0 \<le> l"
  using kind_pending_limit_nonneg pressure_limits_in_range(2,3) [of "env_settings env"]
  by (force simp: pressure_host_limit_def Let_def split: option.splits if_splits)

lemma base_pending_nonneg:
  assumes "settings_in_range (env_settings env)" and "base_pending_limit env kind qsize = Some l"
  shows "0 \<le> l"
proof -
  define base_limit where "base_limit = (case kind_pending_limit kind (cfg_max_pending_per_host_by_kind (env_settings env)) of
      Some l \<Rightarrow> Some l
    | None \<Rightarrow> if cfg_max_pending_per_host (env_settings env) < 0 then None else Some (cfg_max_pending_per_host (env_settings env)))"
  have "base_limit = Some b \<Longrightarrow> 0 \<le> b" for b
    using kind_pending_limit_nonneg by (force simp: base_limit_def split: option.splits if_splits)
  moreover have "pressure_host_limit env kind qsize = Some b \<Longrightarrow> 0 \<le> b" for b
    using pressure_host_limit_nonneg [OF assms(1)] .
  moreover have "Some l = (case pressure_host_limit env kind qsize of None \<Rightarrow> base_limit
      | Some p \<Rightarrow> Some (case base_limit of None \<Rightarrow> p | Some b \<Rightarrow> min b p))"
    using assms(2) [symmetric] unfolding base_pending_limit_def Let_def base_limit_def .
  ultimately show ?thesis
    by (cases "pressure_host_limit env kind qsize"; cases base_limit) auto
qed

lemma scaled_limit_mono:
  assumes "0 \<le> f" and "scaled_limit f base = Some l"
    and "base' = None \<longrightarrow> base = None" and "\<forall>b'. base' = Some b' \<longrightarrow> 0 \<le> b' \<and> (\<forall>b. base = Some b \<longrightarrow> b' \<le> b)"
  shows "\<exists>l'. l' \<le> l \<and> scaled_limit f base' = Some l'"
proof (cases "f = 0 \<or> base = None")
  case False
  then obtain b where b: "base = Some b" and f: "f \<noteq> 0" by auto
  then obtain b' where b': "base' = Some b'" "0 \<le> b'" "b' \<le> b"
    using assms(3,4) by (cases base') auto
  have "py_round (of_int b' * f) \<le> py_round (of_int b * f)"
    using b'(3) assms(1) by (intro py_round_mono mult_right_mono) simp_all
  with b b' f assms(2) show ?thesis
    by (auto simp: scaled_limit_def split: if_splits)
qed (use assms(2) in \<open>auto simp: scaled_limit_def\<close>)

lemma coerce_discovery_factor_nonneg: "0 \<le> coerce_discovery_factor v"
  by (auto simp: coerce_discovery_factor_def split: option.splits)

lemma effective_limit_mono:
  assumes "settings_in_range (env_settings env)" and "qsize \<le> qsize'"
    and "qsize' < cfg_queue_critical_watermark (env_settings env)"
    and "effective_max_pending_limit env kind h qsize adv = Some l"
  shows "\<exists>l'. l' \<le> l \<and> effective_max_pending_limit env kind h qsize' adv = Some l'"
proof -
  let ?b = "base_pending_limit env kind qsize" and ?b' = "base_pending_limit env kind qsize'"
  have none: "?b' = None \<longrightarrow> ?b = None"
    using base_pending_None assms(2,3) by blast
  have le: "\<forall>b'. ?b' = Some b' \<longrightarrow> 0 \<le> b' \<and> (\<forall>b. ?b = Some b \<longrightarrow> b' \<le> b)"
    using base_pending_nonneg [OF assms(1)] kind_pending_base assms(2,3) by fastforce
  show ?thesis
  proof (cases "h = None \<or> \<not> adv \<or> advice_get (env_normalizer env) (env_advice env) h = None")
    case True
    then show ?thesis
      using assms(4) none le by (cases ?b') (auto simp: effective_max_pending_limit_def Let_def)
  next
    case False
    then show ?thesis
      using assms(4) scaled_limit_mono [OF coerce_discovery_factor_nonneg _ none le]
      by (auto simp: effective_max_pending_limit_def Let_def)
  qed
qed

lemma limit_None_smaller:
  assumes "settings_in_range (env_settings env)" and "q \<le> ctx_queue_size ctx"
    and "limit_rejection_reason env adv ctx = None"
  shows "limit_rejection_reason env adv (ctx\<lparr>ctx_queue_size := q\<rparr>) = None"
proof (cases "task_source_type (ctx_task ctx) = ''seed''")
  case True
  then show ?thesis
    using assms(3) by (auto simp: limit_None pressure_rejection_reason_def effective_max_pending_per_host_def
        should_reject_for_high_backpressure_def)
next
  case False
  let ?t = "ctx_task ctx"
  have crit: "ctx_queue_size ctx < cfg_queue_critical_watermark (env_settings env)"
    using assms(3) False by (simp add: limit_None)
  have "pressure_rejection_reason env ?t q = None"
    using assms(2,3) crit by (auto simp: limit_None pressure_rejection_reason_def is_critical_backpressure_def
        is_high_backpressure_def split: if_splits)
  moreover have "pending_for_limit env ctx < l"
    if l: "effective_max_pending_per_host env ?t (ctx_host ctx) q adv = Some l" for l
    using effective_limit_mono [OF assms(1,2) crit, where l = l and kind = "task_kind ?t" and h = "ctx_host ctx" and adv = adv]
      l assms(3) False by (auto simp: limit_None effective_max_pending_per_host_def)
  moreover have "pending_for_limit env (ctx\<lparr>ctx_queue_size := q\<rparr>) = pending_for_limit env ctx"
    by (simp add: pending_for_limit_def Let_def)
  ultimately show ?thesis
    using assms(2,3) crit by (auto simp: limit_None)
qed

lemma admission_decision_shape:
  assumes "ctx_host ctx = None \<or> env_normalizer env (ctx_host ctx) \<noteq> None"
  shows "\<exists>d. fst (admit_evaluate env now ctx keys adv r) = Inr d \<and> dec_normalized_url d = task_url (ctx_task ctx) \<and>
    (dec_accepted d \<longleftrightarrow> dec_reason d = ACCEPTED) \<and>
    dec_task d = (if dec_accepted d then Some (ctx_task ctx) else None) \<and>
    (ctx_closed ctx \<longrightarrow> dec_reason d = SCHEDULER_CLOSED) \<and>
    snd (admit_evaluate env now ctx keys adv r) \<in> {r, purge_expired now r}"
proof -
  have "\<exists>b. media_bytes_exhausted env ctx = Inr b"
    using assms by (auto simp: media_bytes_exhausted_def media_budget_exhausted_def require_host_def Let_def
        split: option.splits)
  then obtain b where b: "media_bytes_exhausted env ctx = Inr b" by blast
  have state: "snd (prerequisite_evaluate env now t c keys r) \<in> {r, purge_expired now r}" for t c
    by (auto simp: prerequisite_evaluate_def identity_seen_def is_seen_def Let_def split: option.splits prod.splits bool.splits)
  obtain p r' where p: "prerequisite_evaluate env now (ctx_task ctx) (ctx_closed ctx) keys r = (p, r')"
    by fastforce
  have "\<exists>d. admit_evaluate env now ctx keys adv r = (Inr d, r')"
    using b p by (auto simp: admit_evaluate_def Let_def split: option.split bool.split)
  then obtain d where d: "admit_evaluate env now ctx keys adv r = (Inr d, r')" by blast
  moreover have "ctx_closed ctx \<Longrightarrow> dec_reason d = SCHEDULER_CLOSED"
    using d by (auto simp: admit_evaluate_def Let_def prerequisite_evaluate_def)
  ultimately show ?thesis
    using admit_decision [of env now ctx keys adv r d] state [of "ctx_task ctx" "ctx_closed ctx"] p by simp
qed

section \<open>Properties\<close>


text \<open>An environment for the concrete instances: one source scope, default settings.\<close>

definition sample_env :: admission_env where
  "sample_env = \<lparr>env_settings = default_settings, env_normalizer = lower_host, env_url_filter = Some
     \<lparr>filter_allows_task = (\<lambda>t. True), filter_restrict_to_seed_hosts = False\<rparr>, env_blacklist = Some (\<lambda>u. False),
     env_run_feedback = Some empty_feedback, env_normalize_url = (\<lambda>u. u), env_split_url = sample_splitter,
     env_media_page = (\<lambda>u c. False), env_scopes = [(''noaa'', sample_scope)],
     env_budget = Some (sample_budget, empty_aggregator None default_feedback_settings),
     env_media_budget = Some (empty_byte_budget 100 []),
     env_advice = \<lparr>adv_ttl_seconds = None, adv_max_hosts = 4, adv_entries = []\<rparr>\<rparr>"

definition sample_link :: crawl_task where
  "sample_link = (sample_page ''https://noaa.gov/x'')\<lparr>task_source_name := ''noaa'', task_source_type := ''link'', task_depth := 1\<rparr>"

definition sample_context :: "int \<Rightarrow> admission_context" where
  "sample_context q = \<lparr>ctx_task = sample_link, ctx_host = Some ''noaa.gov'', ctx_source = None, ctx_now = 0,
     ctx_queue_size = q, ctx_host_pending = 3, ctx_closed = False, ctx_kind_host_pending = 3\<rparr>"

definition sample_seen :: seen_url_registry where
  "sample_seen = \<lparr>max_seen = 10, ttl_seconds = None, seen = []\<rparr>"

lemma sample_accepted:
  "fst (admit_evaluate sample_env 0 (sample_context 5) None True sample_seen) =
    Inr (accept_decision ''https://noaa.gov/x'' sample_link)"
  by code_simp


text \<open>Pressure only ever tightens admission: with settings in their ranges, a task accepted at
  some queue size would, all else equal, be accepted at every smaller one, so no watermark,
  kind limit or discovery factor makes a fuller queue more permissive.\<close>

theorem admission_antimonotone_in_queue_size:
  assumes "settings_in_range (env_settings env)" and "q \<le> ctx_queue_size ctx"
    and "fst (admit_evaluate env now ctx keys adv r) = Inr d" and "dec_accepted d"
  shows "fst (admit_evaluate env now (ctx\<lparr>ctx_queue_size := q\<rparr>) keys adv r) = Inr d"
proof -
  let ?c = "ctx\<lparr>ctx_queue_size := q\<rparr>"
  have acc: "prerequisites_met env (ctx_task ctx) (ctx_closed ctx) \<and> \<not> fst (identity_seen now (ctx_task ctx) keys r) \<and>
    scope_rejection_reason env (ctx_task ctx) (ctx_host ctx) = None \<and> media_bytes_exhausted env ctx = Inr False \<and>
    limit_rejection_reason env adv ctx = None"
    using admit_accepted_iff [of env now ctx keys adv r] assms(3,4) by auto
  moreover have "limit_rejection_reason env adv ?c = None"
    using limit_None_smaller [OF assms(1,2)] acc by blast
  moreover have "media_bytes_exhausted env ?c = media_bytes_exhausted env ctx"
    by (cases "ctx_host ctx"; cases "env_media_budget env") (simp_all add: media_bytes_exhausted_def)
  ultimately obtain d' where d': "fst (admit_evaluate env now ?c keys adv r) = Inr d'" "dec_accepted d'"
    using admit_accepted_iff [of env now ?c keys adv r] by auto
  have "d' = d"
    using admit_decision [OF d'(1)] admit_decision [OF assms(3)] d'(2) assms(4) by simp
  with d' show ?thesis by simp
qed

theorem admission_antimonotone_in_queue_size_witness:
  "fst (admit_evaluate sample_env 0 ((sample_context 5)\<lparr>ctx_queue_size := 1\<rparr>) None True sample_seen) =
    Inr (accept_decision ''https://noaa.gov/x'' sample_link)"
proof -
  have "settings_in_range (env_settings sample_env)"
    by (simp add: sample_env_def default_settings_in_range)
  then show ?thesis
    using admission_antimonotone_in_queue_size [OF _ _ sample_accepted] by (simp add: sample_context_def)
qed

text \<open>A decision is well formed: it names the URL of the task, its reason is \<open>accepted\<close> exactly
  when it accepts, and it carries the task exactly then. With a host the normaliser accepts,
  or none, the evaluation never raises. A closed scheduler rejects every task as closed,
  and the only thing an evaluation changes is to drop expired identities.\<close>

theorem admission_decision_well_formed:
  assumes "ctx_host ctx = None \<or> env_normalizer env (ctx_host ctx) \<noteq> None"
  shows "\<exists>d. fst (admit_evaluate env now ctx keys adv r) = Inr d \<and> dec_normalized_url d = task_url (ctx_task ctx) \<and>
    (dec_accepted d \<longleftrightarrow> dec_reason d = ACCEPTED) \<and>
    dec_task d = (if dec_accepted d then Some (ctx_task ctx) else None) \<and>
    (ctx_closed ctx \<longrightarrow> dec_reason d = SCHEDULER_CLOSED) \<and>
    snd (admit_evaluate env now ctx keys adv r) \<in> {r, purge_expired now r}"
  using assms by (rule admission_decision_shape)

theorem admission_decision_well_formed_witness:
  "\<exists>d. fst (admit_evaluate sample_env 0 (sample_context 170) None True sample_seen) = Inr d \<and>
    (dec_accepted d \<longleftrightarrow> dec_reason d = ACCEPTED)"
proof -
  have "env_normalizer sample_env (ctx_host (sample_context 170)) \<noteq> None"
    by (simp add: sample_env_def sample_context_def lower_host_def)
  then show ?thesis
    using admission_decision_well_formed [of "sample_context 170" sample_env 0 None True sample_seen] by blast
qed

text \<open>Seeds are exempt from scope, pressure, host limits and crawl budgets: for a seed task the
  outcome of the evaluation depends on nothing but the prerequisites and the byte budget of
  its host, whatever the queue, the pending counts and the host advice are.\<close>

theorem seeds_bypass_pressure:
  assumes "task_source_type (ctx_task ctx) = ''seed''"
  shows "fst (admit_evaluate env now ctx keys adv r) =
    (case fst (prerequisite_evaluate env now (ctx_task ctx) (ctx_closed ctx) keys r) of
       Some d \<Rightarrow> Inr d
     | None \<Rightarrow> map_sum id (\<lambda>exhausted. if exhausted then reject_decision SCHEDULER_BACKPRESSURE (task_url (ctx_task ctx))
         else accept_decision (task_url (ctx_task ctx)) (ctx_task ctx)) (media_bytes_exhausted env ctx))"
proof -
  have "scope_rejection_reason env (ctx_task ctx) (ctx_host ctx) = None"
    using assms by (simp add: scope_rejection_reason_def)
  moreover have "limit_rejection_reason env adv ctx = None"
    using assms by (auto simp: limit_None pressure_rejection_reason_def should_reject_for_high_backpressure_def
        hostility_rejection_reason_def effective_max_pending_per_host_def crawl_budget_rejection_reason_def)
  ultimately show ?thesis
    by (auto simp: admit_evaluate_def Let_def split: option.splits prod.splits sum.splits)
qed

theorem seeds_bypass_pressure_witness:
  "fst (admit_evaluate sample_env 0 \<lparr>ctx_task = sample_page ''https://noaa.gov'', ctx_host = None, ctx_source = None,
     ctx_now = 0, ctx_queue_size = 10000, ctx_host_pending = 500, ctx_closed = False, ctx_kind_host_pending = 500\<rparr>
     None True sample_seen) = Inr (accept_decision ''https://noaa.gov'' (sample_page ''https://noaa.gov''))"
proof -
  have "fst (prerequisite_evaluate sample_env 0 (sample_page ''https://noaa.gov'') False None sample_seen) = None"
    by code_simp
  then show ?thesis
    using seeds_bypass_pressure [where env = sample_env and now = 0 and keys = None and adv = True and r = sample_seen and
      ctx = "\<lparr>ctx_task = sample_page ''https://noaa.gov'', ctx_host = None, ctx_source = None, ctx_now = 0,
        ctx_queue_size = 10000, ctx_host_pending = 500, ctx_closed = False, ctx_kind_host_pending = 500\<rparr>"]
    by (simp add: sample_page_def media_bytes_exhausted_def sample_env_def)
qed

end
