(* ===== verification/Frontier.thy ===== *)
theory Frontier imports
  Admission
  Host_Eligibility
begin

text \<open>
  The state of the scheduler and its frontier, \<open>crawler/scheduling/admission/scheduler_frontier.py\<close>:
  evaluating, enqueuing and recording tasks under the scheduler's lock. One record holds the
  state that the components of \<open>UrlScheduler\<close> share; an operation of the source that runs
  under the lock is one function on it. Clock readings are arguments, one per operation and
  clock; notifications and log output are left out.
\<close>

section \<open>The state of the scheduler\<close>

record scheduler =
  sch_queue :: "crawl_task host_task_queue"
  sch_delayed :: "crawl_task delayed_task_queue"
  sch_eligibility :: host_eligibility_queue
  sch_registry :: active_task_registry
  sch_seen :: seen_url_registry
  sch_progress :: scheduler_progress_state
  sch_retry :: retry_budget
  sch_feedback :: run_url_feedback
  sch_advice :: advice_tracker
  sch_runtime :: scheduler_runtime_state

text \<open>The fixed collaborators, and the two clocks: wall time and the monotonic clock.\<close>

record frontier_config =
  fro_env :: admission_env
  fro_normalize :: "string \<Rightarrow> string option"
  fro_extract :: "string \<Rightarrow> host"
  fro_priority :: "crawl_task \<Rightarrow> int"

record instant =
  wall_time :: real
  monotonic_time :: real

abbreviation fro_nrm :: "frontier_config \<Rightarrow> host \<Rightarrow> host" where
  "fro_nrm cfg \<equiv> env_normalizer (fro_env cfg)"

definition canonical_host_from_url :: "frontier_config \<Rightarrow> string \<Rightarrow> host" where
  "canonical_host_from_url cfg u = fro_nrm cfg (fro_extract cfg u)"

text \<open>The admission environment with the current run feedback and host advice.\<close>

definition live_env :: "frontier_config \<Rightarrow> scheduler \<Rightarrow> admission_env" where
  "live_env cfg s = (fro_env cfg)\<lparr>env_run_feedback := Some (sch_feedback s), env_advice := sch_advice s\<rparr>"

definition queue_size_total :: "scheduler \<Rightarrow> int" where
  "queue_size_total s = queue_size (sch_queue s) + delayed_size (sch_delayed s)"

section \<open>Enqueuing\<close>

definition enqueue_context :: "frontier_config \<Rightarrow> instant \<Rightarrow> crawl_task \<Rightarrow> host \<Rightarrow> scheduler \<Rightarrow> admission_context" where
  "enqueue_context cfg now t h s = \<lparr>ctx_task = t, ctx_host = h, ctx_source = Some (task_source_type t),
     ctx_now = monotonic_time now, ctx_queue_size = queue_size_total s,
     ctx_host_pending = backlog_host_pending (fro_nrm cfg) (sch_queue s) h,
     ctx_closed = run_closed (sch_runtime s),
     ctx_kind_host_pending = kind_host_pending_if_needed (cfg_max_feeds_per_host (env_settings (fro_env cfg)))
       (sch_queue s) t h\<rparr>"

definition evaluate_enqueue_decision ::
  "frontier_config \<Rightarrow> instant \<Rightarrow> crawl_task \<Rightarrow> host \<Rightarrow> scheduler \<Rightarrow> schedule_decision result \<times> scheduler" where
  "evaluate_enqueue_decision cfg now t h s =
    (case admit_evaluate (live_env cfg s) (wall_time now) (enqueue_context cfg now t h s) None True (sch_seen s) of
       (d, seen') \<Rightarrow> (d, s\<lparr>sch_seen := seen'\<rparr>))"

definition reserve_high_pressure_drain_slot ::
  "frontier_config \<Rightarrow> crawl_task \<Rightarrow> int \<Rightarrow> scheduler_progress_state \<Rightarrow> int option \<times> scheduler_progress_state" where
  "reserve_high_pressure_drain_slot cfg t qsize p =
    (let pressure_state = queue_pressure_state (fro_env cfg) qsize in
     if pressure_state = ''high'' \<and> task_source_type t \<noteq> ''seed''
     then (if is_coverage_recovery_target_task t then (Some 0, p)
       else (case reserve_drain_budget 1 p of (reserved, p) \<Rightarrow>
         if reserved \<le> 0 then (None, p) else (Some reserved, p)))
     else (Some 0, if pressure_state \<noteq> ''high'' then reset_drain_budget_window p else p))"

text \<open>
  The delayed push returns whether it took the task; a wait of zero or none goes to the ready
  queue.
\<close>

definition record_accepted_task_locked ::
  "frontier_config \<Rightarrow> instant \<Rightarrow> crawl_task \<Rightarrow> host \<Rightarrow> int \<Rightarrow> real option \<Rightarrow> bool \<Rightarrow> scheduler \<Rightarrow> unit result \<times> scheduler" where
  "record_accepted_task_locked cfg now t h sequence delayed_wait_seconds count_acceptance s =
    (let s = (if count_acceptance then s\<lparr>sch_progress := record_accepted_task (sch_progress s)\<rparr> else s);
         s = s\<lparr>sch_seen := snd (remember (wall_time now) (scheduler_task_identity_key t) (sch_seen s))\<rparr>;
         ready = s\<lparr>sch_queue := push (fro_nrm cfg) h (task_priority t) sequence t (sch_queue s)\<rparr>
     in case delayed_wait_seconds of
          None \<Rightarrow> (Inr (), ready)
        | Some w \<Rightarrow>
           if 0 < w then
             (case delayed_push (fro_nrm cfg) (monotonic_time now) h (task_priority t) sequence t (PyFloat (Fin w)) PyNone
                (sch_delayed s) of
               (Inl e, d) \<Rightarrow> (Inl e, s\<lparr>sch_delayed := d\<rparr>)
             | (Inr True, d) \<Rightarrow> (Inr (), s\<lparr>sch_delayed := d\<rparr>)
             | (Inr False, d) \<Rightarrow> (Inr (), ready\<lparr>sch_delayed := d\<rparr>))
           else (Inr (), ready))"

type_synonym enqueue_result = "schedule_decision \<times> crawl_task option \<times> int option"

definition reject_enqueue :: "schedule_decision \<Rightarrow> scheduler \<Rightarrow> enqueue_result result \<times> scheduler" where
  "reject_enqueue d s = (Inr (d, None, None), s\<lparr>sch_progress := record_rejected_decision d (sch_progress s)\<rparr>)"

text \<open>After acceptance: the priority, the sequence number, the queue, and the reservation.\<close>

definition schedule_accepted ::
  "frontier_config \<Rightarrow> instant \<Rightarrow> crawl_task \<Rightarrow> host \<Rightarrow> int \<Rightarrow> scheduler \<Rightarrow> enqueue_result result \<times> scheduler" where
  "schedule_accepted cfg now t h drain_reservation s =
    (case prepare_for_enqueue t (fro_priority cfg) of
       Inl e \<Rightarrow> (Inl e, s)
     | Inr scheduled_task \<Rightarrow>
        (case allocate_sequence (sch_runtime s) of (sequence, runtime) \<Rightarrow>
          (case record_accepted_task_locked cfg now scheduled_task h sequence None True (s\<lparr>sch_runtime := runtime\<rparr>) of (r, s) \<Rightarrow>
            (let s = (if 0 < drain_reservation
                then s\<lparr>sch_progress := release_drain_budget_reservation drain_reservation (sch_progress s)\<rparr> else s)
             in (case r of Inl e \<Rightarrow> Inl e
                | Inr _ \<Rightarrow> Inr (accept_decision (task_url scheduled_task) scheduled_task, Some scheduled_task, Some sequence), s)))))"

definition enqueue_canonical ::
  "frontier_config \<Rightarrow> instant \<Rightarrow> crawl_task \<Rightarrow> scheduler \<Rightarrow> enqueue_result result \<times> scheduler" where
  "enqueue_canonical cfg now t s =
    (let h = canonical_host_from_url cfg (task_url t) in
     case evaluate_enqueue_decision cfg now t h s of
       (Inl e, s) \<Rightarrow> (Inl e, s)
     | (Inr decision, s) \<Rightarrow>
        if \<not> dec_accepted decision then reject_enqueue decision s
        else (case reserve_high_pressure_drain_slot cfg t (queue_size_total s) (sch_progress s) of
           (None, p) \<Rightarrow> reject_enqueue (reject_decision SCHEDULER_BACKPRESSURE (task_url t)) (s\<lparr>sch_progress := p\<rparr>)
         | (Some drain_reservation, p) \<Rightarrow> schedule_accepted cfg now t h drain_reservation (s\<lparr>sch_progress := p\<rparr>)))"

definition enqueue_locked ::
  "frontier_config \<Rightarrow> instant \<Rightarrow> string \<Rightarrow> crawl_task \<Rightarrow> scheduler \<Rightarrow> enqueue_result result \<times> scheduler" where
  "enqueue_locked cfg now raw_id task s =
    (case ensure_id raw_id task of
       Inl e \<Rightarrow> (Inl e, s)
     | Inr task_with_identity \<Rightarrow>
        (case or_else (fro_normalize cfg (task_url task_with_identity)) [] of
           [] \<Rightarrow> reject_enqueue (reject_decision INVALID_URL (task_url task_with_identity)) s
         | u # us \<Rightarrow>
            (case clone task_with_identity (no_changes\<lparr>new_url := Some (u # us)\<rparr>) of
              Inl e \<Rightarrow> (Inl e, s)
            | Inr canonical_task \<Rightarrow> enqueue_canonical cfg now canonical_task s)))"

text \<open>A batch: one identifier per task; an exception ends it.\<close>

fun enqueue_many_locked ::
  "frontier_config \<Rightarrow> instant \<Rightarrow> (string \<times> crawl_task) list \<Rightarrow> scheduler \<Rightarrow> schedule_decision list result \<times> scheduler" where
  "enqueue_many_locked cfg now [] s = (Inr [], s)"
| "enqueue_many_locked cfg now ((raw_id, task) # tasks) s =
    (case enqueue_locked cfg now raw_id task s of
       (Inl e, s) \<Rightarrow> (Inl e, s)
     | (Inr (decision, _, _), s) \<Rightarrow>
        (case enqueue_many_locked cfg now tasks s of (r, s) \<Rightarrow> (map_sum id (\<lambda>ds. decision # ds) r, s)))"

text \<open>Read-only scope verdicts for discovery candidates.\<close>

fun discovery_scope_decisions_locked ::
  "frontier_config \<Rightarrow> crawl_task list \<Rightarrow> (string \<times> bool) list result" where
  "discovery_scope_decisions_locked cfg [] = Inr []"
| "discovery_scope_decisions_locked cfg (task # tasks) =
    (case or_else (fro_normalize cfg (task_url task)) [] of
       [] \<Rightarrow> discovery_scope_decisions_locked cfg tasks
     | u # us \<Rightarrow>
        and_then (clone task (no_changes\<lparr>new_url := Some (u # us)\<rparr>)) (\<lambda>canonical_task.
        map_sum id (\<lambda>ds. (task_url canonical_task,
            scope_rejection_reason (fro_env cfg) canonical_task (canonical_host_from_url cfg (task_url canonical_task)) = None) # ds)
          (discovery_scope_decisions_locked cfg tasks)))"

section \<open>The invariant of the scheduler\<close>

definition record_item :: "active_task_record \<Rightarrow> crawl_task queue_item" where
  "record_item r = (rec_host r, rec_priority r, rec_sequence r, rec_task r)"

definition record_items :: "record_dict \<Rightarrow> crawl_task queue_item multiset" where
  "record_items m = image_mset (\<lambda>x. record_item (snd x)) (mset m)"

definition registry_items :: "active_task_registry \<Rightarrow> crawl_task queue_item multiset" where
  "registry_items r = record_items (active_records r) + record_items (dispatching_records r) +
     record_items (dead_letter_pending_records r)"

text \<open>Every task the scheduler is responsible for, with its host, priority and sequence number.\<close>

definition tracked :: "scheduler \<Rightarrow> crawl_task queue_item multiset" where
  "tracked s = queued_items (sch_queue s) + delayed_items (sch_delayed s) + registry_items (sch_registry s)"

definition item_sequence :: "crawl_task queue_item \<Rightarrow> int" where
  "item_sequence x = fst (snd (snd x))"

definition components_ok :: "(host \<Rightarrow> host) \<Rightarrow> scheduler \<Rightarrow> bool" where
  "components_ok nrm s \<longleftrightarrow> htq_inv nrm (sch_queue s) \<and> dtq_inv nrm (sch_delayed s) \<and> heq_inv (sch_eligibility s) \<and>
     atr_inv nrm (sch_registry s) \<and> sur_inv (sch_seen s) \<and> progress_inv (sch_progress s) \<and> budget_ok (sch_retry s)"

text \<open>Sequence numbers are unique and below the next one, so tasks of equal priority are first in, first out.\<close>

definition sequences_ok :: "scheduler \<Rightarrow> bool" where
  "sequences_ok s \<longleftrightarrow> (\<forall>n. count (image_mset item_sequence (tracked s)) n \<le> 1) \<and>
     (\<forall>x\<in>#tracked s. item_sequence x < next_sequence_value (sch_runtime s))"

definition scheduler_inv :: "(host \<Rightarrow> host) \<Rightarrow> scheduler \<Rightarrow> bool" where
  "scheduler_inv nrm s \<longleftrightarrow> components_ok nrm s \<and> sequences_ok s"

section \<open>Lemmas\<close>

lemma sequences_ok_subset:
  assumes "sequences_ok s" and "tracked s' \<subseteq># tracked s"
    and "next_sequence_value (sch_runtime s') = next_sequence_value (sch_runtime s)"
  shows "sequences_ok s'"
proof -
  have "count (image_mset item_sequence (tracked s')) n \<le> count (image_mset item_sequence (tracked s)) n" for n
    using image_mset_subseteq_mono [OF assms(2)] by (rule mset_subset_eq_count)
  then have "count (image_mset item_sequence (tracked s')) n \<le> 1" for n
    using assms(1) le_trans unfolding sequences_ok_def by blast
  moreover have "x \<in># tracked s" if "x \<in># tracked s'" for x
    using assms(2) that by (rule mset_subset_eqD)
  ultimately show ?thesis
    using assms(1,3) by (simp add: sequences_ok_def)
qed

lemma sequences_ok_add:
  assumes "sequences_ok s" and "tracked s' = add_mset x (tracked s)"
    and "item_sequence x = next_sequence_value (sch_runtime s)"
    and "next_sequence_value (sch_runtime s') = next_sequence_value (sch_runtime s) + 1"
  shows "sequences_ok s'"
proof -
  have "count (image_mset item_sequence (tracked s)) (item_sequence x) = 0"
    using assms(1,3) by (force simp: sequences_ok_def count_eq_zero_iff)
  then have "count (image_mset item_sequence (tracked s')) n \<le> 1" for n
    using assms(1,2) by (cases "item_sequence x = n") (auto simp: sequences_ok_def)
  moreover have "item_sequence y < next_sequence_value (sch_runtime s')" if "y \<in># tracked s'" for y
    using assms that by (auto simp: sequences_ok_def)
  ultimately show ?thesis
    by (simp add: sequences_ok_def)
qed

text \<open>The frame of an operation that only touches the counters and the seen identities.\<close>

definition same_work :: "scheduler \<Rightarrow> scheduler \<Rightarrow> bool" where
  "same_work s s' \<longleftrightarrow> sch_queue s' = sch_queue s \<and> sch_delayed s' = sch_delayed s \<and>
     sch_eligibility s' = sch_eligibility s \<and> sch_registry s' = sch_registry s \<and> sch_retry s' = sch_retry s \<and>
     sch_feedback s' = sch_feedback s \<and> sch_advice s' = sch_advice s \<and> sch_runtime s' = sch_runtime s"

lemma same_work_tracked: "same_work s s' \<Longrightarrow> tracked s' = tracked s"
  by (simp add: same_work_def tracked_def)

lemma same_work_inv:
  assumes "scheduler_inv nrm s" and "same_work s s'" and "sur_inv (sch_seen s')" and "progress_inv (sch_progress s')"
  shows "scheduler_inv nrm s'"
proof -
  have "sequences_ok s"
    using assms(1) by (simp add: scheduler_inv_def)
  moreover have "next_sequence_value (sch_runtime s') = next_sequence_value (sch_runtime s)"
    using assms(2) by (simp add: same_work_def)
  ultimately have "sequences_ok s'"
    using same_work_tracked [OF assms(2)] sequences_ok_subset [of s s'] by simp
  with assms show ?thesis
    by (simp add: scheduler_inv_def components_ok_def same_work_def)
qed

lemma inv_parts:
  assumes "scheduler_inv nrm s"
  shows "htq_inv nrm (sch_queue s)" "dtq_inv nrm (sch_delayed s)" "heq_inv (sch_eligibility s)"
    "atr_inv nrm (sch_registry s)" "sur_inv (sch_seen s)" "progress_inv (sch_progress s)" "budget_ok (sch_retry s)"
    "sequences_ok s"
  using assms by (simp_all add: scheduler_inv_def components_ok_def)

lemma reset_window_inv: "progress_inv p \<Longrightarrow> progress_inv (reset_drain_budget_window p)"
  by (simp add: progress_inv_def reset_drain_budget_window_def)

lemma reserve_slot_inv: "progress_inv p \<Longrightarrow> progress_inv (snd (reserve_high_pressure_drain_slot cfg t n p))"
  using reserve_inv [of p 1] reset_window_inv [of p]
  by (auto simp: reserve_high_pressure_drain_slot_def Let_def split: prod.split)

lemma evaluate_frame:
  assumes "evaluate_enqueue_decision cfg now t h s = (d, s')" and "sur_inv (sch_seen s)"
    and "h = None \<or> fro_nrm cfg h \<noteq> None"
  shows "same_work s s' \<and> sch_progress s' = sch_progress s \<and> sur_inv (sch_seen s') \<and>
    (sch_seen s' = sch_seen s \<or> sch_seen s' = purge_expired (wall_time now) (sch_seen s)) \<and>
    (\<exists>decision. d = Inr decision \<and> dec_normalized_url decision = task_url t \<and>
       (dec_accepted decision \<longleftrightarrow> dec_reason decision = ACCEPTED))"
proof -
  obtain seen' where e: "admit_evaluate (live_env cfg s) (wall_time now) (enqueue_context cfg now t h s) None True (sch_seen s) = (d, seen')"
    and s': "s' = s\<lparr>sch_seen := seen'\<rparr>"
    using assms(1) by (auto simp: evaluate_enqueue_decision_def split: prod.splits)
  have "ctx_host (enqueue_context cfg now t h s) = h" "env_normalizer (live_env cfg s) = fro_nrm cfg"
    "ctx_task (enqueue_context cfg now t h s) = t"
    by (simp_all add: enqueue_context_def live_env_def)
  then have "seen' = sch_seen s \<or> seen' = purge_expired (wall_time now) (sch_seen s)"
    "\<exists>decision. d = Inr decision \<and> dec_normalized_url decision = task_url t \<and>
       (dec_accepted decision \<longleftrightarrow> dec_reason decision = ACCEPTED)"
    using admission_decision_shape [of "enqueue_context cfg now t h s" "live_env cfg s" "wall_time now" None True "sch_seen s"]
      assms(3) e by auto
  then show ?thesis
    using assms(2) purge_inv by (auto simp: s' same_work_def)
qed

lemma record_accepted_effect:
  assumes "host_canonical nrm" and "nrm = fro_nrm cfg" and "components_ok nrm s"
    and "record_accepted_task_locked cfg now t h n w c s = (r, s')"
  shows "r = Inr () \<and> components_ok nrm s' \<and> tracked s' = add_mset (nrm h, task_priority t, n, t) (tracked s) \<and>
    sch_seen s' = snd (remember (wall_time now) (scheduler_task_identity_key t) (sch_seen s)) \<and>
    sch_progress s' = (if c then record_accepted_task (sch_progress s) else sch_progress s) \<and>
    sch_runtime s' = sch_runtime s \<and> sch_registry s' = sch_registry s \<and>
    queue_size_total s' = queue_size_total s + 1"
proof -
  have inv: "htq_inv nrm (sch_queue s)" "dtq_inv nrm (sch_delayed s)"
    using assms(3) by (simp_all add: components_ok_def)
  have push: "htq_inv nrm (push nrm h (task_priority t) n t (sch_queue s))"
    "queued_items (push nrm h (task_priority t) n t (sch_queue s)) = add_mset (nrm h, task_priority t, n, t) (queued_items (sch_queue s))"
    "queue_size (push nrm h (task_priority t) n t (sch_queue s)) = queue_size (sch_queue s) + 1"
    using host_canonical.push_inv [OF assms(1) inv(1)] host_canonical.push_items [OF assms(1) inv(1)]
    by (simp_all add: push_def queue_size_def Let_def)
  define d where "d = snd (delayed_push nrm (monotonic_time now) h (task_priority t) n t (PyFloat (Fin (or_else w 0))) PyNone (sch_delayed s))"
  have later: "dtq_inv nrm d" if "w \<noteq> None" "0 < or_else w 0"
    using host_canonical.delayed_push_inv [OF assms(1) inv(2)] by (simp add: d_def)
  have moved: "fst (delayed_push nrm (monotonic_time now) h (task_priority t) n t (PyFloat (Fin (or_else w 0))) PyNone (sch_delayed s)) = Inr True \<and>
      delayed_items d = add_mset (nrm h, task_priority t, n, t) (delayed_items (sch_delayed s)) \<and>
      delayed_size d = delayed_size (sch_delayed s) + 1" if "0 < or_else w 0"
    using that by (simp add: d_def delayed_push_def delayed_items_def delayed_size_def Let_def)
  have seen: "sur_inv (snd (remember (wall_time now) (scheduler_task_identity_key t) (sch_seen s)))"
    using assms(3) remember_inv by (simp add: components_ok_def)
  have progress: "progress_inv (record_accepted_task (sch_progress s))" "progress_inv (sch_progress s)"
    using assms(3) record_accepted_inv by (simp_all add: components_ok_def)
  show ?thesis
  proof (cases "w \<noteq> None \<and> 0 < or_else w 0")
    case True
    then obtain v where v: "w = Some v" "0 < v" by auto
    have p: "delayed_push nrm (monotonic_time now) h (task_priority t) n t (PyFloat (Fin v)) PyNone (sch_delayed s) = (Inr True, d)"
      using moved v by (cases "delayed_push nrm (monotonic_time now) h (task_priority t) n t (PyFloat (Fin v)) PyNone (sch_delayed s)")
        (simp add: d_def)
    have "r = Inr ()" and s': "s' = (if c then s\<lparr>sch_progress := record_accepted_task (sch_progress s)\<rparr> else s)
        \<lparr>sch_seen := snd (remember (wall_time now) (scheduler_task_identity_key t) (sch_seen s)), sch_delayed := d\<rparr>"
      using assms(4) v p [unfolded assms(2)]
      by (auto simp: record_accepted_task_locked_def Let_def split: if_splits)
    then show ?thesis
      using assms(3) later moved v seen progress
      by (cases c) (simp_all add: components_ok_def tracked_def queue_size_total_def)
  next
    case False
    have "r = Inr ()" and s': "s' = (if c then s\<lparr>sch_progress := record_accepted_task (sch_progress s)\<rparr> else s)
        \<lparr>sch_seen := snd (remember (wall_time now) (scheduler_task_identity_key t) (sch_seen s)),
         sch_queue := push nrm h (task_priority t) n t (sch_queue s)\<rparr>"
      using assms(4) False unfolding assms(2)
      by (auto simp: record_accepted_task_locked_def Let_def split: if_splits option.splits)
    then show ?thesis
      using assms(3) push seen progress
      by (cases c) (simp_all add: components_ok_def tracked_def queue_size_total_def)
  qed
qed

lemma available_after_admission:
  assumes "progress_inv p" and "reserve_drain_budget 1 p = (n, p')" and "0 < n"
  shows "n = 1 \<and> fst (available_drain_budget (release_drain_budget_reservation n (record_accepted_task p'))) =
    fst (available_drain_budget p) - 1"
proof -
  obtain av p1 where av: "available_drain_budget p = (av, p1)" by (cases "available_drain_budget p")
  obtain c a where base: "drain_completed_baseline p1 = Some c" "drain_accepted_baseline p1 = Some a"
    using available_window [of p] av by auto
  have n: "n = min 1 av" and p': "p' = p1\<lparr>drain_reserved := drain_reserved p1 + n\<rparr>"
    using assms(2) av by (auto simp: reserve_drain_budget_def Let_def)
  have "progress_inv p1" using available_inv [OF assms(1)] av by simp
  then have r: "0 \<le> drain_reserved p1" by (simp add: progress_inv_def)
  define X where "X = completed_total p1 - c - (accepted_total p1 - a)"
  have av_eq: "av = max 0 (X - max 0 (drain_reserved p1))"
    using available_idem [of p] av available_open [OF base] by (simp add: X_def)
  have "n = 1" using n assms(3) by simp
  moreover from this have "fst (available_drain_budget (release_drain_budget_reservation n (record_accepted_task p'))) =
      max 0 (X - 1 - max 0 (drain_reserved p1))"
    using base r by (subst available_open)
      (simp_all add: p' X_def completed_total_def release_drain_budget_reservation_def record_accepted_task_def algebra_simps)
  ultimately show ?thesis
    using n av_eq r av by (auto simp: min_def max_def split: if_splits)
qed

lemma rejected_available [simp]:
  "available_drain_budget (record_rejected_decision d p) =
    (fst (available_drain_budget p), record_rejected_decision d (snd (available_drain_budget p)))"
  by (simp add: record_rejected_decision_def available_drain_budget_def ensure_drain_budget_window_def completed_total_def Let_def)

definition scheduled_form :: "frontier_config \<Rightarrow> crawl_task \<Rightarrow> crawl_task" where
  "scheduled_form cfg t = t\<lparr>task_priority := fro_priority cfg t\<rparr>"

lemma identity_priority [simp]:
  "scheduler_task_identity_key (t\<lparr>task_priority := p\<rparr>) = scheduler_task_identity_key t"
  by (simp add: scheduler_task_identity_key_def discovered_task_identity_def)

text \<open>What an enqueue leaves behind, by its decision.\<close>

definition rejected_effect :: "(host \<Rightarrow> host) \<Rightarrow> scheduler \<Rightarrow> schedule_decision \<Rightarrow> scheduler \<Rightarrow> bool" where
  "rejected_effect nrm s d s' \<longleftrightarrow> same_work s s' \<and> sur_inv (sch_seen s') \<and>
     (\<exists>p. progress_inv p \<and> accepted_total p = accepted_total (sch_progress s) \<and>
       rejected_by_reason p = rejected_by_reason (sch_progress s) \<and>
       fst (available_drain_budget p) \<le> fst (available_drain_budget (sch_progress s)) \<and>
       sch_progress s' = record_rejected_decision d p)"

definition accepted_effect :: "frontier_config \<Rightarrow> instant \<Rightarrow> crawl_task \<Rightarrow> scheduler \<Rightarrow> scheduler \<Rightarrow> bool" where
  "accepted_effect cfg now t s s' \<longleftrightarrow>
     tracked s' = add_mset (canonical_host_from_url cfg (task_url t), fro_priority cfg t,
       next_sequence_value (sch_runtime s), scheduled_form cfg t) (tracked s) \<and>
     queue_size_total s' = queue_size_total s + 1 \<and> sch_registry s' = sch_registry s \<and>
     next_sequence_value (sch_runtime s') = next_sequence_value (sch_runtime s) + 1 \<and>
     run_closed (sch_runtime s') = run_closed (sch_runtime s) \<and>
     accepted_total (sch_progress s') = accepted_total (sch_progress s) + 1 \<and>
     (\<exists>seen'\<in>{sch_seen s, purge_expired (wall_time now) (sch_seen s)}.
       sch_seen s' = snd (remember (wall_time now) (scheduler_task_identity_key t) seen'))"

lemma rejected_effect_inv:
  "scheduler_inv nrm s \<Longrightarrow> rejected_effect nrm s d s' \<Longrightarrow> scheduler_inv nrm s'"
  by (rule same_work_inv) (auto simp: rejected_effect_def record_rejected_inv)

lemma reserve_slot_cases:
  assumes "reserve_high_pressure_drain_slot cfg t n p = (k, p')" and "progress_inv p"
  shows "progress_inv p' \<and> accepted_total p' = accepted_total p \<and> rejected_by_reason p' = rejected_by_reason p \<and>
    (k = None \<longrightarrow> fst (available_drain_budget p') \<le> fst (available_drain_budget p))"
proof -
  have "accepted_total (snd (reserve_drain_budget 1 p)) = accepted_total p \<and>
      rejected_by_reason (snd (reserve_drain_budget 1 p)) = rejected_by_reason p"
    by (simp add: reserve_drain_budget_def available_drain_budget_def ensure_drain_budget_window_def Let_def)
  moreover obtain m p1 where m: "reserve_drain_budget 1 p = (m, p1)" by fastforce
  moreover note available_after_reserve [OF assms(2) m] reserve_inv [OF assms(2), of 1] reset_window_inv [OF assms(2)]
  ultimately show ?thesis
    using assms by (auto simp: reserve_high_pressure_drain_slot_def reset_drain_budget_window_def Let_def split: if_splits)
qed

lemma schedule_accepted_effect:
  assumes "host_canonical nrm" and "nrm = fro_nrm cfg" and "scheduler_inv nrm s" and "task_ok t"
    and "nrm h = h" and "schedule_accepted cfg now t h k s = (res, s')"
  shows "res = Inr (accept_decision (task_url t) (scheduled_form cfg t), Some (scheduled_form cfg t),
      Some (next_sequence_value (sch_runtime s))) \<and> scheduler_inv nrm s' \<and>
    tracked s' = add_mset (h, fro_priority cfg t, next_sequence_value (sch_runtime s), scheduled_form cfg t) (tracked s) \<and>
    queue_size_total s' = queue_size_total s + 1 \<and> sch_registry s' = sch_registry s \<and>
    sch_runtime s' = (sch_runtime s)\<lparr>next_sequence_value := next_sequence_value (sch_runtime s) + 1\<rparr> \<and>
    sch_seen s' = snd (remember (wall_time now) (scheduler_task_identity_key t) (sch_seen s)) \<and>
    sch_progress s' = (if 0 < k then release_drain_budget_reservation k (record_accepted_task (sch_progress s))
      else record_accepted_task (sch_progress s))"
proof -
  define n where "n = next_sequence_value (sch_runtime s)"
  define s0 where "s0 = s\<lparr>sch_runtime := (sch_runtime s)\<lparr>next_sequence_value := n + 1\<rparr>\<rparr>"
  obtain r s1 where r: "record_accepted_task_locked cfg now (scheduled_form cfg t) h n None True s0 = (r, s1)"
    by fastforce
  have "components_ok nrm s0"
    using assms(3) by (simp add: scheduler_inv_def components_ok_def s0_def)
  note eff = record_accepted_effect [OF assms(1,2) this r]
  have "tracked s0 = tracked s" "queue_size_total s0 = queue_size_total s"
    by (simp_all add: s0_def tracked_def queue_size_total_def)
  then have tr: "tracked s1 = add_mset (h, fro_priority cfg t, n, scheduled_form cfg t) (tracked s)"
    using eff assms(5) by (simp add: scheduled_form_def)
  have run: "prepare_for_enqueue t (fro_priority cfg) = Inr (scheduled_form cfg t)"
    "allocate_sequence (sch_runtime s) = (n, (sch_runtime s)\<lparr>next_sequence_value := n + 1\<rparr>)"
    using prepare_for_enqueue_ok [OF assms(4)] by (simp_all add: scheduled_form_def allocate_sequence_def n_def)
  have out: "res = Inr (accept_decision (task_url t) (scheduled_form cfg t), Some (scheduled_form cfg t), Some n)"
    and s': "s' = (if 0 < k then s1\<lparr>sch_progress := release_drain_budget_reservation k (sch_progress s1)\<rparr> else s1)"
    using assms(6) eff r unfolding schedule_accepted_def run s0_def [symmetric]
    by (auto simp: scheduled_form_def Let_def s0_def [symmetric] split: if_splits)
  have parts: "tracked s' = tracked s1" "queue_size_total s' = queue_size_total s1" "sch_runtime s' = sch_runtime s1"
    "sch_registry s' = sch_registry s1" "sch_seen s' = sch_seen s1"
    by (simp_all add: s' tracked_def queue_size_total_def)
  have "sequences_ok s'"
    using assms(3) tr by (intro sequences_ok_add [of s s'])
      (auto simp: scheduler_inv_def parts item_sequence_def n_def eff s0_def)
  moreover have "components_ok nrm s'"
    using eff release_inv by (auto simp: s' components_ok_def)
  moreover have "sch_progress s' = (if 0 < k then release_drain_budget_reservation k (record_accepted_task (sch_progress s))
      else record_accepted_task (sch_progress s))"
    using eff by (simp add: s' s0_def)
  moreover have "sch_runtime s1 = (sch_runtime s)\<lparr>next_sequence_value := n + 1\<rparr>" "sch_registry s1 = sch_registry s"
    "sch_seen s1 = snd (remember (wall_time now) (scheduler_task_identity_key t) (sch_seen s))"
    "queue_size_total s1 = queue_size_total s + 1"
    using eff \<open>queue_size_total s0 = _\<close> by (simp_all add: s0_def scheduled_form_def)
  ultimately show ?thesis
    using out tr by (simp add: parts scheduler_inv_def n_def)
qed

lemma accepted_below_critical:
  assumes "evaluate_enqueue_decision cfg now t h s = (Inr d, s')" and "dec_accepted d" and "task_source_type t \<noteq> ''seed''"
  shows "queue_size_total s < cfg_queue_critical_watermark (env_settings (fro_env cfg))"
proof -
  let ?c = "enqueue_context cfg now t h s"
  have "fst (admit_evaluate (live_env cfg s) (wall_time now) ?c None True (sch_seen s)) = Inr d"
    using assms(1) by (auto simp: evaluate_enqueue_decision_def split: prod.splits)
  then have "limit_rejection_reason (live_env cfg s) True ?c = None"
    using admit_accepted_iff [of "live_env cfg s" "wall_time now" ?c None True "sch_seen s"] assms(2) by blast
  moreover have "ctx_task ?c = t" "ctx_queue_size ?c = queue_size_total s"
    "env_settings (live_env cfg s) = env_settings (fro_env cfg)"
    by (simp_all add: enqueue_context_def live_env_def)
  ultimately show ?thesis
    using assms(3) by (simp add: limit_None)
qed

lemma canonical_host_fixed:
  assumes "host_canonical (fro_nrm cfg)"
  shows "fro_nrm cfg (canonical_host_from_url cfg u) = canonical_host_from_url cfg u"
    "canonical_host_from_url cfg u = None \<or> fro_nrm cfg (canonical_host_from_url cfg u) \<noteq> None"
proof -
  show "fro_nrm cfg (canonical_host_from_url cfg u) = canonical_host_from_url cfg u"
    using host_canonical.nrm_nrm [OF assms] by (simp add: canonical_host_from_url_def)
  then show "canonical_host_from_url cfg u = None \<or> fro_nrm cfg (canonical_host_from_url cfg u) \<noteq> None"
    by (cases "canonical_host_from_url cfg u") simp_all
qed

text \<open>A task that the drain budget meters: neither a seed nor a coverage recovery.\<close>

definition metered :: "crawl_task \<Rightarrow> bool" where
  "metered t \<longleftrightarrow> task_source_type t \<noteq> ''seed'' \<and> \<not> is_coverage_recovery_target_task t"

lemma slot_of_metered:
  assumes "metered t" and "queue_pressure_state (fro_env cfg) n = ''high''"
  shows "reserve_high_pressure_drain_slot cfg t n p = (case reserve_drain_budget 1 p of (k, p') \<Rightarrow>
    if k \<le> 0 then (None, p') else (Some k, p'))"
  using assms by (simp add: reserve_high_pressure_drain_slot_def metered_def)

lemma enqueue_canonical_effect:
  assumes "host_canonical (fro_nrm cfg)" and "scheduler_inv (fro_nrm cfg) s" and "task_ok t"
    and "enqueue_canonical cfg now t s = (res, s')"
  shows "\<exists>d tk n. res = Inr (d, tk, n) \<and> scheduler_inv (fro_nrm cfg) s' \<and>
    (if dec_accepted d
     then tk = Some (scheduled_form cfg t) \<and> n = Some (next_sequence_value (sch_runtime s)) \<and>
       d = accept_decision (task_url t) (scheduled_form cfg t) \<and> accepted_effect cfg now t s s' \<and>
       (metered t \<and> is_high_backpressure (fro_env cfg) (queue_size_total s) \<longrightarrow>
         fst (available_drain_budget (sch_progress s')) = fst (available_drain_budget (sch_progress s)) - 1)
     else tk = None \<and> n = None \<and> rejected_effect (fro_nrm cfg) s d s')"
proof -
  define h where "h = canonical_host_from_url cfg (task_url t)"
  obtain e s1 where ev: "evaluate_enqueue_decision cfg now t h s = (e, s1)" by fastforce
  have frame: "same_work s s1" "sch_progress s1 = sch_progress s" "sur_inv (sch_seen s1)"
      "sch_seen s1 = sch_seen s \<or> sch_seen s1 = purge_expired (wall_time now) (sch_seen s)"
      "\<exists>decision. e = Inr decision \<and> dec_normalized_url decision = task_url t"
    using evaluate_frame [OF ev inv_parts(5) [OF assms(2)]] canonical_host_fixed(2) [OF assms(1)]
    by (auto simp: h_def)
  then obtain d where d: "e = Inr d" by blast
  have inv1: "scheduler_inv (fro_nrm cfg) s1"
    using same_work_inv [OF assms(2) frame(1,3)] frame(2) inv_parts(6) [OF assms(2)] by simp
  show ?thesis
  proof (cases "dec_accepted d")
    case False
    then have "res = Inr (d, None, None)" and s': "s' = s1\<lparr>sch_progress := record_rejected_decision d (sch_progress s1)\<rparr>"
      using assms(4) ev d by (simp_all add: enqueue_canonical_def reject_enqueue_def h_def [symmetric])
    moreover have "rejected_effect (fro_nrm cfg) s d s'"
      using frame inv_parts(6) [OF assms(2)] unfolding rejected_effect_def
      by (auto simp: s' same_work_def)
    ultimately show ?thesis
      using False rejected_effect_inv [OF assms(2)] by simp
  next
    case True
    obtain k p where slot: "reserve_high_pressure_drain_slot cfg t (queue_size_total s1) (sch_progress s1) = (k, p)"
      by fastforce
    note cases = reserve_slot_cases [OF slot inv_parts(6) [OF inv1]]
    show ?thesis
    proof (cases k)
      case None
      let ?d = "reject_decision SCHEDULER_BACKPRESSURE (task_url t)"
      have "res = Inr (?d, None, None)" and s': "s' = s1\<lparr>sch_progress := record_rejected_decision ?d p\<rparr>"
        using assms(4) ev d True None slot
        by (simp_all add: enqueue_canonical_def reject_enqueue_def h_def [symmetric])
      moreover have "rejected_effect (fro_nrm cfg) s ?d s'"
        using frame cases None unfolding rejected_effect_def by (auto simp: s' same_work_def)
      ultimately show ?thesis
        using rejected_effect_inv [OF assms(2)] by simp
    next
      case (Some m)
      define s2 where "s2 = s1\<lparr>sch_progress := p\<rparr>"
      have frame2: "same_work s s2" "tracked s2 = tracked s" "queue_size_total s2 = queue_size_total s"
        using frame(1) by (simp_all add: s2_def same_work_def tracked_def queue_size_total_def)
      have inv2: "scheduler_inv (fro_nrm cfg) s2"
        using same_work_inv [OF assms(2) frame2(1)] frame cases by (simp add: s2_def)
      have "schedule_accepted cfg now t h m s2 = (res, s')"
        using assms(4) ev d True Some slot by (simp add: enqueue_canonical_def h_def [symmetric] s2_def)
      note eff = schedule_accepted_effect [OF assms(1) refl inv2 assms(3) canonical_host_fixed(1) [OF assms(1)] this [unfolded h_def]]
      have drain: "fst (available_drain_budget (sch_progress s')) = fst (available_drain_budget (sch_progress s)) - 1"
        if m: "metered t" "is_high_backpressure (fro_env cfg) (queue_size_total s)"
      proof -
        have "queue_pressure_state (fro_env cfg) (queue_size_total s1) = ''high''"
          using accepted_below_critical [OF ev [unfolded d] True] m frame(1)
          by (auto simp: queue_pressure_state_def is_critical_backpressure_def metered_def same_work_def queue_size_total_def)
        from slot [unfolded slot_of_metered [OF m(1) this]]
        have "reserve_drain_budget 1 (sch_progress s) = (m, p)" "0 < m"
          using Some frame(2) by (auto split: prod.splits if_splits)
        with available_after_admission [OF inv_parts(6) [OF assms(2)] this] eff show ?thesis
          by (auto simp: s2_def)
      qed
      have "run_closed (sch_runtime s') = run_closed (sch_runtime s)"
        "next_sequence_value (sch_runtime s') = next_sequence_value (sch_runtime s) + 1"
        using eff frame2(1) by (simp_all add: same_work_def)
      moreover have "accepted_total (sch_progress s') = accepted_total (sch_progress s) + 1"
        using eff cases frame(2)
        by (simp add: s2_def record_accepted_task_def release_drain_budget_reservation_def)
      ultimately have "accepted_effect cfg now t s s'"
        using eff frame2 frame(1,4) unfolding accepted_effect_def by (auto simp: s2_def same_work_def)
      with eff drain frame2(1) show ?thesis
        by (auto simp: same_work_def)
    qed
  qed
qed

lemma ensure_id_fields:
  assumes "task_ok t" and "ensure_id raw t = Inr t'"
  shows "t' = t\<lparr>task_id := task_id t'\<rparr>"
  using assms by (auto simp: ensure_id_def clone_def construct_task_def task_ok_def Let_def split: if_splits)

text \<open>The canonical form of a task: with an identifier and its normalised URL.\<close>

definition canonical_form :: "frontier_config \<Rightarrow> crawl_task \<Rightarrow> crawl_task \<Rightarrow> bool" where
  "canonical_form cfg task t \<longleftrightarrow> (\<exists>i. t = task\<lparr>task_id := i, task_url := task_url t\<rparr>) \<and>
     task_url t \<noteq> [] \<and> fro_normalize cfg (task_url task) = Some (task_url t)"

lemma canonical_form_metered: "canonical_form cfg task t \<Longrightarrow> metered t = metered task"
  unfolding canonical_form_def metered_def is_coverage_recovery_target_task_def coverage_recovery_target_kind_def
  by (elim conjE exE, erule ssubst) simp

definition enqueue_result_ok :: "frontier_config \<Rightarrow> instant \<Rightarrow> crawl_task \<Rightarrow> scheduler \<Rightarrow> enqueue_result \<Rightarrow> scheduler \<Rightarrow> bool" where
  "enqueue_result_ok cfg now task s out s' \<longleftrightarrow> (case out of (d, tk, n) \<Rightarrow>
     if dec_accepted d
     then (\<exists>t. canonical_form cfg task t \<and> tk = Some (scheduled_form cfg t) \<and> d = accept_decision (task_url t) (scheduled_form cfg t) \<and>
       n = Some (next_sequence_value (sch_runtime s)) \<and> accepted_effect cfg now t s s' \<and>
       (metered task \<and> is_high_backpressure (fro_env cfg) (queue_size_total s) \<longrightarrow>
         fst (available_drain_budget (sch_progress s')) = fst (available_drain_budget (sch_progress s)) - 1))
     else tk = None \<and> n = None \<and> rejected_effect (fro_nrm cfg) s d s')"

lemma reject_enqueue_effect:
  assumes "scheduler_inv nrm s" and "reject_enqueue d s = (res, s')"
  shows "res = Inr (d, None, None) \<and> scheduler_inv nrm s' \<and> rejected_effect nrm s d s'"
proof -
  have out: "res = Inr (d, None, None)" "s' = s\<lparr>sch_progress := record_rejected_decision d (sch_progress s)\<rparr>"
    using assms(2) by (simp_all add: reject_enqueue_def)
  then have "rejected_effect nrm s d s'"
    using inv_parts(5,6) [OF assms(1)] unfolding rejected_effect_def by (auto simp: same_work_def)
  with out show ?thesis
    using rejected_effect_inv [OF assms(1)] by simp
qed

lemma enqueue_locked_effect:
  assumes "host_canonical (fro_nrm cfg)" and "scheduler_inv (fro_nrm cfg) s" and "task_ok task"
    and "enqueue_locked cfg now raw_id task s = (res, s')"
  shows "(\<exists>e. res = Inl e \<and> s' = s \<and> ensure_id raw_id task = Inl e) \<or>
    (\<exists>out. res = Inr out \<and> scheduler_inv (fro_nrm cfg) s' \<and> enqueue_result_ok cfg now task s out s')"
proof (cases "ensure_id raw_id task")
  case (Inl e)
  then show ?thesis using assms(4) by (simp add: enqueue_locked_def)
next
  case (Inr t0)
  have t0: "task_ok t0" "t0 = task\<lparr>task_id := task_id t0\<rparr>"
    using ensure_id_ok [OF assms(3) Inr] ensure_id_fields [OF assms(3) Inr] by simp_all
  then have url: "task_url t0 = task_url task" by (metis crawl_task.select_convs(1) crawl_task.surjective crawl_task.update_convs(3))
  show ?thesis
  proof (cases "or_else (fro_normalize cfg (task_url t0)) []")
    case Nil
    then have "reject_enqueue (reject_decision INVALID_URL (task_url t0)) s = (res, s')"
      using assms(4) Inr by (simp add: enqueue_locked_def)
    from reject_enqueue_effect [OF assms(2) this] show ?thesis
      by (simp add: enqueue_result_ok_def)
  next
    case (Cons u us)
    let ?t = "t0\<lparr>task_url := u # us\<rparr>"
    have n: "fro_normalize cfg (task_url task) = Some (u # us)"
      using Cons url by (cases "fro_normalize cfg (task_url t0)") simp_all
    have canonical: "canonical_form cfg task ?t"
      using n t0(2) unfolding canonical_form_def
      by (intro conjI exI [of _ "task_id t0"]) (metis crawl_task.select_convs(1) crawl_task.surjective crawl_task.update_convs(1,3), simp_all)
    then have "metered ?t = metered task"
      by (rule canonical_form_metered)
    have "enqueue_canonical cfg now ?t s = (res, s')"
      using assms(4) Inr Cons t0(1) by (simp add: enqueue_locked_def)
    then obtain d tk n where e: "res = Inr (d, tk, n)" "scheduler_inv (fro_nrm cfg) s'"
      "if dec_accepted d
       then tk = Some (scheduled_form cfg ?t) \<and> n = Some (next_sequence_value (sch_runtime s)) \<and>
         d = accept_decision (task_url ?t) (scheduled_form cfg ?t) \<and> accepted_effect cfg now ?t s s' \<and>
         (metered ?t \<and> is_high_backpressure (fro_env cfg) (queue_size_total s) \<longrightarrow>
           fst (available_drain_budget (sch_progress s')) = fst (available_drain_budget (sch_progress s)) - 1)
       else tk = None \<and> n = None \<and> rejected_effect (fro_nrm cfg) s d s'"
      using enqueue_canonical_effect [OF assms(1,2), of ?t now res s'] t0(1) by auto
    have "enqueue_result_ok cfg now task s (d, tk, n) s'"
    proof (cases "dec_accepted d")
      case True
      have "canonical_form cfg task ?t \<and> tk = Some (scheduled_form cfg ?t) \<and>
          d = accept_decision (task_url ?t) (scheduled_form cfg ?t) \<and>
          n = Some (next_sequence_value (sch_runtime s)) \<and> accepted_effect cfg now ?t s s' \<and>
          (metered task \<and> is_high_backpressure (fro_env cfg) (queue_size_total s) \<longrightarrow>
            fst (available_drain_budget (sch_progress s')) = fst (available_drain_budget (sch_progress s)) - 1)"
        using e(3) True canonical \<open>metered ?t = _\<close> by presburger
      with True show ?thesis
        unfolding enqueue_result_ok_def prod.case if_P [OF True] by (rule_tac exI)
    next
      case False
      with e(3) show ?thesis by (simp add: enqueue_result_ok_def)
    qed
    with e(1,2) show ?thesis by blast
  qed
qed

lemma rejected_size: "rejected_effect nrm s d s' \<Longrightarrow> queue_size_total s' = queue_size_total s"
  by (simp add: rejected_effect_def same_work_def queue_size_total_def)

lemma rejected_accepted_total: "rejected_effect nrm s d s' \<Longrightarrow> accepted_total (sch_progress s') = accepted_total (sch_progress s)"
  by (auto simp: rejected_effect_def record_rejected_decision_def Let_def)

lemma rejected_drain:
  "rejected_effect nrm s d s' \<Longrightarrow> fst (available_drain_budget (sch_progress s')) \<le> fst (available_drain_budget (sch_progress s))"
  by (auto simp: rejected_effect_def)

lemma enqueue_many_effect:
  assumes "host_canonical (fro_nrm cfg)" and "scheduler_inv (fro_nrm cfg) s" and "\<forall>(i, t)\<in>set tasks. task_ok t"
    and "enqueue_many_locked cfg now tasks s = (res, s')"
  shows "scheduler_inv (fro_nrm cfg) s' \<and> (\<forall>ds. res = Inr ds \<longrightarrow> length ds = length tasks \<and>
    queue_size_total s' = queue_size_total s + int (length (filter dec_accepted ds)) \<and>
    accepted_total (sch_progress s') = accepted_total (sch_progress s) + int (length (filter dec_accepted ds)) \<and>
    ((\<forall>(i, t)\<in>set tasks. metered t) \<and> is_high_backpressure (fro_env cfg) (queue_size_total s) \<longrightarrow>
      fst (available_drain_budget (sch_progress s')) + int (length (filter dec_accepted ds))
        \<le> fst (available_drain_budget (sch_progress s))))"
  using assms(2-)
proof (induction tasks arbitrary: s res s')
  case Nil
  then show ?case by auto
next
  case (Cons x tasks)
  obtain i t where x: "x = (i, t)" by fastforce
  obtain r s1 where one: "enqueue_locked cfg now i t s = (r, s1)" by fastforce
  have t: "task_ok t" using Cons.prems(2) x by simp
  from enqueue_locked_effect [OF assms(1) Cons.prems(1) t one] show ?case
  proof (elim disjE exE conjE)
    fix e assume "r = Inl e" "s1 = s"
    then show ?thesis using Cons.prems(1,3) x one by auto
  next
    fix out assume r: "r = Inr out" and inv: "scheduler_inv (fro_nrm cfg) s1" and ok: "enqueue_result_ok cfg now t s out s1"
    obtain d tk n where out: "out = (d, tk, n)" by (cases out)
    obtain r2 s2 where rest: "enqueue_many_locked cfg now tasks s1 = (r2, s2)" by fastforce
    have res: "s' = s2" "res = map_sum id (\<lambda>ds. d # ds) r2"
      using Cons.prems(3) x one r out rest by simp_all
    have "\<forall>(i, t)\<in>set tasks. task_ok t" using Cons.prems(2) by simp
    note IH = Cons.IH [OF inv this rest]
    let ?k = "if dec_accepted d then 1 else 0 :: int"
    have step: "queue_size_total s1 = queue_size_total s + ?k"
      "accepted_total (sch_progress s1) = accepted_total (sch_progress s) + ?k"
      using ok out rejected_size rejected_accepted_total
      by (auto simp: enqueue_result_ok_def accepted_effect_def split: if_splits)
    have drain: "fst (available_drain_budget (sch_progress s1)) + ?k \<le> fst (available_drain_budget (sch_progress s))"
      if "metered t" "is_high_backpressure (fro_env cfg) (queue_size_total s)"
      using ok out that rejected_drain by (auto simp: enqueue_result_ok_def split: if_splits)
    have high: "is_high_backpressure (fro_env cfg) (queue_size_total s) \<Longrightarrow> is_high_backpressure (fro_env cfg) (queue_size_total s1)"
      using step(1) by (auto simp: is_high_backpressure_def)
    show ?thesis
    proof (cases r2)
      case (Inl e)
      then show ?thesis using IH res by simp
    next
      case (Inr ds)
      then show ?thesis
        using IH res step drain high x by (cases "dec_accepted d") auto
    qed
  qed
qed

section \<open>Properties\<close>

text \<open>C16: An enqueue either takes the task or leaves the work alone. The invariant of the
  scheduler holds afterwards in any case. An accepted task is in exactly one queue, under the
  canonical host of its normalised URL, with its resolved priority and a sequence number no
  other tracked task has; it is counted once and its identity is remembered. A rejected task
  leaves every queue, the registry, the retry budget and the sequence counter as they were:
  only the rejection counters and expired identities change. An exception can come only from
  the identifier generator, and then nothing has changed.\<close>

theorem enqueue_takes_or_leaves:
  assumes "host_canonical (fro_nrm cfg)" and "scheduler_inv (fro_nrm cfg) s" and "task_ok task"
    and "enqueue_locked cfg now raw_id task s = (res, s')"
  shows "(\<exists>e. res = Inl e \<and> s' = s \<and> ensure_id raw_id task = Inl e) \<or>
    (\<exists>out. res = Inr out \<and> scheduler_inv (fro_nrm cfg) s' \<and> enqueue_result_ok cfg now task s out s')"
  using assms by (rule enqueue_locked_effect)

text \<open>A scheduler and its collaborators for the concrete instances.\<close>

definition sample_config :: frontier_config where
  "sample_config = \<lparr>fro_env = sample_env\<lparr>env_budget := None, env_media_budget := None\<rparr>, fro_normalize = Some,
     fro_extract = (\<lambda>u. Some ''noaa.gov''), fro_priority = (\<lambda>t. 7)\<rparr>"

definition empty_scheduler :: scheduler where
  "empty_scheduler = \<lparr>sch_queue = empty_queue, sch_delayed = empty_delayed, sch_eligibility = empty_eligibility,
     sch_registry = empty_registry, sch_seen = sample_seen, sch_progress = initial_progress,
     sch_retry = [], sch_feedback = empty_feedback, sch_advice = env_advice sample_env,
     sch_runtime = \<lparr>run_closed = False, next_sequence_value = 0\<rparr>\<rparr>"

lemma empty_scheduler_inv: "scheduler_inv nrm empty_scheduler"
proof -
  have "tracked empty_scheduler = {#}"
    by (simp add: tracked_def empty_scheduler_def queued_items_def htq_abs_def empty_queue_def delayed_items_def empty_delayed_def
        registry_items_def record_items_def empty_registry_def)
  moreover have "sur_inv sample_seen" by (simp add: sur_inv_def sample_seen_def)
  ultimately show ?thesis
    by (simp add: scheduler_inv_def components_ok_def sequences_ok_def empty_scheduler_def empty_queue_inv empty_delayed_inv
        empty_eligibility_inv empty_registry_inv initial_progress_inv budget_ok_def)
qed

lemma sample_config_normalizer [simp]: "fro_nrm sample_config = lower_host"
  by (simp add: sample_config_def sample_env_def)

lemma sample_link_ok: "task_ok sample_link"
  by code_simp

theorem enqueue_takes_or_leaves_witness:
  "case enqueue_locked sample_config \<lparr>wall_time = 0, monotonic_time = 0\<rparr> ''a'' sample_link empty_scheduler of (res, s') \<Rightarrow>
     (\<exists>out. res = Inr out \<and> scheduler_inv lower_host s' \<and>
       enqueue_result_ok sample_config \<lparr>wall_time = 0, monotonic_time = 0\<rparr> sample_link empty_scheduler out s')"
proof -
  obtain res s' where run: "enqueue_locked sample_config \<lparr>wall_time = 0, monotonic_time = 0\<rparr> ''a'' sample_link empty_scheduler = (res, s')"
    by fastforce
  have "\<not> isl (ensure_id ''a'' sample_link)" by code_simp
  then show ?thesis
    using enqueue_takes_or_leaves [OF _ _ sample_link_ok run] run empty_scheduler_inv lower_host_canonical by auto
qed

text \<open>The drain budget bounds a batch under pressure. While the queue is at its high watermark or
  above, a batch of tasks that are neither seeds nor coverage recoveries adds at most as many
  tasks as the budget has: the completions of the window beyond its admissions. The decisions
  are as many as the tasks, each acceptance grows the queues and the counter by exactly one,
  and every acceptance spends one unit of the budget.\<close>

theorem high_pressure_batch_bounded:
  assumes "host_canonical (fro_nrm cfg)" and "scheduler_inv (fro_nrm cfg) s" and "\<forall>(i, t)\<in>set tasks. task_ok t \<and> metered t"
    and "is_high_backpressure (fro_env cfg) (queue_size_total s)"
    and "enqueue_many_locked cfg now tasks s = (Inr ds, s')"
  shows "length ds = length tasks \<and> int (length (filter dec_accepted ds)) \<le> fst (available_drain_budget (sch_progress s)) \<and>
    queue_size_total s' = queue_size_total s + int (length (filter dec_accepted ds)) \<and>
    fst (available_drain_budget (sch_progress s')) + int (length (filter dec_accepted ds))
      \<le> fst (available_drain_budget (sch_progress s))"
proof -
  have "\<forall>(i, t)\<in>set tasks. task_ok t" "\<forall>(i, t)\<in>set tasks. metered t"
    using assms(3) by auto
  with enqueue_many_effect [OF assms(1,2) this(1) assms(5)] assms(4) available_nonneg [of "sch_progress s'"] show ?thesis
    by auto
qed

definition pressed_config :: frontier_config where
  "pressed_config = sample_config\<lparr>fro_env := (fro_env sample_config)
     \<lparr>env_settings := default_settings\<lparr>cfg_queue_high_watermark := 0\<rparr>, env_media_page := (\<lambda>u c. True)\<rparr>\<rparr>"

definition pressed_scheduler :: scheduler where
  "pressed_scheduler = empty_scheduler\<lparr>sch_progress :=
     record_completed_outcome ''ok'' (snd (available_drain_budget initial_progress))\<rparr>"

definition pressed_batch :: "(string \<times> crawl_task) list" where
  "pressed_batch = [(''a'', sample_link), (''b'', sample_link\<lparr>task_url := ''https://noaa.gov/y''\<rparr>),
     (''c'', sample_link\<lparr>task_url := ''https://noaa.gov/z''\<rparr>)]"

lemma pressed_run:
  "map_sum id (map dec_accepted) (fst (enqueue_many_locked pressed_config \<lparr>wall_time = 0, monotonic_time = 0\<rparr>
     pressed_batch pressed_scheduler)) = Inr [True, False, False]"
  by code_simp

theorem high_pressure_batch_bounded_witness:
  "\<exists>ds s'. enqueue_many_locked pressed_config \<lparr>wall_time = 0, monotonic_time = 0\<rparr> pressed_batch pressed_scheduler = (Inr ds, s') \<and>
     length (filter dec_accepted ds) = 1 \<and> queue_size_total s' = 1"
proof -
  obtain res s' where run: "enqueue_many_locked pressed_config \<lparr>wall_time = 0, monotonic_time = 0\<rparr> pressed_batch pressed_scheduler = (res, s')"
    by fastforce
  with pressed_run obtain ds where ds: "res = Inr ds" "map dec_accepted ds = [True, False, False]"
    by (cases res) auto
  have "length (filter dec_accepted ds) = length (filter id (map dec_accepted ds))"
    by (simp add: filter_map comp_def)
  then have one: "length (filter dec_accepted ds) = 1" using ds(2) by simp
  have "scheduler_inv lower_host pressed_scheduler"
    using same_work_inv [OF empty_scheduler_inv, of pressed_scheduler] record_completed_inv [OF available_inv [OF initial_progress_inv]]
      inv_parts(5) [OF empty_scheduler_inv]
    by (simp add: pressed_scheduler_def same_work_def)
  moreover have "fro_nrm pressed_config = lower_host"
    by (simp add: pressed_config_def)
  moreover have "\<forall>(i, t)\<in>set pressed_batch. task_ok t \<and> metered t"
    by code_simp
  moreover have "queue_size_total pressed_scheduler = 0"
    by (simp add: queue_size_total_def pressed_scheduler_def empty_scheduler_def queue_size_def empty_queue_def
        delayed_size_def empty_delayed_def)
  moreover have "is_high_backpressure (fro_env pressed_config) 0"
    by (simp add: is_high_backpressure_def pressed_config_def)
  ultimately show ?thesis
    using high_pressure_batch_bounded [OF _ _ _ _ run [unfolded ds(1)]] lower_host_canonical run ds(1) one by auto
qed

end
