(* ===== verification/Tracked_Work.thy ===== *)
theory Tracked_Work imports
  Frontier
begin

text \<open>
  Moving a task between the queues and the registry. The scheduler is responsible for the
  multiset of items that \<open>tracked\<close> collects; the lemmas here say what each move of a single
  record does to it, so that completion and dispatch need not look into the containers.
\<close>

section \<open>Items of a dictionary of records\<close>

lemma record_items_new: "map_of m k = None \<Longrightarrow> record_items (AList.update k rec m) = add_mset (record_item rec) (record_items m)"
  by (simp add: record_items_def mset_update_none)

lemma record_items_replace:
  assumes "map_of m k = Some old"
  shows "add_mset (record_item old) (record_items (AList.update k rec m)) = add_mset (record_item rec) (record_items m)"
  using arg_cong [OF mset_update_some [OF assms, of rec], of "image_mset (\<lambda>x. record_item (snd x))"]
  by (simp add: record_items_def)

lemma record_items_update_le: "record_items (AList.update k rec m) \<subseteq># add_mset (record_item rec) (record_items m)"
proof (cases "map_of m k")
  case (Some old)
  have "record_items (AList.update k rec m) \<subseteq># add_mset (record_item old) (record_items (AList.update k rec m))"
    by simp
  then show ?thesis using record_items_replace [OF Some, of rec] by simp
qed (simp add: record_items_new)

lemma record_items_update_mem: "record_item rec \<in># record_items (AList.update k rec m)"
proof -
  have "(k, rec) \<in> set (AList.update k rec m)" by (induction m) auto
  then show ?thesis by (force simp: record_items_def)
qed

lemma record_items_delete:
  assumes "distinct (map fst m)" and "map_of m k = Some rec"
  shows "record_items m = add_mset (record_item rec) (record_items (AList.delete k m))"
  using arg_cong [OF mset_delete_some [OF assms], of "image_mset (\<lambda>x. record_item (snd x))"]
  by (simp add: record_items_def)

lemma record_items_delete_le: "record_items (AList.delete k m) \<subseteq># record_items m"
  by (simp add: record_items_def AList.delete_eq image_mset_subseteq_mono)

lemma delete_missing: "map_of m k = None \<Longrightarrow> AList.delete k m = m"
  by (simp add: AList.delete_id map_of_eq_None_iff)

section \<open>Moves of the registry\<close>

lemma keyed_lookup:
  "keyed nrm m \<Longrightarrow> map_of m k = Some rec \<Longrightarrow> k = scheduler_task_identity_key (rec_task rec) \<and> nrm (rec_host rec) = rec_host rec"
  by (simp add: keyed_def)

text \<open>Taking an active record out.\<close>

lemma remove_active_items:
  assumes "atr_inv nrm r" and "remove_active nrm task r = (Inr (Some rec), r')"
  shows "registry_items r = add_mset (record_item rec) (registry_items r') \<and> nrm (rec_host rec) = rec_host rec \<and>
    scheduler_task_identity_key (rec_task rec) = scheduler_task_identity_key task \<and> atr_inv nrm r' \<and>
    map_of (active_records r) (scheduler_task_identity_key task) = Some rec \<and>
    dead_letter_pending_records r' = dead_letter_pending_records r \<and> dispatching_records r' = dispatching_records r \<and>
    active_records r' = AList.delete (scheduler_task_identity_key task) (active_records r)"
proof -
  let ?k = "scheduler_task_identity_key task"
  have keyed: "keyed nrm (active_records r)" using assms(1) by (simp add: atr_inv_def)
  have rec: "map_of (active_records r) ?k = Some rec" and r': "atr_inv nrm r'"
    using remove_active_inv [OF assms(1), of task] assms(2) by simp_all
  have parts: "active_records r' = AList.delete ?k (active_records r)" "dispatching_records r' = dispatching_records r"
    "dead_letter_pending_records r' = dead_letter_pending_records r"
    using assms(2) rec by (auto simp: remove_active_def Let_def split: sum.splits)
  have "record_items (active_records r) = add_mset (record_item rec) (record_items (AList.delete ?k (active_records r)))"
    using keyed by (intro record_items_delete rec) (simp add: keyed_def)
  then have "registry_items r = add_mset (record_item rec) (registry_items r')"
    by (simp add: registry_items_def parts)
  with keyed_lookup [OF keyed rec] rec r' parts show ?thesis
    by (intro conjI) simp_all
qed

lemma remove_active_none:
  "atr_inv nrm r \<Longrightarrow> remove_active nrm task r = (Inr None, r') \<Longrightarrow> r' = r"
  by (auto simp: remove_active_def Let_def split: option.splits sum.splits)

text \<open>Staging a record replaces a staged record of the same identity.\<close>

lemma stage_dead_letter_items:
  "registry_items (stage_dead_letter rec r) \<subseteq># add_mset (record_item rec) (registry_items r)"
  "record_item rec \<in># registry_items (stage_dead_letter rec r)"
  "map_of (dead_letter_pending_records r) (scheduler_task_identity_key (rec_task rec)) = None \<Longrightarrow>
    registry_items (stage_dead_letter rec r) = add_mset (record_item rec) (registry_items r)"
  using record_items_update_le [of "scheduler_task_identity_key (rec_task rec)" rec "dead_letter_pending_records r"]
  by (simp_all add: stage_dead_letter_def registry_items_def record_items_update_mem record_items_new)

lemma remove_dead_letter_items:
  assumes "atr_inv nrm r" and "remove_dead_letter_pending task r = (Some rec, r')"
  shows "registry_items r = add_mset (record_item rec) (registry_items r') \<and> nrm (rec_host rec) = rec_host rec \<and>
    scheduler_task_identity_key (rec_task rec) = scheduler_task_identity_key task \<and> atr_inv nrm r'"
proof -
  let ?k = "scheduler_task_identity_key task"
  have rec: "map_of (dead_letter_pending_records r) ?k = Some rec"
    and r': "r' = r\<lparr>dead_letter_pending_records := AList.delete ?k (dead_letter_pending_records r)\<rparr>"
    using assms(2) by (simp_all add: remove_dead_letter_pending_def Let_def)
  have "keyed nrm (dead_letter_pending_records r)" using assms(1) by (simp add: atr_inv_def)
  with keyed_lookup [OF this rec] record_items_delete [OF _ rec] remove_dead_letter_inv [OF assms(1), of task] assms(2)
  show ?thesis by (simp add: r' registry_items_def keyed_def)
qed

lemma remove_dead_letter_none: "remove_dead_letter_pending task r = (None, r') \<Longrightarrow> r' = r"
  by (auto simp: remove_dead_letter_pending_def Let_def delete_missing)

text \<open>Dispatching: marking, activating and unmarking.\<close>

lemma mark_dispatching_items:
  assumes "atr_inv nrm r"
  shows "registry_items (mark_dispatching nrm h p n t r) \<subseteq># add_mset (nrm h, p, n, t) (registry_items r)"
    "(nrm h, p, n, t) \<in># registry_items (mark_dispatching nrm h p n t r)"
    "map_of (dispatching_records r) (scheduler_task_identity_key t) = None \<Longrightarrow>
      registry_items (mark_dispatching nrm h p n t r) = add_mset (nrm h, p, n, t) (registry_items r)"
proof -
  let ?rec = "\<lparr>rec_host = nrm h, rec_priority = p, rec_sequence = n, rec_task = t\<rparr>"
  have "record_item ?rec = (nrm h, p, n, t)" by (simp add: record_item_def)
  then show "registry_items (mark_dispatching nrm h p n t r) \<subseteq># add_mset (nrm h, p, n, t) (registry_items r)"
    "(nrm h, p, n, t) \<in># registry_items (mark_dispatching nrm h p n t r)"
    "map_of (dispatching_records r) (scheduler_task_identity_key t) = None \<Longrightarrow>
      registry_items (mark_dispatching nrm h p n t r) = add_mset (nrm h, p, n, t) (registry_items r)"
    using record_items_update_le [of "scheduler_task_identity_key t" ?rec "dispatching_records r"]
      record_items_update_mem [of ?rec "scheduler_task_identity_key t" "dispatching_records r"]
    by (simp_all add: mark_dispatching_def registry_items_def record_items_new)
qed

lemma remove_dispatching_items:
  assumes "atr_inv nrm r" and "remove_dispatching task r = (Some rec, r')"
  shows "registry_items r = add_mset (record_item rec) (registry_items r') \<and> nrm (rec_host rec) = rec_host rec \<and>
    scheduler_task_identity_key (rec_task rec) = scheduler_task_identity_key task \<and> atr_inv nrm r'"
proof -
  let ?k = "scheduler_task_identity_key task"
  have rec: "map_of (dispatching_records r) ?k = Some rec"
    and r': "r' = r\<lparr>dispatching_records := AList.delete ?k (dispatching_records r)\<rparr>"
    using assms(2) by (simp_all add: remove_dispatching_def Let_def)
  have "keyed nrm (dispatching_records r)" using assms(1) by (simp add: atr_inv_def)
  with keyed_lookup [OF this rec] record_items_delete [OF _ rec] remove_dispatching_inv [OF assms(1), of task] assms(2)
  show ?thesis by (simp add: r' registry_items_def keyed_def)
qed

lemma remove_dispatching_none: "remove_dispatching task r = (None, r') \<Longrightarrow> r' = r"
  by (auto simp: remove_dispatching_def Let_def delete_missing)

lemma store_active_items:
  assumes "store_active nrm k rec r = (Inr (), r')"
  shows "registry_items r' \<subseteq># add_mset (record_item rec) (registry_items r) \<and>
    record_item rec \<in># registry_items r' \<and>
    (map_of (active_records r) k = None \<longrightarrow> registry_items r' = add_mset (record_item rec) (registry_items r))"
proof -
  have "active_records r' = AList.update k rec (active_records r)" "dispatching_records r' = dispatching_records r"
    "dead_letter_pending_records r' = dead_letter_pending_records r"
    using assms by (auto simp: store_active_def split: option.splits sum.splits)
  then show ?thesis
    using record_items_update_le [of k rec "active_records r"] record_items_update_mem [of rec k "active_records r"]
    by (simp add: registry_items_def record_items_new)
qed

lemma activate_dispatching_items:
  assumes "atr_inv nrm r" and "activate_dispatching nrm task r = (Inr (Some rec), r')"
  shows "registry_items r' \<subseteq># registry_items r \<and> record_item rec \<in># registry_items r' \<and> atr_inv nrm r' \<and>
    (map_of (active_records r) (scheduler_task_identity_key task) = None \<longrightarrow> registry_items r' = registry_items r)"
proof -
  let ?k = "scheduler_task_identity_key task"
  let ?r = "r\<lparr>dispatching_records := AList.delete ?k (dispatching_records r)\<rparr>"
  have rec: "map_of (dispatching_records r) ?k = Some rec" and r': "atr_inv nrm r'"
    using activate_dispatching_inv [OF assms(1), of task] assms(2) by simp_all
  have "store_active nrm ?k rec ?r = (Inr (), r')"
    using assms(2) rec by (auto simp: activate_dispatching_def Let_def split: prod.splits sum.splits)
  note moved = store_active_items [OF this]
  have "registry_items r = add_mset (record_item rec) (registry_items ?r)"
    using record_items_delete [OF _ rec] assms(1) by (simp add: registry_items_def atr_inv_def keyed_def)
  with moved r' show ?thesis by simp
qed

section \<open>Back into the ready queue\<close>

text \<open>A record goes back with the priority and the sequence number it had.\<close>

definition requeue_ready :: "(host \<Rightarrow> host) \<Rightarrow> active_task_record \<Rightarrow> scheduler \<Rightarrow> scheduler" where
  "requeue_ready nrm rec s =
     s\<lparr>sch_queue := push nrm (rec_host rec) (rec_priority rec) (rec_sequence rec) (rec_task rec) (sch_queue s)\<rparr>"

lemma requeue_ready_effect:
  assumes "host_canonical nrm" and "components_ok nrm s" and "nrm (rec_host rec) = rec_host rec"
  shows "components_ok nrm (requeue_ready nrm rec s) \<and> tracked (requeue_ready nrm rec s) = add_mset (record_item rec) (tracked s) \<and>
    queue_size (sch_queue (requeue_ready nrm rec s)) = queue_size (sch_queue s) + 1"
proof -
  let ?q = "push nrm (rec_host rec) (rec_priority rec) (rec_sequence rec) (rec_task rec) (sch_queue s)"
  have "htq_inv nrm (sch_queue s)" using assms(2) by (simp add: components_ok_def)
  note pushed = host_canonical.push_inv [OF assms(1) this] host_canonical.push_items [OF assms(1) this]
  have "queue_size ?q = queue_size (sch_queue s) + 1"
    by (simp add: push_def queue_size_def Let_def)
  with pushed show ?thesis
    using assms(2,3) by (simp add: requeue_ready_def components_ok_def tracked_def record_item_def)
qed

text \<open>An operation that at most drops items keeps the sequence numbers in order.\<close>

lemma scheduler_inv_moved:
  assumes "scheduler_inv nrm s" and "components_ok nrm s'" and "tracked s' \<subseteq># tracked s" and "sch_runtime s' = sch_runtime s"
  shows "scheduler_inv nrm s'"
  using assms sequences_ok_subset [of s s'] by (simp add: scheduler_inv_def)

end
