(* ===== verification/Completion.thy ===== *)
theory Completion imports
  Tracked_Work
begin

text \<open>
  Completing tasks, \<open>crawler/scheduling/completion/task_completion_handler.py\<close> and the record of
  \<open>dead_letter_writer.py\<close>. \<open>complete\<close> holds the lock up to the point where a terminal task is
  staged for the dead-letter file; the write itself happens outside the lock, and one of two
  further locked steps follows it: the finalisation after a successful write, or the
  requeue after a failed one. The three locked parts are three functions here, so that
  other operations can run between them. Fields are an optional dictionary; log output and
  notifications are left out.
\<close>

section \<open>Records\<close>

record dead_letter_record =
  letter_task :: crawl_task
  letter_status :: string
  letter_original_outcome :: string
  letter_detail :: string
  letter_fields :: py_dict

record completion_disposition =
  disp_requeued :: bool
  disp_delayed_requeue :: bool
  disp_forget_identity :: bool
  disp_dead_letter_record :: "dead_letter_record option"

record completion_counts =
  total_queued :: int
  ready_queued :: int
  delayed_queued :: int
  inflight :: int

record completion_config =
  com_frontier :: frontier_config
  com_has_writer :: bool
  com_is_drained :: bool

section \<open>Reading the fields\<close>

definition field_of :: "py_dict option \<Rightarrow> string \<Rightarrow> pyval" where
  "field_of flds name = (case flds of None \<Rightarrow> PyNone | Some m \<Rightarrow> py_get m name)"

text \<open>\<open>value == n\<close> of a value and an integer literal.\<close>

definition py_equals_int :: "pyval \<Rightarrow> int \<Rightarrow> bool" where
  "py_equals_int v n = (case v of PyInt i \<Rightarrow> i = n | PyBool b \<Rightarrow> (if b then 1 else 0) = n
     | PyFloat (Fin r) \<Rightarrow> r = of_int n | _ \<Rightarrow> False)"

fun first_detail :: "py_dict \<Rightarrow> string list \<Rightarrow> string option" where
  "first_detail m [] = None"
| "first_detail m (key # keys) =
    (case py_get m key of PyNone \<Rightarrow> first_detail m keys
     | v \<Rightarrow> (let detail = py_strip (py_str v) in if detail \<noteq> [] then Some detail else first_detail m keys))"

definition completion_detail :: "string \<Rightarrow> py_dict option \<Rightarrow> string" where
  "completion_detail outcome flds = (case flds of None \<Rightarrow> outcome
     | Some m \<Rightarrow> or_else (first_detail m [''detail'', ''reason'', ''error'']) outcome)"

definition make_dead_letter_record ::
  "active_task_record \<Rightarrow> string \<Rightarrow> string \<Rightarrow> string \<Rightarrow> py_dict option \<Rightarrow> dead_letter_record" where
  "make_dead_letter_record rec status outcome detail flds = \<lparr>letter_task = rec_task rec, letter_status = status,
     letter_original_outcome = outcome, letter_detail = detail, letter_fields = or_else flds []\<rparr>"

definition truthy_text :: "pyval \<Rightarrow> string" where
  "truthy_text v = py_lower (py_strip (if py_truthy v then py_str v else []))"

definition is_not_modified_completion :: "py_dict option \<Rightarrow> bool" where
  "is_not_modified_completion flds =
    (if flds = None then False
     else if truthy_text (field_of flds ''retry_error_kind'') = ''not_modified_force_unconditional'' then False
     else py_equals_int (field_of flds ''status_code'') 304 \<or>
       truthy_text (field_of flds ''reason'') \<in> {''not_modified'', ''not_modified_this_run''})"

section \<open>The disposition of a task\<close>

definition disposition :: "bool \<Rightarrow> bool \<Rightarrow> bool \<Rightarrow> dead_letter_record option \<Rightarrow> completion_disposition" where
  "disposition requeued delayed_requeue forget_identity letter =
     \<lparr>disp_requeued = requeued, disp_delayed_requeue = delayed_requeue, disp_forget_identity = forget_identity,
      disp_dead_letter_record = letter\<rparr>"

definition requeue_record ::
  "frontier_config \<Rightarrow> instant \<Rightarrow> active_task_record \<Rightarrow> real option \<Rightarrow> scheduler \<Rightarrow> completion_disposition result \<times> scheduler" where
  "requeue_record cfg now rec delayed_wait_seconds s =
    (case delayed_wait_seconds of
       None \<Rightarrow> (Inr (disposition True False False None), requeue_ready (fro_nrm cfg) rec s)
     | Some w \<Rightarrow>
        (case delayed_push (fro_nrm cfg) (monotonic_time now) (rec_host rec) (rec_priority rec) (rec_sequence rec)
            (rec_task rec) (PyFloat (Fin w)) PyNone (sch_delayed s) of
          (Inl e, d) \<Rightarrow> (Inl e, s\<lparr>sch_delayed := d\<rparr>)
        | (Inr True, d) \<Rightarrow> (Inr (disposition True True False None), s\<lparr>sch_delayed := d\<rparr>)
        | (Inr False, d) \<Rightarrow> (Inr (disposition True False False None), requeue_ready (fro_nrm cfg) rec (s\<lparr>sch_delayed := d\<rparr>))))"

definition requeue_wait :: "scheduling_settings \<Rightarrow> string \<Rightarrow> py_dict option \<Rightarrow> real option" where
  "requeue_wait settings outcome flds =
    (let w = coerce_requeue_wait_seconds outcome flds in
     if outcome = ''timeout'' \<and> w = None then Some (timeout_retry_wait_seconds settings) else w)"

text \<open>An outcome that ends the task whatever the retry budget says, with the status of its record.\<close>

definition terminal_status :: "string \<Rightarrow> bool \<Rightarrow> string option" where
  "terminal_status outcome is_closed =
    (if outcome \<in> {''failed'', ''failure''} then Some ''failed''
     else if outcome = ''interrupted'' then Some ''cancelled''
     else if outcome = ''cancelled'' \<and> is_closed then Some ''cancelled''
     else None)"

definition requeue_active_record_locked ::
  "completion_config \<Rightarrow> instant \<Rightarrow> active_task_record \<Rightarrow> string \<Rightarrow> py_dict option \<Rightarrow> scheduler \<Rightarrow>
    completion_disposition result \<times> scheduler" where
  "requeue_active_record_locked com now rec outcome flds s =
    (let cfg = com_frontier com; settings = env_settings (fro_env cfg); is_closed = run_closed (sch_runtime s) in
     case terminal_status outcome is_closed of
       Some status \<Rightarrow> (Inr (disposition False False True
          (Some (make_dead_letter_record rec status outcome (completion_detail outcome flds) flds))), s)
     | None \<Rightarrow>
        if is_closed then (Inr (disposition False False True None), s)
        else if outcome \<notin> {''cancelled'', ''deferred'', ''timeout''} then (Inr (disposition False False False None), s)
        else (case evaluate settings (com_is_drained com) (rec_task rec) outcome (or_else flds []) (sch_retry s) of
          (decision, budget) \<Rightarrow>
            (let s = s\<lparr>sch_retry := budget\<rparr> in
             if decision_terminal decision
             then (let reason = or_else (decision_reason decision) [] in
               (Inr (disposition False False True (Some (make_dead_letter_record rec ''retry_exhausted'' outcome
                  (if reason = [] then ''retry_exhausted'' else reason) flds))), s))
             else requeue_record cfg now rec (requeue_wait settings outcome flds) s)))"

section \<open>Finalising\<close>

definition remember_run_feedback :: "frontier_config \<Rightarrow> crawl_task \<Rightarrow> py_dict option \<Rightarrow> run_url_feedback \<Rightarrow> run_url_feedback" where
  "remember_run_feedback cfg task flds f =
    (let env = fro_env cfg;
         f = (if is_not_modified_completion flds
              then snd (remember_not_modified (env_normalize_url env) task (Some (task_url task)) f) else f)
     in if flds \<noteq> None \<and> py_equals_int (field_of flds ''status_code'') 403
        then (let final_url = field_of flds ''final_url'' in
          snd (remember_forbidden_endpoint (env_split_url env)
            (if py_truthy final_url then py_str final_url else task_url task) f))
        else f)"

definition record_outcome :: "string \<Rightarrow> py_dict option \<Rightarrow> scheduler_progress_state \<Rightarrow> scheduler_progress_state" where
  "record_outcome outcome flds p =
    (let p = record_completed_outcome outcome p in
     if outcome = ''deferred'' \<and> flds \<noteq> None
     then (let reason = field_of flds ''reason'' in
       record_task_deferral (if reason = PyNone then None else Some (py_str reason)) p)
     else p)"

definition finalize_completion_locked ::
  "frontier_config \<Rightarrow> instant \<Rightarrow> active_task_record \<Rightarrow> string \<Rightarrow> py_dict option \<Rightarrow> completion_disposition \<Rightarrow> scheduler \<Rightarrow>
    completion_counts \<times> scheduler" where
  "finalize_completion_locked cfg now rec outcome flds disp s =
    (let s = s\<lparr>sch_feedback := remember_run_feedback cfg (rec_task rec) flds (sch_feedback s)\<rparr>;
         s = (if \<not> disp_requeued disp then s\<lparr>sch_retry := forget_retry (rec_task rec) (sch_retry s)\<rparr> else s);
         s = (if disp_forget_identity disp
              then s\<lparr>sch_seen := snd (forget (wall_time now) (scheduler_task_identity_key (rec_task rec)) (sch_seen s))\<rparr> else s);
         ready = queue_size (sch_queue s);
         delayed = delayed_size (sch_delayed s);
         s = s\<lparr>sch_progress := record_outcome outcome flds (sch_progress s)\<rparr>
     in (\<lparr>total_queued = ready + delayed, ready_queued = ready, delayed_queued = delayed,
          inflight = active_count (sch_registry s)\<rparr>, s))"

section \<open>The three locked parts of complete\<close>

datatype completion_step =
    Completion_Ignored
  | Completion_Finished active_task_record completion_disposition completion_counts
  | Completion_Pending active_task_record completion_disposition dead_letter_record

text \<open>Up to the release of the lock: ignored, finished, or staged for the dead-letter file.\<close>

definition settle_disposition ::
  "completion_config \<Rightarrow> instant \<Rightarrow> active_task_record \<Rightarrow> string \<Rightarrow> py_dict option \<Rightarrow> completion_disposition \<Rightarrow> scheduler \<Rightarrow>
    completion_step \<times> scheduler" where
  "settle_disposition com now rec outcome flds disp s =
    (case (disp_dead_letter_record disp, com_has_writer com) of
       (Some letter, True) \<Rightarrow> (Completion_Pending rec disp letter, s\<lparr>sch_registry := stage_dead_letter rec (sch_registry s)\<rparr>)
     | _ \<Rightarrow> (case finalize_completion_locked (com_frontier com) now rec outcome flds disp s of
          (counts, s) \<Rightarrow> (Completion_Finished rec disp counts, s)))"

definition complete_locked ::
  "completion_config \<Rightarrow> instant \<Rightarrow> crawl_task \<Rightarrow> string \<Rightarrow> py_dict option \<Rightarrow> scheduler \<Rightarrow> completion_step result \<times> scheduler" where
  "complete_locked com now task outcome flds s =
    (if active_count (sch_registry s) = 0 then (Inr Completion_Ignored, s)
     else (case remove_active (fro_nrm (com_frontier com)) task (sch_registry s) of
        (Inl e, registry) \<Rightarrow> (Inl e, s\<lparr>sch_registry := registry\<rparr>)
      | (Inr None, registry) \<Rightarrow> (Inr Completion_Ignored, s\<lparr>sch_registry := registry\<rparr>)
      | (Inr (Some rec), registry) \<Rightarrow>
         (let s = s\<lparr>sch_registry := registry, sch_eligibility := release_blocked (rec_host rec) (sch_eligibility s)\<rparr> in
          (case requeue_active_record_locked com now rec outcome flds s of
             (Inl e, s) \<Rightarrow> (Inl e, s)
           | (Inr disp, s) \<Rightarrow>
              (case settle_disposition com now rec outcome flds disp s of (step, s) \<Rightarrow> (Inr step, s))))))"

text \<open>After a successful write.\<close>

definition finalize_dead_letter ::
  "frontier_config \<Rightarrow> instant \<Rightarrow> active_task_record \<Rightarrow> string \<Rightarrow> py_dict option \<Rightarrow> completion_disposition \<Rightarrow> scheduler \<Rightarrow>
    completion_counts option \<times> scheduler" where
  "finalize_dead_letter cfg now rec outcome flds disp s =
    (case remove_dead_letter_pending (rec_task rec) (sch_registry s) of
       (None, registry) \<Rightarrow> (None, s\<lparr>sch_registry := registry\<rparr>)
     | (Some persisted, registry) \<Rightarrow>
        (case finalize_completion_locked cfg now persisted outcome flds disp (s\<lparr>sch_registry := registry\<rparr>) of
          (counts, s) \<Rightarrow> (Some counts, s)))"

text \<open>After a failed write.\<close>

definition requeue_after_dead_letter_write_failure :: "frontier_config \<Rightarrow> crawl_task \<Rightarrow> scheduler \<Rightarrow> scheduler" where
  "requeue_after_dead_letter_write_failure cfg task s =
    (case remove_dead_letter_pending task (sch_registry s) of
       (None, registry) \<Rightarrow> s\<lparr>sch_registry := registry\<rparr>
     | (Some rec, registry) \<Rightarrow> requeue_ready (fro_nrm cfg) rec (s\<lparr>sch_registry := registry\<rparr>))"

section \<open>Lemmas\<close>

lemma disposition_simps [simp]:
  "disp_requeued (disposition a b c d) = a" "disp_delayed_requeue (disposition a b c d) = b"
  "disp_forget_identity (disposition a b c d) = c" "disp_dead_letter_record (disposition a b c d) = d"
  by (simp_all add: disposition_def)

lemma requeue_record_effect:
  assumes "host_canonical (fro_nrm cfg)" and "components_ok (fro_nrm cfg) s" and "fro_nrm cfg (rec_host rec) = rec_host rec"
    and "requeue_record cfg now rec w s = (r, s')"
  shows "\<exists>delayed. r = Inr (disposition True delayed False None) \<and> components_ok (fro_nrm cfg) s' \<and>
    tracked s' = add_mset (record_item rec) (tracked s) \<and> queue_size_total s' = queue_size_total s + 1 \<and>
    sch_registry s' = sch_registry s \<and> sch_runtime s' = sch_runtime s \<and> sch_feedback s' = sch_feedback s"
proof -
  let ?ready = "requeue_ready (fro_nrm cfg) rec s"
  note ready = requeue_ready_effect [OF assms(1-3)]
  have frame: "sch_registry ?ready = sch_registry s" "sch_runtime ?ready = sch_runtime s" "sch_feedback ?ready = sch_feedback s"
    "sch_delayed ?ready = sch_delayed s"
    by (simp_all add: requeue_ready_def)
  let ?push = "delayed_push (fro_nrm cfg) (monotonic_time now) (rec_host rec) (rec_priority rec) (rec_sequence rec)
            (rec_task rec) (PyFloat (Fin (or_else w 0))) PyNone (sch_delayed s)"
  show ?thesis
  proof (cases "w \<noteq> None \<and> 0 < or_else w 0")
    case True
    then obtain v where v: "w = Some v" "0 < v" by auto
    have "dtq_inv (fro_nrm cfg) (sch_delayed s)"
      using assms(2) by (simp add: components_ok_def)
    then have "dtq_inv (fro_nrm cfg) (snd ?push)"
      by (rule host_canonical.delayed_push_inv [OF assms(1)])
    moreover have "fst ?push = Inr True" "delayed_items (snd ?push) = add_mset (record_item rec) (delayed_items (sch_delayed s))"
      "delayed_size (snd ?push) = delayed_size (sch_delayed s) + 1"
      using v assms(3) by (simp_all add: delayed_push_def delayed_items_def delayed_size_def record_item_def Let_def)
    moreover from this(1) have "r = Inr (disposition True True False None)" "s' = s\<lparr>sch_delayed := snd ?push\<rparr>"
      using assms(4) v by (auto simp: requeue_record_def split: prod.splits)
    ultimately show ?thesis
      using assms(2) by (intro exI [of _ True]) (simp add: components_ok_def tracked_def queue_size_total_def)
  next
    case False
    have "?push = (Inr False, sch_delayed s)" if "w \<noteq> None"
      using False that by (auto simp: delayed_push_def max_def)
    then have "r = Inr (disposition True False False None)" "s' = ?ready"
      using assms(4) by (auto simp: requeue_record_def requeue_ready_def split: option.splits)
    then show ?thesis
      using ready frame by (intro exI [of _ False]) (simp add: queue_size_total_def)
  qed
qed

text \<open>What deciding about a record does: the task is back in a queue, or nothing but the retry
  budget has changed; a record for the dead-letter file is about this task.\<close>

definition decided :: "(host \<Rightarrow> host) \<Rightarrow> active_task_record \<Rightarrow> string \<Rightarrow> scheduler \<Rightarrow> completion_disposition \<Rightarrow> scheduler \<Rightarrow> bool" where
  "decided nrm rec outcome s disp s' \<longleftrightarrow> components_ok nrm s' \<and> sch_registry s' = sch_registry s \<and>
     sch_runtime s' = sch_runtime s \<and> sch_feedback s' = sch_feedback s \<and>
     (if disp_requeued disp
      then \<not> run_closed (sch_runtime s) \<and> outcome \<in> {''cancelled'', ''deferred'', ''timeout''} \<and>
        disp_dead_letter_record disp = None \<and> \<not> disp_forget_identity disp \<and>
        tracked s' = add_mset (record_item rec) (tracked s) \<and> queue_size_total s' = queue_size_total s + 1
      else tracked s' = tracked s \<and> queue_size_total s' = queue_size_total s \<and>
        (\<forall>letter. disp_dead_letter_record disp = Some letter \<longrightarrow>
          letter_task letter = rec_task rec \<and> letter_original_outcome letter = outcome \<and> disp_forget_identity disp))"

lemma requeue_active_record_effect:
  assumes "host_canonical (fro_nrm (com_frontier com))" and "components_ok (fro_nrm (com_frontier com)) s"
    and "fro_nrm (com_frontier com) (rec_host rec) = rec_host rec"
    and "requeue_active_record_locked com now rec outcome flds s = (r, s')"
  shows "\<exists>disp. r = Inr disp \<and> decided (fro_nrm (com_frontier com)) rec outcome s disp s'"
proof (cases "terminal_status outcome (run_closed (sch_runtime s)) = None \<and> \<not> run_closed (sch_runtime s) \<and>
    outcome \<in> {''cancelled'', ''deferred'', ''timeout''}")
  case False
  then have "s' = s \<and> (\<exists>disp. r = Inr disp \<and> \<not> disp_requeued disp \<and> (\<forall>letter. disp_dead_letter_record disp = Some letter \<longrightarrow>
          letter_task letter = rec_task rec \<and> letter_original_outcome letter = outcome \<and> disp_forget_identity disp))"
    using assms(4) by (cases "terminal_status outcome (run_closed (sch_runtime s))")
      (auto simp: requeue_active_record_locked_def make_dead_letter_record_def Let_def split: if_splits)
  then show ?thesis
    using assms(2) by (auto simp: decided_def)
next
  case True
  let ?settings = "env_settings (fro_env (com_frontier com))"
  obtain decision budget where ev: "evaluate ?settings (com_is_drained com) (rec_task rec) outcome (or_else flds []) (sch_retry s) = (decision, budget)"
    by fastforce
  define s1 where "s1 = s\<lparr>sch_retry := budget\<rparr>"
  have "budget_ok budget"
    using evaluate_ok [of "sch_retry s" ?settings "com_is_drained com" "rec_task rec" outcome "or_else flds []"] assms(2) ev
    by (simp add: components_ok_def)
  then have c1: "components_ok (fro_nrm (com_frontier com)) s1"
    using assms(2) by (simp add: components_ok_def s1_def)
  have frame: "tracked s1 = tracked s" "sch_registry s1 = sch_registry s" "sch_runtime s1 = sch_runtime s"
    "sch_feedback s1 = sch_feedback s" "queue_size_total s1 = queue_size_total s"
    by (simp_all add: s1_def tracked_def queue_size_total_def)
  show ?thesis
  proof (cases "decision_terminal decision")
    case ended: True
    then have "s' = s1 \<and> (\<exists>disp. r = Inr disp \<and> \<not> disp_requeued disp \<and> (\<forall>letter. disp_dead_letter_record disp = Some letter \<longrightarrow>
          letter_task letter = rec_task rec \<and> letter_original_outcome letter = outcome \<and> disp_forget_identity disp))"
      using assms(4) True ev by (auto simp: requeue_active_record_locked_def make_dead_letter_record_def Let_def s1_def)
    with c1 frame show ?thesis by (auto simp: decided_def)
  next
    case False
    then have "requeue_record (com_frontier com) now rec (requeue_wait ?settings outcome flds) s1 = (r, s')"
      using assms(4) True ev by (auto simp: requeue_active_record_locked_def Let_def s1_def)
    from requeue_record_effect [OF assms(1) c1 assms(3) this] True frame show ?thesis
      by (auto simp: decided_def)
  qed
qed

lemma record_outcome_inv: "progress_inv p \<Longrightarrow> progress_inv (record_outcome outcome flds p)"
  by (simp add: record_outcome_def Let_def record_completed_inv record_deferral_inv)

text \<open>Finalising touches no queue and no record; it counts the outcome and, unless the task was
  requeued, drops its retry counters.\<close>

definition finalized ::
  "(host \<Rightarrow> host) \<Rightarrow> instant \<Rightarrow> crawl_task \<Rightarrow> completion_disposition \<Rightarrow> scheduler \<Rightarrow> completion_counts \<Rightarrow> scheduler \<Rightarrow> bool" where
  "finalized nrm now t disp s counts s' \<longleftrightarrow> components_ok nrm s' \<and> tracked s' = tracked s \<and>
     sch_queue s' = sch_queue s \<and> sch_delayed s' = sch_delayed s \<and>
     sch_registry s' = sch_registry s \<and> sch_runtime s' = sch_runtime s \<and>
     total_queued counts = queue_size_total s \<and> inflight counts = active_count (sch_registry s) \<and>
     (disp_forget_identity disp \<longrightarrow>
       sch_seen s' = snd (forget (wall_time now) (scheduler_task_identity_key t) (sch_seen s))) \<and>
     (\<not> disp_requeued disp \<longrightarrow> map_of (sch_retry s') (state_key t) = None)"

lemma finalize_effect:
  assumes "components_ok nrm s" and "finalize_completion_locked cfg now rec outcome flds disp s = (counts, s')"
  shows "finalized nrm now (rec_task rec) disp s counts s' \<and>
    sch_feedback s' = remember_run_feedback cfg (rec_task rec) flds (sch_feedback s)"
proof -
  have "budget_ok (forget_retry (rec_task rec) (sch_retry s))"
    "sur_inv (snd (forget (wall_time now) (scheduler_task_identity_key (rec_task rec)) (sch_seen s)))"
    "progress_inv (record_outcome outcome flds (sch_progress s))"
    "map_of (forget_retry (rec_task rec) (sch_retry s)) (state_key (rec_task rec)) = None"
    using assms(1) by (simp_all add: components_ok_def forget_retry_ok forget_inv record_outcome_inv)
      (simp add: forget_retry_def delete_conv')
  moreover have "s' = s\<lparr>sch_feedback := remember_run_feedback cfg (rec_task rec) flds (sch_feedback s),
      sch_retry := (if disp_requeued disp then sch_retry s else forget_retry (rec_task rec) (sch_retry s)),
      sch_seen := (if disp_forget_identity disp
        then snd (forget (wall_time now) (scheduler_task_identity_key (rec_task rec)) (sch_seen s)) else sch_seen s),
      sch_progress := record_outcome outcome flds (sch_progress s)\<rparr>"
    "total_queued counts = queue_size_total s" "inflight counts = active_count (sch_registry s)"
    using assms(2) by (auto simp: finalize_completion_locked_def Let_def queue_size_total_def)
  ultimately show ?thesis
    using assms(1) by (simp add: finalized_def components_ok_def tracked_def)
qed

text \<open>What the first locked part of a completion leaves behind.\<close>

definition completion_effect ::
  "completion_config \<Rightarrow> instant \<Rightarrow> crawl_task \<Rightarrow> string \<Rightarrow> scheduler \<Rightarrow> completion_step \<Rightarrow> scheduler \<Rightarrow> bool" where
  "completion_effect com now task outcome s step s' \<longleftrightarrow>
    (let key = scheduler_task_identity_key task in
     case step of
       Completion_Ignored \<Rightarrow> s' = s \<and> map_of (active_records (sch_registry s)) key = None
     | Completion_Finished rec disp counts \<Rightarrow>
         map_of (active_records (sch_registry s)) key = Some rec \<and>
         map_of (active_records (sch_registry s')) key = None \<and>
         (if disp_requeued disp
          then tracked s' = tracked s \<and> \<not> run_closed (sch_runtime s) \<and> outcome \<in> {''cancelled'', ''deferred'', ''timeout''}
          else add_mset (record_item rec) (tracked s') = tracked s) \<and>
         total_queued counts = queue_size_total s' \<and> inflight counts = active_count (sch_registry s')
     | Completion_Pending rec disp letter \<Rightarrow>
         com_has_writer com \<and> map_of (active_records (sch_registry s)) key = Some rec \<and>
         map_of (active_records (sch_registry s')) key = None \<and>
         map_of (dead_letter_pending_records (sch_registry s')) key = Some rec \<and>
         letter_task letter = rec_task rec \<and> letter_original_outcome letter = outcome \<and> disp_forget_identity disp \<and>
         tracked s' \<subseteq># tracked s \<and>
         (map_of (dead_letter_pending_records (sch_registry s)) key = None \<longrightarrow> tracked s' = tracked s))"

lemma settle_effect:
  assumes "components_ok (fro_nrm (com_frontier com)) s" and "fro_nrm (com_frontier com) (rec_host rec) = rec_host rec"
    and "settle_disposition com now rec outcome flds disp s = (step, s')"
  shows "components_ok (fro_nrm (com_frontier com)) s' \<and> sch_runtime s' = sch_runtime s \<and>
    (case step of Completion_Ignored \<Rightarrow> False
     | Completion_Finished rec' disp' counts \<Rightarrow> rec' = rec \<and> disp' = disp \<and>
         (disp_dead_letter_record disp = None \<or> \<not> com_has_writer com) \<and>
         finalized (fro_nrm (com_frontier com)) now (rec_task rec) disp s counts s' \<and>
         sch_feedback s' = remember_run_feedback (com_frontier com) (rec_task rec) flds (sch_feedback s)
     | Completion_Pending rec' disp' letter \<Rightarrow> rec' = rec \<and> disp' = disp \<and> com_has_writer com \<and>
         disp_dead_letter_record disp = Some letter \<and> s' = s\<lparr>sch_registry := stage_dead_letter rec (sch_registry s)\<rparr>)"
proof (cases "disp_dead_letter_record disp \<noteq> None \<and> com_has_writer com")
  case True
  then obtain letter where "step = Completion_Pending rec disp letter" "disp_dead_letter_record disp = Some letter"
    and s': "s' = s\<lparr>sch_registry := stage_dead_letter rec (sch_registry s)\<rparr>"
    using assms(3) by (auto simp: settle_disposition_def)
  moreover have "components_ok (fro_nrm (com_frontier com)) s'"
    using assms(1,2) stage_dead_letter_inv by (simp add: s' components_ok_def)
  ultimately show ?thesis using True by simp
next
  case False
  obtain counts s1 where fin: "finalize_completion_locked (com_frontier com) now rec outcome flds disp s = (counts, s1)"
    by fastforce
  have "step = Completion_Finished rec disp counts" "s' = s1"
    using assms(3) False fin by (auto simp: settle_disposition_def split: option.splits)
  with finalize_effect [OF assms(1) fin] False show ?thesis
    by (auto simp: finalized_def)
qed

lemma delete_get [simp]: "map_of (AList.delete k m) k = None"
  by (simp add: delete_conv')

lemma active_count_zero: "active_count r = 0 \<Longrightarrow> map_of (active_records r) k = None"
  by (simp add: active_count_def)

lemma complete_active:
  assumes "host_canonical (fro_nrm (com_frontier com))" and "scheduler_inv (fro_nrm (com_frontier com)) s"
    and "complete_locked com now task outcome flds s = (res, s')"
    and "remove_active (fro_nrm (com_frontier com)) task (sch_registry s) = (Inr (Some rec), registry)"
  shows "\<exists>disp step s1 s2. res = Inr step \<and>
    s1 = s\<lparr>sch_registry := registry, sch_eligibility := release_blocked (rec_host rec) (sch_eligibility s)\<rparr> \<and>
    components_ok (fro_nrm (com_frontier com)) s1 \<and>
    decided (fro_nrm (com_frontier com)) rec outcome s1 disp s2 \<and>
    settle_disposition com now rec outcome flds disp s2 = (step, s')"
proof -
  let ?nrm = "fro_nrm (com_frontier com)"
  define s1 where "s1 = s\<lparr>sch_registry := registry, sch_eligibility := release_blocked (rec_host rec) (sch_eligibility s)\<rparr>"
  note removed = remove_active_items [OF inv_parts(4) [OF assms(2)] assms(4)]
  have c1: "components_ok ?nrm s1"
    using assms(2) removed release_blocked_inv by (simp add: s1_def scheduler_inv_def components_ok_def)
  have "active_count (sch_registry s) \<noteq> 0"
    using active_count_zero removed by fastforce
  obtain r s2 where decide: "requeue_active_record_locked com now rec outcome flds s1 = (r, s2)"
    by fastforce
  have "?nrm (rec_host rec) = rec_host rec" using removed by blast
  from requeue_active_record_effect [OF assms(1) c1 this decide] obtain disp
    where r: "r = Inr disp" and d: "decided ?nrm rec outcome s1 disp s2" by blast
  obtain step s3 where settle: "settle_disposition com now rec outcome flds disp s2 = (step, s3)"
    by fastforce
  have "res = Inr step" "s' = s3"
    using assms(3,4) \<open>active_count (sch_registry s) \<noteq> 0\<close> decide r settle
    by (simp_all add: complete_locked_def s1_def [symmetric] Let_def)
  with c1 d settle s1_def show ?thesis by blast
qed

text \<open>The two ways in which a decided record is settled.\<close>

lemma completion_finished:
  assumes "map_of (active_records (sch_registry s)) (scheduler_task_identity_key task) = Some rec"
    and "map_of (active_records (sch_registry s1)) (scheduler_task_identity_key task) = None"
    and "tracked s = add_mset (record_item rec) (tracked s1)" and "sch_runtime s1 = sch_runtime s"
    and "decided nrm rec outcome s1 disp s2" and "finalized nrm now (rec_task rec) disp s2 counts s'"
  shows "completion_effect com now task outcome s (Completion_Finished rec disp counts) s' \<and> tracked s' \<subseteq># tracked s"
proof -
  have "queue_size_total s' = queue_size_total s2" "tracked s' = tracked s2" "sch_registry s' = sch_registry s1"
    "total_queued counts = queue_size_total s2" "inflight counts = active_count (sch_registry s1)"
    using assms(5,6) by (simp_all add: finalized_def decided_def queue_size_total_def)
  with assms(1-5) show ?thesis
    by (auto simp: completion_effect_def Let_def decided_def)
qed

lemma completion_pending:
  assumes "map_of (active_records (sch_registry s)) (scheduler_task_identity_key task) = Some rec"
    and "map_of (active_records (sch_registry s1)) (scheduler_task_identity_key task) = None"
    and "tracked s = add_mset (record_item rec) (tracked s1)"
    and "scheduler_task_identity_key (rec_task rec) = scheduler_task_identity_key task"
    and "dead_letter_pending_records (sch_registry s1) = dead_letter_pending_records (sch_registry s)"
    and "decided nrm rec outcome s1 disp s2" and "disp_dead_letter_record disp = Some letter" and "com_has_writer com"
    and "s' = s2\<lparr>sch_registry := stage_dead_letter rec (sch_registry s2)\<rparr>"
  shows "completion_effect com now task outcome s (Completion_Pending rec disp letter) s' \<and> tracked s' \<subseteq># tracked s"
proof -
  let ?r = "sch_registry s1"
  have s2: "sch_registry s2 = ?r" "tracked s2 = tracked s1"
    and letter: "letter_task letter = rec_task rec \<and> letter_original_outcome letter = outcome \<and> disp_forget_identity disp"
    using assms(6,7) by (auto simp: decided_def split: if_splits)
  have "tracked s' \<subseteq># tracked s"
    using stage_dead_letter_items(1) [of rec ?r] assms(3,9) s2 by (simp add: tracked_def)
  moreover have "tracked s' = tracked s"
    if "map_of (dead_letter_pending_records (sch_registry s)) (scheduler_task_identity_key task) = None"
    using stage_dead_letter_items(3) [of ?r rec] that assms(3,4,5,9) s2 by (simp add: tracked_def)
  ultimately show ?thesis
    using assms(1,2,4,8,9) letter s2(1)
    by (simp add: completion_effect_def Let_def stage_dead_letter_def update_conv')
qed

lemma complete_locked_effect:
  assumes "host_canonical (fro_nrm (com_frontier com))" and "scheduler_inv (fro_nrm (com_frontier com)) s"
    and "complete_locked com now task outcome flds s = (res, s')"
  shows "\<exists>step. res = Inr step \<and> scheduler_inv (fro_nrm (com_frontier com)) s' \<and> completion_effect com now task outcome s step s'"
proof -
  let ?nrm = "fro_nrm (com_frontier com)" and ?k = "scheduler_task_identity_key task"
  have atr: "atr_inv ?nrm (sch_registry s)" by (rule inv_parts(4) [OF assms(2)])
  show ?thesis
  proof (cases "map_of (active_records (sch_registry s)) ?k")
    case None
    then have removed: "remove_active ?nrm task (sch_registry s) = (Inr None, sch_registry s)"
      by (simp add: remove_active_def Let_def)
    have "res = Inr Completion_Ignored \<and> s' = s"
      using assms(3) removed by (auto simp: complete_locked_def split: if_splits)
    then show ?thesis using assms(2) None by (simp add: completion_effect_def Let_def)
  next
    case (Some rec)
    obtain registry where rm: "remove_active ?nrm task (sch_registry s) = (Inr (Some rec), registry)"
      using remove_active_inv [OF atr, of task] Some
      by (cases "remove_active ?nrm task (sch_registry s)") simp
    note removed = remove_active_items [OF atr rm]
    obtain disp step s1 s2 where run: "res = Inr step"
      and s1: "s1 = s\<lparr>sch_registry := registry, sch_eligibility := release_blocked (rec_host rec) (sch_eligibility s)\<rparr>"
      and d: "decided ?nrm rec outcome s1 disp s2"
      and settle: "settle_disposition com now rec outcome flds disp s2 = (step, s')"
      using complete_active [OF assms rm] by blast
    have tracked: "tracked s = add_mset (record_item rec) (tracked s1)"
      using removed by (simp add: tracked_def s1)
    have gone: "map_of (active_records (sch_registry s1)) ?k = None"
      "dead_letter_pending_records (sch_registry s1) = dead_letter_pending_records (sch_registry s)"
      "sch_runtime s1 = sch_runtime s"
      using removed by (simp_all add: s1)
    have "components_ok ?nrm s2" "?nrm (rec_host rec) = rec_host rec"
      using d removed by (simp_all add: decided_def)
    note eff = settle_effect [OF this settle]
    have "completion_effect com now task outcome s step s' \<and> tracked s' \<subseteq># tracked s"
    proof (cases step)
      case (Completion_Finished rec' disp' counts)
      then show ?thesis
        using eff completion_finished [OF Some gone(1) tracked gone(3) d, of now counts s' com] by simp
    next
      case (Completion_Pending rec' disp' letter)
      then show ?thesis
        using eff completion_pending [OF Some gone(1) tracked _ gone(2) d, of letter com s' now] removed by simp
    qed (use eff in simp)
    moreover have "scheduler_inv ?nrm s'" if "tracked s' \<subseteq># tracked s"
      using scheduler_inv_moved [OF assms(2) _ that] eff d gone(3) by (simp add: decided_def)
    ultimately show ?thesis using run by blast
  qed
qed

lemma dead_letter_success:
  assumes "scheduler_inv (fro_nrm cfg) s" and "finalize_dead_letter cfg now rec outcome flds disp s = (counts, s')"
  shows "scheduler_inv (fro_nrm cfg) s' \<and>
    (case map_of (dead_letter_pending_records (sch_registry s)) (scheduler_task_identity_key (rec_task rec)) of
      None \<Rightarrow> counts = None \<and> s' = s
    | Some persisted \<Rightarrow> counts \<noteq> None \<and> tracked s = add_mset (record_item persisted) (tracked s') \<and>
        queue_size_total s' = queue_size_total s \<and>
        map_of (dead_letter_pending_records (sch_registry s')) (scheduler_task_identity_key (rec_task rec)) = None \<and>
        (disp_forget_identity disp \<longrightarrow>
          sch_seen s' = snd (forget (wall_time now) (scheduler_task_identity_key (rec_task rec)) (sch_seen s))))"
proof -
  obtain p registry where rm: "remove_dead_letter_pending (rec_task rec) (sch_registry s) = (p, registry)"
    by fastforce
  have p: "p = map_of (dead_letter_pending_records (sch_registry s)) (scheduler_task_identity_key (rec_task rec))"
    "map_of (dead_letter_pending_records registry) (scheduler_task_identity_key (rec_task rec)) = None"
    using rm by (auto simp: remove_dead_letter_pending_def Let_def)
  show ?thesis
  proof (cases p)
    case None
    then have "counts = None \<and> s' = s"
      using assms(2) rm remove_dead_letter_none by (auto simp: finalize_dead_letter_def)
    then show ?thesis using assms(1) p None by simp
  next
    case (Some persisted)
    note items = remove_dead_letter_items [OF inv_parts(4) [OF assms(1)] rm [unfolded Some]]
    define s1 where "s1 = s\<lparr>sch_registry := registry\<rparr>"
    obtain c s2 where fin: "finalize_completion_locked cfg now persisted outcome flds disp s1 = (c, s2)" by fastforce
    have c1: "components_ok (fro_nrm cfg) s1"
      using assms(1) items by (simp add: scheduler_inv_def components_ok_def s1_def)
    have t1: "tracked s = add_mset (record_item persisted) (tracked s1)"
      using items by (simp add: tracked_def s1_def)
    note eff = finalize_effect [OF c1 fin]
    have out: "counts = Some c" "s' = s2"
      using assms(2) rm Some fin by (simp_all add: finalize_dead_letter_def s1_def)
    have "scheduler_inv (fro_nrm cfg) s'"
      using scheduler_inv_moved [OF assms(1)] eff t1 out by (simp add: finalized_def s1_def)
    moreover have "map_of (dead_letter_pending_records (sch_registry s)) (scheduler_task_identity_key (rec_task rec)) = Some persisted"
      using p(1) Some by simp
    ultimately show ?thesis
      using eff t1 out p(2) items by (simp add: finalized_def s1_def queue_size_total_def)
  qed
qed

lemma dead_letter_failure:
  assumes "host_canonical (fro_nrm cfg)" and "scheduler_inv (fro_nrm cfg) s"
  shows "scheduler_inv (fro_nrm cfg) (requeue_after_dead_letter_write_failure cfg task s) \<and>
    tracked (requeue_after_dead_letter_write_failure cfg task s) = tracked s \<and>
    sch_seen (requeue_after_dead_letter_write_failure cfg task s) = sch_seen s"
proof -
  obtain p registry where rm: "remove_dead_letter_pending task (sch_registry s) = (p, registry)"
    by fastforce
  show ?thesis
  proof (cases p)
    case None
    then have "requeue_after_dead_letter_write_failure cfg task s = s"
      using rm remove_dead_letter_none [of task "sch_registry s" registry]
      by (simp add: requeue_after_dead_letter_write_failure_def)
    then show ?thesis using assms(2) by simp
  next
    case (Some rec)
    define s1 where "s1 = s\<lparr>sch_registry := registry\<rparr>"
    note items = remove_dead_letter_items [OF inv_parts(4) [OF assms(2)] rm [unfolded Some]]
    have c1: "components_ok (fro_nrm cfg) s1"
      using assms(2) items by (simp add: scheduler_inv_def components_ok_def s1_def)
    have s': "requeue_after_dead_letter_write_failure cfg task s = requeue_ready (fro_nrm cfg) rec s1"
      using rm Some by (simp add: requeue_after_dead_letter_write_failure_def s1_def)
    have "fro_nrm cfg (rec_host rec) = rec_host rec" using items by blast
    note eff = requeue_ready_effect [OF assms(1) c1 this]
    have "tracked (requeue_ready (fro_nrm cfg) rec s1) = tracked s"
      using eff items by (simp add: tracked_def s1_def)
    moreover from this have "scheduler_inv (fro_nrm cfg) (requeue_ready (fro_nrm cfg) rec s1)"
      using scheduler_inv_moved [OF assms(2), of "requeue_ready (fro_nrm cfg) rec s1"] eff
      by (simp add: requeue_ready_def s1_def)
    ultimately show ?thesis by (simp add: s' requeue_ready_def s1_def)
  qed
qed

section \<open>Properties\<close>

text \<open>C18: Completion accounts for the task. The first locked part never raises and keeps the
  invariant. A task that is not active is ignored and nothing changes. Otherwise its active
  record is gone afterwards, and exactly one of three things has happened: the task is back in
  a queue, with the priority and the sequence number it had, which happens only to an open
  scheduler and a cancelled, deferred or timed-out outcome; it has left the scheduler; or it
  is staged for the dead-letter file, in a record about this very task. Nothing is tracked
  twice, and staging loses nothing unless a task of the same identity is already staged.\<close>

theorem completion_accounts_for_task:
  assumes "host_canonical (fro_nrm (com_frontier com))" and "scheduler_inv (fro_nrm (com_frontier com)) s"
    and "complete_locked com now task outcome flds s = (res, s')"
  shows "\<exists>step. res = Inr step \<and> scheduler_inv (fro_nrm (com_frontier com)) s' \<and> completion_effect com now task outcome s step s'"
  using assms by (rule complete_locked_effect)

definition sample_completion :: completion_config where
  "sample_completion = \<lparr>com_frontier = sample_config, com_has_writer = True, com_is_drained = False\<rparr>"

definition zero_instant :: instant where
  "zero_instant = \<lparr>wall_time = 0, monotonic_time = 0\<rparr>"

text \<open>A scheduler with one task, active.\<close>

definition busy_scheduler :: scheduler where
  "busy_scheduler = empty_scheduler\<lparr>sch_registry := snd (add_active lower_host (Some ''noaa.gov'') 7 0 sample_link empty_registry),
     sch_runtime := \<lparr>run_closed = False, next_sequence_value = 1\<rparr>\<rparr>"

lemma busy_record:
  "active_records (sch_registry busy_scheduler) = [(scheduler_task_identity_key sample_link,
     \<lparr>rec_host = Some ''noaa.gov'', rec_priority = 7, rec_sequence = 0, rec_task = sample_link\<rparr>)]"
  "dispatching_records (sch_registry busy_scheduler) = []" "dead_letter_pending_records (sch_registry busy_scheduler) = []"
  by code_simp+

lemma busy_scheduler_inv: "scheduler_inv lower_host busy_scheduler"
proof -
  have "registry_items (sch_registry busy_scheduler) = {#(Some ''noaa.gov'', 7, 0, sample_link)#}"
    using busy_record by (simp add: registry_items_def record_items_def record_item_def)
  moreover have "tracked empty_scheduler = registry_items empty_registry + queued_items (sch_queue empty_scheduler) +
      delayed_items (sch_delayed empty_scheduler)" "tracked empty_scheduler = {#}"
    by (simp_all add: tracked_def empty_scheduler_def queued_items_def htq_abs_def empty_queue_def delayed_items_def
        empty_delayed_def registry_items_def record_items_def empty_registry_def)
  ultimately have "tracked busy_scheduler = {#(Some ''noaa.gov'', 7, 0, sample_link)#}"
    by (simp add: tracked_def busy_scheduler_def)
  then have "sequences_ok busy_scheduler"
    by (simp add: sequences_ok_def busy_scheduler_def item_sequence_def)
  moreover have "atr_inv lower_host (sch_registry busy_scheduler)"
    using host_canonical.add_active_inv [OF lower_host_canonical empty_registry_inv] by (simp add: busy_scheduler_def)
  ultimately show ?thesis
    using inv_parts [OF empty_scheduler_inv [of lower_host]]
    by (simp add: scheduler_inv_def components_ok_def busy_scheduler_def)
qed

theorem completion_accounts_for_task_witness:
  "case complete_locked sample_completion zero_instant sample_link ''timeout'' None busy_scheduler of (res, s') \<Rightarrow>
     \<exists>step. res = Inr step \<and> scheduler_inv lower_host s' \<and>
       completion_effect sample_completion zero_instant sample_link ''timeout'' busy_scheduler step s'"
proof -
  obtain res s' where run: "complete_locked sample_completion zero_instant sample_link ''timeout'' None busy_scheduler = (res, s')"
    by fastforce
  have "fro_nrm (com_frontier sample_completion) = lower_host"
    by (simp add: sample_completion_def)
  with completion_accounts_for_task [OF _ _ run] run busy_scheduler_inv lower_host_canonical show ?thesis by simp
qed

text \<open>C19: The dead-letter write never loses a task. If it fails, the scheduler tracks exactly what
  it tracked before, the task is in a queue again or was not staged any more, and its identity
  stays remembered; if it succeeds, exactly the staged record leaves the scheduler and its
  identity is forgotten where the disposition says so, and a record that is no longer staged,
  because the scheduler was aborted, changes nothing. Both keep the invariant.\<close>

theorem dead_letter_write_loses_nothing:
  assumes "host_canonical (fro_nrm cfg)" and "scheduler_inv (fro_nrm cfg) s"
    and "failed = requeue_after_dead_letter_write_failure cfg (rec_task rec) s"
    and "finalize_dead_letter cfg now rec outcome flds disp s = (counts, s')"
  shows "scheduler_inv (fro_nrm cfg) failed \<and> tracked failed = tracked s \<and> sch_seen failed = sch_seen s \<and>
    scheduler_inv (fro_nrm cfg) s' \<and>
    (case map_of (dead_letter_pending_records (sch_registry s)) (scheduler_task_identity_key (rec_task rec)) of
      None \<Rightarrow> counts = None \<and> s' = s
    | Some persisted \<Rightarrow> counts \<noteq> None \<and> tracked s = add_mset (record_item persisted) (tracked s') \<and>
        queue_size_total s' = queue_size_total s \<and>
        map_of (dead_letter_pending_records (sch_registry s')) (scheduler_task_identity_key (rec_task rec)) = None \<and>
        (disp_forget_identity disp \<longrightarrow>
          sch_seen s' = snd (forget (wall_time now) (scheduler_task_identity_key (rec_task rec)) (sch_seen s))))"
  using dead_letter_failure [OF assms(1,2)] dead_letter_success [OF assms(2,4)] assms(3) by blast

theorem dead_letter_write_loses_nothing_witness:
  "let s = snd (complete_locked sample_completion zero_instant sample_link ''failed'' None busy_scheduler);
       failed = requeue_after_dead_letter_write_failure sample_config sample_link s
   in map_of (dead_letter_pending_records (sch_registry s)) (scheduler_task_identity_key sample_link) \<noteq> None \<and>
     scheduler_inv lower_host failed \<and> tracked failed = tracked s"
proof -
  obtain res s where run: "complete_locked sample_completion zero_instant sample_link ''failed'' None busy_scheduler = (res, s)"
    by fastforce
  have "fro_nrm (com_frontier sample_completion) = lower_host"
    by (simp add: sample_completion_def)
  with complete_locked_effect [OF _ _ run] busy_scheduler_inv lower_host_canonical have inv: "scheduler_inv lower_host s"
    by auto
  have "map_of (dead_letter_pending_records (sch_registry (snd (complete_locked sample_completion zero_instant sample_link
      ''failed'' None busy_scheduler)))) (scheduler_task_identity_key sample_link) \<noteq> None"
    by code_simp
  moreover obtain rec :: "active_task_record" where "rec_task rec = sample_link"
    by (metis active_task_record.select_convs(4))
  moreover obtain counts s' where "finalize_dead_letter sample_config zero_instant rec ''failed'' None
      (disposition False False True None) s = (counts, s')"
    by fastforce
  ultimately show ?thesis
    using dead_letter_write_loses_nothing [where cfg = sample_config and s = s and rec = rec and now = zero_instant, OF _ _ refl]
      inv run lower_host_canonical by simp
qed

end
