(* ===== verification/Dispatcher.thy ===== *)
theory Dispatcher imports
  Tracked_Work
begin

text \<open>
  Dispatch, \<open>crawler/scheduling/dispatch/scheduler_dispatcher.py\<close> and
  \<open>host_dispatch_wait_reader.py\<close>: choosing a host whose waits are over, popping its next task
  and making it active, dropping the backlog of hosts that are suppressed for long. The
  readings of the suppression store and of the rate limiter, which other tasks change at any
  time, are arguments; so is what the callback \<open>skip_reason_before_fetch\<close> returns.
  \<open>get\<close> is a loop around the two locked steps \<open>pick_host_or_delay_locked\<close> and
  \<open>dispatch_for_host\<close>, between which other operations may run.
\<close>

section \<open>Waits\<close>

record wait_reader =
  wait_suppression :: "(string \<Rightarrow> real option) option"
  wait_rate_limit :: "(string \<Rightarrow> real option) option"
  wait_max_inflight :: "int option"
  wait_inflight_seconds :: real

definition make_wait_reader :: "(string \<Rightarrow> real option) option \<Rightarrow> int option \<Rightarrow> real \<Rightarrow> wait_reader" where
  "make_wait_reader rate_limiter max_inflight seconds = \<lparr>wait_suppression = None, wait_rate_limit = rate_limiter,
     wait_max_inflight = max_inflight, wait_inflight_seconds = max (1 / 1000) seconds\<rparr>"

definition set_host_suppression_reader :: "(string \<Rightarrow> real option) option \<Rightarrow> wait_reader \<Rightarrow> wait_reader" where
  "set_host_suppression_reader reader w = w\<lparr>wait_suppression := reader\<rparr>"

text \<open>A reading of zero or less counts as none.\<close>

definition positive_reading :: "(string \<Rightarrow> real option) option \<Rightarrow> host \<Rightarrow> real option" where
  "positive_reading store h = (case (h, store) of (Some k, Some f) \<Rightarrow>
      (case f k of None \<Rightarrow> None | Some v \<Rightarrow> if v \<le> 0 then None else Some v)
    | _ \<Rightarrow> None)"

definition suppression_remaining_seconds :: "wait_reader \<Rightarrow> host \<Rightarrow> real option" where
  "suppression_remaining_seconds w h = positive_reading (wait_suppression w) h"

definition rate_limit_wait_seconds :: "wait_reader \<Rightarrow> host \<Rightarrow> real option" where
  "rate_limit_wait_seconds w h = positive_reading (wait_rate_limit w) h"

definition inflight_wait_seconds :: "wait_reader \<Rightarrow> host \<Rightarrow> (host \<times> int) list \<Rightarrow> real option" where
  "inflight_wait_seconds w h counts =
    (if h = None then None
     else (case wait_max_inflight w of None \<Rightarrow> None
       | Some limit \<Rightarrow> if get_default counts h 0 < limit then None else Some (wait_inflight_seconds w)))"

definition longest_wait :: "real option list \<Rightarrow> real option" where
  "longest_wait candidates = (case [v. Some v \<leftarrow> candidates, 0 < v] of [] \<Rightarrow> None | v # vs \<Rightarrow> Some (fold max vs v))"

definition wait_seconds :: "wait_reader \<Rightarrow> host \<Rightarrow> (host \<times> int) list \<Rightarrow> real option" where
  "wait_seconds w h counts = longest_wait
     [inflight_wait_seconds w h counts, suppression_remaining_seconds w h, rate_limit_wait_seconds w h]"

definition governance_wait_seconds :: "wait_reader \<Rightarrow> host \<Rightarrow> real option" where
  "governance_wait_seconds w h = longest_wait [suppression_remaining_seconds w h, rate_limit_wait_seconds w h]"

section \<open>The dispatcher\<close>

text \<open>The callback may raise; no callback and an empty reason both mean: do not skip.\<close>

record dispatch_config =
  dis_normalizer :: "host \<Rightarrow> host"
  dis_waits :: wait_reader
  dis_max_inflight :: "int option"
  dis_abandon_threshold :: "real option"
  dis_skip :: "(crawl_task \<Rightarrow> string option result) option"

definition coerce_max_inflight :: "int option \<Rightarrow> int option" where
  "coerce_max_inflight v = (case v of None \<Rightarrow> None
     | Some n \<Rightarrow> (let resolved = max 0 n in if 0 < resolved then Some resolved else None))"

definition min_delay_wait_seconds :: real where
  "min_delay_wait_seconds = 1 / 100"

definition max_delay_wait_seconds :: real where
  "max_delay_wait_seconds = 1 / 2"

definition max_delayed_promotions_per_tick :: int where
  "max_delayed_promotions_per_tick = 512"

definition clamp_poll_delay :: "real \<Rightarrow> real" where
  "clamp_poll_delay w = max min_delay_wait_seconds (min w max_delay_wait_seconds)"

definition current_inflight :: "host \<Rightarrow> scheduler \<Rightarrow> int" where
  "current_inflight h s = (if h = None then 0 else get_default (inflight_count_by_host (sch_registry s)) h 0)"

definition host_has_room :: "dispatch_config \<Rightarrow> host \<Rightarrow> scheduler \<Rightarrow> bool" where
  "host_has_room cfg h s = (if h = None then True
     else (case coerce_max_inflight (dis_max_inflight cfg) of None \<Rightarrow> True
       | Some limit \<Rightarrow> get_default (inflight_count_by_host (sch_registry s)) h 0 < limit))"

text \<open>Track a host as eligible from some time on; plus infinity blocks it.\<close>

definition upsert_host :: "host \<Rightarrow> pyfloat \<Rightarrow> scheduler \<Rightarrow> unit result \<times> scheduler" where
  "upsert_host h t s = (case upsert h (PyFloat t) (current_inflight h s) (sch_eligibility s) of
     (r, e) \<Rightarrow> (r, s\<lparr>sch_eligibility := e\<rparr>))"

definition block_host :: "host \<Rightarrow> scheduler \<Rightarrow> unit result \<times> scheduler" where
  "block_host h s = upsert_host h PosInf s"

definition forget_host :: "host \<Rightarrow> scheduler \<Rightarrow> scheduler" where
  "forget_host h s = s\<lparr>sch_eligibility := elig_remove h (sch_eligibility s)\<rparr>"

definition should_skip_task_before_fetch :: "dispatch_config \<Rightarrow> crawl_task \<Rightarrow> bool result" where
  "should_skip_task_before_fetch cfg t = (case dis_skip cfg of None \<Rightarrow> Inr False
     | Some f \<Rightarrow> map_sum id (\<lambda>reason. or_else reason [] \<noteq> []) (f t))"

section \<open>Choosing a host\<close>

text \<open>The fallback: the first host with pending tasks, in the order of the dictionary.\<close>

fun first_pending_host :: "(host \<Rightarrow> host) \<Rightarrow> crawl_task host_task_queue \<Rightarrow> host list \<Rightarrow> host" where
  "first_pending_host nrm q [] = None"
| "first_pending_host nrm q (h # hs) = (if 0 < pending_for_host nrm q h then h else first_pending_host nrm q hs)"

lemma peek_states [simp]: "elig_states (snd (peek e)) = elig_states e"
  by (simp add: peek_def split: prod.splits)

lemma peek_tracked: "fst (peek e) = Some (h, t) \<Longrightarrow> map_of (elig_states e) h \<noteq> None"
  using peek_loop_Some [of "elig_states e" "elig_heap e" h t] by (auto simp: peek_def split: prod.splits)

lemma length_delete_less: "map_of m k \<noteq> None \<Longrightarrow> length (AList.delete k m) < length m"
  by (induction m) (auto simp: AList.delete_eq less_Suc_eq_le split: if_splits)

lemma peek_remove_less: "(Some (h, t), e') = peek e \<Longrightarrow> length (elig_states (elig_remove h e')) < length (elig_states e)"
  using peek_tracked [of e h t] peek_states [of e] length_delete_less [of "elig_states e" h]
  by (cases "peek e") (auto simp: elig_remove_def)

text \<open>Hosts without tasks are dropped on the way; the result is the host, or none.\<close>

function candidate_host ::
  "(host \<Rightarrow> host) \<Rightarrow> real \<Rightarrow> crawl_task host_task_queue \<Rightarrow> host_eligibility_queue \<Rightarrow> host \<times> host_eligibility_queue" where
  "candidate_host nrm now q e =
    (case peek e of
       (None, e) \<Rightarrow> (first_pending_host nrm q (map fst (pending_count_by_host q)), e)
     | (Some (h, ready_at), e) \<Rightarrow>
        if pending_for_host nrm q h \<le> 0 then candidate_host nrm now q (elig_remove h e)
        else if ready_at \<in> {Blocked, BeforeAll} then (None, e)
        else if ready_at \<le> At now then (h, e) else (None, e))"
  by pat_completeness auto
termination
  apply (relation "measure (\<lambda>(nrm, now, q, e). length (elig_states e))")
  by (auto dest: peek_remove_less)

declare candidate_host.simps [simp del]

section \<open>Refreshing the queues\<close>

text \<open>The hosts with a backlog. The source collects them in a set, whose order does not matter.\<close>

definition candidate_suppressed_hosts :: "scheduler \<Rightarrow> string list" where
  "candidate_suppressed_hosts s = remdups (List.map_filter id
     (map fst (pending_count_by_host (sch_queue s)) @ map fst (delayed_pending_by_host (sch_delayed s))))"

definition abandoned :: "dispatch_config \<Rightarrow> real \<Rightarrow> string \<Rightarrow> bool" where
  "abandoned cfg threshold h = (case suppression_remaining_seconds (dis_waits cfg) (Some h) of
     None \<Rightarrow> False | Some remaining \<Rightarrow> threshold \<le> remaining)"

definition discard_backlog :: "dispatch_config \<Rightarrow> string \<Rightarrow> scheduler \<Rightarrow> int \<times> scheduler" where
  "discard_backlog cfg h s =
    (case discard_host (dis_normalizer cfg) (Some h) (sch_queue s) of (dropped_ready, q) \<Rightarrow>
     (case delayed_discard_host (dis_normalizer cfg) (Some h) (sch_delayed s) of (dropped_delayed, d) \<Rightarrow>
       (dropped_ready + dropped_delayed, forget_host (Some h) (s\<lparr>sch_queue := q, sch_delayed := d\<rparr>))))"

fun prune_hosts :: "dispatch_config \<Rightarrow> real \<Rightarrow> string list \<Rightarrow> int \<Rightarrow> scheduler \<Rightarrow> int \<times> scheduler" where
  "prune_hosts cfg threshold [] dropped_total s = (dropped_total, s)"
| "prune_hosts cfg threshold (h # hs) dropped_total s =
    (if \<not> abandoned cfg threshold h then prune_hosts cfg threshold hs dropped_total s
     else (case discard_backlog cfg h s of (dropped, s) \<Rightarrow>
       prune_hosts cfg threshold hs (if dropped \<le> 0 then dropped_total else dropped_total + dropped) s))"

definition prune_suppressed_host_backlog :: "dispatch_config \<Rightarrow> scheduler \<Rightarrow> int \<times> scheduler" where
  "prune_suppressed_host_backlog cfg s = (case dis_abandon_threshold cfg of None \<Rightarrow> (0, s)
     | Some threshold \<Rightarrow> if threshold \<le> 0 then (0, s)
         else prune_hosts cfg threshold (candidate_suppressed_hosts s) 0 s)"

definition refresh_queues :: "dispatch_config \<Rightarrow> real \<Rightarrow> scheduler \<Rightarrow> unit result \<times> scheduler" where
  "refresh_queues cfg now s =
    (case prune_suppressed_host_backlog cfg s of (dropped, s) \<Rightarrow>
     (case promote_ready (dis_normalizer cfg) now (PyFloat (Fin now)) (Some max_delayed_promotions_per_tick)
        (sch_delayed s) (sch_queue s) of
       (r, d, q) \<Rightarrow> (map_sum id (\<lambda>n. ()) r, s\<lparr>sch_delayed := d, sch_queue := q\<rparr>)))"

text \<open>A host, or the delay after which to look again, or neither: wait for a notification.\<close>

definition pick_host_or_delay_locked :: "dispatch_config \<Rightarrow> instant \<Rightarrow> scheduler \<Rightarrow> (host \<times> real option) result \<times> scheduler" where
  "pick_host_or_delay_locked cfg now s =
    (let t = monotonic_time now in
     case refresh_queues cfg t s of
       (Inl e, s) \<Rightarrow> (Inl e, s)
     | (Inr _, s) \<Rightarrow>
        if 0 < queue_size (sch_queue s)
        then (case candidate_host (dis_normalizer cfg) t (sch_queue s) (sch_eligibility s) of (candidate, e) \<Rightarrow>
          (let s = s\<lparr>sch_eligibility := e\<rparr> in
           if candidate \<noteq> None then (Inr (candidate, None), s)
           else if run_closed (sch_runtime s) then (Inl SchedulerClosedError, s)
           else (case elig_next_ready_in_seconds t (PyFloat (Fin t)) e of
              (Inl err, e) \<Rightarrow> (Inl err, s\<lparr>sch_eligibility := e\<rparr>)
            | (Inr delay, e) \<Rightarrow> (Inr (None, map_option clamp_poll_delay delay), s\<lparr>sch_eligibility := e\<rparr>))))
        else if run_closed (sch_runtime s) then (Inl SchedulerClosedError, s)
        else (case delayed_next_ready_in_seconds t (PyFloat (Fin t)) (sch_delayed s) of
           Inl err \<Rightarrow> (Inl err, s)
         | Inr delay \<Rightarrow> (Inr (None, map_option clamp_poll_delay delay), s)))"

section \<open>Dispatching one host\<close>

definition start_task :: "dispatch_config \<Rightarrow> crawl_task queue_item \<Rightarrow> scheduler \<Rightarrow> crawl_task option result \<times> scheduler" where
  "start_task cfg item s =
    (case item of (item_host, priority, sequence, task) \<Rightarrow>
      (let s = s\<lparr>sch_registry := mark_dispatching (dis_normalizer cfg) item_host priority sequence task (sch_registry s)\<rparr> in
       case should_skip_task_before_fetch cfg task of
         Inl e \<Rightarrow> (Inl e, s)
       | Inr True \<Rightarrow> (Inr None, s\<lparr>sch_registry := snd (remove_dispatching task (sch_registry s))\<rparr>)
       | Inr False \<Rightarrow>
          (case activate_dispatching (dis_normalizer cfg) task (sch_registry s) of
             (Inl e, r) \<Rightarrow> (Inl e, s\<lparr>sch_registry := r\<rparr>)
           | (Inr _, r) \<Rightarrow> (Inr (Some task), s\<lparr>sch_registry := r\<rparr>))))"

definition dispatch_host_locked ::
  "dispatch_config \<Rightarrow> instant \<Rightarrow> real option \<Rightarrow> host \<Rightarrow> scheduler \<Rightarrow> crawl_task option result \<times> scheduler" where
  "dispatch_host_locked cfg now governance_wait h s =
    (if pending_for_host (dis_normalizer cfg) (sch_queue s) h \<le> 0 then (Inr None, forget_host h s)
     else if \<not> host_has_room cfg h s
     then (case block_host h s of (r, s) \<Rightarrow> (map_sum id (\<lambda>_. None) r, s))
     else if 0 < or_else governance_wait 0
     then (case upsert_host h (Fin (monotonic_time now + or_else governance_wait 0)) s of (r, s) \<Rightarrow> (map_sum id (\<lambda>_. None) r, s))
     else (case pop_item_for_host (dis_normalizer cfg) h (sch_queue s) of
        (None, q) \<Rightarrow> (Inr None, forget_host h (s\<lparr>sch_queue := q\<rparr>))
      | (Some item, q) \<Rightarrow> start_task cfg item (s\<lparr>sch_queue := q\<rparr>)))"

text \<open>The recovery after a failure: the first dispatching record of the host goes back.\<close>

definition requeue_dispatching_item :: "dispatch_config \<Rightarrow> host \<Rightarrow> scheduler \<Rightarrow> scheduler" where
  "requeue_dispatching_item cfg h s =
    (case find (\<lambda>rec. rec_host rec = h) (dispatching_values (sch_registry s)) of
       None \<Rightarrow> s
     | Some rec \<Rightarrow> requeue_ready (dis_normalizer cfg) rec
         (s\<lparr>sch_registry := snd (remove_dispatching (rec_task rec) (sch_registry s))\<rparr>))"

fun recovered_error :: "py_error \<Rightarrow> bool" where
  "recovered_error (RuntimeError m) = True"
| "recovered_error (OSError m) = True"
| "recovered_error (ValueError m) = True"
| "recovered_error _ = False"

text \<open>The governance wait is read before the lock is taken, and reading it may raise.\<close>

definition dispatch_for_host ::
  "dispatch_config \<Rightarrow> instant \<Rightarrow> real option result \<Rightarrow> host \<Rightarrow> scheduler \<Rightarrow> crawl_task option result \<times> scheduler" where
  "dispatch_for_host cfg now governance_wait h s =
    (case (case governance_wait of Inl e \<Rightarrow> (Inl e, s) | Inr w \<Rightarrow> dispatch_host_locked cfg now w h s) of
       (Inl e, s) \<Rightarrow> (Inl e, if recovered_error e then requeue_dispatching_item cfg h s else s)
     | (Inr r, s) \<Rightarrow> (Inr r, s))"

section \<open>Lemmas on the queues\<close>

lemma filter_own_items:
  "filter_mset (\<lambda>x. fst x = k) (mset (map (entry_item h) es)) = (if h = k then mset (map (entry_item h) es) else {#})"
  by (induction es) (auto simp: entry_item_def [abs_def])

lemma rr_host_items:
  "distinct (map fst r) \<Longrightarrow> filter_mset (\<lambda>x. fst x = k) (mset (concat (map (\<lambda>(h, es). map (entry_item h) es) r))) =
    mset (map (entry_item k) (get_default r k []))"
proof (induction r)
  case (Cons x r)
  obtain h es where x: "x = (h, es)" by (cases x)
  have "h \<notin> fst ` set r \<Longrightarrow> get_default r h [] = []"
    by (intro get_default_None) (simp add: map_of_eq_None_iff)
  then show ?case
    using Cons by (auto simp: x get_default_def filter_own_items simp del: mset_map mset_filter)
qed (simp add: get_default_def)

lemma rr_delete_items:
  assumes "distinct (map fst r)"
  shows "mset (concat (map (\<lambda>(h, es). map (entry_item h) es) (AList.delete k r))) =
    filter_mset (\<lambda>x. fst x \<noteq> k) (mset (concat (map (\<lambda>(h, es). map (entry_item h) es) r)))"
proof -
  let ?items = "mset (concat (map (\<lambda>(h, es). map (entry_item h) es) r))"
  have "mset (concat (map (\<lambda>(h, es). map (entry_item h) es) (AList.delete k r))) + filter_mset (\<lambda>x. fst x = k) ?items = ?items"
    using rr_items_delete [OF assms] rr_host_items [OF assms] by simp
  then show ?thesis
    by (metis add_right_cancel multiset_partition union_commute)
qed

context host_canonical begin

lemma abs_distinct: "htq_inv nrm q \<Longrightarrow> distinct (map fst (htq_abs q))"
  using htq_invD(3) by (simp add: htq_abs_def comp_def)

lemma discard_host_items:
  assumes "htq_inv nrm q"
  shows "queued_items (snd (discard_host nrm h q)) = filter_mset (\<lambda>x. fst x \<noteq> nrm h) (queued_items q)"
  using discard_host_abs [OF assms, of h] rr_delete_items [OF abs_distinct [OF assms], of "nrm h"]
  by (simp add: queued_items_def rr_discard_def)

lemma pop_item_for_host_items:
  assumes "htq_inv nrm q" and "pop_item_for_host nrm h q = (Some item, q')"
  shows "queued_items q = add_mset item (queued_items q') \<and> fst item = nrm h \<and>
    (\<forall>x\<in>#queued_items q. fst x = nrm h \<longrightarrow> (fst (snd item), fst (snd (snd item))) \<le> (fst (snd x), fst (snd (snd x))))"
proof -
  obtain e es where es: "get_default (htq_abs q) (nrm h) [] = e # es" and item: "item = entry_item (nrm h) e"
    and q': "htq_abs q' = (if es = [] then AList.delete (nrm h) (htq_abs q) else AList.update (nrm h) es (htq_abs q))"
    using pop_item_for_host_abs [OF assms(1), of h] assms(2) by (auto split: list.splits)
  have "queued_items q = add_mset item (queued_items q')"
  proof (cases "es = []")
    case True
    then show ?thesis
      using rr_items_delete [OF abs_distinct [OF assms(1)], of "nrm h"] es item q' by (simp add: queued_items_def)
  next
    case False
    then show ?thesis
      using rr_items_update [of "nrm h" es "htq_abs q"] es item q' by (simp add: queued_items_def)
  qed
  moreover have "(fst (snd item), fst (snd (snd item))) \<le> (fst (snd x), fst (snd (snd x)))"
    if x: "x \<in># queued_items q" "fst x = nrm h" for x
  proof -
    have "x \<in># filter_mset (\<lambda>x. fst x = nrm h) (queued_items q)" using x by simp
    then obtain e' where e': "e' \<in> set (e # es)" "x = entry_item (nrm h) e'"
      unfolding queued_items_def rr_host_items [OF abs_distinct [OF assms(1)]] es by auto
    have "heap_ok entry_key (e # es)"
      using htq_inv_heap [OF assms(1), of "nrm h"] es htq_abs_get [OF assms(1)] by simp
    with e' show ?thesis by (auto simp: heap_ok_Cons item entry_item_def entry_key_def)
  qed
  ultimately show ?thesis by (simp add: item entry_item_def)
qed

lemma delayed_discard_items:
  "delayed_items (snd (delayed_discard_host nrm h d)) = filter_mset (\<lambda>x. fst x \<noteq> nrm h) (delayed_items d)"
proof -
  let ?kept = "filter (\<lambda>e. delayed_host e \<noteq> nrm h) (delayed_entries d)"
  have "?kept = delayed_entries d" if "length (delayed_entries d) \<le> length ?kept"
    using that by (metis antisym_conv length_filter_le length_filter_less linorder_not_le filter_True)
  then show ?thesis
    by (auto simp: delayed_discard_host_def delayed_items_def Let_def filter_mset_image_mset filter_mset_eq_conv
        simp flip: mset_filter)
qed

end

section \<open>Effects\<close>

text \<open>Nothing but the eligibility of hosts has changed.\<close>

definition same_but_eligibility :: "scheduler \<Rightarrow> scheduler \<Rightarrow> bool" where
  "same_but_eligibility s s' \<longleftrightarrow> s' = s\<lparr>sch_eligibility := sch_eligibility s'\<rparr> \<and> heq_inv (sch_eligibility s')"

lemma eligibility_effect:
  assumes "scheduler_inv nrm s" and "same_but_eligibility s s'"
  shows "scheduler_inv nrm s' \<and> tracked s' = tracked s \<and> sch_registry s' = sch_registry s \<and> queue_size_total s' = queue_size_total s"
proof -
  obtain e where s': "s' = s\<lparr>sch_eligibility := e\<rparr>" and e: "heq_inv e"
    using assms(2) unfolding same_but_eligibility_def by blast
  have "tracked s' = tracked s" by (simp add: s' tracked_def)
  then show ?thesis
    using assms(1) e scheduler_inv_moved [OF assms(1), of s']
    by (simp add: s' scheduler_inv_def components_ok_def queue_size_total_def)
qed

lemma forget_host_same: "heq_inv (sch_eligibility s) \<Longrightarrow> same_but_eligibility s (forget_host h s)"
  by (simp add: same_but_eligibility_def forget_host_def elig_remove_inv)

lemma coerce_eligible_fin [simp]:
  "coerce_eligible_at (PyFloat (Fin r)) = Inr (At r)" "coerce_eligible_at (PyFloat PosInf) = Inr Blocked"
  by (simp_all add: coerce_eligible_at_def)

lemma upsert_host_same:
  assumes "heq_inv (sch_eligibility s)" and "t = Fin r \<or> t = PosInf" and "upsert_host h t s = (res, s')"
  shows "res = Inr () \<and> same_but_eligibility s s' \<and>
    elig_next h (sch_eligibility s') = Some (case t of Fin r \<Rightarrow> At r | _ \<Rightarrow> Blocked)"
proof -
  let ?u = "upsert h (PyFloat t) (current_inflight h s) (sch_eligibility s)"
  have "fst ?u = Inr ()" "elig_next h (snd ?u) = Some (case t of Fin r \<Rightarrow> At r | _ \<Rightarrow> Blocked)"
    using assms(2) by (auto simp: upsert_def Let_def elig_next_def update_conv')
  moreover have "heq_inv (snd ?u)" by (rule upsert_inv [OF assms(1)])
  moreover have "res = fst ?u" "s' = s\<lparr>sch_eligibility := snd ?u\<rparr>"
    using assms(3) by (auto simp: upsert_host_def split: prod.splits)
  ultimately show ?thesis by (simp add: same_but_eligibility_def)
qed

text \<open>Starting the popped task.\<close>

definition started ::
  "(host \<Rightarrow> host) \<Rightarrow> crawl_task queue_item \<Rightarrow> scheduler \<Rightarrow> crawl_task option result \<Rightarrow> scheduler \<Rightarrow> bool" where
  "started nrm item s res s' \<longleftrightarrow> components_ok nrm s' \<and> tracked s' \<subseteq># add_mset item (tracked s) \<and>
     sch_queue s' = sch_queue s \<and> sch_delayed s' = sch_delayed s \<and> sch_runtime s' = sch_runtime s \<and>
     (case res of
        Inl e \<Rightarrow> (\<exists>rec. record_item rec = item \<and> sch_registry s' = (sch_registry s)\<lparr>dispatching_records :=
          AList.update (scheduler_task_identity_key (rec_task rec)) rec (dispatching_records (sch_registry s))\<rparr>)
      | Inr None \<Rightarrow> tracked s' \<subseteq># tracked s \<and> active_records (sch_registry s') = active_records (sch_registry s)
      | Inr (Some t) \<Rightarrow> t = snd (snd (snd item)) \<and>
          (\<exists>rec. record_item rec = item \<and>
            active_records (sch_registry s') = AList.update (scheduler_task_identity_key t) rec (active_records (sch_registry s))))"

lemma mark_parts:
  "active_records (mark_dispatching nrm h p n t r) = active_records r"
  "dispatching_records (mark_dispatching nrm h p n t r) = AList.update (scheduler_task_identity_key t)
     \<lparr>rec_host = nrm h, rec_priority = p, rec_sequence = n, rec_task = t\<rparr> (dispatching_records r)"
  "dead_letter_pending_records (mark_dispatching nrm h p n t r) = dead_letter_pending_records r"
  by (simp_all add: mark_dispatching_def)

lemma activate_parts:
  assumes "activate_dispatching nrm t r = (Inr (Some rec), r')"
  shows "active_records r' = AList.update (scheduler_task_identity_key t) rec (active_records r)"
  using assms by (auto simp: activate_dispatching_def store_active_def Let_def split: option.splits sum.splits prod.splits)

lemma start_task_effect:
  assumes "host_canonical (dis_normalizer cfg)" and "components_ok (dis_normalizer cfg) s"
    and "dis_normalizer cfg (fst item) = fst item" and "start_task cfg item s = (res, s')"
  shows "started (dis_normalizer cfg) item s res s'"
proof -
  let ?nrm = "dis_normalizer cfg"
  obtain h p n t where item: "item = (h, p, n, t)" by (cases item)
  have nh: "?nrm h = h" using assms(3) item by simp
  let ?rec = "\<lparr>rec_host = h, rec_priority = p, rec_sequence = n, rec_task = t\<rparr>"
  let ?r = "mark_dispatching ?nrm h p n t (sch_registry s)"
  have atr: "atr_inv ?nrm (sch_registry s)" using assms(2) by (simp add: components_ok_def)
  have mark: "atr_inv ?nrm ?r" by (rule host_canonical.mark_dispatching_inv [OF assms(1) atr])
  have marked: "map_of (dispatching_records ?r) (scheduler_task_identity_key t) = Some ?rec"
    "registry_items ?r \<subseteq># add_mset item (registry_items (sch_registry s))"
    "item \<in># record_items (dispatching_records ?r)" "record_item ?rec = item"
    using mark_dispatching_items(1) [OF atr, of h p n t] record_items_update_mem [of ?rec] nh
    by (simp_all add: mark_parts item update_conv' record_item_def)
  define s1 where "s1 = s\<lparr>sch_registry := ?r\<rparr>"
  have c1: "components_ok ?nrm s1" "tracked s1 \<subseteq># add_mset item (tracked s)"
    using assms(2) mark marked(2) by (simp_all add: s1_def components_ok_def tracked_def)
  show ?thesis
  proof (cases "should_skip_task_before_fetch cfg t")
    case (Inl e)
    then have "res = Inl e" "s' = s1" using assms(4) by (simp_all add: start_task_def item s1_def)
    moreover have "?r = (sch_registry s)\<lparr>dispatching_records :=
        AList.update (scheduler_task_identity_key (rec_task ?rec)) ?rec (dispatching_records (sch_registry s))\<rparr>"
      using nh by (simp add: mark_dispatching_def)
    ultimately show ?thesis
      using c1 marked(4) unfolding started_def by (auto simp: s1_def intro!: exI [of _ ?rec])
  next
    case (Inr skip)
    show ?thesis
    proof (cases skip)
      case True
      let ?r2 = "snd (remove_dispatching t ?r)"
      have "remove_dispatching t ?r = (Some ?rec, ?r2)" using marked(1) by (simp add: remove_dispatching_def Let_def)
      note gone = remove_dispatching_items [OF mark this]
      have "registry_items ?r2 \<subseteq># registry_items (sch_registry s)"
        using gone marked(2,4) by simp
      moreover have "res = Inr None" "s' = s\<lparr>sch_registry := ?r2\<rparr>"
        using assms(4) Inr True by (simp_all add: start_task_def item)
      moreover have "active_records ?r2 = active_records (sch_registry s)"
        by (simp add: remove_dispatching_def Let_def mark_parts)
      ultimately show ?thesis
        using assms(2) gone subset_mset.add_increasing [of "{#item#}" "tracked s'" "tracked s"]
        by (simp add: started_def components_ok_def tracked_def)
    next
      case False
      obtain r2 where act: "activate_dispatching ?nrm t ?r = (Inr (Some ?rec), r2)"
        using activate_dispatching_inv [OF mark, of t] marked(1) by (cases "activate_dispatching ?nrm t ?r") simp
      note moved = activate_dispatching_items [OF mark act]
      have "res = Inr (Some t)" "s' = s\<lparr>sch_registry := r2\<rparr>"
        using assms(4) Inr False act by (simp_all add: start_task_def item)
      moreover have "registry_items r2 \<subseteq># add_mset item (registry_items (sch_registry s))"
        using moved marked(2) subset_mset.order_trans by blast
      ultimately show ?thesis
        using assms(2) moved marked(4) activate_parts [OF act]
        by (auto simp: started_def components_ok_def tracked_def mark_parts item)
    qed
  qed
qed

text \<open>A dispatch either only moves the eligibility of hosts, or pops the best task of the host,
  which then is allowed to run now.\<close>

definition popped ::
  "dispatch_config \<Rightarrow> real option \<Rightarrow> host \<Rightarrow> scheduler \<Rightarrow> crawl_task option result \<Rightarrow> scheduler \<Rightarrow> bool" where
  "popped cfg governance_wait h s res s' \<longleftrightarrow> (\<exists>item s1. host_has_room cfg h s \<and> or_else governance_wait 0 \<le> 0 \<and>
     fst item = dis_normalizer cfg h \<and>
     (\<forall>x\<in>#queued_items (sch_queue s). fst x = dis_normalizer cfg h \<longrightarrow>
       (fst (snd item), fst (snd (snd item))) \<le> (fst (snd x), fst (snd (snd x)))) \<and>
     s1 = s\<lparr>sch_queue := sch_queue s1\<rparr> \<and> queued_items (sch_queue s) = add_mset item (queued_items (sch_queue s1)) \<and>
     started (dis_normalizer cfg) item s1 res s')"

lemma dispatch_cases:
  assumes "host_canonical (dis_normalizer cfg)" and "scheduler_inv (dis_normalizer cfg) s"
    and "dispatch_host_locked cfg now governance_wait h s = (res, s')"
  shows "res = Inr None \<and> same_but_eligibility s s' \<or> popped cfg governance_wait h s res s'"
proof -
  let ?nrm = "dis_normalizer cfg"
  have heq: "heq_inv (sch_eligibility s)" and htq: "htq_inv ?nrm (sch_queue s)"
    by (rule inv_parts [OF assms(2)])+
  consider "pending_for_host ?nrm (sch_queue s) h \<le> 0"
    | "0 < pending_for_host ?nrm (sch_queue s) h" "\<not> host_has_room cfg h s"
    | "0 < pending_for_host ?nrm (sch_queue s) h" "host_has_room cfg h s" "0 < or_else governance_wait 0"
    | "0 < pending_for_host ?nrm (sch_queue s) h" "host_has_room cfg h s" "or_else governance_wait 0 \<le> 0"
    by linarith
  then show ?thesis
  proof cases
    case 1
    then show ?thesis
      using assms(3) forget_host_same [OF heq] by (auto simp: dispatch_host_locked_def)
  next
    case 2
    obtain r s1 where u: "upsert_host h PosInf s = (r, s1)" by fastforce
    then show ?thesis
      using assms(3) 2 upsert_host_same [OF heq _ u] by (auto simp: dispatch_host_locked_def block_host_def)
  next
    case 3
    obtain r s1 where u: "upsert_host h (Fin (monotonic_time now + or_else governance_wait 0)) s = (r, s1)" by fastforce
    then show ?thesis
      using assms(3) 3 upsert_host_same [OF heq _ u] by (auto simp: dispatch_host_locked_def)
  next
    case 4
    obtain x q where pop: "pop_item_for_host ?nrm h (sch_queue s) = (x, q)" by fastforce
    show ?thesis
    proof (cases x)
      case None
      then have "q = sch_queue s"
        using pop by (auto simp: pop_item_for_host_def Let_def split: option.splits prod.splits if_splits)
      then show ?thesis
        using assms(3) 4 pop None forget_host_same [OF heq] by (auto simp: dispatch_host_locked_def)
    next
      case (Some item)
      define s1 where "s1 = s\<lparr>sch_queue := q\<rparr>"
      note items = host_canonical.pop_item_for_host_items [OF assms(1) htq pop [unfolded Some]]
      have "htq_inv ?nrm q"
        using host_canonical.pop_item_for_host_inv [OF assms(1) htq, of h] pop by simp
      then have "components_ok ?nrm s1"
        using assms(2) by (simp add: s1_def scheduler_inv_def components_ok_def)
      moreover have "?nrm (fst item) = fst item"
        using items host_canonical.nrm_nrm [OF assms(1)] by simp
      moreover have "start_task cfg item s1 = (res, s')"
        using assms(3) 4 pop Some by (simp add: dispatch_host_locked_def s1_def)
      ultimately have "started ?nrm item s1 res s'"
        by (rule start_task_effect [OF assms(1)])
      then have "popped cfg governance_wait h s res s'"
        unfolding popped_def using 4 items by (intro exI [of _ item] exI [of _ s1]) (simp add: s1_def)
      then show ?thesis ..
    qed
  qed
qed

lemma popped_inv:
  assumes "scheduler_inv (dis_normalizer cfg) s" and "popped cfg w h s res s'"
  shows "scheduler_inv (dis_normalizer cfg) s' \<and> tracked s' \<subseteq># tracked s"
proof -
  obtain item s1 where s1: "s1 = s\<lparr>sch_queue := sch_queue s1\<rparr>"
    and items: "queued_items (sch_queue s) = add_mset item (queued_items (sch_queue s1))"
    and st: "started (dis_normalizer cfg) item s1 res s'"
    using assms(2) unfolding popped_def by blast
  have frame: "sch_delayed s1 = sch_delayed s" "sch_registry s1 = sch_registry s" "sch_runtime s1 = sch_runtime s"
    by (subst s1, simp)+
  have "tracked s = add_mset item (tracked s1)"
    using items frame by (simp add: tracked_def)
  then have "tracked s' \<subseteq># tracked s"
    using st by (simp add: started_def)
  moreover have "components_ok (dis_normalizer cfg) s'" "sch_runtime s' = sch_runtime s"
    using st frame by (simp_all add: started_def)
  ultimately show ?thesis
    using scheduler_inv_moved [OF assms(1)] by blast
qed

lemma requeue_dispatching_effect:
  assumes "host_canonical (dis_normalizer cfg)" and "scheduler_inv (dis_normalizer cfg) s"
  shows "scheduler_inv (dis_normalizer cfg) (requeue_dispatching_item cfg h s) \<and>
    tracked (requeue_dispatching_item cfg h s) = tracked s \<and>
    active_records (sch_registry (requeue_dispatching_item cfg h s)) = active_records (sch_registry s) \<and>
    (\<forall>rec\<in>set (dispatching_values (sch_registry s)). rec_host rec = h \<longrightarrow>
      queue_size (sch_queue (requeue_dispatching_item cfg h s)) = queue_size (sch_queue s) + 1)"
proof (cases "find (\<lambda>rec. rec_host rec = h) (dispatching_values (sch_registry s))")
  case None
  then have "requeue_dispatching_item cfg h s = s"
    by (simp add: requeue_dispatching_item_def)
  with None show ?thesis using assms(2) by (simp add: find_None_iff)
next
  case (Some rec)
  let ?k = "scheduler_task_identity_key (rec_task rec)"
  have "rec \<in> set (dispatching_values (sch_registry s))"
    using Some by (metis find_Some_iff nth_mem)
  then obtain k where "(k, rec) \<in> set (dispatching_records (sch_registry s))"
    by (auto simp: dispatching_values_def)
  then have "map_of (dispatching_records (sch_registry s)) k = Some rec"
    using inv_parts(4) [OF assms(2)] by (simp add: atr_inv_def keyed_def)
  then have "map_of (dispatching_records (sch_registry s)) ?k = Some rec"
    using keyed_lookup [of "dis_normalizer cfg" "dispatching_records (sch_registry s)" k rec] inv_parts(4) [OF assms(2)]
    by (simp add: atr_inv_def)
  then obtain r where rm: "remove_dispatching (rec_task rec) (sch_registry s) = (Some rec, r)"
    by (simp add: remove_dispatching_def Let_def)
  note items = remove_dispatching_items [OF inv_parts(4) [OF assms(2)] rm]
  define s1 where "s1 = s\<lparr>sch_registry := r\<rparr>"
  have c1: "components_ok (dis_normalizer cfg) s1"
    using assms(2) items by (simp add: s1_def scheduler_inv_def components_ok_def)
  have "dis_normalizer cfg (rec_host rec) = rec_host rec" using items by blast
  note eff = requeue_ready_effect [OF assms(1) c1 this]
  have s': "requeue_dispatching_item cfg h s = requeue_ready (dis_normalizer cfg) rec s1"
    using Some rm by (simp add: requeue_dispatching_item_def s1_def)
  have "active_records r = active_records (sch_registry s)"
    using rm by (auto simp: remove_dispatching_def Let_def)
  moreover have "tracked (requeue_ready (dis_normalizer cfg) rec s1) = tracked s"
    using eff items by (simp add: tracked_def s1_def)
  ultimately show ?thesis
    using eff scheduler_inv_moved [OF assms(2), of "requeue_ready (dis_normalizer cfg) rec s1"]
    by (simp add: s' requeue_ready_def s1_def)
qed

section \<open>In-flight limits\<close>

definition cap_respected :: "dispatch_config \<Rightarrow> scheduler \<Rightarrow> bool" where
  "cap_respected cfg s \<longleftrightarrow> (\<forall>k limit. coerce_max_inflight (dis_max_inflight cfg) = Some limit \<longrightarrow>
     get_default (inflight_count_by_host (sch_registry s)) (Some k) 0 \<le> limit)"

lemma count_update:
  "length (filter P (map snd (AList.update k v m))) \<le> length (filter P (map snd m)) + (if P v then 1 else 0)"
  by (induction m) auto

lemma cap_started:
  assumes "atr_inv (dis_normalizer cfg) (sch_registry s)" and "cap_respected cfg s"
    and "host_has_room cfg h s" and "fst item = h" and "started (dis_normalizer cfg) item s res s'"
  shows "cap_respected cfg s'"
proof -
  have atr': "atr_inv (dis_normalizer cfg) (sch_registry s')"
    using assms(5) by (simp add: started_def components_ok_def)
  have cap: "int (length (filter (\<lambda>rec. rec_host rec = Some k) (active_values (sch_registry s)))) \<le> limit"
    if "coerce_max_inflight (dis_max_inflight cfg) = Some limit" for k limit
    using assms(2) that unfolding cap_respected_def inflight_count_eq [OF assms(1)] by blast
  consider "active_records (sch_registry s') = active_records (sch_registry s)"
    | t rec where "record_item rec = item"
      "active_records (sch_registry s') = AList.update (scheduler_task_identity_key t) rec (active_records (sch_registry s))"
    using assms(5) by (auto simp: started_def split: sum.splits option.splits)
  then have "int (length (filter (\<lambda>rec. rec_host rec = Some k) (active_values (sch_registry s')))) \<le> limit"
    if lim: "coerce_max_inflight (dis_max_inflight cfg) = Some limit" for k limit
  proof cases
    case 1
    then show ?thesis using cap [OF lim] by (simp add: active_values_def)
  next
    case (2 t rec)
    have host: "rec_host rec = h" using 2(1) assms(4) by (auto simp: record_item_def)
    let ?n = "\<lambda>s. length (filter (\<lambda>rec. rec_host rec = Some k) (active_values (sch_registry s)))"
    have le: "?n s' \<le> ?n s + (if rec_host rec = Some k then 1 else 0)"
      using count_update [of "\<lambda>rec. rec_host rec = Some k" "scheduler_task_identity_key t" rec "active_records (sch_registry s)"]
      by (simp add: active_values_def 2(2))
    show ?thesis
    proof (cases "h = Some k")
      case True
      then have "int (?n s) < limit"
        using assms(3) lim by (simp add: host_has_room_def inflight_count_eq [OF assms(1)])
      then show ?thesis using le True host by simp
    next
      case False
      then show ?thesis using le cap [OF lim, of k] host by simp
    qed
  qed
  then show ?thesis
    by (simp add: cap_respected_def inflight_count_eq [OF atr'])
qed

text \<open>The effect of a dispatch, whatever its result.\<close>

lemma dispatch_effect:
  assumes "host_canonical (dis_normalizer cfg)" and "scheduler_inv (dis_normalizer cfg) s"
    and "dis_normalizer cfg h = h" and "cap_respected cfg s"
    and "dispatch_host_locked cfg now governance_wait h s = (res, s')"
  shows "scheduler_inv (dis_normalizer cfg) s' \<and> tracked s' \<subseteq># tracked s \<and> cap_respected cfg s' \<and> sch_runtime s' = sch_runtime s \<and>
    (\<forall>t. res = Inr (Some t) \<longrightarrow> host_has_room cfg h s \<and> or_else governance_wait 0 \<le> 0 \<and>
      (\<exists>p n. queued_items (sch_queue s) = add_mset (h, p, n, t) (queued_items (sch_queue s')) \<and>
        (\<forall>x\<in>#queued_items (sch_queue s). fst x = h \<longrightarrow> (p, n) \<le> (fst (snd x), fst (snd (snd x)))) \<and>
        (\<exists>rec\<in>set (active_values (sch_registry s')). record_item rec = (h, p, n, t))))"
proof -
  have atr: "atr_inv (dis_normalizer cfg) (sch_registry s)" by (rule inv_parts(4) [OF assms(2)])
  from dispatch_cases [OF assms(1,2,5)] show ?thesis
  proof
    assume same: "res = Inr None \<and> same_but_eligibility s s'"
    then have "sch_runtime s' = sch_runtime s"
      unfolding same_but_eligibility_def by (metis scheduler.select_convs(10) scheduler.surjective scheduler.update_convs(3))
    with same eligibility_effect [OF assms(2)] assms(4) show ?thesis
      by (auto simp: cap_respected_def)
  next
    assume p: "popped cfg governance_wait h s res s'"
    then obtain item s1 where room: "host_has_room cfg h s" "or_else governance_wait 0 \<le> 0" "fst item = h"
        "\<forall>x\<in>#queued_items (sch_queue s). fst x = h \<longrightarrow> (fst (snd item), fst (snd (snd item))) \<le> (fst (snd x), fst (snd (snd x)))"
      and s1: "s1 = s\<lparr>sch_queue := sch_queue s1\<rparr>" and items: "queued_items (sch_queue s) = add_mset item (queued_items (sch_queue s1))"
      and st: "started (dis_normalizer cfg) item s1 res s'"
      unfolding popped_def assms(3) by blast
    have reg: "sch_registry s1 = sch_registry s" "sch_runtime s1 = sch_runtime s" by (subst s1, simp)+
    have run: "sch_runtime s' = sch_runtime s" using st reg by (simp add: started_def)
    have "cap_respected cfg s1" "host_has_room cfg h s1"
      using assms(4) room(1) unfolding cap_respected_def host_has_room_def reg(1) by blast+
    with cap_started [OF _ _ _ room(3) st] atr reg have "cap_respected cfg s'" by simp
    moreover have "\<exists>p n. queued_items (sch_queue s) = add_mset (h, p, n, t) (queued_items (sch_queue s')) \<and>
        (\<forall>x\<in>#queued_items (sch_queue s). fst x = h \<longrightarrow> (p, n) \<le> (fst (snd x), fst (snd (snd x)))) \<and>
        (\<exists>rec\<in>set (active_values (sch_registry s')). record_item rec = (h, p, n, t))" if t: "res = Inr (Some t)" for t
    proof -
      obtain p n where i: "item = (h, p, n, t)" and q: "sch_queue s' = sch_queue s1"
        using st room(3) t by (cases item) (auto simp: started_def)
      obtain rec where rec: "record_item rec = item"
        "active_records (sch_registry s') = AList.update (scheduler_task_identity_key t) rec (active_records (sch_registry s1))"
        using st t by (auto simp: started_def)
      have "(scheduler_task_identity_key t, rec) \<in> set (active_records (sch_registry s'))"
        unfolding rec(2) by (metis map_of_SomeD update_conv' fun_upd_same)
      then have "rec \<in> set (active_values (sch_registry s'))" by (force simp: active_values_def)
      then show ?thesis using items room(4) rec(1) i q by auto
    qed
    ultimately show ?thesis
      using popped_inv [OF assms(2) p] room(1,2) run by blast
  qed
qed

section \<open>Properties\<close>

text \<open>C20: A dispatch runs the right task, or none. It keeps the invariant of the scheduler and tracks
  nothing new. When it returns a task, that task was queued for the host, none of the host's
  tasks had a better priority or, at the same priority, an earlier sequence number, the host had
  room under its in-flight limit and no governance wait, exactly that task left the queue, and it
  is active now. The in-flight limit of every host is kept in any case.\<close>

theorem dispatch_respects_waits_and_limits:
  assumes "host_canonical (dis_normalizer cfg)" and "scheduler_inv (dis_normalizer cfg) s"
    and "dis_normalizer cfg h = h" and "cap_respected cfg s"
    and "dispatch_host_locked cfg now governance_wait h s = (res, s')"
  shows "scheduler_inv (dis_normalizer cfg) s' \<and> tracked s' \<subseteq># tracked s \<and> cap_respected cfg s' \<and>
    (\<forall>t. res = Inr (Some t) \<longrightarrow> host_has_room cfg h s \<and> or_else governance_wait 0 \<le> 0 \<and>
      (\<exists>p n. queued_items (sch_queue s) = add_mset (h, p, n, t) (queued_items (sch_queue s')) \<and>
        (\<forall>x\<in>#queued_items (sch_queue s). fst x = h \<longrightarrow> (p, n) \<le> (fst (snd x), fst (snd (snd x)))) \<and>
        (\<exists>rec\<in>set (active_values (sch_registry s')). record_item rec = (h, p, n, t))))"
  using dispatch_effect [OF assms] by blast

text \<open>Two hosts with one task each; the first is tracked.\<close>

definition other_link :: crawl_task where
  "other_link = sample_link\<lparr>task_url := ''https://other.org/y''\<rparr>"

definition two_hosts :: "crawl_task host_task_queue" where
  "two_hosts = push lower_host (Some ''other.org'') 7 1 other_link (push lower_host (Some ''noaa.gov'') 7 0 sample_link empty_queue)"

definition paced :: "real \<Rightarrow> host_eligibility_queue" where
  "paced t = snd (upsert (Some ''noaa.gov'') (PyFloat (Fin t)) 0 empty_eligibility)"

definition waiting_scheduler :: "real \<Rightarrow> scheduler" where
  "waiting_scheduler t = empty_scheduler\<lparr>sch_queue := two_hosts, sch_eligibility := paced t,
     sch_runtime := \<lparr>run_closed = False, next_sequence_value = 2\<rparr>\<rparr>"

definition sample_dispatch :: dispatch_config where
  "sample_dispatch = \<lparr>dis_normalizer = lower_host, dis_waits = make_wait_reader None (Some 1) (1 / 4),
     dis_max_inflight = Some 1, dis_abandon_threshold = Some 60, dis_skip = None\<rparr>"

lemma two_hosts_items:
  "queued_items two_hosts = {#(Some ''noaa.gov'', 7, 0, sample_link), (Some ''other.org'', 7, 1, other_link)#}"
proof -
  have h: "lower_host (Some ''noaa.gov'') = Some ''noaa.gov''" "lower_host (Some ''other.org'') = Some ''other.org''"
    by code_simp+
  have "queued_items (empty_queue :: crawl_task host_task_queue) = {#}"
    by (simp add: queued_items_def htq_abs_def empty_queue_def)
  then show ?thesis
    unfolding two_hosts_def
    by (simp add: h host_canonical.push_items [OF lower_host_canonical] host_canonical.push_inv [OF lower_host_canonical] empty_queue_inv
        add_mset_commute)
qed

lemma waiting_scheduler_inv: "scheduler_inv lower_host (waiting_scheduler t)"
proof -
  have "htq_inv lower_host two_hosts"
    unfolding two_hosts_def by (intro host_canonical.push_inv [OF lower_host_canonical] empty_queue_inv)
  moreover have "heq_inv (paced t)"
    unfolding paced_def by (intro upsert_inv empty_eligibility_inv)
  ultimately have "components_ok lower_host (waiting_scheduler t)"
    using inv_parts [OF empty_scheduler_inv [of lower_host]] by (simp add: components_ok_def waiting_scheduler_def)
  moreover have "tracked (waiting_scheduler t) = queued_items two_hosts"
    by (simp add: tracked_def waiting_scheduler_def empty_scheduler_def delayed_items_def empty_delayed_def registry_items_def
        record_items_def empty_registry_def)
  ultimately show ?thesis
    by (simp add: scheduler_inv_def sequences_ok_def two_hosts_items item_sequence_def waiting_scheduler_def)
qed

theorem dispatch_respects_waits_and_limits_witness:
  "case dispatch_host_locked sample_dispatch \<lparr>wall_time = 0, monotonic_time = 0\<rparr> None (Some ''noaa.gov'') (waiting_scheduler 5) of (res, s') \<Rightarrow>
     res = Inr (Some sample_link) \<and> scheduler_inv lower_host s' \<and> cap_respected sample_dispatch s'"
proof -
  let ?run = "dispatch_host_locked sample_dispatch \<lparr>wall_time = 0, monotonic_time = 0\<rparr> None (Some ''noaa.gov'') (waiting_scheduler 5)"
  obtain res s' where run: "?run = (res, s')" by fastforce
  have "fst ?run = Inr (Some sample_link)" by code_simp
  moreover have "dis_normalizer sample_dispatch = lower_host" by (simp add: sample_dispatch_def)
  moreover have "lower_host (Some ''noaa.gov'') = Some ''noaa.gov''" by code_simp
  moreover have "cap_respected sample_dispatch (waiting_scheduler 5)"
    by (simp add: cap_respected_def waiting_scheduler_def empty_scheduler_def empty_registry_def get_default_def
        sample_dispatch_def coerce_max_inflight_def)
  ultimately show ?thesis
    using dispatch_respects_waits_and_limits [OF _ _ _ _ run] run waiting_scheduler_inv [of 5] lower_host_canonical by simp
qed

definition has_work :: "(host \<Rightarrow> host) \<Rightarrow> crawl_task host_task_queue \<Rightarrow> host_eligibility_queue \<Rightarrow> host \<Rightarrow> host_dispatch_state \<Rightarrow> bool" where
  "has_work nrm q e h st \<longleftrightarrow> map_of (elig_states e) h = Some st \<and> 0 < pending_for_host nrm q h"

lemma has_work_remove:
  "pending_for_host nrm q h \<le> 0 \<Longrightarrow> has_work nrm q (elig_remove h e) h' st \<longleftrightarrow> has_work nrm q e h' st"
  by (auto simp: has_work_def elig_remove_def delete_conv')

lemma has_work_peek: "peek e = (x, e') \<Longrightarrow> has_work nrm q e' h st \<longleftrightarrow> has_work nrm q e h st"
  using peek_states [of e] by (simp add: has_work_def)

text \<open>The host that \<open>get\<close> picks. If a tracked host has tasks, then the earliest such host
  decides, the one updated first among equals: it is picked if its time has come, and otherwise
  no host is picked at all, even if hosts that are not tracked have tasks they could run. Only if
  no tracked host has tasks, the first host of the pending counters is taken. Hosts with tasks
  stay tracked.\<close>

theorem candidate_is_earliest_tracked:
  assumes "heq_inv e" and "candidate_host nrm now q e = (c, e')"
  shows "heq_inv e' \<and> (\<forall>h st. has_work nrm q e' h st \<longleftrightarrow> has_work nrm q e h st) \<and>
    (if \<exists>h st. has_work nrm q e h st
     then \<exists>h st. has_work nrm q e h st \<and>
       (\<forall>h' st'. has_work nrm q e h' st' \<longrightarrow>
         (next_eligible_at st, dispatch_generation st) \<le> (next_eligible_at st', dispatch_generation st')) \<and>
       c = (if next_eligible_at st \<notin> {Blocked, BeforeAll} \<and> next_eligible_at st \<le> At now then h else None)
     else c = first_pending_host nrm q (map fst (pending_count_by_host q)))"
  using assms
proof (induction nrm now q e arbitrary: c e' rule: candidate_host.induct)
  case (1 nrm now q e)
  obtain x e1 where pk: "peek e = (x, e1)" by fastforce
  have inv1: "heq_inv e1" using peek_inv [OF 1(2)] pk by simp
  have work1: "has_work nrm q e1 h st \<longleftrightarrow> has_work nrm q e h st" for h st
    using has_work_peek [OF pk] .
  note least = peek_least [OF 1(2), unfolded pk fst_conv]
  note run = 1(3) [unfolded candidate_host.simps [of nrm now q e] pk prod.case]
  show ?case
  proof (cases x)
    case None
    then have "\<not> has_work nrm q e h st" for h st
      using least by (simp add: has_work_def)
    then show ?thesis using run None inv1 work1 by auto
  next
    case (Some y)
    obtain h t where y: "y = (h, t)" by (cases y)
    obtain st where st: "map_of (elig_states e) h = Some st" "next_eligible_at st = t"
      and min: "\<And>h' st'. map_of (elig_states e) h' = Some st' \<Longrightarrow>
          (t, dispatch_generation st) \<le> (next_eligible_at st', dispatch_generation st')"
      using least Some y by auto
    show ?thesis
    proof (cases "pending_for_host nrm q h \<le> 0")
      case True
      then have "candidate_host nrm now q (elig_remove h e1) = (c, e')"
        using run Some y by simp
      note IH = 1(1) [OF pk [symmetric] Some y [symmetric] True elig_remove_inv [OF inv1] this]
      then show ?thesis
        unfolding has_work_remove [OF True] work1 .
    next
      case False
      then have work: "has_work nrm q e h st" using st by (simp add: has_work_def)
      moreover have "\<forall>h' st'. has_work nrm q e h' st' \<longrightarrow>
          (next_eligible_at st, dispatch_generation st) \<le> (next_eligible_at st', dispatch_generation st')"
        using min st(2) by (auto simp: has_work_def)
      moreover have "c = (if next_eligible_at st \<notin> {Blocked, BeforeAll} \<and> next_eligible_at st \<le> At now then h else None)" "e' = e1"
        using run Some y False st(2) by (auto split: if_splits)
      moreover from work have "\<exists>h st. has_work nrm q e h st" by blast
      ultimately show ?thesis
        unfolding if_P [OF \<open>\<exists>h st. has_work nrm q e h st\<close>] using inv1 work1 by blast
    qed
  qed
qed

text \<open>Only the first host is tracked, and its time has not come: the other one is not picked.\<close>

theorem candidate_is_earliest_tracked_witness:
  "fst (candidate_host lower_host 0 two_hosts (paced 5)) = None \<and>
   0 < pending_for_host lower_host two_hosts (Some ''other.org'') \<and> elig_next (Some ''other.org'') (paced 5) = None"
proof -
  obtain c e' where run: "candidate_host lower_host 0 two_hosts (paced 5) = (c, e')" by fastforce
  have inv: "heq_inv (paced 5)"
    unfolding paced_def by (intro upsert_inv empty_eligibility_inv)
  have pend: "pending_for_host lower_host two_hosts (Some ''noaa.gov'') = 1"
    "pending_for_host lower_host two_hosts (Some ''other.org'') = 1" "elig_next (Some ''other.org'') (paced 5) = None"
    by code_simp+
  have states: "elig_states (paced 5) = [(Some ''noaa.gov'', \<lparr>dispatch_host = Some ''noaa.gov'', next_eligible_at = At 5,
      dispatch_inflight = 0, dispatch_generation = 1\<rparr>)]"
    by (simp add: paced_def upsert_def empty_eligibility_def)
  have "has_work lower_host two_hosts (paced 5) h st \<longleftrightarrow> h = Some ''noaa.gov'' \<and> st = \<lparr>dispatch_host = Some ''noaa.gov'',
      next_eligible_at = At 5, dispatch_inflight = 0, dispatch_generation = 1\<rparr>" for h st
    using pend by (auto simp: has_work_def states split: if_splits)
  with candidate_is_earliest_tracked [OF inv run] have "c = None"
    by simp
  with run pend show ?thesis by simp
qed

section \<open>Dropping the backlog of suppressed hosts\<close>

lemma size_filter_host: "count (image_mset fst M) h = size (filter_mset (\<lambda>x. fst x = h) M)"
  by (induction M) auto

context host_canonical begin

lemma discard_counts:
  "htq_inv nrm q \<Longrightarrow> fst (discard_host nrm h q) = int (size (filter_mset (\<lambda>x. fst x = nrm h) (queued_items q)))"
  using ready.discard_count [of q h] by (simp add: size_filter_host)

lemma delayed_discard_counts:
  assumes "dtq_inv nrm d"
  shows "fst (delayed_discard_host nrm h d) = int (size (filter_mset (\<lambda>x. fst x = nrm h) (delayed_items d)))"
proof -
  have "image_mset delayed_host (mset (delayed_entries d)) = image_mset fst (delayed_items d)"
    by (simp add: delayed_items_def image_mset.compositionality comp_def)
  then show ?thesis
    using later.discard_count [OF assms, of h] by (simp add: size_filter_host)
qed

lemma queued_host_listed:
  assumes "htq_inv nrm q" and "x \<in># queued_items q"
  shows "fst x \<in> set (map fst (pending_count_by_host q)) \<and> nrm (fst x) = fst x"
proof -
  have "fst x \<in># image_mset fst (queued_items q)" using assms(2) by force
  then have "0 < count (image_mset fst (queued_items q)) (fst x)" by (simp only: count_greater_zero_iff)
  then have "get_default (queues q) (fst x) [] \<noteq> []"
    unfolding queued_hosts_count [OF assms(1)] by simp
  then obtain es where es: "map_of (queues q) (fst x) = Some es"
    by (auto simp: get_default_def split: option.splits)
  then have "map_of (pending_by_host q) (fst x) \<noteq> None" using htq_invD(7) [OF assms(1)] by simp
  then show ?thesis
    using htq_invD(6) [OF assms(1) es] by (simp add: pending_count_by_host_def map_of_eq_None_iff)
qed

lemma delayed_host_listed:
  assumes "dtq_inv nrm d" and "x \<in># delayed_items d"
  shows "fst x \<in> set (map fst (delayed_pending_by_host d)) \<and> nrm (fst x) = fst x"
proof -
  obtain e where e: "e \<in> set (delayed_entries d)" "fst x = delayed_host e"
    using assms(2) by (auto simp: delayed_items_def)
  then have "map_of (delayed_pending_by_host d) (fst x) \<noteq> None"
    using assms(1) by (auto simp: dtq_inv_def cnt_ok_def)
  then show ?thesis
    using assms(1) e by (simp add: dtq_inv_def map_of_eq_None_iff)
qed

end

text \<open>The items of a list of hosts are gone from both queues; nothing else changed but eligibility.\<close>

definition dropped_hosts :: "string set \<Rightarrow> scheduler \<Rightarrow> int \<Rightarrow> scheduler \<Rightarrow> bool" where
  "dropped_hosts H s n s' \<longleftrightarrow>
     queued_items (sch_queue s') = filter_mset (\<lambda>x. fst x \<notin> Some ` H) (queued_items (sch_queue s)) \<and>
     delayed_items (sch_delayed s') = filter_mset (\<lambda>x. fst x \<notin> Some ` H) (delayed_items (sch_delayed s)) \<and>
     n = int (size (filter_mset (\<lambda>x. fst x \<in> Some ` H) (queued_items (sch_queue s) + delayed_items (sch_delayed s)))) \<and>
     s' = s\<lparr>sch_queue := sch_queue s', sch_delayed := sch_delayed s', sch_eligibility := sch_eligibility s'\<rparr>"

lemma filter_insert_host:
  "filter_mset (\<lambda>x. fst x \<notin> Some ` H) (filter_mset (\<lambda>x. fst x \<noteq> Some h) M) = filter_mset (\<lambda>x. fst x \<notin> Some ` insert h H) M"
  by (induction M) auto

lemma filter_split_host:
  "h \<notin> H \<Longrightarrow> size (filter_mset (\<lambda>x. fst x \<in> Some ` insert h H) M) =
    size (filter_mset (\<lambda>x. fst x = Some h) M) + size (filter_mset (\<lambda>x. fst x \<in> Some ` H) (filter_mset (\<lambda>x. fst x \<noteq> Some h) M))"
  by (induction M) auto

lemma discard_backlog_effect:
  assumes "host_canonical (dis_normalizer cfg)" and "components_ok (dis_normalizer cfg) s"
    and "dis_normalizer cfg (Some h) = Some h" and "discard_backlog cfg h s = (n, s')"
  shows "components_ok (dis_normalizer cfg) s' \<and> dropped_hosts {h} s n s'"
proof -
  let ?nrm = "dis_normalizer cfg"
  have inv: "htq_inv ?nrm (sch_queue s)" "dtq_inv ?nrm (sch_delayed s)" "heq_inv (sch_eligibility s)"
    using assms(2) by (simp_all add: components_ok_def)
  let ?q = "discard_host ?nrm (Some h) (sch_queue s)" and ?d = "delayed_discard_host ?nrm (Some h) (sch_delayed s)"
  have s': "s' = forget_host (Some h) (s\<lparr>sch_queue := snd ?q, sch_delayed := snd ?d\<rparr>)" "n = fst ?q + fst ?d"
    using assms(4) by (auto simp: discard_backlog_def split: prod.splits)
  have "htq_inv ?nrm (snd ?q)" by (rule host_canonical.discard_host_inv [OF assms(1) inv(1)])
  moreover have "dtq_inv ?nrm (snd ?d)" by (rule host_canonical.delayed_discard_inv [OF assms(1) inv(2)])
  moreover have "queued_items (snd ?q) = filter_mset (\<lambda>x. fst x \<noteq> Some h) (queued_items (sch_queue s))"
    "delayed_items (snd ?d) = filter_mset (\<lambda>x. fst x \<noteq> Some h) (delayed_items (sch_delayed s))"
    using host_canonical.discard_host_items [OF assms(1) inv(1), of "Some h"]
      host_canonical.delayed_discard_items [OF assms(1), of "Some h" "sch_delayed s"] assms(3) by simp_all
  moreover have "n = int (size (filter_mset (\<lambda>x. fst x = Some h) (queued_items (sch_queue s) + delayed_items (sch_delayed s))))"
    using host_canonical.discard_counts [OF assms(1) inv(1), of "Some h"]
      host_canonical.delayed_discard_counts [OF assms(1) inv(2), of "Some h"] assms(3) s'(2) by simp
  ultimately show ?thesis
    using assms(2) elig_remove_inv [OF inv(3)] by (simp add: s'(1) forget_host_def components_ok_def dropped_hosts_def)
qed

lemma prune_hosts_effect:
  assumes "host_canonical (dis_normalizer cfg)" and "components_ok (dis_normalizer cfg) s"
    and "\<forall>h\<in>set hs. dis_normalizer cfg (Some h) = Some h" and "distinct hs" and "prune_hosts cfg threshold hs m s = (n, s')"
  shows "components_ok (dis_normalizer cfg) s' \<and> dropped_hosts {h \<in> set hs. abandoned cfg threshold h} s (n - m) s'"
  using assms(2-)
proof (induction hs arbitrary: m s)
  case Nil
  then show ?case by (simp add: dropped_hosts_def)
next
  case (Cons h hs)
  show ?case
  proof (cases "abandoned cfg threshold h")
    case False
    then have "{k \<in> set (h # hs). abandoned cfg threshold k} = {k \<in> set hs. abandoned cfg threshold k}" by auto
    with False Cons show ?thesis by simp
  next
    case True
    let ?H = "{k \<in> set hs. abandoned cfg threshold k}"
    obtain k s1 where d: "discard_backlog cfg h s = (k, s1)" by fastforce
    have "dis_normalizer cfg (Some h) = Some h" using Cons.prems(2) by simp
    note one = discard_backlog_effect [OF assms(1) Cons.prems(1) this d]
    then have "0 \<le> k" by (simp add: dropped_hosts_def)
    then have "prune_hosts cfg threshold hs (m + k) s1 = (n, s')"
      using Cons.prems(4) True d by (simp split: if_splits)
    then have rest: "components_ok (dis_normalizer cfg) s' \<and> dropped_hosts ?H s1 (n - (m + k)) s'"
      using Cons.IH [of s1 "m + k"] one Cons.prems(2,3) by simp
    have "{k \<in> set (h # hs). abandoned cfg threshold k} = insert h ?H" "h \<notin> ?H" using True Cons.prems(3) by auto
    moreover have "dropped_hosts (insert h ?H) s (n - m) s'"
    proof -
      have s1: "s1 = s\<lparr>sch_queue := sch_queue s1, sch_delayed := sch_delayed s1, sch_eligibility := sch_eligibility s1\<rparr>"
        and s2: "s' = s1\<lparr>sch_queue := sch_queue s', sch_delayed := sch_delayed s', sch_eligibility := sch_eligibility s'\<rparr>"
        using one rest unfolding dropped_hosts_def by blast+
      have "s' = s\<lparr>sch_queue := sch_queue s', sch_delayed := sch_delayed s', sch_eligibility := sch_eligibility s'\<rparr>"
        by (subst s2, subst s1) simp
      moreover have "n - m = int (size (filter_mset (\<lambda>x. fst x \<in> Some ` insert h ?H)
          (queued_items (sch_queue s) + delayed_items (sch_delayed s))))"
        using one rest unfolding filter_split_host [OF \<open>h \<notin> ?H\<close>] dropped_hosts_def by simp
      moreover have "queued_items (sch_queue s') = filter_mset (\<lambda>x. fst x \<notin> Some ` insert h ?H) (queued_items (sch_queue s))"
        "delayed_items (sch_delayed s') = filter_mset (\<lambda>x. fst x \<notin> Some ` insert h ?H) (delayed_items (sch_delayed s))"
        using one rest unfolding dropped_hosts_def filter_insert_host [symmetric] by simp_all
      ultimately show ?thesis unfolding dropped_hosts_def by blast
    qed
    ultimately show ?thesis using rest by simp
  qed
qed

text \<open>A queued task whose host is suppressed for at least the threshold.\<close>

definition long_suppressed :: "dispatch_config \<Rightarrow> crawl_task queue_item \<Rightarrow> bool" where
  "long_suppressed cfg x \<longleftrightarrow> (\<exists>threshold h. dis_abandon_threshold cfg = Some threshold \<and> 0 < threshold \<and>
     fst x = Some h \<and> abandoned cfg threshold h)"

lemma set_map_filter_id: "set (List.map_filter id xs) = {x. Some x \<in> set xs}"
  by (force simp: List.map_filter_def)

lemma candidate_hosts_cover:
  assumes "host_canonical (dis_normalizer cfg)" and "components_ok (dis_normalizer cfg) s"
    and "x \<in># queued_items (sch_queue s) + delayed_items (sch_delayed s)" and "fst x = Some h"
  shows "h \<in> set (candidate_suppressed_hosts s)"
  using host_canonical.queued_host_listed [OF assms(1), of "sch_queue s" x]
    host_canonical.delayed_host_listed [OF assms(1), of "sch_delayed s" x] assms(2-4)
  by (auto simp: candidate_suppressed_hosts_def set_map_filter_id components_ok_def)

lemma candidate_hosts_canonical:
  assumes "host_canonical (dis_normalizer cfg)" and "components_ok (dis_normalizer cfg) s"
    and "h \<in> set (candidate_suppressed_hosts s)"
  shows "dis_normalizer cfg (Some h) = Some h"
proof -
  let ?q = "sch_queue s" and ?d = "sch_delayed s"
  have inv: "htq_inv (dis_normalizer cfg) ?q" "dtq_inv (dis_normalizer cfg) ?d"
    using assms(2) by (simp_all add: components_ok_def)
  have "map_of (pending_by_host ?q) (Some h) \<noteq> None \<or> map_of (delayed_pending_by_host ?d) (Some h) \<noteq> None"
    using assms(3) by (auto simp: candidate_suppressed_hosts_def set_map_filter_id pending_count_by_host_def map_of_eq_None_iff image_iff)
  then show ?thesis
  proof
    assume "map_of (pending_by_host ?q) (Some h) \<noteq> None"
    then obtain es where "map_of (queues ?q) (Some h) = Some es" using htq_invD(7) [OF inv(1)] by auto
    then show ?thesis using htq_invD(6) [OF inv(1)] by blast
  next
    assume "map_of (delayed_pending_by_host ?d) (Some h) \<noteq> None"
    then have "Some h \<in># image_mset delayed_host (mset (delayed_entries ?d))"
      using inv(2) by (auto simp: dtq_inv_def cnt_ok_def split: if_splits)
    then show ?thesis using inv(2) by (auto simp: dtq_inv_def)
  qed
qed

lemma prune_effect:
  assumes "host_canonical (dis_normalizer cfg)" and "scheduler_inv (dis_normalizer cfg) s"
    and "prune_suppressed_host_backlog cfg s = (n, s')"
  shows "scheduler_inv (dis_normalizer cfg) s' \<and>
    queued_items (sch_queue s') = filter_mset (\<lambda>x. \<not> long_suppressed cfg x) (queued_items (sch_queue s)) \<and>
    delayed_items (sch_delayed s') = filter_mset (\<lambda>x. \<not> long_suppressed cfg x) (delayed_items (sch_delayed s)) \<and>
    n = int (size (filter_mset (long_suppressed cfg) (queued_items (sch_queue s) + delayed_items (sch_delayed s)))) \<and>
    s' = s\<lparr>sch_queue := sch_queue s', sch_delayed := sch_delayed s', sch_eligibility := sch_eligibility s'\<rparr>"
proof (cases "\<exists>threshold. dis_abandon_threshold cfg = Some threshold \<and> 0 < threshold")
  case False
  then have "n = 0" "s' = s"
    using assms(3) by (auto simp: prune_suppressed_host_backlog_def split: option.splits if_splits)
  moreover have "long_suppressed cfg = (\<lambda>x. False)"
    using False by (auto simp: long_suppressed_def fun_eq_iff)
  ultimately show ?thesis using assms(2) by simp
next
  case True
  then obtain threshold where t: "dis_abandon_threshold cfg = Some threshold" "0 < threshold" by blast
  let ?hs = "candidate_suppressed_hosts s" and ?H = "{h \<in> set (candidate_suppressed_hosts s). abandoned cfg threshold h}"
  have c: "components_ok (dis_normalizer cfg) s" using assms(2) by (simp add: scheduler_inv_def)
  have "prune_hosts cfg threshold ?hs 0 s = (n, s')"
    using assms(3) t by (simp add: prune_suppressed_host_backlog_def)
  with prune_hosts_effect [OF assms(1) c _ _ this] candidate_hosts_canonical [OF assms(1) c]
  have eff: "components_ok (dis_normalizer cfg) s'" "dropped_hosts ?H s n s'"
    by (simp_all add: candidate_suppressed_hosts_def)
  have key: "fst x \<in> Some ` ?H \<longleftrightarrow> long_suppressed cfg x"
    if "x \<in># queued_items (sch_queue s) + delayed_items (sch_delayed s)" for x
    using candidate_hosts_cover [OF assms(1) c that] t by (auto simp: long_suppressed_def)
  have same: "filter_mset (\<lambda>x. fst x \<in> Some ` ?H) (queued_items (sch_queue s) + delayed_items (sch_delayed s)) =
      filter_mset (long_suppressed cfg) (queued_items (sch_queue s) + delayed_items (sch_delayed s))"
    by (rule filter_mset_cong [OF refl]) (rule key)
  have kept: "filter_mset (\<lambda>x. fst x \<notin> Some ` ?H) (queued_items (sch_queue s)) = filter_mset (\<lambda>x. \<not> long_suppressed cfg x) (queued_items (sch_queue s))"
    "filter_mset (\<lambda>x. fst x \<notin> Some ` ?H) (delayed_items (sch_delayed s)) = filter_mset (\<lambda>x. \<not> long_suppressed cfg x) (delayed_items (sch_delayed s))"
    by (rule filter_mset_cong [OF refl], subst key, simp_all)+
  have frame: "s' = s\<lparr>sch_queue := sch_queue s', sch_delayed := sch_delayed s', sch_eligibility := sch_eligibility s'\<rparr>"
    using eff(2) unfolding dropped_hosts_def by blast
  have "sch_registry s' = sch_registry s" "sch_runtime s' = sch_runtime s"
    by (subst frame, simp)+
  then have "tracked s' \<subseteq># tracked s"
    using eff(2) by (auto simp: tracked_def dropped_hosts_def intro!: subset_mset.add_mono multiset_filter_subset)
  then have "scheduler_inv (dis_normalizer cfg) s'"
    using scheduler_inv_moved [OF assms(2) eff(1)] \<open>sch_runtime s' = sch_runtime s\<close> by blast
  with eff(2) frame show ?thesis
    unfolding dropped_hosts_def same kept by simp
qed

text \<open>Abandoning a backlog is exact. With a threshold above zero, pruning removes from the ready
  and the delayed queue exactly the tasks whose host is suppressed for at least the threshold,
  returns their number, and leaves every other task, the registry and all counters alone, so
  that the invariant holds afterwards; without a threshold it changes nothing.\<close>

theorem prune_drops_exactly_suppressed:
  assumes "host_canonical (dis_normalizer cfg)" and "scheduler_inv (dis_normalizer cfg) s"
    and "prune_suppressed_host_backlog cfg s = (n, s')"
  shows "scheduler_inv (dis_normalizer cfg) s' \<and>
    queued_items (sch_queue s') = filter_mset (\<lambda>x. \<not> long_suppressed cfg x) (queued_items (sch_queue s)) \<and>
    delayed_items (sch_delayed s') = filter_mset (\<lambda>x. \<not> long_suppressed cfg x) (delayed_items (sch_delayed s)) \<and>
    n = int (size (filter_mset (long_suppressed cfg) (queued_items (sch_queue s) + delayed_items (sch_delayed s)))) \<and>
    s' = s\<lparr>sch_queue := sch_queue s', sch_delayed := sch_delayed s', sch_eligibility := sch_eligibility s'\<rparr>"
  using assms by (rule prune_effect)

definition suppressing_dispatch :: dispatch_config where
  "suppressing_dispatch = sample_dispatch\<lparr>dis_waits := set_host_suppression_reader
     (Some (\<lambda>h. if h = ''noaa.gov'' then Some 90 else Some 30)) (make_wait_reader None (Some 1) (1 / 4))\<rparr>"

theorem prune_drops_exactly_suppressed_witness:
  "case prune_suppressed_host_backlog suppressing_dispatch (waiting_scheduler 5) of (n, s') \<Rightarrow>
     n = 1 \<and> queued_items (sch_queue s') = {#(Some ''other.org'', 7, 1, other_link)#}"
proof -
  obtain n s' where run: "prune_suppressed_host_backlog suppressing_dispatch (waiting_scheduler 5) = (n, s')" by fastforce
  have cfg: "dis_normalizer suppressing_dispatch = lower_host" "dis_abandon_threshold suppressing_dispatch = Some 60"
    by (simp_all add: suppressing_dispatch_def sample_dispatch_def)
  have "suppression_remaining_seconds (dis_waits suppressing_dispatch) (Some ''noaa.gov'') = Some 90"
    "suppression_remaining_seconds (dis_waits suppressing_dispatch) (Some ''other.org'') = Some 30"
    by (simp_all add: suppressing_dispatch_def suppression_remaining_seconds_def positive_reading_def
        set_host_suppression_reader_def make_wait_reader_def)
  then have gone: "long_suppressed suppressing_dispatch (Some ''noaa.gov'', 7, 0, sample_link)"
    "\<not> long_suppressed suppressing_dispatch (Some ''other.org'', 7, 1, other_link)"
    by (simp_all add: long_suppressed_def abandoned_def cfg)
  have "sch_queue (waiting_scheduler 5) = two_hosts" "delayed_items (sch_delayed (waiting_scheduler 5)) = {#}"
    by (simp_all add: waiting_scheduler_def empty_scheduler_def delayed_items_def empty_delayed_def)
  then show ?thesis
    using prune_drops_exactly_suppressed [OF _ _ run, unfolded cfg(1)] waiting_scheduler_inv [of 5] lower_host_canonical run gone
    by (simp add: two_hosts_items)
qed

section \<open>Failures\<close>

text \<open>A failed dispatch loses nothing it recovers from. If the callback that may skip a task, or the
  reading of the governance wait, raises one of the errors the dispatcher recovers from while
  no other task is being dispatched, then the error is passed on, the scheduler tracks exactly
  the tasks it tracked before, with their priorities and sequence numbers, nothing has become
  active, and no task is left in the dispatching state.\<close>

theorem failed_dispatch_loses_nothing:
  assumes "host_canonical (dis_normalizer cfg)" and "scheduler_inv (dis_normalizer cfg) s"
    and "dis_normalizer cfg h = h" and "dispatching_records (sch_registry s) = []" and "recovered_error err"
    and "dispatch_for_host cfg now governance_wait h s = (Inl err, s')"
  shows "scheduler_inv (dis_normalizer cfg) s' \<and> tracked s' = tracked s \<and>
    active_records (sch_registry s') = active_records (sch_registry s) \<and> dispatching_records (sch_registry s') = []"
proof (cases governance_wait)
  case (Inl e)
  then have "s' = s"
    using assms(4-6) by (auto simp: dispatch_for_host_def requeue_dispatching_item_def dispatching_values_def)
  then show ?thesis using assms(2,4) by simp
next
  case (Inr w)
  obtain res s1 where run: "dispatch_host_locked cfg now w h s = (res, s1)" by fastforce
  then have out: "res = Inl err" "s' = requeue_dispatching_item cfg h s1"
    using assms(5,6) Inr by (auto simp: dispatch_for_host_def split: sum.splits)
  then have p: "popped cfg w h s (Inl err) s1"
    using dispatch_cases [OF assms(1,2) run] by auto
  have inv1: "scheduler_inv (dis_normalizer cfg) s1"
    using popped_inv [OF assms(2) p] by simp
  obtain item s0 where s0: "s0 = s\<lparr>sch_queue := sch_queue s0\<rparr>" and host: "fst item = h"
    and items: "queued_items (sch_queue s) = add_mset item (queued_items (sch_queue s0))"
    and st: "started (dis_normalizer cfg) item s0 (Inl err) s1"
    using p unfolding popped_def assms(3) by blast
  have frame: "sch_registry s0 = sch_registry s" "sch_delayed s0 = sch_delayed s" by (subst s0, simp)+
  obtain rec where rec: "record_item rec = item" "sch_registry s1 = (sch_registry s)\<lparr>dispatching_records :=
      [(scheduler_task_identity_key (rec_task rec), rec)]\<rparr>"
    using st frame assms(4) by (auto simp: started_def)
  have "tracked s1 = tracked s"
    using st items frame rec assms(4) by (simp add: started_def tracked_def registry_items_def record_items_def)
  moreover have "active_records (sch_registry s1) = active_records (sch_registry s)"
    using rec(2) by simp
  moreover have "dispatching_records (sch_registry (requeue_dispatching_item cfg h s1)) = []"
    using rec host by (auto simp: requeue_dispatching_item_def dispatching_values_def record_item_def
        requeue_ready_def remove_dispatching_def Let_def)
  ultimately show ?thesis
    using requeue_dispatching_effect [OF assms(1) inv1, of h] out(2) by simp
qed

definition failing_dispatch :: dispatch_config where
  "failing_dispatch = sample_dispatch\<lparr>dis_skip := Some (\<lambda>t. Inl (OSError ''disk''))\<rparr>"

theorem failed_dispatch_loses_nothing_witness:
  "case dispatch_for_host failing_dispatch \<lparr>wall_time = 0, monotonic_time = 0\<rparr> (Inr None) (Some ''noaa.gov'') (waiting_scheduler 5) of
     (res, s') \<Rightarrow> res = Inl (OSError ''disk'') \<and> tracked s' = tracked (waiting_scheduler 5) \<and> dispatching_records (sch_registry s') = []"
proof -
  let ?run = "dispatch_for_host failing_dispatch \<lparr>wall_time = 0, monotonic_time = 0\<rparr> (Inr None) (Some ''noaa.gov'') (waiting_scheduler 5)"
  obtain res s' where run: "?run = (res, s')" by fastforce
  have "fst ?run = Inl (OSError ''disk'')" by code_simp
  moreover have "dis_normalizer failing_dispatch = lower_host" by (simp add: failing_dispatch_def sample_dispatch_def)
  moreover have "lower_host (Some ''noaa.gov'') = Some ''noaa.gov''" by code_simp
  moreover have "dispatching_records (sch_registry (waiting_scheduler 5)) = []"
    by (simp add: waiting_scheduler_def empty_scheduler_def empty_registry_def)
  ultimately show ?thesis
    using failed_dispatch_loses_nothing [of failing_dispatch "waiting_scheduler 5" "Some ''noaa.gov''" "OSError ''disk''"
        "\<lparr>wall_time = 0, monotonic_time = 0\<rparr>" "Inr None" s'] run waiting_scheduler_inv [of 5] lower_host_canonical by simp
qed

section \<open>Picking\<close>

lemma refresh_effect:
  assumes "host_canonical (dis_normalizer cfg)" and "scheduler_inv (dis_normalizer cfg) s"
    and "refresh_queues cfg now s = (r, s')"
  shows "scheduler_inv (dis_normalizer cfg) s' \<and> r = Inr () \<and> sch_registry s' = sch_registry s \<and> sch_runtime s' = sch_runtime s \<and>
    tracked s' = filter_mset (\<lambda>x. \<not> long_suppressed cfg x) (queued_items (sch_queue s) + delayed_items (sch_delayed s)) +
      registry_items (sch_registry s)"
proof -
  let ?nrm = "dis_normalizer cfg"
  obtain n s1 where pr: "prune_suppressed_host_backlog cfg s = (n, s1)" by fastforce
  note pruned = prune_effect [OF assms(1,2) pr]
  have inv: "htq_inv ?nrm (sch_queue s1)" "dtq_inv ?nrm (sch_delayed s1)"
    using pruned inv_parts by blast+
  obtain k d q where pm: "promote_ready ?nrm now (PyFloat (Fin now)) (Some max_delayed_promotions_per_tick) (sch_delayed s1) (sch_queue s1) = (k, d, q)"
    by (metis prod_cases3)
  note moved = host_canonical.promote_ready_inv [OF assms(1) inv(2,1) pm]
  have "\<exists>m. k = Inr m"
    using pm by (auto simp: promote_ready_def max_delayed_promotions_per_tick_def split: prod.splits)
  then have out: "r = Inr ()" "s' = s1\<lparr>sch_delayed := d, sch_queue := q\<rparr>"
    using assms(3) pr pm by (auto simp: refresh_queues_def)
  have s1: "s1 = s\<lparr>sch_queue := sch_queue s1, sch_delayed := sch_delayed s1, sch_eligibility := sch_eligibility s1\<rparr>"
    using pruned by blast
  have frame: "sch_registry s1 = sch_registry s" "sch_runtime s1 = sch_runtime s"
    by (subst s1, simp)+
  have t': "tracked s' = tracked s1"
    using moved by (simp add: out(2) tracked_def)
  have "components_ok ?nrm s'"
    using moved pruned by (simp add: out(2) scheduler_inv_def components_ok_def)
  with t' have "scheduler_inv ?nrm s'"
    using scheduler_inv_moved [of ?nrm s1 s'] pruned out(2) by simp
  moreover have "tracked s1 = filter_mset (\<lambda>x. \<not> long_suppressed cfg x) (queued_items (sch_queue s) + delayed_items (sch_delayed s)) +
      registry_items (sch_registry s)"
    using pruned frame(1) by (simp add: tracked_def)
  ultimately show ?thesis
    using out t' frame by simp
qed

lemma candidate_inv: "heq_inv e \<Longrightarrow> heq_inv (snd (candidate_host nrm now q e))"
proof (induction nrm now q e rule: candidate_host.induct)
  case (1 nrm now q e)
  obtain x e1 where pk: "peek e = (x, e1)" by fastforce
  have inv1: "heq_inv e1" using peek_inv [OF 1(2)] pk by simp
  show ?case
  proof (cases x)
    case None
    then show ?thesis using pk inv1 by (simp add: candidate_host.simps [of nrm now q e])
  next
    case (Some y)
    obtain h t where y: "y = (h, t)" by (cases y)
    show ?thesis
      using 1(1) [OF pk [symmetric] Some y [symmetric] _ elig_remove_inv [OF inv1]] pk Some y inv1
      by (auto simp: candidate_host.simps [of nrm now q e])
  qed
qed

lemma next_ready_parts:
  assumes "heq_inv e"
  shows "\<exists>d. fst (elig_next_ready_in_seconds t (PyFloat (Fin t)) e) = Inr d \<and>
    heq_inv (snd (elig_next_ready_in_seconds t (PyFloat (Fin t)) e))"
  using peek_inv [OF assms] by (auto simp: elig_next_ready_in_seconds_def split: option.splits prod.splits)

text \<open>Looking for a host refreshes the queues and moves nothing else. The only error is that the
  scheduler is closed, and a delay is within the bounds of the poll interval.\<close>

lemma pick_effect:
  assumes "host_canonical (dis_normalizer cfg)" and "scheduler_inv (dis_normalizer cfg) s"
    and "pick_host_or_delay_locked cfg now s = (r, s')"
  shows "scheduler_inv (dis_normalizer cfg) s' \<and> sch_registry s' = sch_registry s \<and>
    tracked s' = filter_mset (\<lambda>x. \<not> long_suppressed cfg x) (queued_items (sch_queue s) + delayed_items (sch_delayed s)) +
      registry_items (sch_registry s) \<and>
    (case r of Inl e \<Rightarrow> e = SchedulerClosedError \<and> run_closed (sch_runtime s)
     | Inr (h, delay) \<Rightarrow> h = None \<or> delay = None \<and> (\<exists>k. h = Some k)) \<and>
    (\<forall>h w. r = Inr (h, Some w) \<longrightarrow> h = None \<and> 1 / 100 \<le> w \<and> w \<le> 1 / 2)"
proof -
  let ?nrm = "dis_normalizer cfg" and ?t = "monotonic_time now"
  obtain u s1 where ref: "refresh_queues cfg ?t s = (u, s1)" by fastforce
  note fresh = refresh_effect [OF assms(1,2) ref]
  have heq: "heq_inv (sch_eligibility s1)" using fresh inv_parts(3) by blast
  obtain c e where cand: "candidate_host ?nrm ?t (sch_queue s1) (sch_eligibility s1) = (c, e)" by fastforce
  have heq1: "heq_inv e" using candidate_inv [OF heq, of ?nrm ?t "sch_queue s1"] cand by simp
  obtain d e2 where nx: "elig_next_ready_in_seconds ?t (PyFloat (Fin ?t)) e = (Inr d, e2)" and heq2: "heq_inv e2"
    using next_ready_parts [OF heq1, of ?t] by (cases "elig_next_ready_in_seconds ?t (PyFloat (Fin ?t)) e") auto
  have dly: "\<exists>d. delayed_next_ready_in_seconds ?t (PyFloat (Fin ?t)) (sch_delayed s1) = Inr d"
    by (auto simp: delayed_next_ready_in_seconds_def split: option.split)
  have clamp: "1 / 100 \<le> clamp_poll_delay w \<and> clamp_poll_delay w \<le> 1 / 2" for w
    by (simp add: clamp_poll_delay_def min_delay_wait_seconds_def max_delay_wait_seconds_def)
  have "same_but_eligibility s1 s'"
    using assms(3) ref fresh cand nx heq heq1 heq2 dly
    by (auto simp: pick_host_or_delay_locked_def same_but_eligibility_def Let_def split: if_splits)
  note same = eligibility_effect [OF conjunct1 [OF fresh] this]
  have "case r of Inl e \<Rightarrow> e = SchedulerClosedError \<and> run_closed (sch_runtime s)
     | Inr (h, delay) \<Rightarrow> (h = None \<or> delay = None \<and> (\<exists>k. h = Some k)) \<and> (\<forall>w. delay = Some w \<longrightarrow> h = None \<and> 1 / 100 \<le> w \<and> w \<le> 1 / 2)"
    using assms(3) ref fresh cand nx dly clamp
    by (auto simp: pick_host_or_delay_locked_def Let_def split: if_splits)
  with same fresh show ?thesis by (auto split: sum.splits)
qed

text \<open>A task without a host is never picked, and keeps the fallback from looking further.\<close>

lemma hostless_task_blocks_fallback:
  assumes "0 < pending_for_host nrm q None"
  shows "first_pending_host nrm q (None # hs) = None"
  using assms by simp

definition hostless_queue :: "crawl_task host_task_queue" where
  "hostless_queue = push lower_host (Some ''other.org'') 7 1 other_link (push lower_host None 7 0 sample_link empty_queue)"

lemma hostless_task_stalls_dispatch:
  "fst (pick_host_or_delay_locked sample_dispatch \<lparr>wall_time = 0, monotonic_time = 0\<rparr> (empty_scheduler\<lparr>sch_queue := hostless_queue\<rparr>)) =
     Inr (None, None)"
  by code_simp

end
