(* ===== verification/Checkpoint_Codec.thy ===== *)
theory Checkpoint_Codec imports
  Frontier
begin

text \<open>
  The payloads of a scheduler checkpoint, \<open>crawler/scheduling/checkpointing/\<close>: the envelope of
  a task (\<open>scheduler_task_envelope.py\<close>), its serialisation (\<open>scheduler_task_serializer.py\<close>
  and \<open>DelayedTaskQueue.serialize_entry\<close>), its validation and deserialisation
  (\<open>scheduler_task_deserializer.py\<close>), and the export of a whole scheduler
  (\<open>scheduler_state_exporter.py\<close>). A payload is the dictionary of Python values the source
  builds; writing it to a file is not part of this code. The generator of task identifiers is
  an argument, the URL normaliser and the priority resolver belong to the configuration.
\<close>

section \<open>Envelopes\<close>

record task_envelope =
  envelope_task :: crawl_task
  envelope_host :: host
  envelope_priority :: int
  envelope_sequence :: int

definition serialize :: "task_envelope \<Rightarrow> py_dict" where
  "serialize e = (let task = envelope_task e in [
     (''url'', PyStr (task_url task)),
     (''source_name'', PyStr (task_source_name task)),
     (''task_id'', opt_text (task_id task)),
     (''kind'', PyStr (kind_value (task_kind task))),
     (''depth'', PyInt (task_depth task)),
     (''source_type'', PyStr (task_source_type task)),
     (''priority'', PyInt (envelope_priority e)),
     (''parent_url'', opt_text (task_parent_url task)),
     (''context'', (case task_context task of None \<Rightarrow> PyNone | Some c \<Rightarrow> PyDict (context_to_dict c))),
     (''host'', opt_text (envelope_host e)),
     (''sequence'', PyInt (envelope_sequence e))])"

definition serialize_queue_item :: "crawl_task queue_item \<Rightarrow> py_dict" where
  "serialize_queue_item item = (case item of (h, priority, sequence, task) \<Rightarrow> serialize
     \<lparr>envelope_task = task, envelope_host = h, envelope_priority = priority, envelope_sequence = sequence\<rparr>)"

definition serialize_active_record :: "active_task_record \<Rightarrow> py_dict" where
  "serialize_active_record rec = serialize_queue_item (rec_host rec, rec_priority rec, rec_sequence rec, rec_task rec)"

definition serialize_entry :: "real \<Rightarrow> crawl_task delayed_entry \<Rightarrow> py_dict" where
  "serialize_entry now e = AList.update ''delay_remaining_seconds'' (PyFloat (Fin (max 0 (delayed_ready_at e - now))))
     (serialize_queue_item (delayed_host e, delayed_priority e, delayed_sequence e, delayed_task e))"

section \<open>Deserialisation\<close>

definition required_checkpoint_fields :: "string list" where
  "required_checkpoint_fields = [''url'', ''source_name'', ''task_id'', ''kind'', ''depth'', ''source_type'',
     ''priority'', ''parent_url'', ''context'', ''host'', ''sequence'']"

text \<open>Without a resolver a missing priority gets the default.\<close>

definition deserialize_task_payload ::
  "string \<Rightarrow> (crawl_task \<Rightarrow> int) \<Rightarrow> pyval \<Rightarrow> kind_input \<Rightarrow> string \<Rightarrow> int \<Rightarrow> bool \<Rightarrow> crawl_task option result" where
  "deserialize_task_payload raw_id resolver item default_kind default_source_type default_priority resolve_missing_priority =
    (case item of PyDict payload \<Rightarrow> from_mapping raw_id payload default_kind default_source_type default_priority
        (if resolve_missing_priority then Some resolver else None)
     | _ \<Rightarrow> Inr None)"

definition deserialize_dead_letter_task :: "string \<Rightarrow> (crawl_task \<Rightarrow> int) \<Rightarrow> pyval \<Rightarrow> crawl_task option result" where
  "deserialize_dead_letter_task raw_id resolver item =
     deserialize_task_payload raw_id resolver item (KindText ''page'') ''dead_letter'' 0 False"

definition missing_field :: "string \<Rightarrow> py_error" where
  "missing_field name = ValueError (''scheduler checkpoint task missing '' @ name)"

definition usable_text :: "pyval \<Rightarrow> bool" where
  "usable_text v = (case v of PyStr s \<Rightarrow> coerce_str v True True \<noteq> None | _ \<Rightarrow> False)"

text \<open>The checks of \<open>_validate_checkpoint_task_fields\<close> in their order; a Boolean is no integer.\<close>

definition validate_checkpoint_task_fields :: "py_dict \<Rightarrow> unit result" where
  "validate_checkpoint_task_fields item =
    (case find (\<lambda>name. \<not> usable_text (py_get item name)) [''url'', ''source_name'', ''task_id'', ''kind'', ''source_type''] of
       Some name \<Rightarrow> Inl (missing_field name)
     | None \<Rightarrow>
        if (case py_get item ''priority'' of PyInt i \<Rightarrow> False | _ \<Rightarrow> True) then Inl (missing_field ''priority'')
        else if (case py_get item ''depth'' of PyInt i \<Rightarrow> i < 0 | _ \<Rightarrow> True)
        then Inl (ValueError ''scheduler checkpoint task contains invalid depth'')
        else if (case py_get item ''sequence'' of PyInt i \<Rightarrow> i < 0 | _ \<Rightarrow> True) then Inl (missing_field ''sequence'')
        else if (case py_get item ''host'' of PyNone \<Rightarrow> False | PyStr s \<Rightarrow> py_strip s = [] | _ \<Rightarrow> True)
        then Inl (ValueError ''scheduler checkpoint task contains invalid host'')
        else if (case py_get item ''parent_url'' of PyNone \<Rightarrow> False | PyStr s \<Rightarrow> False | _ \<Rightarrow> True)
        then Inl (ValueError ''scheduler checkpoint task contains invalid parent_url'')
        else if (case py_get item ''context'' of PyNone \<Rightarrow> False | PyDict m \<Rightarrow> False | _ \<Rightarrow> True)
        then Inl (ValueError ''scheduler checkpoint task contains invalid context'')
        else Inr ())"

text \<open>The envelope of a task whose URL has been normalised.\<close>

definition restored_envelope :: "frontier_config \<Rightarrow> py_dict \<Rightarrow> crawl_task \<Rightarrow> string \<Rightarrow> task_envelope option result" where
  "restored_envelope cfg item task normalized_url =
     and_then (case coerce_int (py_get item ''priority'') None False of
         None \<Rightarrow> with_url_and_resolved_priority task normalized_url (fro_priority cfg)
       | Some priority \<Rightarrow> with_url_and_preserved_priority task normalized_url (Some priority)) (\<lambda>restored_task.
       (case coerce_int (py_get item ''sequence'') None False of
          None \<Rightarrow> Inl (missing_field ''sequence'')
        | Some sequence \<Rightarrow> Inr (Some \<lparr>envelope_task = restored_task,
            envelope_host = coerce_str (py_get item ''host'') True True,
            envelope_priority = task_priority restored_task, envelope_sequence = sequence\<rparr>)))"

definition deserialize :: "frontier_config \<Rightarrow> string \<Rightarrow> pyval \<Rightarrow> task_envelope option result" where
  "deserialize cfg raw_id value = (case value of
     PyDict item \<Rightarrow>
       (let missing = filter (\<lambda>name. map_of item name = None) required_checkpoint_fields in
        if missing \<noteq> [] then Inl (missing_field (join_with '', '' missing))
        else and_then (validate_checkpoint_task_fields item) (\<lambda>_.
          and_then (deserialize_task_payload raw_id (fro_priority cfg) value (KindText ''page'') ''seed'' 0 False) (\<lambda>found.
          case found of None \<Rightarrow> Inr None
          | Some task \<Rightarrow>
             (case or_else (fro_normalize cfg (task_url task)) [] of
                [] \<Rightarrow> Inr None
              | u # us \<Rightarrow> restored_envelope cfg item task (u # us)))))
   | _ \<Rightarrow> Inr None)"

section \<open>Export\<close>

text \<open>A negative limit exports every queued task.\<close>

definition limit_items :: "int \<Rightarrow> 'a list \<Rightarrow> 'a list" where
  "limit_items max_queued_tasks xs = (if 0 \<le> max_queued_tasks then take (nat max_queued_tasks) xs else xs)"

definition dict_list :: "py_dict list \<Rightarrow> pyval" where
  "dict_list ms = PyList (map PyDict ms)"

definition seen_entry_payload :: "string \<times> real \<Rightarrow> py_dict" where
  "seen_entry_payload x = [(''url'', PyStr (fst x)), (''seen_at'', PyFloat (Fin (snd x)))]"

definition exported_queued :: "int \<Rightarrow> scheduler \<Rightarrow> crawl_task queue_item list" where
  "exported_queued max_queued_tasks s = limit_items max_queued_tasks (snapshot_items (sch_queue s))"

definition exported_delayed :: "int \<Rightarrow> scheduler \<Rightarrow> crawl_task delayed_entry list" where
  "exported_delayed max_queued_tasks s = limit_items max_queued_tasks (delayed_snapshot_items (sch_delayed s))"

definition exported_sequences :: "int \<Rightarrow> scheduler \<Rightarrow> int list" where
  "exported_sequences max_queued_tasks s =
     map (\<lambda>(h, p, n, t). n) (exported_queued max_queued_tasks s) @
     map delayed_sequence (exported_delayed max_queued_tasks s) @
     map rec_sequence (active_values (sch_registry s) @ dead_letter_pending_values (sch_registry s) @
       dispatching_values (sch_registry s))"

definition export_scheduler_state ::
  "int \<Rightarrow> bool \<Rightarrow> instant \<Rightarrow> (host \<times> int) list \<Rightarrow> py_dict \<Rightarrow> py_dict \<Rightarrow> scheduler \<Rightarrow> py_dict \<times> scheduler" where
  "export_scheduler_state max_queued_tasks include_seen_urls now total_pending_by_host progress_counters retry_budget_state s =
    (let reg = sch_registry s;
         queued_payload = map serialize_queue_item (exported_queued max_queued_tasks s);
         delayed_payload = map (serialize_entry (monotonic_time now)) (exported_delayed max_queued_tasks s);
         requeued_inflight_payload = map serialize_active_record (active_values reg) @
           map serialize_active_record (dead_letter_pending_values reg);
         dispatching_payload = map serialize_active_record (dispatching_values reg);
         max_sequence = fold (\<lambda>n m. max m n) (exported_sequences max_queued_tasks s) (- 1);
         next_sequence = max (next_sequence_value (sch_runtime s)) (max_sequence + 1);
         payload = [
           (''schema_version'', PyInt 2),
           (''queue_size'', PyInt (queue_size (sch_queue s) + delayed_size (sch_delayed s))),
           (''ready_queue_size'', PyInt (queue_size (sch_queue s))),
           (''delayed_queue_size'', PyInt (delayed_size (sch_delayed s))),
           (''pending_hosts'', PyInt (int (length total_pending_by_host))),
           (''ready_pending_hosts'', PyInt (host_count (sch_queue s))),
           (''delayed_pending_hosts'', PyInt (delayed_pending_host_count (sch_delayed s))),
           (''active_tasks'', PyInt (active_count reg + dead_letter_pending_count reg)),
           (''dispatching_tasks'', dict_list dispatching_payload),
           (''queued_tasks'', dict_list queued_payload),
           (''delayed_tasks'', dict_list delayed_payload),
           (''requeued_inflight_tasks'', dict_list requeued_inflight_payload),
           (''next_sequence'', PyInt next_sequence),
           (''progress_counters'', PyDict progress_counters),
           (''retry_budget'', PyDict retry_budget_state)]
     in if include_seen_urls
        then (case export_entries (wall_time now) (sch_seen s) of (entries, seen') \<Rightarrow>
          (payload @ [(''seen_url_entries'', dict_list (map seen_entry_payload entries))], s\<lparr>sch_seen := seen'\<rparr>))
        else (payload, s))"

section \<open>Lemmas\<close>

subsection \<open>Tasks that survive a checkpoint\<close>

definition clean_text :: "string \<Rightarrow> bool" where
  "clean_text s \<longleftrightarrow> s \<noteq> [] \<and> py_strip s = s"

definition task_portable :: "crawl_task \<Rightarrow> bool" where
  "task_portable t \<longleftrightarrow> task_ok t \<and> clean_text (task_url t) \<and> task_id t \<noteq> None \<and> pred_option clean_text (task_id t) \<and> 0 \<le> task_depth t \<and>
     clean_text (task_source_type t) \<and> pred_option clean_text (task_parent_url t) \<and>
     pred_option (\<lambda>c. context_ok c \<and> context_truthy c) (task_context t)"

definition envelope_ok :: "task_envelope \<Rightarrow> bool" where
  "envelope_ok e \<longleftrightarrow> task_portable (envelope_task e) \<and> pred_option clean_text (envelope_host e) \<and>
     envelope_priority e = task_priority (envelope_task e) \<and> 0 \<le> envelope_sequence e"

lemma clean_optional_clean [simp]: "clean_text s \<Longrightarrow> clean_optional_text (PyStr s) = Some s"
  by (simp add: clean_optional_text_def clean_text_def)

lemma clean_optional_opt [simp]: "pred_option clean_text x \<Longrightarrow> clean_optional_text (opt_text x) = x"
  by (cases x) (simp_all add: opt_text_def clean_optional_text_def clean_text_def)

lemma opt_text_simps [simp]: "opt_text None = PyNone" "opt_text (Some s) = PyStr s"
  by (simp_all add: opt_text_def)

lemma clean_optional_Some: "clean_optional_text v = Some s \<Longrightarrow> clean_text s"
  by (auto simp: clean_optional_text_def clean_text_def Let_def split: if_splits)

lemma clean_optional_pred: "pred_option clean_text (clean_optional_text v)"
  by (cases "clean_optional_text v") (simp_all add: clean_optional_Some)

lemma coerce_str_clean: "coerce_str v True True = Some s \<Longrightarrow> clean_text s"
  by (auto simp: coerce_str_def clean_text_def Let_def split: if_splits)

lemma source_name_clean: "task_ok t \<Longrightarrow> clean_text (task_source_name t)"
proof -
  assume ok: "task_ok t"
  then have "py_lower (py_strip (task_source_name t)) = task_source_name t" by (simp add: task_ok_def)
  then have "py_strip (py_lower (py_strip (task_source_name t))) = py_strip (task_source_name t)" by simp
  then have "py_lower (py_strip (task_source_name t)) = py_strip (task_source_name t)"
    by (simp add: py_strip_lower)
  with ok show ?thesis by (simp add: task_ok_def clean_text_def)
qed

text \<open>\<open>build\<close> returns such tasks if it is given an identifier and a plain mapping for the context; a
  generated identifier may end in a blank after its truncation.\<close>

lemma build_portable:
  assumes "build raw_id r = Inr t" and "clean_text (req_default_source_type r)" and "\<forall>c. req_context r \<noteq> ContextObject c"
    and "clean_optional_text (opt_text (req_task_id r)) \<noteq> None"
  shows "task_portable t"
proof -
  obtain i u name k ctx where
    i: "(case clean_optional_text (opt_text (req_task_id r)) of Some i \<Rightarrow> Inr i | None \<Rightarrow> generate_task_id raw_id) = Inr i"
    and u: "clean_required_url (req_url r) = Inr u"
    and ctx: "coerce_crawl_task_context (req_context r) = Inr ctx"
    and t: "construct_task \<lparr>task_url = u, task_source_name = name, task_id = Some i, task_kind = k,
      task_depth = max 0 (or_else (req_depth r) (req_default_depth r)),
      task_source_type = or_else (clean_optional_text (opt_text (req_source_type r))) (req_default_source_type r),
      task_priority = or_else (req_priority r) (req_default_priority r),
      task_parent_url = clean_optional_text (opt_text (req_parent_url r)),
      task_context = ctx\<rparr> = Inr t"
    using assms(1) by (auto simp: build_def)
  have fields: "task_url t = u" "task_id t = Some i" "0 \<le> task_depth t"
    "task_source_type t = or_else (clean_optional_text (opt_text (req_source_type r))) (req_default_source_type r)"
    "task_parent_url t = clean_optional_text (opt_text (req_parent_url r))" "task_context t = ctx"
    using t by (auto simp: construct_task_def Let_def split: if_splits)
  have "clean_text u"
    using u by (auto simp: clean_required_url_def clean_text_def Let_def split: if_splits)
  moreover have "clean_text (or_else (clean_optional_text (opt_text (req_source_type r))) (req_default_source_type r))"
    using assms(2) clean_optional_Some by (cases "clean_optional_text (opt_text (req_source_type r))") auto
  moreover have "pred_option (\<lambda>c. context_ok c \<and> context_truthy c) ctx"
    using ctx assms(3) coerced_context_ok by (cases "req_context r"; cases ctx) (auto simp: coerce_crawl_task_context_def)
  moreover have "clean_text i"
    using i assms(4) clean_optional_Some by auto
  ultimately show ?thesis
    using construct_task_ok [OF t] fields clean_optional_pred by (simp add: task_portable_def)
qed

subsection \<open>Reading back\<close>

lemma serialize_fields:
  shows "py_get (serialize e) ''url'' = PyStr (task_url (envelope_task e))"
    "py_get (serialize e) ''source_name'' = PyStr (task_source_name (envelope_task e))"
    "py_get (serialize e) ''task_id'' = opt_text (task_id (envelope_task e))"
    "py_get (serialize e) ''kind'' = PyStr (kind_value (task_kind (envelope_task e)))"
    "py_get (serialize e) ''depth'' = PyInt (task_depth (envelope_task e))"
    "py_get (serialize e) ''source_type'' = PyStr (task_source_type (envelope_task e))"
    "py_get (serialize e) ''priority'' = PyInt (envelope_priority e)"
    "py_get (serialize e) ''parent_url'' = opt_text (task_parent_url (envelope_task e))"
    "py_get (serialize e) ''context'' =
      (case task_context (envelope_task e) of None \<Rightarrow> PyNone | Some c \<Rightarrow> PyDict (context_to_dict c))"
    "py_get (serialize e) ''host'' = opt_text (envelope_host e)"
    "py_get (serialize e) ''sequence'' = PyInt (envelope_sequence e)"
  by (simp_all add: serialize_def Let_def py_get_Cons)

text \<open>Further entries of the payload do not matter.\<close>

definition same_fields :: "py_dict \<Rightarrow> py_dict \<Rightarrow> bool" where
  "same_fields m m' \<longleftrightarrow> (\<forall>name\<in>set required_checkpoint_fields. map_of m name = map_of m' name)"

lemma same_fields_get:
  assumes "same_fields m m'"
  shows "py_get m ''url'' = py_get m' ''url''" "py_get m ''source_name'' = py_get m' ''source_name''"
    "py_get m ''task_id'' = py_get m' ''task_id''" "py_get m ''kind'' = py_get m' ''kind''"
    "py_get m ''depth'' = py_get m' ''depth''" "py_get m ''source_type'' = py_get m' ''source_type''"
    "py_get m ''priority'' = py_get m' ''priority''" "py_get m ''parent_url'' = py_get m' ''parent_url''"
    "py_get m ''context'' = py_get m' ''context''" "py_get m ''host'' = py_get m' ''host''"
    "py_get m ''sequence'' = py_get m' ''sequence''"
  using assms by (simp_all add: same_fields_def required_checkpoint_fields_def py_get_def get_default_def)

lemma deserialize_same:
  assumes "same_fields m m'"
  shows "deserialize cfg raw_id (PyDict m) = deserialize cfg raw_id (PyDict m')"
proof -
  have missing: "filter (\<lambda>name. map_of m name = None) required_checkpoint_fields = filter (\<lambda>name. map_of m' name = None) required_checkpoint_fields"
    using assms by (intro filter_cong) (auto simp: same_fields_def)
  have usable: "find (\<lambda>name. \<not> usable_text (py_get m name)) [''url'', ''source_name'', ''task_id'', ''kind'', ''source_type''] =
      find (\<lambda>name. \<not> usable_text (py_get m' name)) [''url'', ''source_name'', ''task_id'', ''kind'', ''source_type'']"
    by (simp add: same_fields_get [OF assms])
  show ?thesis
    unfolding deserialize_def deserialize_task_payload_def from_mapping_def validate_checkpoint_task_fields_def
      restored_envelope_def pyval.case missing usable same_fields_get [OF assms] by (rule refl)
qed
lemma parse_kind_value: "parse_kind (KindText (kind_value k)) = Inr k"
  by (induction k) code_simp+

lemma kind_value_clean: "clean_text (kind_value k)"
  by (induction k) code_simp+

lemma from_mapping_serialize:
  assumes "envelope_ok e"
  shows "from_mapping raw_id (serialize e) dk ds dp None = Inr (Some (envelope_task e))"
proof -
  define t where "t = envelope_task e"
  have ok: "task_ok t" "clean_text (task_url t)" "0 \<le> task_depth t" "clean_text (task_source_type t)"
    "pred_option clean_text (task_parent_url t)" "envelope_priority e = task_priority t"
    using assms by (simp_all add: envelope_ok_def task_portable_def t_def)
  obtain i where i: "task_id t = Some i" "clean_text i"
    using assms by (auto simp: envelope_ok_def task_portable_def t_def)
  note get = serialize_fields [of e, folded t_def]
  have kind: "clean_text (kind_value (task_kind t))" by (rule kind_value_clean)
  have url: "clean_required_url (task_url t) = Inr (task_url t)"
    using ok(2) by (simp add: clean_required_url_def clean_text_def)
  have name: "clean_required_source_name (PyStr (task_source_name t)) = Inr (task_source_name t)"
    using ok(1) by (simp add: clean_required_source_name_def task_ok_def)
  have ctx: "coerce_crawl_task_context (context_of_value (case task_context t of None \<Rightarrow> PyNone
      | Some c \<Rightarrow> PyDict (context_to_dict c))) = Inr (task_context t)"
    using assms coerce_context_fix
    by (cases "task_context t") (simp_all add: context_of_value_def coerce_crawl_task_context_def [of NoContext]
        envelope_ok_def task_portable_def t_def [symmetric])
  have int: "task_coerce_int (PyInt n) = Some n" for n by (simp add: task_coerce_int_def)
  have whole: "\<lparr>task_url = task_url t, task_source_name = task_source_name t, task_id = Some i, task_kind = task_kind t,
      task_depth = task_depth t, task_source_type = task_source_type t, task_priority = task_priority t,
      task_parent_url = task_parent_url t, task_context = task_context t\<rparr> = t"
    using i by (cases t) simp
  show ?thesis
    using ok i int kind url name ctx source_name_clean [OF ok(1)] construct_task_id [OF ok(1)]
    unfolding from_mapping_def get
    by (simp add: build_def build_request_def parse_kind_value max_def whole t_def [symmetric])
qed

lemma serialize_complete: "filter (\<lambda>name. map_of (serialize e) name = None) required_checkpoint_fields = []"
  by (simp add: serialize_def required_checkpoint_fields_def Let_def)

lemma usable_clean: "clean_text s \<Longrightarrow> usable_text (PyStr s)"
  by (simp add: usable_text_def coerce_str_def clean_text_def)

lemma validate_serialize:
  assumes "envelope_ok e"
  shows "validate_checkpoint_task_fields (serialize e) = Inr ()"
proof -
  have ok: "task_portable (envelope_task e)" "task_ok (envelope_task e)"
    using assms by (simp_all add: envelope_ok_def task_portable_def)
  then have "usable_text (py_get (serialize e) name)"
    if "name \<in> set [''url'', ''source_name'', ''task_id'', ''kind'', ''source_type'']" for name
    using that ok source_name_clean by (auto simp: serialize_fields task_portable_def opt_text_def intro!: usable_clean kind_value_clean)
  then have "find (\<lambda>name. \<not> usable_text (py_get (serialize e) name)) [''url'', ''source_name'', ''task_id'', ''kind'', ''source_type''] = None"
    by (simp add: find_None_iff)
  then show ?thesis
    unfolding validate_checkpoint_task_fields_def serialize_fields
    using assms by (auto simp: envelope_ok_def task_portable_def clean_text_def opt_text_def split: option.splits)
qed

lemma deserialize_serialize:
  assumes "envelope_ok e" and "fro_normalize cfg (task_url (envelope_task e)) = Some (task_url (envelope_task e))"
    and "same_fields m (serialize e)"
  shows "deserialize cfg raw_id (PyDict m) = Inr (Some e)"
proof -
  let ?t = "envelope_task e"
  have ok: "task_ok ?t" "task_url ?t \<noteq> []"
    using assms(1) by (auto simp: envelope_ok_def task_portable_def clean_text_def)
  have host: "coerce_str (opt_text (envelope_host e)) True True = envelope_host e"
    using assms(1) by (cases "envelope_host e") (auto simp: envelope_ok_def coerce_str_def opt_text_def clean_text_def)
  have "restored_envelope cfg (serialize e) ?t (task_url ?t) = Inr (Some e)"
    using assms(1) ok host
    by (simp add: restored_envelope_def serialize_fields with_url_and_preserved_priority_def envelope_ok_def)
  moreover obtain u us where "task_url ?t = u # us"
    using ok(2) by (cases "task_url ?t") auto
  ultimately have "deserialize cfg raw_id (PyDict (serialize e)) = Inr (Some e)"
    using assms(1,2) by (simp add: deserialize_def deserialize_task_payload_def serialize_complete validate_serialize
        from_mapping_serialize Let_def)
  then show ?thesis using deserialize_same [OF assms(3), of cfg raw_id] by simp
qed
subsection \<open>What is accepted\<close>

lemma validated_fields:
  assumes "validate_checkpoint_task_fields item = Inr ()"
  shows "\<exists>i. clean_optional_text (py_get item ''task_id'') = Some i" "\<exists>n. py_get item ''sequence'' = PyInt n \<and> 0 \<le> n"
    "\<exists>n. py_get item ''priority'' = PyInt n"
proof -
  let ?names = "[''url'', ''source_name'', ''task_id'', ''kind'', ''source_type'']"
  have none: "find (\<lambda>name. \<not> usable_text (py_get item name)) ?names = None"
    using assms by (cases "find (\<lambda>name. \<not> usable_text (py_get item name)) ?names")
      (simp_all only: validate_checkpoint_task_fields_def option.case sum.distinct)
  then have "usable_text (py_get item ''task_id'')"
    unfolding find_None_iff by auto
  then show "\<exists>i. clean_optional_text (py_get item ''task_id'') = Some i"
    by (auto simp: usable_text_def coerce_str_def clean_optional_text_def Let_def split: pyval.splits if_splits)
  show "\<exists>n. py_get item ''sequence'' = PyInt n \<and> 0 \<le> n" "\<exists>n. py_get item ''priority'' = PyInt n"
    using assms unfolding validate_checkpoint_task_fields_def none option.case
    by (cases "py_get item ''sequence''"; cases "py_get item ''priority''"; simp split: if_splits)+
qed

lemma from_mapping_portable:
  assumes "from_mapping raw_id m dk ds dp None = Inr (Some t)" and "clean_text ds"
    and "clean_optional_text (py_get m ''task_id'') = Some i"
  shows "task_portable t"
proof -
  obtain u name where found: "clean_optional_text (py_get m ''url'') = Some u" "clean_optional_text (py_get m ''source_name'') = Some name"
    using assms(1) by (auto simp: from_mapping_def Let_def split: option.splits)
  let ?r = "(build_request u name)
            \<lparr>req_kind := map_option KindText (clean_optional_text (py_get m ''kind'')),
             req_depth := task_coerce_int (py_get m ''depth''),
             req_source_type := clean_optional_text (py_get m ''source_type''),
             req_priority := task_coerce_int (py_get m ''priority''),
             req_parent_url := clean_optional_text (py_get m ''parent_url''),
             req_task_id := clean_optional_text (py_get m ''task_id''),
             req_context := context_of_value (py_get m ''context''),
             req_default_kind := dk, req_default_source_type := ds, req_default_priority := dp\<rparr>"
  have b: "build raw_id ?r = Inr t"
    using assms(1) found by (simp add: from_mapping_def Let_def)
  have c: "req_context ?r \<noteq> ContextObject c" for c
    by (simp add: context_of_value_def split: pyval.split)
  have "clean_optional_text (opt_text (req_task_id ?r)) \<noteq> None"
    using assms(3) clean_optional_Some [OF assms(3)] by simp
  with c assms(2) show ?thesis by (intro build_portable [OF b]) simp_all
qed

lemma deserialize_ok:
  assumes "deserialize cfg raw_id value = Inr (Some e)"
  shows "\<exists>u. fro_normalize cfg u = Some (task_url (envelope_task e))"
    and "clean_text (task_url (envelope_task e)) \<Longrightarrow> envelope_ok e"
proof -
  obtain m where m: "value = PyDict m"
    using assms by (cases "value") (simp_all add: deserialize_def)
  have v: "validate_checkpoint_task_fields m = Inr ()"
    and found: "and_then (deserialize_task_payload raw_id (fro_priority cfg) value (KindText ''page'') ''seed'' 0 False) (\<lambda>found.
          case found of None \<Rightarrow> Inr None
          | Some task \<Rightarrow>
             (case or_else (fro_normalize cfg (task_url task)) [] of
                [] \<Rightarrow> Inr None
              | u # us \<Rightarrow> restored_envelope cfg m task (u # us))) = Inr (Some e)"
    using assms by (auto simp: deserialize_def m Let_def split: if_splits)
  obtain t where t: "from_mapping raw_id m (KindText ''page'') ''seed'' 0 None = Inr (Some t)"
    and rest: "(case or_else (fro_normalize cfg (task_url t)) [] of [] \<Rightarrow> Inr None
        | u # us \<Rightarrow> restored_envelope cfg m t (u # us)) = Inr (Some e)"
    using found by (auto simp: m deserialize_task_payload_def split: option.splits)
  obtain u us where u: "fro_normalize cfg (task_url t) = Some (u # us)"
    and e: "restored_envelope cfg m t (u # us) = Inr (Some e)"
    using rest by (cases "fro_normalize cfg (task_url t)"; cases "or_else (fro_normalize cfg (task_url t)) []") auto
  obtain i n p where fields: "clean_optional_text (py_get m ''task_id'') = Some i" "py_get m ''sequence'' = PyInt n" "0 \<le> n"
    "py_get m ''priority'' = PyInt p"
    using validated_fields [OF v] by auto
  have portable: "task_portable t"
    by (rule from_mapping_portable [OF t _ fields(1)]) (simp add: clean_text_def, code_simp)
  then have "task_ok t" by (simp add: task_portable_def)
  then have e': "e = \<lparr>envelope_task = t\<lparr>task_url := u # us, task_priority := p\<rparr>,
      envelope_host = coerce_str (py_get m ''host'') True True, envelope_priority = p, envelope_sequence = n\<rparr>"
    using e by (simp add: restored_envelope_def fields with_url_and_preserved_priority_def)
  then show "\<exists>u. fro_normalize cfg u = Some (task_url (envelope_task e))"
    using u by auto
  show "envelope_ok e" if "clean_text (task_url (envelope_task e))"
    using that portable fields e' coerce_str_clean
    by (cases "coerce_str (py_get m ''host'') True True") (auto simp: envelope_ok_def task_portable_def)
qed
lemma serialize_entry_fields:
  "same_fields (serialize_entry now d) (serialize \<lparr>envelope_task = delayed_task d, envelope_host = delayed_host d,
     envelope_priority = delayed_priority d, envelope_sequence = delayed_sequence d\<rparr>)"
  "deserialize_wait_seconds (PyDict (serialize_entry now d)) = Some (max 0 (delayed_ready_at d - now))"
  by (auto simp: same_fields_def serialize_entry_def serialize_queue_item_def update_conv' required_checkpoint_fields_def
      deserialize_wait_seconds_def py_get_def get_default_def coerce_float_def finite_float_or_none_def)

section \<open>Properties\<close>

text \<open>A task survives its checkpoint. If an envelope is portable (its texts are stripped, its
  context is normalised, its numbers are in range) and its URL is normalised, then the payload of
  \<open>serialize\<close> reads back as the same envelope, whatever identifier the generator would give;
  so does the payload of a delayed entry for the same task, whose remaining delay reads back as
  the time until it is ready.\<close>

theorem checkpoint_task_roundtrip:
  assumes "envelope_ok e" and "fro_normalize cfg (task_url (envelope_task e)) = Some (task_url (envelope_task e))"
    and "e = \<lparr>envelope_task = delayed_task d, envelope_host = delayed_host d, envelope_priority = delayed_priority d,
      envelope_sequence = delayed_sequence d\<rparr>"
  shows "deserialize cfg raw_id (PyDict (serialize e)) = Inr (Some e) \<and>
    deserialize cfg raw_id (PyDict (serialize_entry now d)) = Inr (Some e) \<and>
    deserialize_wait_seconds (PyDict (serialize_entry now d)) = Some (max 0 (delayed_ready_at d - now))"
proof -
  have "same_fields (serialize e) (serialize e)" by (simp add: same_fields_def)
  then show ?thesis
    using deserialize_serialize [OF assms(1,2)] serialize_entry_fields [of now d] by (simp add: assms(3) [symmetric])
qed

definition sample_envelope :: task_envelope where
  "sample_envelope = \<lparr>envelope_task = sample_link\<lparr>task_id := Some ''t1''\<rparr>, envelope_host = Some ''noaa.gov'',
     envelope_priority = task_priority sample_link, envelope_sequence = 4\<rparr>"

lemma sample_envelope_ok: "envelope_ok sample_envelope"
proof -
  have "clean_text ''https://noaa.gov/x''" "clean_text ''t1''" "clean_text ''link''" "clean_text ''noaa.gov''"
    by code_simp+
  moreover have "task_ok (sample_link\<lparr>task_id := Some ''t1''\<rparr>)"
    using sample_link_ok by simp
  ultimately show ?thesis
    by (simp add: envelope_ok_def task_portable_def sample_envelope_def sample_link_def sample_page_def)
qed

theorem checkpoint_task_roundtrip_witness:
  "deserialize sample_config ''x'' (PyDict (serialize sample_envelope)) = Inr (Some sample_envelope)"
  by (rule checkpoint_task_roundtrip [OF sample_envelope_ok, where d = "\<lparr>delayed_ready_at = 9, delayed_sequence = 4,
      delayed_host = Some ''noaa.gov'', delayed_priority = task_priority sample_link,
      delayed_task = sample_link\<lparr>task_id := Some ''t1''\<rparr>\<rparr>", THEN conjunct1])
    (simp_all add: sample_config_def sample_envelope_def)


definition loose_payload :: py_dict where
  "loose_payload = [(''url'', PyStr '' http://noaa.gov/a ''), (''source_name'', PyStr ''Noaa''), (''task_id'', PyStr '' t9 ''),
     (''kind'', PyStr ''Page''), (''depth'', PyInt 2), (''source_type'', PyStr '' page_link''), (''priority'', PyInt 5),
     (''parent_url'', PyStr []), (''context'', PyDict [(''width'', PyStr ''0'')]), (''host'', PyNone), (''sequence'', PyInt 3)]"

definition strict_envelope :: task_envelope where
  "strict_envelope = \<lparr>envelope_task = \<lparr>task_url = ''http://noaa.gov/a'', task_source_name = ''noaa'', task_id = Some ''t9'',
     task_kind = PAGE, task_depth = 2, task_source_type = ''page_link'', task_priority = 5, task_parent_url = None,
     task_context = None\<rparr>, envelope_host = None, envelope_priority = 5, envelope_sequence = 3\<rparr>"


end
