(* ===== verification/Checkpoint_Restore.thy ===== *)
theory Checkpoint_Restore imports
  Checkpoint_Codec
begin

text \<open>
  Restoring a checkpoint: the plan that \<open>scheduler_state_restorer.py\<close> parses and validates
  before it touches live state, the admission of each restored task
  (\<open>SchedulerFrontier.prepare_restored_envelope\<close>), the commit of the plan, and
  \<open>UrlScheduler.restore_state\<close> and \<open>export_state\<close> around them. The identifier a
  deserialised task would get from the generator is an argument; the payload always has one.
  The clocks are read once per call.
\<close>

section \<open>Admission of a restored task\<close>

definition restore_admission_context ::
  "instant \<Rightarrow> scheduler \<Rightarrow> crawl_task \<Rightarrow> host \<Rightarrow> int \<Rightarrow> (host \<times> int) list \<Rightarrow> ((host \<times> media_kind) \<times> int) list \<Rightarrow> admission_context" where
  "restore_admission_context now s t h qsize ready_pending_by_host ready_kind_pending_by_host = \<lparr>ctx_task = t, ctx_host = h,
     ctx_source = Some (task_source_type t), ctx_now = monotonic_time now, ctx_queue_size = qsize,
     ctx_host_pending = get_default ready_pending_by_host h 0, ctx_closed = run_closed (sch_runtime s),
     ctx_kind_host_pending = get_default ready_kind_pending_by_host (h, task_kind t) 0\<rparr>"

definition prepare_restored_envelope ::
  "frontier_config \<Rightarrow> instant \<Rightarrow> scheduler \<Rightarrow> task_envelope \<Rightarrow> int \<Rightarrow> (host \<times> int) list \<Rightarrow>
    ((host \<times> media_kind) \<times> int) list \<Rightarrow> string set \<Rightarrow> bool \<Rightarrow> task_envelope option result" where
  "prepare_restored_envelope cfg now s e qsize ready_pending_by_host ready_kind_pending_by_host seen_identity_keys use_host_advice =
    (case or_else (fro_normalize cfg (task_url (envelope_task e))) [] of
       [] \<Rightarrow> Inr None
     | u # us \<Rightarrow>
        and_then (with_url_and_preserved_priority (envelope_task e) (u # us) (Some (envelope_priority e))) (\<lambda>restored_task.
        (let url_host = canonical_host_from_url cfg (task_url restored_task) in
         if envelope_host e \<noteq> None \<and> fro_nrm cfg (envelope_host e) \<noteq> url_host then Inr None
         else and_then (fst (admit_evaluate (live_env cfg s) (wall_time now)
             (restore_admission_context now s restored_task url_host qsize ready_pending_by_host ready_kind_pending_by_host)
             (Some seen_identity_keys) use_host_advice (sch_seen s))) (\<lambda>decision.
           if \<not> dec_accepted decision then Inr None
           else Inr (Some \<lparr>envelope_task = restored_task, envelope_host = url_host,
             envelope_priority = envelope_priority e, envelope_sequence = envelope_sequence e\<rparr>)))))"

definition commit_restored_envelope ::
  "frontier_config \<Rightarrow> instant \<Rightarrow> task_envelope \<Rightarrow> real option \<Rightarrow> scheduler \<Rightarrow> unit result \<times> scheduler" where
  "commit_restored_envelope cfg now e delayed_wait_seconds s =
     record_accepted_task_locked cfg now (envelope_task e) (envelope_host e) (envelope_sequence e) delayed_wait_seconds False s"

section \<open>The plan\<close>

datatype restore_source = From_Queued | From_Delayed | From_Requeued_Inflight | From_Dispatching

record restore_item =
  item_envelope :: task_envelope
  item_source :: restore_source
  item_delayed_wait :: "real option"

record restore_plan =
  plan_items :: "restore_item list"
  plan_seen_entries :: "(string \<times> real) list option"
  plan_progress :: "progress_restore_state option"
  plan_next_sequence :: int
  plan_counts :: "(restore_source \<times> int) list"

record restore_result =
  result_restored_count :: int
  result_counts :: "(restore_source \<times> int) list"
  result_skipped_tasks :: int
  result_next_sequence :: int
  result_queued :: int
  result_pending_hosts :: int

text \<open>What the caller reads off the live scheduler before the plan is parsed.\<close>

record live_summary =
  live_next_sequence :: int
  live_queue_size :: int
  live_ready_pending :: "(host \<times> int) list"
  live_ready_kind_pending :: "((host \<times> media_kind) \<times> int) list"
  live_identity_keys :: "string set"
  live_sequences :: "int set"

text \<open>The accumulators of the loop over the items.\<close>

record restore_scan =
  scan_items :: "restore_item list"
  scan_sequences :: "int set"
  scan_admission_keys :: "string set"
  scan_task_keys :: "string set"
  scan_ready_pending :: "(host \<times> int) list"
  scan_kind_pending :: "((host \<times> media_kind) \<times> int) list"
  scan_queue_size :: int
  scan_highest :: int
  scan_counts :: "(restore_source \<times> int) list"

definition deserialize_checkpoint_item :: "frontier_config \<Rightarrow> string \<Rightarrow> pyval \<Rightarrow> task_envelope result" where
  "deserialize_checkpoint_item cfg raw_id item = (case item of
     PyDict m \<Rightarrow> and_then (deserialize cfg raw_id item) (\<lambda>found. case found of
         None \<Rightarrow> Inl (ValueError ''failed to deserialize checkpoint task item'') | Some e \<Rightarrow> Inr e)
   | _ \<Rightarrow> Inl (ValueError ''checkpoint task item must be a dict''))"

text \<open>A number that is finite after \<open>float\<close>, which may overflow.\<close>

definition finite_number :: "py_error \<Rightarrow> pyval \<Rightarrow> real result" where
  "finite_number err v = (case v of
     PyInt i \<Rightarrow> and_then (py_float v) (\<lambda>x. case x of Fin r \<Rightarrow> Inr r | _ \<Rightarrow> Inl err)
   | PyFloat (Fin r) \<Rightarrow> Inr r
   | _ \<Rightarrow> Inl err)"

definition parse_delayed_wait_seconds :: "pyval \<Rightarrow> real result" where
  "parse_delayed_wait_seconds item = (case item of
     PyDict m \<Rightarrow> and_then (finite_number (ValueError ''checkpoint delayed task has invalid delay_remaining_seconds'')
         (py_get m ''delay_remaining_seconds'')) (\<lambda>w.
       if w < 0 then Inl (ValueError ''checkpoint delayed task has invalid delay_remaining_seconds'') else Inr w)
   | _ \<Rightarrow> Inl (ValueError ''checkpoint delayed task item must be a dict''))"

definition parse_next_sequence :: "pyval \<Rightarrow> int result" where
  "parse_next_sequence v =
    (let err = Inl (ValueError ''scheduler checkpoint next_sequence must be a non-negative integer'')
     in case v of PyInt n \<Rightarrow> if n < 0 then err else Inr n | _ \<Rightarrow> err)"

definition parse_seen_entry :: "pyval \<Rightarrow> (string \<times> real) result" where
  "parse_seen_entry item =
    (let err = Inl (ValueError ''checkpoint contains invalid seen URL entry'')
     in case item of
       PyDict m \<Rightarrow>
         (case py_get m ''url'' of
            PyStr u \<Rightarrow> if py_strip u = [] then err
              else and_then (finite_number (ValueError ''checkpoint contains invalid seen URL timestamp'') (py_get m ''seen_at''))
                (\<lambda>t. Inr (py_strip u, t))
          | _ \<Rightarrow> err)
     | _ \<Rightarrow> err)"

fun parse_seen_entries :: "pyval list \<Rightarrow> (string \<times> real) list result" where
  "parse_seen_entries [] = Inr []"
| "parse_seen_entries (item # items) =
     and_then (parse_seen_entry item) (\<lambda>x. and_then (parse_seen_entries items) (\<lambda>xs. Inr (x # xs)))"

definition parse_seen_url_entries :: "pyval \<Rightarrow> (string \<times> real) list option result" where
  "parse_seen_url_entries v = (case v of
     PyNone \<Rightarrow> Inr None
   | PyList items \<Rightarrow> map_sum id Some (parse_seen_entries items)
   | _ \<Rightarrow> Inl (ValueError ''checkpoint field seen_url_entries must be a list''))"

definition increment :: "('k \<times> int) list \<Rightarrow> 'k \<Rightarrow> ('k \<times> int) list" where
  "increment m k = AList.update k (get_default m k 0 + 1) m"

definition checkpoint_field :: "string \<Rightarrow> string \<Rightarrow> py_error" where
  "checkpoint_field key problem = ValueError (''checkpoint field '' @ key @ problem)"

text \<open>The accumulators after an accepted item.\<close>

definition add_scanned :: "restore_source \<Rightarrow> real option \<Rightarrow> int \<Rightarrow> task_envelope \<Rightarrow> string \<Rightarrow> restore_scan \<Rightarrow> restore_scan" where
  "add_scanned source delayed_wait_seconds sequence prepared identity_key scan =
    (let h = envelope_host prepared;
         is_ready = (source \<noteq> From_Delayed \<or> or_else delayed_wait_seconds 0 = 0)
     in scan\<lparr>scan_task_keys := insert identity_key (scan_task_keys scan),
       scan_admission_keys := insert identity_key (scan_admission_keys scan),
       scan_ready_pending := (if is_ready then increment (scan_ready_pending scan) h else scan_ready_pending scan),
       scan_kind_pending := (if is_ready then increment (scan_kind_pending scan) (h, task_kind (envelope_task prepared))
         else scan_kind_pending scan),
       scan_queue_size := scan_queue_size scan + 1,
       scan_highest := max (scan_highest scan) sequence,
       scan_counts := increment (scan_counts scan) source,
       scan_items := scan_items scan @ [\<lparr>item_envelope = prepared, item_source = source, item_delayed_wait = delayed_wait_seconds\<rparr>]\<rparr>)"

definition scan_item ::
  "frontier_config \<Rightarrow> instant \<Rightarrow> scheduler \<Rightarrow> bool \<Rightarrow> string \<Rightarrow> string \<Rightarrow> restore_source \<Rightarrow> pyval \<Rightarrow> restore_scan \<Rightarrow> restore_scan result" where
  "scan_item cfg now s clear_existing raw_id key source raw_item scan =
     and_then (deserialize_checkpoint_item cfg raw_id raw_item) (\<lambda>e.
     (let sequence = envelope_sequence e in
      if sequence \<in> scan_sequences scan then Inl (checkpoint_field key '' contains duplicate sequence'')
      else (let scan = scan\<lparr>scan_sequences := insert sequence (scan_sequences scan)\<rparr> in
       and_then (if source = From_Delayed then map_sum id Some (parse_delayed_wait_seconds raw_item) else Inr None) (\<lambda>wait.
       and_then (prepare_restored_envelope cfg now s e (scan_queue_size scan) (scan_ready_pending scan) (scan_kind_pending scan)
           (scan_admission_keys scan) (\<not> clear_existing)) (\<lambda>found.
       case found of
         None \<Rightarrow> Inl (checkpoint_field key '' contains task item that was not accepted on restore'')
       | Some prepared \<Rightarrow>
          (let identity_key = scheduler_task_identity_key (envelope_task prepared) in
           if identity_key \<in> scan_task_keys scan then Inl (checkpoint_field key '' contains duplicate task identity'')
           else Inr (add_scanned source wait sequence prepared identity_key scan)))))))"

fun scan_list ::
  "frontier_config \<Rightarrow> instant \<Rightarrow> scheduler \<Rightarrow> bool \<Rightarrow> string \<Rightarrow> string \<Rightarrow> restore_source \<Rightarrow> pyval list \<Rightarrow> restore_scan \<Rightarrow> restore_scan result" where
  "scan_list cfg now s clear_existing raw_id key source [] scan = Inr scan"
| "scan_list cfg now s clear_existing raw_id key source (raw_item # raw_items) scan =
     and_then (scan_item cfg now s clear_existing raw_id key source raw_item scan)
       (scan_list cfg now s clear_existing raw_id key source raw_items)"

fun scan_sources ::
  "frontier_config \<Rightarrow> instant \<Rightarrow> scheduler \<Rightarrow> bool \<Rightarrow> string \<Rightarrow> py_dict \<Rightarrow> (string \<times> restore_source) list \<Rightarrow> restore_scan \<Rightarrow> restore_scan result" where
  "scan_sources cfg now s clear_existing raw_id payload [] scan = Inr scan"
| "scan_sources cfg now s clear_existing raw_id payload ((key, source) # sources) scan =
     (case py_get payload key of
        PyList raw_items \<Rightarrow> and_then (scan_list cfg now s clear_existing raw_id key source raw_items scan)
          (scan_sources cfg now s clear_existing raw_id payload sources)
      | _ \<Rightarrow> Inl (checkpoint_field key '' must be a list''))"

definition restore_sources :: "(string \<times> restore_source) list" where
  "restore_sources = [(''queued_tasks'', From_Queued), (''delayed_tasks'', From_Delayed),
     (''requeued_inflight_tasks'', From_Requeued_Inflight), (''dispatching_tasks'', From_Dispatching)]"

definition initial_scan :: "bool \<Rightarrow> live_summary \<Rightarrow> restore_scan" where
  "initial_scan clear_existing summary = \<lparr>scan_items = [],
     scan_sequences = (if clear_existing then {} else live_sequences summary),
     scan_admission_keys = (if clear_existing then {} else live_identity_keys summary),
     scan_task_keys = {},
     scan_ready_pending = (if clear_existing then [] else live_ready_pending summary),
     scan_kind_pending = (if clear_existing then [] else live_ready_kind_pending summary),
     scan_queue_size = (if clear_existing then 0 else live_queue_size summary),
     scan_highest = - 1,
     scan_counts = [(From_Queued, 0), (From_Delayed, 0), (From_Requeued_Inflight, 0), (From_Dispatching, 0)]\<rparr>"

definition parse_restore_plan ::
  "frontier_config \<Rightarrow> instant \<Rightarrow> scheduler \<Rightarrow> string \<Rightarrow> py_dict \<Rightarrow> bool \<Rightarrow> live_summary \<Rightarrow> restore_plan result" where
  "parse_restore_plan cfg now s raw_id payload clear_existing summary =
    (if (case py_get payload ''schema_version'' of PyInt n \<Rightarrow> n \<noteq> 2 | _ \<Rightarrow> True)
     then Inl (ValueError (''unsupported scheduler checkpoint schema: '' @ py_str (py_get payload ''schema_version'') @ '' (expected 2)''))
     else (case py_get payload ''progress_counters'' of
       PyDict progress_payload \<Rightarrow>
         and_then (parse_progress progress_payload) (\<lambda>parsed_progress.
         and_then (parse_seen_url_entries (py_get payload ''seen_url_entries'')) (\<lambda>seen_entries.
         and_then (scan_sources cfg now s clear_existing raw_id payload restore_sources (initial_scan clear_existing summary)) (\<lambda>scan.
         and_then (parse_next_sequence (py_get payload ''next_sequence'')) (\<lambda>next_sequence.
         (let minimum_next_sequence = (if clear_existing then scan_highest scan + 1
              else max (scan_highest scan + 1) (live_next_sequence summary)) in
          if next_sequence < minimum_next_sequence
          then Inl (ValueError (''scheduler checkpoint next_sequence must exceed every task sequence and '' @
            ''preserve the live sequence''))
          else Inr \<lparr>plan_items = scan_items scan,
            plan_seen_entries = (if clear_existing then seen_entries else None),
            plan_progress = (if clear_existing then Some parsed_progress else None),
            plan_next_sequence = next_sequence, plan_counts = scan_counts scan\<rparr>)))))
     | _ \<Rightarrow> Inl (ValueError ''scheduler checkpoint missing progress_counters payload'')))"

section \<open>The commit\<close>

fun commit_items :: "frontier_config \<Rightarrow> instant \<Rightarrow> restore_item list \<Rightarrow> scheduler \<Rightarrow> unit result \<times> scheduler" where
  "commit_items cfg now [] s = (Inr (), s)"
| "commit_items cfg now (item # items) s =
    (case commit_restored_envelope cfg now (item_envelope item) (item_delayed_wait item) s of
       (Inl e, s) \<Rightarrow> (Inl e, s)
     | (Inr _, s) \<Rightarrow> commit_items cfg now items s)"

text \<open>A replacement starts from empty queues, an empty registry and the restored counters.\<close>

definition replace_existing :: "instant \<Rightarrow> progress_restore_state \<Rightarrow> scheduler \<Rightarrow> scheduler" where
  "replace_existing now progress s = s\<lparr>sch_queue := clear_queue (sch_queue s), sch_delayed := delayed_clear (sch_delayed s),
     sch_registry := clear_registry (sch_registry s), sch_advice := advice_clear (sch_advice s),
     sch_seen := snd (replace_entries (wall_time now) [] (sch_seen s)),
     sch_progress := apply_progress progress (sch_progress s)\<rparr>"

definition commit_restore_plan ::
  "frontier_config \<Rightarrow> instant \<Rightarrow> restore_plan \<Rightarrow> bool \<Rightarrow> scheduler \<Rightarrow> restore_result result \<times> scheduler" where
  "commit_restore_plan cfg now plan clear_existing s =
    (if clear_existing \<and> plan_progress plan = None
     then (Inl (RuntimeError ''replacement restore plan missing progress''), s)
     else (let s = (case plan_progress plan of Some progress \<Rightarrow> if clear_existing then replace_existing now progress s else s
             | None \<Rightarrow> s) in
       (case commit_items cfg now (plan_items plan) s of
          (Inl e, s) \<Rightarrow> (Inl e, s)
        | (Inr _, s) \<Rightarrow>
           (let s = (case plan_seen_entries plan of
                  Some entries \<Rightarrow> if clear_existing
                    then s\<lparr>sch_seen := snd (replace_entries (wall_time now) (map (\<lambda>(u, t). (u, PyFloat (Fin t))) entries) (sch_seen s))\<rparr>
                    else s
                | None \<Rightarrow> s)
            in (Inr \<lparr>result_restored_count = int (length (plan_items plan)), result_counts = plan_counts plan,
                  result_skipped_tasks = 0, result_next_sequence = plan_next_sequence plan,
                  result_queued = queue_size_total s,
                  result_pending_hosts = int (length (combine_pending_maps (pending_count_by_host (sch_queue s))
                    (delayed_pending_by_host (sch_delayed s))))\<rparr>, s)))))"

section \<open>The scheduler's own operations\<close>

definition live_items :: "scheduler \<Rightarrow> crawl_task queue_item list" where
  "live_items s = snapshot_items (sch_queue s) @
     map (\<lambda>e. (delayed_host e, delayed_priority e, delayed_sequence e, delayed_task e)) (delayed_snapshot_items (sch_delayed s)) @
     map record_item (active_values (sch_registry s) @ dispatching_values (sch_registry s) @ dead_letter_pending_values (sch_registry s))"

definition summarize :: "scheduler \<Rightarrow> live_summary" where
  "summarize s = \<lparr>live_next_sequence = next_sequence_value (sch_runtime s), live_queue_size = queue_size_total s,
     live_ready_pending = pending_count_by_host (sch_queue s),
     live_ready_kind_pending = fold (\<lambda>(h, p, n, t) m. increment m (h, task_kind t)) (snapshot_items (sch_queue s)) [],
     live_identity_keys = set (snapshot_urls (sch_seen s)) \<union> set (map (\<lambda>(h, p, n, t). scheduler_task_identity_key t) (live_items s)),
     live_sequences = set (map item_sequence (live_items s))\<rparr>"

definition restore_scheduler ::
  "frontier_config \<Rightarrow> instant \<Rightarrow> string \<Rightarrow> py_dict \<Rightarrow> bool \<Rightarrow> scheduler \<Rightarrow> int result \<times> scheduler" where
  "restore_scheduler cfg now raw_id payload clear_existing s =
    (let s = s\<lparr>sch_eligibility := elig_clear (sch_eligibility s)\<rparr> in
     case py_get payload ''retry_budget'' of
       PyDict retry_budget_payload \<Rightarrow>
         (case and_then (parse_retry_state retry_budget_payload) (\<lambda>retry.
              and_then (parse_restore_plan cfg now s raw_id payload clear_existing (summarize s)) (\<lambda>plan. Inr (retry, plan))) of
            Inl e \<Rightarrow> (Inl e, s)
          | Inr (retry, plan) \<Rightarrow>
             (case commit_restore_plan cfg now plan clear_existing s of
                (Inl e, s) \<Rightarrow> (Inl e, s)
              | (Inr result, s) \<Rightarrow> (Inr (result_restored_count result),
                  s\<lparr>sch_runtime := (sch_runtime s)\<lparr>next_sequence_value := result_next_sequence result\<rparr>,
                    sch_retry := apply_retry_state retry (sch_retry s)\<rparr>)))
     | _ \<Rightarrow> (Inl (ValueError ''scheduler checkpoint missing retry_budget payload''), s))"

definition export_scheduler :: "int \<Rightarrow> bool \<Rightarrow> instant \<Rightarrow> scheduler \<Rightarrow> py_dict \<times> scheduler" where
  "export_scheduler max_queued_tasks include_seen_urls now s =
    (let s = s\<lparr>sch_advice := snd (advice_prune (monotonic_time now) (sch_advice s))\<rparr> in
     export_scheduler_state max_queued_tasks include_seen_urls now (combined_pending_count_by_host (sch_queue s) (sch_delayed s))
       (export_progress (sch_progress s)) (export_retry_state (sch_retry s)) s)"

section \<open>Lemmas\<close>

subsection \<open>The commit\<close>

text \<open>The invariant without the progress counters, which a restore takes from the payload as they are.\<close>

definition work_inv :: "(host \<Rightarrow> host) \<Rightarrow> scheduler \<Rightarrow> bool" where
  "work_inv nrm s \<longleftrightarrow> scheduler_inv nrm (s\<lparr>sch_progress := initial_progress\<rparr>)"

lemma tracked_progress [simp]: "tracked (s\<lparr>sch_progress := p\<rparr>) = tracked s"
  by (simp add: tracked_def)

lemma sequences_progress [simp]: "sequences_ok (s\<lparr>sch_progress := p\<rparr>) = sequences_ok s"
  by (simp add: sequences_ok_def)

lemma scheduler_inv_work: "scheduler_inv nrm s \<longleftrightarrow> work_inv nrm s \<and> progress_inv (sch_progress s)"
  by (auto simp: work_inv_def scheduler_inv_def components_ok_def initial_progress_inv)

definition planned_item :: "(host \<Rightarrow> host) \<Rightarrow> restore_item \<Rightarrow> crawl_task queue_item" where
  "planned_item nrm x = (let e = item_envelope x in
     (nrm (envelope_host e), task_priority (envelope_task e), envelope_sequence e, envelope_task e))"

lemma record_restored_progress:
  assumes "record_accepted_task_locked cfg now t h n w False s = (r, s')"
  shows "record_accepted_task_locked cfg now t h n w False (s\<lparr>sch_progress := p\<rparr>) = (r, s'\<lparr>sch_progress := p\<rparr>) \<and>
    sch_progress s' = sch_progress s"
  using assms by (auto simp: record_accepted_task_locked_def Let_def split: option.splits prod.splits sum.splits bool.splits if_splits)

lemma commit_items_progress:
  "commit_items cfg now items s = (r, s') \<Longrightarrow>
    commit_items cfg now items (s\<lparr>sch_progress := p\<rparr>) = (r, s'\<lparr>sch_progress := p\<rparr>) \<and> sch_progress s' = sch_progress s"
proof (induction items arbitrary: s)
  case (Cons x items)
  let ?e = "item_envelope x"
  obtain r1 s1 where step: "record_accepted_task_locked cfg now (envelope_task ?e) (envelope_host ?e) (envelope_sequence ?e)
      (item_delayed_wait x) False s = (r1, s1)"
    by fastforce
  show ?case
    using Cons.prems Cons.IH [of s1] step record_restored_progress [OF step, of p]
    by (cases r1) (auto simp: commit_restored_envelope_def)
qed simp

lemma commit_items_effect:
  assumes "host_canonical (fro_nrm cfg)" and "components_ok (fro_nrm cfg) s" and "commit_items cfg now items s = (r, s')"
  shows "r = Inr () \<and> components_ok (fro_nrm cfg) s' \<and>
    tracked s' = mset (map (planned_item (fro_nrm cfg)) items) + tracked s \<and> sch_runtime s' = sch_runtime s \<and>
    sch_registry s' = sch_registry s \<and> queue_size_total s' = queue_size_total s + int (length items)"
  using assms(2,3)
proof (induction items arbitrary: s)
  case (Cons x items)
  let ?e = "item_envelope x"
  obtain r1 s1 where step: "record_accepted_task_locked cfg now (envelope_task ?e) (envelope_host ?e) (envelope_sequence ?e)
      (item_delayed_wait x) False s = (r1, s1)"
    by fastforce
  note eff = record_accepted_effect [OF assms(1) refl Cons.prems(1) step]
  have "commit_items cfg now items s1 = (r, s')"
    using Cons.prems(2) step eff by (simp add: commit_restored_envelope_def)
  from Cons.IH [OF _ this] eff show ?case
    by (auto simp: planned_item_def Let_def)
qed simp

subsection \<open>The scan\<close>

definition item_key :: "restore_item \<Rightarrow> string" where
  "item_key x = scheduler_task_identity_key (envelope_task (item_envelope x))"

definition item_number :: "restore_item \<Rightarrow> int" where
  "item_number x = envelope_sequence (item_envelope x)"

text \<open>What holds of the accumulators at every point of the loop.\<close>

definition scan_ok :: "restore_scan \<Rightarrow> restore_scan \<Rightarrow> bool" where
  "scan_ok base scan \<longleftrightarrow>
     distinct (map item_number (scan_items scan)) \<and> item_number ` set (scan_items scan) \<inter> scan_sequences base = {} \<and>
     scan_sequences scan = scan_sequences base \<union> item_number ` set (scan_items scan) \<and>
     (\<forall>x\<in>set (scan_items scan). item_number x \<le> scan_highest scan) \<and>
     distinct (map item_key (scan_items scan)) \<and> scan_task_keys scan = item_key ` set (scan_items scan) \<and>
     scan_admission_keys scan = scan_admission_keys base \<union> item_key ` set (scan_items scan) \<and>
     item_key ` set (scan_items scan) \<inter> scan_admission_keys base = {} \<and>
     scan_queue_size scan = scan_queue_size base + int (length (scan_items scan))"

lemma prepared_effect:
  assumes "prepare_restored_envelope cfg now s e qsize ready kinds keys adv = Inr (Some prepared)"
  shows "envelope_sequence prepared = envelope_sequence e \<and> envelope_priority prepared = envelope_priority e \<and>
    envelope_host prepared = canonical_host_from_url cfg (task_url (envelope_task prepared)) \<and>
    scheduler_task_identity_key (envelope_task prepared) \<notin> keys \<and>
    with_url_and_preserved_priority (envelope_task e) (task_url (envelope_task prepared)) (Some (envelope_priority e)) =
      Inr (envelope_task prepared) \<and>
    prerequisites_met (live_env cfg s) (envelope_task prepared) (run_closed (sch_runtime s)) \<and>
    limit_rejection_reason (live_env cfg s) adv
      (restore_admission_context now s (envelope_task prepared) (envelope_host prepared) qsize ready kinds) = None"
proof -
  obtain u us t d where u: "or_else (fro_normalize cfg (task_url (envelope_task e))) [] = u # us"
    and t: "with_url_and_preserved_priority (envelope_task e) (u # us) (Some (envelope_priority e)) = Inr t"
    and d: "fst (admit_evaluate (live_env cfg s) (wall_time now) (restore_admission_context now s t
        (canonical_host_from_url cfg (task_url t)) qsize ready kinds) (Some keys) adv (sch_seen s)) = Inr d" "dec_accepted d"
    and p: "prepared = \<lparr>envelope_task = t, envelope_host = canonical_host_from_url cfg (task_url t),
      envelope_priority = envelope_priority e, envelope_sequence = envelope_sequence e\<rparr>"
    using assms by (auto simp: prepare_restored_envelope_def Let_def split: list.splits if_splits)
  have "task_url t = u # us"
    using t by (auto simp: with_url_and_preserved_priority_def clone_def construct_task_def Let_def split: if_splits)
  moreover have "\<exists>d. fst (admit_evaluate (live_env cfg s) (wall_time now) (restore_admission_context now s t
        (canonical_host_from_url cfg (task_url t)) qsize ready kinds) (Some keys) adv (sch_seen s)) = Inr d \<and> dec_accepted d"
    using d by blast
  then have "prerequisites_met (live_env cfg s) t (run_closed (sch_runtime s))" "scheduler_task_identity_key t \<notin> keys"
    "limit_rejection_reason (live_env cfg s) adv
      (restore_admission_context now s t (canonical_host_from_url cfg (task_url t)) qsize ready kinds) = None"
    unfolding admit_accepted_iff by (simp_all add: restore_admission_context_def identity_seen_def Let_def)
  ultimately show ?thesis
    using t p by simp
qed

lemma scan_item_parts:
  assumes "scan_item cfg now s clear_existing raw_id key source raw_item scan = Inr scan'"
  shows "\<exists>e wait prepared. deserialize_checkpoint_item cfg raw_id raw_item = Inr e \<and>
    envelope_sequence e \<notin> scan_sequences scan \<and>
    prepare_restored_envelope cfg now s e (scan_queue_size scan) (scan_ready_pending scan) (scan_kind_pending scan)
      (scan_admission_keys scan) (\<not> clear_existing) = Inr (Some prepared) \<and>
    scheduler_task_identity_key (envelope_task prepared) \<notin> scan_task_keys scan \<and>
    scan' = add_scanned source wait (envelope_sequence e) prepared (scheduler_task_identity_key (envelope_task prepared))
      (scan\<lparr>scan_sequences := insert (envelope_sequence e) (scan_sequences scan)\<rparr>)"
  using assms by (auto simp: scan_item_def Let_def split: if_splits option.splits)

lemma scan_item_ok:
  assumes "scan_ok base scan" and "scan_item cfg now s clear_existing raw_id key source raw_item scan = Inr scan'"
  shows "scan_ok base scan' \<and> (\<exists>x. scan_items scan' = scan_items scan @ [x] \<and>
    envelope_host (item_envelope x) = canonical_host_from_url cfg (task_url (envelope_task (item_envelope x))))"
proof -
  obtain e wait prepared where e: "envelope_sequence e \<notin> scan_sequences scan"
    and p: "prepare_restored_envelope cfg now s e (scan_queue_size scan) (scan_ready_pending scan)
      (scan_kind_pending scan) (scan_admission_keys scan) (\<not> clear_existing) = Inr (Some prepared)"
    and fresh: "scheduler_task_identity_key (envelope_task prepared) \<notin> scan_task_keys scan"
    and scan': "scan' = add_scanned source wait (envelope_sequence e) prepared (scheduler_task_identity_key (envelope_task prepared))
      (scan\<lparr>scan_sequences := insert (envelope_sequence e) (scan_sequences scan)\<rparr>)"
    using scan_item_parts [OF assms(2)] by blast
  define x where "x = \<lparr>item_envelope = prepared, item_source = source, item_delayed_wait = wait\<rparr>"
  note eff = prepared_effect [OF p]
  have items: "scan_items scan' = scan_items scan @ [x]"
    by (simp add: scan' add_scanned_def Let_def x_def)
  have key: "item_key x = scheduler_task_identity_key (envelope_task prepared)" "item_number x = envelope_sequence e"
    using eff by (simp_all add: item_key_def item_number_def x_def)
  have parts: "scan_sequences scan' = insert (item_number x) (scan_sequences scan)"
    "scan_task_keys scan' = insert (item_key x) (scan_task_keys scan)"
    "scan_admission_keys scan' = insert (item_key x) (scan_admission_keys scan)"
    "scan_highest scan' = max (scan_highest scan) (item_number x)" "scan_queue_size scan' = scan_queue_size scan + 1"
    by (simp_all add: scan' add_scanned_def Let_def key)
  have new: "item_number x \<notin> scan_sequences scan" "item_key x \<notin> scan_task_keys scan" "item_key x \<notin> scan_admission_keys scan"
    using e fresh eff by (simp_all add: key)
  have "scan_ok base scan'"
    using assms(1) new unfolding scan_ok_def items parts
    by (auto simp: max.coboundedI1)
  moreover have "envelope_host (item_envelope x) = canonical_host_from_url cfg (task_url (envelope_task (item_envelope x)))"
    using eff by (simp add: x_def)
  ultimately show ?thesis
    using items by blast
qed

text \<open>The hosts of the planned items are those of their URLs.\<close>

definition hosts_from_urls :: "frontier_config \<Rightarrow> restore_scan \<Rightarrow> bool" where
  "hosts_from_urls cfg scan \<longleftrightarrow> (\<forall>x\<in>set (scan_items scan).
     envelope_host (item_envelope x) = canonical_host_from_url cfg (task_url (envelope_task (item_envelope x))))"

lemma scan_list_ok:
  "scan_ok base scan \<Longrightarrow> hosts_from_urls cfg scan \<Longrightarrow>
    scan_list cfg now s clear_existing raw_id key source raw_items scan = Inr scan' \<Longrightarrow> scan_ok base scan' \<and> hosts_from_urls cfg scan'"
proof (induction raw_items arbitrary: scan)
  case (Cons raw_item raw_items)
  obtain scan1 where "scan_item cfg now s clear_existing raw_id key source raw_item scan = Inr scan1"
    and rest: "scan_list cfg now s clear_existing raw_id key source raw_items scan1 = Inr scan'"
    using Cons.prems(3) by auto
  with scan_item_ok [OF Cons.prems(1)] have "scan_ok base scan1" "hosts_from_urls cfg scan1"
    using Cons.prems(2) by (fastforce simp: hosts_from_urls_def)+
  then show ?case using Cons.IH rest by blast
qed simp

lemma scan_sources_ok:
  "scan_ok base scan \<Longrightarrow> hosts_from_urls cfg scan \<Longrightarrow>
    scan_sources cfg now s clear_existing raw_id payload sources scan = Inr scan' \<Longrightarrow> scan_ok base scan' \<and> hosts_from_urls cfg scan'"
proof (induction sources arbitrary: scan)
  case (Cons x sources)
  obtain key source where x: "x = (key, source)" by (cases x)
  obtain raw_items scan1 where "scan_list cfg now s clear_existing raw_id key source raw_items scan = Inr scan1"
    and rest: "scan_sources cfg now s clear_existing raw_id payload sources scan1 = Inr scan'"
    using Cons.prems(3) by (auto simp: x split: pyval.splits)
  with scan_list_ok [OF Cons.prems(1,2)] show ?case
    using Cons.IH rest by blast
qed simp

lemma initial_scan_ok: "scan_ok (initial_scan c summary) (initial_scan c summary)" "hosts_from_urls cfg (initial_scan c summary)"
  by (simp_all add: scan_ok_def hosts_from_urls_def initial_scan_def)

text \<open>What a plan promises.\<close>

definition plan_ok :: "frontier_config \<Rightarrow> bool \<Rightarrow> live_summary \<Rightarrow> restore_plan \<Rightarrow> bool" where
  "plan_ok cfg clear_existing summary plan \<longleftrightarrow>
     distinct (map item_number (plan_items plan)) \<and> distinct (map item_key (plan_items plan)) \<and>
     (\<forall>x\<in>set (plan_items plan). item_number x < plan_next_sequence plan \<and>
       (\<not> clear_existing \<longrightarrow> item_number x \<notin> live_sequences summary \<and> item_key x \<notin> live_identity_keys summary) \<and>
       envelope_host (item_envelope x) = canonical_host_from_url cfg (task_url (envelope_task (item_envelope x)))) \<and>
     (\<not> clear_existing \<longrightarrow> live_next_sequence summary \<le> plan_next_sequence plan) \<and>
     (plan_progress plan \<noteq> None \<longleftrightarrow> clear_existing)"

lemma parse_plan_ok:
  assumes "parse_restore_plan cfg now s raw_id payload clear_existing summary = Inr plan"
  shows "plan_ok cfg clear_existing summary plan"
proof -
  obtain progress_payload where pp: "py_get payload ''progress_counters'' = PyDict progress_payload"
    using assms by (cases "py_get payload ''progress_counters''") (simp_all add: parse_restore_plan_def split: if_splits)
  obtain scan progress entries n where
    scan: "scan_sources cfg now s clear_existing raw_id payload restore_sources (initial_scan clear_existing summary) = Inr scan"
    and low: "\<not> n < (if clear_existing then scan_highest scan + 1 else max (scan_highest scan + 1) (live_next_sequence summary))"
    and plan: "plan = \<lparr>plan_items = scan_items scan, plan_seen_entries = (if clear_existing then entries else None),
      plan_progress = (if clear_existing then Some progress else None), plan_next_sequence = n, plan_counts = scan_counts scan\<rparr>"
    using assms unfolding parse_restore_plan_def pp pyval.case Let_def
    by (auto split: if_splits)
  have ok: "scan_ok (initial_scan clear_existing summary) scan" "hosts_from_urls cfg scan"
    using scan_sources_ok [OF initial_scan_ok scan] by simp_all
  have bound: "item_number x < n" if "x \<in> set (scan_items scan)" for x
    using that ok(1) low by (fastforce simp: scan_ok_def split: if_splits)
  have fresh: "item_number x \<notin> live_sequences summary" "item_key x \<notin> live_identity_keys summary"
    if "x \<in> set (scan_items scan)" "\<not> clear_existing" for x
    using that ok(1) by (auto simp: scan_ok_def initial_scan_def)
  have "live_next_sequence summary \<le> n" if "\<not> clear_existing"
    using low that by simp
  then show ?thesis
    using ok bound fresh unfolding plan_ok_def plan
    by (simp add: scan_ok_def hosts_from_urls_def)
qed

subsection \<open>Restoring\<close>

lemma mset_live_items:
  assumes "host_canonical nrm" and "htq_inv nrm (sch_queue s)"
  shows "mset (live_items s) = tracked s"
proof -
  let ?later = "\<lambda>e. (delayed_host e, delayed_priority e, delayed_sequence e, delayed_task e)"
  have "mset (map ?later (delayed_snapshot_items (sch_delayed s))) = delayed_items (sch_delayed s)"
    by (simp add: delayed_snapshot_items_def delayed_items_def)
  moreover have "mset (map record_item (map snd m)) = record_items m" for m
    by (simp add: record_items_def image_mset.compositionality comp_def)
  ultimately show ?thesis
    using host_canonical.snapshot_items_mset [OF assms]
    by (simp add: live_items_def tracked_def registry_items_def active_values_def dispatching_values_def
        dead_letter_pending_values_def ac_simps)
qed

lemma live_sequences_tracked:
  assumes "host_canonical nrm" and "htq_inv nrm (sch_queue s)"
  shows "live_sequences (summarize s) = set_mset (image_mset item_sequence (tracked s))"
  using arg_cong [OF mset_live_items [OF assms], of "\<lambda>M. item_sequence ` set_mset M"] by (simp add: summarize_def)

text \<open>The state in which the items of a plan are committed.\<close>

lemma replace_existing_effect:
  assumes "work_inv nrm s"
  shows "components_ok nrm ((replace_existing now progress s)\<lparr>sch_progress := initial_progress\<rparr>) \<and>
    tracked (replace_existing now progress s) = {#} \<and> sch_runtime (replace_existing now progress s) = sch_runtime s"
proof -
  have "0 < max_seen (sch_seen s)" "heq_inv (sch_eligibility s)" "budget_ok (sch_retry s)"
    using assms by (simp_all add: work_inv_def scheduler_inv_def components_ok_def sur_inv_def)
  then show ?thesis
    using replace_entries_inv [of "sch_seen s" "wall_time now" "[]"] empty_queue_inv [of nrm] empty_delayed_inv [of nrm]
      empty_registry_inv [of nrm]
    by (simp add: replace_existing_def components_ok_def clear_queue_eq delayed_clear_eq clear_registry_eq
        initial_progress_inv tracked_def queued_items_def htq_abs_def
        empty_queue_def delayed_items_def empty_delayed_def registry_items_def record_items_def empty_registry_def)
qed

text \<open>A commit does not fail; it adds the planned items to what is left of the work.\<close>

lemma commit_plan_effect:
  assumes "host_canonical (fro_nrm cfg)" and "work_inv (fro_nrm cfg) s" and "plan_progress plan \<noteq> None \<longleftrightarrow> clear_existing"
    and "commit_restore_plan cfg now plan clear_existing s = (r, s')"
  shows "\<exists>result. r = Inr result \<and> result_restored_count result = int (length (plan_items plan)) \<and>
    result_next_sequence result = plan_next_sequence plan \<and>
    components_ok (fro_nrm cfg) (s'\<lparr>sch_progress := initial_progress\<rparr>) \<and> sch_runtime s' = sch_runtime s \<and>
    tracked s' = mset (map (planned_item (fro_nrm cfg)) (plan_items plan)) + (if clear_existing then {#} else tracked s) \<and>
    sch_progress s' = (case plan_progress plan of Some progress \<Rightarrow> apply_progress progress (sch_progress s) | None \<Rightarrow> sch_progress s) \<and>
    sch_registry s' = (if clear_existing then empty_registry else sch_registry s)"
proof -
  define s0 where "s0 = (case plan_progress plan of Some progress \<Rightarrow> if clear_existing then replace_existing now progress s else s
             | None \<Rightarrow> s)"
  have s0: "components_ok (fro_nrm cfg) (s0\<lparr>sch_progress := initial_progress\<rparr>)" "sch_runtime s0 = sch_runtime s"
    "tracked s0 = (if clear_existing then {#} else tracked s)"
    "sch_progress s0 = (case plan_progress plan of Some progress \<Rightarrow> apply_progress progress (sch_progress s) | None \<Rightarrow> sch_progress s)"
    "sch_registry s0 = (if clear_existing then empty_registry else sch_registry s)"
    using assms(2,3) replace_existing_effect [OF assms(2)]
    by (auto simp: s0_def work_inv_def scheduler_inv_def replace_existing_def clear_registry_eq split: option.splits)
  obtain r1 s1 where run: "commit_items cfg now (plan_items plan) s0 = (r1, s1)" by fastforce
  note eff = commit_items_effect [OF assms(1) s0(1) commit_items_progress [OF run, THEN conjunct1]]
  have r1: "r1 = Inr ()" using eff by simp
  define s2 where "s2 = (case plan_seen_entries plan of
                  Some entries \<Rightarrow> if clear_existing
                    then s1\<lparr>sch_seen := snd (replace_entries (wall_time now) (map (\<lambda>(u, t). (u, PyFloat (Fin t))) entries) (sch_seen s1))\<rparr>
                    else s1
                | None \<Rightarrow> s1)"
  have "0 < max_seen (sch_seen s1)"
    using eff by (simp add: components_ok_def sur_inv_def)
  then have s2: "components_ok (fro_nrm cfg) (s2\<lparr>sch_progress := initial_progress\<rparr>)" "tracked s2 = tracked s1" "sch_runtime s2 = sch_runtime s1"
    "sch_progress s2 = sch_progress s1" "sch_registry s2 = sch_registry s1"
    using eff replace_entries_inv [of "sch_seen s1"]
    by (auto simp: s2_def components_ok_def tracked_def split: option.splits)
  have complete: "\<not> (clear_existing \<and> plan_progress plan = None)" using assms(3) by blast
  then have "s' = s2 \<and> (\<exists>result. r = Inr result \<and> result_restored_count result = int (length (plan_items plan)) \<and>
      result_next_sequence result = plan_next_sequence plan)"
    using assms(4) unfolding commit_restore_plan_def if_not_P [OF complete] Let_def s0_def [symmetric] run r1 prod.case
      sum.case s2_def [symmetric]
    by auto
  then show ?thesis
    using eff s0 s2 commit_items_progress [OF run, THEN conjunct2] by auto
qed

lemma planned_sequences: "image_mset item_sequence (mset (map (planned_item nrm) items)) = mset (map item_number items)"
  by (simp add: image_mset.compositionality comp_def planned_item_def item_sequence_def item_number_def [abs_def] Let_def)

lemma restored_sequences_ok:
  assumes "plan_ok cfg clear_existing (summarize s) plan" and "host_canonical nrm" and "htq_inv nrm (sch_queue s)"
    and "sequences_ok s"
    and "tracked s' = mset (map (planned_item nrm) (plan_items plan)) + (if clear_existing then {#} else tracked s)"
    and "next_sequence_value (sch_runtime s') = plan_next_sequence plan"
  shows "sequences_ok s'"
proof -
  let ?numbers = "mset (map item_number (plan_items plan))"
  have plan: "distinct (map item_number (plan_items plan))" "\<forall>x\<in>set (plan_items plan). item_number x < plan_next_sequence plan"
    "\<not> clear_existing \<Longrightarrow> next_sequence_value (sch_runtime s) \<le> plan_next_sequence plan"
    "\<not> clear_existing \<Longrightarrow> item_number ` set (plan_items plan) \<inter> set_mset (image_mset item_sequence (tracked s)) = {}"
    using assms(1) live_sequences_tracked [OF assms(2,3)] by (auto simp: plan_ok_def summarize_def)
  have total: "image_mset item_sequence (tracked s') = ?numbers + (if clear_existing then {#} else image_mset item_sequence (tracked s))"
    using planned_sequences [of nrm "plan_items plan"] by (simp add: assms(5))
  have "count ?numbers n \<le> 1" for n
    using plan(1) by (simp only: distinct_count_atmost_1) simp
  moreover have "count (image_mset item_sequence (tracked s)) n \<le> 1" for n
    using assms(4) by (simp add: sequences_ok_def)
  moreover have "count ?numbers n = 0 \<or> count (image_mset item_sequence (tracked s)) n = 0" if "\<not> clear_existing" for n
  proof (rule ccontr)
    assume "\<not> ?thesis"
    then have "n \<in># ?numbers" "n \<in># image_mset item_sequence (tracked s)"
      by (simp_all only: count_eq_zero_iff de_Morgan_disj not_not)
    then show False using plan(4) [OF that] by auto
  qed
  ultimately have "count (image_mset item_sequence (tracked s')) n \<le> 1" for n
    unfolding total count_union using add_0_right by (cases clear_existing) (auto, metis add_0 add_0_right)
  moreover have "item_sequence x < plan_next_sequence plan" if "x \<in># tracked s'" for x
  proof -
    have "item_sequence x \<in># image_mset item_sequence (tracked s')" using that by simp
    then consider "item_sequence x \<in> item_number ` set (plan_items plan)" | y where "\<not> clear_existing" "y \<in># tracked s" "item_sequence x = item_sequence y"
      unfolding total by (auto split: if_splits)
    then show ?thesis
    proof cases
      case 2
      then have "item_sequence x < next_sequence_value (sch_runtime s)" using assms(4) by (simp add: sequences_ok_def)
      then show ?thesis using plan(3) 2(1) by simp
    qed (use plan(2) in auto)
  qed
  ultimately show ?thesis
    using assms(6) by (simp add: sequences_ok_def)
qed

definition restored :: "frontier_config \<Rightarrow> bool \<Rightarrow> scheduler \<Rightarrow> restore_item list \<Rightarrow> scheduler \<Rightarrow> bool" where
  "restored cfg clear_existing s items s' \<longleftrightarrow> work_inv (fro_nrm cfg) s' \<and>
     tracked s' = mset (map (planned_item (fro_nrm cfg)) items) + (if clear_existing then {#} else tracked s) \<and>
     run_closed (sch_runtime s') = run_closed (sch_runtime s) \<and>
     distinct (map item_key items) \<and>
     (\<forall>x\<in>set items. envelope_host (item_envelope x) = canonical_host_from_url cfg (task_url (envelope_task (item_envelope x))) \<and>
       (\<not> clear_existing \<longrightarrow> item_key x \<notin> (\<lambda>y. scheduler_task_identity_key (snd (snd (snd y)))) ` set_mset (tracked s)))"

lemma restore_effect:
  assumes "host_canonical (fro_nrm cfg)" and "work_inv (fro_nrm cfg) s"
    and "\<And>p. py_get payload ''retry_budget'' = PyDict p \<Longrightarrow> distinct (map fst p)"
    and "restore_scheduler cfg now raw_id payload clear_existing s = (r, s')"
  shows "(\<exists>e. r = Inl e \<and> s' = s\<lparr>sch_eligibility := elig_clear (sch_eligibility s)\<rparr>) \<or>
    (\<exists>items plan. r = Inr (int (length items)) \<and> restored cfg clear_existing s items s' \<and> items = plan_items plan \<and>
      next_sequence_value (sch_runtime s') = plan_next_sequence plan \<and>
      (\<forall>progress. plan_progress plan = Some progress \<longrightarrow> sch_progress s' = apply_progress progress (sch_progress s)) \<and>
      (plan_progress plan = None \<longrightarrow> sch_progress s' = sch_progress s) \<and>
      (\<exists>p. py_get payload ''retry_budget'' = PyDict p \<and> parse_retry_state p = Inr (sch_retry s')) \<and>
      sch_registry s' = (if clear_existing then empty_registry else sch_registry s) \<and>
      parse_restore_plan cfg now (s\<lparr>sch_eligibility := elig_clear (sch_eligibility s)\<rparr>) raw_id payload clear_existing
        (summarize (s\<lparr>sch_eligibility := elig_clear (sch_eligibility s)\<rparr>)) = Inr plan)"
proof -
  define s1 where "s1 = s\<lparr>sch_eligibility := elig_clear (sch_eligibility s)\<rparr>"
  have s1: "work_inv (fro_nrm cfg) s1" "tracked s1 = tracked s" "sch_runtime s1 = sch_runtime s" "htq_inv (fro_nrm cfg) (sch_queue s1)"
    "sequences_ok s1"
    using assms(2) by (auto simp: work_inv_def scheduler_inv_def components_ok_def s1_def tracked_def sequences_ok_def elig_clear_inv)
  show ?thesis
  proof (cases "\<exists>p retry plan. py_get payload ''retry_budget'' = PyDict p \<and> parse_retry_state p = Inr retry \<and>
      parse_restore_plan cfg now s1 raw_id payload clear_existing (summarize s1) = Inr plan")
    case True
    then obtain p retry plan where p: "py_get payload ''retry_budget'' = PyDict p" "parse_retry_state p = Inr retry"
      and plan: "parse_restore_plan cfg now s1 raw_id payload clear_existing (summarize s1) = Inr plan"
      by blast
    note pok = parse_plan_ok [OF plan]
    obtain r2 s2 where commit: "commit_restore_plan cfg now plan clear_existing s1 = (r2, s2)" by fastforce
    have progress: "plan_progress plan \<noteq> None \<longleftrightarrow> clear_existing" using pok by (simp add: plan_ok_def)
    obtain result where result: "r2 = Inr result" "result_restored_count result = int (length (plan_items plan))"
      "result_next_sequence result = plan_next_sequence plan"
      and s2: "components_ok (fro_nrm cfg) (s2\<lparr>sch_progress := initial_progress\<rparr>)" "sch_runtime s2 = sch_runtime s1"
      "tracked s2 = mset (map (planned_item (fro_nrm cfg)) (plan_items plan)) + (if clear_existing then {#} else tracked s1)"
      and registry: "sch_registry s2 = (if clear_existing then empty_registry else sch_registry s1)"
      and counters: "\<forall>progress. plan_progress plan = Some progress \<longrightarrow> sch_progress s2 = apply_progress progress (sch_progress s1)"
        "plan_progress plan = None \<longrightarrow> sch_progress s2 = sch_progress s1"
      using commit_plan_effect [OF assms(1) s1(1) progress commit] by auto
    have run: "r = Inr (int (length (plan_items plan)))"
      and s': "s' = s2\<lparr>sch_runtime := (sch_runtime s2)\<lparr>next_sequence_value := plan_next_sequence plan\<rparr>, sch_retry := retry\<rparr>"
      using assms(4) p plan commit result by (simp_all add: restore_scheduler_def s1_def [symmetric] apply_retry_state_def Let_def)
    have "budget_ok retry" using parse_retry_ok [OF assms(3) [OF p(1)] p(2)] by simp
    then have c: "components_ok (fro_nrm cfg) (s'\<lparr>sch_progress := initial_progress\<rparr>)"
      using s2(1) by (simp add: s' components_ok_def)
    have tr: "tracked s' = mset (map (planned_item (fro_nrm cfg)) (plan_items plan)) + (if clear_existing then {#} else tracked s1)"
      using s2(3) by (simp add: s' tracked_def)
    have nx: "next_sequence_value (sch_runtime s') = plan_next_sequence plan" by (simp add: s')
    from restored_sequences_ok [OF pok assms(1) s1(4,5) tr nx] c
    have "work_inv (fro_nrm cfg) s'" by (simp add: work_inv_def scheduler_inv_def)
    moreover have "(\<lambda>y. scheduler_task_identity_key (snd (snd (snd y)))) ` set_mset (tracked s) \<subseteq> live_identity_keys (summarize s1)"
      using arg_cong [OF mset_live_items [OF assms(1) s1(4)], of set_mset] s1(2)
      by (auto simp: summarize_def image_iff split: prod.splits) force
    ultimately have "restored cfg clear_existing s (plan_items plan) s'"
      using tr pok s1(2,3) s2(2) unfolding restored_def plan_ok_def by (auto simp: s')
    moreover have "\<forall>progress. plan_progress plan = Some progress \<longrightarrow> sch_progress s' = apply_progress progress (sch_progress s)"
      "plan_progress plan = None \<longrightarrow> sch_progress s' = sch_progress s"
      using counters by (simp_all add: s' s1_def)
    ultimately show ?thesis using run nx plan p registry by (auto simp: s1_def s')
  next
    case False
    then have "(\<exists>e. r = Inl e) \<and> s' = s1"
      using assms(4) unfolding restore_scheduler_def s1_def [symmetric] Let_def
      by (cases "py_get payload ''retry_budget''"; cases "and_then (parse_retry_state (case py_get payload ''retry_budget'' of PyDict p \<Rightarrow> p | _ \<Rightarrow> []))
        (\<lambda>retry. and_then (parse_restore_plan cfg now s1 raw_id payload clear_existing (summarize s1)) (\<lambda>plan. Inr (retry, plan)))") auto
    then show ?thesis by (simp add: s1_def)
  qed
qed

subsection \<open>Export and restore\<close>

definition item_envelope_of :: "crawl_task queue_item \<Rightarrow> task_envelope" where
  "item_envelope_of x = (case x of (h, p, n, t) \<Rightarrow>
     \<lparr>envelope_task = t, envelope_host = h, envelope_priority = p, envelope_sequence = n\<rparr>)"

definition item_portable :: "frontier_config \<Rightarrow> crawl_task queue_item \<Rightarrow> bool" where
  "item_portable cfg x \<longleftrightarrow> (case x of (h, p, n, t) \<Rightarrow> envelope_ok (item_envelope_of x) \<and>
     fro_normalize cfg (task_url t) = Some (task_url t) \<and> h = canonical_host_from_url cfg (task_url t))"

lemma prepare_portable:
  assumes "item_portable cfg x"
    and "prepare_restored_envelope cfg now s (item_envelope_of x) qsize ready kinds keys adv = Inr (Some prepared)"
  shows "prepared = item_envelope_of x"
proof -
  obtain h p n t where x: "x = (h, p, n, t)" by (cases x)
  have ok: "task_ok t" "p = task_priority t" "fro_normalize cfg (task_url t) = Some (task_url t)"
    "h = canonical_host_from_url cfg (task_url t)"
    using assms(1) by (auto simp: x item_portable_def item_envelope_of_def envelope_ok_def task_portable_def)
  have "task_url t \<noteq> []"
    using assms(1) by (auto simp: x item_portable_def item_envelope_of_def envelope_ok_def task_portable_def clean_text_def)
  then obtain u us where u: "task_url t = u # us" by (cases "task_url t") auto
  have "t\<lparr>task_url := u # us, task_priority := p\<rparr> = t" using ok(2) u by (cases t) simp
  then have "with_url_and_preserved_priority t (u # us) (Some p) = Inr t"
    using ok(1) by (simp add: with_url_and_preserved_priority_def)
  then show ?thesis
    using assms(2) ok(3,4) u
    by (auto simp: x prepare_restored_envelope_def item_envelope_of_def Let_def split: if_splits)
qed

definition item_tag :: "restore_item \<Rightarrow> task_envelope \<times> restore_source" where
  "item_tag x = (item_envelope x, item_source x)"

lemma scan_serialized:
  assumes "item_portable cfg x" and "same_fields m (serialize (item_envelope_of x))"
    and "scan_item cfg now s clear_existing raw_id key source (PyDict m) scan = Inr scan'"
  shows "map item_tag (scan_items scan') = map item_tag (scan_items scan) @ [(item_envelope_of x, source)]"
proof -
  have "envelope_ok (item_envelope_of x)"
    "fro_normalize cfg (task_url (envelope_task (item_envelope_of x))) = Some (task_url (envelope_task (item_envelope_of x)))"
    using assms(1) by (auto simp: item_portable_def item_envelope_of_def split: prod.splits)
  then have e: "deserialize_checkpoint_item cfg raw_id (PyDict m) = Inr (item_envelope_of x)"
    using deserialize_serialize [OF _ _ assms(2)] by (simp add: deserialize_checkpoint_item_def)
  obtain wait prepared where
    p: "prepare_restored_envelope cfg now s (item_envelope_of x) (scan_queue_size scan) (scan_ready_pending scan)
      (scan_kind_pending scan) (scan_admission_keys scan) (\<not> clear_existing) = Inr (Some prepared)"
    and scan': "scan' = add_scanned source wait (envelope_sequence (item_envelope_of x)) prepared
      (scheduler_task_identity_key (envelope_task prepared))
      (scan\<lparr>scan_sequences := insert (envelope_sequence (item_envelope_of x)) (scan_sequences scan)\<rparr>)"
    using scan_item_parts [OF assms(3)] e by auto
  show ?thesis
    using prepare_portable [OF assms(1) p] by (simp add: scan' add_scanned_def Let_def item_tag_def)
qed

lemma scan_serialized_list:
  assumes "list_all2 (\<lambda>m x. item_portable cfg x \<and> same_fields m (serialize (item_envelope_of x))) ms xs"
    and "scan_list cfg now s clear_existing raw_id key source (map PyDict ms) scan = Inr scan'"
  shows "map item_tag (scan_items scan') = map item_tag (scan_items scan) @ map (\<lambda>x. (item_envelope_of x, source)) xs"
  using assms
proof (induction ms xs arbitrary: scan rule: list_all2_induct)
  case (Cons m ms x xs)
  obtain scan1 where "scan_item cfg now s clear_existing raw_id key source (PyDict m) scan = Inr scan1"
    and "scan_list cfg now s clear_existing raw_id key source (map PyDict ms) scan1 = Inr scan'"
    using Cons.prems by auto
  then show ?case
    using Cons.IH scan_serialized [of cfg x m] Cons.hyps by fastforce
qed simp

lemma serialized_queue_items:
  "\<forall>x\<in>set xs. item_portable cfg x \<Longrightarrow>
    list_all2 (\<lambda>m x. item_portable cfg x \<and> same_fields m (serialize (item_envelope_of x))) (map serialize_queue_item xs) xs"
  by (induction xs) (auto simp: serialize_queue_item_def item_envelope_of_def same_fields_def)

lemma serialized_entries:
  "\<forall>e\<in>set es. item_portable cfg (delayed_host e, delayed_priority e, delayed_sequence e, delayed_task e) \<Longrightarrow>
    list_all2 (\<lambda>m x. item_portable cfg x \<and> same_fields m (serialize (item_envelope_of x))) (map (serialize_entry now) es)
      (map (\<lambda>e. (delayed_host e, delayed_priority e, delayed_sequence e, delayed_task e)) es)"
  using serialize_entry_fields(1) by (induction es) (simp_all add: item_envelope_of_def)

lemma exported_advice [simp]:
  "exported_queued n (s\<lparr>sch_advice := a\<rparr>) = exported_queued n s" "exported_delayed n (s\<lparr>sch_advice := a\<rparr>) = exported_delayed n s"
  "exported_sequences n (s\<lparr>sch_advice := a\<rparr>) = exported_sequences n s"
  by (simp_all add: exported_queued_def exported_delayed_def exported_sequences_def)

lemma export_fields:
  assumes "export_scheduler max_queued include_seen now s = (payload, s')"
  shows "py_get payload ''queued_tasks'' = dict_list (map serialize_queue_item (exported_queued max_queued s))"
    "py_get payload ''delayed_tasks'' = dict_list (map (serialize_entry (monotonic_time now)) (exported_delayed max_queued s))"
    "py_get payload ''requeued_inflight_tasks'' = dict_list (map serialize_active_record
      (active_values (sch_registry s) @ dead_letter_pending_values (sch_registry s)))"
    "py_get payload ''dispatching_tasks'' = dict_list (map serialize_active_record (dispatching_values (sch_registry s)))"
    "py_get payload ''next_sequence'' = PyInt (max (next_sequence_value (sch_runtime s))
      (fold (\<lambda>n m. max m n) (exported_sequences max_queued s) (- 1) + 1))"
    "py_get payload ''progress_counters'' = PyDict (export_progress (sch_progress s))"
    "py_get payload ''retry_budget'' = PyDict (export_retry_state (sch_retry s))"
proof -
  let ?base = "fst (export_scheduler max_queued False now s)"
  have "payload = ?base \<or> (\<exists>entries. payload = ?base @ [(''seen_url_entries'', entries)])"
    using assms by (auto simp: export_scheduler_def export_scheduler_state_def Let_def split: if_splits prod.splits)
  then have get: "py_get payload k = py_get ?base k" if "k \<noteq> ''seen_url_entries''" for k
    using that by (auto simp: py_get_def get_default_def map_add_def split: option.splits)
  note base = export_scheduler_def export_scheduler_state_def Let_def if_False fst_conv
  show "py_get payload ''queued_tasks'' = dict_list (map serialize_queue_item (exported_queued max_queued s))"
    by (subst get, simp, simp add: base py_get_Cons)
  show "py_get payload ''delayed_tasks'' = dict_list (map (serialize_entry (monotonic_time now)) (exported_delayed max_queued s))"
    by (subst get, simp, simp add: base py_get_Cons)
  show "py_get payload ''requeued_inflight_tasks'' = dict_list (map serialize_active_record
      (active_values (sch_registry s) @ dead_letter_pending_values (sch_registry s)))"
    by (subst get, simp, simp add: base py_get_Cons)
  show "py_get payload ''dispatching_tasks'' = dict_list (map serialize_active_record (dispatching_values (sch_registry s)))"
    by (subst get, simp, simp add: base py_get_Cons)
  show "py_get payload ''next_sequence'' = PyInt (max (next_sequence_value (sch_runtime s))
      (fold (\<lambda>n m. max m n) (exported_sequences max_queued s) (- 1) + 1))"
    by (subst get, simp, simp add: base py_get_Cons)
  show "py_get payload ''progress_counters'' = PyDict (export_progress (sch_progress s))"
    by (subst get, simp, simp add: base py_get_Cons)
  show "py_get payload ''retry_budget'' = PyDict (export_retry_state (sch_retry s))"
    by (subst get, simp, simp add: base py_get_Cons)
qed

lemma fold_max_le: "(\<forall>n\<in>set ns. n \<le> b) \<Longrightarrow> a \<le> b \<Longrightarrow> fold (\<lambda>n m. max m n) ns a \<le> (b :: int)"
  by (induction ns arbitrary: a) auto

lemma fold_max_ge: "a \<le> fold (\<lambda>n m. max m n) ns (a :: int)"
proof (induction ns arbitrary: a)
  case (Cons n ns)
  show ?case using Cons [of "max a n"] by simp
qed simp

lemma serialized_records:
  assumes "\<forall>rec\<in>set recs. item_portable cfg (record_item rec)"
  shows "list_all2 (\<lambda>m x. item_portable cfg x \<and> same_fields m (serialize (item_envelope_of x)))
    (map serialize_active_record recs) (map record_item recs)"
  using serialized_queue_items [of "map record_item recs" cfg] assms
  by (simp add: serialize_active_record_def [abs_def] record_item_def [abs_def] comp_def)

text \<open>All work of a scheduler, in the order of its checkpoint, with the lists it goes to.\<close>

definition tagged_items :: "scheduler \<Rightarrow> (crawl_task queue_item \<times> restore_source) list" where
  "tagged_items s = map (\<lambda>x. (x, From_Queued)) (snapshot_items (sch_queue s)) @
     map (\<lambda>e. ((delayed_host e, delayed_priority e, delayed_sequence e, delayed_task e), From_Delayed)) (delayed_snapshot_items (sch_delayed s)) @
     map (\<lambda>rec. (record_item rec, From_Requeued_Inflight)) (active_values (sch_registry s) @ dead_letter_pending_values (sch_registry s)) @
     map (\<lambda>rec. (record_item rec, From_Dispatching)) (dispatching_values (sch_registry s))"

definition checkpoint_items :: "scheduler \<Rightarrow> crawl_task queue_item list" where
  "checkpoint_items s = map fst (tagged_items s)"

lemma checkpoint_items_parts:
  "checkpoint_items s = snapshot_items (sch_queue s) @
     map (\<lambda>e. (delayed_host e, delayed_priority e, delayed_sequence e, delayed_task e)) (delayed_snapshot_items (sch_delayed s)) @
     map record_item (active_values (sch_registry s) @ dead_letter_pending_values (sch_registry s)) @
     map record_item (dispatching_values (sch_registry s))"
  by (simp add: checkpoint_items_def tagged_items_def comp_def)

lemma mset_checkpoint_items: "mset (checkpoint_items s) = mset (live_items s)"
  by (simp add: checkpoint_items_parts live_items_def)

lemma scan_exported:
  assumes "\<forall>x\<in>set (checkpoint_items s). item_portable cfg x" and "export_scheduler (- 1) include_seen now s = (payload, s')"
    and "scan_sources cfg now' s0 c raw_id payload restore_sources (initial_scan c summary) = Inr scan"
  shows "map item_tag (scan_items scan) = map (\<lambda>(x, source). (item_envelope_of x, source)) (tagged_items s)"
proof -
  let ?later = "map (\<lambda>e. (delayed_host e, delayed_priority e, delayed_sequence e, delayed_task e)) (delayed_snapshot_items (sch_delayed s))"
  let ?inflight = "active_values (sch_registry s) @ dead_letter_pending_values (sch_registry s)"
  let ?dispatching = "dispatching_values (sch_registry s)"
  let ?tag = "\<lambda>source xs. map (\<lambda>x. (item_envelope_of x, source)) xs"
  have all: "exported_queued (- 1) s = snapshot_items (sch_queue s)" "exported_delayed (- 1) s = delayed_snapshot_items (sch_delayed s)"
    by (simp_all add: exported_queued_def exported_delayed_def limit_items_def)
  note fields = export_fields [OF assms(2), unfolded all dict_list_def]
  let ?scan = "scan_list cfg now' s0 c raw_id"
  obtain a b d where
    1: "?scan ''queued_tasks'' From_Queued (map PyDict (map serialize_queue_item (snapshot_items (sch_queue s)))) (initial_scan c summary) = Inr a"
    and 2: "?scan ''delayed_tasks'' From_Delayed (map PyDict (map (serialize_entry (monotonic_time now)) (delayed_snapshot_items (sch_delayed s)))) a = Inr b"
    and 3: "?scan ''requeued_inflight_tasks'' From_Requeued_Inflight (map PyDict (map serialize_active_record ?inflight)) b = Inr d"
    and 4: "?scan ''dispatching_tasks'' From_Dispatching (map PyDict (map serialize_active_record ?dispatching)) d = Inr scan"
    using assms(3) unfolding restore_sources_def scan_sources.simps fields pyval.case by auto
  have portable: "\<forall>x\<in>set (snapshot_items (sch_queue s)). item_portable cfg x"
    "\<forall>e\<in>set (delayed_snapshot_items (sch_delayed s)). item_portable cfg (delayed_host e, delayed_priority e, delayed_sequence e, delayed_task e)"
    "\<forall>rec\<in>set ?inflight. item_portable cfg (record_item rec)" "\<forall>rec\<in>set ?dispatching. item_portable cfg (record_item rec)"
    using assms(1) by (auto simp: checkpoint_items_parts)
  have "map item_tag (scan_items a) = ?tag From_Queued (snapshot_items (sch_queue s))"
    using scan_serialized_list [OF serialized_queue_items [OF portable(1)] 1] by (simp add: initial_scan_def)
  moreover have "map item_tag (scan_items b) = map item_tag (scan_items a) @ ?tag From_Delayed ?later"
    by (rule scan_serialized_list [OF serialized_entries [OF portable(2)] 2])
  moreover have "map item_tag (scan_items d) = map item_tag (scan_items b) @ ?tag From_Requeued_Inflight (map record_item ?inflight)"
    by (rule scan_serialized_list [OF serialized_records [OF portable(3)] 3])
  moreover have "map item_tag (scan_items scan) = map item_tag (scan_items d) @ ?tag From_Dispatching (map record_item ?dispatching)"
    by (rule scan_serialized_list [OF serialized_records [OF portable(4)] 4])
  ultimately show ?thesis by (simp add: tagged_items_def comp_def)
qed

lemma planned_portable:
  assumes "host_canonical (fro_nrm cfg)" and "item_portable cfg y" and "item_envelope x = item_envelope_of y"
  shows "planned_item (fro_nrm cfg) x = y"
  using assms(2,3) host_canonical.nrm_nrm [OF assms(1)]
  by (cases y) (auto simp: planned_item_def item_envelope_of_def item_portable_def envelope_ok_def canonical_host_from_url_def Let_def)

lemma parse_plan_exported:
  assumes "host_canonical (fro_nrm cfg)" and "\<forall>x\<in>#tracked s. item_portable cfg x" and "scheduler_inv (fro_nrm cfg) s"
    and "export_scheduler (- 1) include_seen now s = (payload, s')"
    and "parse_restore_plan cfg now' s0 raw_id payload True summary = Inr plan"
  shows "map (planned_item (fro_nrm cfg)) (plan_items plan) = checkpoint_items s \<and>
    plan_next_sequence plan = max 0 (next_sequence_value (sch_runtime s)) \<and>
    (\<exists>progress. plan_progress plan = Some progress \<and> parse_progress (export_progress (sch_progress s)) = Inr progress)"
proof -
  have htq: "htq_inv (fro_nrm cfg) (sch_queue s)" and seq: "sequences_ok s"
    using inv_parts [OF assms(3)] by simp_all
  have items: "set (checkpoint_items s) = set_mset (tracked s)"
    using arg_cong [OF mset_live_items [OF assms(1) htq], of set_mset] mset_eq_setD [OF mset_checkpoint_items [of s]] by simp
  note fields = export_fields [OF assms(4)]
  obtain scan progress entries n where
    scan: "scan_sources cfg now' s0 True raw_id payload restore_sources (initial_scan True summary) = Inr scan"
    and progress: "parse_progress (export_progress (sch_progress s)) = Inr progress"
    and n: "parse_next_sequence (py_get payload ''next_sequence'') = Inr n"
    and plan: "plan = \<lparr>plan_items = scan_items scan, plan_seen_entries = entries,
      plan_progress = Some progress, plan_next_sequence = n, plan_counts = scan_counts scan\<rparr>"
    using assms(5) unfolding parse_restore_plan_def fields(6) pyval.case Let_def
    by (auto split: if_splits)
  have portable: "\<forall>x\<in>set (checkpoint_items s). item_portable cfg x" using assms(2) items by simp
  have envelopes: "map item_envelope (scan_items scan) = map item_envelope_of (checkpoint_items s)"
    using arg_cong [OF scan_exported [OF portable assms(4) scan], of "map fst"]
    by (simp add: checkpoint_items_def comp_def item_tag_def split_def)
  have "map (planned_item (fro_nrm cfg)) (scan_items scan) = checkpoint_items s"
  proof (rule nth_equalityI)
    show len: "length (map (planned_item (fro_nrm cfg)) (scan_items scan)) = length (checkpoint_items s)"
      using arg_cong [OF envelopes, of length] by simp
    fix i assume "i < length (map (planned_item (fro_nrm cfg)) (scan_items scan))"
    then have i: "i < length (scan_items scan)" "i < length (checkpoint_items s)" using len by simp_all
    then have "item_envelope (scan_items scan ! i) = item_envelope_of (checkpoint_items s ! i)"
      using arg_cong [OF envelopes, of "\<lambda>es. es ! i"] by simp
    then show "map (planned_item (fro_nrm cfg)) (scan_items scan) ! i = checkpoint_items s ! i"
      using planned_portable [OF assms(1)] portable i by simp
  qed
  moreover have "n = max 0 (next_sequence_value (sch_runtime s))"
  proof -
    let ?f = "fold (\<lambda>n m. max m n) (exported_sequences (- 1) s) (- 1)"
    have "set (exported_sequences (- 1) s) = item_sequence ` set (checkpoint_items s)"
      by (auto simp: exported_sequences_def checkpoint_items_parts exported_queued_def exported_delayed_def limit_items_def
          item_sequence_def record_item_def image_Un image_image split_def)
    then have "\<forall>n\<in>set (exported_sequences (- 1) s). n < next_sequence_value (sch_runtime s)"
      using seq items by (auto simp: sequences_ok_def)
    then have "?f \<le> max (- 1) (next_sequence_value (sch_runtime s) - 1)"
      by (intro fold_max_le) auto
    moreover have "- 1 \<le> ?f" by (rule fold_max_ge)
    ultimately show ?thesis
      using n unfolding fields(5) by (auto simp: parse_next_sequence_def Let_def split: if_splits)
  qed
  ultimately show ?thesis using progress by (simp add: plan)
qed

section \<open>Properties\<close>

text \<open>Schedulers for the concrete instances.\<close>

definition saved_task :: "string \<Rightarrow> string \<Rightarrow> crawl_task" where
  "saved_task u i = sample_link\<lparr>task_url := u, task_id := Some i\<rparr>"

text \<open>One task waits, another one of the same host is in flight.\<close>

definition saved_scheduler :: scheduler where
  "saved_scheduler = empty_scheduler\<lparr>
     sch_queue := push lower_host (Some ''noaa.gov'') 0 0 (saved_task ''https://noaa.gov/x'' ''t1'') empty_queue,
     sch_registry := snd (add_active lower_host (Some ''noaa.gov'') 0 1 (saved_task ''https://noaa.gov/y'' ''t2'') empty_registry),
     sch_runtime := \<lparr>run_closed = False, next_sequence_value = 2\<rparr>\<rparr>"

definition one_per_host :: frontier_config where
  "one_per_host = sample_config\<lparr>fro_env := (fro_env sample_config)\<lparr>env_settings :=
     (env_settings (fro_env sample_config))\<lparr>cfg_max_pending_per_host := 1, cfg_max_pending_per_host_by_kind := []\<rparr>\<rparr>\<rparr>"

definition epoch :: instant where
  "epoch = \<lparr>wall_time = 0, monotonic_time = 0\<rparr>"

lemma saved_task_ok: "task_ok (saved_task u i)"
  using sample_link_ok by (simp add: saved_task_def)

definition saved_items :: "crawl_task queue_item list" where
  "saved_items = [(Some ''noaa.gov'', 0, 0, saved_task ''https://noaa.gov/x'' ''t1''),
     (Some ''noaa.gov'', 0, 1, saved_task ''https://noaa.gov/y'' ''t2'')]"

lemma saved_registry: "registry_items (sch_registry saved_scheduler) = {#saved_items ! 1#}"
proof -
  have "map (\<lambda>x. record_item (snd x)) (active_records (sch_registry saved_scheduler)) = [saved_items ! 1]"
    "dispatching_records (sch_registry saved_scheduler) = []" "dead_letter_pending_records (sch_registry saved_scheduler) = []"
    by code_simp+
  then show ?thesis
    by (simp add: registry_items_def record_items_def flip: mset_map)
qed

lemma saved_scheduler_inv: "scheduler_inv lower_host saved_scheduler" "tracked saved_scheduler = mset saved_items"
proof -
  have host: "lower_host (Some ''noaa.gov'') = Some ''noaa.gov''" by code_simp
  have "queued_items (empty_queue :: crawl_task host_task_queue) = {#}"
    by (simp add: queued_items_def htq_abs_def empty_queue_def)
  then have queue: "queued_items (sch_queue saved_scheduler) = {#hd saved_items#}"
    by (simp add: saved_scheduler_def host_canonical.push_items [OF lower_host_canonical empty_queue_inv] host saved_items_def)
  note saved_registry
  with queue show tracked: "tracked saved_scheduler = mset saved_items"
    by (simp add: tracked_def saved_scheduler_def empty_scheduler_def delayed_items_def empty_delayed_def saved_items_def)
  have "sequences_ok saved_scheduler"
    unfolding sequences_ok_def tracked by (simp add: saved_items_def saved_scheduler_def item_sequence_def)
  moreover have "htq_inv lower_host (sch_queue saved_scheduler)"
    using host_canonical.push_inv [OF lower_host_canonical empty_queue_inv] by (simp add: saved_scheduler_def)
  moreover have "atr_inv lower_host (sch_registry saved_scheduler)"
    using host_canonical.add_active_inv [OF lower_host_canonical empty_registry_inv] by (simp add: saved_scheduler_def)
  ultimately show "scheduler_inv lower_host saved_scheduler"
    using inv_parts [OF empty_scheduler_inv [of lower_host]]
    by (simp add: scheduler_inv_def components_ok_def saved_scheduler_def)
qed

lemma saved_items_portable:
  assumes "fro_normalize cfg = Some" and "fro_extract cfg = (\<lambda>u. Some ''noaa.gov'')" and "fro_nrm cfg = lower_host"
  shows "item_portable cfg (saved_items ! 0)" "item_portable cfg (saved_items ! 1)"
proof -
  have texts: "clean_text ''https://noaa.gov/x''" "clean_text ''https://noaa.gov/y''" "clean_text ''t1''" "clean_text ''t2''"
    "clean_text ''link''" "clean_text ''noaa.gov''" "lower_host (Some ''noaa.gov'') = Some ''noaa.gov''"
    by code_simp+
  then show "item_portable cfg (saved_items ! 0)" "item_portable cfg (saved_items ! 1)"
    using saved_task_ok [of "''https://noaa.gov/x''" "''t1''"] saved_task_ok [of "''https://noaa.gov/y''" "''t2''"] assms
    by (simp_all add: saved_items_def item_portable_def item_envelope_of_def envelope_ok_def task_portable_def
        canonical_host_from_url_def saved_task_def sample_link_def sample_page_def)
qed

lemma empty_work_inv: "work_inv nrm empty_scheduler"
  using empty_scheduler_inv [of nrm] by (simp add: scheduler_inv_work)


text \<open>C4: A checkpoint keeps all work. If a scheduler is exported without a limit and the payload is
  restored into any scheduler, then a restore that succeeds yields a scheduler that tracks the
  same tasks with the same hosts, priorities and sequence numbers, those in flight now waiting
  in a queue again; the retry budget, the counters and the next sequence number are the same,
  and the full invariant holds. The tasks must be portable, their URLs normalised and their hosts
  those of their URLs.\<close>

theorem checkpoint_preserves_work:
  assumes "host_canonical (fro_nrm cfg)" and "scheduler_inv (fro_nrm cfg) s" and "\<forall>x\<in>#tracked s. item_portable cfg x"
    and "export_scheduler (- 1) include_seen now s = (payload, s1)" and "work_inv (fro_nrm cfg) s0"
    and "restore_scheduler cfg now' raw_id payload True s0 = (Inr n, s2)"
  shows "scheduler_inv (fro_nrm cfg) s2 \<and> tracked s2 = tracked s \<and> n = int (size (tracked s)) \<and>
    sch_registry s2 = empty_registry \<and> sch_retry s2 = sch_retry s \<and>
    accepted_total (sch_progress s2) = accepted_total (sch_progress s) \<and>
    completed_total (sch_progress s2) = completed_total (sch_progress s) \<and>
    next_sequence_value (sch_runtime s2) = max 0 (next_sequence_value (sch_runtime s))"
proof -
  have parts: "budget_ok (sch_retry s)" "progress_inv (sch_progress s)" "htq_inv (fro_nrm cfg) (sch_queue s)"
    by (rule inv_parts [OF assms(2)])+
  have retry: "py_get payload ''retry_budget'' = PyDict (export_retry_state (sch_retry s))"
    by (rule export_fields(7) [OF assms(4)])
  have keys: "distinct (map fst p)" if "py_get payload ''retry_budget'' = PyDict p" for p
    using that retry parts(1) by (auto simp: budget_ok_def export_retry_state_def comp_def split_def)
  obtain items plan where n: "n = int (length items)" and res: "restored cfg True s0 items s2" and items: "items = plan_items plan"
    and next': "next_sequence_value (sch_runtime s2) = plan_next_sequence plan"
    and counters: "\<forall>progress. plan_progress plan = Some progress \<longrightarrow> sch_progress s2 = apply_progress progress (sch_progress s0)"
    and budget: "\<exists>p. py_get payload ''retry_budget'' = PyDict p \<and> parse_retry_state p = Inr (sch_retry s2)"
    and registry: "sch_registry s2 = empty_registry"
    and plan: "parse_restore_plan cfg now' (s0\<lparr>sch_eligibility := elig_clear (sch_eligibility s0)\<rparr>) raw_id payload True
        (summarize (s0\<lparr>sch_eligibility := elig_clear (sch_eligibility s0)\<rparr>)) = Inr plan"
    using restore_effect [OF assms(1,5) keys assms(6)] by auto
  from parse_plan_exported [OF assms(1,3,2,4) plan] obtain progress where
    same: "map (planned_item (fro_nrm cfg)) (plan_items plan) = checkpoint_items s"
    and next'': "plan_next_sequence plan = max 0 (next_sequence_value (sch_runtime s))"
    and progress: "plan_progress plan = Some progress" "parse_progress (export_progress (sch_progress s)) = Inr progress"
    by blast
  have all: "mset (checkpoint_items s) = tracked s"
    using mset_checkpoint_items mset_live_items [OF assms(1) parts(3)] by metis
  have tracked: "tracked s2 = tracked s"
    using res same all by (simp add: restored_def items)
  have restored_progress: "restore_progress (export_progress (sch_progress s)) (sch_progress s0) = Inr (sch_progress s2)"
    using counters progress by (simp add: restore_progress_def)
  have "accepted_total (sch_progress s2) = accepted_total (sch_progress s)" "completed_total (sch_progress s2) = completed_total (sch_progress s)"
    using parse_export_progress [OF parts(2)] progress counters
    by (simp_all add: apply_progress_def reset_drain_budget_window_def completed_total_def sum_sort_counter)
  moreover have "scheduler_inv (fro_nrm cfg) s2"
    using res apply_export_inv [OF parts(2) restored_progress] by (simp add: scheduler_inv_work restored_def)
  moreover have "sch_retry s2 = sch_retry s"
    using budget retry parse_export [OF parts(1)] by simp
  moreover have "n = int (size (tracked s))"
    using n same all items by (metis length_map size_mset)
  ultimately show ?thesis
    using tracked registry next' next'' by simp
qed

text \<open>The portable scheduler with a single task, in flight.\<close>

definition single_scheduler :: scheduler where
  "single_scheduler = empty_scheduler\<lparr>
     sch_registry := snd (add_active lower_host (Some ''noaa.gov'') 0 1 (saved_task ''https://noaa.gov/y'' ''t2'') empty_registry),
     sch_runtime := \<lparr>run_closed = False, next_sequence_value = 2\<rparr>\<rparr>"

lemma single_scheduler_inv: "scheduler_inv lower_host single_scheduler" "tracked single_scheduler = {#saved_items ! 1#}"
proof -
  have "registry_items (sch_registry single_scheduler) = {#saved_items ! 1#}" "sequences_ok saved_scheduler"
    "atr_inv lower_host (sch_registry single_scheduler)"
    using saved_registry inv_parts(4,8) [OF saved_scheduler_inv(1)] by (simp_all add: single_scheduler_def saved_scheduler_def)
  then show tracked: "tracked single_scheduler = {#saved_items ! 1#}"
    by (simp add: tracked_def single_scheduler_def empty_scheduler_def delayed_items_def empty_delayed_def queued_items_def
        htq_abs_def empty_queue_def)
  have "sequences_ok single_scheduler"
    unfolding sequences_ok_def tracked by (simp add: saved_items_def single_scheduler_def item_sequence_def)
  then show "scheduler_inv lower_host single_scheduler"
    using inv_parts [OF empty_scheduler_inv [of lower_host]] inv_parts(4) [OF saved_scheduler_inv(1)]
    by (simp add: scheduler_inv_def components_ok_def single_scheduler_def saved_scheduler_def)
qed

lemma single_restores:
  "fst (restore_scheduler sample_config epoch ''x'' (fst (export_scheduler (- 1) False epoch single_scheduler)) True empty_scheduler) = Inr 1"
  by code_simp


theorem checkpoint_preserves_work_witness:
  "case restore_scheduler sample_config epoch ''x'' (fst (export_scheduler (- 1) False epoch single_scheduler)) True empty_scheduler of
     (r, s2) \<Rightarrow> r = Inr 1 \<and> scheduler_inv lower_host s2 \<and> tracked s2 = {#saved_items ! 1#} \<and> sch_registry s2 = empty_registry"
proof -
  obtain payload s1 where export: "export_scheduler (- 1) False epoch single_scheduler = (payload, s1)" by fastforce
  obtain r s2 where run: "restore_scheduler sample_config epoch ''x'' payload True empty_scheduler = (r, s2)" by fastforce
  have r: "r = Inr 1" using single_restores export run by simp
  have cfg: "fro_normalize sample_config = Some" "fro_extract sample_config = (\<lambda>u. Some ''noaa.gov'')" "fro_nrm sample_config = lower_host"
    by (simp_all add: sample_config_def sample_env_def)
  have "\<forall>x\<in>#tracked single_scheduler. item_portable sample_config x"
    using saved_items_portable [OF cfg] by (simp add: single_scheduler_inv(2))
  from checkpoint_preserves_work [OF _ _ this export _ run [unfolded r]] show ?thesis
    using lower_host_canonical single_scheduler_inv empty_work_inv [of lower_host] run r export cfg by simp
qed

end
