(* ===== verification/Checkpoint_Limits.thy ===== *)
theory Checkpoint_Limits imports
  Checkpoint_Restore
begin

text \<open>
  What the admission limits mean for a checkpoint. A restore admits every item again
  (\<open>SchedulerFrontier.prepare_restored_envelope\<close> calls the same
  \<open>SchedulerTaskAdmitter.evaluate\<close> as an enqueue), against counts that grow with the items of the
  plan. The exporter, however, also writes the tasks in flight, which the limits did not count
  while the crawl ran.
\<close>

section \<open>Counting the ready items of a plan\<close>

definition item_ready :: "restore_item \<Rightarrow> bool" where
  "item_ready x \<longleftrightarrow> item_source x \<noteq> From_Delayed \<or> or_else (item_delayed_wait x) 0 = 0"

definition ready_items_of :: "host \<Rightarrow> restore_item list \<Rightarrow> restore_item list" where
  "ready_items_of h items = filter (\<lambda>x. item_ready x \<and> envelope_host (item_envelope x) = h) items"

lemma get_increment: "get_default (increment m k) k' 0 = get_default m k' 0 + (if k = k' then 1 else 0)"
  by (simp add: increment_def get_default_def update_conv')

text \<open>The limits that count all tasks of a host alike.\<close>

definition uniform_limit :: "frontier_config \<Rightarrow> int \<Rightarrow> bool" where
  "uniform_limit cfg limit \<longleftrightarrow> (let settings = env_settings (fro_env cfg) in
     0 \<le> limit \<and> cfg_max_pending_per_host settings = limit \<and> cfg_max_pending_per_host_by_kind settings = [] \<and>
     cfg_max_pending_per_host_by_kind_under_pressure settings = [] \<and> cfg_max_pending_per_host_by_kind_critical settings = [])"

lemma accepted_below_limit:
  assumes "limit_rejection_reason (live_env cfg s) False ctx = None" and "uniform_limit cfg limit"
    and "task_source_type (ctx_task ctx) \<noteq> ''seed''"
  shows "ctx_host_pending ctx < limit"
proof -
  let ?env = "live_env cfg s"
  have settings: "env_settings ?env = env_settings (fro_env cfg)" by (simp add: live_env_def)
  have "\<exists>l. base_pending_limit ?env (task_kind (ctx_task ctx)) (ctx_queue_size ctx) = Some l \<and> l \<le> limit"
    using assms(2) by (auto simp: base_pending_limit_def settings uniform_limit_def Let_def kind_pending_limit_def split: option.split)
  then obtain l where l: "effective_max_pending_per_host ?env (ctx_task ctx) (ctx_host ctx) (ctx_queue_size ctx) False = Some l" "l \<le> limit"
    using assms(3) by (auto simp: effective_max_pending_per_host_def effective_max_pending_limit_def)
  have "pending_for_limit ?env ctx = ctx_host_pending ctx"
    using assms(2) by (simp add: pending_for_limit_def settings uniform_limit_def Let_def kind_pending_limit_def)
  with l assms(1) show ?thesis by (auto simp: limit_None)
qed

definition scan_counts_ok :: "int \<Rightarrow> restore_scan \<Rightarrow> bool" where
  "scan_counts_ok limit scan \<longleftrightarrow>
     (\<forall>h. get_default (scan_ready_pending scan) h 0 = int (length (ready_items_of h (scan_items scan)))) \<and>
     ((\<forall>x\<in>set (scan_items scan). task_source_type (envelope_task (item_envelope x)) \<noteq> ''seed'') \<longrightarrow>
       (\<forall>h. int (length (ready_items_of h (scan_items scan))) \<le> limit))"

lemma scan_item_counts:
  assumes "scan_counts_ok limit scan" and "uniform_limit cfg limit"
    and "scan_item cfg now s True raw_id key source raw_item scan = Inr scan'"
  shows "scan_counts_ok limit scan'"
proof -
  obtain e wait prepared where
    p: "prepare_restored_envelope cfg now s e (scan_queue_size scan) (scan_ready_pending scan)
      (scan_kind_pending scan) (scan_admission_keys scan) False = Inr (Some prepared)"
    and scan': "scan' = add_scanned source wait (envelope_sequence e) prepared (scheduler_task_identity_key (envelope_task prepared))
      (scan\<lparr>scan_sequences := insert (envelope_sequence e) (scan_sequences scan)\<rparr>)"
    using scan_item_parts [OF assms(3)] by auto
  define x where "x = \<lparr>item_envelope = prepared, item_source = source, item_delayed_wait = wait\<rparr>"
  let ?h = "envelope_host prepared"
  have items: "scan_items scan' = scan_items scan @ [x]"
    and ready: "scan_ready_pending scan' = (if item_ready x then increment (scan_ready_pending scan) ?h else scan_ready_pending scan)"
    by (simp_all add: scan' add_scanned_def Let_def x_def item_ready_def)
  have pending: "get_default (scan_ready_pending scan) h 0 = int (length (ready_items_of h (scan_items scan)))" for h
    using assms(1) by (simp add: scan_counts_ok_def)
  have split: "ready_items_of h (scan_items scan') = ready_items_of h (scan_items scan) @ (if item_ready x \<and> ?h = h then [x] else [])" for h
    by (simp add: items ready_items_of_def x_def)
  have below: "int (length (ready_items_of ?h (scan_items scan))) < limit" if "task_source_type (envelope_task prepared) \<noteq> ''seed''"
  proof -
    let ?ctx = "restore_admission_context now s (envelope_task prepared) ?h (scan_queue_size scan)
        (scan_ready_pending scan) (scan_kind_pending scan)"
    have "limit_rejection_reason (live_env cfg s) False ?ctx = None" using prepared_effect [OF p] by blast
    from accepted_below_limit [OF this assms(2)] that pending [of ?h] show ?thesis
      by (simp add: restore_admission_context_def)
  qed
  have "get_default (scan_ready_pending scan') h 0 = int (length (ready_items_of h (scan_items scan')))" for h
    by (simp add: ready split get_increment pending)
  moreover have "int (length (ready_items_of h (scan_items scan'))) \<le> limit"
    if "\<forall>y\<in>set (scan_items scan'). task_source_type (envelope_task (item_envelope y)) \<noteq> ''seed''" for h
    using that assms(1) below by (simp add: split) (auto simp: items x_def scan_counts_ok_def)
  ultimately show ?thesis by (simp add: scan_counts_ok_def)
qed

lemma scan_list_counts:
  "scan_counts_ok limit scan \<Longrightarrow> uniform_limit cfg limit \<Longrightarrow>
    scan_list cfg now s True raw_id key source raw_items scan = Inr scan' \<Longrightarrow> scan_counts_ok limit scan'"
proof (induction raw_items arbitrary: scan)
  case (Cons raw_item raw_items)
  then obtain scan1 where "scan_item cfg now s True raw_id key source raw_item scan = Inr scan1"
    "scan_list cfg now s True raw_id key source raw_items scan1 = Inr scan'"
    by auto
  then show ?case using Cons.IH Cons.prems(1,2) scan_item_counts by blast
qed simp

lemma scan_sources_counts:
  "scan_counts_ok limit scan \<Longrightarrow> uniform_limit cfg limit \<Longrightarrow>
    scan_sources cfg now s True raw_id payload sources scan = Inr scan' \<Longrightarrow> scan_counts_ok limit scan'"
proof (induction sources arbitrary: scan)
  case (Cons x sources)
  obtain key source where x: "x = (key, source)" by (cases x)
  obtain raw_items scan1 where "scan_list cfg now s True raw_id key source raw_items scan = Inr scan1"
    "scan_sources cfg now s True raw_id payload sources scan1 = Inr scan'"
    using Cons.prems(3) by (auto simp: x split: pyval.splits)
  then show ?case using Cons.IH Cons.prems(1,2) scan_list_counts by blast
qed simp

lemma initial_counts: "0 \<le> limit \<Longrightarrow> scan_counts_ok limit (initial_scan True summary)"
  by (simp add: scan_counts_ok_def initial_scan_def ready_items_of_def get_default_def)

section \<open>The exported items\<close>

lemma tagged_ready:
  assumes "host_canonical nrm" and "htq_inv nrm (sch_queue s)"
  shows "length (filter (\<lambda>(x, source). source \<noteq> From_Delayed \<and> fst x = h) (tagged_items s)) =
    size (filter_mset (\<lambda>x. fst x = h) (queued_items (sch_queue s) + registry_items (sch_registry s)))"
proof -
  have same: "length (filter (\<lambda>(x, source). source \<noteq> From_Delayed \<and> fst x = h) (map (\<lambda>x. (f x, src)) xs)) =
      (if src = From_Delayed then 0 else size (filter_mset (\<lambda>x. fst x = h) (mset (map f xs))))" for f and src and xs
    by (induction xs) auto
  have "registry_items (sch_registry s) = mset (map record_item (active_values (sch_registry s) @ dead_letter_pending_values (sch_registry s))) +
      mset (map record_item (dispatching_values (sch_registry s)))"
    by (simp add: registry_items_def record_items_def active_values_def dispatching_values_def dead_letter_pending_values_def
        image_mset.compositionality comp_def)
  then show ?thesis
    using same [of "\<lambda>x. x" From_Queued "snapshot_items (sch_queue s)"]
      same [of _ From_Delayed "delayed_snapshot_items (sch_delayed s)"]
      same [of record_item From_Requeued_Inflight "active_values (sch_registry s) @ dead_letter_pending_values (sch_registry s)"]
      same [of record_item From_Dispatching "dispatching_values (sch_registry s)"]
      host_canonical.snapshot_items_mset [OF assms]
    unfolding tagged_items_def filter_append length_append by simp
qed

lemma tags_ready:
  assumes "map item_tag items = map (\<lambda>(x, source). (item_envelope_of x, source)) tagged"
  shows "length (filter (\<lambda>(x, source). source \<noteq> From_Delayed \<and> fst x = h) tagged) \<le> length (ready_items_of h items)"
  using assms
proof (induction items arbitrary: tagged)
  case (Cons y items)
  then obtain x source tagged' where tagged: "tagged = (x, source) # tagged'"
    and y: "item_tag y = (item_envelope_of x, source)"
    and rest: "map item_tag items = map (\<lambda>(x, source). (item_envelope_of x, source)) tagged'"
    by (auto simp: Cons_eq_map_conv)
  have "envelope_host (item_envelope y) = fst x" "item_source y = source"
    using y by (cases x; simp add: item_tag_def item_envelope_of_def)+
  then show ?case
    using Cons.IH [OF rest] by (auto simp: tagged ready_items_of_def item_ready_def)
qed (simp add: ready_items_of_def)

section \<open>Property\<close>



end
