(* ===== verification/Url_Scheduler.thy ===== *)
theory Url_Scheduler imports
  Completion
  Dispatcher
  Checkpoint_Restore
begin

text \<open>
  The scheduler as its callers see it, \<open>crawler/scheduling/url_scheduler.py\<close>. Every operation of
  \<open>UrlScheduler\<close> is one function on the whole state, or one function per stretch during which the
  condition is held: \<open>get\<close> picks a host under the lock, reads the waits without it and
  dispatches under it again; \<open>complete\<close> settles the task, writes a dead letter without the lock
  and finalises it. The step relation \<open>scheduler_step\<close> interleaves these stretches in every
  order, at any times, so its reachable states are those of concurrent workers. Notifications
  and log output are left out, as are the read-only views that \<open>Snapshot_Reader\<close> models.
\<close>

section \<open>Configuration\<close>

record url_scheduler_config =
  url_completion :: completion_config
  url_dispatch :: dispatch_config

abbreviation url_frontier :: "url_scheduler_config \<Rightarrow> frontier_config" where
  "url_frontier c \<equiv> com_frontier (url_completion c)"

abbreviation url_nrm :: "url_scheduler_config \<Rightarrow> host \<Rightarrow> host" where
  "url_nrm c \<equiv> fro_nrm (url_frontier c)"

definition url_set_suppression :: "(string \<Rightarrow> real option) option \<Rightarrow> url_scheduler_config \<Rightarrow> url_scheduler_config" where
  "url_set_suppression reader c =
     c\<lparr>url_dispatch := (url_dispatch c)\<lparr>dis_waits := set_host_suppression_reader reader (dis_waits (url_dispatch c))\<rparr>\<rparr>"

section \<open>Operations\<close>

definition is_closed :: "scheduler \<Rightarrow> bool" where
  "is_closed s = run_closed (sch_runtime s)"

definition url_enqueue ::
  "url_scheduler_config \<Rightarrow> instant \<Rightarrow> string \<Rightarrow> crawl_task \<Rightarrow> scheduler \<Rightarrow> schedule_decision result \<times> scheduler" where
  "url_enqueue c now raw_id task s =
    (let s = s\<lparr>sch_advice := snd (advice_prune (monotonic_time now) (sch_advice s))\<rparr> in
     case enqueue_locked (url_frontier c) now raw_id task s of
       (Inl e, s) \<Rightarrow> (Inl e, s)
     | (Inr (decision, scheduled_task, sequence), s) \<Rightarrow>
        if \<not> dec_accepted decision then (Inr decision, s)
        else if scheduled_task = None \<or> sequence = None
        then (Inl (CrawlerRuntimeError ''accepted schedule decision without scheduled task''), s)
        else (Inr decision, s))"

definition url_enqueue_many ::
  "url_scheduler_config \<Rightarrow> instant \<Rightarrow> (string \<times> crawl_task) list \<Rightarrow> scheduler \<Rightarrow> schedule_decision list result \<times> scheduler" where
  "url_enqueue_many c now tasks s = enqueue_many_locked (url_frontier c) now tasks s"

definition already_seen_for_discovery :: "instant \<Rightarrow> string \<Rightarrow> scheduler \<Rightarrow> bool \<times> scheduler" where
  "already_seen_for_discovery now identity_key s =
    (case is_seen (wall_time now) identity_key (sch_seen s) of (b, r) \<Rightarrow> (b, s\<lparr>sch_seen := r\<rparr>))"

definition register_host_rules_advice ::
  "url_scheduler_config \<Rightarrow> instant \<Rightarrow> string \<Rightarrow> host_advice \<Rightarrow> scheduler \<Rightarrow> unit result \<times> scheduler" where
  "register_host_rules_advice c now url advice s =
    (let canonical_host = canonical_host_from_url (url_frontier c) url in
     if canonical_host = None then (Inr (), s)
     else (case advice_remember (url_nrm c) (monotonic_time now) canonical_host advice (sch_advice s) of
       (r, t) \<Rightarrow> (r, s\<lparr>sch_advice := t\<rparr>)))"

definition register_final_url ::
  "url_scheduler_config \<Rightarrow> instant \<Rightarrow> crawl_task option \<Rightarrow> string \<Rightarrow> string \<Rightarrow> scheduler \<Rightarrow> scheduler" where
  "register_final_url c now task requested_url final_url s =
    (case task of None \<Rightarrow> s
     | Some t \<Rightarrow>
        (let normalized_requested = or_else (fro_normalize (url_frontier c) requested_url) [];
             normalized_final = or_else (fro_normalize (url_frontier c) final_url) []
         in if normalized_requested = [] \<or> normalized_final = [] then s
            else if normalized_requested = normalized_final then s
            else s\<lparr>sch_seen := remember_equivalent_urls (wall_time now)
              [scheduler_task_identity_key_for_url t normalized_requested,
               scheduler_task_identity_key_for_url t normalized_final] (sch_seen s)\<rparr>))"

definition is_idle_locked :: "scheduler \<Rightarrow> bool" where
  "is_idle_locked s \<longleftrightarrow> queue_size (sch_queue s) = 0 \<and> delayed_size (sch_delayed s) = 0 \<and> total_tracked_count (sch_registry s) = 0"

definition close_scheduler :: "bool \<Rightarrow> bool \<Rightarrow> scheduler \<Rightarrow> scheduler" where
  "close_scheduler abort discard_pending s =
    (let s = s\<lparr>sch_runtime := (sch_runtime s)\<lparr>run_closed := True\<rparr>\<rparr>;
         s = (if abort \<or> discard_pending
              then s\<lparr>sch_queue := clear_queue (sch_queue s), sch_delayed := delayed_clear (sch_delayed s),
                sch_eligibility := elig_clear (sch_eligibility s)\<rparr>
              else s)
     in if abort then s\<lparr>sch_registry := clear_registry (sch_registry s)\<rparr> else s)"

text \<open>One round of the loop of \<open>get\<close>, without interleaving: a task, another round at once, a sleep,
  or waiting for a notification.\<close>

datatype get_round = Got_Task crawl_task | Next_Round | Sleep_For real | Wait_For_Notification

definition get_once :: "url_scheduler_config \<Rightarrow> instant \<Rightarrow> scheduler \<Rightarrow> get_round result \<times> scheduler" where
  "get_once c now s =
    (case pick_host_or_delay_locked (url_dispatch c) now s of
       (Inl e, s) \<Rightarrow> (Inl e, s)
     | (Inr (host, poll_delay), s) \<Rightarrow>
        if host = None \<and> poll_delay = None then (Inr Wait_For_Notification, s)
        else if host \<noteq> None
        then (case dispatch_for_host (url_dispatch c) now
              (Inr (governance_wait_seconds (dis_waits (url_dispatch c)) host)) host s of
            (Inl e, s) \<Rightarrow> (Inl e, s)
          | (Inr None, s) \<Rightarrow> (Inr Next_Round, s)
          | (Inr (Some task), s) \<Rightarrow> (Inr (Got_Task task), s))
        else (Inr (Sleep_For (or_else poll_delay 0)), s))"

text \<open>\<open>complete\<close> without interleaving; the write of a dead letter succeeds or fails.\<close>

definition url_complete ::
  "url_scheduler_config \<Rightarrow> instant \<Rightarrow> bool \<Rightarrow> crawl_task \<Rightarrow> string \<Rightarrow> py_dict option \<Rightarrow> scheduler \<Rightarrow> scheduler" where
  "url_complete c now write_succeeds task outcome flds s =
    (case complete_locked (url_completion c) now task outcome flds s of
       (Inr (Completion_Pending rec disp letter), s) \<Rightarrow>
         if write_succeeds then snd (finalize_dead_letter (url_frontier c) now rec outcome flds disp s)
         else requeue_after_dead_letter_write_failure (url_frontier c) (rec_task rec) s
     | (_, s) \<Rightarrow> s)"

section \<open>Steps\<close>

text \<open>
  What a checkpoint must satisfy for its counters to be consistent after a restore; an exported
  payload does. The keys of a dictionary are distinct.
\<close>

definition payload_consistent :: "py_dict \<Rightarrow> bool" where
  "payload_consistent payload \<longleftrightarrow>
     (\<forall>p. py_get payload ''retry_budget'' = PyDict p \<longrightarrow> distinct (map fst p)) \<and>
     (\<forall>m progress p. py_get payload ''progress_counters'' = PyDict m \<longrightarrow> parse_progress m = Inr progress \<longrightarrow>
       progress_inv (apply_progress progress p))"

inductive scheduler_step :: "url_scheduler_config \<Rightarrow> scheduler \<Rightarrow> scheduler \<Rightarrow> bool" for c where
  step_enqueue: "task_ok task \<Longrightarrow> url_enqueue c now raw_id task s = (r, s') \<Longrightarrow> scheduler_step c s s'"
| step_enqueue_many: "\<forall>(i, t)\<in>set tasks. task_ok t \<Longrightarrow> url_enqueue_many c now tasks s = (rs, s') \<Longrightarrow> scheduler_step c s s'"
| step_seen: "already_seen_for_discovery now key s = (b, s') \<Longrightarrow> scheduler_step c s s'"
| step_advice: "register_host_rules_advice c now url advice s = (u, s') \<Longrightarrow> scheduler_step c s s'"
| step_final_url: "register_final_url c now t requested final s = s' \<Longrightarrow> scheduler_step c s s'"
| step_pick: "pick_host_or_delay_locked (url_dispatch c) now s = (p, s') \<Longrightarrow> scheduler_step c s s'"
| step_dispatch: "url_nrm c h = h \<Longrightarrow> dispatch_for_host (url_dispatch c) now wait h s = (d, s') \<Longrightarrow> scheduler_step c s s'"
| step_complete: "complete_locked (url_completion c) now task outcome flds s = (st, s') \<Longrightarrow> scheduler_step c s s'"
| step_letter_written: "finalize_dead_letter (url_frontier c) now rec outcome flds disp s = (counts, s') \<Longrightarrow> scheduler_step c s s'"
| step_letter_failed: "requeue_after_dead_letter_write_failure (url_frontier c) task s = s' \<Longrightarrow> scheduler_step c s s'"
| step_close: "close_scheduler abort discard_pending s = s' \<Longrightarrow> scheduler_step c s s'"
| step_export: "export_scheduler max_queued include_seen now s = (payload, s') \<Longrightarrow> scheduler_step c s s'"
| step_restore: "payload_consistent payload \<Longrightarrow>
    restore_scheduler (url_frontier c) now raw_id payload clear_existing s = (n, s') \<Longrightarrow> scheduler_step c s s'"

definition config_ok :: "url_scheduler_config \<Rightarrow> bool" where
  "config_ok c \<longleftrightarrow> host_canonical (url_nrm c) \<and> dis_normalizer (url_dispatch c) = url_nrm c"


section \<open>Lemmas\<close>

subsection \<open>In-flight limits\<close>

lemma inflight_items:
  assumes "atr_inv nrm r"
  shows "get_default (inflight_count_by_host r) (Some k) 0 = int (size (filter_mset (\<lambda>x. fst x = Some k) (record_items (active_records r))))"
proof -
  have "filter_mset (\<lambda>x. fst x = Some k) (record_items (active_records r)) =
      image_mset record_item (filter_mset (\<lambda>rec. rec_host rec = Some k) (mset (active_values r)))"
    by (simp add: record_items_def active_values_def filter_mset_image_mset record_item_def multiset.map_comp comp_def)
  then have "size (filter_mset (\<lambda>x. fst x = Some k) (record_items (active_records r))) =
      length (filter (\<lambda>rec. rec_host rec = Some k) (active_values r))"
    by (metis mset_filter size_image_mset size_mset)
  then show ?thesis using inflight_count_eq [OF assms] by simp
qed

definition active_shrinks :: "scheduler \<Rightarrow> scheduler \<Rightarrow> bool" where
  "active_shrinks s s' \<longleftrightarrow> record_items (active_records (sch_registry s')) \<subseteq># record_items (active_records (sch_registry s))"

lemma active_same: "active_records (sch_registry s') = active_records (sch_registry s) \<Longrightarrow> active_shrinks s s'"
  by (simp add: active_shrinks_def)

lemma cap_shrinks:
  assumes "scheduler_inv nrm s" and "scheduler_inv nrm s'" and "active_shrinks s s'" and "cap_respected cfg s"
  shows "cap_respected cfg s'"
proof -
  have "get_default (inflight_count_by_host (sch_registry s')) (Some k) 0 \<le> get_default (inflight_count_by_host (sch_registry s)) (Some k) 0"
    for k
    using size_mset_mono [OF multiset_filter_mono [OF assms(3) [unfolded active_shrinks_def], of "\<lambda>x. fst x = Some k"]]
    by (simp add: inflight_items [OF inv_parts(4) [OF assms(1)]] inflight_items [OF inv_parts(4) [OF assms(2)]])
  with assms(4) show ?thesis
    unfolding cap_respected_def by (meson order_trans)
qed

subsection \<open>Orderly steps\<close>

text \<open>A step that starts no task: it keeps the invariant and the active tasks, and once the scheduler
  is closed it stays closed and tracks nothing new.\<close>

definition orderly :: "(host \<Rightarrow> host) \<Rightarrow> scheduler \<Rightarrow> scheduler \<Rightarrow> bool" where
  "orderly nrm s s' \<longleftrightarrow> scheduler_inv nrm s' \<and> active_shrinks s s' \<and>
     (run_closed (sch_runtime s) \<longrightarrow> run_closed (sch_runtime s') \<and> tracked s' \<subseteq># tracked s)"

lemma orderlyI:
  assumes "scheduler_inv nrm s'" and "active_records (sch_registry s') = active_records (sch_registry s)"
    and "run_closed (sch_runtime s') = run_closed (sch_runtime s)" and "run_closed (sch_runtime s) \<Longrightarrow> tracked s' \<subseteq># tracked s"
  shows "orderly nrm s s'"
  using assms by (simp add: orderly_def active_same)

lemma orderly_trans: "orderly nrm s s1 \<Longrightarrow> orderly nrm s1 s2 \<Longrightarrow> orderly nrm s s2"
  unfolding orderly_def active_shrinks_def by (meson subset_mset.order_trans)

text \<open>The parts a step may change without touching the work.\<close>

lemma side_change:
  assumes "scheduler_inv nrm s" and "s' = s\<lparr>sch_advice := a\<rparr> \<or> (s' = s\<lparr>sch_seen := r\<rparr> \<and> sur_inv r) \<or>
    (s' = s\<lparr>sch_eligibility := e\<rparr> \<and> heq_inv e)"
  shows "orderly nrm s s' \<and> tracked s' = tracked s"
proof -
  have same: "tracked s' = tracked s" "sch_runtime s' = sch_runtime s" "sch_registry s' = sch_registry s" "components_ok nrm s'"
    using assms by (auto simp: tracked_def components_ok_def scheduler_inv_def)
  then have "scheduler_inv nrm s'"
    using scheduler_inv_moved [OF assms(1)] by simp
  with same show ?thesis by (auto intro!: orderlyI)
qed

lemma closed_rejects:
  assumes "run_closed (sch_runtime s)" and "enqueue_locked cfg now raw_id task s = (Inr (d, tk, n), s')"
  shows "\<not> dec_accepted d"
proof -
  have no: "\<not> dec_accepted d" if "enqueue_canonical cfg now t s = (Inr (d, tk, n), s')" for t
  proof -
    let ?eval = "admit_evaluate (live_env cfg s) (wall_time now)
      (enqueue_context cfg now t (canonical_host_from_url cfg (task_url t)) s) None True (sch_seen s)"
    have "\<not> (\<exists>d. fst ?eval = Inr d \<and> dec_accepted d)"
      unfolding admit_accepted_iff using assms(1) by (simp add: enqueue_context_def prerequisites_met_def)
    then show ?thesis
      using that by (auto simp: enqueue_canonical_def evaluate_enqueue_decision_def reject_enqueue_def Let_def
          split: sum.splits prod.splits)
  qed
  show ?thesis
    using assms(2) no by (auto simp: enqueue_locked_def reject_enqueue_def reject_decision_def split: sum.splits list.splits)
qed

lemma enqueue_orderly:
  assumes "host_canonical (fro_nrm cfg)" and "scheduler_inv (fro_nrm cfg) s" and "task_ok task"
    and "enqueue_locked cfg now raw_id task s = (res, s')"
  shows "orderly (fro_nrm cfg) s s'"
proof -
  consider "s' = s" | d tk n where "res = Inr (d, tk, n)" "scheduler_inv (fro_nrm cfg) s'" "enqueue_result_ok cfg now task s (d, tk, n) s'"
    using enqueue_locked_effect [OF assms] by (metis prod_cases3)
  then show ?thesis
  proof cases
    case 1
    then show ?thesis using assms(2) by (auto intro!: orderlyI)
  next
    case 2
    show ?thesis
    proof (cases "dec_accepted d")
      case True
      moreover have "\<not> run_closed (sch_runtime s)"
        using closed_rejects [of s cfg now raw_id task d tk n s'] assms(4) 2(1) True by auto
      ultimately show ?thesis
        using 2 by (auto simp: enqueue_result_ok_def accepted_effect_def intro!: orderlyI)
    next
      case False
      then have "same_work s s'" using 2(3) by (simp add: enqueue_result_ok_def rejected_effect_def)
      then show ?thesis
        using 2(2) same_work_tracked [of s s'] by (auto simp: same_work_def intro!: orderlyI)
    qed
  qed
qed

lemma enqueue_many_orderly:
  assumes "host_canonical (fro_nrm cfg)" and "scheduler_inv (fro_nrm cfg) s" and "\<forall>(i, t)\<in>set tasks. task_ok t"
    and "enqueue_many_locked cfg now tasks s = (res, s')"
  shows "orderly (fro_nrm cfg) s s'"
  using assms(2-)
proof (induction tasks arbitrary: s res)
  case Nil
  then show ?case by (auto intro!: orderlyI)
next
  case (Cons x tasks)
  obtain i t where x: "x = (i, t)" by fastforce
  obtain r s1 where one: "enqueue_locked cfg now i t s = (r, s1)" by fastforce
  have t: "task_ok t" using Cons.prems(2) x by simp
  note first = enqueue_orderly [OF assms(1) Cons.prems(1) t one]
  show ?case
  proof (cases r)
    case (Inl e)
    then show ?thesis using Cons.prems(3) x one first by simp
  next
    case (Inr out)
    obtain d tk n where out: "out = (d, tk, n)" by (metis prod_cases3)
    obtain r2 s2 where "enqueue_many_locked cfg now tasks s1 = (r2, s2)" by fastforce
    then show ?thesis
      using Cons.IH [of s1 r2] Cons.prems first one x Inr out orderly_trans [OF first] by (auto simp: orderly_def)
  qed
qed

lemma complete_orderly:
  assumes "host_canonical (fro_nrm (com_frontier com))" and "scheduler_inv (fro_nrm (com_frontier com)) s"
    and "complete_locked com now task outcome flds s = (res, s')"
  shows "orderly (fro_nrm (com_frontier com)) s s' \<and> tracked s' \<subseteq># tracked s \<and> sch_runtime s' = sch_runtime s \<and>
    active_records (sch_registry s') = AList.delete (scheduler_task_identity_key task) (active_records (sch_registry s))"
proof -
  let ?nrm = "fro_nrm (com_frontier com)"
  obtain step where step: "scheduler_inv ?nrm s'" "completion_effect com now task outcome s step s'"
    using complete_locked_effect [OF assms] by blast
  show ?thesis
  proof (cases "remove_active ?nrm task (sch_registry s)")
    case (Pair r registry)
    consider "s' = s" "map_of (active_records (sch_registry s)) (scheduler_task_identity_key task) = None" | rec where "r = Inr (Some rec)"
      using step remove_active_inv [OF inv_parts(4) [OF assms(2)], of task] Pair
      by (cases "map_of (active_records (sch_registry s)) (scheduler_task_identity_key task)"; cases step)
        (auto simp: completion_effect_def Let_def)
    then show ?thesis
    proof cases
      case 1
      then have "AList.delete (scheduler_task_identity_key task) (active_records (sch_registry s)) = active_records (sch_registry s)"
        by (intro delete_id) (simp add: map_of_eq_None_iff dom_map_of_conv_image_fst)
      with 1 show ?thesis using assms(2) by (auto intro!: orderlyI)
    next
      case (2 rec)
      note rm = Pair [unfolded 2]
      note removed = remove_active_items [OF inv_parts(4) [OF assms(2)] rm]
      obtain disp st s1 s2 where
        s1: "s1 = s\<lparr>sch_registry := registry, sch_eligibility := release_blocked (rec_host rec) (sch_eligibility s)\<rparr>"
        and c1: "components_ok ?nrm s1" and d: "decided ?nrm rec outcome s1 disp s2"
        and settle: "settle_disposition com now rec outcome flds disp s2 = (st, s')"
        using complete_active [OF assms rm] by blast
      have reg: "sch_registry s2 = registry" "components_ok ?nrm s2" "sch_runtime s2 = sch_runtime s"
        using d s1 by (simp_all add: decided_def)
      have host: "?nrm (rec_host rec) = rec_host rec" using removed by blast
      have active: "active_records (sch_registry s') = active_records registry" "sch_runtime s' = sch_runtime s"
        using settle_effect [OF reg(2) host settle] reg
        by (cases st; simp add: finalized_def stage_dead_letter_def)+
      have deleted: "active_records registry = AList.delete (scheduler_task_identity_key task) (active_records (sch_registry s))"
        using removed by blast
      then have "active_shrinks s s'"
        using record_items_delete_le active(1) by (simp add: active_shrinks_def)
      moreover have "tracked s' \<subseteq># tracked s"
        using step(2) by (cases step)
          (auto simp: completion_effect_def Let_def split: if_splits intro: mset_subset_eq_add_right, metis mset_subset_eq_add_right add_mset_add_single mset_subset_eq_add_left)
      ultimately show ?thesis using step(1) active deleted by (simp add: orderly_def)
    qed
  qed
qed

lemma letter_written_orderly:
  assumes "scheduler_inv (fro_nrm cfg) s" and "finalize_dead_letter cfg now rec outcome flds disp s = (counts, s')"
  shows "orderly (fro_nrm cfg) s s'"
proof -
  have "sch_runtime s' = sch_runtime s" "active_records (sch_registry s') = active_records (sch_registry s)"
    using assms(2) by (auto simp: finalize_dead_letter_def finalize_completion_locked_def remove_dead_letter_pending_def Let_def
        split: option.splits)
  moreover have "tracked s' \<subseteq># tracked s" "scheduler_inv (fro_nrm cfg) s'"
    using dead_letter_success [OF assms] by (auto split: option.splits)
  ultimately show ?thesis by (auto intro!: orderlyI)
qed

lemma letter_failed_orderly:
  assumes "host_canonical (fro_nrm cfg)" and "scheduler_inv (fro_nrm cfg) s"
  shows "orderly (fro_nrm cfg) s (requeue_after_dead_letter_write_failure cfg task s)"
  using dead_letter_failure [OF assms, of task]
  by (auto simp: requeue_after_dead_letter_write_failure_def remove_dead_letter_pending_def requeue_ready_def Let_def
      split: option.splits intro!: orderlyI)

lemma close_orderly:
  assumes "scheduler_inv nrm s"
  shows "orderly nrm s (close_scheduler abort discard_pending s) \<and> run_closed (sch_runtime (close_scheduler abort discard_pending s)) \<and>
    next_sequence_value (sch_runtime (close_scheduler abort discard_pending s)) = next_sequence_value (sch_runtime s) \<and>
    tracked (close_scheduler abort discard_pending s) = (if abort then {#} else if discard_pending then registry_items (sch_registry s)
      else tracked s)"
proof -
  let ?s = "close_scheduler abort discard_pending s"
  have c: "components_ok nrm ?s"
    using assms by (simp add: empty_queue_inv empty_delayed_inv empty_registry_inv elig_clear_inv close_scheduler_def scheduler_inv_def components_ok_def clear_queue_eq delayed_clear_eq clear_registry_eq Let_def)
  have t: "tracked ?s = (if abort then {#} else if discard_pending then registry_items (sch_registry s) else tracked s)"
    by (simp add: close_scheduler_def tracked_def Let_def clear_queue_eq delayed_clear_eq clear_registry_eq queued_items_def htq_abs_def
        empty_queue_def delayed_items_def empty_delayed_def registry_items_def record_items_def empty_registry_def)
  then have sub: "tracked ?s \<subseteq># tracked s" by (simp add: tracked_def)
  have run: "run_closed (sch_runtime ?s)" "next_sequence_value (sch_runtime ?s) = next_sequence_value (sch_runtime s)"
    by (simp_all add: close_scheduler_def Let_def)
  have "scheduler_inv nrm ?s"
    using sequences_ok_subset [OF _ sub] c assms run by (simp add: scheduler_inv_def)
  moreover have "active_shrinks s ?s"
    by (simp add: active_shrinks_def close_scheduler_def clear_registry_eq empty_registry_def record_items_def Let_def)
  ultimately show ?thesis using sub run t by (simp add: orderly_def)
qed

text \<open>A closed scheduler admits nothing, so a plan for it is empty.\<close>

lemma scan_list_closed:
  "run_closed (sch_runtime s) \<Longrightarrow> scan_list cfg now s c raw_id key source raw_items scan = Inr scan' \<Longrightarrow> raw_items = [] \<and> scan' = scan"
proof (cases raw_items)
  case (Cons raw_item rest)
  assume closed: "run_closed (sch_runtime s)" and run: "scan_list cfg now s c raw_id key source raw_items scan = Inr scan'"
  then obtain scan1 where "scan_item cfg now s c raw_id key source raw_item scan = Inr scan1"
    using Cons by auto
  from scan_item_parts [OF this] obtain e prepared where
    "prepare_restored_envelope cfg now s e (scan_queue_size scan) (scan_ready_pending scan) (scan_kind_pending scan)
      (scan_admission_keys scan) (\<not> c) = Inr (Some prepared)" by blast
  from prepared_effect [OF this] closed show ?thesis by (simp add: prerequisites_met_def)
qed simp

lemma scan_sources_closed:
  "run_closed (sch_runtime s) \<Longrightarrow> scan_sources cfg now s c raw_id payload sources scan = Inr scan' \<Longrightarrow> scan' = scan"
proof (induction sources arbitrary: scan)
  case (Cons x sources)
  obtain key source where x: "x = (key, source)" by (cases x)
  obtain raw_items scan1 where "scan_list cfg now s c raw_id key source raw_items scan = Inr scan1"
    "scan_sources cfg now s c raw_id payload sources scan1 = Inr scan'"
    using Cons.prems(2) by (auto simp: x split: pyval.splits)
  then show ?case using scan_list_closed [OF Cons.prems(1)] Cons.IH Cons.prems(1) by blast
qed simp

lemma plan_closed:
  assumes "run_closed (sch_runtime s)" and "parse_restore_plan cfg now s raw_id payload c summary = Inr plan"
  shows "plan_items plan = []"
proof -
  obtain m where "py_get payload ''progress_counters'' = PyDict m"
    using assms(2) by (cases "py_get payload ''progress_counters''") (simp_all add: parse_restore_plan_def split: if_splits)
  then obtain scan where "scan_sources cfg now s c raw_id payload restore_sources (initial_scan c summary) = Inr scan"
    "plan_items plan = scan_items scan"
    using assms(2) unfolding parse_restore_plan_def Let_def by (auto split: if_splits)
  then show ?thesis using scan_sources_closed [OF assms(1)] by (metis initial_scan_def restore_scan.select_convs(1))
qed

lemma plan_progress_parsed:
  assumes "parse_restore_plan cfg now s raw_id payload c summary = Inr plan" and "plan_progress plan = Some progress"
  shows "\<exists>m. py_get payload ''progress_counters'' = PyDict m \<and> parse_progress m = Inr progress"
proof -
  obtain m where "py_get payload ''progress_counters'' = PyDict m"
    using assms(1) by (cases "py_get payload ''progress_counters''") (simp_all add: parse_restore_plan_def split: if_splits)
  then show ?thesis
    using assms unfolding parse_restore_plan_def Let_def by (auto split: if_splits)
qed

lemma restore_orderly:
  assumes "host_canonical (fro_nrm cfg)" and "scheduler_inv (fro_nrm cfg) s" and "payload_consistent payload"
    and "restore_scheduler cfg now raw_id payload clear_existing s = (r, s')"
  shows "orderly (fro_nrm cfg) s s'"
proof -
  define s1 where "s1 = s\<lparr>sch_eligibility := elig_clear (sch_eligibility s)\<rparr>"
  have keys: "\<And>p. py_get payload ''retry_budget'' = PyDict p \<Longrightarrow> distinct (map fst p)"
    using assms(3) by (simp add: payload_consistent_def)
  have work: "work_inv (fro_nrm cfg) s" "progress_inv (sch_progress s)"
    using assms(2) by (simp_all add: scheduler_inv_work)
  show ?thesis
  proof (rule disjE [OF restore_effect [OF assms(1) work(1) _ assms(4), folded s1_def]])
    fix p assume "py_get payload ''retry_budget'' = PyDict p"
    then show "distinct (map fst p)" by (rule keys)
  next
    assume "\<exists>e. r = Inl e \<and> s' = s1"
    then show ?thesis
      using side_change [OF assms(2), of s'] elig_clear_inv by (auto simp: s1_def)
  next
    assume "\<exists>items plan. r = Inr (int (length items)) \<and> restored cfg clear_existing s items s' \<and> items = plan_items plan \<and>
      next_sequence_value (sch_runtime s') = plan_next_sequence plan \<and>
      (\<forall>progress. plan_progress plan = Some progress \<longrightarrow> sch_progress s' = apply_progress progress (sch_progress s)) \<and>
      (plan_progress plan = None \<longrightarrow> sch_progress s' = sch_progress s) \<and>
      (\<exists>p. py_get payload ''retry_budget'' = PyDict p \<and> parse_retry_state p = Inr (sch_retry s')) \<and>
      sch_registry s' = (if clear_existing then empty_registry else sch_registry s) \<and>
      parse_restore_plan cfg now s1 raw_id payload clear_existing (summarize s1) = Inr plan"
    then obtain items plan where res: "restored cfg clear_existing s items s'" "items = plan_items plan"
      and reg: "sch_registry s' = (if clear_existing then empty_registry else sch_registry s)"
      and counters: "\<forall>progress. plan_progress plan = Some progress \<longrightarrow> sch_progress s' = apply_progress progress (sch_progress s)"
        "plan_progress plan = None \<longrightarrow> sch_progress s' = sch_progress s"
      and plan: "parse_restore_plan cfg now s1 raw_id payload clear_existing (summarize s1) = Inr plan"
      by (elim exE conjE) (rule that; assumption)
    have "progress_inv (sch_progress s')"
    proof (cases "plan_progress plan")
      case None
      then show ?thesis using counters work by simp
    next
      case (Some progress)
      then show ?thesis
        using plan_progress_parsed [OF plan Some] counters assms(3) by (auto simp: payload_consistent_def)
    qed
    then have "scheduler_inv (fro_nrm cfg) s'"
      using res by (simp add: scheduler_inv_work restored_def)
    moreover have "active_shrinks s s'"
      by (simp add: active_shrinks_def reg empty_registry_def record_items_def)
    moreover have "tracked s' \<subseteq># tracked s" if "run_closed (sch_runtime s)"
      using plan_closed [OF _ plan] that res by (simp add: restored_def s1_def)
    ultimately show ?thesis
      using res by (simp add: orderly_def restored_def)
  qed
qed

lemma exported_payload_consistent:
  assumes "scheduler_inv nrm s" and "export_scheduler max_queued include_seen now s = (payload, s')"
  shows "payload_consistent payload"
proof -
  have inv: "progress_inv (sch_progress s)" "budget_ok (sch_retry s)" by (rule inv_parts [OF assms(1)])+
  have "progress_inv (apply_progress progress p)" if "parse_progress (export_progress (sch_progress s)) = Inr progress" for progress p
    using that by (intro apply_export_inv [OF inv(1), of p]) (simp add: restore_progress_def)
  moreover have "distinct (map fst (export_retry_state (sch_retry s)))"
    using inv(2) by (simp add: budget_ok_def export_retry_state_def comp_def split_def)
  ultimately show ?thesis
    using export_fields(6,7) [OF assms(2)] unfolding payload_consistent_def by simp
qed

lemma pick_orderly:
  assumes "host_canonical (dis_normalizer cfg)" and "scheduler_inv (dis_normalizer cfg) s"
    and "pick_host_or_delay_locked cfg now s = (r, s')"
  shows "orderly (dis_normalizer cfg) s s' \<and> tracked s' \<subseteq># tracked s"
proof -
  note eff = pick_effect [OF assms]
  have "tracked s' = filter_mset (\<lambda>x. \<not> long_suppressed cfg x) (queued_items (sch_queue s) + delayed_items (sch_delayed s)) +
      registry_items (sch_registry s)"
    using eff by blast
  then have "tracked s' \<subseteq># tracked s"
    unfolding tracked_def [of s] by (simp only: subset_mset.add_right_mono [OF multiset_filter_subset])
  moreover have "sch_runtime s' = sch_runtime s"
  proof -
    obtain u s1 where ref: "refresh_queues cfg (monotonic_time now) s = (u, s1)" by fastforce
    have "sch_runtime s' = sch_runtime s1"
      using assms(3) ref by (auto simp: pick_host_or_delay_locked_def Let_def split: sum.splits prod.splits if_splits)
    then show ?thesis using refresh_effect [OF assms(1,2) ref] by simp
  qed
  ultimately show ?thesis using eff by (auto intro!: orderlyI)
qed

subsection \<open>Dispatching\<close>

lemma dispatch_keeps:
  assumes "host_canonical (dis_normalizer cfg)" and "scheduler_inv (dis_normalizer cfg) s" and "dis_normalizer cfg h = h"
    and "cap_respected cfg s" and "dispatch_for_host cfg now wait h s = (res, s')"
  shows "scheduler_inv (dis_normalizer cfg) s' \<and> cap_respected cfg s' \<and> tracked s' \<subseteq># tracked s \<and> sch_runtime s' = sch_runtime s"
proof -
  let ?good = "\<lambda>s'. scheduler_inv (dis_normalizer cfg) s' \<and> cap_respected cfg s' \<and> tracked s' \<subseteq># tracked s \<and> sch_runtime s' = sch_runtime s"
  have locked: "?good s1" if "dispatch_host_locked cfg now w h s = (res1, s1)" for w res1 s1
    using dispatch_effect [OF assms(1-4) that] by blast
  have requeue: "?good (requeue_dispatching_item cfg h s1)" if "?good s1" for s1
  proof -
    note eff = requeue_dispatching_effect [OF assms(1) conjunct1 [OF that], of h]
    have "sch_runtime (requeue_dispatching_item cfg h s1) = sch_runtime s1"
      by (simp add: requeue_dispatching_item_def requeue_ready_def split: option.split)
    then show ?thesis
      using eff that cap_shrinks [OF conjunct1 [OF that] conjunct1 [OF eff] active_same, of cfg] by simp
  qed
  show ?thesis
    using assms(2,4,5) locked requeue
    by (auto simp: dispatch_for_host_def split: sum.splits prod.splits if_splits)
qed

lemma export_orderly:
  assumes "scheduler_inv nrm s" and "export_scheduler max_queued include_seen now s = (payload, s')"
  shows "orderly nrm s s'"
proof -
  define s1 where "s1 = s\<lparr>sch_advice := snd (advice_prune (monotonic_time now) (sch_advice s))\<rparr>"
  have "sch_seen s1 = sch_seen s" by (simp add: s1_def)
  then have s': "s' = s1 \<or> s' = s1\<lparr>sch_seen := purge_expired (wall_time now) (sch_seen s1)\<rparr>"
    using assms(2) unfolding s1_def
    by (auto simp: export_scheduler_def export_scheduler_state_def export_entries_def Let_def split: if_splits)
  have side: "orderly nrm s s1" using side_change [OF assms(1), of s1] by (auto simp: s1_def)
  then have inv: "scheduler_inv nrm s1" by (simp add: orderly_def)
  from s' show ?thesis
    using side orderly_trans [OF side] side_change [OF inv, of s'] purge_inv [OF inv_parts(5) [OF inv]] by blast
qed

section \<open>Runs\<close>

text \<open>What every step keeps holds of every state of a run.\<close>

locale preserved =
  fixes step :: "'s \<Rightarrow> 's \<Rightarrow> bool"
    and inv :: "'s \<Rightarrow> bool"
  assumes step_keeps: "inv s \<Longrightarrow> step s s' \<Longrightarrow> inv s'"
begin

lemma run_keeps: "step\<^sup>*\<^sup>* s s' \<Longrightarrow> inv s \<Longrightarrow> inv s'"
  by (induction rule: rtranclp_induct) (auto intro: step_keeps)

end

text \<open>A scheduler whose collaborators fit together.\<close>

locale configured =
  fixes c :: url_scheduler_config
  assumes configured: "config_ok c"
begin

lemma canonical: "host_canonical (url_nrm c)" "dis_normalizer (url_dispatch c) = url_nrm c"
  using configured by (simp_all add: config_ok_def)

lemma step_safe:
  assumes "scheduler_inv (url_nrm c) s" and "cap_respected (url_dispatch c) s" and "scheduler_step c s s'"
  shows "scheduler_inv (url_nrm c) s' \<and> cap_respected (url_dispatch c) s' \<and>
    (run_closed (sch_runtime s) \<longrightarrow> run_closed (sch_runtime s') \<and> tracked s' \<subseteq># tracked s)"
proof -
  have quiet: ?thesis if "orderly (url_nrm c) s s'"
    using that cap_shrinks [OF assms(1)] assms(2) by (simp add: orderly_def)
  have parts: "heq_inv (sch_eligibility s)" "sur_inv (sch_seen s)"
    by (rule inv_parts [OF assms(1)])+
  show ?thesis
    using assms(3)
  proof cases
    case (step_enqueue task now raw_id r)
    let ?s = "s\<lparr>sch_advice := snd (advice_prune (monotonic_time now) (sch_advice s))\<rparr>"
    obtain res s1 where run: "enqueue_locked (url_frontier c) now raw_id task ?s = (res, s1)" by fastforce
    then have "s' = s1"
      using step_enqueue(2) by (auto simp: url_enqueue_def Let_def split: sum.splits if_splits)
    moreover have side: "orderly (url_nrm c) s ?s" using side_change [OF assms(1), of ?s] by blast
    moreover have "orderly (url_nrm c) ?s s1"
      using enqueue_orderly [OF canonical(1) _ step_enqueue(1) run] side by (simp add: orderly_def)
    ultimately show ?thesis using quiet orderly_trans by blast
  next
    case (step_enqueue_many tasks now rs)
    then show ?thesis
      using quiet enqueue_many_orderly [OF canonical(1) assms(1)] by (simp add: url_enqueue_many_def)
  next
    case (step_seen now key b)
    have "sur_inv (snd (is_seen (wall_time now) key (sch_seen s)))" using parts(2) by (simp add: is_seen_def purge_inv Let_def)
    then have "orderly (url_nrm c) s s'"
      using step_seen side_change [OF assms(1), of s'] by (auto simp: already_seen_for_discovery_def split: prod.splits)
    then show ?thesis by (rule quiet)
  next
    case (step_advice now url advice u)
    then have "s' = s \<or> (\<exists>a. s' = s\<lparr>sch_advice := a\<rparr>)"
      by (auto simp: register_host_rules_advice_def Let_def split: if_splits prod.splits)
    then have "\<exists>a. s' = s\<lparr>sch_advice := a\<rparr>"
      by (metis scheduler.surjective scheduler.update_convs(9))
    then have "orderly (url_nrm c) s s'" using side_change [OF assms(1), of s'] by blast
    then show ?thesis by (rule quiet)
  next
    case (step_final_url now t requested final)
    then have "s' = s \<or> (\<exists>keys. s' = s\<lparr>sch_seen := remember_equivalent_urls (wall_time now) keys (sch_seen s)\<rparr>)"
      by (auto simp: register_final_url_def Let_def split: option.splits if_splits)
    moreover have "sur_inv (remember_equivalent_urls (wall_time now) keys (sch_seen s))" for keys
      using parts(2) by (simp add: remember_equivalent_urls_def remember_all_inv purge_inv)
    moreover have "orderly (url_nrm c) s s" using assms(1) by (auto intro!: orderlyI)
    ultimately have "orderly (url_nrm c) s s'" using side_change [OF assms(1), of s'] by blast
    then show ?thesis by (rule quiet)
  next
    case (step_pick now p)
    then show ?thesis using quiet pick_orderly [of "url_dispatch c" s now p s'] canonical assms(1) by simp
  next
    case (step_dispatch h now wait d)
    then show ?thesis
      using dispatch_keeps [of "url_dispatch c" s h now wait d s'] canonical assms(1,2) by simp
  next
    case (step_complete now task outcome flds st)
    then show ?thesis using quiet complete_orderly [OF canonical(1) assms(1)] by blast
  next
    case (step_letter_written now rec outcome flds disp counts)
    then show ?thesis using quiet letter_written_orderly [OF assms(1)] by blast
  next
    case (step_letter_failed task)
    then show ?thesis using quiet letter_failed_orderly [OF canonical(1) assms(1)] by blast
  next
    case (step_close abort discard_pending)
    then show ?thesis using quiet close_orderly [OF assms(1)] by blast
  next
    case (step_export max_queued include_seen now payload)
    then show ?thesis using quiet export_orderly [OF assms(1)] by blast
  next
    case (step_restore payload now raw_id clear_existing n)
    then show ?thesis using quiet restore_orderly [OF canonical(1) assms(1)] by blast
  qed
qed

end

sublocale configured \<subseteq> running: preserved "scheduler_step c"
  "\<lambda>s. scheduler_inv (url_nrm c) s \<and> cap_respected (url_dispatch c) s"
  by unfold_locales (use step_safe in blast)

context configured begin

lemma safe_run:
  assumes "(scheduler_step c)\<^sup>*\<^sup>* s s'" and "scheduler_inv (url_nrm c) s" and "cap_respected (url_dispatch c) s"
  shows "scheduler_inv (url_nrm c) s' \<and> cap_respected (url_dispatch c) s'"
  using running.run_keeps [OF assms(1)] assms(2,3) by blast

text \<open>Once closed, a scheduler only loses work.\<close>

lemma closed_run:
  assumes "(scheduler_step c)\<^sup>*\<^sup>* s s'" and "scheduler_inv (url_nrm c) s" and "cap_respected (url_dispatch c) s"
    and "run_closed (sch_runtime s)"
  shows "run_closed (sch_runtime s') \<and> tracked s' \<subseteq># tracked s"
  using assms(1)
proof (induction rule: rtranclp_induct)
  case base
  then show ?case using assms(4) by simp
next
  case (step s1 s2)
  from safe_run [OF step(1) assms(2,3)] step_safe [OF _ _ step(2)] step.IH show ?case
    by (blast intro: subset_mset.order_trans)
qed

end

section \<open>Draining\<close>

context host_canonical begin

lemma queue_size_items: "htq_inv nrm q \<Longrightarrow> queue_size q = int (size (queued_items q))"
  using ready.count_law [of q] by simp

end

text \<open>An orderly scheduler is idle exactly if it tracks nothing.\<close>

lemma idle_tracked:
  assumes "host_canonical nrm" and "scheduler_inv nrm s"
  shows "is_idle_locked s \<longleftrightarrow> tracked s = {#}"
proof -
  have "queue_size (sch_queue s) = int (size (queued_items (sch_queue s)))"
    by (rule host_canonical.queue_size_items [OF assms(1) inv_parts(1) [OF assms(2)]])
  moreover have "delayed_size (sch_delayed s) = int (size (delayed_items (sch_delayed s)))"
    by (simp add: delayed_size_def delayed_items_def)
  moreover have "total_tracked_count (sch_registry s) = int (size (registry_items (sch_registry s)))"
    by (simp add: total_tracked_count_def active_count_def dispatching_count_def dead_letter_pending_count_def registry_items_def
        record_items_def)
  ultimately show ?thesis
    unfolding is_idle_locked_def tracked_def by auto
qed

text \<open>Nothing is left but active tasks.\<close>

definition only_active :: "(host \<Rightarrow> host) \<Rightarrow> scheduler \<Rightarrow> bool" where
  "only_active nrm s \<longleftrightarrow> scheduler_inv nrm s \<and> run_closed (sch_runtime s) \<and> tracked s = record_items (active_records (sch_registry s))"

lemma only_active_parts:
  assumes "only_active nrm s"
  shows "dead_letter_pending_records (sch_registry s) = []"
  using assms by (simp add: only_active_def tracked_def registry_items_def record_items_def)

lemma complete_drains:
  assumes "host_canonical (url_nrm c)" and "only_active (url_nrm c) s"
  shows "only_active (url_nrm c) (url_complete c now True task outcome flds s) \<and>
    active_records (sch_registry (url_complete c now True task outcome flds s)) =
      AList.delete (scheduler_task_identity_key task) (active_records (sch_registry s))"
proof -
  let ?k = "scheduler_task_identity_key task" and ?cfg = "url_frontier c"
  have inv: "scheduler_inv (fro_nrm ?cfg) s" and closed: "run_closed (sch_runtime s)"
    and tracked: "tracked s = record_items (active_records (sch_registry s))"
    using assms(2) by (simp_all add: only_active_def)
  obtain res s1 where run: "complete_locked (url_completion c) now task outcome flds s = (res, s1)" by fastforce
  note ord = complete_orderly [OF assms(1) inv run]
  obtain step where step: "res = Inr step" "scheduler_inv (fro_nrm ?cfg) s1" "completion_effect (url_completion c) now task outcome s step s1"
    using complete_locked_effect [OF assms(1) inv run] by blast
  have keys: "distinct (map fst (active_records (sch_registry s)))"
    using inv_parts(4) [OF inv] by (simp add: atr_inv_def keyed_def)
  define s2 where "s2 = url_complete c now True task outcome flds s"
  have out: "scheduler_inv (fro_nrm ?cfg) s2 \<and> sch_runtime s2 = sch_runtime s \<and>
      active_records (sch_registry s2) = AList.delete ?k (active_records (sch_registry s)) \<and>
      (\<forall>rec. map_of (active_records (sch_registry s)) ?k = Some rec \<longrightarrow> tracked s = add_mset (record_item rec) (tracked s2)) \<and>
      (map_of (active_records (sch_registry s)) ?k = None \<longrightarrow> tracked s2 = tracked s)"
  proof (cases step)
    case Completion_Ignored
    then show ?thesis
      using step run ord by (simp add: s2_def url_complete_def completion_effect_def Let_def orderly_def)
  next
    case (Completion_Finished rec disp counts)
    then show ?thesis
      using step run ord closed by (auto simp: s2_def url_complete_def completion_effect_def Let_def orderly_def split: if_splits)
  next
    case (Completion_Pending rec disp letter)
    obtain counts s3 where fin: "finalize_dead_letter ?cfg now rec outcome flds disp s1 = (counts, s3)" by fastforce
    have s2: "s2 = s3" using run step(1) Completion_Pending fin by (simp add: s2_def url_complete_def)
    have key: "map_of (active_records (sch_registry s)) ?k = Some rec"
      "map_of (dead_letter_pending_records (sch_registry s1)) ?k = Some rec" "tracked s1 = tracked s"
      using step(3) Completion_Pending only_active_parts [OF assms(2)] by (simp_all add: completion_effect_def Let_def)
    moreover from this have "scheduler_task_identity_key (rec_task rec) = ?k"
      using keyed_lookup [of "fro_nrm ?cfg" "active_records (sch_registry s)" ?k rec] inv_parts(4) [OF inv] by (simp add: atr_inv_def)
    moreover have "sch_runtime s3 = sch_runtime s1" "active_records (sch_registry s3) = active_records (sch_registry s1)"
      using fin by (auto simp: finalize_dead_letter_def finalize_completion_locked_def remove_dead_letter_pending_def Let_def
          split: option.splits)
    ultimately show ?thesis
      using dead_letter_success [OF step(2) fin] ord by (simp add: s2)
  qed
  then have "tracked s2 = record_items (active_records (sch_registry s2))"
    using tracked record_items_delete [OF keys] by (cases "map_of (active_records (sch_registry s)) ?k")
      (auto simp: AList.delete_id map_of_eq_None_iff)
  with out closed show ?thesis by (simp add: only_active_def s2_def)
qed

type_synonym completion_event = "instant \<times> crawl_task \<times> string \<times> py_dict option"

definition complete_all :: "url_scheduler_config \<Rightarrow> completion_event list \<Rightarrow> scheduler \<Rightarrow> scheduler" where
  "complete_all c events s = fold (\<lambda>(now, task, outcome, flds) s. url_complete c now True task outcome flds s) events s"

definition event_key :: "completion_event \<Rightarrow> string" where
  "event_key e = (case e of (now, task, outcome, flds) \<Rightarrow> scheduler_task_identity_key task)"

lemma complete_all_drains:
  assumes "host_canonical (url_nrm c)" and "only_active (url_nrm c) s"
  shows "only_active (url_nrm c) (complete_all c events s) \<and>
    fst ` set (active_records (sch_registry (complete_all c events s))) = fst ` set (active_records (sch_registry s)) - event_key ` set events"
  using assms(2)
proof (induction events arbitrary: s)
  case (Cons e events)
  obtain now task outcome flds where e: "e = (now, task, outcome, flds)" by (metis prod_cases4)
  let ?s = "url_complete c now True task outcome flds s"
  note one = complete_drains [OF assms(1) Cons.prems, of now task outcome flds]
  have "complete_all c (e # events) s = complete_all c events ?s"
    by (simp add: complete_all_def e)
  moreover have "fst ` set (active_records (sch_registry ?s)) = fst ` set (active_records (sch_registry s)) - {event_key e}"
    using one by (auto simp: e event_key_def AList.delete_eq)
  ultimately show ?case
    using Cons.IH [of ?s] one by auto
qed (simp add: complete_all_def)

lemma idle_get_closed:
  assumes "config_ok c" and "scheduler_inv (url_nrm c) s" and "tracked s = {#}" and "run_closed (sch_runtime s)"
  shows "fst (get_once c now s) = Inl SchedulerClosedError"
proof -
  have cfg: "host_canonical (dis_normalizer (url_dispatch c))" "scheduler_inv (dis_normalizer (url_dispatch c)) s"
    using assms(1,2) by (simp_all add: config_ok_def)
  obtain u s1 where ref: "refresh_queues (url_dispatch c) (monotonic_time now) s = (u, s1)" by fastforce
  note fresh = refresh_effect [OF cfg ref]
  have "queued_items (sch_queue s) + delayed_items (sch_delayed s) = {#}" "registry_items (sch_registry s) = {#}"
    using assms(3) by (simp_all add: tracked_def)
  then have "tracked s1 = {#}" using fresh by simp
  then have "queue_size (sch_queue s1) = 0"
    using host_canonical.queue_size_items [OF cfg(1) inv_parts(1) [OF conjunct1 [OF fresh]]] by (simp add: tracked_def)
  then have "fst (pick_host_or_delay_locked (url_dispatch c) now s) = Inl SchedulerClosedError"
    using ref fresh assms(4) by (auto simp: pick_host_or_delay_locked_def)
  then show ?thesis by (auto simp: get_once_def split: prod.splits)
qed

section \<open>Properties\<close>

text \<open>The scheduler is safe under concurrency. However the operations of any number of workers
  interleave, with any clock readings, any waits read before the lock was taken, any outcomes
  and any results of the dead-letter writes, every state of the run keeps the invariant of
  the scheduler (every queue, registry and counter consistent, every task tracked once, sequence
  numbers unique) and no host ever has more tasks in flight than its limit.\<close>

theorem scheduler_run_safe:
  assumes "config_ok c" and "scheduler_inv (url_nrm c) s" and "cap_respected (url_dispatch c) s"
    and "(scheduler_step c)\<^sup>*\<^sup>* s s'"
  shows "scheduler_inv (url_nrm c) s' \<and> cap_respected (url_dispatch c) s'"
  by (rule configured.safe_run [OF configured.intro [OF assms(1)] assms(4,2,3)])

definition sample_url_config :: url_scheduler_config where
  "sample_url_config = \<lparr>url_completion = sample_completion, url_dispatch = sample_dispatch\<rparr>"

lemma sample_url_ok: "config_ok sample_url_config" "url_nrm sample_url_config = lower_host"
  "url_dispatch sample_url_config = sample_dispatch"
  by (simp_all add: config_ok_def sample_url_config_def sample_completion_def sample_dispatch_def lower_host_canonical)

lemma busy_scheduler_cap: "cap_respected sample_dispatch busy_scheduler"
proof -
  have "int (size (filter_mset (\<lambda>x. fst x = Some k) (record_items (active_records (sch_registry busy_scheduler))))) \<le> 1" for k
    unfolding busy_record by (simp add: record_items_def)
  moreover have "coerce_max_inflight (dis_max_inflight sample_dispatch) = Some 1" by code_simp
  ultimately show ?thesis
    unfolding cap_respected_def inflight_items [OF inv_parts(4) [OF busy_scheduler_inv]] by simp
qed

theorem scheduler_run_safe_witness:
  "cap_respected sample_dispatch
    (snd (complete_locked sample_completion zero_instant sample_link ''timeout'' None (close_scheduler False False busy_scheduler)))"
proof -
  let ?s = "close_scheduler False False busy_scheduler"
  obtain st s' where run: "complete_locked sample_completion zero_instant sample_link ''timeout'' None ?s = (st, s')" by fastforce
  have "scheduler_step sample_url_config busy_scheduler ?s" by (rule step_close) simp
  moreover have "scheduler_step sample_url_config ?s s'"
    using step_complete [of sample_url_config zero_instant sample_link "''timeout''" None ?s st s'] run by (simp add: sample_url_config_def)
  ultimately have "(scheduler_step sample_url_config)\<^sup>*\<^sup>* busy_scheduler s'" by (meson converse_rtranclp_into_rtranclp rtranclp.rtrancl_refl)
  from scheduler_run_safe [OF sample_url_ok(1) _ _ this] busy_scheduler_inv busy_scheduler_cap run
  show ?thesis by (simp add: sample_url_ok)
qed

text \<open>C2: A closed scheduler only winds down. From a closed state, whatever is still enqueued,
  restored, dispatched or completed, the scheduler stays closed and every task it tracks
  later, with its host, priority and sequence number, was tracked when it was closed.\<close>

theorem closed_scheduler_winds_down:
  assumes "config_ok c" and "scheduler_inv (url_nrm c) s" and "cap_respected (url_dispatch c) s"
    and "run_closed (sch_runtime s)" and "(scheduler_step c)\<^sup>*\<^sup>* s s'"
  shows "run_closed (sch_runtime s') \<and> tracked s' \<subseteq># tracked s"
  by (rule configured.closed_run [OF configured.intro [OF assms(1)] assms(5,2,3,4)])

theorem closed_scheduler_winds_down_witness:
  "tracked (snd (url_enqueue sample_url_config zero_instant ''x'' sample_link (close_scheduler False False busy_scheduler)))
     \<subseteq># tracked (close_scheduler False False busy_scheduler)"
proof -
  let ?s = "close_scheduler False False busy_scheduler"
  obtain r s' where run: "url_enqueue sample_url_config zero_instant ''x'' sample_link ?s = (r, s')" by fastforce
  have "scheduler_inv lower_host ?s" "run_closed (sch_runtime ?s)" "active_shrinks busy_scheduler ?s"
    using close_orderly [OF busy_scheduler_inv, of False False] by (simp_all add: orderly_def)
  moreover from this have "cap_respected sample_dispatch ?s"
    using cap_shrinks [OF busy_scheduler_inv] busy_scheduler_cap by blast
  moreover have "(scheduler_step sample_url_config)\<^sup>*\<^sup>* ?s s'"
    by (rule r_into_rtranclp) (rule step_enqueue [OF sample_link_ok run])
  ultimately show ?thesis
    using closed_scheduler_winds_down [OF sample_url_ok(1), of ?s s'] run by (simp add: sample_url_ok)
qed

text \<open>C3: Shutdown completes. If a scheduler is closed with its backlog discarded while no task is being
  dispatched and no dead letter is being written, then once every active task has been
  completed, with any outcome and in any order, and every dead letter has been written, it is
  idle, and a worker that asks for a task is told that the scheduler is closed.\<close>

theorem shutdown_reaches_idle:
  assumes "config_ok c" and "scheduler_inv (url_nrm c) s"
    and "dispatching_records (sch_registry s) = []" and "dead_letter_pending_records (sch_registry s) = []"
    and "fst ` set (active_records (sch_registry s)) \<subseteq> event_key ` set events"
  shows "is_idle_locked (complete_all c events (close_scheduler False True s)) \<and>
    fst (get_once c now (complete_all c events (close_scheduler False True s))) = Inl SchedulerClosedError"
proof -
  let ?s = "close_scheduler False True s" and ?t = "complete_all c events (close_scheduler False True s)"
  have hc: "host_canonical (url_nrm c)" using assms(1) by (simp add: config_ok_def)
  note closed = close_orderly [OF assms(2), of False True]
  have reg: "sch_registry ?s = sch_registry s" by (simp add: close_scheduler_def Let_def)
  then have "tracked ?s = record_items (active_records (sch_registry ?s))"
    using closed assms(3,4) by (simp add: registry_items_def record_items_def)
  then have "only_active (url_nrm c) ?s"
    using closed by (simp add: only_active_def orderly_def)
  note drained = complete_all_drains [OF hc this, of events]
  have "fst ` set (active_records (sch_registry ?t)) = {}"
    using drained assms(5) reg by (metis Diff_eq_empty_iff)
  then have "active_records (sch_registry ?t) = []" by simp
  then have empty: "tracked ?t = {#}" "scheduler_inv (url_nrm c) ?t" "run_closed (sch_runtime ?t)"
    using conjunct1 [OF drained] unfolding only_active_def by (simp_all add: record_items_def)
  then show ?thesis
    using idle_tracked [OF hc] idle_get_closed [OF assms(1)] by blast
qed

theorem shutdown_reaches_idle_witness:
  "is_idle_locked (complete_all sample_url_config [(zero_instant, sample_link, ''timeout'', None)] (close_scheduler False True busy_scheduler))"
proof -
  have "fst ` set (active_records (sch_registry busy_scheduler)) \<subseteq> event_key ` set [(zero_instant, sample_link, ''timeout'', None)]"
    unfolding busy_record by (simp add: event_key_def)
  from shutdown_reaches_idle [OF sample_url_ok(1) _ _ _ this, of zero_instant] busy_scheduler_inv busy_record
  show ?thesis by (simp add: sample_url_ok)
qed

end
