(* ===== verification/Snapshot_Reader.thy ===== *)
theory Snapshot_Reader imports
  Url_Scheduler
begin

text \<open>
  Read-only views of the scheduler, \<open>crawler/scheduling/progress/scheduler_snapshot_reader.py\<close>:
  the capacity that discovery may still fill, the queue snapshot with its validation, the
  number of tasks that could start now, and the drain budget of discovery. The reading of the
  monotonic clock is an argument.
\<close>

section \<open>Capacity for discovery\<close>

record discovery_capacity_snapshot =
  by_host_kind :: "((host \<times> media_kind) \<times> int) list"
  capacity_queue_size :: int
  captured_at_monotonic :: real

definition capacity_remaining :: "host \<Rightarrow> media_kind \<Rightarrow> discovery_capacity_snapshot \<Rightarrow> int option" where
  "capacity_remaining h kind c = map_of (by_host_kind c) (h, kind)"

definition discovery_capacity_kinds :: "media_kind list" where
  "discovery_capacity_kinds = [PAGE, FEED, IMAGE, AUDIO, VIDEO, DOCUMENT]"

definition kind_capacity ::
  "(media_kind \<Rightarrow> host \<Rightarrow> int option) \<Rightarrow> (host \<Rightarrow> media_kind \<Rightarrow> int) \<Rightarrow> host \<Rightarrow> media_kind \<Rightarrow> ((host \<times> media_kind) \<times> int) list" where
  "kind_capacity host_limit_fn kind_host_pending_fn h kind = (case host_limit_fn kind h of
     None \<Rightarrow> [] | Some limit \<Rightarrow> [((h, kind), max 0 (limit - kind_host_pending_fn h kind))])"

definition build_discovery_capacity_snapshot ::
  "(host \<times> int) list \<Rightarrow> (media_kind \<Rightarrow> host \<Rightarrow> int option) \<Rightarrow> (host \<Rightarrow> media_kind \<Rightarrow> int) \<Rightarrow> int \<Rightarrow> real \<Rightarrow>
    discovery_capacity_snapshot" where
  "build_discovery_capacity_snapshot ready_pending host_limit_fn kind_host_pending_fn qsize now = \<lparr>
     by_host_kind = concat (map (\<lambda>(h, pending).
       concat (map (kind_capacity host_limit_fn kind_host_pending_fn h) discovery_capacity_kinds)) ready_pending),
     capacity_queue_size = qsize, captured_at_monotonic = now\<rparr>"

section \<open>The snapshot\<close>

record scheduler_snapshot =
  snap_queued :: int
  snap_pending_hosts :: int
  snap_max_pending_per_host :: int
  snap_inflight :: int
  snap_delayed_queued :: int
  snap_delayed_pending_hosts :: int
  snap_delayed_max_pending_per_host :: int
  snap_total_queued :: int
  snap_total_pending_hosts :: int
  snap_total_max_pending_per_host :: int
  snap_next_delayed_ready_at :: "real option"
  snap_next_delayed_ready_in_seconds :: "real option"
  snap_delayed_wait_seconds_total :: real
  snap_average_delayed_wait_seconds :: "real option"
  snap_delayed_ready_count :: int
  snap_max_inflight_per_host :: int
  snap_runnable_slots :: int

definition validate_non_negative_int :: "string \<Rightarrow> int \<Rightarrow> unit result" where
  "validate_non_negative_int name v = (if v < 0 then Inl (ValueError (name @ '' must be >= 0, got '' @ dec_int v)) else Inr ())"

fun validate_all :: "(string \<times> int) list \<Rightarrow> unit result" where
  "validate_all [] = Inr ()"
| "validate_all ((name, v) # rest) = and_then (validate_non_negative_int name v) (\<lambda>_. validate_all rest)"

text \<open>A total of zero is replaced by the sum or the maximum of its parts; the number of queued tasks always.\<close>

definition construct_snapshot :: "scheduler_snapshot \<Rightarrow> scheduler_snapshot result" where
  "construct_snapshot s =
    (let total_queued = snap_queued s + snap_delayed_queued s;
         total_hosts = (if snap_total_pending_hosts s \<noteq> 0 then snap_total_pending_hosts s
           else snap_pending_hosts s + snap_delayed_pending_hosts s);
         total_max = (if snap_total_max_pending_per_host s \<noteq> 0 then snap_total_max_pending_per_host s
           else max (snap_max_pending_per_host s) (snap_delayed_max_pending_per_host s))
     in and_then (validate_all [
          (''queued'', snap_queued s), (''pending_hosts'', snap_pending_hosts s),
          (''max_pending_per_host'', snap_max_pending_per_host s), (''inflight'', snap_inflight s),
          (''delayed_queued'', snap_delayed_queued s), (''delayed_pending_hosts'', snap_delayed_pending_hosts s),
          (''delayed_max_pending_per_host'', snap_delayed_max_pending_per_host s),
          (''delayed_ready_count'', snap_delayed_ready_count s), (''max_inflight_per_host'', snap_max_inflight_per_host s),
          (''runnable_slots'', snap_runnable_slots s), (''total_queued'', total_queued),
          (''total_pending_hosts'', total_hosts), (''total_max_pending_per_host'', total_max)]) (\<lambda>_.
        if or_else (snap_next_delayed_ready_in_seconds s) 0 < 0
        then Inl (ValueError ''next_delayed_ready_in_seconds must be >= 0 when provided'')
        else if snap_delayed_wait_seconds_total s < 0 then Inl (ValueError ''delayed_wait_seconds_total must be >= 0'')
        else if or_else (snap_average_delayed_wait_seconds s) 0 < 0
        then Inl (ValueError ''average_delayed_wait_seconds must be >= 0 when provided'')
        else Inr (s\<lparr>snap_total_queued := total_queued, snap_total_pending_hosts := total_hosts,
          snap_total_max_pending_per_host := total_max\<rparr>)))"

text \<open>The slots of one host: none if it is full, or tracked as eligible only later.\<close>

definition host_slots ::
  "(host \<times> int) list \<Rightarrow> int \<Rightarrow> host_eligibility_queue option \<Rightarrow> real \<Rightarrow> host \<times> int \<Rightarrow> int" where
  "host_slots inflight_counts max_inflight elig now x = (case x of (h, pending) \<Rightarrow>
     if pending \<le> 0 then 0
     else (let inflight = (if h = None then 0 else get_default inflight_counts h 0);
               free_slots = max 0 (max_inflight - inflight)
           in if free_slots \<le> 0 then 0
              else if (case elig of None \<Rightarrow> False | Some e \<Rightarrow>
                (case elig_next h e of None \<Rightarrow> False | Some t \<Rightarrow> At now < t)) then 0
              else min pending free_slots))"

definition compute_runnable_slots ::
  "(host \<times> int) list \<Rightarrow> (host \<times> int) list \<Rightarrow> int \<Rightarrow> host_eligibility_queue option \<Rightarrow> real \<Rightarrow> int" where
  "compute_runnable_slots ready_pending inflight_counts max_inflight elig now =
    (if max_inflight \<le> 0 then 0
     else sum_list (map (host_slots inflight_counts max_inflight elig now) ready_pending))"

definition build_scheduler_snapshot ::
  "crawl_task host_task_queue \<Rightarrow> crawl_task delayed_task_queue \<Rightarrow> active_task_registry \<Rightarrow> (host \<times> int) list \<Rightarrow>
    (host \<times> int) list \<Rightarrow> (host \<times> int) list \<Rightarrow> real \<Rightarrow> (host \<times> int) list \<Rightarrow> int \<Rightarrow> host_eligibility_queue option \<Rightarrow>
    scheduler_snapshot result" where
  "build_scheduler_snapshot q d registry ready_pending delayed_pending total_pending now inflight_counts max_inflight elig =
    (let t = PyFloat (Fin now) in
     and_then (delayed_next_ready_in_seconds now t d) (\<lambda>next_in.
     and_then (wait_seconds_total now t d) (\<lambda>wait_total.
     and_then (average_wait_seconds now t d) (\<lambda>average.
     and_then (delayed_ready_count now t d) (\<lambda>ready_count.
     construct_snapshot \<lparr>snap_queued = queue_size q, snap_pending_hosts = int (length ready_pending),
       snap_max_pending_per_host = max_pending_count ready_pending, snap_inflight = active_count registry,
       snap_delayed_queued = delayed_size d, snap_delayed_pending_hosts = int (length delayed_pending),
       snap_delayed_max_pending_per_host = max_pending_count delayed_pending,
       snap_total_queued = queue_size q + delayed_size d, snap_total_pending_hosts = int (length total_pending),
       snap_total_max_pending_per_host = max_pending_count total_pending,
       snap_next_delayed_ready_at = peek_next_ready_at d, snap_next_delayed_ready_in_seconds = next_in,
       snap_delayed_wait_seconds_total = wait_total, snap_average_delayed_wait_seconds = average,
       snap_delayed_ready_count = ready_count, snap_max_inflight_per_host = max_inflight,
       snap_runnable_slots = compute_runnable_slots ready_pending inflight_counts max_inflight elig now\<rparr>)))))"

section \<open>The reader\<close>

definition read_snapshot :: "int \<Rightarrow> instant \<Rightarrow> scheduler \<Rightarrow> scheduler_snapshot result" where
  "read_snapshot max_inflight_per_host now s =
    (case pending_maps (sch_queue s) (sch_delayed s) of (ready_pending, delayed_pending, total_pending) \<Rightarrow>
       build_scheduler_snapshot (sch_queue s) (sch_delayed s) (sch_registry s) ready_pending delayed_pending total_pending
         (monotonic_time now) (inflight_count_by_host (sch_registry s)) (max 0 max_inflight_per_host) (Some (sch_eligibility s)))"

definition read_discovery_capacity :: "frontier_config \<Rightarrow> instant \<Rightarrow> scheduler \<Rightarrow> discovery_capacity_snapshot" where
  "read_discovery_capacity cfg now s =
    (let qsize = queue_size_total s in
     build_discovery_capacity_snapshot (pending_count_by_host (sch_queue s))
       (\<lambda>kind h. host_pending_limit (live_env cfg s) kind h qsize)
       (\<lambda>h kind. kind_host_pending (sch_queue s) h kind) qsize (monotonic_time now))"

definition discovery_drain_budget :: "frontier_config \<Rightarrow> int \<Rightarrow> bool \<Rightarrow> scheduler \<Rightarrow> int \<times> scheduler" where
  "discovery_drain_budget cfg configured_cap force s =
    (let normalized_cap = max 0 configured_cap in
     if normalized_cap \<le> 0 then (0, s)
     else (let pressure_state = queue_pressure_state (fro_env cfg) (queue_size_total s) in
       if pressure_state = ''critical''
       then (0, s\<lparr>sch_progress := reset_drain_budget_window (sch_progress s)\<rparr>)
       else if pressure_state \<noteq> ''high'' \<and> \<not> force
       then (normalized_cap, s\<lparr>sch_progress := reset_drain_budget_window (sch_progress s)\<rparr>)
       else (case available_drain_budget (ensure_drain_budget_window (sch_progress s)) of
         (available, p) \<Rightarrow> (min normalized_cap available, s\<lparr>sch_progress := p\<rparr>))))"

definition read_queue_size :: "scheduler \<Rightarrow> int" where
  "read_queue_size s = queue_size (sch_queue s)"

definition read_pending_host_count :: "scheduler \<Rightarrow> int" where
  "read_pending_host_count s = int (length (pending_count_by_host (sch_queue s)))"

definition read_max_pending_per_host :: "scheduler \<Rightarrow> int" where
  "read_max_pending_per_host s = max_pending_count (pending_count_by_host (sch_queue s))"

definition read_inflight_count :: "scheduler \<Rightarrow> int" where
  "read_inflight_count s = active_count (sch_registry s)"


section \<open>Lemmas\<close>

definition counts_ok :: "('k \<times> int) list \<Rightarrow> bool" where
  "counts_ok m \<longleftrightarrow> (\<forall>x\<in>set m. 0 \<le> snd x)"

lemma max_pending_nonneg: "counts_ok m \<Longrightarrow> 0 \<le> max_pending_count m"
proof (cases m)
  case (Cons x xs)
  assume "counts_ok m"
  then have "0 \<le> snd x" by (simp add: counts_ok_def Cons)
  also have "snd x \<le> Max (set (map snd m))" by (simp add: Cons)
  finally show ?thesis by (simp add: max_pending_count_def Cons)
qed (simp add: max_pending_count_def)

lemma counts_ok_get: "counts_ok m \<Longrightarrow> 0 \<le> get_default m k 0"
  by (cases "map_of m k") (fastforce simp: counts_ok_def get_default_def dest: map_of_SomeD)+

lemma counts_ok_update: "counts_ok m \<Longrightarrow> 0 \<le> v \<Longrightarrow> counts_ok (AList.update k v m)"
  by (induction m) (auto simp: counts_ok_def)

lemma counts_ok_combine: "counts_ok a \<Longrightarrow> counts_ok b \<Longrightarrow> counts_ok (combine_pending_maps a b)"
proof (induction a b rule: combine_pending_maps.induct)
  case (2 combined h n counts)
  have "0 \<le> n" "counts_ok counts" using 2(3) by (simp_all add: counts_ok_def)
  then show ?case
    using 2(1) counts_ok_update [OF 2(2), of "get_default combined h 0 + n" h] counts_ok_get [OF 2(2), of h] by simp
qed simp

lemma int_sum_lengths: "(\<Sum>x\<leftarrow>m. int (length (snd x))) = int (\<Sum>x\<leftarrow>m. length (snd x))"
  by (induction m) auto

lemma ready_counts:
  assumes "htq_inv nrm q"
  shows "counts_ok (pending_count_by_host q) \<and> sum_list (map snd (pending_count_by_host q)) = queue_size q"
proof -
  let ?p = "pending_by_host q" and ?m = "queues q"
  have d: "distinct (map fst ?p)" "distinct (map fst ?m)" by (rule htq_invD [OF assms])+
  have val: "v = int (length (get_default ?m k []))" if "(k, v) \<in> set ?p" for k v
    using htq_inv_pending [OF assms, of k] map_of_is_SomeI [OF d(1) that] by (simp add: get_default_def)
  then have ok: "counts_ok ?p" unfolding counts_ok_def by (metis of_nat_0_le_iff prod.collapse)
  have "fst ` set ?p = fst ` set ?m"
    using htq_invD(7) [OF assms] by (auto simp flip: dom_map_of_conv_image_fst simp: dom_def)
  then have same: "set (map fst ?p) = set (map fst ?m)" by simp
  let ?len = "\<lambda>k. int (length (get_default ?m k []))"
  have "sum_list (map snd ?p) = sum_list (map ?len (map fst ?p))"
    unfolding map_map by (rule arg_cong [of _ _ sum_list], rule map_cong [OF refl]) (use val in auto)
  also have "\<dots> = sum ?len (set (map fst ?m))"
    by (simp only: sum_list_distinct_conv_sum_set [OF d(1)] same)
  also have "\<dots> = sum_list (map ?len (map fst ?m))"
    by (simp only: sum_list_distinct_conv_sum_set [OF d(2)])
  also have "\<dots> = sum_list (map (\<lambda>x. int (length (snd x))) ?m)"
    unfolding map_map by (rule arg_cong [of _ _ sum_list], rule map_cong [OF refl]) (use d(2) in \<open>auto simp: get_default_def\<close>)
  also have "\<dots> = queue_size q"
    using htq_invD(8) [OF assms] by (simp add: queue_size_def total_entries_def comp_def int_sum_lengths)
  finally show ?thesis using ok by (simp add: pending_count_by_host_def)
qed

lemma cnt_ok_counts: "cnt_ok m M \<Longrightarrow> counts_ok m"
  unfolding counts_ok_def
proof
  fix x assume c: "cnt_ok m M" and x: "x \<in> set m"
  have "map_of m (fst x) = Some (snd x)"
    using map_of_is_SomeI [OF cnt_ok_distinct [OF c], of "fst x" "snd x"] x by simp
  then show "0 \<le> snd x" using cnt_ok_get [OF c, of "fst x"] by (simp add: get_default_def)
qed

lemma delayed_counts: "dtq_inv nrm d \<Longrightarrow> counts_ok (delayed_pending_by_host d)"
  by (auto simp: dtq_inv_def intro: cnt_ok_counts)

lemma host_slots_bounds: "0 \<le> host_slots counts limit elig now x \<and> host_slots counts limit elig now x \<le> max 0 (snd x) \<and>
    host_slots counts limit elig now x \<le> max 0 limit"
  if "counts_ok counts"
  using counts_ok_get [OF that, of "fst x"]
  by (cases x) (auto simp: host_slots_def Let_def split: option.splits)

lemma runnable_bounds:
  assumes "counts_ok pending" and "counts_ok counts"
  shows "0 \<le> compute_runnable_slots pending counts limit elig now \<and>
    compute_runnable_slots pending counts limit elig now \<le> sum_list (map snd pending)"
proof -
  have "0 \<le> sum_list (map (host_slots counts limit elig now) pending) \<and>
      sum_list (map (host_slots counts limit elig now) pending) \<le> sum_list (map snd pending)"
    using assms(1)
  proof (induction pending)
    case (Cons x pending)
    then show ?case using host_slots_bounds [OF assms(2), of limit elig now x] by (auto simp: counts_ok_def)
  qed simp
  moreover have "0 \<le> sum_list (map snd pending)"
    using assms(1) by (intro sum_list_nonneg) (auto simp: counts_ok_def)
  ultimately show ?thesis by (simp add: compute_runnable_slots_def)
qed

lemma construct_ok:
  assumes "0 \<le> snap_queued s" "0 \<le> snap_pending_hosts s" "0 \<le> snap_max_pending_per_host s" "0 \<le> snap_inflight s"
    "0 \<le> snap_delayed_queued s" "0 \<le> snap_delayed_pending_hosts s" "0 \<le> snap_delayed_max_pending_per_host s"
    "0 \<le> snap_delayed_ready_count s" "0 \<le> snap_max_inflight_per_host s" "0 \<le> snap_runnable_slots s"
    "0 \<le> snap_total_pending_hosts s" "0 \<le> snap_total_max_pending_per_host s"
    "0 \<le> or_else (snap_next_delayed_ready_in_seconds s) 0" "0 \<le> snap_delayed_wait_seconds_total s"
    "0 \<le> or_else (snap_average_delayed_wait_seconds s) 0"
  shows "construct_snapshot s = Inr (s\<lparr>snap_total_queued := snap_queued s + snap_delayed_queued s,
    snap_total_pending_hosts := (if snap_total_pending_hosts s \<noteq> 0 then snap_total_pending_hosts s
      else snap_pending_hosts s + snap_delayed_pending_hosts s),
    snap_total_max_pending_per_host := (if snap_total_max_pending_per_host s \<noteq> 0 then snap_total_max_pending_per_host s
      else max (snap_max_pending_per_host s) (snap_delayed_max_pending_per_host s))\<rparr>)"
  using assms by (simp add: construct_snapshot_def Let_def validate_non_negative_int_def)

section \<open>Properties\<close>

text \<open>C8: A snapshot is always available and never optimistic. In every orderly state, reading it
  succeeds (no counter it validates is negative); it reports exactly the queued, delayed and
  active tasks, the two queue sizes add up to the total, the number of delayed tasks that are
  due is at most the number of delayed tasks, and the number of tasks that could start now is
  at most the number of ready tasks and zero if no host may have a task in flight.\<close>

theorem snapshot_counts_the_work:
  assumes "host_canonical nrm" and "scheduler_inv nrm s"
  shows "\<exists>snap. read_snapshot max_inflight now s = Inr snap \<and>
    snap_queued snap = int (size (queued_items (sch_queue s))) \<and>
    snap_delayed_queued snap = int (size (delayed_items (sch_delayed s))) \<and>
    snap_inflight snap = int (size (record_items (active_records (sch_registry s)))) \<and>
    snap_total_queued snap = queue_size_total s \<and>
    0 \<le> snap_delayed_ready_count snap \<and> snap_delayed_ready_count snap \<le> snap_delayed_queued snap \<and>
    0 \<le> snap_runnable_slots snap \<and> snap_runnable_slots snap \<le> snap_queued snap \<and>
    (max_inflight \<le> 0 \<longrightarrow> snap_runnable_slots snap = 0)"
proof -
  let ?q = "sch_queue s" and ?d = "sch_delayed s" and ?r = "sch_registry s" and ?t = "monotonic_time now"
  let ?ready = "pending_count_by_host ?q" and ?delayed = "delayed_pending_by_host ?d"
  let ?total = "combine_pending_maps ?ready ?delayed"
  let ?slots = "compute_runnable_slots ?ready (inflight_count_by_host ?r) (max 0 max_inflight) (Some (sch_eligibility s)) ?t"
  note inv = inv_parts [OF assms(2)]
  have counts: "counts_ok ?ready" "counts_ok ?delayed" "counts_ok ?total"
    using ready_counts [OF inv(1)] delayed_counts [OF inv(2)] counts_ok_combine by blast+
  have "cnt_ok (inflight_count_by_host ?r) (active_hosts ?r)"
    using inv(4) by (simp add: atr_inv_def)
  then have "counts_ok (inflight_count_by_host ?r)"
    by (rule cnt_ok_counts)
  from runnable_bounds [OF counts(1) this] have slots: "0 \<le> ?slots" "?slots \<le> queue_size ?q"
    by (simp_all only: ready_counts [OF inv(1), THEN conjunct2])
  have none: "max_inflight \<le> 0 \<longrightarrow> ?slots = 0" by (simp add: compute_runnable_slots_def)
  have sizes: "queue_size ?q = int (size (queued_items ?q))" "delayed_size ?d = int (size (delayed_items ?d))"
    "active_count ?r = int (size (record_items (active_records ?r)))"
    using host_canonical.queue_size_items [OF assms(1) inv(1)]
    by (simp_all add: delayed_size_def delayed_items_def active_count_def record_items_def)
  let ?wait = "\<Sum>e\<leftarrow>delayed_entries ?d. max 0 (delayed_ready_at e - ?t)"
  have wait: "0 \<le> ?wait" by (intro sum_list_nonneg) auto
  obtain next_in where next_in: "delayed_next_ready_in_seconds ?t (PyFloat (Fin ?t)) ?d = Inr next_in" "0 \<le> or_else next_in 0"
    by (cases "peek_next_ready_at ?d") (simp_all add: delayed_next_ready_in_seconds_def)
  obtain average where average: "average_wait_seconds ?t (PyFloat (Fin ?t)) ?d = Inr average" "0 \<le> or_else average 0"
    using wait by (cases "delayed_entries ?d = []") (simp_all add: average_wait_seconds_def wait_seconds_total_def)
  let ?count = "int (length (filter (\<lambda>e. delayed_ready_at e \<le> ?t) (delayed_entries ?d)))"
  have stats: "wait_seconds_total ?t (PyFloat (Fin ?t)) ?d = Inr ?wait" "delayed_ready_count ?t (PyFloat (Fin ?t)) ?d = Inr ?count"
    by (simp_all add: wait_seconds_total_def delayed_ready_count_def)
  have hosts: "0 \<le> max_pending_count ?ready" "0 \<le> max_pending_count ?delayed" "0 \<le> max_pending_count ?total"
    using counts by (simp_all add: max_pending_nonneg)
  have nonneg: "0 \<le> queue_size ?q" "0 \<le> delayed_size ?d" "0 \<le> active_count ?r"
    by (simp_all add: sizes)
  obtain snap where snap: "read_snapshot max_inflight now s = Inr snap" "snap_queued snap = queue_size ?q" "snap_inflight snap = active_count ?r"
    "snap_delayed_queued snap = delayed_size ?d" "snap_total_queued snap = queue_size_total s"
    "snap_delayed_ready_count snap = ?count" "snap_runnable_slots snap = ?slots"
  proof -
    let ?raw = "\<lparr>snap_queued = queue_size ?q, snap_pending_hosts = int (length ?ready),
       snap_max_pending_per_host = max_pending_count ?ready, snap_inflight = active_count ?r,
       snap_delayed_queued = delayed_size ?d, snap_delayed_pending_hosts = int (length ?delayed),
       snap_delayed_max_pending_per_host = max_pending_count ?delayed,
       snap_total_queued = queue_size ?q + delayed_size ?d, snap_total_pending_hosts = int (length ?total),
       snap_total_max_pending_per_host = max_pending_count ?total,
       snap_next_delayed_ready_at = peek_next_ready_at ?d, snap_next_delayed_ready_in_seconds = next_in,
       snap_delayed_wait_seconds_total = ?wait, snap_average_delayed_wait_seconds = average,
       snap_delayed_ready_count = ?count, snap_max_inflight_per_host = max 0 max_inflight, snap_runnable_slots = ?slots\<rparr>"
    have "read_snapshot max_inflight now s = construct_snapshot ?raw"
      by (simp add: read_snapshot_def pending_maps_def build_scheduler_snapshot_def next_in average stats Let_def)
    moreover obtain hosts max_pending where "construct_snapshot ?raw = Inr (?raw\<lparr>snap_total_queued := snap_queued ?raw + snap_delayed_queued ?raw,
        snap_total_pending_hosts := hosts, snap_total_max_pending_per_host := max_pending\<rparr>)"
      by (rule that, rule construct_ok) (use hosts nonneg slots wait next_in(2) average(2) in simp_all)
    ultimately have "read_snapshot max_inflight now s = Inr (?raw\<lparr>snap_total_queued := snap_queued ?raw + snap_delayed_queued ?raw,
        snap_total_pending_hosts := hosts, snap_total_max_pending_per_host := max_pending\<rparr>)"
      by (rule trans)
    then show thesis by (rule that) (simp_all add: queue_size_total_def)
  qed
  have "?count \<le> delayed_size ?d" by (simp add: delayed_size_def)
  with snap slots none sizes show ?thesis
    by (intro exI [of _ snap]) simp
qed

theorem snapshot_counts_the_work_witness:
  "case read_snapshot 1 zero_instant busy_scheduler of Inl e \<Rightarrow> False
   | Inr snap \<Rightarrow> snap_inflight snap = 1 \<and> snap_runnable_slots snap = 0 \<and> snap_total_queued snap = 0"
proof -
  have "queued_items (sch_queue busy_scheduler) = {#}" "queue_size_total busy_scheduler = 0"
    by (simp_all add: busy_scheduler_def empty_scheduler_def queued_items_def htq_abs_def empty_queue_def empty_delayed_def
        queue_size_total_def queue_size_def delayed_size_def)
  moreover have "size (record_items (active_records (sch_registry busy_scheduler))) = 1"
    unfolding busy_record by (simp add: record_items_def)
  ultimately show ?thesis
    using snapshot_counts_the_work [OF lower_host_canonical busy_scheduler_inv, of 1 zero_instant] by auto
qed

lemma count_fst: "count (image_mset fst M) k = size (filter_mset (\<lambda>x. fst x = k) M)"
  by (induction M) auto

context host_canonical begin

lemma pending_items: "htq_inv nrm q \<Longrightarrow> pending_for_host nrm q h = int (size (filter_mset (\<lambda>x. fst x = nrm h) (queued_items q)))"
  by (simp only: ready.pending_law count_fst)

end

lemma kind_pending_le:
  assumes "host_canonical nrm" and "htq_inv nrm q" and "nrm h = h"
  shows "kind_host_pending q h k \<le> backlog_host_pending nrm q h"
proof -
  let ?of_host = "filter (\<lambda>x. fst x = h) (snapshot_items q)"
  have "mset (snapshot_items q) = queued_items q"
    by (rule host_canonical.snapshot_items_mset [OF assms(1,2)])
  then have "backlog_host_pending nrm q h = int (length ?of_host)"
    using host_canonical.pending_items [OF assms(1,2), of h] assms(3) unfolding backlog_host_pending_def
    by (metis mset_filter size_mset)
  moreover have "filter (\<lambda>(queued_host, p, s, t). queued_host = h \<and> task_kind t = k) (snapshot_items q) =
      filter (\<lambda>(queued_host, p, s, t). task_kind t = k) ?of_host"
    by (auto intro: filter_cong)
  then have "length (filter (\<lambda>(queued_host, p, s, t). queued_host = h \<and> task_kind t = k) (snapshot_items q)) \<le> length ?of_host"
    by (metis length_filter_le)
  ultimately show ?thesis
    unfolding kind_host_pending_def by simp
qed

text \<open>Exhausted capacity is refused. If the capacity view of a state says that no task of a kind may
  still be admitted for a host, then enqueuing a task of that kind, discovered on any page, whose
  URL belongs to that host is not accepted in that state: what discovery is told agrees with
  what admission does. Feeds are covered if a limit on the feeds of a host is set.\<close>

theorem exhausted_capacity_is_refused:
  assumes "host_canonical (fro_nrm cfg)" and "scheduler_inv (fro_nrm cfg) s"
    and "fro_nrm cfg h = h" and "h \<noteq> None"
    and "capacity_remaining h kind (read_discovery_capacity cfg now s) = Some 0"
    and "canonical_host_from_url cfg (task_url t) = h" and "task_kind t = kind" and "task_source_type t \<noteq> ''seed''"
    and "kind = FEED \<Longrightarrow> 0 < cfg_max_feeds_per_host (env_settings (fro_env cfg))"
    and "enqueue_canonical cfg now' t s = (Inr (d, tk, n), s')"
  shows "\<not> dec_accepted d"
proof -
  let ?env = "live_env cfg s" and ?ctx = "enqueue_context cfg now' t h s"
  let ?pending = "kind_host_pending (sch_queue s) h kind"
  obtain limit where limit: "host_pending_limit ?env kind h (queue_size_total s) = Some limit" "limit \<le> ?pending" and kind: "kind \<in> set discovery_capacity_kinds"
    using map_of_SomeD [OF assms(5) [unfolded capacity_remaining_def]]
    by (auto simp: read_discovery_capacity_def build_discovery_capacity_snapshot_def kind_capacity_def Let_def max_def
        split: option.splits if_splits intro: that [OF sym])
  have "needs_kind_host_pending (cfg_max_feeds_per_host (env_settings (fro_env cfg))) t"
    using assms(7-9) kind by (auto simp: needs_kind_host_pending_def discovery_capacity_kinds_def)
  then have "ctx_kind_host_pending ?ctx = ?pending" "ctx_host_pending ?ctx = backlog_host_pending (fro_nrm cfg) (sch_queue s) h"
    using assms(7) by (simp_all add: enqueue_context_def kind_host_pending_if_needed_def)
  then have "limit \<le> pending_for_limit ?env ?ctx"
    using limit(2) kind_pending_le [OF assms(1) inv_parts(1) [OF assms(2)] assms(3), of kind] by (simp add: pending_for_limit_def Let_def)
  moreover have "effective_max_pending_per_host ?env t h (queue_size_total s) True = Some limit"
    using limit(1) assms(7,8) by (simp add: host_pending_limit_def effective_max_pending_for_kind_def effective_max_pending_per_host_def)
  ultimately have "limit_rejection_reason ?env True ?ctx \<noteq> None"
    unfolding limit_None by (auto simp: enqueue_context_def)
  then have "\<not> (\<exists>d. fst (admit_evaluate ?env (wall_time now') ?ctx None True (sch_seen s)) = Inr d \<and> dec_accepted d)"
    unfolding admit_accepted_iff by blast
  then show ?thesis
    using assms(6,10) by (auto simp: enqueue_canonical_def evaluate_enqueue_decision_def reject_enqueue_def Let_def
        split: sum.splits prod.splits)
qed

definition tight_config :: frontier_config where
  "tight_config = sample_config\<lparr>fro_env := (fro_env sample_config)\<lparr>env_settings :=
     default_settings\<lparr>cfg_max_pending_per_host_by_kind := [(''page'', 1)]\<rparr>\<rparr>\<rparr>"

theorem exhausted_capacity_is_refused_witness:
  "case enqueue_canonical tight_config zero_instant sample_link (waiting_scheduler 5) of
     (Inr (d, tk, n), s') \<Rightarrow> \<not> dec_accepted d | _ \<Rightarrow> False"
proof -
  obtain res s' where run: "enqueue_canonical tight_config zero_instant sample_link (waiting_scheduler 5) = (res, s')" by fastforce
  have "\<not> isl (fst (enqueue_canonical tight_config zero_instant sample_link (waiting_scheduler 5)))" by code_simp
  then obtain d tk n where res: "res = Inr (d, tk, n)"
    using run by (cases res) auto
  have facts: "fro_nrm tight_config = lower_host" "canonical_host_from_url tight_config (task_url sample_link) = Some ''noaa.gov''"
    "lower_host (Some ''noaa.gov'') = Some ''noaa.gov''" "task_source_type sample_link \<noteq> ''seed''"
    "0 < cfg_max_feeds_per_host (env_settings (fro_env tight_config))"
    by (simp add: tight_config_def, code_simp+)
  have "capacity_remaining (Some ''noaa.gov'') (task_kind sample_link) (read_discovery_capacity tight_config zero_instant (waiting_scheduler 5)) = Some 0"
    by code_simp
  from exhausted_capacity_is_refused [OF _ _ _ _ this _ refl _ _ run [unfolded res]] facts waiting_scheduler_inv [of 5] lower_host_canonical
  show ?thesis using run res by simp
qed

end
