(* ===== verification/Ip_Address.thy ===== *)
theory Ip_Address imports
  Run_Url_Feedback
begin

text \<open>
  What the sources use of the standard library's \<open>ipaddress\<close> (Python 3.12): \<open>ip_address\<close>
  and \<open>compressed\<close>. An IPv4 address is its four octets, an IPv6 address its eight 16-bit
  groups. The lemmas show that the compressed text of an address reads back as that address,
  so two texts of one address have one compressed form.
\<close>

section \<open>IPv4\<close>

text \<open>\<open>_parse_octet\<close>: decimal digits without a leading zero.\<close>

definition parse_octet :: "string \<Rightarrow> nat option" where
  "parse_octet s =
    (if s = [] \<or> \<not> list_all is_digit s \<or> 3 < length s \<or> s \<noteq> ''0'' \<and> hd s = CHR ''0'' then None
     else (let n = foldl (\<lambda>a c. 10 * a + digit_value c) 0 s in if 255 < n then None else Some n))"

definition parse_ipv4 :: "string \<Rightarrow> nat list option" where
  "parse_ipv4 s = (let octets = split_on (CHR ''.'') s in
     if length octets \<noteq> 4 then None else those (map parse_octet octets))"

definition format_ipv4 :: "nat list \<Rightarrow> string" where
  "format_ipv4 octets = join_with ''.'' (map dec_nat octets)"

section \<open>IPv6\<close>

definition is_hex :: "char \<Rightarrow> bool" where
  "is_hex c \<longleftrightarrow> is_digit c \<or> (let n = of_char c :: nat in 65 \<le> n \<and> n \<le> 70 \<or> 97 \<le> n \<and> n \<le> 102)"

definition hex_value :: "char \<Rightarrow> nat" where
  "hex_value c = (if is_digit c then digit_value c else if of_char c < (97 :: nat) then of_char c - 55 else of_char c - 87)"

definition parse_hextet :: "string \<Rightarrow> nat option" where
  "parse_hextet s = (if s = [] \<or> \<not> list_all is_hex s \<or> 4 < length s then None
     else Some (foldl (\<lambda>a c. 16 * a + hex_value c) 0 s))"

fun hex_nat :: "nat \<Rightarrow> string" where
  "hex_nat n = (if n < 16 then [hex_digit n] else hex_nat (n div 16) @ [hex_digit (n mod 16)])"

declare hex_nat.simps [simp del]

text \<open>An IPv4 suffix becomes two groups.\<close>

definition expand_ipv4 :: "string list \<Rightarrow> string list option" where
  "expand_ipv4 parts = (if CHR ''.'' \<notin> set (last parts) then Some parts
     else (case parse_ipv4 (last parts) of
       Some [a, b, c, d] \<Rightarrow> Some (butlast parts @ [hex_nat (a * 256 + b), hex_nat (c * 256 + d)])
     | _ \<Rightarrow> None))"

text \<open>The empty parts inside are the places of a double colon.\<close>

definition skip_positions :: "string list \<Rightarrow> nat list" where
  "skip_positions parts = filter (\<lambda>i. parts ! i = []) [1..<length parts - 1]"

definition groups_at :: "nat \<Rightarrow> nat \<Rightarrow> string list \<Rightarrow> nat list option" where
  "groups_at hi lo parts =
    (if 8 \<le> hi + lo then None
     else (case (those (map parse_hextet (take hi parts)), those (map parse_hextet (drop (length parts - lo) parts))) of
         (Some a, Some b) \<Rightarrow> Some (a @ replicate (8 - (hi + lo)) 0 @ b)
       | _ \<Rightarrow> None))"

definition groups_around :: "nat \<Rightarrow> string list \<Rightarrow> nat list option" where
  "groups_around i parts =
    (let lo = length parts - i - 1 in
     if hd parts = [] \<and> i \<noteq> 1 \<or> last parts = [] \<and> lo \<noteq> 1 then None
     else groups_at (if hd parts = [] then 0 else i) (if last parts = [] then 0 else lo) parts)"

definition parse_groups :: "string list \<Rightarrow> nat list option" where
  "parse_groups parts = (if 9 < length parts then None
     else (case skip_positions parts of
         [] \<Rightarrow> if length parts \<noteq> 8 \<or> hd parts = [] \<or> last parts = [] then None else those (map parse_hextet parts)
       | [i] \<Rightarrow> groups_around i parts
       | _ \<Rightarrow> None))"

definition parse_ipv6 :: "string \<Rightarrow> nat list option" where
  "parse_ipv6 s = (let parts = split_on (CHR '':'') s in
     if length parts < 3 then None
     else (case expand_ipv4 parts of None \<Rightarrow> None | Some parts \<Rightarrow> parse_groups parts))"

text \<open>The first longest run of zero groups: its start and its length.\<close>

fun best_run :: "string list \<Rightarrow> nat \<Rightarrow> nat \<Rightarrow> nat \<times> nat \<Rightarrow> nat \<times> nat" where
  "best_run [] i run best = best"
| "best_run (h # hs) i run best =
    (if h = ''0'' then best_run hs (i + 1) (run + 1) (if snd best < run + 1 then (i - run, run + 1) else best)
     else best_run hs (i + 1) 0 best)"

definition compress_hextets :: "string list \<Rightarrow> string list" where
  "compress_hextets hextets = (case best_run hextets 0 0 (0, 0) of (start, run) \<Rightarrow>
     if run \<le> 1 then hextets
     else (let hs = (if start + run = length hextets then hextets @ [[]] else hextets);
               hs = take start hs @ [[]] @ drop (start + run) hs
           in if start = 0 then [] # hs else hs))"

definition format_ipv6 :: "nat list \<Rightarrow> string" where
  "format_ipv6 groups = join_with '':'' (compress_hextets (map hex_nat groups))"

section \<open>Addresses\<close>

datatype ip_address = IPv4 "nat list" | IPv6 "nat list"

definition parse_ip :: "string \<Rightarrow> ip_address option" where
  "parse_ip s = (case parse_ipv4 s of Some octets \<Rightarrow> Some (IPv4 octets) | None \<Rightarrow> map_option IPv6 (parse_ipv6 s))"

fun compressed :: "ip_address \<Rightarrow> string" where
  "compressed (IPv4 octets) = format_ipv4 octets"
| "compressed (IPv6 groups) = format_ipv6 groups"

fun ip_ok :: "ip_address \<Rightarrow> bool" where
  "ip_ok (IPv4 octets) = (length octets = 4 \<and> list_all (\<lambda>n. n < 256) octets)"
| "ip_ok (IPv6 groups) = (length groups = 8 \<and> list_all (\<lambda>n. n < 65536) groups)"

section \<open>Lemmas\<close>

subsection \<open>Splitting and joining\<close>

lemma split_on_none: "c \<notin> set s \<Longrightarrow> split_on c s = [s]"
  by (induction s) auto

lemma split_on_not_Nil [simp]: "split_on c s \<noteq> []"
  by (induction c s rule: split_on.induct) (auto split: list.splits)

lemma split_on_append: "c \<notin> set w \<Longrightarrow> split_on c (w @ c # s) = w # split_on c s"
  by (induction w) auto

lemma split_join: "ws \<noteq> [] \<Longrightarrow> \<forall>w\<in>set ws. c \<notin> set w \<Longrightarrow> split_on c (join_with [c] ws) = ws"
proof (induction "[c]" ws rule: join_with.induct)
  case (3 x y xs)
  then show ?case by (simp add: split_on_append)
qed (simp_all add: split_on_none)

lemma split_on_snoc: "split_on c (s @ [c]) = split_on c s @ [[]]"
  by (induction s) (auto split: list.splits)

lemma split_on_last: "s \<noteq> [] \<Longrightarrow> last s = c \<Longrightarrow> last (split_on c s) = []"
  using split_on_snoc [of c "butlast s"] append_butlast_last_id [of s] by auto

lemma split_on_chars: "set s \<subseteq> insert c (\<Union>w\<in>set (split_on c s). set w)"
proof (induction c s rule: split_on.induct)
  case (2 c x s)
  then show ?case by (cases "split_on c s") (auto split: if_splits)
qed simp

lemma join_chars: "set (join_with sep ws) \<subseteq> set sep \<union> (\<Union>w\<in>set ws. set w)"
  by (induction sep ws rule: join_with.induct) auto

lemma those_map_Some: "(\<And>x. x \<in> set xs \<Longrightarrow> f (g x) = Some x) \<Longrightarrow> those (map (\<lambda>x. f (g x)) xs) = Some xs"
  by (induction xs) auto

lemma those_length: "those xs = Some ys \<Longrightarrow> length ys = length xs"
  by (induction xs arbitrary: ys) (auto split: option.splits)

lemma those_all: "those (map f xs) = Some ys \<Longrightarrow> (\<And>x y. f x = Some y \<Longrightarrow> P y) \<Longrightarrow> list_all P ys"
  by (induction xs arbitrary: ys) (auto split: option.splits)

lemma those_defined: "those (map f xs) = Some ys \<Longrightarrow> x \<in> set xs \<Longrightarrow> f x \<noteq> None"
  by (induction xs arbitrary: ys) (auto split: option.splits)

subsection \<open>IPv4\<close>

lemma dec_nat_length: "n < 10 ^ Suc k \<Longrightarrow> length (dec_nat n) \<le> Suc k"
proof (induction k arbitrary: n)
  case (Suc k)
  have "n div 10 < 10 ^ Suc k" using Suc.prems by (simp add: less_mult_imp_div_less)
  then show ?case using Suc.IH [of "n div 10"] by (subst dec_nat.simps) simp
qed (subst dec_nat.simps, simp)

lemma dec_nat_zero [simp]: "dec_nat 0 = ''0''"
  by code_simp

lemma dec_nat_leading: "0 < n \<Longrightarrow> hd (dec_nat n) \<noteq> CHR ''0''"
proof (induction n rule: dec_nat.induct)
  case (1 n)
  show ?case
  proof (cases "n < 10")
    case True
    then have "(of_char (char_of (48 + n) :: char) :: nat) \<noteq> of_char (CHR ''0'')"
      using 1 by (simp add: of_char_of)
    then have "char_of (48 + n) \<noteq> CHR ''0''" by metis
    with True show ?thesis by (subst dec_nat.simps) simp
  next
    case False
    then show ?thesis using 1 by (subst dec_nat.simps) (simp add: hd_append)
  qed
qed

lemma parse_octet_dec:
  assumes "n < 256"
  shows "parse_octet (dec_nat n) = Some n"
proof -
  have "length (dec_nat n) \<le> 3" using dec_nat_length [of n 2] assms by simp
  moreover have "dec_nat n \<noteq> ''0'' \<Longrightarrow> hd (dec_nat n) \<noteq> CHR ''0''"
    using dec_nat_leading [of n] by (cases "n = 0") auto
  moreover have "list_all is_digit (dec_nat n)" using dec_nat_digits by (simp add: list_all_iff)
  ultimately show ?thesis using assms by (auto simp: parse_octet_def Let_def dec_nat_value)
qed

lemma parse_octet_bound: "parse_octet s = Some n \<Longrightarrow> n < 256 \<and> list_all is_digit s \<and> s \<noteq> []"
  by (auto simp: parse_octet_def Let_def split: if_splits)

lemma dot_not_digit: "is_digit c \<Longrightarrow> c \<noteq> CHR ''.''"
  by (auto simp: is_digit_def)

lemma format_ipv4_split: "length ns = 4 \<Longrightarrow> split_on (CHR ''.'') (format_ipv4 ns) = map dec_nat ns"
  unfolding format_ipv4_def by (rule split_join) (auto dest: dec_nat_digits dot_not_digit)

lemma ipv4_roundtrip: "length ns = 4 \<Longrightarrow> list_all (\<lambda>n. n < 256) ns \<Longrightarrow> parse_ipv4 (format_ipv4 ns) = Some ns"
  by (simp add: parse_ipv4_def format_ipv4_split comp_def list_all_iff those_map_Some [where g = dec_nat] parse_octet_dec)

lemma parse_ipv4_ok:
  assumes "parse_ipv4 s = Some ns"
  shows "length ns = 4 \<and> list_all (\<lambda>n. n < 256) ns \<and> (\<forall>w\<in>set (split_on (CHR ''.'') s). w \<noteq> [] \<and> list_all is_digit w)"
proof -
  have ns: "length (split_on (CHR ''.'') s) = 4" "those (map parse_octet (split_on (CHR ''.'') s)) = Some ns"
    using assms by (simp_all add: parse_ipv4_def Let_def split: if_splits)
  have "parse_octet w \<noteq> None" if "w \<in> set (split_on (CHR ''.'') s)" for w
    using those_defined [OF ns(2) that] .
  then have "\<forall>w\<in>set (split_on (CHR ''.'') s). w \<noteq> [] \<and> list_all is_digit w"
    by (metis option.exhaust parse_octet_bound)
  moreover have "list_all (\<lambda>n. n < 256) ns"
    by (rule those_all [OF ns(2)]) (simp add: parse_octet_bound)
  ultimately show ?thesis
    using ns those_length [OF ns(2)] by simp
qed

lemma parse_ipv4_no_colon:
  assumes "CHR '':'' \<in> set s"
  shows "parse_ipv4 s = None"
proof (rule ccontr)
  assume "parse_ipv4 s \<noteq> None"
  then obtain ns where "parse_ipv4 s = Some ns" by blast
  from parse_ipv4_ok [OF this] have "\<forall>w\<in>set (split_on (CHR ''.'') s). list_all is_digit w" by blast
  then show False
    using split_on_chars [of s "CHR ''.''"] assms by (force simp: list_all_iff is_digit_def)
qed

subsection \<open>IPv6\<close>

lemma hex_digit_value: "n < 16 \<Longrightarrow> is_hex (hex_digit n) \<and> hex_value (hex_digit n) = n"
  by (cases "n < 10")
    (simp_all add: hex_digit_def is_hex_def hex_value_def is_digit_48 digit_value_48 is_digit_def of_char_of)

lemma hex_nat_not_Nil [simp]: "hex_nat n \<noteq> []" "[] \<noteq> hex_nat n"
  by (subst hex_nat.simps, simp)+

lemma hex_nat_chars: "list_all (\<lambda>c. \<exists>d<16. c = hex_digit d) (hex_nat n)"
proof (induction n rule: hex_nat.induct)
  case (1 n)
  have "\<exists>d<16. hex_digit (n mod 16) = hex_digit d" by (rule exI [of _ "n mod 16"]) simp
  then show ?case using 1 by (subst hex_nat.simps) auto
qed

lemma hex_nat_hex: "list_all is_hex (hex_nat n)"
  using hex_nat_chars [of n] hex_digit_value by (auto simp: list_all_iff)

lemma hex_nat_value: "foldl (\<lambda>a c. 16 * a + hex_value c) 0 (hex_nat n) = n"
proof (induction n rule: hex_nat.induct)
  case (1 n)
  then show ?case by (subst hex_nat.simps) (simp add: hex_digit_value)
qed

lemma hex_nat_length: "n < 16 ^ Suc k \<Longrightarrow> length (hex_nat n) \<le> Suc k"
proof (induction k arbitrary: n)
  case (Suc k)
  have "n div 16 < 16 ^ Suc k" using Suc.prems by (simp add: less_mult_imp_div_less)
  then show ?case using Suc.IH [of "n div 16"] by (subst hex_nat.simps) simp
qed (subst hex_nat.simps, simp)

lemma parse_hextet_hex: "n < 65536 \<Longrightarrow> parse_hextet (hex_nat n) = Some n"
  using hex_nat_length [of n 3] by (simp add: parse_hextet_def hex_nat_hex hex_nat_value)

lemma hex_value_bound: "is_hex c \<Longrightarrow> hex_value c < 16"
  by (auto simp: is_hex_def hex_value_def is_digit_def digit_value_def Let_def)

lemma foldl_hex_bound: "list_all is_hex s \<Longrightarrow> foldl (\<lambda>a c. 16 * a + hex_value c) a s < (a + 1) * 16 ^ length s"
proof (induction s arbitrary: a)
  case (Cons c s)
  let ?a = "16 * a + hex_value c"
  have "foldl (\<lambda>a c. 16 * a + hex_value c) ?a s < (?a + 1) * 16 ^ length s"
    using Cons by simp
  also have "\<dots> \<le> ((a + 1) * 16) * 16 ^ length s"
    using hex_value_bound [of c] Cons.prems by (intro mult_right_mono) auto
  finally show ?case by (simp add: algebra_simps)
qed simp

lemma parse_hextet_bound:
  assumes "parse_hextet s = Some n"
  shows "n < 65536"
proof -
  have s: "list_all is_hex s" "length s \<le> 4" "n = foldl (\<lambda>a c. 16 * a + hex_value c) 0 s"
    using assms by (auto simp: parse_hextet_def split: if_splits)
  then have "n < 16 ^ length s" using foldl_hex_bound [of s 0] by simp
  also have "\<dots> \<le> 16 ^ 4" using s(2) by (intro power_increasing) auto
  finally show ?thesis by simp
qed

lemma hex_nat_zero [simp]: "hex_nat 0 = ''0''"
  by code_simp

lemma hex_nat_eq_zero: "hex_nat n = ''0'' \<longleftrightarrow> n = 0"
  using hex_nat_value [of n] hex_nat_value [of 0] by (metis hex_nat_zero)

lemma is_hex_plain: "is_hex c \<Longrightarrow> c \<noteq> CHR '':'' \<and> c \<noteq> CHR ''.''"
  by (auto simp: is_hex_def is_digit_def)

lemma hex_nat_plain: "CHR '':'' \<notin> set (hex_nat n)" "CHR ''.'' \<notin> set (hex_nat n)"
  using hex_nat_hex [of n] is_hex_plain by (auto simp: list_all_iff)

subsection \<open>The compressed run of zero groups\<close>

definition zero_run :: "string list \<Rightarrow> nat \<Rightarrow> nat \<Rightarrow> bool" where
  "zero_run xs start run \<longleftrightarrow> start + run \<le> length xs \<and> (\<forall>j. start \<le> j \<longrightarrow> j < start + run \<longrightarrow> xs ! j = ''0'')"

lemma best_run_zero:
  "xs = ys @ hs \<Longrightarrow> i = length ys \<Longrightarrow> run \<le> i \<Longrightarrow> zero_run xs (i - run) run \<Longrightarrow> zero_run xs (fst best) (snd best) \<Longrightarrow>
   best_run hs i run best = (start, n) \<Longrightarrow> zero_run xs start n"
proof (induction hs i run best arbitrary: ys rule: best_run.induct)
  case (2 h hs i run best)
  have xs: "xs = (ys @ [h]) @ hs" "i + 1 = length (ys @ [h])" using 2(3,4) by simp_all
  show ?case
  proof (cases "h = ''0''")
    case True
    then have run: "zero_run xs (i + 1 - (run + 1)) (run + 1)"
      using 2(3-6) by (auto simp: zero_run_def nth_append less_Suc_eq)
    show ?thesis
      by (rule 2(1) [OF True xs _ run]) (use 2(5,7,8) True run in auto)
  next
    case False
    show ?thesis
      by (rule 2(2) [OF False xs]) (use 2(3,4,7,8) False in \<open>auto simp: zero_run_def\<close>)
  qed
qed simp

lemma best_run_initial: "best_run xs 0 0 (0, 0) = (start, n) \<Longrightarrow> zero_run xs start n"
  by (rule best_run_zero [where ys = "[]"]) (auto simp: zero_run_def)

lemma zero_run_groups:
  assumes "zero_run (map hex_nat gs) start run"
  shows "take start gs @ replicate run 0 @ drop (start + run) gs = gs"
proof -
  have "gs ! j = 0" if "start \<le> j" "j < start + run" for j
  proof -
    have "map hex_nat gs ! j = ''0''" "j < length gs" using assms that by (auto simp: zero_run_def)
    then show ?thesis by (simp add: hex_nat_eq_zero)
  qed
  then have "take run (drop start gs) = replicate run 0"
    using assms by (intro nth_equalityI) (auto simp: zero_run_def)
  then have "replicate run 0 @ drop (start + run) gs = drop start gs"
    by (metis append_take_drop_id drop_drop add.commute)
  then show ?thesis by simp
qed

text \<open>The text around a double colon: the empty part is met exactly at the place of the run.\<close>

lemma skip_positions_around:
  assumes "xs \<noteq> []" "ys \<noteq> []" "[] \<notin> set (tl xs)" "[] \<notin> set (butlast ys)"
  shows "skip_positions (xs @ [] # ys) = [length xs]"
proof -
  have split: "[1..<length (xs @ [] # ys) - 1] = [1..<length xs] @ length xs # [Suc (length xs)..<length xs + length ys]"
  proof -
    have "[1..<length xs + length ys] = [1..<length xs] @ [length xs..<length xs + length ys]"
      using assms(1) by (intro upt_add_eq_append) (simp add: Suc_leI)
    moreover have "[length xs..<length xs + length ys] = length xs # [Suc (length xs)..<length xs + length ys]"
      using assms(2) by (simp add: upt_conv_Cons)
    ultimately show ?thesis by simp
  qed
  have "(xs @ [] # ys) ! i \<noteq> []" if "i \<in> set [1..<length xs]" for i
  proof -
    have "(xs @ [] # ys) ! i = tl xs ! (i - 1)" using that assms(1) by (cases xs) (auto simp: nth_append nth_Cons')
    also have "\<dots> \<in> set (tl xs)" using that by (intro nth_mem) auto
    finally show ?thesis using assms(3) by metis
  qed
  moreover have "(xs @ [] # ys) ! i \<noteq> []" if "i \<in> set [Suc (length xs)..<length xs + length ys]" for i
  proof -
    have i: "i - length xs - 1 < length ys - 1" "length xs < i" using that by auto
    then have "(xs @ [] # ys) ! i = butlast ys ! (i - length xs - 1)"
      by (simp add: nth_append nth_butlast nth_Cons' )
    also have "\<dots> \<in> set (butlast ys)" using i by simp
    finally show ?thesis using assms(4) by metis
  qed
  ultimately show ?thesis
    unfolding skip_positions_def split by (simp add: filter_empty_conv)
qed


lemma hex_nats_not_Nil [simp]:
  "[] \<notin> set (map hex_nat gs)" "[] \<notin> set (tl (map hex_nat gs))" "[] \<notin> set (butlast (map hex_nat gs))"
  by (auto simp: map_tl [symmetric] map_butlast [symmetric])

lemma hex_nats_ends: "gs \<noteq> [] \<Longrightarrow> hd (map hex_nat gs) \<noteq> []" "gs \<noteq> [] \<Longrightarrow> last (map hex_nat gs) \<noteq> []"
  by (simp_all add: hd_map last_map)

lemma parse_hextets: "list_all (\<lambda>n. n < 65536) gs \<Longrightarrow> those (map (\<lambda>n. parse_hextet (hex_nat n)) gs) = Some gs"
  by (rule those_map_Some) (simp add: list_all_iff parse_hextet_hex)

lemma groups_around_hextets:
  fixes gs :: "nat list" and s r :: nat
  defines "A \<equiv> (if s = 0 then [[]] else map hex_nat (take s gs))"
    and "B \<equiv> (if s + r = length gs then [[]] else map hex_nat (drop (s + r) gs))"
  assumes gs: "length gs = 8" "list_all (\<lambda>n. n < 65536) gs" and sr: "s + r \<le> 8" "1 < r"
  shows "groups_around (length A) (A @ [] # B) = Some (take s gs @ replicate r 0 @ drop (s + r) gs)"
proof -
  let ?P = "A @ [] # B"
  have gs_ne: "gs \<noteq> []" using gs(1) by auto
  have A: "A \<noteq> []" "hd A = [] \<longleftrightarrow> s = 0" "length A = (if s = 0 then 1 else s)"
    using gs_ne sr hex_nats_ends(1) [of "take s gs"] by (auto simp: A_def min_def gs(1))
  have B: "B \<noteq> []" "last B = [] \<longleftrightarrow> s + r = 8" "length B = (if s + r = 8 then 1 else 8 - (s + r))"
    using gs(1) gs_ne sr hex_nats_ends(2) [of "drop (s + r) gs"] by (auto simp: B_def)
  have take: "take (if s = 0 then 0 else length A) ?P = map hex_nat (take s gs)"
    using gs(1) sr by (simp add: A_def)
  have drop: "drop (length ?P - (if s + r = 8 then 0 else length B)) ?P = map hex_nat (drop (s + r) gs)"
    using gs(1) by (simp add: B_def)
  have "list_all (\<lambda>n. n < 65536) (take s gs)" "list_all (\<lambda>n. n < 65536) (drop (s + r) gs)"
    using gs(2) by (auto simp: list_all_iff dest: in_set_takeD in_set_dropD)
  note parsed = this [THEN parse_hextets]
  have lo: "length ?P - length A - 1 = length B" by simp
  have ends: "hd ?P = hd A" "last ?P = last B" using A(1) B(1) by simp_all
  have fill: "8 - ((if s = 0 then 0 else length A) + (if s + r = 8 then 0 else length B)) = r"
    using A(3) B(3) sr by auto
  have room: "\<not> 8 \<le> (if s = 0 then 0 else length A) + (if s + r = 8 then 0 else length B)"
    using A(3) B(3) sr by auto
  show ?thesis
    unfolding groups_around_def groups_at_def lo ends Let_def A(2) B(2) fill take drop
    using A(3) B(3) room parsed by (simp add: comp_def)
qed

lemma parse_groups_compressed:
  assumes gs: "length gs = 8" "list_all (\<lambda>n. n < 65536) gs"
  shows "parse_groups (compress_hextets (map hex_nat gs)) = Some gs"
proof -
  obtain s r where run: "best_run (map hex_nat gs) 0 0 (0, 0) = (s, r)" by fastforce
  note zero = best_run_initial [OF run]
  show ?thesis
  proof (cases "r \<le> 1")
    case True
    have "skip_positions (map hex_nat gs) = []"
      using gs(1) by (simp add: skip_positions_def filter_empty_conv)
    moreover have "hd (map hex_nat gs) \<noteq> []" "last (map hex_nat gs) \<noteq> []"
      using gs(1) by (intro hex_nats_ends, force)+
    ultimately show ?thesis
      using True gs parse_hextets [OF gs(2)] run
      by (simp add: compress_hextets_def parse_groups_def comp_def del: list.map_sel)
  next
    case False
    let ?A = "if s = 0 then [[]] else map hex_nat (take s gs)"
    let ?B = "if s + r = length gs then [[]] else map hex_nat (drop (s + r) gs)"
    have sr: "s + r \<le> 8" "1 < r" using zero gs(1) False by (auto simp: zero_run_def)
    have c: "compress_hextets (map hex_nat gs) = ?A @ [] # ?B"
      using run False sr gs(1) by (auto simp: compress_hextets_def Let_def take_map drop_map)
    have "skip_positions (?A @ [] # ?B) = [length ?A]"
      using sr gs(1) by (intro skip_positions_around) auto
    moreover have "length (?A @ [] # ?B) \<le> 9" using sr gs(1) by auto
    ultimately have "parse_groups (?A @ [] # ?B) = groups_around (length ?A) (?A @ [] # ?B)"
      unfolding parse_groups_def by simp
    also have "\<dots> = Some (take s gs @ replicate r 0 @ drop (s + r) gs)"
      by (rule groups_around_hextets [OF gs sr])
    finally show ?thesis using zero_run_groups [OF zero] c by simp
  qed
qed


lemma compress_hextets_shape:
  assumes "length hs = 8" "[] \<notin> set hs"
  shows "3 \<le> length (compress_hextets hs) \<and> set (compress_hextets hs) \<subseteq> insert [] (set hs)"
proof -
  obtain s r where run: "best_run hs 0 0 (0, 0) = (s, r)" by fastforce
  have "s + r \<le> 8" using best_run_initial [OF run] assms(1) by (simp add: zero_run_def)
  moreover have "set (take s hs) \<subseteq> set hs" "set (drop (s + r) hs) \<subseteq> set hs"
    by (rule set_take_subset, rule set_drop_subset)
  ultimately show ?thesis
    using run assms(1) by (auto simp: compress_hextets_def Let_def)
qed

lemma format_ipv6_split:
  assumes "length gs = 8"
  shows "split_on (CHR '':'') (format_ipv6 gs) = compress_hextets (map hex_nat gs)"
  unfolding format_ipv6_def
proof (rule split_join)
  note shape = compress_hextets_shape [of "map hex_nat gs", OF _ hex_nats_not_Nil(1)]
  show "compress_hextets (map hex_nat gs) \<noteq> []" using shape assms by auto
  show "\<forall>w\<in>set (compress_hextets (map hex_nat gs)). CHR '':'' \<notin> set w"
    using shape assms hex_nat_plain(1) by fastforce
qed

lemma ipv6_roundtrip:
  assumes "length gs = 8" "list_all (\<lambda>n. n < 65536) gs"
  shows "parse_ipv6 (format_ipv6 gs) = Some gs"
proof -
  let ?P = "compress_hextets (map hex_nat gs)"
  have shape: "3 \<le> length ?P" "set ?P \<subseteq> insert [] (hex_nat ` set gs)"
    using compress_hextets_shape [of "map hex_nat gs", OF _ hex_nats_not_Nil(1)] assms(1) by auto
  then have "last ?P \<in> insert [] (hex_nat ` set gs)"
    by (metis last_in_set list.size(3) not_numeral_le_zero subsetD)
  then have "CHR ''.'' \<notin> set (last ?P)" using hex_nat_plain(2) by auto
  then show ?thesis
    using shape(1) parse_groups_compressed [OF assms]
    by (simp add: parse_ipv6_def format_ipv6_split assms(1) expand_ipv4_def)
qed

lemma parse_hextets_bound: "those (map parse_hextet ws) = Some gs \<Longrightarrow> list_all (\<lambda>n. n < 65536) gs"
  by (erule those_all) (rule parse_hextet_bound)

lemma groups_at_ok:
  assumes "groups_at hi lo parts = Some gs" "hi \<le> length parts" "lo \<le> length parts"
  shows "length gs = 8 \<and> list_all (\<lambda>n. n < 65536) gs"
proof -
  obtain a b where ab: "those (map parse_hextet (take hi parts)) = Some a"
      "those (map parse_hextet (drop (length parts - lo) parts)) = Some b"
    and gs: "gs = a @ replicate (8 - (hi + lo)) 0 @ b" and lt: "hi + lo < 8"
    using assms(1) unfolding groups_at_def by (auto split: if_splits option.splits)
  then show ?thesis
    using those_length [OF ab(1)] those_length [OF ab(2)] assms(2,3)
      parse_hextets_bound [OF ab(1)] parse_hextets_bound [OF ab(2)]
    unfolding gs by (auto simp: list_all_iff)
qed

lemma groups_around_ok:
  "groups_around i parts = Some gs \<Longrightarrow> i < length parts \<Longrightarrow> length gs = 8 \<and> list_all (\<lambda>n. n < 65536) gs"
  unfolding groups_around_def Let_def by (rule groups_at_ok) (assumption | simp split: if_splits)+

lemma parse_groups_ok:
  assumes "parse_groups parts = Some gs"
  shows "length gs = 8 \<and> list_all (\<lambda>n. n < 65536) gs"
proof (cases "skip_positions parts")
  case Nil
  then have "length parts = 8" "those (map parse_hextet parts) = Some gs"
    using assms by (auto simp: parse_groups_def split: if_splits)
  then show ?thesis using those_length [of "map parse_hextet parts" gs] parse_hextets_bound by simp
next
  case (Cons i js)
  then have "js = []" "groups_around i parts = Some gs"
    using assms by (auto simp: parse_groups_def split: if_splits list.splits)
  moreover have "i \<in> set (skip_positions parts)" using Cons by simp
  then have "i < length parts" by (auto simp: skip_positions_def)
  ultimately show ?thesis using groups_around_ok by blast
qed

lemma parse_ipv6_ok: "parse_ipv6 s = Some gs \<Longrightarrow> length gs = 8 \<and> list_all (\<lambda>n. n < 65536) gs"
  by (auto simp: parse_ipv6_def Let_def dest!: parse_groups_ok split: if_splits option.splits)

lemma parse_ipv6_colon: "parse_ipv6 s = Some gs \<Longrightarrow> CHR '':'' \<in> set s"
  by (rule ccontr) (simp add: parse_ipv6_def split_on_none)

lemma format_ipv6_colon: "length gs = 8 \<Longrightarrow> list_all (\<lambda>n. n < 65536) gs \<Longrightarrow> CHR '':'' \<in> set (format_ipv6 gs)"
  using parse_ipv6_colon ipv6_roundtrip by blast

subsection \<open>Addresses\<close>

lemma parse_ip_ok: "parse_ip s = Some a \<Longrightarrow> ip_ok a"
  by (auto simp: parse_ip_def dest: parse_ipv4_ok parse_ipv6_ok split: option.splits)

theorem ip_roundtrip: "ip_ok a \<Longrightarrow> parse_ip (compressed a) = Some a"
  by (cases a) (simp_all add: parse_ip_def ipv4_roundtrip ipv6_roundtrip parse_ipv4_no_colon format_ipv6_colon)

text \<open>The characters of the compressed text.\<close>

definition ip_char :: "char \<Rightarrow> bool" where
  "ip_char c \<longleftrightarrow> is_digit c \<or> c = CHR ''.'' \<or> c = CHR '':'' \<or> (97 \<le> (of_char c :: nat) \<and> of_char c \<le> (102 :: nat))"

lemma hex_digit_ip_char: "n < 16 \<Longrightarrow> ip_char (hex_digit n)"
  by (cases "n < 10") (simp_all add: hex_digit_def ip_char_def is_digit_48 of_char_of)

lemma hex_nat_ip_char: "c \<in> set (hex_nat n) \<Longrightarrow> ip_char c"
  using hex_nat_chars [of n] hex_digit_ip_char by (auto simp: list_all_iff)

lemma compressed_chars:
  assumes "ip_ok a" "c \<in> set (compressed a)"
  shows "ip_char c"
proof (cases a)
  case (IPv4 ns)
  then have "c \<in> {CHR ''.''} \<union> (\<Union>n\<in>set ns. set (dec_nat n))"
    using assms join_chars [of "''.''" "map dec_nat ns"] by (auto simp: format_ipv4_def)
  then show ?thesis using dec_nat_digits by (auto simp: ip_char_def)
next
  case (IPv6 gs)
  then have "c \<in> {CHR '':''} \<union> (\<Union>w\<in>set (compress_hextets (map hex_nat gs)). set w)"
    using assms join_chars [of "'':''" "compress_hextets (map hex_nat gs)"] by (auto simp: format_ipv6_def)
  moreover have "set (compress_hextets (map hex_nat gs)) \<subseteq> insert [] (hex_nat ` set gs)"
    using compress_hextets_shape [of "map hex_nat gs", OF _ hex_nats_not_Nil(1)] assms IPv6 by auto
  ultimately have "c = CHR '':'' \<or> (\<exists>n. c \<in> set (hex_nat n))" by auto
  then show ?thesis using hex_nat_ip_char by (auto simp: ip_char_def [of "CHR '':''"])
qed

lemma compressed_not_Nil: "ip_ok a \<Longrightarrow> compressed a \<noteq> []"
  using ip_roundtrip [of a] by (auto simp: parse_ip_def parse_ipv4_def parse_ipv6_def)

subsection \<open>The characters of an accepted text\<close>

definition ip_text_char :: "char \<Rightarrow> bool" where
  "ip_text_char c \<longleftrightarrow> is_hex c \<or> c = CHR '':'' \<or> c = CHR ''.''"

lemma parse_hextets_hex: "those (map parse_hextet ws) = Some gs \<Longrightarrow> w \<in> set ws \<Longrightarrow> list_all is_hex w"
  by (drule (1) those_defined) (auto simp: parse_hextet_def split: if_splits)

lemma groups_around_hex:
  assumes run: "groups_around i parts = Some gs" and i: "i \<in> set (skip_positions parts)" and w: "w \<in> set parts"
  shows "list_all is_hex w"
proof -
  have bounds: "0 < i" "i < length parts - 1" "parts ! i = []" using i by (auto simp: skip_positions_def)
  have hd_last: "hd parts = parts ! 0" "last parts = parts ! (length parts - 1)"
    using bounds by (cases parts; simp add: hd_conv_nth last_conv_nth)+
  obtain j where j: "j < length parts" "w = parts ! j" using w by (metis in_set_conv_nth)
  let ?hi = "if hd parts = [] then 0 else i"
  let ?lo = "if last parts = [] then 0 else length parts - i - 1"
  have ends: "hd parts = [] \<Longrightarrow> i = 1" "last parts = [] \<Longrightarrow> length parts - i - 1 = 1"
    and at: "groups_at ?hi ?lo parts = Some gs"
    using run by (auto simp: groups_around_def Let_def split: if_splits)
  have parsed: "those (map parse_hextet (take ?hi parts)) \<noteq> None" "those (map parse_hextet (drop (length parts - ?lo) parts)) \<noteq> None"
    using at unfolding groups_at_def by (auto split: if_splits option.splits)
  consider "j = i" | "j < i" "hd parts = []" | "j < i" "hd parts \<noteq> []" | "i < j" "last parts = []" | "i < j" "last parts \<noteq> []"
    by linarith
  then show ?thesis
  proof cases
    case 1 then show ?thesis using bounds j by simp
  next
    case 2 then show ?thesis using ends hd_last j by simp
  next
    case 3
    then have "w \<in> set (take ?hi parts)" using j by (auto simp: in_set_conv_nth)
    then show ?thesis using parsed(1) parse_hextets_hex by blast
  next
    case 4
    then have "j = length parts - 1" using ends(2) j by linarith
    then show ?thesis using 4 hd_last j by simp
  next
    case 5
    then have "w = drop (length parts - ?lo) parts ! (j - i - 1)" "j - i - 1 < length (drop (length parts - ?lo) parts)"
      using j bounds by (auto simp: nth_drop)
    then have "w \<in> set (drop (length parts - ?lo) parts)" by (metis nth_mem)
    then show ?thesis using parsed(2) parse_hextets_hex by blast
  qed
qed

lemma parse_groups_hex:
  assumes "parse_groups parts = Some gs" "w \<in> set parts"
  shows "list_all is_hex w"
proof (cases "skip_positions parts")
  case Nil
  then have "those (map parse_hextet parts) = Some gs"
    using assms by (auto simp: parse_groups_def split: if_splits)
  then show ?thesis using parse_hextets_hex assms(2) by blast
next
  case (Cons i js)
  then have "groups_around i parts = Some gs"
    using assms by (auto simp: parse_groups_def split: if_splits list.splits)
  then show ?thesis using groups_around_hex assms(2) Cons by (metis list.set_intros(1))
qed

lemma ipv4_word_text: "parse_ipv4 s = Some ns \<Longrightarrow> c \<in> set s \<Longrightarrow> is_digit c \<or> c = CHR ''.''"
  using parse_ipv4_ok [of s ns] split_on_chars [of s "CHR ''.''"] by (fastforce simp: list_all_iff)

lemma ipv4_last_text:
  assumes "parse_ipv4 s = Some ns"
  shows "s \<noteq> [] \<and> last s \<noteq> CHR ''.''"
proof -
  have "last (split_on (CHR ''.'') s) \<noteq> []" using parse_ipv4_ok [OF assms] last_in_set split_on_not_Nil by metis
  moreover have "s \<noteq> []" using assms by (auto simp: parse_ipv4_def)
  ultimately show ?thesis using split_on_last by blast
qed

lemma ipv6_part_text:
  assumes "parse_ipv6 s = Some gs" "w \<in> set (split_on (CHR '':'') s)"
  shows "list_all is_hex w \<or> w = last (split_on (CHR '':'') s) \<and> parse_ipv4 w \<noteq> None"
proof -
  let ?parts = "split_on (CHR '':'') s"
  obtain parts where e: "expand_ipv4 ?parts = Some parts" and p: "parse_groups parts = Some gs"
    using assms by (auto simp: parse_ipv6_def Let_def split: if_splits option.splits)
  show ?thesis
  proof (cases "CHR ''.'' \<in> set (last ?parts)")
    case True
    then have "parse_ipv4 (last ?parts) \<noteq> None" "set (butlast ?parts) \<subseteq> set parts"
      using e by (auto simp: expand_ipv4_def split: option.splits list.splits)
    moreover have "w = last ?parts \<or> w \<in> set (butlast ?parts)"
      using assms(2) by (metis append_butlast_last_id in_set_conv_decomp rotate1.simps(2) set_ConsD set_rotate1 split_on_not_Nil)
    ultimately show ?thesis using parse_groups_hex [OF p] by blast
  next
    case False
    then show ?thesis using e parse_groups_hex [OF p] assms(2) by (simp add: expand_ipv4_def)
  qed
qed

lemma split_on_last_word: "s \<noteq> [] \<Longrightarrow> last s \<noteq> c \<Longrightarrow> last (split_on c s) \<noteq> [] \<and> last (last (split_on c s)) = last s"
proof (induction s)
  case (Cons x s)
  obtain w ws where "split_on c s = w # ws" by (cases "split_on c s") simp_all
  then show ?case using Cons by (cases "s = []") (auto split: if_splits)
qed simp

lemma ipv6_text:
  assumes "parse_ipv6 s = Some gs"
  shows "list_all ip_text_char s \<and> last s \<noteq> CHR ''.''"
proof -
  let ?parts = "split_on (CHR '':'') s"
  have word: "ip_text_char c" if "w \<in> set ?parts" "c \<in> set w" for w c
    using ipv6_part_text [OF assms that(1)] ipv4_word_text [of w] that(2)
    by (auto simp: ip_text_char_def is_hex_def list_all_iff)
  have "list_all ip_text_char s"
    using split_on_chars [of s "CHR '':''"] word by (fastforce simp: list_all_iff ip_text_char_def [of "CHR '':''"])
  moreover have "last s \<noteq> CHR ''.''"
  proof
    assume dot: "last s = CHR ''.''"
    have "s \<noteq> []" using parse_ipv6_colon [OF assms] by auto
    with dot have l: "last ?parts \<noteq> []" "last (last ?parts) = CHR ''.''"
      using split_on_last_word [of s "CHR '':''"] by simp_all
    then have "CHR ''.'' \<in> set (last ?parts)" by (metis last_in_set)
    then have "\<not> list_all is_hex (last ?parts)" using is_hex_plain by (auto simp: list_all_iff)
    then obtain ns where "parse_ipv4 (last ?parts) = Some ns"
      using ipv6_part_text [OF assms last_in_set [OF split_on_not_Nil]] by auto
    then show False using ipv4_last_text l(2) by blast
  qed
  ultimately show ?thesis ..
qed

lemma parse_ip_text:
  assumes "parse_ip s = Some a"
  shows "list_all ip_text_char s \<and> s \<noteq> [] \<and> last s \<noteq> CHR ''.''"
proof (cases "parse_ipv4 s")
  case None
  then obtain gs where "parse_ipv6 s = Some gs" using assms by (auto simp: parse_ip_def)
  then show ?thesis using ipv6_text parse_ipv6_colon by fastforce
next
  case (Some ns)
  then show ?thesis
    using ipv4_word_text [OF Some] ipv4_last_text [OF Some] by (auto simp: list_all_iff ip_text_char_def is_hex_def)
qed

end
