(* ===== verification/Host_Normalizer.thy ===== *)
theory Host_Normalizer imports
  Ip_Address
  Host_Task_Queue
begin

text \<open>
  The canonical host key, \<open>crawler/governance/domains/host_normalizer.py\<close>. IP addresses and
  the fast paths of the \<open>idna\<close> codec are modelled; its conversion of names outside ASCII, and
  whether it reads back a name with an \<open>xn--\<close> label, are the two functions of an \<open>idna_codec\<close>.
  Every normalised host is a fixed point, whatever the codec does, which discharges the
  contract \<open>host_canonical\<close> of the queues for the code's own normaliser.
\<close>

section \<open>The codec\<close>

text \<open>\<open>idna_to_ascii\<close> is \<open>None\<close> where \<open>encode\<close> raises; \<open>idna_reads_back\<close> is false where \<open>decode\<close> raises.\<close>

record idna_codec =
  idna_to_ascii :: "string \<Rightarrow> string option"
  idna_reads_back :: "string \<Rightarrow> bool"

definition is_ascii :: "string \<Rightarrow> bool" where
  "is_ascii s = list_all (\<lambda>c. (of_char c :: nat) < 128) s"

fun contains_text :: "string \<Rightarrow> string \<Rightarrow> bool" where
  "contains_text [] p = (p = [])"
| "contains_text (c # s) p = (starts_with (c # s) p \<or> contains_text s p)"

definition encode_idna :: "idna_codec \<Rightarrow> string \<Rightarrow> string option" where
  "encode_idna codec s =
    (if is_ascii s then
       (let labels = split_on (CHR ''.'') s in
        if list_all (\<lambda>l. 0 < length l \<and> length l < 64) (butlast labels) \<and> length (last labels) < 64
        then Some s else None)
     else (case idna_to_ascii codec s of None \<Rightarrow> None | Some r \<Rightarrow> if is_ascii r then Some r else None))"

definition decodes_idna :: "idna_codec \<Rightarrow> string \<Rightarrow> bool" where
  "decodes_idna codec s = (\<not> contains_text s ''xn--'' \<or> idna_reads_back codec s)"

section \<open>The normaliser\<close>

definition ascii_alnum :: "char \<Rightarrow> bool" where
  "ascii_alnum c \<longleftrightarrow> (let n = of_char c :: nat in 48 \<le> n \<and> n \<le> 57 \<or> 65 \<le> n \<and> n \<le> 90 \<or> 97 \<le> n \<and> n \<le> 122)"

definition valid_dns_label :: "string \<Rightarrow> bool" where
  "valid_dns_label l =
    (if l = [] \<or> 63 < length l then False
     else if starts_with l ''-'' \<or> ends_with l ''-'' then False
     else list_all (\<lambda>c. ascii_alnum c \<or> c = CHR ''-'') l)"

definition remove_suffix :: "string \<Rightarrow> string \<Rightarrow> string" where
  "remove_suffix s p = (if ends_with s p then take (length s - length p) s else s)"

definition dns_host :: "idna_codec \<Rightarrow> string \<Rightarrow> string option" where
  "dns_host codec candidate = (case encode_idna codec candidate of
     None \<Rightarrow> None
   | Some encoded \<Rightarrow>
      (let canonical = py_lower encoded; labels = split_on (CHR ''.'') canonical in
       if \<not> decodes_idna codec canonical then None
       else if 253 < length canonical then None
       else if list_all (\<lambda>l. l \<noteq> [] \<and> list_all is_digit l) labels then None
       else if \<not> list_all valid_dns_label labels then None
       else Some canonical))"

definition is_ipv6 :: "ip_address \<Rightarrow> bool" where
  "is_ipv6 a = (case a of IPv6 _ \<Rightarrow> True | IPv4 _ \<Rightarrow> False)"

text \<open>The text between the brackets, and whether there were any; \<open>None\<close> where one is missing.\<close>

definition strip_brackets :: "string \<Rightarrow> (bool \<times> string) option" where
  "strip_brackets s =
    (let bracketed = starts_with s ''['' \<or> ends_with s '']'' in
     if \<not> bracketed then Some (False, s)
     else if \<not> (starts_with s ''['' \<and> ends_with s '']'') then None
     else Some (True, py_strip (butlast (tl s))))"

definition normalize_candidate :: "idna_codec \<Rightarrow> bool \<Rightarrow> string \<Rightarrow> string option" where
  "normalize_candidate codec bracketed text =
    (let candidate = py_lower (remove_suffix text ''.'') in
     if candidate = [] \<or> CHR ''%'' \<in> set candidate then None
     else (case parse_ip candidate of
         Some a \<Rightarrow> if bracketed \<and> \<not> is_ipv6 a then None else Some (py_lower (compressed a))
       | None \<Rightarrow> if bracketed \<or> CHR '':'' \<in> set candidate then None else dns_host codec candidate))"

definition normalize_host :: "idna_codec \<Rightarrow> host \<Rightarrow> host" where
  "normalize_host codec raw = (case raw of
     None \<Rightarrow> None
   | Some text \<Rightarrow>
      (case strip_brackets (py_strip text) of
         None \<Rightarrow> None
       | Some (bracketed, candidate) \<Rightarrow> if candidate = [] then None else normalize_candidate codec bracketed candidate))"

section \<open>Lemmas\<close>

text \<open>The characters a normalised host consists of.\<close>

definition host_char :: "char \<Rightarrow> bool" where
  "host_char c \<longleftrightarrow> ascii_alnum c \<and> py_lower_char c = c \<or> c \<in> {CHR ''-'', CHR ''.'', CHR '':''}"

lemma host_char_lower: "host_char c \<Longrightarrow> py_lower_char c = c"
  by (auto simp: host_char_def py_lower_char_def lower_code_def)

lemma host_char_space: "host_char c \<Longrightarrow> \<not> py_space c"
  by (auto simp: host_char_def py_space_def space_code_def ascii_alnum_def)

lemma host_char_plain: "host_char c \<Longrightarrow> c \<noteq> CHR ''['' \<and> c \<noteq> CHR '']'' \<and> c \<noteq> CHR ''%''"
  by (auto simp: host_char_def ascii_alnum_def)

lemma host_chars_lower: "list_all host_char s \<Longrightarrow> py_lower s = s"
  by (induction s) (auto simp: py_lower_def host_char_lower)

lemma py_strip_plain:
  assumes "\<And>c. c \<in> set s \<Longrightarrow> \<not> py_space c"
  shows "py_strip s = s"
proof -
  have "dropWhile py_space s = s" "dropWhile py_space (rev s) = rev s"
    using assms by (cases "s = []"; simp add: dropWhile_eq_self_iff hd_rev)+
  then show ?thesis by (simp add: py_strip_def)
qed

lemma host_chars_strip: "list_all host_char s \<Longrightarrow> py_strip s = s"
  by (rule py_strip_plain) (simp add: list_all_iff host_char_space)

lemma starts_with_single: "starts_with s [c] \<longleftrightarrow> s \<noteq> [] \<and> hd s = c"
  by (cases s) auto

lemma ends_with_single: "ends_with s [c] \<longleftrightarrow> s \<noteq> [] \<and> last s = c"
  by (simp add: ends_with_def starts_with_single hd_rev)

lemma host_chars_brackets:
  assumes "list_all host_char s"
  shows "strip_brackets s = Some (False, s)"
proof -
  have "\<not> starts_with s ''['' \<and> \<not> ends_with s '']''"
    using assms host_char_plain [of "hd s"] host_char_plain [of "last s"]
    by (cases "s = []") (simp_all add: starts_with_single ends_with_single list_all_iff)
  then show ?thesis by (simp add: strip_brackets_def)
qed

lemma remove_dot_id: "s = [] \<or> last s \<noteq> CHR ''.'' \<Longrightarrow> remove_suffix s ''.'' = s"
  by (auto simp: remove_suffix_def ends_with_single)

text \<open>A normalised host is taken to the last stage unchanged.\<close>

lemma normalize_canonical_text:
  assumes "list_all host_char s" "s \<noteq> []" "last s \<noteq> CHR ''.''"
  shows "normalize_host codec (Some s) = (case parse_ip s of
      Some a \<Rightarrow> Some (py_lower (compressed a))
    | None \<Rightarrow> if CHR '':'' \<in> set s then None else dns_host codec s)"
proof -
  have "CHR ''%'' \<notin> set s" using assms(1) host_char_plain by (auto simp: list_all_iff)
  then show ?thesis
    using assms
    by (auto simp: normalize_host_def host_chars_strip host_chars_brackets normalize_candidate_def
        remove_dot_id host_chars_lower Let_def split: option.splits)
qed

subsection \<open>IP addresses\<close>

lemma is_digit_alnum: "is_digit c \<Longrightarrow> ascii_alnum c \<and> py_lower_char c = c"
  by (simp add: is_digit_def ascii_alnum_def py_lower_char_def lower_code_def)

lemma ip_char_host_char: "ip_char c \<Longrightarrow> host_char c"
  by (auto simp: ip_char_def host_char_def is_digit_alnum)
    (simp_all add: ascii_alnum_def py_lower_char_def lower_code_def)

lemma compressed_host_chars: "ip_ok a \<Longrightarrow> list_all host_char (compressed a)"
  by (auto simp: list_all_iff intro: ip_char_host_char compressed_chars)

lemma last_join_with:
  "ws \<noteq> [] \<Longrightarrow> last ws \<noteq> [] \<Longrightarrow> join_with sep ws \<noteq> [] \<and> last (join_with sep ws) = last (last ws)"
  by (induction sep ws rule: join_with.induct) auto

lemma compressed_last:
  assumes "ip_ok a"
  shows "last (compressed a) \<noteq> CHR ''.''"
proof (cases a)
  case (IPv4 ns)
  then have ns: "ns \<noteq> []" using assms by auto
  have "is_digit (last (dec_nat (last ns)))" by (rule dec_nat_digits [where n = "last ns"]) simp
  moreover have "last (compressed a) = last (dec_nat (last ns))"
    using ns IPv4 by (simp add: format_ipv4_def last_join_with last_map)
  ultimately show ?thesis using dot_not_digit by metis
next
  case (IPv6 gs)
  have "CHR ''.'' \<notin> set (compressed a)"
  proof
    assume "CHR ''.'' \<in> set (compressed a)"
    then obtain w where "w \<in> set (compress_hextets (map hex_nat gs))" "CHR ''.'' \<in> set w"
      using join_chars [of "'':''" "compress_hextets (map hex_nat gs)"] IPv6 by (auto simp: format_ipv6_def)
    then show False
      using compress_hextets_shape [of "map hex_nat gs", OF _ hex_nats_not_Nil(1)] assms IPv6 hex_nat_plain(2) by fastforce
  qed
  then show ?thesis using compressed_not_Nil [OF assms] last_in_set by metis
qed

lemma normalize_compressed:
  assumes "ip_ok a"
  shows "normalize_host codec (Some (compressed a)) = Some (compressed a)"
  using normalize_canonical_text [OF compressed_host_chars [OF assms] compressed_not_Nil [OF assms] compressed_last [OF assms]]
  by (simp add: ip_roundtrip [OF assms] host_chars_lower compressed_host_chars [OF assms])

subsection \<open>Names\<close>

definition dns_name :: "idna_codec \<Rightarrow> string \<Rightarrow> bool" where
  "dns_name codec s \<longleftrightarrow> py_lower s = s \<and> length s \<le> 253 \<and> decodes_idna codec s \<and>
    list_all valid_dns_label (split_on (CHR ''.'') s) \<and> \<not> list_all (list_all is_digit) (split_on (CHR ''.'') s)"

lemma valid_label_chars: "valid_dns_label l \<Longrightarrow> l \<noteq> [] \<and> length l < 64 \<and> (\<forall>c\<in>set l. ascii_alnum c \<or> c = CHR ''-'')"
  by (auto simp: valid_dns_label_def list_all_iff split: if_splits)

lemma labels_not_Nil: "list_all valid_dns_label ls \<Longrightarrow> list_all (\<lambda>l. l \<noteq> [] \<and> list_all is_digit l) ls = list_all (list_all is_digit) ls"
  using valid_label_chars by (auto simp: list_all_iff)

lemma dns_host_name: "dns_host codec s = Some r \<Longrightarrow> dns_name codec r"
  by (auto simp: dns_host_def dns_name_def Let_def labels_not_Nil split: option.splits if_splits)

lemma py_lower_fixed: "py_lower s = s \<Longrightarrow> c \<in> set s \<Longrightarrow> py_lower_char c = c"
  by (induction s) (auto simp: py_lower_def)

lemma dns_name_chars:
  assumes "dns_name codec s"
  shows "list_all host_char s" "CHR '':'' \<notin> set s" "is_ascii s"
proof -
  have c: "ascii_alnum c \<and> py_lower_char c = c \<or> c = CHR ''-'' \<or> c = CHR ''.''" if "c \<in> set s" for c
  proof -
    have "py_lower_char c = c" using assms by (intro py_lower_fixed [OF _ that]) (simp add: dns_name_def)
    moreover have "c = CHR ''.'' \<or> (\<exists>l\<in>set (split_on (CHR ''.'') s). c \<in> set l)"
      using that split_on_chars [of s "CHR ''.''"] by blast
    moreover have "\<forall>l\<in>set (split_on (CHR ''.'') s). \<forall>c\<in>set l. ascii_alnum c \<or> c = CHR ''-''"
      using assms valid_label_chars unfolding dns_name_def list_all_iff by blast
    ultimately show ?thesis by blast
  qed
  then show "list_all host_char s" by (auto simp: list_all_iff host_char_def)
  show "CHR '':'' \<notin> set s" using c by (fastforce simp: ascii_alnum_def)
  show "is_ascii s"
    unfolding is_ascii_def list_all_iff
  proof
    fix a
    assume "a \<in> set s"
    from c [OF this] show "(of_char a :: nat) < 128" by (auto simp: ascii_alnum_def Let_def)
  qed
qed

lemma dns_name_last:
  assumes "dns_name codec s"
  shows "s \<noteq> []" "last s \<noteq> CHR ''.''"
proof -
  have l: "last (split_on (CHR ''.'') s) \<noteq> []" "hd (split_on (CHR ''.'') s) \<noteq> []"
    using assms valid_label_chars by (simp_all add: dns_name_def list_all_iff)
  then show s: "s \<noteq> []" by auto
  show "last s \<noteq> CHR ''.''" using split_on_last [OF s] l(1) by blast
qed

lemma dns_name_not_ip:
  assumes "dns_name codec s"
  shows "parse_ip s = None"
proof -
  have "parse_ipv4 s = None"
    using assms parse_ipv4_ok [of s] by (cases "parse_ipv4 s") (auto simp: dns_name_def list_all_iff)
  moreover have "parse_ipv6 s = None"
    using dns_name_chars(2) [OF assms] parse_ipv6_colon [of s] by (cases "parse_ipv6 s") auto
  ultimately show ?thesis by (simp add: parse_ip_def)
qed

lemma dns_host_fixed:
  assumes "dns_name codec s"
  shows "dns_host codec s = Some s"
proof -
  let ?ls = "split_on (CHR ''.'') s"
  have labels: "\<And>l. l \<in> set ?ls \<Longrightarrow> 0 < length l \<and> length l < 64"
    using assms valid_label_chars by (auto simp: dns_name_def list_all_iff)
  then have "encode_idna codec s = Some s"
    using dns_name_chars(3) [OF assms] by (auto simp: encode_idna_def Let_def list_all_iff dest: in_set_butlastD)
  then show ?thesis
    using assms by (auto simp: dns_host_def dns_name_def Let_def labels_not_Nil)
qed

lemma normalize_dns_name: "dns_name codec s \<Longrightarrow> normalize_host codec (Some s) = Some s"
  using normalize_canonical_text [of s codec] dns_name_chars [of codec s] dns_name_last [of codec s]
  by (simp add: dns_name_not_ip dns_host_fixed)

subsection \<open>The contract of the queues\<close>

lemma normalize_cases:
  assumes "normalize_host codec raw = Some r"
  shows "(\<exists>a. ip_ok a \<and> r = compressed a) \<or> dns_name codec r"
proof -
  obtain b u where "normalize_candidate codec b u = Some r"
    using assms by (auto simp: normalize_host_def split: option.splits if_splits)
  then consider a where "ip_ok a" "r = py_lower (compressed a)" | s where "dns_host codec s = Some r"
    by (auto simp: normalize_candidate_def Let_def dest: parse_ip_ok split: if_splits option.splits)
  then show ?thesis
    by cases (auto simp: host_chars_lower compressed_host_chars dns_host_name)
qed

lemma normalize_fixed: "normalize_host codec raw = Some r \<Longrightarrow> normalize_host codec (Some r) = Some r"
  using normalize_cases normalize_compressed normalize_dns_name by metis

interpretation hosts: host_canonical "normalize_host codec" for codec
proof
  show "normalize_host codec (normalize_host codec h) = normalize_host codec h" for h
    by (cases "normalize_host codec h") (simp_all add: normalize_host_def [of codec None] normalize_fixed)
qed (simp add: normalize_host_def)


subsection \<open>Texts of addresses\<close>

lemma ip_text_char_marks: "ip_text_char d \<Longrightarrow> \<not> py_space d \<and> d \<noteq> CHR ''['' \<and> d \<noteq> CHR '']'' \<and> d \<noteq> CHR ''%''"
  by (auto simp: ip_text_char_def is_hex_def is_digit_def py_space_def space_code_def Let_def)

lemma py_lower_marks [simp]:
  "py_lower_char (CHR ''.'') = CHR ''.''" "py_lower_char (CHR ''['') = CHR ''[''" "py_lower_char (CHR '']'') = CHR '']''"
  by code_simp+

lemma ip_text_char_plain: "ip_text_char (py_lower_char c) \<Longrightarrow> \<not> py_space c \<and> c \<noteq> CHR ''['' \<and> c \<noteq> CHR '']''"
  using ip_text_char_marks [of "py_lower_char c"] by auto

lemma normalize_ip_candidate:
  assumes "parse_ip (py_lower s) = Some a" "s \<noteq> []" "last s \<noteq> CHR ''.''" "CHR ''%'' \<notin> set (py_lower s)" "b \<longrightarrow> is_ipv6 a"
  shows "normalize_candidate codec b s = Some (compressed a)"
  using assms parse_ip_ok [OF assms(1)]
  by (auto simp: normalize_candidate_def Let_def remove_dot_id py_lower_def host_chars_lower [unfolded py_lower_def] compressed_host_chars)

lemma ip_text_normalizes:
  assumes "parse_ip (py_lower s) = Some a"
  shows "normalize_host codec (Some s) = Some (compressed a)"
    and "is_ipv6 a \<Longrightarrow> normalize_host codec (Some (''['' @ s @ '']'')) = Some (compressed a)"
proof -
  have c: "ip_text_char (py_lower_char c)" if "c \<in> set s" for c
    using parse_ip_text [OF assms] that by (simp add: list_all_iff py_lower_def)
  have s: "s \<noteq> []" "last s \<noteq> CHR ''.''"
    using parse_ip_text [OF assms] by (auto simp: py_lower_def last_map)
  have "CHR ''%'' \<notin> set (py_lower s)"
    using parse_ip_text [OF assms] ip_text_char_marks by (auto simp: list_all_iff)
  note candidate = normalize_ip_candidate [OF assms s this]
  have strip: "py_strip s = s" "py_strip (''['' @ s @ '']'') = ''['' @ s @ '']''"
    using ip_text_char_plain [OF c] by (auto intro!: py_strip_plain simp: py_space_def space_code_def)
  have "hd s \<noteq> CHR ''[''" "last s \<noteq> CHR '']''"
    using ip_text_char_plain [OF c] s(1) by simp_all
  then have plain: "strip_brackets s = Some (False, s)"
    by (simp add: strip_brackets_def starts_with_single ends_with_single)
  have brackets: "strip_brackets (''['' @ s @ '']'') = Some (True, s)"
    using strip(1) by (simp add: strip_brackets_def starts_with_single ends_with_single)
  show "normalize_host codec (Some s) = Some (compressed a)"
    using plain strip(1) s(1) candidate [of False] by (simp add: normalize_host_def)
  show "is_ipv6 a \<Longrightarrow> normalize_host codec (Some (''['' @ s @ '']'')) = Some (compressed a)"
    using brackets strip(2) s(1) candidate [of True] by (simp add: normalize_host_def)
qed

section \<open>Properties\<close>

text \<open>C21: A host key is canonical. Whatever the normaliser returns is the compressed text of an IP
  address or a lower-case DNS name of valid labels that is not all digits, and the normaliser
  maps it to itself, with any codec.\<close>

theorem normalized_host_canonical:
  assumes "normalize_host codec raw = Some r"
  shows "((\<exists>a. ip_ok a \<and> r = compressed a) \<or> dns_name codec r) \<and> normalize_host codec (Some r) = Some r"
  using normalize_cases [OF assms] normalize_fixed [OF assms] by blast

definition ascii_codec :: idna_codec where
  "ascii_codec = \<lparr>idna_to_ascii = (\<lambda>_. None), idna_reads_back = (\<lambda>_. False)\<rparr>"

theorem normalized_host_canonical_witness:
  "normalize_host ascii_codec (Some ''[0:0:B:0:0:0:0:1]'') = Some ''0:0:b::1'' \<and>
   normalize_host ascii_codec (Some ''0:0:b::1'') = Some ''0:0:b::1''"
proof -
  have run: "normalize_host ascii_codec (Some ''[0:0:B:0:0:0:0:1]'') = Some ''0:0:b::1''" by code_simp
  from normalized_host_canonical [OF run] run show ?thesis by blast
qed

text \<open>C22: Texts of IP addresses have one key exactly when they denote one address, whatever
  abbreviation, case or brackets they use.\<close>

theorem ip_texts_share_key:
  assumes "parse_ip (py_lower s) = Some a" and "parse_ip (py_lower t) = Some b"
  shows "(normalize_host codec (Some s) = normalize_host codec (Some t) \<longleftrightarrow> a = b) \<and>
    (is_ipv6 a \<longrightarrow> normalize_host codec (Some (''['' @ s @ '']'')) = normalize_host codec (Some s))"
proof -
  have "compressed a = compressed b \<longleftrightarrow> a = b"
    using ip_roundtrip [OF parse_ip_ok [OF assms(1)]] ip_roundtrip [OF parse_ip_ok [OF assms(2)]] by (metis option.inject)
  then show ?thesis
    using ip_text_normalizes [OF assms(1)] ip_text_normalizes(1) [OF assms(2)] by simp
qed

theorem ip_texts_share_key_witness:
  "normalize_host ascii_codec (Some ''::B:0:0.0.0.1'') = normalize_host ascii_codec (Some ''0:0:0:0:0b:0::1'')"
proof -
  have "parse_ip (py_lower ''::B:0:0.0.0.1'') = Some (IPv6 [0, 0, 0, 0, 11, 0, 0, 1])"
    and "parse_ip (py_lower ''0:0:0:0:0b:0::1'') = Some (IPv6 [0, 0, 0, 0, 11, 0, 0, 1])"
    by code_simp+
  from ip_texts_share_key [OF this] show ?thesis by blast
qed

end
