(* ===== verification/Crawl_System.thy ===== *)
theory Crawl_System imports
  Url_Scheduler
  Host_Normalizer
begin

text \<open>
  The assembled scheduler: every component is given the one \<open>HostNormalizer\<close> of the crawler.
  With it the contract \<open>configured\<close> of the runs holds without a hypothesis on the
  normaliser, so the guarantees of the runs hold from a new scheduler on.
\<close>

definition crawl_config :: "idna_codec \<Rightarrow> url_scheduler_config \<Rightarrow> url_scheduler_config" where
  "crawl_config codec c =
    (let com = url_completion c; fro = com_frontier com in
     \<lparr>url_completion = com\<lparr>com_frontier := fro\<lparr>fro_env := (fro_env fro)\<lparr>env_normalizer := normalize_host codec\<rparr>\<rparr>\<rparr>,
      url_dispatch = (url_dispatch c)\<lparr>dis_normalizer := normalize_host codec\<rparr>\<rparr>)"

definition fresh_scheduler :: "seen_url_registry \<Rightarrow> advice_tracker \<Rightarrow> scheduler" where
  "fresh_scheduler registry advice = empty_scheduler\<lparr>sch_seen := registry, sch_advice := advice\<rparr>"

lemma crawl_config_normalizer [simp]:
  "url_nrm (crawl_config codec c) = normalize_host codec"
  "dis_normalizer (url_dispatch (crawl_config codec c)) = normalize_host codec"
  "dis_max_inflight (url_dispatch (crawl_config codec c)) = dis_max_inflight (url_dispatch c)"
  by (simp_all add: crawl_config_def Let_def)

interpretation crawl: configured "crawl_config codec c" for codec c
  by unfold_locales (simp add: config_ok_def hosts.host_canonical_axioms)

lemma fresh_tracked: "tracked (fresh_scheduler registry advice) = {#}"
  by (simp add: fresh_scheduler_def tracked_def empty_scheduler_def queued_items_def htq_abs_def empty_queue_def
      delayed_items_def empty_delayed_def registry_items_def record_items_def empty_registry_def)

lemma fresh_scheduler_inv:
  assumes "init_registry n ttl = Inr registry"
  shows "scheduler_inv nrm (fresh_scheduler registry advice)"
  using fresh_tracked [of registry advice] init_registry_inv [OF assms]
  by (simp add: fresh_scheduler_def scheduler_inv_def components_ok_def sequences_ok_def empty_scheduler_def
      empty_queue_inv empty_delayed_inv empty_eligibility_inv empty_registry_inv initial_progress_inv budget_ok_def)

lemma fresh_cap: "cap_respected cfg (fresh_scheduler registry advice)"
  by (auto simp: cap_respected_def fresh_scheduler_def empty_scheduler_def empty_registry_def get_default_def
      coerce_max_inflight_def Let_def split: option.splits if_splits)

section \<open>Properties\<close>



end
