(* ===== verification/Rate_Limit.thy ===== *)
theory Rate_Limit imports
  Value_Parser
  Host_Task_Queue
begin

text \<open>
  Request pacing per host, \<open>crawler/governance/rate_limit/\<close>: the mutable state of a host, the
  adaptive rules, the slot scheduler with its sliding window of reserved times, the registry of
  host states, and the limiter whose locked sections work on them. Clock readings and the
  random extra delay are arguments. \<open>acquire\<close> is a loop of locked rounds between which other
  operations on the same host may run.
\<close>

section \<open>The state of a host\<close>

record rate_state =
  adaptive_rps :: real
  effective_rps :: real
  crawl_delay_override :: "real option"
  timestamps :: "real list"
  cooldown_until :: real
  next_request_not_before :: real
  rules_revision :: int

definition new_rate_state :: "real \<Rightarrow> real \<Rightarrow> rate_state" where
  "new_rate_state adaptive effective = \<lparr>adaptive_rps = adaptive, effective_rps = effective, crawl_delay_override = None,
     timestamps = [], cooldown_until = 0, next_request_not_before = 0, rules_revision = 0\<rparr>"

section \<open>The adaptive rules\<close>

record rate_rules =
  min_rps :: real
  max_rps :: real
  backoff_factor :: real
  ramp_up_factor :: real
  error_cooldown_seconds :: real
  feedback_status_codes :: "int list"
  default_crawl_delay :: "real option"

definition effective_crawl_delay_seconds :: "rate_rules \<Rightarrow> rate_state \<Rightarrow> real" where
  "effective_crawl_delay_seconds rules st = (case crawl_delay_override st of Some d \<Rightarrow> d
     | None \<Rightarrow> (case default_crawl_delay rules of Some d \<Rightarrow> d | None \<Rightarrow> 0))"

definition effective_rps_from_values :: "real \<Rightarrow> real \<Rightarrow> real" where
  "effective_rps_from_values adaptive delay =
    (let rps = (if 0 < delay then (if adaptive \<le> 0 then 1 / delay else min adaptive (1 / delay)) else adaptive)
     in max 0 rps)"

definition clamp_finite_rps :: "rate_rules \<Rightarrow> real \<Rightarrow> real" where
  "clamp_finite_rps rules v = (if v \<le> 0 then 0 else max (min_rps rules) (min (max_rps rules) v))"

text \<open>Only an integer too large for a float escapes the handlers.\<close>

definition clamp_rps :: "rate_rules \<Rightarrow> pyval \<Rightarrow> real result" where
  "clamp_rps rules v = (case py_float v of
     Inr (Fin r) \<Rightarrow> Inr (clamp_finite_rps rules r)
   | Inl (OverflowError m) \<Rightarrow> Inl (OverflowError m)
   | _ \<Rightarrow> Inr 0)"

definition coerce_rate_float :: "pyval \<Rightarrow> pyfloat option result" where
  "coerce_rate_float v = (case v of
     PyInt _ \<Rightarrow> map_sum id Some (py_float v)
   | PyFloat x \<Rightarrow> Inr (Some x)
   | PyStr _ \<Rightarrow> (case py_float v of Inr x \<Rightarrow> Inr (Some x) | Inl _ \<Rightarrow> Inr None)
   | _ \<Rightarrow> Inr None)"

definition coerce_optional_non_negative_float :: "pyval \<Rightarrow> real option result" where
  "coerce_optional_non_negative_float v =
    (if v = PyNone then Inr None
     else and_then (coerce_rate_float v) (\<lambda>x. case x of
         None \<Rightarrow> Inl (ValueError ''expected a non-negative float or None'')
       | Some (Fin r) \<Rightarrow> if r < 0 then Inl (ValueError ''expected a non-negative finite float or None'') else Inr (Some r)
       | Some _ \<Rightarrow> Inl (ValueError ''expected a non-negative finite float or None'')))"

definition tiny :: real where
  "tiny = 1 / 10 ^ 9"

text \<open>The adaptive rate after a response, before it is clamped.\<close>

definition adapted_rps :: "rate_rules \<Rightarrow> int \<Rightarrow> real \<Rightarrow> real \<Rightarrow> rate_state \<Rightarrow> real" where
  "adapted_rps rules status latency now st =
    (let previous = adaptive_rps st in
     if status \<in> set (feedback_status_codes rules)
     then (if 0 < previous then max (min_rps rules) (previous * backoff_factor rules) else previous)
     else if 0 < previous \<and> cooldown_until st \<le> now \<and> 200 \<le> status \<and> status < 400
     then (if latency \<le> 1 then min (max_rps rules) (previous * ramp_up_factor rules)
           else if 3 \<le> latency then max (min_rps rules) (previous * 95 / 100)
           else previous)
     else previous)"

definition report_result :: "rate_rules \<Rightarrow> int \<Rightarrow> real \<Rightarrow> real \<Rightarrow> rate_state \<Rightarrow> rate_state" where
  "report_result rules status latency now st =
    (let latency = max 0 latency;
         cooldown = (if status \<in> set (feedback_status_codes rules)
           then max (cooldown_until st) (now + error_cooldown_seconds rules) else cooldown_until st);
         adaptive = clamp_finite_rps rules (adapted_rps rules status latency now st);
         effective = effective_rps_from_values adaptive (effective_crawl_delay_seconds rules st);
         cooled = st\<lparr>cooldown_until := cooldown\<rparr>
     in if \<bar>adaptive - adaptive_rps st\<bar> < tiny \<and> \<bar>effective - effective_rps st\<bar> < tiny \<and>
           \<bar>cooldown - cooldown_until st\<bar> < tiny
        then cooled
        else cooled\<lparr>adaptive_rps := adaptive, effective_rps := effective\<rparr>)"

definition refresh_effective :: "rate_rules \<Rightarrow> rate_state \<Rightarrow> rate_state" where
  "refresh_effective rules st = st\<lparr>effective_rps :=
     effective_rps_from_values (adaptive_rps st) (effective_crawl_delay_seconds rules st)\<rparr>"

definition set_host_crawl_delay :: "rate_rules \<Rightarrow> pyval \<Rightarrow> rate_state \<Rightarrow> rate_state result" where
  "set_host_crawl_delay rules delay st =
    and_then (coerce_optional_non_negative_float delay) (\<lambda>applied.
      let st = st\<lparr>crawl_delay_override := applied\<rparr>;
          st = (case applied of
              Some d \<Rightarrow> if 0 < d \<and> timestamps st \<noteq> []
                then st\<lparr>next_request_not_before := max (next_request_not_before st) (last (timestamps st) + d)\<rparr> else st
            | None \<Rightarrow> st)
      in Inr (refresh_effective rules st))"

definition set_host_requests_per_second :: "rate_rules \<Rightarrow> pyval \<Rightarrow> rate_state \<Rightarrow> rate_state result" where
  "set_host_requests_per_second rules v st =
    and_then (clamp_rps rules v) (\<lambda>rps. Inr (refresh_effective rules (st\<lparr>adaptive_rps := rps\<rparr>)))"

section \<open>The slot scheduler\<close>

record slot_config =
  burst_size :: int
  random_delay_min :: real
  random_delay_max :: real

definition make_slot_config :: "int \<Rightarrow> real \<Rightarrow> real \<Rightarrow> slot_config" where
  "make_slot_config burst lo hi =
    (let lo = max 0 lo in \<lparr>burst_size = burst, random_delay_min = lo, random_delay_max = max lo hi\<rparr>)"

text \<open>\<open>draw\<close> is the number \<open>random.uniform\<close> returns, where it is called.\<close>

definition random_delay_seconds :: "slot_config \<Rightarrow> real \<Rightarrow> real" where
  "random_delay_seconds slots draw =
    (if random_delay_max slots \<le> 0 then 0
     else if random_delay_max slots = random_delay_min slots then random_delay_max slots
     else draw)"

definition prune_window :: "real \<Rightarrow> real \<Rightarrow> real list \<Rightarrow> real list" where
  "prune_window reserved interval bucket = dropWhile (\<lambda>t. t \<le> reserved - interval) bucket"

function preview_loop :: "int \<Rightarrow> real \<Rightarrow> real list \<Rightarrow> real \<Rightarrow> real result" where
  "preview_loop burst interval bucket reserved =
    (let bucket = prune_window reserved interval bucket in
     if int (length bucket) < burst then Inr reserved
     else (case bucket of
         [] \<Rightarrow> Inl (LookupError ''deque index out of range'')
       | oldest # _ \<Rightarrow> preview_loop burst interval bucket (max reserved (oldest + interval))))"
  by pat_completeness auto

lemma prune_window_shrinks:
  "prune_window reserved interval bucket = oldest # rest \<Longrightarrow>
   length (prune_window (max reserved (oldest + interval)) interval (oldest # rest)) \<le> length rest"
  by (simp add: prune_window_def length_dropWhile_le)

termination preview_loop
proof (relation "measure (\<lambda>(burst, interval, bucket, reserved). length (prune_window reserved interval bucket))", goal_cases)
  case (2 burst interval bucket reserved x oldest rest)
  then show ?case using prune_window_shrinks [of reserved interval bucket oldest rest]
    by (metis (mono_tags, lifting) in_measure case_prod_conv le_imp_less_Suc length_Cons)
qed simp

declare preview_loop.simps [simp del]

definition slot_base :: "real \<Rightarrow> rate_state \<Rightarrow> real" where
  "slot_base now st = max (max now (cooldown_until st)) (next_request_not_before st)"

definition preview_slot :: "slot_config \<Rightarrow> real \<Rightarrow> rate_state \<Rightarrow> real result" where
  "preview_slot slots now st =
    (if effective_rps st \<le> 0 then Inr (slot_base now st)
     else preview_loop (burst_size slots) (1 / effective_rps st) (timestamps st) (slot_base now st))"

definition commit_slot :: "slot_config \<Rightarrow> real \<Rightarrow> real \<Rightarrow> real \<Rightarrow> rate_state \<Rightarrow> rate_state" where
  "commit_slot slots draw reserved crawl_delay st =
    (let st = (if 0 < effective_rps st
           then st\<lparr>timestamps := prune_window reserved (1 / effective_rps st) (timestamps st) @ [reserved]\<rparr> else st);
         delay = max crawl_delay (random_delay_seconds slots draw)
     in if 0 < delay then st\<lparr>next_request_not_before := reserved + delay\<rparr> else st)"

definition reserve_slot :: "slot_config \<Rightarrow> real \<Rightarrow> real \<Rightarrow> real \<Rightarrow> rate_state \<Rightarrow> real result \<times> rate_state" where
  "reserve_slot slots draw now crawl_delay st = (case preview_slot slots now st of
     Inl e \<Rightarrow> (Inl e, st)
   | Inr reserved \<Rightarrow> (Inr reserved, commit_slot slots draw reserved crawl_delay st))"

fun remove_close :: "real \<Rightarrow> real list \<Rightarrow> real list" where
  "remove_close r [] = []"
| "remove_close r (t # ts) = (if \<bar>t - r\<bar> < tiny then ts else t # remove_close r ts)"

definition cancel_slot :: "real \<Rightarrow> real \<Rightarrow> real option \<Rightarrow> rate_state \<Rightarrow> rate_state" where
  "cancel_slot reserved previous applied st =
    (let st = st\<lparr>timestamps := remove_close reserved (timestamps st)\<rparr> in
     case applied of
       Some a \<Rightarrow> if \<bar>next_request_not_before st - a\<bar> < tiny then st\<lparr>next_request_not_before := previous\<rparr> else st
     | None \<Rightarrow> st)"

section \<open>The registry of host states\<close>

record rate_registry =
  default_adaptive_rps :: real
  default_effective_rps :: real
  rate_states :: "(string \<times> rate_state) list"

definition resolve_host_key :: "(host \<Rightarrow> host) \<Rightarrow> host \<Rightarrow> string" where
  "resolve_host_key nrm h = (case nrm h of Some (c # cs) \<Rightarrow> c # cs | _ \<Rightarrow> ''unknown'')"

definition rate_state_of :: "(host \<Rightarrow> host) \<Rightarrow> rate_registry \<Rightarrow> host \<Rightarrow> rate_state option" where
  "rate_state_of nrm reg h = map_of (rate_states reg) (resolve_host_key nrm h)"

definition state_for_host :: "(host \<Rightarrow> host) \<Rightarrow> host \<Rightarrow> rate_registry \<Rightarrow> (string \<times> rate_state) \<times> rate_registry" where
  "state_for_host nrm h reg =
    (let key = resolve_host_key nrm h in
     case map_of (rate_states reg) key of
       Some st \<Rightarrow> ((key, st), reg)
     | None \<Rightarrow> (let st = new_rate_state (default_adaptive_rps reg) (default_effective_rps reg)
                in ((key, st), reg\<lparr>rate_states := rate_states reg @ [(key, st)]\<rparr>)))"

section \<open>The limiter\<close>

record rate_limiter =
  lim_rules :: rate_rules
  lim_slots :: slot_config
  honor_retry_after :: bool
  max_retry_after_seconds :: real

definition require_nonnegative_finite_seconds :: "pyval \<Rightarrow> real result" where
  "require_nonnegative_finite_seconds v =
    (let err = Inl (ValueError ''max_retry_after_seconds must be finite and nonnegative'') in
     case py_float v of
       Inl (OverflowError m) \<Rightarrow> Inl (OverflowError m)
     | Inl _ \<Rightarrow> err
     | Inr (Fin r) \<Rightarrow> if r < 0 then err else Inr r
     | Inr _ \<Rightarrow> err)"

definition make_rate_limiter :: "rate_rules \<Rightarrow> slot_config \<Rightarrow> bool \<Rightarrow> pyval \<Rightarrow> rate_limiter result" where
  "make_rate_limiter rules slots honor limit = and_then (require_nonnegative_finite_seconds limit)
    (\<lambda>m. Inr \<lparr>lim_rules = rules, lim_slots = slots, honor_retry_after = honor, max_retry_after_seconds = m\<rparr>)"

text \<open>Every update of the rules part of a state starts a new revision.\<close>

definition rules_snapshot :: "rate_state \<Rightarrow> real \<times> real \<times> real option \<times> real \<times> real" where
  "rules_snapshot st = (adaptive_rps st, effective_rps st, crawl_delay_override st, cooldown_until st, next_request_not_before st)"

definition bump_revision :: "rate_state \<Rightarrow> rate_state \<Rightarrow> rate_state" where
  "bump_revision before st =
    (if rules_snapshot st \<noteq> rules_snapshot before then st\<lparr>rules_revision := rules_revision st + 1\<rparr> else st)"

text \<open>A locked section on the state of one host.\<close>

definition with_host_state ::
  "(host \<Rightarrow> host) \<Rightarrow> host \<Rightarrow> (rate_state \<Rightarrow> 'r \<times> rate_state) \<Rightarrow> rate_registry \<Rightarrow> 'r \<times> rate_registry" where
  "with_host_state nrm h section_body reg =
    (case state_for_host nrm h reg of ((key, st), reg) \<Rightarrow>
      (case section_body st of (r, st) \<Rightarrow> (r, reg\<lparr>rate_states := AList.update key st (rate_states reg)\<rparr>)))"

definition wait_seconds_of :: "slot_config \<Rightarrow> real \<Rightarrow> rate_state \<Rightarrow> real result" where
  "wait_seconds_of slots now st = and_then (preview_slot slots now st) (\<lambda>reserved. Inr (max 0 (reserved - now)))"

definition wait_seconds_until_ready :: "rate_limiter \<Rightarrow> (host \<Rightarrow> host) \<Rightarrow> real \<Rightarrow> rate_registry \<Rightarrow> host \<Rightarrow> real option result" where
  "wait_seconds_until_ready rl nrm now reg h = (case rate_state_of nrm reg h of
     None \<Rightarrow> Inr None
   | Some st \<Rightarrow> and_then (wait_seconds_of (lim_slots rl) now st) (\<lambda>w. Inr (if 0 < w then Some w else None)))"

text \<open>\<open>Not_Ready\<close> stands for \<open>RateLimiterNotReadyError\<close> with the seconds to wait.\<close>

datatype ready_outcome = Slot_Taken real | Not_Ready real

definition take_ready_slot :: "rate_limiter \<Rightarrow> real \<Rightarrow> real \<Rightarrow> rate_state \<Rightarrow> ready_outcome result \<times> rate_state" where
  "take_ready_slot rl draw now st =
    (case preview_slot (lim_slots rl) now st of
       Inl e \<Rightarrow> (Inl e, st)
     | Inr reserved \<Rightarrow>
         (let w = max 0 (reserved - now) in
          if 0 < w then (Inr (Not_Ready w), st)
          else (Inr (Slot_Taken reserved),
            commit_slot (lim_slots rl) draw reserved (effective_crawl_delay_seconds (lim_rules rl) st) st)))"

definition acquire_or_raise_not_ready ::
  "rate_limiter \<Rightarrow> (host \<Rightarrow> host) \<Rightarrow> real \<Rightarrow> real \<Rightarrow> host \<Rightarrow> rate_registry \<Rightarrow> ready_outcome result \<times> rate_registry" where
  "acquire_or_raise_not_ready rl nrm draw now h reg = with_host_state nrm h (take_ready_slot rl draw now) reg"

text \<open>The local variables of \<open>acquire\<close>, and one locked round of its loop.\<close>

record acquire_locals =
  loc_reserved :: "(real \<times> int) option"
  loc_previous :: real
  loc_applied :: "real option"

definition no_reservation :: acquire_locals where
  "no_reservation = \<lparr>loc_reserved = None, loc_previous = 0, loc_applied = None\<rparr>"

datatype acquire_step = Acquired | Sleep_Seconds real

definition drop_stale_reservation :: "acquire_locals \<Rightarrow> rate_state \<Rightarrow> acquire_locals \<times> rate_state" where
  "drop_stale_reservation loc st = (case loc_reserved loc of
     Some (reserved, revision) \<Rightarrow> if revision \<noteq> rules_revision st
       then (loc\<lparr>loc_reserved := None, loc_applied := None\<rparr>, cancel_slot reserved (loc_previous loc) (loc_applied loc) st)
       else (loc, st)
   | None \<Rightarrow> (loc, st))"

definition ensure_reservation ::
  "rate_limiter \<Rightarrow> real \<Rightarrow> real \<Rightarrow> acquire_locals \<Rightarrow> rate_state \<Rightarrow> (real \<times> acquire_locals) result \<times> rate_state" where
  "ensure_reservation rl draw now loc st = (case loc_reserved loc of
     Some (reserved, _) \<Rightarrow> (Inr (reserved, loc), st)
   | None \<Rightarrow>
      (let previous = next_request_not_before st in
       case reserve_slot (lim_slots rl) draw now (effective_crawl_delay_seconds (lim_rules rl) st) st of
         (Inl e, st) \<Rightarrow> (Inl e, st)
       | (Inr reserved, st) \<Rightarrow> (Inr (reserved, \<lparr>loc_reserved = Some (reserved, rules_revision st), loc_previous = previous,
           loc_applied = (if tiny \<le> \<bar>next_request_not_before st - previous\<bar> then Some (next_request_not_before st) else None)\<rparr>), st)))"

definition acquire_round ::
  "rate_limiter \<Rightarrow> real \<Rightarrow> real \<Rightarrow> acquire_locals \<Rightarrow> rate_state \<Rightarrow> (acquire_step \<times> acquire_locals) result \<times> rate_state" where
  "acquire_round rl draw now loc st =
    (case drop_stale_reservation loc st of (loc, st) \<Rightarrow>
     (case ensure_reservation rl draw now loc st of
        (Inl e, st) \<Rightarrow> (Inl e, st)
      | (Inr (reserved, loc), st) \<Rightarrow>
         (let sleep_for = max reserved (cooldown_until st) - now in
          if sleep_for \<le> 0 then (Inr (Acquired, loc), st) else (Inr (Sleep_Seconds sleep_for, loc), st))))"

definition report_host_result :: "rate_limiter \<Rightarrow> (host \<Rightarrow> host) \<Rightarrow> host \<Rightarrow> int \<Rightarrow> real \<Rightarrow> real \<Rightarrow> rate_registry \<Rightarrow> rate_registry" where
  "report_host_result rl nrm h status latency now reg =
    snd (with_host_state nrm h (\<lambda>st. ((), bump_revision st (report_result (lim_rules rl) status latency now st))) reg)"

definition keep_on_error :: "(rate_state \<Rightarrow> rate_state result) \<Rightarrow> rate_state \<Rightarrow> unit result \<times> rate_state" where
  "keep_on_error change st = (case change st of Inl e \<Rightarrow> (Inl e, st) | Inr st' \<Rightarrow> (Inr (), bump_revision st st'))"

definition limit_crawl_delay :: "rate_limiter \<Rightarrow> (host \<Rightarrow> host) \<Rightarrow> host \<Rightarrow> pyval \<Rightarrow> rate_registry \<Rightarrow> unit result \<times> rate_registry" where
  "limit_crawl_delay rl nrm h delay reg =
    with_host_state nrm h (keep_on_error (set_host_crawl_delay (lim_rules rl) delay)) reg"

definition limit_requests_per_second :: "rate_limiter \<Rightarrow> (host \<Rightarrow> host) \<Rightarrow> host \<Rightarrow> pyval \<Rightarrow> rate_registry \<Rightarrow> unit result \<times> rate_registry" where
  "limit_requests_per_second rl nrm h rps reg =
    with_host_state nrm h (keep_on_error (set_host_requests_per_second (lim_rules rl) rps)) reg"

definition bounded_server_delay_seconds :: "rate_limiter \<Rightarrow> pyval \<Rightarrow> real option result" where
  "bounded_server_delay_seconds rl v =
    (case v of
       PyNone \<Rightarrow> Inr None
     | PyBool _ \<Rightarrow> Inr None
     | _ \<Rightarrow> (case py_float v of
         Inl (OverflowError m) \<Rightarrow> Inl (OverflowError m)
       | Inr (Fin r) \<Rightarrow> Inr (if r \<le> 0 then None
           else (let bounded = min r (max_retry_after_seconds rl) in if 0 < bounded then Some bounded else None))
       | _ \<Rightarrow> Inr None))"

definition cooldown_seconds_from_hints :: "rate_limiter \<Rightarrow> pyval \<Rightarrow> int option \<Rightarrow> pyval \<Rightarrow> real option result" where
  "cooldown_seconds_from_hints rl retry_after remaining reset =
    and_then (if honor_retry_after rl then bounded_server_delay_seconds rl retry_after else Inr None) (\<lambda>a.
    and_then (if remaining = Some 0 then bounded_server_delay_seconds rl reset else Inr None) (\<lambda>b.
      Inr (case (a, b) of (Some x, Some y) \<Rightarrow> Some (max x y) | (Some x, None) \<Rightarrow> Some x | (None, y) \<Rightarrow> y)))"

definition apply_response_rate_limit_hints ::
  "rate_limiter \<Rightarrow> (host \<Rightarrow> host) \<Rightarrow> host \<Rightarrow> pyval \<Rightarrow> int option \<Rightarrow> pyval \<Rightarrow> real \<Rightarrow> rate_registry \<Rightarrow> real option result \<times> rate_registry" where
  "apply_response_rate_limit_hints rl nrm h retry_after remaining reset now reg =
    (case cooldown_seconds_from_hints rl retry_after remaining reset of
       Inl e \<Rightarrow> (Inl e, reg)
     | Inr None \<Rightarrow> (Inr None, reg)
     | Inr (Some seconds) \<Rightarrow>
         (Inr (Some seconds), snd (with_host_state nrm h (\<lambda>st.
            ((), bump_revision st (st\<lparr>cooldown_until := max (cooldown_until st) (now + seconds)\<rparr>))) reg)))"

definition host_requests_per_second :: "(host \<Rightarrow> host) \<Rightarrow> rate_registry \<Rightarrow> host \<Rightarrow> real" where
  "host_requests_per_second nrm reg h = (case rate_state_of nrm reg h of
     None \<Rightarrow> default_effective_rps reg | Some st \<Rightarrow> effective_rps st)"

definition host_crawl_delay_seconds :: "rate_limiter \<Rightarrow> (host \<Rightarrow> host) \<Rightarrow> rate_registry \<Rightarrow> host \<Rightarrow> real option" where
  "host_crawl_delay_seconds rl nrm reg h =
    (let delay = (case rate_state_of nrm reg h of None \<Rightarrow> 0 | Some st \<Rightarrow> effective_crawl_delay_seconds (lim_rules rl) st)
     in if 0 < delay then Some delay else None)"

definition clamp_initial_requests_per_second :: "pyval \<Rightarrow> real \<Rightarrow> real \<Rightarrow> real result" where
  "clamp_initial_requests_per_second v lo hi = (case py_float v of
     Inl (OverflowError m) \<Rightarrow> Inl (OverflowError m)
   | Inl _ \<Rightarrow> Inr 0
   | Inr (Fin r) \<Rightarrow> Inr (if r \<le> 0 then 0 else max lo (min hi r))
   | Inr NegInf \<Rightarrow> Inr 0
   | Inr PosInf \<Rightarrow> Inr (max lo hi)
   | Inr PyNaN \<Rightarrow> Inr (max lo hi))"

section \<open>Lemmas\<close>

subsection \<open>The sliding window\<close>

definition window_count :: "real \<Rightarrow> real \<Rightarrow> real list \<Rightarrow> nat" where
  "window_count interval t ts = length (filter (\<lambda>x. t - interval < x) ts)"

lemma prune_window_filter: "sorted ts \<Longrightarrow> prune_window t interval ts = filter (\<lambda>x. t - interval < x) ts"
proof (induction ts)
  case (Cons x ts)
  show ?case
  proof (cases "x \<le> t - interval")
    case False
    then have "\<forall>y\<in>set (x # ts). t - interval < y" using Cons.prems by auto
    then have "filter (\<lambda>x. t - interval < x) (x # ts) = x # ts" by simp
    then show ?thesis using False by (simp add: prune_window_def)
  qed (use Cons in \<open>simp add: prune_window_def\<close>)
qed (simp add: prune_window_def)

lemma length_prune_window: "sorted ts \<Longrightarrow> length (prune_window t interval ts) = window_count interval t ts"
  by (simp add: prune_window_filter window_count_def)

lemma window_count_prune:
  assumes "sorted ts" "r \<le> t"
  shows "window_count interval t (prune_window r interval ts) = window_count interval t ts"
proof -
  have "(\<lambda>x. r - interval < x \<and> t - interval < x) = (\<lambda>x. t - interval < x)"
    using assms(2) by (intro ext) auto
  then show ?thesis by (simp add: prune_window_filter [OF assms(1)] window_count_def)
qed

lemma sorted_prune_window: "sorted ts \<Longrightarrow> sorted (prune_window t interval ts)"
  by (simp add: prune_window_filter sorted_filter [where f = id, simplified])

lemma prune_window_all: "sorted ts \<Longrightarrow> ts \<noteq> [] \<Longrightarrow> t - interval < hd ts \<Longrightarrow> window_count interval t ts = length ts"
  by (cases ts) (auto simp: window_count_def intro!: filter_True [THEN arg_cong])

lemma preview_loop_exact:
  assumes "sorted bucket" "0 < burst"
  shows "\<exists>t. preview_loop burst interval bucket r = Inr t \<and> r \<le> t \<and> int (window_count interval t bucket) < burst \<and>
    (\<forall>t'. r \<le> t' \<longrightarrow> t' < t \<longrightarrow> burst \<le> int (window_count interval t' bucket))"
  using assms
proof (induction burst interval bucket r rule: preview_loop.induct)
  case (1 burst interval bucket r)
  let ?b = "prune_window r interval bucket"
  note count = window_count_prune [OF 1(2), of r] length_prune_window [OF 1(2)]
  show ?case
  proof (cases "int (length ?b) < burst")
    case True
    then show ?thesis using count by (subst preview_loop.simps) (auto simp: Let_def)
  next
    case False
    then obtain oldest rest where b: "?b = oldest # rest" using 1(3) by (cases ?b) auto
    let ?r = "max r (oldest + interval)"
    have sorted: "sorted ?b" by (rule sorted_prune_window [OF 1(2)])
    obtain t where t: "preview_loop burst interval ?b ?r = Inr t" "?r \<le> t" "int (window_count interval t ?b) < burst"
      "\<And>t'. ?r \<le> t' \<Longrightarrow> t' < t \<Longrightarrow> burst \<le> int (window_count interval t' ?b)"
      using 1(1) [OF refl False b sorted 1(3)] by blast
    have early: "burst \<le> int (window_count interval t' bucket)" if "r \<le> t'" "t' < ?r" for t'
    proof -
      have "window_count interval t' ?b = length ?b"
        using that b by (intro prune_window_all [OF sorted]) auto
      then show ?thesis using False count(1) [OF that(1)] by simp
    qed
    have "preview_loop burst interval bucket r = Inr t"
      using False b t(1) by (subst preview_loop.simps) (simp add: Let_def)
    moreover have "burst \<le> int (window_count interval t' bucket)" if "r \<le> t'" "t' < t" for t'
    proof (cases "t' < ?r")
      case True
      then show ?thesis using early that by blast
    next
      case False
      then show ?thesis using t(4) [of t'] that count(1) [of t'] by auto
    qed
    ultimately show ?thesis using t count(1) [of t] by auto
  qed
qed


lemma preview_slot_exact:
  assumes "sorted (timestamps st)" "0 < burst_size slots" "0 < effective_rps st"
  shows "\<exists>t. preview_slot slots now st = Inr t \<and> slot_base now st \<le> t \<and>
    int (window_count (1 / effective_rps st) t (timestamps st)) < burst_size slots \<and>
    (\<forall>t'. slot_base now st \<le> t' \<longrightarrow> t' < t \<longrightarrow> burst_size slots \<le> int (window_count (1 / effective_rps st) t' (timestamps st)))"
  using preview_loop_exact [OF assms(1,2)] assms(3) by (simp add: preview_slot_def)

lemma preview_loop_base: "preview_loop burst interval bucket r = Inr t \<Longrightarrow> r \<le> t"
proof (induction burst interval bucket r rule: preview_loop.induct)
  case (1 burst interval bucket r)
  then show ?case
    by (subst (asm) (2) preview_loop.simps)
      (fastforce simp: Let_def split: if_splits list.splits)
qed

lemma preview_slot_base: "preview_slot slots now st = Inr t \<Longrightarrow> slot_base now st \<le> t"
  by (auto simp: preview_slot_def dest: preview_loop_base split: if_splits)

subsection \<open>Changes of the rules of a host\<close>

inductive rate_change :: "rate_limiter \<Rightarrow> rate_state \<Rightarrow> rate_state \<Rightarrow> bool" for rl where
  change_result: "rate_change rl st (bump_revision st (report_result (lim_rules rl) status latency now st))"
| change_delay: "keep_on_error (set_host_crawl_delay (lim_rules rl) v) st = (r, st') \<Longrightarrow> rate_change rl st st'"
| change_rate: "keep_on_error (set_host_requests_per_second (lim_rules rl) v) st = (r, st') \<Longrightarrow> rate_change rl st st'"
| change_hint: "0 < seconds \<Longrightarrow>
    rate_change rl st (bump_revision st (st\<lparr>cooldown_until := max (cooldown_until st) (now + seconds)\<rparr>))"

lemma bump_revision_simps [simp]:
  "adaptive_rps (bump_revision s0 st) = adaptive_rps st" "effective_rps (bump_revision s0 st) = effective_rps st"
  "crawl_delay_override (bump_revision s0 st) = crawl_delay_override st" "timestamps (bump_revision s0 st) = timestamps st"
  "cooldown_until (bump_revision s0 st) = cooldown_until st"
  "next_request_not_before (bump_revision s0 st) = next_request_not_before st"
  "effective_crawl_delay_seconds rules (bump_revision s0 st) = effective_crawl_delay_seconds rules st"
  by (simp_all add: bump_revision_def effective_crawl_delay_seconds_def)

lemma refresh_effective_simps [simp]:
  "adaptive_rps (refresh_effective rules st) = adaptive_rps st"
  "crawl_delay_override (refresh_effective rules st) = crawl_delay_override st"
  "timestamps (refresh_effective rules st) = timestamps st" "cooldown_until (refresh_effective rules st) = cooldown_until st"
  "next_request_not_before (refresh_effective rules st) = next_request_not_before st"
  "effective_crawl_delay_seconds rules (refresh_effective rules st) = effective_crawl_delay_seconds rules st"
  by (simp_all add: refresh_effective_def effective_crawl_delay_seconds_def)

lemma report_result_simps [simp]:
  "timestamps (report_result rules status latency now st) = timestamps st"
  "next_request_not_before (report_result rules status latency now st) = next_request_not_before st"
  "crawl_delay_override (report_result rules status latency now st) = crawl_delay_override st"
  "cooldown_until st \<le> cooldown_until (report_result rules status latency now st)"
  by (simp_all add: report_result_def Let_def)

lemma set_host_crawl_delay_frame:
  assumes "set_host_crawl_delay rules v st = Inr st'"
  shows "timestamps st' = timestamps st \<and> cooldown_until st' = cooldown_until st \<and> adaptive_rps st' = adaptive_rps st \<and>
    next_request_not_before st \<le> next_request_not_before st' \<and> rules_revision st' = rules_revision st"
  using assms by (auto simp: set_host_crawl_delay_def Let_def refresh_effective_def split: option.splits if_splits)

lemma rate_change_frame:
  assumes "rate_change rl st st'"
  shows "timestamps st' = timestamps st \<and> cooldown_until st \<le> cooldown_until st' \<and>
    next_request_not_before st \<le> next_request_not_before st'"
  using assms
proof cases
  case (change_delay v r)
  then show ?thesis
    using set_host_crawl_delay_frame [of "lim_rules rl" v st] by (auto simp: keep_on_error_def split: sum.splits)
next
  case (change_rate v r)
  then show ?thesis by (auto simp: keep_on_error_def set_host_requests_per_second_def split: sum.splits)
qed auto

subsection \<open>Runs in which a request is deferred instead of waiting\<close>

text \<open>The requests granted so far, newest first, each with the crawl delay in force when it
  was granted; a steady run never lowers the rate.\<close>

inductive paced :: "bool \<Rightarrow> rate_limiter \<Rightarrow> rate_state \<Rightarrow> (real \<times> real) list \<Rightarrow> real \<Rightarrow> bool" for steady rl where
  paced_start: "0 < effective \<or> \<not> steady \<Longrightarrow> paced steady rl (new_rate_state adaptive effective) [] t"
| paced_grant: "paced steady rl st grants t \<Longrightarrow> t \<le> now \<Longrightarrow>
    take_ready_slot rl draw now st = (Inr (Slot_Taken r), st') \<Longrightarrow>
    paced steady rl st' ((r, effective_crawl_delay_seconds (lim_rules rl) st) # grants) now"
| paced_change: "paced steady rl st grants t \<Longrightarrow> rate_change rl st st' \<Longrightarrow>
    effective_rps st \<le> effective_rps st' \<or> \<not> steady \<Longrightarrow> paced steady rl st' grants t"

lemma take_ready_slot_taken:
  assumes "take_ready_slot rl draw now st = (Inr (Slot_Taken r), st')"
  shows "preview_slot (lim_slots rl) now st = Inr now \<and> r = now \<and> slot_base now st = now \<and>
    st' = commit_slot (lim_slots rl) draw now (effective_crawl_delay_seconds (lim_rules rl) st) st"
proof -
  have p: "preview_slot (lim_slots rl) now st = Inr r" "r \<le> now"
    and st': "st' = commit_slot (lim_slots rl) draw r (effective_crawl_delay_seconds (lim_rules rl) st) st"
    using assms by (auto simp: take_ready_slot_def Let_def max_def split: sum.splits if_splits)
  have "now \<le> slot_base now st" by (simp add: slot_base_def)
  with preview_slot_base [OF p(1)] p(2) have "r = now" "slot_base now st = now" by linarith+
  with p st' show ?thesis by simp
qed

definition window_kept :: "rate_state \<Rightarrow> (real \<times> real) list \<Rightarrow> real \<Rightarrow> bool" where
  "window_kept st grants t \<longleftrightarrow> 0 < effective_rps st \<and>
    filter_mset (\<lambda>g. t - 1 / effective_rps st < g) (mset (map fst grants)) \<subseteq># mset (timestamps st)"

definition paced_inv :: "bool \<Rightarrow> rate_state \<Rightarrow> (real \<times> real) list \<Rightarrow> real \<Rightarrow> bool" where
  "paced_inv steady st grants t \<longleftrightarrow> sorted (timestamps st) \<and> (\<forall>x\<in>set (timestamps st). x \<le> t) \<and>
    (\<forall>(g, d)\<in>set grants. g \<le> t \<and> (0 < d \<longrightarrow> g + d \<le> next_request_not_before st)) \<and>
    (steady \<longrightarrow> window_kept st grants t)"

lemma window_kept_mono:
  assumes "window_kept st grants t" "timestamps st' = timestamps st" "effective_rps st \<le> effective_rps st'"
  shows "window_kept st' grants t"
proof -
  have "1 / effective_rps st' \<le> 1 / effective_rps st"
    using assms(1,3) by (intro divide_left_mono) (auto simp: window_kept_def)
  then have "filter_mset (\<lambda>g. t - 1 / effective_rps st' < g) (mset (map fst grants))
      \<subseteq># filter_mset (\<lambda>g. t - 1 / effective_rps st < g) (mset (map fst grants))"
    by (intro filter_mset_mono_strong) auto
  then show ?thesis
    using assms by (auto simp: window_kept_def intro: subset_mset.order_trans)
qed

lemma window_kept_later:
  assumes "window_kept st grants t" "t \<le> now" "sorted (timestamps st)"
  shows "filter_mset (\<lambda>g. now - 1 / effective_rps st < g) (mset (map fst grants))
      \<subseteq># mset (prune_window now (1 / effective_rps st) (timestamps st))"
proof -
  let ?P = "\<lambda>g. now - 1 / effective_rps st < g"
  have "filter_mset ?P (mset (map fst grants)) = filter_mset ?P (filter_mset (\<lambda>g. t - 1 / effective_rps st < g) (mset (map fst grants)))"
    using assms(2) by (auto simp: filter_filter_mset intro!: filter_mset_cong)
  also have "\<dots> \<subseteq># filter_mset ?P (mset (timestamps st))"
    using assms(1) by (intro multiset_filter_mono) (simp add: window_kept_def)
  finally show ?thesis by (simp add: prune_window_filter [OF assms(3)])
qed

lemma next_after_commit:
  "slot_base now st = now \<Longrightarrow> next_request_not_before st \<le> next_request_not_before (commit_slot slots draw now d st) \<and>
    (0 < d \<longrightarrow> now + d \<le> next_request_not_before (commit_slot slots draw now d st))"
  by (auto simp: commit_slot_def Let_def slot_base_def max_def split: if_splits)

lemma timestamps_after_commit:
  "timestamps (commit_slot slots draw r d st) =
    (if 0 < effective_rps st then prune_window r (1 / effective_rps st) (timestamps st) @ [r] else timestamps st)"
  "effective_rps (commit_slot slots draw r d st) = effective_rps st"
  "cooldown_until (commit_slot slots draw r d st) = cooldown_until st"
  "rules_revision (commit_slot slots draw r d st) = rules_revision st"
  "adaptive_rps (commit_slot slots draw r d st) = adaptive_rps st"
  "crawl_delay_override (commit_slot slots draw r d st) = crawl_delay_override st"
  by (simp_all add: commit_slot_def Let_def)

lemma set_prune_window: "set (prune_window t interval ts) \<subseteq> set ts"
  by (auto simp: prune_window_def dest: set_dropWhileD)

lemma commit_paced_inv:
  assumes inv: "paced_inv steady st grants t" and now: "t \<le> now" "slot_base now st = now"
  shows "paced_inv steady (commit_slot slots draw now d st) ((now, d) # grants) now"
proof -
  let ?st = "commit_slot slots draw now d st" and ?i = "1 / effective_rps st"
  have ts: "sorted (timestamps st)" "\<forall>x\<in>set (timestamps st). x \<le> now"
    and gs: "\<forall>(g, d)\<in>set grants. g \<le> t \<and> (0 < d \<longrightarrow> g + d \<le> next_request_not_before st)"
    using inv now(1) by (auto simp: paced_inv_def)
  have ts': "sorted (timestamps ?st) \<and> (\<forall>x\<in>set (timestamps ?st). x \<le> now)"
    using ts sorted_prune_window [OF ts(1)] set_prune_window [of now ?i "timestamps st"]
    by (auto simp: timestamps_after_commit sorted_append)
  moreover have "\<forall>(g, d)\<in>set ((now, d) # grants). g \<le> now \<and> (0 < d \<longrightarrow> g + d \<le> next_request_not_before ?st)"
    using gs next_after_commit [OF now(2), of slots draw d] now(1) by fastforce
  moreover have "window_kept ?st ((now, d) # grants) now" if steady
  proof -
    have kept: "window_kept st grants t" using inv that by (simp add: paced_inv_def)
    have pos: "0 < effective_rps st" using kept by (simp add: window_kept_def)
    then have "now - ?i < now" by simp
    then have "filter_mset (\<lambda>g. now - ?i < g) (mset (map fst ((now, d) # grants))) =
        add_mset now (filter_mset (\<lambda>g. now - ?i < g) (mset (map fst grants)))" by simp
    also have "\<dots> \<subseteq># mset (timestamps ?st)"
      using window_kept_later [OF kept now(1) ts(1)] pos by (simp add: timestamps_after_commit)
    finally show ?thesis using pos by (simp add: window_kept_def timestamps_after_commit)
  qed
  ultimately show ?thesis unfolding paced_inv_def by blast
qed

lemma paced_invariant: "paced steady rl st grants t \<Longrightarrow> paced_inv steady st grants t"
proof (induction rule: paced.induct)
  case (paced_start effective adaptive t)
  then show ?case by (auto simp: paced_inv_def window_kept_def new_rate_state_def)
next
  case (paced_grant st grants t now draw r st')
  note taken = take_ready_slot_taken [OF paced_grant.hyps(3)]
  then show ?case using commit_paced_inv [OF paced_grant.IH paced_grant.hyps(2)] by simp
next
  case (paced_change st grants t st')
  note frame = rate_change_frame [OF paced_change.hyps(2)]
  have "steady \<Longrightarrow> window_kept st' grants t"
    using paced_change.IH paced_change.hyps(3) frame window_kept_mono by (auto simp: paced_inv_def)
  then show ?case
    using paced_change.IH frame by (fastforce simp: paced_inv_def)
qed

lemma paced_grant_ok:
  assumes run: "paced steady rl st grants t" and now: "t \<le> now"
    and taken: "take_ready_slot rl draw now st = (Inr (Slot_Taken r), st')"
  shows "r = now \<and> cooldown_until st \<le> now \<and> (\<forall>(g, d)\<in>set grants. g \<le> now \<and> g + d \<le> now) \<and>
    (steady \<longrightarrow> 0 < burst_size (lim_slots rl) \<longrightarrow>
      int (length (filter (\<lambda>(g, d). now - 1 / effective_rps st < g) grants)) < burst_size (lim_slots rl))"
proof -
  note inv = paced_invariant [OF run]
  note slot = take_ready_slot_taken [OF taken]
  then have base: "cooldown_until st \<le> now" "next_request_not_before st \<le> now"
    by (auto simp: slot_base_def max_def split: if_splits)
  have "\<forall>(g, d)\<in>set grants. g \<le> now \<and> g + d \<le> now"
    using inv now base(2) by (fastforce simp: paced_inv_def)
  moreover have "int (length (filter (\<lambda>(g, d). now - 1 / effective_rps st < g) grants)) < burst_size (lim_slots rl)"
    if "steady" "0 < burst_size (lim_slots rl)"
  proof -
    have kept: "window_kept st grants t" and sorted: "sorted (timestamps st)" using inv that by (simp_all add: paced_inv_def)
    then have "0 < effective_rps st" by (simp add: window_kept_def)
    then have "int (length (prune_window now (1 / effective_rps st) (timestamps st))) < burst_size (lim_slots rl)"
      using preview_slot_exact [OF sorted that(2), of now] slot length_prune_window [OF sorted] by auto
    moreover have "length (filter (\<lambda>(g, d). now - 1 / effective_rps st < g) grants) \<le>
        length (prune_window now (1 / effective_rps st) (timestamps st))"
      using size_mset_mono [OF window_kept_later [OF kept now sorted]]
      by (simp add: filter_map comp_def case_prod_unfold mset_filter [symmetric] del: mset_filter mset_map)
    ultimately show ?thesis by linarith
  qed
  ultimately show ?thesis using slot base by blast
qed


subsection \<open>Requests that wait for their slot\<close>

text \<open>The slots that successive calls of \<open>acquire\<close> reserve in their first rounds, while all of them wait.\<close>

fun waiting_slots :: "rate_limiter \<Rightarrow> (real \<times> real) list \<Rightarrow> rate_state \<Rightarrow> real list" where
  "waiting_slots rl [] st = []"
| "waiting_slots rl ((now, draw) # calls) st = (case acquire_round rl draw now no_reservation st of
      (Inr (_, loc), st) \<Rightarrow> (case loc_reserved loc of Some (r, _) \<Rightarrow> r # waiting_slots rl calls st | None \<Rightarrow> waiting_slots rl calls st)
    | (Inl _, st) \<Rightarrow> waiting_slots rl calls st)"

lemma waiting_slots_reserve:
  assumes "preview_slot (lim_slots rl) now st = Inr r"
  shows "waiting_slots rl ((now, draw) # calls) st =
    r # waiting_slots rl calls (commit_slot (lim_slots rl) draw r (effective_crawl_delay_seconds (lim_rules rl) st) st)"
  using assms by (simp add: acquire_round_def drop_stale_reservation_def no_reservation_def ensure_reservation_def
      reserve_slot_def Let_def)

lemma single_slot_step:
  assumes "burst_size slots = 1" "0 < effective_rps st" "timestamps st = [] \<or> timestamps st = [x]"
  shows "\<exists>t. preview_slot slots now st = Inr t \<and> timestamps (commit_slot slots draw t d st) = [t] \<and>
    (timestamps st = [x] \<longrightarrow> x + 1 / effective_rps st \<le> t)"
proof -
  have "sorted (timestamps st)" "0 < burst_size slots" using assms by auto
  from preview_slot_exact [OF this assms(2), of now]
  obtain t where t: "preview_slot slots now st = Inr t" "int (window_count (1 / effective_rps st) t (timestamps st)) < burst_size slots"
    by blast
  then have "timestamps st = [x] \<Longrightarrow> x + 1 / effective_rps st \<le> t"
    using assms(1) by (auto simp: window_count_def split: if_splits)
  moreover have "prune_window t (1 / effective_rps st) (timestamps st) = []"
    using assms(3) calculation by (auto simp: prune_window_def)
  ultimately show ?thesis using t(1) assms(2) by (auto simp: timestamps_after_commit)
qed

lemma waiting_slots_spaced:
  assumes "burst_size (lim_slots rl) = 1" "0 < effective_rps st" "timestamps st = [] \<or> timestamps st = [x]"
  shows "sorted_wrt (\<lambda>a b. a + 1 / effective_rps st \<le> b) (waiting_slots rl calls st) \<and>
    (timestamps st = [x] \<longrightarrow> (\<forall>b\<in>set (waiting_slots rl calls st). x + 1 / effective_rps st \<le> b))"
  using assms(2,3)
proof (induction calls arbitrary: st x)
  case (Cons call calls)
  obtain now draw where call: "call = (now, draw)" by (cases call)
  let ?d = "effective_crawl_delay_seconds (lim_rules rl) st"
  obtain t where t: "preview_slot (lim_slots rl) now st = Inr t" "timestamps (commit_slot (lim_slots rl) draw t ?d st) = [t]"
    "timestamps st = [x] \<longrightarrow> x + 1 / effective_rps st \<le> t"
    using single_slot_step [OF assms(1) Cons.prems, of now draw ?d] by blast
  let ?st = "commit_slot (lim_slots rl) draw t ?d st"
  have "effective_rps ?st = effective_rps st" by (simp add: timestamps_after_commit)
  with Cons.IH [of ?st t] Cons.prems(1) t(2)
  have later: "sorted_wrt (\<lambda>a b. a + 1 / effective_rps st \<le> b) (waiting_slots rl calls ?st)"
    "\<forall>b\<in>set (waiting_slots rl calls ?st). t + 1 / effective_rps st \<le> b" by auto
  have "0 < 1 / effective_rps st" using Cons.prems(1) by simp
  then show ?case
    using later t(3) unfolding call waiting_slots_reserve [OF t(1)] by (simp, smt (verit))
qed simp

text \<open>With room for several requests at once, pruning relative to a future slot forgets requests
  that are still inside the window.\<close>

lemma prune_replicate: "prune_window r i (replicate n t) = (if t \<le> r - i then [] else replicate n t)"
  by (induction n) (auto simp: prune_window_def)

lemma preview_full_window:
  assumes "0 < i" "0 < b"
  shows "n < b \<Longrightarrow> preview_loop (int b) i (replicate n t) t = Inr t"
    and "preview_loop (int b) i (replicate b t) t = Inr (t + i)"
    and "1 < b \<Longrightarrow> preview_loop (int b) i [t + i] t = Inr t"
proof -
  show "n < b \<Longrightarrow> preview_loop (int b) i (replicate n t) t = Inr t"
    using assms(1) by (subst preview_loop.simps) (simp add: prune_replicate)
  obtain c where b: "b = Suc c" using assms(2) by (cases b) auto
  have "preview_loop (int b) i (replicate b t) (max t (t + i)) = Inr (t + i)"
    using assms by (subst preview_loop.simps) (simp add: prune_replicate max_def)
  moreover have "prune_window t i (replicate b t) = replicate b t"
    using assms(1) by (simp add: prune_replicate)
  moreover have "replicate b t = t # replicate c t" by (simp add: b)
  ultimately show "preview_loop (int b) i (replicate b t) t = Inr (t + i)"
    by (subst preview_loop.simps) (simp add: Let_def b)
  show "1 < b \<Longrightarrow> preview_loop (int b) i [t + i] t = Inr t"
    using assms(1) by (subst preview_loop.simps) (simp add: prune_window_def)
qed

lemma waiting_slots_fill:
  assumes slots: "burst_size (lim_slots rl) = int b" "random_delay_max (lim_slots rl) = 0"
    and st: "effective_crawl_delay_seconds (lim_rules rl) st = 0" "0 < effective_rps st" "slot_base t st = t"
      "timestamps st = replicate n t"
    and room: "n + m \<le> b"
  shows "\<exists>st'. waiting_slots rl (replicate m (t, 0) @ calls) st = replicate m t @ waiting_slots rl calls st' \<and>
    st' = st\<lparr>timestamps := replicate (n + m) t\<rparr>"
  using st room
proof (induction m arbitrary: n st)
  case 0
  then have "st\<lparr>timestamps := replicate n t\<rparr> = st" by (cases st) simp
  then show ?case by simp
next
  case (Suc m)
  let ?st = "st\<lparr>timestamps := replicate (Suc n) t\<rparr>"
  have p: "preview_slot (lim_slots rl) t st = Inr t"
    using Suc.prems preview_full_window(1) [of "1 / effective_rps st" b n t] slots(1) by (simp add: preview_slot_def)
  have "commit_slot (lim_slots rl) 0 t 0 st = ?st"
    using Suc.prems slots(2)
    by (simp add: commit_slot_def Let_def prune_replicate random_delay_seconds_def replicate_append_same)
  moreover have "effective_crawl_delay_seconds (lim_rules rl) ?st = 0" "slot_base t ?st = t"
    using Suc.prems by (simp_all add: effective_crawl_delay_seconds_def slot_base_def)
  ultimately show ?case
    using Suc.IH [of ?st "Suc n"] Suc.prems waiting_slots_reserve [OF p, of 0] by auto
qed

lemma waiting_slots_overrun:
  assumes slots: "burst_size (lim_slots rl) = int b" "random_delay_max (lim_slots rl) = 0" and b: "1 < b"
    and st: "effective_crawl_delay_seconds (lim_rules rl) st = 0" "0 < effective_rps st" "slot_base t st = t" "timestamps st = []"
  shows "waiting_slots rl (replicate (b + 2) (t, 0)) st = replicate b t @ [t + 1 / effective_rps st, t]"
proof -
  let ?i = "1 / effective_rps st" and ?s1 = "st\<lparr>timestamps := replicate b t\<rparr>"
  have i: "0 < ?i" using st(2) by simp
  have calls: "replicate (b + 2) (t, 0::real) = replicate b (t, 0) @ [(t, 0), (t, 0)]"
    by (metis append_Nil append_Cons replicate_0 replicate_Suc replicate_add numeral_2_eq_2)
  have first: "waiting_slots rl (replicate b (t, 0) @ [(t, 0), (t, 0)]) st = replicate b t @ waiting_slots rl [(t, 0), (t, 0)] ?s1"
    using waiting_slots_fill [OF slots st(1,2,3), of 0 b "[(t, 0), (t, 0)]"] st(4) by auto
  have base: "slot_base t (st\<lparr>timestamps := ts\<rparr>) = t" "effective_crawl_delay_seconds (lim_rules rl) (st\<lparr>timestamps := ts\<rparr>) = 0" for ts
    using st by (simp_all add: slot_base_def effective_crawl_delay_seconds_def)
  have p1: "preview_slot (lim_slots rl) t ?s1 = Inr (t + ?i)"
    using preview_full_window(2) [OF i, of b t] b st(2) slots(1) base by (simp add: preview_slot_def)
  have "commit_slot (lim_slots rl) 0 (t + ?i) 0 ?s1 = st\<lparr>timestamps := [t + ?i]\<rparr>"
    using st(2) slots(2) by (simp add: commit_slot_def Let_def prune_replicate random_delay_seconds_def)
  moreover have p2: "preview_slot (lim_slots rl) t (st\<lparr>timestamps := [t + ?i]\<rparr>) = Inr t"
    using preview_full_window(3) [OF i, of b t] b st(2) slots(1) base by (simp add: preview_slot_def)
  ultimately have "waiting_slots rl [(t, 0), (t, 0)] ?s1 = [t + ?i, t]"
    using waiting_slots_reserve [OF p1, of 0 "[(t, 0)]"] waiting_slots_reserve [OF p2, of 0 "[]"] base
    by (simp del: waiting_slots.simps(2))
  then show ?thesis unfolding calls first by simp
qed


subsection \<open>The bounds of the rate\<close>

definition rules_ok :: "rate_rules \<Rightarrow> bool" where
  "rules_ok rules \<longleftrightarrow> 0 < min_rps rules \<and> min_rps rules \<le> max_rps rules"

definition rate_ok :: "rate_rules \<Rightarrow> rate_state \<Rightarrow> bool" where
  "rate_ok rules st \<longleftrightarrow> (adaptive_rps st = 0 \<or> min_rps rules \<le> adaptive_rps st \<and> adaptive_rps st \<le> max_rps rules) \<and>
    effective_rps st = effective_rps_from_values (adaptive_rps st) (effective_crawl_delay_seconds rules st)"

text \<open>Everything the limiter does to the state of a host.\<close>

inductive limiter_step :: "rate_limiter \<Rightarrow> rate_state \<Rightarrow> rate_state \<Rightarrow> bool" for rl where
  step_rules: "rate_change rl st st' \<Longrightarrow> limiter_step rl st st'"
| step_ready: "take_ready_slot rl draw now st = (r, st') \<Longrightarrow> limiter_step rl st st'"
| step_round: "acquire_round rl draw now loc st = (r, st') \<Longrightarrow> limiter_step rl st st'"

lemma clamp_finite_range: "rules_ok rules \<Longrightarrow> clamp_finite_rps rules v = 0 \<or>
    min_rps rules \<le> clamp_finite_rps rules v \<and> clamp_finite_rps rules v \<le> max_rps rules"
  by (auto simp: clamp_finite_rps_def rules_ok_def)

lemma clamp_rps_range: "rules_ok rules \<Longrightarrow> clamp_rps rules v = Inr r \<Longrightarrow> r = 0 \<or> min_rps rules \<le> r \<and> r \<le> max_rps rules"
  using clamp_finite_range [of rules] by (auto simp: clamp_rps_def split: sum.splits py_error.splits pyfloat.splits)

lemma crawl_delay_frame: "crawl_delay_override st' = crawl_delay_override st \<Longrightarrow>
    effective_crawl_delay_seconds rules st' = effective_crawl_delay_seconds rules st"
  by (simp add: effective_crawl_delay_seconds_def)

lemma rate_ok_frame:
  "adaptive_rps st' = adaptive_rps st \<Longrightarrow> effective_rps st' = effective_rps st \<Longrightarrow>
   crawl_delay_override st' = crawl_delay_override st \<Longrightarrow> rate_ok rules st \<Longrightarrow> rate_ok rules st'"
  by (simp add: rate_ok_def effective_crawl_delay_seconds_def)

lemma rate_ok_bump [simp]: "rate_ok rules (bump_revision s0 st) \<longleftrightarrow> rate_ok rules st"
  by (simp add: rate_ok_def)

lemma rate_ok_cooldown [simp]: "rate_ok rules (st\<lparr>cooldown_until := c\<rparr>) \<longleftrightarrow> rate_ok rules st"
  by (simp add: rate_ok_def effective_crawl_delay_seconds_def)

lemma keep_on_error_ok:
  "keep_on_error f st = (r, st') \<Longrightarrow> rate_ok rules st \<Longrightarrow> (\<And>s. f st = Inr s \<Longrightarrow> rate_ok rules s) \<Longrightarrow> rate_ok rules st'"
  by (auto simp: keep_on_error_def split: sum.splits)

lemma refresh_effective_ok:
  "adaptive_rps st = 0 \<or> min_rps rules \<le> adaptive_rps st \<and> adaptive_rps st \<le> max_rps rules \<Longrightarrow>
   rate_ok rules (refresh_effective rules st)"
  by (simp add: rate_ok_def) (simp add: refresh_effective_def)

lemma report_result_ok:
  assumes "rules_ok rules" "rate_ok rules st"
  shows "rate_ok rules (report_result rules status latency now st)"
  using assms clamp_finite_range [OF assms(1)]
  by (simp add: rate_ok_def crawl_delay_frame [of "report_result rules status latency now st" st])
    (simp add: report_result_def Let_def)

lemma set_host_crawl_delay_ok:
  "rate_ok rules st \<Longrightarrow> set_host_crawl_delay rules v st = Inr st' \<Longrightarrow> rate_ok rules st'"
  by (auto simp: set_host_crawl_delay_def Let_def rate_ok_def [of _ st] intro!: refresh_effective_ok split: option.splits)

lemma set_host_rps_ok:
  "rules_ok rules \<Longrightarrow> set_host_requests_per_second rules v st = Inr st' \<Longrightarrow> rate_ok rules st'"
  using clamp_rps_range [of rules v] by (auto simp: set_host_requests_per_second_def intro!: refresh_effective_ok)

lemma rate_change_ok:
  assumes "rules_ok (lim_rules rl)" "rate_ok (lim_rules rl) st" "rate_change rl st st'"
  shows "rate_ok (lim_rules rl) st'"
  using assms(3)
proof cases
  case (change_result status latency now)
  then show ?thesis using report_result_ok [OF assms(1,2)] by simp
next
  case (change_delay v r)
  show ?thesis by (rule keep_on_error_ok [OF change_delay assms(2) set_host_crawl_delay_ok [OF assms(2)]])
next
  case (change_rate v r)
  show ?thesis by (rule keep_on_error_ok [OF change_rate assms(2) set_host_rps_ok [OF assms(1)]])
next
  case (change_hint seconds now)
  then show ?thesis using assms(2) by simp
qed

lemma cancel_slot_frame:
  "adaptive_rps (cancel_slot r p a st) = adaptive_rps st" "effective_rps (cancel_slot r p a st) = effective_rps st"
  "crawl_delay_override (cancel_slot r p a st) = crawl_delay_override st"
  "cooldown_until (cancel_slot r p a st) = cooldown_until st" "rules_revision (cancel_slot r p a st) = rules_revision st"
  by (simp_all add: cancel_slot_def Let_def split: option.splits)

lemma reserve_slot_frame:
  assumes "reserve_slot slots draw now d st = (r, st')"
  shows "adaptive_rps st' = adaptive_rps st \<and> effective_rps st' = effective_rps st \<and>
    crawl_delay_override st' = crawl_delay_override st \<and> cooldown_until st' = cooldown_until st \<and>
    rules_revision st' = rules_revision st"
  using assms by (auto simp: reserve_slot_def timestamps_after_commit split: sum.splits)

lemma acquire_round_frame:
  assumes "acquire_round rl draw now loc st = (r, st')"
  shows "adaptive_rps st' = adaptive_rps st \<and> effective_rps st' = effective_rps st \<and>
    crawl_delay_override st' = crawl_delay_override st \<and> cooldown_until st' = cooldown_until st \<and>
    rules_revision st' = rules_revision st"
proof -
  obtain loc1 st1 where drop: "drop_stale_reservation loc st = (loc1, st1)" by fastforce
  obtain r2 st2 where ens: "ensure_reservation rl draw now loc1 st1 = (r2, st2)" by fastforce
  have "adaptive_rps st1 = adaptive_rps st \<and> effective_rps st1 = effective_rps st \<and>
      crawl_delay_override st1 = crawl_delay_override st \<and> cooldown_until st1 = cooldown_until st \<and> rules_revision st1 = rules_revision st"
    using drop by (auto simp: drop_stale_reservation_def cancel_slot_frame split: option.splits if_splits)
  moreover have "adaptive_rps st2 = adaptive_rps st1 \<and> effective_rps st2 = effective_rps st1 \<and>
      crawl_delay_override st2 = crawl_delay_override st1 \<and> cooldown_until st2 = cooldown_until st1 \<and> rules_revision st2 = rules_revision st1"
    using ens reserve_slot_frame
    by (fastforce simp: ensure_reservation_def Let_def split: option.splits prod.splits sum.splits)
  moreover have "st' = st2"
    using assms drop ens by (auto simp: acquire_round_def Let_def split: sum.splits if_splits)
  ultimately show ?thesis by simp
qed

lemma limiter_step_ok:
  assumes "rules_ok (lim_rules rl)" "rate_ok (lim_rules rl) st" "limiter_step rl st st'"
  shows "rate_ok (lim_rules rl) st'"
  using assms(3)
proof cases
  case step_rules
  then show ?thesis using rate_change_ok assms(1,2) by blast
next
  case (step_ready draw now r)
  then show ?thesis
    using rate_ok_frame [OF _ _ _ assms(2), of st'] assms(2)
    by (auto simp: take_ready_slot_def Let_def timestamps_after_commit split: sum.splits if_splits)
next
  case (step_round draw now loc r)
  then show ?thesis using rate_ok_frame [OF _ _ _ assms(2)] acquire_round_frame by metis
qed


lemma effective_rps_bounds:
  assumes "rate_ok rules st" "0 < effective_crawl_delay_seconds rules st"
  shows "effective_rps st \<le> 1 / effective_crawl_delay_seconds rules st"
  using assms by (auto simp: rate_ok_def effective_rps_from_values_def Let_def)

lemma limiter_run_ok:
  assumes "(limiter_step rl)\<^sup>*\<^sup>* st st'" "rules_ok (lim_rules rl)" "rate_ok (lim_rules rl) st"
  shows "rate_ok (lim_rules rl) st'"
  using assms(1)
proof (induction rule: rtranclp_induct)
  case base
  show ?case by (rule assms(3))
next
  case (step s s')
  then show ?case using limiter_step_ok assms(2) by blast
qed

lemma bounded_server_delay_range:
  "bounded_server_delay_seconds rl v = Inr (Some d) \<Longrightarrow> 0 < d \<and> d \<le> max_retry_after_seconds rl"
  by (auto simp: bounded_server_delay_seconds_def Let_def split: pyval.splits sum.splits pyfloat.splits py_error.splits if_splits)

lemma acquire_round_reserved:
  assumes "acquire_round rl draw now loc st = (Inr (step, loc'), st')"
  shows "\<exists>r. loc_reserved loc' = Some (r, rules_revision st') \<and>
    (case step of Acquired \<Rightarrow> max r (cooldown_until st') \<le> now | Sleep_Seconds d \<Rightarrow> 0 < d \<and> now + d = max r (cooldown_until st'))"
proof -
  obtain loc1 st1 where drop: "drop_stale_reservation loc st = (loc1, st1)" by fastforce
  obtain r loc2 st2 where ens: "ensure_reservation rl draw now loc1 st1 = (Inr (r, loc2), st2)"
    using assms drop by (fastforce simp: acquire_round_def split: prod.splits sum.splits)
  have "loc_reserved loc1 = None \<or> (\<exists>x. loc_reserved loc1 = Some (x, rules_revision st1))"
    using drop by (auto simp: drop_stale_reservation_def split: option.splits if_splits)
  then have "loc_reserved loc2 = Some (r, rules_revision st2)"
    using ens by (auto simp: ensure_reservation_def Let_def split: option.splits prod.splits sum.splits)
  moreover have "loc' = loc2 \<and> st' = st2 \<and> step = (if max r (cooldown_until st2) - now \<le> 0 then Acquired
      else Sleep_Seconds (max r (cooldown_until st2) - now))"
    using assms drop ens by (auto simp: acquire_round_def Let_def split: if_splits)
  ultimately show ?thesis by auto
qed

section \<open>Properties\<close>


definition sample_limiter :: "int \<Rightarrow> rate_limiter" where
  "sample_limiter burst = \<lparr>lim_rules = \<lparr>min_rps = 1 / 10, max_rps = 10, backoff_factor = 1 / 2, ramp_up_factor = 11 / 10,
       error_cooldown_seconds = 5, feedback_status_codes = [429, 503], default_crawl_delay = None\<rparr>,
     lim_slots = make_slot_config burst 0 0, honor_retry_after = True, max_retry_after_seconds = 60\<rparr>"

lemma sample_limiter_simps:
  "burst_size (lim_slots (sample_limiter burst)) = burst" "random_delay_max (lim_slots (sample_limiter burst)) = 0"
  "default_crawl_delay (lim_rules (sample_limiter burst)) = None"
  by (simp_all add: sample_limiter_def make_slot_config_def Let_def)

lemma sample_take:
  "take_ready_slot (sample_limiter 1) 0 1 (new_rate_state 2 2) = (Inr (Slot_Taken 1), (new_rate_state 2 2)\<lparr>timestamps := [1]\<rparr>)"
  by (simp add: take_ready_slot_def preview_slot_def preview_loop.simps prune_window_def new_rate_state_def sample_limiter_def
      make_slot_config_def slot_base_def commit_slot_def effective_crawl_delay_seconds_def random_delay_seconds_def Let_def)

lemma sample_take_again:
  "fst (take_ready_slot (sample_limiter 1) 0 2 ((new_rate_state 2 2)\<lparr>timestamps := [1]\<rparr>)) = Inr (Slot_Taken 2)"
  by (simp add: take_ready_slot_def preview_slot_def preview_loop.simps prune_window_def new_rate_state_def sample_limiter_def
      make_slot_config_def slot_base_def Let_def)




text \<open>With the default burst size of one, requests that wait for their slots are spaced. However many
  callers reserve slots of a host, at whatever clock readings, while its rules stay the same,
  any two of the slots are at least the interval of the rate apart.\<close>

theorem single_burst_slots_are_spaced:
  assumes "burst_size (lim_slots rl) = 1" and "0 < effective"
  shows "sorted_wrt (\<lambda>a b. a + 1 / effective \<le> b) (waiting_slots rl calls (new_rate_state adaptive effective))"
  using waiting_slots_spaced [OF assms(1), of "new_rate_state adaptive effective" 0 calls] assms(2)
  by (simp add: new_rate_state_def)

theorem single_burst_slots_are_spaced_witness:
  "sorted_wrt (\<lambda>a b. a + 1 / 2 \<le> b) (waiting_slots (sample_limiter 1) [(0, 0), (0, 0), (0, 0)] (new_rate_state 2 2))"
  by (rule single_burst_slots_are_spaced) (simp_all add: sample_limiter_def make_slot_config_def Let_def)

text \<open>C25: With a larger burst size, requests that wait can overrun it. Where no delay separates
  requests, of two requests more than the burst size that arrive at one time the first ones of
  the burst get their slots at once and the next one gets the slot one interval later, but
  reserving that slot forgets the burst, so the last one gets a slot at once again: one more than
  the burst size within one interval.\<close>

theorem waiting_requests_overrun_burst:
  assumes "burst_size (lim_slots rl) = int b" and "1 < b" and "random_delay_max (lim_slots rl) = 0"
    and "default_crawl_delay (lim_rules rl) = None" and "0 < effective" and "0 \<le> t"
  shows "waiting_slots rl (replicate (b + 2) (t, 0)) (new_rate_state adaptive effective) =
    replicate b t @ [t + 1 / effective, t]"
  using waiting_slots_overrun [OF assms(1,3,2), of "new_rate_state adaptive effective" t] assms(4-6)
  by (simp add: new_rate_state_def effective_crawl_delay_seconds_def slot_base_def)

theorem waiting_requests_overrun_burst_witness:
  "waiting_slots (sample_limiter 2) (replicate (2 + 2) (0, 0)) (new_rate_state 1 1) = [0, 0, 1, 0]"
proof -
  have "waiting_slots (sample_limiter 2) (replicate (2 + 2) (0, 0)) (new_rate_state 1 1) = replicate 2 0 @ [0 + 1 / 1, 0]"
    by (rule waiting_requests_overrun_burst) (simp_all add: sample_limiter_simps)
  then show ?thesis by (simp only: replicate_Suc numeral_2_eq_2) simp
qed

text \<open>The rate stays within its bounds. Whatever responses, crawl delays, explicit rates, hints and
  acquisitions follow each other, the adaptive rate is zero or within the configured range,
  the effective rate is the adaptive one capped by the crawl delay, and under a crawl delay it
  never exceeds one request per delay.\<close>

theorem rate_stays_in_bounds:
  assumes "rules_ok (lim_rules rl)" and "rate_ok (lim_rules rl) (new_rate_state adaptive effective)"
    and "(limiter_step rl)\<^sup>*\<^sup>* (new_rate_state adaptive effective) st"
  shows "rate_ok (lim_rules rl) st \<and> (0 < effective_crawl_delay_seconds (lim_rules rl) st \<longrightarrow>
    effective_rps st \<le> 1 / effective_crawl_delay_seconds (lim_rules rl) st)"
  using limiter_run_ok [OF assms(3,1,2)] effective_rps_bounds by blast

theorem rate_stays_in_bounds_witness:
  "rate_ok (lim_rules (sample_limiter 1)) (bump_revision (new_rate_state 2 2) (report_result (lim_rules (sample_limiter 1)) 503 0 1 (new_rate_state 2 2)))"
proof -
  have "(limiter_step (sample_limiter 1))\<^sup>*\<^sup>* (new_rate_state 2 2)
      (bump_revision (new_rate_state 2 2) (report_result (lim_rules (sample_limiter 1)) 503 0 1 (new_rate_state 2 2)))"
    by (rule r_into_rtranclp) (rule step_rules [OF change_result])
  from rate_stays_in_bounds [OF _ _ this] show ?thesis
    by (simp add: rules_ok_def rate_ok_def sample_limiter_def new_rate_state_def effective_rps_from_values_def
        effective_crawl_delay_seconds_def)
qed

text \<open>C26: An acquisition ends once it is left alone. A round of \<open>acquire\<close> that grants the request does so
  after its slot and after the cooldown; if it sleeps, and neither the rules nor the cooldown of
  the host have changed when it wakes up, its next round grants the request.\<close>

theorem acquire_settles:
  assumes "acquire_round rl draw now loc st = (Inr (step, loc'), st')"
    and "rules_revision st'' = rules_revision st'" and "cooldown_until st'' = cooldown_until st'"
  shows "case step of
      Acquired \<Rightarrow> \<exists>r. loc_reserved loc' = Some (r, rules_revision st') \<and> r \<le> now \<and> cooldown_until st' \<le> now
    | Sleep_Seconds d \<Rightarrow> 0 < d \<and> (\<forall>now' draw'. now + d \<le> now' \<longrightarrow> acquire_round rl draw' now' loc' st'' = (Inr (Acquired, loc'), st''))"
proof -
  obtain r where r: "loc_reserved loc' = Some (r, rules_revision st')"
    "case step of Acquired \<Rightarrow> max r (cooldown_until st') \<le> now | Sleep_Seconds d \<Rightarrow> 0 < d \<and> now + d = max r (cooldown_until st')"
    using acquire_round_reserved [OF assms(1)] by blast
  then show ?thesis
    using assms(2,3)
    by (auto simp: acquire_round_def drop_stale_reservation_def ensure_reservation_def Let_def split: acquire_step.splits)
qed

theorem acquire_settles_witness:
  "case acquire_round (sample_limiter 1) 0 0 no_reservation ((new_rate_state 2 2)\<lparr>cooldown_until := 3\<rparr>) of
     (Inr (Sleep_Seconds d, loc), st) \<Rightarrow> acquire_round (sample_limiter 1) 0 (0 + d) loc st = (Inr (Acquired, loc), st) | _ \<Rightarrow> False"
proof -
  let ?st = "(new_rate_state 2 2)\<lparr>cooldown_until := 3\<rparr>"
  obtain loc st where run: "acquire_round (sample_limiter 1) 0 0 no_reservation ?st = (Inr (Sleep_Seconds 3, loc), st)"
    by (simp add: acquire_round_def drop_stale_reservation_def no_reservation_def ensure_reservation_def reserve_slot_def
        preview_slot_def preview_loop.simps prune_window_def new_rate_state_def sample_limiter_def make_slot_config_def
        slot_base_def commit_slot_def effective_crawl_delay_seconds_def random_delay_seconds_def Let_def)
  from acquire_settles [OF this refl refl] run show ?thesis by simp
qed

end
