(* ===== verification/Circuit_Breaker.thy ===== *)
theory Circuit_Breaker imports
  Active_Task_Registry
begin

text \<open>
  The circuit breaker of hosts, \<open>crawler/governance/circuit_breaker/host_circuit_breaker.py\<close>,
  and the places where a fetch attempt consults and informs it,
  \<open>crawler/fetching/execution/attempt.py\<close>. How the request itself ends is an argument.
\<close>

section \<open>The breaker\<close>

record circuit_decision =
  circuit_allowed :: bool
  circuit_retry_after :: "real option"
  half_open_trial :: bool

record circuit_state =
  circuit_failures :: "(string \<times> int) list"
  opened_until :: real
  half_open_in_flight :: bool

record circuit_breaker =
  failure_threshold :: int
  breaker_cooldown :: real
  circuit_states :: "(string \<times> circuit_state) list"

definition make_circuit_breaker :: "int \<Rightarrow> real \<Rightarrow> circuit_breaker result" where
  "make_circuit_breaker threshold cooldown =
    (if threshold < 1 then Inl (ValueError ''failure_threshold must be at least one'')
     else if cooldown \<le> 0 then Inl (ValueError ''cooldown_seconds must be positive'')
     else Inr \<lparr>failure_threshold = threshold, breaker_cooldown = cooldown, circuit_states = []\<rparr>)"

definition new_circuit :: circuit_state where
  "new_circuit = \<lparr>circuit_failures = [], opened_until = 0, half_open_in_flight = False\<rparr>"

definition admit_request :: circuit_decision where
  "admit_request = \<lparr>circuit_allowed = True, circuit_retry_after = None, half_open_trial = False\<rparr>"

definition admit_trial :: circuit_decision where
  "admit_trial = \<lparr>circuit_allowed = True, circuit_retry_after = None, half_open_trial = True\<rparr>"

definition refuse_request :: "real \<Rightarrow> circuit_decision" where
  "refuse_request seconds = \<lparr>circuit_allowed = False, circuit_retry_after = Some seconds, half_open_trial = False\<rparr>"

definition before_request ::
  "(host \<Rightarrow> host) \<Rightarrow> real \<Rightarrow> host \<Rightarrow> circuit_breaker \<Rightarrow> circuit_decision result \<times> circuit_breaker" where
  "before_request nrm now h br = (case require_host nrm h of
     Inl e \<Rightarrow> (Inl e, br)
   | Inr key \<Rightarrow> (case map_of (circuit_states br) key of
        None \<Rightarrow> (Inr admit_request, br)
      | Some st \<Rightarrow>
          if opened_until st \<le> 0 then (Inr admit_request, br)
          else if now < opened_until st then (Inr (refuse_request (opened_until st - now)), br)
          else if half_open_in_flight st then (Inr (refuse_request (breaker_cooldown br)), br)
          else (Inr admit_trial, br\<lparr>circuit_states := AList.update key (st\<lparr>half_open_in_flight := True\<rparr>) (circuit_states br)\<rparr>)))"

definition record_success :: "(host \<Rightarrow> host) \<Rightarrow> host \<Rightarrow> circuit_breaker \<Rightarrow> unit result \<times> circuit_breaker" where
  "record_success nrm h br = (case require_host nrm h of
     Inl e \<Rightarrow> (Inl e, br)
   | Inr key \<Rightarrow> (Inr (), br\<lparr>circuit_states := AList.delete key (circuit_states br)\<rparr>))"

definition fail_circuit :: "circuit_breaker \<Rightarrow> real \<Rightarrow> string \<Rightarrow> circuit_state \<Rightarrow> circuit_state" where
  "fail_circuit br now category st =
    (let count = get_default (circuit_failures st) category 0 + 1;
         should_open = half_open_in_flight st \<or> failure_threshold br \<le> count;
         st = st\<lparr>circuit_failures := AList.update category count (circuit_failures st), half_open_in_flight := False\<rparr>
     in if should_open then st\<lparr>opened_until := now + breaker_cooldown br\<rparr> else st)"

definition record_failure :: "(host \<Rightarrow> host) \<Rightarrow> real \<Rightarrow> host \<Rightarrow> string \<Rightarrow> circuit_breaker \<Rightarrow> unit result \<times> circuit_breaker" where
  "record_failure nrm now h category br = (case require_host nrm h of
     Inl e \<Rightarrow> (Inl e, br)
   | Inr key \<Rightarrow>
      (let failure_category = py_lower (py_strip category) in
       if failure_category = [] then (Inl (ValueError ''circuit failure category must not be empty''), br)
       else (let st = get_default (circuit_states br) key new_circuit in
         (Inr (), br\<lparr>circuit_states := AList.update key (fail_circuit br now failure_category st) (circuit_states br)\<rparr>))))"

definition circuit_snapshot :: "(host \<Rightarrow> host) \<Rightarrow> host \<Rightarrow> circuit_breaker \<Rightarrow> circuit_state result" where
  "circuit_snapshot nrm h br = and_then (require_host nrm h) (\<lambda>key. Inr (get_default (circuit_states br) key new_circuit))"

section \<open>Fetch attempts\<close>

text \<open>How an attempt ends after the breaker admitted it: a processed response with its status and
  the host it came from, a retryable error with its kind, class and status, an error that is
  ignored, a cancellation, a transport timeout or failure, or any other exception, such as
  \<open>RateLimiterNotReadyError\<close>.\<close>

datatype attempt_end =
    Response int host
  | Retryable "string option" string "int option"
  | Ignored
  | Cancelled
  | Transport_Timeout
  | Transport_Failure
  | Other_Error

definition retry_error_kind_of :: "string option \<Rightarrow> string \<Rightarrow> string" where
  "retry_error_kind_of kind cls = py_lower (py_strip (case kind of Some (c # cs) \<Rightarrow> c # cs | _ \<Rightarrow> cls))"

definition should_record_circuit_failure :: "string option \<Rightarrow> string \<Rightarrow> bool" where
  "should_record_circuit_failure kind cls =
    (retry_error_kind_of kind cls \<notin> {''circuit_open'', ''peer_address_unavailable'', ''not_modified_force_unconditional''})"

definition circuit_failure_category :: "string option \<Rightarrow> string \<Rightarrow> int option \<Rightarrow> string" where
  "circuit_failure_category kind cls status = (case status of
     Some code \<Rightarrow> ''http_'' @ dec_int code | None \<Rightarrow> retry_error_kind_of kind cls)"

definition record_end ::
  "(host \<Rightarrow> host) \<Rightarrow> real \<Rightarrow> host \<Rightarrow> attempt_end \<Rightarrow> circuit_breaker \<Rightarrow> unit result \<times> circuit_breaker" where
  "record_end nrm now h e br = (case e of
     Response status response_host \<Rightarrow> if 200 \<le> status \<and> status < 400 then record_success nrm response_host br else (Inr (), br)
   | Retryable kind cls status \<Rightarrow> if should_record_circuit_failure kind cls
       then record_failure nrm now h (circuit_failure_category kind cls status) br else (Inr (), br)
   | Transport_Timeout \<Rightarrow> record_failure nrm now h ''transport_timeout'' br
   | Transport_Failure \<Rightarrow> record_failure nrm now h ''transport_failure'' br
   | _ \<Rightarrow> (Inr (), br))"

text \<open>A refused attempt raises a retryable error of kind \<open>circuit_open\<close>.\<close>

datatype attempt_result = Attempt_Refused "real option" | Attempt_Ended attempt_end

definition execute_attempt ::
  "(host \<Rightarrow> host) \<Rightarrow> real \<Rightarrow> real \<Rightarrow> host \<Rightarrow> attempt_end \<Rightarrow> circuit_breaker \<Rightarrow> attempt_result result \<times> circuit_breaker" where
  "execute_attempt nrm started ended h e br = (case before_request nrm started h br of
     (Inl err, br) \<Rightarrow> (Inl err, br)
   | (Inr decision, br) \<Rightarrow>
       if \<not> circuit_allowed decision
       then (case record_end nrm started h (Retryable (Some ''circuit_open'') ''circuit_breaker'' None) br of
           (r, br) \<Rightarrow> (map_sum id (\<lambda>_. Attempt_Refused (circuit_retry_after decision)) r, br))
       else (case record_end nrm ended h e br of (r, br) \<Rightarrow> (map_sum id (\<lambda>_. Attempt_Ended e) r, br)))"

section \<open>Lemmas\<close>

text \<open>The events of a run, oldest first, and the failures of a host since its last success.\<close>

datatype circuit_event = Asked host | Succeeded host | Failed host string

definition circuit_apply :: "(host \<Rightarrow> host) \<Rightarrow> real \<Rightarrow> circuit_event \<Rightarrow> circuit_breaker \<Rightarrow> circuit_breaker" where
  "circuit_apply nrm now e br = (case e of
     Asked h \<Rightarrow> snd (before_request nrm now h br)
   | Succeeded h \<Rightarrow> snd (record_success nrm h br)
   | Failed h category \<Rightarrow> snd (record_failure nrm now h category br))"

definition circuit_run :: "(host \<Rightarrow> host) \<Rightarrow> (real \<times> circuit_event) list \<Rightarrow> circuit_breaker \<Rightarrow> circuit_breaker" where
  "circuit_run nrm events br = fold (\<lambda>(now, e). circuit_apply nrm now e) events br"

fun count_failure :: "(host \<Rightarrow> host) \<Rightarrow> string \<Rightarrow> string \<Rightarrow> circuit_event \<Rightarrow> nat \<Rightarrow> nat" where
  "count_failure nrm key category (Succeeded h) n = (if nrm h = Some key then 0 else n)"
| "count_failure nrm key category (Failed h c) n = (if nrm h = Some key \<and> py_lower (py_strip c) = category then Suc n else n)"
| "count_failure nrm key category (Asked h) n = n"

definition recent_failures :: "(host \<Rightarrow> host) \<Rightarrow> string \<Rightarrow> string \<Rightarrow> (real \<times> circuit_event) list \<Rightarrow> nat" where
  "recent_failures nrm key category events = fold (\<lambda>(now, e). count_failure nrm key category e) events 0"

abbreviation circuit_of :: "circuit_breaker \<Rightarrow> string \<Rightarrow> circuit_state" where
  "circuit_of br key \<equiv> get_default (circuit_states br) key new_circuit"

definition circuit_ok :: "(host \<Rightarrow> host) \<Rightarrow> circuit_breaker \<Rightarrow> (string \<Rightarrow> string \<Rightarrow> nat) \<Rightarrow> bool" where
  "circuit_ok nrm br failed \<longleftrightarrow> (\<forall>key.
     (\<forall>c. c \<noteq> [] \<longrightarrow> get_default (circuit_failures (circuit_of br key)) c 0 = int (failed key c)) \<and>
     0 \<le> opened_until (circuit_of br key) \<and>
     (0 < opened_until (circuit_of br key) \<longleftrightarrow> (\<exists>c. c \<noteq> [] \<and> failure_threshold br \<le> int (failed key c))) \<and>
     (half_open_in_flight (circuit_of br key) \<longrightarrow> 0 < opened_until (circuit_of br key)))"


lemma circuit_okD:
  assumes "circuit_ok nrm br failed"
  shows "c \<noteq> [] \<Longrightarrow> get_default (circuit_failures (circuit_of br key)) c 0 = int (failed key c)"
    and "0 \<le> opened_until (circuit_of br key)"
    and "0 < opened_until (circuit_of br key) \<longleftrightarrow> (\<exists>c. c \<noteq> [] \<and> failure_threshold br \<le> int (failed key c))"
    and "half_open_in_flight (circuit_of br key) \<Longrightarrow> 0 < opened_until (circuit_of br key)"
  using assms unfolding circuit_ok_def by blast+

lemma require_host_simps [simp]:
  "require_host nrm h = Inr key \<longleftrightarrow> nrm h = Some key" "require_host nrm h = Inl e \<longleftrightarrow> nrm h = None \<and> e = ValueError ''A valid host is required''"
  by (auto simp: require_host_def split: option.splits)

lemma breaker_settings [simp]:
  "failure_threshold (circuit_apply nrm now e br) = failure_threshold br"
  "breaker_cooldown (circuit_apply nrm now e br) = breaker_cooldown br"
  by (cases e; simp add: circuit_apply_def before_request_def record_success_def record_failure_def Let_def
      split: sum.splits option.splits)+

lemma before_request_keeps:
  "circuit_failures (circuit_of (snd (before_request nrm now h br)) key) = circuit_failures (circuit_of br key) \<and>
   opened_until (circuit_of (snd (before_request nrm now h br)) key) = opened_until (circuit_of br key) \<and>
   (half_open_in_flight (circuit_of (snd (before_request nrm now h br)) key) \<longrightarrow>
      half_open_in_flight (circuit_of br key) \<or> 0 < opened_until (circuit_of br key))"
proof (cases "nrm h")
  case (Some k)
  then show ?thesis
    by (cases "map_of (circuit_states br) k")
      (auto simp: before_request_def require_host_def get_default_def update_conv')
qed (simp add: before_request_def require_host_def)

lemma asked_ok: "circuit_ok nrm br failed \<Longrightarrow> circuit_ok nrm (circuit_apply nrm now (Asked h) br) failed"
  using before_request_keeps [of nrm now h br] breaker_settings(1) [of nrm now "Asked h" br]
  unfolding circuit_ok_def by (simp add: circuit_apply_def) metis

lemma succeeded_of:
  "circuit_of (circuit_apply nrm now (Succeeded h) br) key = (if nrm h = Some key then new_circuit else circuit_of br key)"
  by (cases "nrm h") (auto simp: circuit_apply_def record_success_def require_host_def)

lemma succeeded_ok:
  assumes "circuit_ok nrm br failed" "1 \<le> failure_threshold br"
  shows "circuit_ok nrm (circuit_apply nrm now (Succeeded h) br) (\<lambda>key c. if nrm h = Some key then 0 else failed key c)"
  using assms unfolding circuit_ok_def succeeded_of breaker_settings
  by (auto simp: new_circuit_def get_default_def)

lemma failed_of:
  assumes "nrm h = Some k" "py_lower (py_strip category) \<noteq> []"
  shows "circuit_of (circuit_apply nrm now (Failed h category) br) key =
    (if key = k then fail_circuit br now (py_lower (py_strip category)) (circuit_of br k) else circuit_of br key)"
  using assms by (simp add: circuit_apply_def record_failure_def require_host_def)

lemma fail_circuit_parts:
  "get_default (circuit_failures (fail_circuit br now c st)) c' 0 =
     get_default (circuit_failures st) c' 0 + (if c' = c then 1 else 0)"
  "half_open_in_flight (fail_circuit br now c st) = False"
  "opened_until (fail_circuit br now c st) =
     (if half_open_in_flight st \<or> failure_threshold br \<le> get_default (circuit_failures st) c 0 + 1
      then now + breaker_cooldown br else opened_until st)"
  by (simp_all add: fail_circuit_def Let_def)

lemma failed_ok:
  assumes ok: "circuit_ok nrm br failed" and "0 < breaker_cooldown br" "0 \<le> now"
  shows "circuit_ok nrm (circuit_apply nrm now (Failed h category) br) (\<lambda>key c. count_failure nrm key c (Failed h category) (failed key c))"
proof (cases "nrm h = None \<or> py_lower (py_strip category) = []")
  case True
  then have "circuit_apply nrm now (Failed h category) br = br"
    by (cases "nrm h") (auto simp: circuit_apply_def record_failure_def require_host_def)
  moreover have "c \<noteq> [] \<Longrightarrow> count_failure nrm key c (Failed h category) n = n" for key c n
    using True by auto
  ultimately show ?thesis using ok unfolding circuit_ok_def by (simp cong: conj_cong)
next
  case False
  then obtain k where k: "nrm h = Some k" "py_lower (py_strip category) \<noteq> []" by auto
  let ?c = "py_lower (py_strip category)" and ?st = "circuit_of br k"
  let ?br = "circuit_apply nrm now (Failed h category) br"
  let ?f = "\<lambda>key c. count_failure nrm key c (Failed h category) (failed key c)"
  note D = circuit_okD [OF ok]
  have counts: "get_default (circuit_failures (circuit_of ?br key)) c 0 = int (?f key c)" if "c \<noteq> []" for key c
    using D(1) [OF that] k by (auto simp: failed_of [of nrm h k category, OF k] fail_circuit_parts)
  have opened: "0 < opened_until (circuit_of ?br key) \<longleftrightarrow> (\<exists>c. c \<noteq> [] \<and> failure_threshold br \<le> int (?f key c))" for key
  proof (cases "key = k")
    case True
    have "(\<exists>c. c \<noteq> [] \<and> failure_threshold br \<le> int (?f k c)) \<longleftrightarrow>
        (\<exists>c. c \<noteq> [] \<and> failure_threshold br \<le> int (failed k c)) \<or> failure_threshold br \<le> int (failed k ?c) + 1"
      (is "?L \<longleftrightarrow> ?R")
    proof
      assume ?L
      then obtain c where "c \<noteq> []" "failure_threshold br \<le> int (?f k c)" by blast
      then show ?R using k(1) by (cases "?c = c") auto
    next
      assume ?R
      then consider c where "c \<noteq> []" "failure_threshold br \<le> int (failed k c)" | "failure_threshold br \<le> int (failed k ?c) + 1"
        by blast
      then show ?L
      proof cases
        case (1 c)
        then have "failure_threshold br \<le> int (?f k c)" by simp
        with 1(1) show ?thesis by blast
      next
        case 2
        then have "failure_threshold br \<le> int (?f k ?c)" using k(1) by simp
        with k(2) show ?thesis by blast
      qed
    qed
    then show ?thesis
      using True assms(2,3) D(1) [OF k(2), of k] D(3) [of k] D(4) [of k]
      by (auto simp: failed_of [of nrm h k category, OF k] fail_circuit_parts)
  qed (use k D(3) in \<open>simp add: failed_of [of nrm h k category, OF k]\<close>)
  moreover have "0 \<le> opened_until (circuit_of ?br key)" for key
    using D(2) assms(2,3) by (simp add: failed_of [of nrm h k category, OF k] fail_circuit_parts)
  moreover have "half_open_in_flight (circuit_of ?br key) \<Longrightarrow> 0 < opened_until (circuit_of ?br key)" for key
    using D(4) [of key] by (cases "key = k") (simp_all add: failed_of [of nrm h k category, OF k] fail_circuit_parts)
  ultimately show ?thesis
    unfolding circuit_ok_def breaker_settings using counts by blast
qed

lemma circuit_apply_ok:
  assumes "circuit_ok nrm br failed" "1 \<le> failure_threshold br" "0 < breaker_cooldown br" "0 \<le> now"
  shows "circuit_ok nrm (circuit_apply nrm now e br) (\<lambda>key c. count_failure nrm key c e (failed key c))"
  using asked_ok [OF assms(1)] succeeded_ok [OF assms(1,2)] failed_ok [OF assms(1,3,4)] by (cases e) simp_all

lemma circuit_run_ok:
  assumes "1 \<le> failure_threshold br" "0 < breaker_cooldown br" "circuit_states br = []" "\<forall>(now, e)\<in>set events. 0 \<le> now"
  shows "circuit_ok nrm (circuit_run nrm events br) (\<lambda>key c. recent_failures nrm key c events) \<and>
    failure_threshold (circuit_run nrm events br) = failure_threshold br \<and> breaker_cooldown (circuit_run nrm events br) = breaker_cooldown br"
  using assms(4)
proof (induction events rule: rev_induct)
  case Nil
  then show ?case
    using assms(1,3) by (auto simp: circuit_run_def circuit_ok_def recent_failures_def get_default_def new_circuit_def)
next
  case (snoc x events)
  obtain now e where x: "x = (now, e)" by (cases x)
  note IH = snoc.IH
  have "circuit_ok nrm (circuit_apply nrm now e (circuit_run nrm events br))
      (\<lambda>key c. count_failure nrm key c e (recent_failures nrm key c events))"
    using IH snoc.prems x assms(1,2) by (intro circuit_apply_ok) auto
  then show ?case
    using IH snoc.prems x by (simp add: circuit_run_def recent_failures_def)
qed

lemma before_request_decision:
  assumes "circuit_ok nrm br failed" "nrm h = Some key"
  shows "(\<exists>d br'. before_request nrm now h br = (Inr d, br') \<and>
    (circuit_allowed d \<longleftrightarrow> \<not> (\<exists>c. c \<noteq> [] \<and> failure_threshold br \<le> int (failed key c)) \<or>
       opened_until (circuit_of br key) \<le> now \<and> \<not> half_open_in_flight (circuit_of br key)) \<and>
    (half_open_trial d \<longrightarrow> half_open_in_flight (circuit_of br' key)))"
proof -
  note D = circuit_okD [OF assms(1), of key] and opened = circuit_okD(3) [OF assms(1), of key]
  show ?thesis
  proof (cases "map_of (circuit_states br) key")
    case None
    then show ?thesis
      using assms(2) opened by (auto simp: before_request_def require_host_def get_default_def new_circuit_def admit_request_def)
  next
    case (Some st)
    then have st: "circuit_of br key = st" by (simp add: get_default_def)
    show ?thesis
    proof (cases "opened_until st \<le> 0")
      case True
      then show ?thesis
        using assms(2) opened Some st by (auto simp: before_request_def require_host_def admit_request_def)
    next
      case False
      then show ?thesis
        using assms(2) opened Some st
        by (auto simp: before_request_def require_host_def admit_trial_def refuse_request_def)
    qed
  qed
qed

subsection \<open>Trials\<close>

definition trial_in_flight :: "circuit_breaker \<Rightarrow> string \<Rightarrow> bool" where
  "trial_in_flight br key \<longleftrightarrow> (\<exists>st. map_of (circuit_states br) key = Some st \<and> 0 < opened_until st \<and> half_open_in_flight st)"

lemma trial_refuses:
  assumes "trial_in_flight br key" "nrm h = Some key"
  shows "\<exists>seconds. before_request nrm now h br = (Inr (refuse_request seconds), br)"
  using assms by (auto simp: trial_in_flight_def before_request_def require_host_def)

lemma circuit_open_unrecorded: "record_end nrm now h (Retryable (Some ''circuit_open'') cls status) br = (Inr (), br)"
proof -
  have "retry_error_kind_of (Some ''circuit_open'') cls = ''circuit_open''"
    unfolding retry_error_kind_of_def by code_simp
  then show ?thesis by (simp add: record_end_def should_record_circuit_failure_def)
qed

lemma trial_attempt:
  assumes "trial_in_flight br key" "nrm h = Some key"
  shows "\<exists>seconds. execute_attempt nrm started ended h e br = (Inr (Attempt_Refused (Some seconds)), br)"
  using trial_refuses [of br key nrm h started, OF assms] circuit_open_unrecorded
  by (auto simp: execute_attempt_def refuse_request_def)

text \<open>The ends of an attempt that tell the breaker nothing about the host with this key.\<close>

definition unrecorded_end :: "(host \<Rightarrow> host) \<Rightarrow> string \<Rightarrow> attempt_end \<Rightarrow> bool" where
  "unrecorded_end nrm key e = (case e of
     Response status h \<Rightarrow> \<not> (200 \<le> status \<and> status < 400) \<or> nrm h \<noteq> Some key
   | Retryable kind cls status \<Rightarrow> \<not> should_record_circuit_failure kind cls
   | Transport_Timeout \<Rightarrow> False
   | Transport_Failure \<Rightarrow> False
   | _ \<Rightarrow> True)"

lemma unrecorded_end_keeps:
  assumes "unrecorded_end nrm key e" "trial_in_flight br key"
  shows "trial_in_flight (snd (record_end nrm now h e br)) key"
  using assms
  by (auto simp: unrecorded_end_def record_end_def record_success_def trial_in_flight_def require_host_def delete_conv'
      split: attempt_end.splits option.splits)

lemma trial_starts:
  assumes "before_request nrm now h br = (Inr d, br')" "half_open_trial d" "nrm h = Some key"
  shows "trial_in_flight br' key"
  using assms
  by (auto simp: before_request_def require_host_def trial_in_flight_def admit_request_def admit_trial_def refuse_request_def
      update_conv' split: option.splits if_splits)

fun later_attempts ::
  "(host \<Rightarrow> host) \<Rightarrow> (real \<times> real \<times> host \<times> attempt_end) list \<Rightarrow> circuit_breaker \<Rightarrow> attempt_result result list" where
  "later_attempts nrm [] br = []"
| "later_attempts nrm ((started, ended, h, e) # rest) br = (case execute_attempt nrm started ended h e br of
     (r, br) \<Rightarrow> r # later_attempts nrm rest br)"

lemma later_attempts_refused:
  assumes "trial_in_flight br key" "\<forall>(started, ended, h, e)\<in>set attempts. nrm h = Some key"
  shows "\<forall>r\<in>set (later_attempts nrm attempts br). \<exists>seconds. r = Inr (Attempt_Refused (Some seconds))"
  using assms(2)
proof (induction attempts)
  case (Cons a attempts)
  obtain started ended h e where a: "a = (started, ended, h, e)" by (metis prod_cases4)
  then have "nrm h = Some key" using Cons.prems by simp
  from trial_attempt [of br key nrm h started ended e, OF assms(1) this] Cons a show ?case by auto
qed simp

section \<open>Properties\<close>

text \<open>C27: A host is refused only after repeated failures. In every run of the breaker, with any
  interleaving of requests and outcomes, a request of a host is refused only if some category
  of failures has reached the threshold since the last success of that host, and it is then
  refused exactly while the cooldown lasts or a trial is under way. Below the threshold every
  request is allowed.\<close>

theorem refused_only_at_threshold:
  assumes "make_circuit_breaker threshold cooldown = Inr br" and "\<forall>(now, e)\<in>set events. 0 \<le> now" and "nrm h = Some key"
  shows "\<exists>d br'. before_request nrm now h (circuit_run nrm events br) = (Inr d, br') \<and>
    (circuit_allowed d \<longleftrightarrow> (\<forall>c. c \<noteq> [] \<longrightarrow> int (recent_failures nrm key c events) < threshold) \<or>
      opened_until (circuit_of (circuit_run nrm events br) key) \<le> now \<and>
      \<not> half_open_in_flight (circuit_of (circuit_run nrm events br) key))"
proof -
  have br: "1 \<le> failure_threshold br" "0 < breaker_cooldown br" "circuit_states br = []" "failure_threshold br = threshold"
    using assms(1) by (auto simp: make_circuit_breaker_def split: if_splits)
  note run = circuit_run_ok [OF br(1-3) assms(2), of nrm]
  from before_request_decision [OF conjunct1 [OF run] assms(3), of now] run br(4) show ?thesis
    by (auto simp: not_le)
qed

lemma sample_breaker: "make_circuit_breaker 2 30 = Inr \<lparr>failure_threshold = 2, breaker_cooldown = 30, circuit_states = []\<rparr>"
  by (simp add: make_circuit_breaker_def)

theorem refused_only_at_threshold_witness:
  "case make_circuit_breaker 2 30 of Inl _ \<Rightarrow> False
   | Inr br \<Rightarrow> \<exists>d br'. before_request id 3 (Some ''a'') (circuit_run id [(1, Failed (Some ''a'') ''dns''), (2, Failed (Some ''a'') ''tls'')] br) = (Inr d, br') \<and> circuit_allowed d"
proof -
  let ?events = "[(1, Failed (Some ''a'') ''dns''), (2, Failed (Some ''a'') ''tls'')] :: (real \<times> circuit_event) list"
  have names: "py_lower (py_strip ''dns'') = ''dns''" "py_lower (py_strip ''tls'') = ''tls''" by code_simp+
  have "int (recent_failures id ''a'' c ?events) < 2" for c
    by (auto simp: recent_failures_def names)
  with refused_only_at_threshold [OF sample_breaker, of ?events id "Some ''a''" "''a''" 3]
  show ?thesis unfolding sample_breaker by auto
qed

text \<open>An abandoned trial blocks its host for good. When the breaker has admitted a trial request
  and the attempt ends in a way that is not reported to the breaker (a cancellation, an ignored
  error, a deferral by the rate limiter, a client error status, a redirect answered by another
  host), every later attempt at the host is refused, however much time passes and however it
  would have ended.\<close>

theorem abandoned_trial_blocks_host:
  assumes "before_request nrm started h br = (Inr d, br')" and "half_open_trial d" and "nrm h = Some key"
    and "unrecorded_end nrm key e" and "\<forall>(s, t, h', e')\<in>set attempts. nrm h' = Some key"
  shows "\<forall>r\<in>set (later_attempts nrm attempts (snd (record_end nrm ended h e br'))). \<exists>seconds. r = Inr (Attempt_Refused (Some seconds))"
  using later_attempts_refused [OF unrecorded_end_keeps [OF assms(4) trial_starts [OF assms(1-3)]] assms(5)] .

definition open_breaker :: circuit_breaker where
  "open_breaker = \<lparr>failure_threshold = 1, breaker_cooldown = 30,
     circuit_states = [(''a'', \<lparr>circuit_failures = [(''dns'', 1)], opened_until = 31, half_open_in_flight = False\<rparr>)]\<rparr>"

theorem abandoned_trial_blocks_host_witness:
  "\<exists>seconds. fst (execute_attempt id 1000 1001 (Some ''a'') (Response 200 (Some ''a''))
     (snd (execute_attempt id 40 41 (Some ''a'') Cancelled open_breaker))) = Inr (Attempt_Refused (Some seconds))"
proof -
  obtain d br' where run: "before_request id 40 (Some ''a'') open_breaker = (Inr d, br')" "half_open_trial d" "circuit_allowed d"
    by (simp add: before_request_def require_host_def open_breaker_def admit_trial_def)
  let ?later = "[(1000, 1001, Some ''a'', Response 200 (Some ''a''))] :: (real \<times> real \<times> host \<times> attempt_end) list"
  let ?br = "snd (execute_attempt id 40 41 (Some ''a'') Cancelled open_breaker)"
  have "?br = snd (record_end id 41 (Some ''a'') Cancelled br')"
    using run by (simp add: execute_attempt_def split: prod.splits)
  moreover have "later_attempts id ?later ?br = [fst (execute_attempt id 1000 1001 (Some ''a'') (Response 200 (Some ''a'')) ?br)]"
    by (simp split: prod.splits)
  moreover have "\<forall>r\<in>set (later_attempts id ?later (snd (record_end id 41 (Some ''a'') Cancelled br'))). \<exists>seconds. r = Inr (Attempt_Refused (Some seconds))"
    by (rule abandoned_trial_blocks_host [OF run(1,2), where key = "''a''"]) (simp_all add: unrecorded_end_def)
  ultimately show ?thesis by simp
qed

end
