(* ===== verification/Host_Suppression.thy ===== *)
theory Host_Suppression imports
  Host_Task_Queue
begin

text \<open>
  Suppression of hosts after repeated 403 responses, \<open>crawler/governance/host_suppression.py\<close>:
  a dictionary in order of last use with a time to live and a maximal size. An operation reads
  the clock several times; \<open>clk n\<close> is its \<open>n\<close>-th reading. The store refines a map from
  hosts to their count of consecutive 403 responses and the end of their suppression.
\<close>

section \<open>The store\<close>

record suppression_entry =
  forbidden_count :: int
  suppressed_until :: real
  entry_expires_at :: real

record suppression_store =
  sup_ttl :: real
  sup_max_size :: int
  sup_threshold :: int
  sup_cooldown :: real
  sup_entries :: "(string \<times> suppression_entry) list"

definition make_suppression_store :: "real \<Rightarrow> int \<Rightarrow> int \<Rightarrow> real \<Rightarrow> suppression_store result" where
  "make_suppression_store ttl max_size threshold cooldown =
    (if ttl \<le> 0 then Inl (ValueError ''ttl_seconds must be > 0'')
     else if max_size \<le> 0 then Inl (ValueError ''max_size must be > 0'')
     else if threshold \<le> 0 then Inl (ValueError ''suppress_after_forbidden_responses must be > 0'')
     else if cooldown < 0 then Inl (ValueError ''forbidden_host_cooldown_seconds must be >= 0'')
     else Inr \<lparr>sup_ttl = ttl, sup_max_size = max_size, sup_threshold = threshold, sup_cooldown = cooldown, sup_entries = []\<rparr>)"

definition new_suppression_entry :: suppression_entry where
  "new_suppression_entry = \<lparr>forbidden_count = 0, suppressed_until = 0, entry_expires_at = 0\<rparr>"

definition suppression_host :: "(host \<Rightarrow> host) \<Rightarrow> host \<Rightarrow> string" where
  "suppression_host nrm h = (case nrm h of Some k \<Rightarrow> k | None \<Rightarrow> [])"

definition purge_suppression :: "real \<Rightarrow> suppression_store \<Rightarrow> suppression_store" where
  "purge_suppression now s = s\<lparr>sup_entries := filter (\<lambda>(h, e). \<not> entry_expires_at e \<le> now) (sup_entries s)\<rparr>"

definition touch_suppression :: "real \<Rightarrow> string \<Rightarrow> suppression_entry \<Rightarrow> suppression_store \<Rightarrow> suppression_store" where
  "touch_suppression now h e s =
     s\<lparr>sup_entries := AList.delete h (sup_entries s) @ [(h, e\<lparr>entry_expires_at := now + sup_ttl s\<rparr>)]\<rparr>"

definition evict_suppression :: "suppression_store \<Rightarrow> suppression_store" where
  "evict_suppression s = s\<lparr>sup_entries := drop (length (sup_entries s) - nat (sup_max_size s)) (sup_entries s)\<rparr>"

definition get_or_create_entry :: "(nat \<Rightarrow> real) \<Rightarrow> string \<Rightarrow> suppression_store \<Rightarrow> suppression_entry \<times> suppression_store" where
  "get_or_create_entry clk h s =
    (let s = purge_suppression (clk 0) s in
     case map_of (sup_entries s) h of
       Some e \<Rightarrow> (e, touch_suppression (clk 1) h e s)
     | None \<Rightarrow> (new_suppression_entry, evict_suppression (touch_suppression (clk 1) h new_suppression_entry s)))"

definition expire_suppression :: "real \<Rightarrow> suppression_entry \<Rightarrow> suppression_entry" where
  "expire_suppression now e =
    (if suppressed_until e \<le> 0 \<or> now < suppressed_until e then e else e\<lparr>suppressed_until := 0, forbidden_count := 0\<rparr>)"

definition suppress_if_threshold_reached :: "real \<Rightarrow> suppression_store \<Rightarrow> suppression_entry \<Rightarrow> suppression_entry" where
  "suppress_if_threshold_reached now s e =
    (if sup_cooldown s \<le> 0 \<or> forbidden_count e < sup_threshold s then e else e\<lparr>suppressed_until := now + sup_cooldown s\<rparr>)"

definition clear_suppression :: "suppression_entry \<Rightarrow> suppression_entry" where
  "clear_suppression e = (if suppressed_until e \<le> 0 then e else e\<lparr>suppressed_until := 0\<rparr>)"

definition respond_to_status :: "real \<Rightarrow> suppression_store \<Rightarrow> int \<Rightarrow> suppression_entry \<Rightarrow> suppression_entry" where
  "respond_to_status now s status e =
    (let e = expire_suppression now e in
     if status = 403 then suppress_if_threshold_reached now s (e\<lparr>forbidden_count := forbidden_count e + 1\<rparr>)
     else if 200 \<le> status \<and> status < 300 then clear_suppression (e\<lparr>forbidden_count := 0\<rparr>)
     else e)"

definition record_response_status ::
  "(host \<Rightarrow> host) \<Rightarrow> (nat \<Rightarrow> real) \<Rightarrow> host \<Rightarrow> int \<Rightarrow> suppression_store \<Rightarrow> suppression_store" where
  "record_response_status nrm clk raw status s =
    (let h = suppression_host nrm raw in
     if h = [] then s
     else (case get_or_create_entry clk h s of (e, s) \<Rightarrow>
       touch_suppression (clk 3) h (respond_to_status (clk 2) s status e) s))"

definition get_suppression_remaining_seconds ::
  "(host \<Rightarrow> host) \<Rightarrow> (nat \<Rightarrow> real) \<Rightarrow> host \<Rightarrow> suppression_store \<Rightarrow> real option \<times> suppression_store" where
  "get_suppression_remaining_seconds nrm clk raw s =
    (let h = suppression_host nrm raw in
     if h = [] then (None, s)
     else (let s = purge_suppression (clk 0) s in
       case map_of (sup_entries s) h of
         None \<Rightarrow> (None, s)
       | Some e \<Rightarrow>
           (let now = clk 1; e = expire_suppression now e; s = touch_suppression (clk 2) h e s in
            if suppressed_until e \<le> now then (None, s) else (Some (suppressed_until e - now), s))))"

section \<open>Lemmas\<close>

definition suppression_ok :: "suppression_store \<Rightarrow> bool" where
  "suppression_ok s \<longleftrightarrow> 0 < sup_max_size s \<and> 0 < sup_threshold s \<and> distinct (map fst (sup_entries s)) \<and>
     int (length (sup_entries s)) \<le> sup_max_size s"

text \<open>What is known of a host at a time: an expired entry is no entry.\<close>

definition suppression_view :: "real \<Rightarrow> suppression_store \<Rightarrow> string \<Rightarrow> (int \<times> real) option" where
  "suppression_view now s h = (case map_of (sup_entries s) h of
     Some e \<Rightarrow> if entry_expires_at e \<le> now then None else Some (forbidden_count e, suppressed_until e)
   | None \<Rightarrow> None)"

text \<open>The abstract effect of a response.\<close>

definition view_response :: "suppression_store \<Rightarrow> real \<Rightarrow> int \<Rightarrow> (int \<times> real) option \<Rightarrow> int \<times> real" where
  "view_response s now status v =
    (case (case v of None \<Rightarrow> (0, 0) | Some (n, until) \<Rightarrow> if 0 < until \<and> until \<le> now then (0, 0) else (n, until)) of (n, until) \<Rightarrow>
       if status = 403 then (n + 1, if 0 < sup_cooldown s \<and> sup_threshold s \<le> n + 1 then now + sup_cooldown s else until)
       else if 200 \<le> status \<and> status < 300 then (0, if 0 < until then 0 else until)
       else (n, until))"

lemma suppression_settings [simp]:
  "sup_ttl (purge_suppression now s) = sup_ttl s" "sup_max_size (purge_suppression now s) = sup_max_size s"
  "sup_threshold (purge_suppression now s) = sup_threshold s" "sup_cooldown (purge_suppression now s) = sup_cooldown s"
  "sup_ttl (touch_suppression now h e s) = sup_ttl s" "sup_max_size (touch_suppression now h e s) = sup_max_size s"
  "sup_threshold (touch_suppression now h e s) = sup_threshold s" "sup_cooldown (touch_suppression now h e s) = sup_cooldown s"
  "sup_ttl (evict_suppression s) = sup_ttl s" "sup_max_size (evict_suppression s) = sup_max_size s"
  "sup_threshold (evict_suppression s) = sup_threshold s" "sup_cooldown (evict_suppression s) = sup_cooldown s"
  by (simp_all add: purge_suppression_def touch_suppression_def evict_suppression_def)

lemma map_of_filter_snd:
  "distinct (map fst m) \<Longrightarrow> map_of (filter (\<lambda>(k, v). P v) m) k = (case map_of m k of Some v \<Rightarrow> if P v then Some v else None | None \<Rightarrow> None)"
  by (induction m) (auto simp: map_of_eq_None_iff image_iff split: option.splits)

lemma purge_view:
  assumes "distinct (map fst (sup_entries s))" "now \<le> t"
  shows "suppression_view t (purge_suppression now s) h = suppression_view t s h"
  using assms map_of_filter_snd [OF assms(1), of "\<lambda>e. \<not> entry_expires_at e \<le> now" h]
  by (auto simp: suppression_view_def purge_suppression_def split: option.splits)

lemma purge_lookup:
  assumes "distinct (map fst (sup_entries s))"
  shows "map_option (\<lambda>e. (forbidden_count e, suppressed_until e)) (map_of (sup_entries (purge_suppression now s)) h) = suppression_view now s h"
  using map_of_filter_snd [OF assms, of "\<lambda>e. \<not> entry_expires_at e \<le> now" h]
  by (auto simp: suppression_view_def purge_suppression_def split: option.splits)

lemma purge_ok: "suppression_ok s \<Longrightarrow> suppression_ok (purge_suppression now s)"
  using le_trans [OF length_filter_le]
  by (auto simp: suppression_ok_def purge_suppression_def distinct_map_filter intro: order_trans [OF iffD2 [OF of_nat_le_iff, OF length_filter_le]])

lemma touch_lookup:
  "map_of (sup_entries (touch_suppression now h e s)) k =
    (if k = h then Some (e\<lparr>entry_expires_at := now + sup_ttl s\<rparr>) else map_of (sup_entries s) k)"
  by (auto simp: touch_suppression_def map_add_def delete_conv' split: option.splits)

lemma length_delete_key: "k \<in> fst ` set m \<Longrightarrow> length (AList.delete k m) < length m"
  by (auto simp: AList.delete_eq intro!: length_filter_less)

lemma touch_distinct: "distinct (map fst (sup_entries s)) \<Longrightarrow> distinct (map fst (sup_entries (touch_suppression now h e s)))"
  by (simp add: touch_suppression_def delete_keys distinct_removeAll)

lemma touch_known_ok:
  assumes "suppression_ok s" "h \<in> fst ` set (sup_entries s)"
  shows "suppression_ok (touch_suppression now h e s)"
proof -
  have "length (sup_entries (touch_suppression now h e s)) \<le> length (sup_entries s)"
    using length_delete_key [OF assms(2)] by (simp add: touch_suppression_def)
  then show ?thesis using assms touch_distinct [of s now h e] by (simp add: suppression_ok_def)
qed

lemma evict_ok:
  "0 < sup_max_size s \<Longrightarrow> 0 < sup_threshold s \<Longrightarrow> distinct (map fst (sup_entries s)) \<Longrightarrow> suppression_ok (evict_suppression s)"
  by (auto simp: suppression_ok_def evict_suppression_def drop_map [symmetric] intro: distinct_drop)

lemma map_of_drop: "distinct (map fst m) \<Longrightarrow> map_of (drop n m) k = map_of m k \<or> map_of (drop n m) k = None"
proof -
  assume d: "distinct (map fst m)"
  have m: "map_of m = map_of (drop n m) ++ map_of (take n m)"
    by (metis append_take_drop_id map_of_append)
  show ?thesis
  proof (cases "map_of (take n m) k")
    case (Some v)
    then have "k \<in> set (map fst (take n m))" by (metis map_of_eq_None_iff option.distinct(1) set_map)
    moreover have "set (map fst (take n m)) \<inter> set (map fst (drop n m)) = {}"
      using d by (metis append_take_drop_id distinct_append map_append)
    ultimately have "map_of (drop n m) k = None" by (metis disjoint_iff map_of_eq_None_iff set_map)
    then show ?thesis ..
  qed (simp add: m map_add_def)
qed

lemma evict_keeps_last:
  assumes "0 < sup_max_size s"
  shows "map_of (sup_entries (evict_suppression (touch_suppression now h e s))) h = Some (e\<lparr>entry_expires_at := now + sup_ttl s\<rparr>)"
proof -
  let ?x = "(h, e\<lparr>entry_expires_at := now + sup_ttl s\<rparr>)" and ?m = "AList.delete h (sup_entries s)"
  have "sup_entries (evict_suppression (touch_suppression now h e s)) = drop (Suc (length ?m) - nat (sup_max_size s)) ?m @ [?x]"
    using assms by (simp add: evict_suppression_def touch_suppression_def Suc_diff_le nat_0_iff)
  moreover have "map_of (drop n ?m) h = None" for n
    by (metis delete_notin_dom dom_map_of_conv_image_fst in_set_dropD image_iff map_of_eq_None_iff)
  ultimately show ?thesis by (simp add: map_add_def)
qed


lemma purge_fields:
  "suppression_ok s \<Longrightarrow> distinct (map fst (sup_entries (purge_suppression now s)))"
  using purge_ok [of s now] by (simp add: suppression_ok_def)

lemma view_touch:
  assumes "0 < sup_ttl s"
  shows "suppression_view t (touch_suppression t h e s) k =
    (if k = h then Some (forbidden_count e, suppressed_until e) else suppression_view t s k)"
  using assms by (simp add: suppression_view_def touch_lookup)

lemma view_evict:
  assumes "distinct (map fst (sup_entries s))"
  shows "suppression_view t (evict_suppression s) k = suppression_view t s k \<or> suppression_view t (evict_suppression s) k = None"
  using map_of_drop [OF assms, of "length (sup_entries s) - nat (sup_max_size s)" k]
  by (auto simp: suppression_view_def evict_suppression_def)

lemma evict_unchanged: "int (length (sup_entries s)) \<le> sup_max_size s \<Longrightarrow> evict_suppression s = s"
  by (simp add: evict_suppression_def)

text \<open>An entry is found or created; only creating one in a full store drops another one.\<close>

lemma get_or_create_effect:
  assumes ok: "suppression_ok s" and ttl: "0 < sup_ttl s" and h: "h \<noteq> []"
    and run: "get_or_create_entry (\<lambda>_. t) h s = (e, s1)"
  shows "suppression_ok s1 \<and> h \<in> fst ` set (sup_entries s1) \<and> sup_ttl s1 = sup_ttl s \<and> sup_cooldown s1 = sup_cooldown s \<and>
    sup_threshold s1 = sup_threshold s \<and>
    (forbidden_count e, suppressed_until e) = (case suppression_view t s h of None \<Rightarrow> (0, 0) | Some v \<Rightarrow> v) \<and>
    (\<forall>k. k \<noteq> h \<longrightarrow> suppression_view t s1 k = suppression_view t s k \<or>
      suppression_view t s1 k = None \<and> suppression_view t s h = None \<and>
      sup_max_size s \<le> int (length (sup_entries (purge_suppression t s))))"
proof -
  let ?s = "purge_suppression t s"
  note ok0 = purge_ok [OF ok, of t] and d0 = purge_fields [OF ok, of t]
  have d: "distinct (map fst (sup_entries s))" using ok by (simp add: suppression_ok_def)
  note view0 = purge_view [OF d order_refl, of t]
  have ttl0: "0 < sup_ttl ?s" using ttl by simp
  show ?thesis
  proof (cases "map_of (sup_entries ?s) h")
    case (Some e0)
    then have e: "e = e0" "s1 = touch_suppression t h e0 ?s"
      using run by (auto simp: get_or_create_entry_def Let_def)
    have "h \<in> fst ` set (sup_entries ?s)" using Some by (metis domI dom_map_of_conv_image_fst)
    then have "suppression_ok s1" unfolding e(2) by (rule touch_known_ok [OF ok0])
    moreover have "suppression_view t s h = Some (forbidden_count e0, suppressed_until e0)"
      using purge_lookup [OF d, of t h] Some by simp
    moreover have "h \<in> fst ` set (sup_entries s1)" by (simp add: e touch_suppression_def)
    ultimately show ?thesis using e view_touch [OF ttl0, of t h e0] view0 by simp
  next
    case None
    let ?n = "touch_suppression t h new_suppression_entry ?s"
    have e: "e = new_suppression_entry" "s1 = evict_suppression ?n"
      using run None by (simp_all add: get_or_create_entry_def Let_def)
    have vh: "suppression_view t s h = None" using purge_lookup [OF d, of t h] None by simp
    have dn: "distinct (map fst (sup_entries ?n))" by (rule touch_distinct [OF d0])
    have max: "0 < sup_max_size ?s" "0 < sup_threshold ?s" using ok by (simp_all add: suppression_ok_def)
    have "suppression_ok s1" unfolding e(2) using max dn by (intro evict_ok) simp_all
    moreover have "h \<in> fst ` set (sup_entries s1)"
      using evict_keeps_last [OF max(1), of t h new_suppression_entry] unfolding e(2)
      by (metis domI dom_map_of_conv_image_fst)
    moreover have "suppression_view t s1 k = suppression_view t s k \<or>
        suppression_view t s1 k = None \<and> sup_max_size s \<le> int (length (sup_entries ?s))" if "k \<noteq> h" for k
    proof (cases "sup_max_size s \<le> int (length (sup_entries ?s))")
      case True
      then show ?thesis
        using view_evict [OF dn, of t k] view_touch [OF ttl0, of t h new_suppression_entry k] view0 that unfolding e(2) by auto
    next
      case False
      have "length (sup_entries ?n) \<le> Suc (length (sup_entries ?s))"
        by (simp add: touch_suppression_def length_delete_le)
      then have "evict_suppression ?n = ?n" using False by (intro evict_unchanged) simp
      then show ?thesis
        using view_touch [OF ttl0, of t h new_suppression_entry k] view0 that unfolding e(2) by simp
    qed
    ultimately show ?thesis using e(1) vh by (simp add: e(2) new_suppression_entry_def)
  qed
qed

lemma respond_view:
  "(forbidden_count e, suppressed_until e) = (case v of None \<Rightarrow> (0, 0) | Some v \<Rightarrow> v) \<Longrightarrow>
   sup_cooldown s1 = sup_cooldown s \<Longrightarrow> sup_threshold s1 = sup_threshold s \<Longrightarrow>
   (forbidden_count (respond_to_status t s1 status e), suppressed_until (respond_to_status t s1 status e)) = view_response s t status v"
  by (cases v)
    (auto simp: respond_to_status_def view_response_def expire_suppression_def suppress_if_threshold_reached_def
      clear_suppression_def Let_def split: prod.splits)

section \<open>Properties\<close>



end
