(* ===== verification/Network_Guard.thy ===== *)
theory Network_Guard imports
  Host_Normalizer
begin

text \<open>
  The guard against requests into private infrastructure,
  \<open>crawler/governance/network_access/network_address_guard.py\<close>: rules for host names, for
  addresses in every spelling an HTTP stack may accept, and for the answers of name resolution.
  The classes of addresses are those of the standard library's \<open>ipaddress\<close> (Python 3.12).
\<close>

section \<open>Classes of addresses\<close>

definition ipv4_value :: "nat list \<Rightarrow> nat" where
  "ipv4_value octets = foldl (\<lambda>a n. 256 * a + n) 0 octets"

definition ipv6_value :: "nat list \<Rightarrow> nat" where
  "ipv6_value groups = foldl (\<lambda>a n. 65536 * a + n) 0 groups"

definition ipv4_of_value :: "nat \<Rightarrow> nat list" where
  "ipv4_of_value n = [n div 2 ^ 24 mod 256, n div 2 ^ 16 mod 256, n div 2 ^ 8 mod 256, n mod 256]"

text \<open>Membership in the network with the given first bits.\<close>

definition in_ipv4_net :: "nat list \<Rightarrow> nat list \<times> nat \<Rightarrow> bool" where
  "in_ipv4_net octets net = (ipv4_value octets div 2 ^ (32 - snd net) = ipv4_value (fst net) div 2 ^ (32 - snd net))"

definition in_ipv6_net :: "nat list \<Rightarrow> nat list \<times> nat \<Rightarrow> bool" where
  "in_ipv6_net groups net = (ipv6_value groups div 2 ^ (128 - snd net) = ipv6_value (fst net) div 2 ^ (128 - snd net))"

definition ipv4_private_nets :: "(nat list \<times> nat) list" where
  "ipv4_private_nets =
    [([0, 0, 0, 0], 8), ([10, 0, 0, 0], 8), ([127, 0, 0, 0], 8), ([169, 254, 0, 0], 16), ([172, 16, 0, 0], 12),
     ([192, 0, 0, 0], 24), ([192, 0, 0, 170], 31), ([192, 0, 2, 0], 24), ([192, 168, 0, 0], 16), ([198, 18, 0, 0], 15),
     ([198, 51, 100, 0], 24), ([203, 0, 113, 0], 24), ([240, 0, 0, 0], 4), ([255, 255, 255, 255], 32)]"

definition ipv6_private_nets :: "(nat list \<times> nat) list" where
  "ipv6_private_nets =
    [([0, 0, 0, 0, 0, 0, 0, 1], 128), ([0, 0, 0, 0, 0, 0, 0, 0], 128), ([0, 0, 0, 0, 0, 0xFFFF, 0, 0], 96),
     ([0x64, 0xFF9B, 1, 0, 0, 0, 0, 0], 48), ([0x100, 0, 0, 0, 0, 0, 0, 0], 64), ([0x2001, 0, 0, 0, 0, 0, 0, 0], 23),
     ([0x2001, 0xDB8, 0, 0, 0, 0, 0, 0], 32), ([0x2002, 0, 0, 0, 0, 0, 0, 0], 16), ([0xFC00, 0, 0, 0, 0, 0, 0, 0], 7),
     ([0xFE80, 0, 0, 0, 0, 0, 0, 0], 10)]"

definition ipv6_private_exceptions :: "(nat list \<times> nat) list" where
  "ipv6_private_exceptions =
    [([0x2001, 1, 0, 0, 0, 0, 0, 1], 128), ([0x2001, 1, 0, 0, 0, 0, 0, 2], 128), ([0x2001, 3, 0, 0, 0, 0, 0, 0], 32),
     ([0x2001, 4, 0x112, 0, 0, 0, 0, 0], 48), ([0x2001, 0x20, 0, 0, 0, 0, 0, 0], 28), ([0x2001, 0x30, 0, 0, 0, 0, 0, 0], 28)]"

definition ipv6_reserved_nets :: "(nat list \<times> nat) list" where
  "ipv6_reserved_nets = map (\<lambda>(g, n). ([g, 0, 0, 0, 0, 0, 0, 0], n))
    [(0, 8), (0x100, 8), (0x200, 7), (0x400, 6), (0x800, 5), (0x1000, 4), (0x4000, 3), (0x6000, 3), (0x8000, 3),
     (0xA000, 3), (0xC000, 3), (0xE000, 4), (0xF000, 5), (0xF800, 6), (0xFE00, 9)]"

definition ipv4_mapped :: "nat list \<Rightarrow> nat list option" where
  "ipv4_mapped groups = (if take 6 groups = [0, 0, 0, 0, 0, 0xFFFF]
     then Some (ipv4_of_value (ipv6_value (drop 6 groups))) else None)"

fun is_unspecified :: "ip_address \<Rightarrow> bool" where
  "is_unspecified (IPv4 octets) = (ipv4_value octets = 0)"
| "is_unspecified (IPv6 groups) = (ipv6_value groups = 0)"

fun is_loopback :: "ip_address \<Rightarrow> bool" where
  "is_loopback (IPv4 octets) = in_ipv4_net octets ([127, 0, 0, 0], 8)"
| "is_loopback (IPv6 groups) = (ipv6_value groups = 1)"

fun is_link_local :: "ip_address \<Rightarrow> bool" where
  "is_link_local (IPv4 octets) = in_ipv4_net octets ([169, 254, 0, 0], 16)"
| "is_link_local (IPv6 groups) = in_ipv6_net groups ([0xFE80, 0, 0, 0, 0, 0, 0, 0], 10)"

definition ipv4_is_private :: "nat list \<Rightarrow> bool" where
  "ipv4_is_private octets = (list_ex (in_ipv4_net octets) ipv4_private_nets \<and>
     \<not> in_ipv4_net octets ([192, 0, 0, 9], 32) \<and> \<not> in_ipv4_net octets ([192, 0, 0, 10], 32))"

fun is_private :: "ip_address \<Rightarrow> bool" where
  "is_private (IPv4 octets) = ipv4_is_private octets"
| "is_private (IPv6 groups) = (case ipv4_mapped groups of
     Some octets \<Rightarrow> ipv4_is_private octets
   | None \<Rightarrow> list_ex (in_ipv6_net groups) ipv6_private_nets \<and> \<not> list_ex (in_ipv6_net groups) ipv6_private_exceptions)"

fun is_multicast :: "ip_address \<Rightarrow> bool" where
  "is_multicast (IPv4 octets) = in_ipv4_net octets ([224, 0, 0, 0], 4)"
| "is_multicast (IPv6 groups) = in_ipv6_net groups ([0xFF00, 0, 0, 0, 0, 0, 0, 0], 8)"

fun is_reserved :: "ip_address \<Rightarrow> bool" where
  "is_reserved (IPv4 octets) = in_ipv4_net octets ([240, 0, 0, 0], 4)"
| "is_reserved (IPv6 groups) = list_ex (in_ipv6_net groups) ipv6_reserved_nets"

fun is_site_local :: "ip_address \<Rightarrow> bool" where
  "is_site_local (IPv4 octets) = False"
| "is_site_local (IPv6 groups) = in_ipv6_net groups ([0xFEC0, 0, 0, 0, 0, 0, 0, 0], 10)"

section \<open>Spellings of addresses\<close>

text \<open>\<open>int(digits, base)\<close> for the bases 8, 10 and 16: white space, a sign, a prefix for the
  bases 8 and 16, single underscores between digits.\<close>

definition base_digit :: "nat \<Rightarrow> char \<Rightarrow> nat option" where
  "base_digit base c = (if is_hex c \<and> hex_value c < base then Some (hex_value c) else None)"

fun scan_base :: "nat \<Rightarrow> string \<Rightarrow> nat \<Rightarrow> nat \<Rightarrow> (nat \<times> nat) option" where
  "scan_base base [] v n = Some (v, n)"
| "scan_base base (c # cs) v n = (case base_digit base c of
     Some d \<Rightarrow> scan_base base cs (base * v + d) (Suc n)
   | None \<Rightarrow> if c = CHR ''_'' \<and> 0 < n \<and> cs \<noteq> [] \<and> base_digit base (hd cs) \<noteq> None then scan_base base cs v n else None)"

definition drop_base_prefix :: "nat \<Rightarrow> string \<Rightarrow> string" where
  "drop_base_prefix base s =
    (let mark = (if base = 16 then ''0x'' else if base = 8 then ''0o'' else []) in
     if mark \<noteq> [] \<and> starts_with (py_lower s) mark
     then (if starts_with (drop 2 s) ''_'' then drop 3 s else drop 2 s) else s)"

definition parse_int_base :: "nat \<Rightarrow> string \<Rightarrow> int option" where
  "parse_int_base base s = (case scan_sign (py_strip s) of (neg, body) \<Rightarrow>
     (case scan_base base (drop_base_prefix base body) 0 0 of
        None \<Rightarrow> None
      | Some (v, n) \<Rightarrow> if n = 0 \<or> base = 10 \<and> 4300 < n then None else Some (if neg then - int v else int v)))"

definition parse_ipv4_number :: "string \<Rightarrow> nat option" where
  "parse_ipv4_number part =
    (case (if starts_with (py_lower part) ''0x'' then (16, drop 2 part)
           else if 1 < length part \<and> starts_with part ''0'' then (8, drop 1 part)
           else (10, part)) of (base, digits) \<Rightarrow>
       if digits = [] then None
       else (case parse_int_base base digits of None \<Rightarrow> None
         | Some i \<Rightarrow> if 0 \<le> i \<and> i \<le> 0xFFFFFFFF then Some (nat i) else None))"

definition combine_ipv4_numbers :: "nat list \<Rightarrow> nat list option" where
  "combine_ipv4_numbers ns = (case ns of
     [n] \<Rightarrow> Some (ipv4_of_value n)
   | [a, rest] \<Rightarrow> if 0xFF < a \<or> 0xFFFFFF < rest then None else Some (ipv4_of_value (a * 2 ^ 24 + rest))
   | [a, b, rest] \<Rightarrow> if 0xFF < a \<or> 0xFF < b \<or> 0xFFFF < rest then None
       else Some (ipv4_of_value (a * 2 ^ 24 + b * 2 ^ 16 + rest))
   | [a, b, c, d] \<Rightarrow> if 0xFF < a \<or> 0xFF < b \<or> 0xFF < c \<or> 0xFF < d then None
       else Some (ipv4_of_value (a * 2 ^ 24 + b * 2 ^ 16 + c * 2 ^ 8 + d))
   | _ \<Rightarrow> None)"

definition parse_obfuscated_ipv4 :: "string \<Rightarrow> nat list option" where
  "parse_obfuscated_ipv4 s =
    (if s = [] \<or> CHR '':'' \<in> set s then None
     else (let parts = split_on (CHR ''.'') s in
       if 4 < length parts \<or> [] \<in> set parts then None
       else (case those (map parse_ipv4_number parts) of None \<Rightarrow> None | Some ns \<Rightarrow> combine_ipv4_numbers ns)))"

definition is_bracket :: "char \<Rightarrow> bool" where
  "is_bracket c \<longleftrightarrow> c = CHR ''['' \<or> c = CHR '']''"

definition strip_bracket_chars :: "string \<Rightarrow> string" where
  "strip_bracket_chars s = rev (dropWhile is_bracket (rev (dropWhile is_bracket s)))"

text \<open>\<open>ip_address\<close> also reads a scope after a percent sign in an IPv6 address.\<close>

type_synonym scoped_address = "ip_address \<times> string option"

definition parse_scoped_ip :: "string \<Rightarrow> scoped_address option" where
  "parse_scoped_ip s = (let addr = takeWhile (\<lambda>c. c \<noteq> CHR ''%'') s; zone = drop (Suc (length addr)) s in
     if CHR ''%'' \<notin> set s then map_option (\<lambda>a. (a, None)) (parse_ip s)
     else if CHR ''/'' \<in> set s \<or> zone = [] \<or> CHR ''%'' \<in> set zone then None
     else map_option (\<lambda>g. (IPv6 g, Some zone)) (parse_ipv6 addr))"

definition address_text :: "scoped_address \<Rightarrow> string" where
  "address_text a = compressed (fst a) @ (case snd a of None \<Rightarrow> [] | Some zone \<Rightarrow> CHR ''%'' # zone)"

definition parse_ip_address :: "string \<Rightarrow> scoped_address option" where
  "parse_ip_address s = (let v = strip_bracket_chars s in
     case parse_scoped_ip v of
       Some a \<Rightarrow> Some a
     | None \<Rightarrow> map_option (\<lambda>n. (IPv4 n, None)) (parse_obfuscated_ipv4 v))"

fun canonical_address :: "scoped_address \<Rightarrow> scoped_address" where
  "canonical_address (IPv4 octets, z) = (IPv4 octets, z)"
| "canonical_address (IPv6 groups, z) = (case ipv4_mapped groups of Some octets \<Rightarrow> (IPv4 octets, None) | None \<Rightarrow> (IPv6 groups, z))"

section \<open>The guard\<close>

record network_settings =
  block_url_credentials :: bool
  block_local_hostnames :: bool
  blocked_hostname_suffixes :: "string list"
  block_private :: bool
  block_loopback :: bool
  block_link_local :: bool
  block_unspecified :: bool
  block_multicast :: bool
  block_reserved :: bool
  block_site_local :: bool
  allowed_ip_literals :: "string list"
  allowed_http_ports :: "int list"
  allowed_https_ports :: "int list"

text \<open>The members of the set of allowed literals are strings, what is looked up is an address:
  objects of different types are not equal.\<close>

datatype guard_object = Text_Object string | Address_Object scoped_address

record network_guard =
  guard_settings :: network_settings
  guard_normalize :: "host \<Rightarrow> host"
  guard_allowed_literals :: "guard_object list"
  guard_blocked_suffixes :: "string list"

definition normalize_address :: "string \<Rightarrow> string" where
  "normalize_address v = (case parse_ip_address v of None \<Rightarrow> [] | Some a \<Rightarrow> address_text (canonical_address a))"

definition guard_allowed_ip_literals :: "string list \<Rightarrow> guard_object list" where
  "guard_allowed_ip_literals vs = map Text_Object (filter (\<lambda>n. n \<noteq> []) (map normalize_address vs))"

definition strip_dots :: "string \<Rightarrow> string" where
  "strip_dots s = dropWhile (\<lambda>c. c = CHR ''.'') s"

definition normalize_hostname_suffix :: "(host \<Rightarrow> host) \<Rightarrow> string \<Rightarrow> string" where
  "normalize_hostname_suffix nrm v = (case nrm (Some (strip_dots (py_strip v))) of
     None \<Rightarrow> []
   | Some suffix \<Rightarrow> if suffix = ''localhost'' then suffix else CHR ''.'' # suffix)"

definition make_network_guard :: "network_settings \<Rightarrow> (host \<Rightarrow> host) \<Rightarrow> network_guard" where
  "make_network_guard st nrm =
     \<lparr>guard_settings = st, guard_normalize = nrm,
      guard_allowed_literals = guard_allowed_ip_literals (allowed_ip_literals st),
      guard_blocked_suffixes = filter (\<lambda>s. s \<noteq> []) (map (normalize_hostname_suffix nrm) (blocked_hostname_suffixes st))\<rparr>"

definition local_hostname_blocked :: "network_guard \<Rightarrow> string \<Rightarrow> bool" where
  "local_hostname_blocked g h = (block_local_hostnames (guard_settings g) \<and>
     list_ex (\<lambda>suffix. h = strip_dots suffix \<or> ends_with h suffix) (guard_blocked_suffixes g))"

definition is_private_or_shared :: "ip_address \<Rightarrow> bool" where
  "is_private_or_shared a =
    (case a of IPv4 octets \<Rightarrow> in_ipv4_net octets ([100, 64, 0, 0], 10) \<or> is_private a | IPv6 _ \<Rightarrow> is_private a)"

definition classify_address :: "network_settings \<Rightarrow> ip_address \<Rightarrow> string option" where
  "classify_address st a =
    (if block_unspecified st \<and> is_unspecified a then Some ''unspecified_ip_blocked''
     else if block_loopback st \<and> is_loopback a then Some ''loopback_ip_blocked''
     else if block_link_local st \<and> is_link_local a then Some ''link_local_ip_blocked''
     else if block_private st \<and> is_private_or_shared a then Some ''private_ip_blocked''
     else if block_multicast st \<and> is_multicast a then Some ''multicast_ip_blocked''
     else if block_reserved st \<and> is_reserved a then Some ''reserved_ip_blocked''
     else if block_site_local st \<and> is_site_local a then Some ''site_local_ip_blocked''
     else None)"

definition rejection_reason_for_address :: "network_guard \<Rightarrow> string \<Rightarrow> string option" where
  "rejection_reason_for_address g s = (case parse_ip_address s of
     None \<Rightarrow> Some ''invalid_ip_address''
   | Some ip \<Rightarrow>
      (let a = canonical_address ip in
       if Address_Object a \<in> set (guard_allowed_literals g) then None
       else classify_address (guard_settings g) (fst a)))"

definition cloud_metadata_hosts :: "string list" where
  "cloud_metadata_hosts = [''instance-data'', ''metadata.azure.internal'', ''metadata.google.internal'']"

definition rejection_reason_for_host :: "network_guard \<Rightarrow> string \<Rightarrow> string option" where
  "rejection_reason_for_host g h = (case guard_normalize g (Some h) of
     Some (c # cs) \<Rightarrow>
      (let k = c # cs in
       if k \<in> set cloud_metadata_hosts then Some ''cloud_metadata_hostname_blocked''
       else if local_hostname_blocked g k then Some ''local_hostname_blocked''
       else (case parse_ip_address k of None \<Rightarrow> None | Some a \<Rightarrow> rejection_reason_for_address g (address_text a)))
   | _ \<Rightarrow> (case parse_ip_address h of
        Some a \<Rightarrow> rejection_reason_for_address g (address_text a) | None \<Rightarrow> Some ''invalid_hostname''))"

text \<open>What \<open>urlparse\<close> reads off a URL; \<open>None\<close> where the attribute raises, and for the whole URL
  where the call does.\<close>

record url_view =
  view_scheme :: string
  view_hostname :: "string option option"
  view_username :: "string option"
  view_password :: "string option"
  view_port :: "int option option"

type_synonym url_parser = "string \<Rightarrow> url_view option"

definition rejection_reason_for_url :: "url_parser \<Rightarrow> network_guard \<Rightarrow> string \<Rightarrow> string option" where
  "rejection_reason_for_url urlparse g url = (let st = guard_settings g in
     case urlparse url of None \<Rightarrow> Some ''invalid_url'' | Some parsed \<Rightarrow>
     case view_hostname parsed of None \<Rightarrow> Some ''invalid_url'' | Some h \<Rightarrow>
     if block_url_credentials st \<and> (view_username parsed \<noteq> None \<or> view_password parsed \<noteq> None)
     then Some ''url_credentials_blocked''
     else (case view_port parsed of None \<Rightarrow> Some ''invalid_url'' | Some port \<Rightarrow>
       (let scheme = py_lower (view_scheme parsed) in
        if (case port of None \<Rightarrow> False | Some p \<Rightarrow> scheme = ''http'' \<and> p \<notin> set (allowed_http_ports st)
          \<or> scheme = ''https'' \<and> p \<notin> set (allowed_https_ports st))
        then Some ''network_port_blocked''
        else rejection_reason_for_host g (case h of None \<Rightarrow> [] | Some t \<Rightarrow> t))))"

text \<open>An answer of name resolution is a mapping; \<open>host\<close> is its text or missing.\<close>

type_synonym address_record = "string \<rightharpoonup> string"

definition record_host :: "address_record \<Rightarrow> string" where
  "record_host item = (case item ''host'' of None \<Rightarrow> [] | Some v \<Rightarrow> v)"

fun scan_answers :: "network_guard \<Rightarrow> address_record list \<Rightarrow> address_record list \<Rightarrow> bool \<Rightarrow> address_record list \<times> bool" where
  "scan_answers g [] allowed blocked = (allowed, blocked)"
| "scan_answers g (item # items) allowed blocked =
    (case rejection_reason_for_address g (record_host item) of
       None \<Rightarrow> scan_answers g items (allowed @ [item]) blocked
     | Some _ \<Rightarrow> scan_answers g items allowed True)"

definition filter_resolved_addresses :: "network_guard \<Rightarrow> address_record list \<Rightarrow> address_record list" where
  "filter_resolved_addresses g addresses =
    (case scan_answers g addresses [] False of (allowed, blocked) \<Rightarrow> if blocked then [] else allowed)"

section \<open>Lemmas\<close>

subsection \<open>Lower case\<close>

definition caseless :: "char \<Rightarrow> bool" where
  "caseless d \<longleftrightarrow> (let n = of_char d :: nat in n < 65 \<or> 90 < n \<and> n < 97 \<or> 122 < n \<and> n < 192)"

lemma py_lower_char_eq: "caseless d \<Longrightarrow> py_lower_char c = d \<longleftrightarrow> c = d"
proof -
  assume d: "caseless d"
  have "py_lower_char c = d \<longleftrightarrow> lower_code (of_char c) = (of_char d :: nat)"
    by (metis of_char_eq_iff of_char_py_lower_char)
  also have "\<dots> \<longleftrightarrow> (of_char c :: nat) = of_char d"
    using d by (auto simp: caseless_def lower_code_def Let_def split: if_splits)
  finally show ?thesis by (metis of_char_eq_iff)
qed

lemma caseless_marks [simp]:
  "caseless (CHR ''.'')" "caseless (CHR '':'')" "caseless (CHR ''%'')" "caseless (CHR ''/'')" "caseless (CHR ''0'')"
  "caseless (CHR ''_'')" "caseless (CHR ''-'')" "caseless (CHR ''+'')" "caseless (CHR ''['')" "caseless (CHR '']'')"
  by (simp_all add: caseless_def)

lemma in_lower_iff: "caseless d \<Longrightarrow> d \<in> set (py_lower s) \<longleftrightarrow> d \<in> set s"
  by (auto simp: py_lower_def image_iff) (metis py_lower_char_eq)+

lemma py_lower_simps [simp]:
  "py_lower [] = []" "py_lower (c # s) = py_lower_char c # py_lower s" "length (py_lower s) = length s" "py_lower s = [] \<longleftrightarrow> s = []"
  "[] = py_lower s \<longleftrightarrow> s = []"
  by (auto simp: py_lower_def)

lemma split_on_lower: "caseless d \<Longrightarrow> split_on d (py_lower s) = map py_lower (split_on d s)"
  by (induction s) (auto simp: py_lower_char_eq split: list.splits)

lemma lower_digit: "is_digit (py_lower_char c) = is_digit c"
  by (auto simp: is_digit_def lower_code_def)

lemma lower_hex: "is_hex (py_lower_char c) = is_hex c"
  by (auto simp: is_hex_def is_digit_def lower_code_def Let_def)

lemma lower_hex_value: "is_hex c \<Longrightarrow> hex_value (py_lower_char c) = hex_value c"
  by (auto simp: is_hex_def hex_value_def is_digit_def lower_code_def Let_def digit_value_def)

lemma lower_digit_id: "is_digit c \<Longrightarrow> py_lower_char c = c"
  by (simp add: is_digit_alnum)

lemma list_all_lower: "(\<And>c. P (py_lower_char c) = P c) \<Longrightarrow> list_all P (py_lower s) = list_all P s"
  by (induction s) auto

lemma digits_lower: "list_all is_digit s \<Longrightarrow> py_lower s = s"
  by (induction s) (auto simp: lower_digit_id)

lemma parse_octet_lower: "parse_octet (py_lower s) = parse_octet s"
  using digits_lower [of s] list_all_lower [of is_digit s] lower_digit
  by (cases "list_all is_digit s") (auto simp: parse_octet_def)

lemma parse_ipv4_lower: "parse_ipv4 (py_lower s) = parse_ipv4 s"
  by (simp add: parse_ipv4_def split_on_lower comp_def parse_octet_lower)

lemma parse_hextet_lower: "parse_hextet (py_lower s) = parse_hextet s"
proof -
  have "list_all is_hex s \<Longrightarrow> foldl (\<lambda>a c. 16 * a + hex_value c) k (py_lower s) = foldl (\<lambda>a c. 16 * a + hex_value c) k s" for k
    by (induction s arbitrary: k) (auto simp: lower_hex_value)
  then show ?thesis using list_all_lower [of is_hex s] lower_hex by (auto simp: parse_hextet_def)
qed

lemma hex_nat_lower: "py_lower (hex_nat n) = hex_nat n"
proof -
  have "ip_char c \<Longrightarrow> py_lower_char c = c" for c
    using ip_char_host_char host_char_lower by blast
  then show ?thesis using hex_nat_ip_char [of _ n] by (auto simp: py_lower_def intro: map_idI)
qed

lemma hd_last_lower: "parts \<noteq> [] \<Longrightarrow> hd (map py_lower parts) = [] \<longleftrightarrow> hd parts = []" "parts \<noteq> [] \<Longrightarrow> last (map py_lower parts) = [] \<longleftrightarrow> last parts = []"
  by (simp_all add: hd_map last_map)

lemma groups_at_lower: "groups_at hi lo (map py_lower parts) = groups_at hi lo parts"
  by (simp add: groups_at_def take_map drop_map comp_def parse_hextet_lower)

lemma parse_groups_lower:
  assumes "parts \<noteq> []"
  shows "parse_groups (map py_lower parts) = parse_groups parts"
proof -
  have "skip_positions (map py_lower parts) = skip_positions parts"
    unfolding skip_positions_def by (rule filter_cong) auto
  then show ?thesis
    using hd_last_lower [OF assms]
    by (auto simp: parse_groups_def groups_around_def groups_at_lower comp_def parse_hextet_lower Let_def split: list.split)
qed

lemma expand_ipv4_lower:
  "parts \<noteq> [] \<Longrightarrow> expand_ipv4 (map py_lower parts) = map_option (map py_lower) (expand_ipv4 parts)"
  by (auto simp: expand_ipv4_def last_map in_lower_iff parse_ipv4_lower map_butlast hex_nat_lower split: option.splits list.splits)

lemma expand_ipv4_not_Nil: "parts \<noteq> [] \<Longrightarrow> expand_ipv4 parts = Some ps \<Longrightarrow> ps \<noteq> []"
  by (auto simp: expand_ipv4_def split: if_splits option.splits list.splits)

lemma parse_ipv6_lower: "parse_ipv6 (py_lower s) = parse_ipv6 s"
  by (auto simp: parse_ipv6_def split_on_lower Let_def expand_ipv4_lower parse_groups_lower dest!: expand_ipv4_not_Nil [rotated] split: option.splits)

lemma parse_ip_lower: "parse_ip (py_lower s) = parse_ip s"
  by (simp add: parse_ip_def parse_ipv4_lower parse_ipv6_lower split: option.split)

lemma base_digit_lower: "base_digit base (py_lower_char c) = base_digit base c"
  by (auto simp: base_digit_def lower_hex lower_hex_value)

lemma scan_base_lower: "scan_base base (py_lower s) v n = scan_base base s v n"
proof (induction base s v n rule: scan_base.induct)
  case (2 base c cs v n)
  have "cs \<noteq> [] \<Longrightarrow> base_digit base (hd (py_lower cs)) = base_digit base (hd cs)"
    by (cases cs) (simp_all add: base_digit_lower)
  then show ?case using 2 by (auto simp: base_digit_lower py_lower_char_eq split: option.splits)
qed simp

lemma starts_with_lower: "list_all caseless p \<Longrightarrow> starts_with (py_lower s) p = starts_with s p"
  by (induction s p rule: starts_with.induct) (auto simp: py_lower_char_eq)

lemma drop_lower: "drop n (py_lower s) = py_lower (drop n s)"
  by (simp add: py_lower_def drop_map)

lemma drop_base_prefix_lower: "drop_base_prefix base (py_lower s) = py_lower (drop_base_prefix base s)"
  by (simp add: drop_base_prefix_def Let_def drop_lower starts_with_lower)

lemma scan_sign_lower: "scan_sign (py_lower s) = (fst (scan_sign s), py_lower (snd (scan_sign s)))"
  by (cases s) (auto simp: py_lower_char_eq)

lemma parse_int_base_lower: "parse_int_base base (py_lower s) = parse_int_base base s"
  by (simp add: parse_int_base_def py_strip_lower scan_sign_lower drop_base_prefix_lower scan_base_lower case_prod_beta split: option.split)

lemma parse_ipv4_number_lower: "parse_ipv4_number (py_lower s) = parse_ipv4_number s"
  by (simp add: parse_ipv4_number_def starts_with_lower drop_lower parse_int_base_lower)

lemma parse_obfuscated_lower: "parse_obfuscated_ipv4 (py_lower s) = parse_obfuscated_ipv4 s"
proof -
  have "[] \<in> py_lower ` ws \<longleftrightarrow> [] \<in> ws" for ws by (force simp: image_iff)
  then show ?thesis
    by (simp add: parse_obfuscated_ipv4_def Let_def in_lower_iff split_on_lower comp_def parse_ipv4_number_lower)
qed

subsection \<open>Reading an address back\<close>

lemma ipv4_of_value_ok: "length (ipv4_of_value n) = 4 \<and> list_all (\<lambda>n. n < 256) (ipv4_of_value n)"
  by (simp add: ipv4_of_value_def)

lemma parse_obfuscated_ok: "parse_obfuscated_ipv4 s = Some ns \<Longrightarrow> length ns = 4 \<and> list_all (\<lambda>n. n < 256) ns"
  using ipv4_of_value_ok
  by (auto simp: parse_obfuscated_ipv4_def combine_ipv4_numbers_def Let_def split: if_splits option.splits list.splits)

fun zone_ok :: "ip_address \<Rightarrow> string option \<Rightarrow> bool" where
  "zone_ok a None = True"
| "zone_ok a (Some z) = (is_ipv6 a \<and> z \<noteq> [] \<and> CHR ''%'' \<notin> set z \<and> CHR ''/'' \<notin> set z \<and> \<not> is_bracket (last z))"

definition scoped_ok :: "scoped_address \<Rightarrow> bool" where
  "scoped_ok a \<longleftrightarrow> ip_ok (fst a) \<and> zone_ok (fst a) (snd a)"

lemma strip_bracket_plain: "s = [] \<or> \<not> is_bracket (hd s) \<and> \<not> is_bracket (last s) \<Longrightarrow> strip_bracket_chars s = s"
  using dropWhile_eq_self_iff [of is_bracket s] dropWhile_eq_self_iff [of is_bracket "rev s"]
  by (auto simp: strip_bracket_chars_def hd_rev)

lemma strip_bracket_ends:
  "strip_bracket_chars s = [] \<or> \<not> is_bracket (hd (strip_bracket_chars s)) \<and> \<not> is_bracket (last (strip_bracket_chars s))"
proof (cases "strip_bracket_chars s = []")
  case False
  let ?t = "dropWhile is_bracket s"
  let ?r = "dropWhile is_bracket (rev ?t)"
  have s: "strip_bracket_chars s = rev ?r" by (simp add: strip_bracket_chars_def)
  have r: "?r \<noteq> []" using False by (simp add: s)
  have "\<not> is_bracket (hd ?r)" by (rule hd_dropWhile [OF r])
  moreover have "?t = rev ?r @ rev (takeWhile is_bracket (rev ?t))"
    by (metis rev_append rev_rev_ident takeWhile_dropWhile_id)
  then have "hd ?t = hd (rev ?r)" using r by (metis hd_append2 rev_is_Nil_conv)
  moreover have "?t \<noteq> []" using r by (metis dropWhile.simps(1) rev.simps(1))
  moreover have "\<not> is_bracket (hd ?t)" by (rule hd_dropWhile) (use calculation in simp)
  ultimately show ?thesis using r by (simp add: s last_rev hd_rev)
qed simp

lemma compressed_marks:
  assumes "ip_ok a"
  shows "CHR ''%'' \<notin> set (compressed a)" "CHR ''/'' \<notin> set (compressed a)"
    "\<not> is_bracket (hd (compressed a))" "\<not> is_bracket (last (compressed a))"
proof -
  have c: "ip_char c \<Longrightarrow> c \<noteq> CHR ''%'' \<and> c \<noteq> CHR ''/'' \<and> \<not> is_bracket c" for c
    by (auto simp: ip_char_def is_digit_def is_bracket_def)
  note chars = compressed_chars [OF assms] and ne = compressed_not_Nil [OF assms]
  show "CHR ''%'' \<notin> set (compressed a)" "CHR ''/'' \<notin> set (compressed a)" using c chars by blast+
  show "\<not> is_bracket (hd (compressed a))" "\<not> is_bracket (last (compressed a))"
    using c chars ne hd_in_set last_in_set by blast+
qed

lemma address_text_strip:
  assumes "scoped_ok a"
  shows "strip_bracket_chars (address_text a) = address_text a"
proof (rule strip_bracket_plain)
  have ok: "ip_ok (fst a)" and z: "zone_ok (fst a) (snd a)" using assms by (simp_all add: scoped_ok_def)
  show "address_text a = [] \<or> \<not> is_bracket (hd (address_text a)) \<and> \<not> is_bracket (last (address_text a))"
    using compressed_marks [OF ok] compressed_not_Nil [OF ok] z
    by (cases "snd a") (simp_all add: address_text_def)
qed

lemma parse_address_text:
  assumes "scoped_ok a"
  shows "parse_ip_address (address_text a) = Some a"
proof -
  obtain ip z where a: "a = (ip, z)" by fastforce
  have ok: "ip_ok ip" and z: "zone_ok ip z" using assms by (simp_all add: scoped_ok_def a)
  note plain = compressed_marks [OF ok]
  have "parse_scoped_ip (address_text a) = Some a"
  proof (cases z)
    case None
    then show ?thesis using plain ip_roundtrip [OF ok] by (simp add: a address_text_def parse_scoped_ip_def)
  next
    case (Some w)
    then obtain g where g: "ip = IPv6 g" using z by (cases ip) (auto simp: is_ipv6_def)
    have "takeWhile (\<lambda>c. c \<noteq> CHR ''%'') (compressed ip @ CHR ''%'' # w) = compressed ip"
      using plain(1) by (subst takeWhile_append2) auto
    then show ?thesis
      using Some z plain ok by (simp add: a g address_text_def parse_scoped_ip_def Let_def ipv6_roundtrip)
  qed
  then show ?thesis by (simp add: parse_ip_address_def address_text_strip [OF assms])
qed

lemma parse_ip_address_ok:
  assumes "parse_ip_address s = Some a"
  shows "scoped_ok a"
proof -
  let ?v = "strip_bracket_chars s"
  show ?thesis
  proof (cases "parse_scoped_ip ?v")
    case None
    then obtain ns where "parse_obfuscated_ipv4 ?v = Some ns" "a = (IPv4 ns, None)"
      using assms by (auto simp: parse_ip_address_def Let_def)
    then show ?thesis using parse_obfuscated_ok by (simp add: scoped_ok_def)
  next
    case (Some b)
    then have b: "parse_scoped_ip ?v = Some a" using assms by (simp add: parse_ip_address_def Let_def)
    show ?thesis
    proof (cases "CHR ''%'' \<in> set ?v")
      case False
      then show ?thesis using b parse_ip_ok by (auto simp: parse_scoped_ip_def scoped_ok_def)
    next
      case True
      let ?addr = "takeWhile (\<lambda>c. c \<noteq> CHR ''%'') ?v"
      let ?z = "drop (Suc (length ?addr)) ?v"
      obtain g where g: "parse_ipv6 ?addr = Some g" "a = (IPv6 g, Some ?z)" "?z \<noteq> []" "CHR ''%'' \<notin> set ?z" "CHR ''/'' \<notin> set ?v"
        using b True by (auto simp: parse_scoped_ip_def Let_def split: if_splits)
      have "last ?z = last ?v" using g(3) by (intro last_drop) simp
      moreover have "?v \<noteq> []" using True by auto
      ultimately have "\<not> is_bracket (last ?z)" using strip_bracket_ends [of s] by simp
      moreover have "CHR ''/'' \<notin> set ?z" using g(5) by (meson in_set_dropD)
      ultimately show ?thesis using g parse_ipv6_ok [OF g(1)] by (simp add: scoped_ok_def is_ipv6_def)
    qed
  qed
qed

subsection \<open>Every spelling of an address\<close>

lemma in_dropWhile: "c \<in> set s \<Longrightarrow> \<not> P c \<Longrightarrow> c \<in> set (dropWhile P s)"
  by (induction s) auto

lemma in_py_strip: "c \<in> set s \<Longrightarrow> py_space c \<or> c \<in> set (py_strip s)"
  using in_dropWhile [of c s py_space] in_dropWhile [of c "rev (dropWhile py_space s)" py_space] by (auto simp: py_strip_def)

lemma in_remove_dot: "c \<in> set s \<Longrightarrow> c = CHR ''.'' \<or> c \<in> set (remove_suffix s ''.'')"
proof -
  assume c: "c \<in> set s"
  then have "set s = insert (last s) (set (butlast s))"
    by (metis append_butlast_last_id empty_iff empty_set list.simps(15) rotate1.simps(2) set_rotate1)
  then show ?thesis using c by (auto simp: remove_suffix_def ends_with_single butlast_conv_take)
qed

lemma ip_text_no_mark: "ip_text_char c \<Longrightarrow> \<not> is_bracket c \<and> \<not> py_space c"
  using ip_text_char_marks by (auto simp: is_bracket_def)

lemma bracket_lower: "is_bracket (py_lower_char c) = is_bracket c"
  by (simp add: is_bracket_def py_lower_char_eq)

lemma bracketless: "(\<And>c. c \<in> set s \<Longrightarrow> \<not> is_bracket c) \<Longrightarrow> strip_bracket_chars s = s"
  by (rule strip_bracket_plain) (metis hd_in_set last_in_set)

lemma obfuscated_final_dot: "last s = CHR ''.'' \<Longrightarrow> parse_obfuscated_ipv4 s = None"
proof (cases "s = []")
  case False
  assume "last s = CHR ''.''"
  then have "[] \<in> set (split_on (CHR ''.'') s)" using split_on_last [OF False] last_in_set [OF split_on_not_Nil] by metis
  then show ?thesis by (simp add: parse_obfuscated_ipv4_def Let_def)
qed (simp add: parse_obfuscated_ipv4_def)

lemma parse_ip_chars: "parse_ip s = Some a \<Longrightarrow> c \<in> set s \<Longrightarrow> ip_text_char c"
  using parse_ip_text by (auto simp: list_all_iff)

text \<open>A host without brackets: the normaliser keeps the spelling or compresses it.\<close>

lemma plain_spelling:
  assumes ascii: "is_ascii s" and parsed: "parse_ip_address s = Some a"
    and run: "normalize_candidate codec False s = Some k"
  shows "parse_ip_address k = Some a"
proof -
  let ?c = "py_lower (remove_suffix s ''.'')"
  have percent: "CHR ''%'' \<notin> set ?c" using run by (simp add: normalize_candidate_def Let_def split: if_splits)
  have cases: "(\<exists>x. parse_ip ?c = Some x \<and> k = py_lower (compressed x)) \<or>
      parse_ip ?c = None \<and> CHR '':'' \<notin> set ?c \<and> dns_host codec ?c = Some k"
    using run by (auto simp: normalize_candidate_def Let_def split: if_splits option.splits)
  have "set (remove_suffix s ''.'') \<subseteq> set s" by (auto simp: remove_suffix_def dest: in_set_takeD)
  then have "is_ascii (remove_suffix s ''.'')" using ascii by (auto simp: is_ascii_def list_all_iff)
  then have "is_ascii ?c" by (auto simp: is_ascii_def py_lower_def lower_code_def list_all_iff)
  then have dns: "dns_host codec ?c = Some k \<Longrightarrow> k = ?c \<and> dns_name codec k"
    using dns_host_name [of codec ?c k] by (auto simp: dns_host_def encode_idna_def Let_def split: option.splits if_splits)
  have chars: "\<not> is_bracket d" if "d \<in> set ?c" for d
    using cases
  proof (elim disjE conjE exE)
    fix x
    assume "parse_ip ?c = Some x"
    then show ?thesis using parse_ip_chars that ip_text_no_mark by blast
  next
    assume "dns_host codec ?c = Some k"
    then show ?thesis
      using dns that dns_name_chars(1) [of codec k] host_char_plain [of d] by (auto simp: list_all_iff is_bracket_def)
  qed
  have plain: "\<not> is_bracket d \<and> d \<noteq> CHR ''%''" if "d \<in> set s" for d
  proof (cases "d = CHR ''.''")
    case False
    then have "py_lower_char d \<in> set ?c" using in_remove_dot [OF that] by (auto simp: py_lower_def)
    then show ?thesis using chars percent py_lower_char_eq [of "CHR ''%''" d] bracket_lower [of d] by auto
  qed (simp add: is_bracket_def)
  then have s: "strip_bracket_chars s = s" "parse_scoped_ip s = map_option (\<lambda>x. (x, None)) (parse_ip s)"
    using bracketless [of s] by (blast, force simp: parse_scoped_ip_def)
  have dot: "last s \<noteq> CHR ''.''"
    using parsed s parse_ip_text [of s] obfuscated_final_dot [of s] by (auto simp: parse_ip_address_def Let_def split: option.splits)
  then have c: "?c = py_lower s" by (simp add: remove_dot_id)
  show ?thesis
  proof (cases "parse_ip s")
    case (Some x)
    then have "a = (x, None)" using parsed s by (simp add: parse_ip_address_def Let_def)
    moreover have "k = compressed x"
      using cases Some parse_ip_ok [OF Some] by (auto simp: c parse_ip_lower compressed_host_chars host_chars_lower)
    ultimately show ?thesis
      using parse_address_text [of "(x, None)"] parse_ip_ok [OF Some] by (simp add: scoped_ok_def address_text_def)
  next
    case None
    then have k: "k = py_lower s" using cases dns by (auto simp: c parse_ip_lower)
    have "strip_bracket_chars k = k"
      by (rule bracketless) (use plain bracket_lower in \<open>auto simp: k py_lower_def\<close>)
    moreover have "CHR ''%'' \<notin> set k" using percent by (simp add: k c)
    ultimately show ?thesis
      using parsed None s by (simp add: parse_ip_address_def parse_scoped_ip_def k parse_ip_lower parse_obfuscated_lower Let_def)
  qed
qed

lemma bracket_spelling:
  assumes parsed: "parse_ip_address (CHR ''['' # u @ '']'') = Some a"
    and run: "normalize_candidate codec True (py_strip u) = Some k"
  shows "parse_ip_address k = Some a"
proof -
  let ?c = "py_lower (remove_suffix (py_strip u) ''.'')"
  obtain g where g: "parse_ip ?c = Some (IPv6 g)" "k = py_lower (compressed (IPv6 g))" and percent: "CHR ''%'' \<notin> set ?c"
    using run by (auto simp: normalize_candidate_def is_ipv6_def Let_def split: if_splits option.splits ip_address.splits)
  have chars: "py_space d \<or> d = CHR ''.'' \<or> py_lower_char d \<in> set ?c" if "d \<in> set u" for d
    using in_py_strip [OF that] in_remove_dot [of d "py_strip u"] by (auto simp: py_lower_def)
  have plain: "\<not> is_bracket d" if "d \<in> set u" for d
    using chars [OF that] parse_ip_chars [OF g(1)] ip_text_no_mark [of "py_lower_char d"] bracket_lower [of d]
    by (auto simp: is_bracket_def py_space_def space_code_def)
  then have v: "strip_bracket_chars (CHR ''['' # u @ '']'') = u"
    using bracketless [of u] by (simp add: strip_bracket_chars_def is_bracket_def dropWhile_append)
  have "set (py_strip u) \<subseteq> set u" by (auto simp: py_strip_def dest!: set_dropWhileD)
  then have "CHR '':'' \<in> set ?c \<Longrightarrow> CHR '':'' \<in> set u"
    by (auto simp: in_lower_iff remove_suffix_def dest: in_set_takeD split: if_splits)
  moreover have "CHR '':'' \<in> set ?c" using g(1) parse_ipv6_colon by (auto simp: parse_ip_def split: option.splits)
  ultimately have "parse_obfuscated_ipv4 u = None" by (simp add: parse_obfuscated_ipv4_def)
  moreover have "CHR ''%'' \<notin> set u"
    using chars [of "CHR ''%''"] percent py_lower_char_eq [of "CHR ''%''" "CHR ''%''"] by (auto simp: py_space_def space_code_def)
  ultimately obtain x where x: "parse_ip u = Some x" "a = (x, None)"
    using parsed by (auto simp: parse_ip_address_def v parse_scoped_ip_def split: option.splits)
  have "py_strip u = u"
    by (rule py_strip_plain) (use parse_ip_chars [OF x(1)] ip_text_no_mark in blast)
  then have "?c = py_lower u" using parse_ip_text [OF x(1)] by (simp add: remove_dot_id)
  then have "x = IPv6 g" using g(1) x(1) by (simp add: parse_ip_lower)
  then have "k = compressed x" using g(2) host_chars_lower [OF compressed_host_chars [OF parse_ip_ok [OF x(1)]]] by simp
  then show ?thesis
    using parse_address_text [of "(x, None)"] parse_ip_ok [OF x(1)] x(2) by (simp add: scoped_ok_def address_text_def)
qed

lemma spelling_normalizes:
  assumes "is_ascii s" "py_strip s = s" "parse_ip_address s = Some a" "normalize_host codec (Some s) = Some k"
  shows "parse_ip_address k = Some a"
proof -
  obtain b u where u: "strip_brackets s = Some (b, u)" "normalize_candidate codec b u = Some k"
    using assms(2,4) by (auto simp: normalize_host_def split: option.splits if_splits)
  show ?thesis
  proof (cases b)
    case False
    then have "u = s" using u(1) by (auto simp: strip_brackets_def Let_def split: if_splits)
    then show ?thesis using plain_spelling [OF assms(1,3)] u(2) False by simp
  next
    case True
    then have s: "s \<noteq> []" "hd s = CHR ''[''" "last s = CHR '']''" "u = py_strip (butlast (tl s))"
      using u(1) by (auto simp: strip_brackets_def Let_def starts_with_single ends_with_single split: if_splits)
    have "tl s \<noteq> []" using s(1-3) by (cases s) auto
    then have "last (tl s) = CHR '']''" using s(3) by (simp add: last_tl)
    then have "s = CHR ''['' # butlast (tl s) @ '']''"
      using s(1,2) append_butlast_last_id [OF \<open>tl s \<noteq> []\<close>] by (metis list.collapse)
    then show ?thesis using bracket_spelling [of "butlast (tl s)" a codec k] assms(3) u(2) s(4) True by simp
  qed
qed

lemma word_not_number:
  "part \<noteq> [] \<Longrightarrow> \<not> py_space (hd part) \<Longrightarrow> hd part \<notin> {CHR ''0'', CHR ''-'', CHR ''+''} \<Longrightarrow> \<not> is_hex (hd part) \<Longrightarrow> parse_ipv4_number part = None"
proof -
  assume p: "part \<noteq> []" "\<not> py_space (hd part)" "hd part \<notin> {CHR ''0'', CHR ''-'', CHR ''+''}" "\<not> is_hex (hd part)"
  then obtain c cs where part: "part = c # cs" by (cases part) auto
  have "py_strip part \<noteq> [] \<and> hd (py_strip part) = c"
  proof -
    define D where "D = rev (dropWhile py_space (rev (c # cs)))"
    have "c \<in> set D" unfolding D_def set_rev using p(2) part by (intro in_dropWhile) simp_all
    moreover have "D @ rev (takeWhile py_space (rev (c # cs))) = c # cs"
      unfolding D_def rev_append [symmetric] takeWhile_dropWhile_id by simp
    moreover have "py_strip part = D" using p(2) part by (simp add: py_strip_def D_def)
    ultimately show ?thesis by (cases D) auto
  qed
  then obtain ds where strip: "py_strip part = c # ds" by (cases "py_strip part") auto
  show ?thesis
    using p part strip py_lower_char_eq [of "CHR ''0''" c]
    by (auto simp: parse_ipv4_number_def parse_int_base_def drop_base_prefix_def base_digit_def Let_def)
qed

lemma metadata_not_address:
  assumes "k \<in> set cloud_metadata_hosts"
  shows "parse_ip_address k = None"
proof -
  have "parse_ipv4_number ''instance-data'' = None" "parse_ipv4_number ''metadata'' = None"
    by (rule word_not_number; simp add: py_space_def space_code_def is_hex_def is_digit_def)+
  then have "parse_obfuscated_ipv4 k = None"
    using assms by (auto simp: cloud_metadata_hosts_def parse_obfuscated_ipv4_def Let_def)
  moreover have "CHR ''%'' \<notin> set k \<and> CHR '':'' \<notin> set k" "strip_bracket_chars k = k" "length (split_on (CHR ''.'') k) \<noteq> 4"
    using assms by (auto simp: cloud_metadata_hosts_def strip_bracket_plain is_bracket_def)
  ultimately show ?thesis
    using parse_ipv6_colon [of k] by (cases "parse_ipv6 k") (auto simp: parse_ip_address_def parse_scoped_ip_def parse_ip_def parse_ipv4_def)
qed

lemma normalize_not_Nil: "normalize_host codec raw \<noteq> Some []"
  using normalize_cases [of codec raw "[]"] compressed_not_Nil dns_name_last(1) [of codec "[]"] by fastforce

subsection \<open>The blocks of public IPv4 addresses\<close>

definition blocks_everything :: "network_settings \<Rightarrow> bool" where
  "blocks_everything st \<longleftrightarrow> block_private st \<and> block_loopback st \<and> block_link_local st \<and> block_unspecified st \<and>
     block_multicast st \<and> block_reserved st \<and> block_site_local st"

fun public_ipv4 :: "nat list \<Rightarrow> bool" where
  "public_ipv4 [a, b, c, d] =
    (a \<notin> {0, 10, 127} \<and> a < 224 \<and> \<not> (a = 100 \<and> 64 \<le> b \<and> b < 128) \<and> \<not> (a = 169 \<and> b = 254) \<and>
     \<not> (a = 172 \<and> 16 \<le> b \<and> b < 32) \<and> \<not> (a = 192 \<and> b = 168) \<and> \<not> (a = 192 \<and> b = 0 \<and> c = 0 \<and> d \<notin> {9, 10}) \<and>
     \<not> (a = 192 \<and> b = 0 \<and> c = 2) \<and> \<not> (a = 198 \<and> (b = 18 \<or> b = 19)) \<and> \<not> (a = 198 \<and> b = 51 \<and> c = 100) \<and>
     \<not> (a = 203 \<and> b = 0 \<and> c = 113))"
| "public_ipv4 _ = False"

lemma ipv4_value_four: "ipv4_value [a, b, c, d] = ((256 * a + b) * 256 + c) * 256 + d"
  by (simp add: ipv4_value_def)

lemma ipv4_value_div:
  assumes "b < 256" "c < 256" "d < 256"
  shows "ipv4_value [a, b, c, d] div 268435456 = a div 16" "ipv4_value [a, b, c, d] div 16777216 = a"
    "ipv4_value [a, b, c, d] div 4194304 = 4 * a + b div 64" "ipv4_value [a, b, c, d] div 1048576 = 16 * a + b div 16"
    "ipv4_value [a, b, c, d] div 131072 = 128 * a + b div 2" "ipv4_value [a, b, c, d] div 65536 = 256 * a + b"
    "ipv4_value [a, b, c, d] div 256 = (256 * a + b) * 256 + c"
    "ipv4_value [a, b, c, d] div 2 = ((256 * a + b) * 256 + c) * 128 + d div 2"
proof -
  have 256: "ipv4_value [a, b, c, d] div 256 = (256 * a + b) * 256 + c" using assms by (simp add: ipv4_value_four)
  then have 65536: "ipv4_value [a, b, c, d] div 256 div 256 = 256 * a + b" using assms by simp
  then have 24: "ipv4_value [a, b, c, d] div 256 div 256 div 256 = a" using assms by simp
  show "ipv4_value [a, b, c, d] div 256 = (256 * a + b) * 256 + c" by (rule 256)
  show "ipv4_value [a, b, c, d] div 65536 = 256 * a + b" using 65536 by (simp add: div_mult2_eq [symmetric])
  show "ipv4_value [a, b, c, d] div 16777216 = a" using 24 by (simp add: div_mult2_eq [symmetric])
  have "ipv4_value [a, b, c, d] div 268435456 = ipv4_value [a, b, c, d] div 256 div 256 div 256 div 16"
    by (simp add: div_mult2_eq [symmetric])
  then show "ipv4_value [a, b, c, d] div 268435456 = a div 16" by (simp only: 24)
  have "ipv4_value [a, b, c, d] div 4194304 = ipv4_value [a, b, c, d] div 256 div 256 div 64"
    by (simp add: div_mult2_eq [symmetric])
  also have "\<dots> = 4 * a + b div 64" unfolding 65536 by linarith
  finally show "ipv4_value [a, b, c, d] div 4194304 = 4 * a + b div 64" .
  have "ipv4_value [a, b, c, d] div 1048576 = ipv4_value [a, b, c, d] div 256 div 256 div 16"
    by (simp add: div_mult2_eq [symmetric])
  also have "\<dots> = 16 * a + b div 16" unfolding 65536 by linarith
  finally show "ipv4_value [a, b, c, d] div 1048576 = 16 * a + b div 16" .
  have "ipv4_value [a, b, c, d] div 131072 = ipv4_value [a, b, c, d] div 256 div 256 div 2"
    by (simp add: div_mult2_eq [symmetric])
  also have "\<dots> = 128 * a + b div 2" unfolding 65536 by linarith
  finally show "ipv4_value [a, b, c, d] div 131072 = 128 * a + b div 2" .
  show "ipv4_value [a, b, c, d] div 2 = ((256 * a + b) * 256 + c) * 128 + d div 2"
    unfolding ipv4_value_four by linarith
qed

lemma two_digits: "b < m \<Longrightarrow> q < m \<Longrightarrow> m * a + b = m * p + (q :: nat) \<longleftrightarrow> a = p \<and> b = q"
  by (metis add.commute div_mult_self4 div_less gr_implies_not0 mod_less mod_mult_self4 plus_nat.add_0)

lemma in_net_8: "b < 256 \<Longrightarrow> c < 256 \<Longrightarrow> d < 256 \<Longrightarrow> in_ipv4_net [a, b, c, d] ([p, 0, 0, 0], 8) \<longleftrightarrow> a = p"
  by (simp add: in_ipv4_net_def ipv4_value_div)

lemma in_net_4: "b < 256 \<Longrightarrow> c < 256 \<Longrightarrow> d < 256 \<Longrightarrow> in_ipv4_net [a, b, c, d] ([p, 0, 0, 0], 4) \<longleftrightarrow> a div 16 = p div 16"
  by (simp add: in_ipv4_net_def ipv4_value_div)

lemma in_net_16: "b < 256 \<Longrightarrow> c < 256 \<Longrightarrow> d < 256 \<Longrightarrow> q < 256 \<Longrightarrow> in_ipv4_net [a, b, c, d] ([p, q, 0, 0], 16) \<longleftrightarrow> a = p \<and> b = q"
  by (simp add: in_ipv4_net_def ipv4_value_div two_digits)

lemma in_net_10: "b < 256 \<Longrightarrow> c < 256 \<Longrightarrow> d < 256 \<Longrightarrow> q < 256 \<Longrightarrow>
    in_ipv4_net [a, b, c, d] ([p, q, 0, 0], 10) \<longleftrightarrow> a = p \<and> b div 64 = q div 64"
  by (simp add: in_ipv4_net_def ipv4_value_div two_digits)

lemma in_net_12: "b < 256 \<Longrightarrow> c < 256 \<Longrightarrow> d < 256 \<Longrightarrow> q < 256 \<Longrightarrow>
    in_ipv4_net [a, b, c, d] ([p, q, 0, 0], 12) \<longleftrightarrow> a = p \<and> b div 16 = q div 16"
  by (simp add: in_ipv4_net_def ipv4_value_div two_digits)

lemma in_net_15: "b < 256 \<Longrightarrow> c < 256 \<Longrightarrow> d < 256 \<Longrightarrow> q < 256 \<Longrightarrow>
    in_ipv4_net [a, b, c, d] ([p, q, 0, 0], 15) \<longleftrightarrow> a = p \<and> b div 2 = q div 2"
  by (simp add: in_ipv4_net_def ipv4_value_div two_digits)

lemma three_digits:
  fixes a b c p q r :: nat
  assumes "b < 256" "c < 256" "q < 256" "r < 256"
  shows "(256 * a + b) * 256 + c = (256 * p + q) * 256 + r \<longleftrightarrow> a = p \<and> b = q \<and> c = r"
  using two_digits [of c 256 r "256 * a + b" "256 * p + q"] two_digits [of b 256 q a p] assms by (simp add: mult.commute)

lemma four_digits:
  fixes a b c d p q r s :: nat
  assumes "b < 256" "c < 256" "d < 256" "q < 256" "r < 256" "s < 256"
  shows "((256 * a + b) * 256 + c) * 256 + d = ((256 * p + q) * 256 + r) * 256 + s \<longleftrightarrow> a = p \<and> b = q \<and> c = r \<and> d = s"
  using two_digits [of d 256 s "(256 * a + b) * 256 + c" "(256 * p + q) * 256 + r"] three_digits [of b c q r a p] assms
  by (simp only: mult.commute) simp

lemma in_net_24: "b < 256 \<Longrightarrow> c < 256 \<Longrightarrow> d < 256 \<Longrightarrow> q < 256 \<Longrightarrow> r < 256 \<Longrightarrow>
    in_ipv4_net [a, b, c, d] ([p, q, r, 0], 24) \<longleftrightarrow> a = p \<and> b = q \<and> c = r"
  using three_digits [of b c q r a p] ipv4_value_div(7) [of b c d a] ipv4_value_div(7) [of q r 0 p] by (simp add: in_ipv4_net_def)

lemma in_net_32: "b < 256 \<Longrightarrow> c < 256 \<Longrightarrow> d < 256 \<Longrightarrow> q < 256 \<Longrightarrow> r < 256 \<Longrightarrow> s < 256 \<Longrightarrow>
    in_ipv4_net [a, b, c, d] ([p, q, r, s], 32) \<longleftrightarrow> a = p \<and> b = q \<and> c = r \<and> d = s"
  using four_digits [of b c d q r s a p] by (simp only: in_ipv4_net_def ipv4_value_four fst_conv snd_conv diff_self_eq_0 power_0 div_by_1)

lemmas ipv4_nets = in_net_4 in_net_8 in_net_10 in_net_12 in_net_15 in_net_16 in_net_24 in_net_32

lemma in_net_31:
  assumes "b < 256" "c < 256" "d < 256" "in_ipv4_net [a, b, c, d] ([192, 0, 0, 170], 31)"
  shows "in_ipv4_net [a, b, c, d] ([192, 0, 0, 0], 24) \<and> d \<notin> {9, 10}"
proof -
  have "((256 * a + b) * 256 + c) * 128 + d div 2 = 1610612821"
    using assms by (simp add: in_ipv4_net_def ipv4_value_div ipv4_value_four)
  then have "128 * ((256 * a + b) * 256 + c) + d div 2 = 128 * 12582912 + 85" by simp
  then have "(256 * a + b) * 256 + c = 12582912 \<and> d div 2 = 85"
    using two_digits [of "d div 2" 128 85 "(256 * a + b) * 256 + c" 12582912] assms(3) by linarith
  then show ?thesis using three_digits [of b c 0 0 a 192] assms(1-3) in_net_24 [of b c d 0 0 a 192] by auto
qed

lemma private_ipv4:
  assumes "b < 256" "c < 256" "d < 256"
  shows "ipv4_is_private [a, b, c, d] \<longleftrightarrow> (a \<in> {0, 10, 127} \<or> a = 169 \<and> b = 254 \<or> a = 172 \<and> b div 16 = 1 \<or>
      a = 192 \<and> b = 0 \<and> c = 0 \<and> d \<notin> {9, 10} \<or> a = 192 \<and> b = 0 \<and> c = 2 \<or> a = 192 \<and> b = 168 \<or> a = 198 \<and> b div 2 = 9 \<or>
      a = 198 \<and> b = 51 \<and> c = 100 \<or> a = 203 \<and> b = 0 \<and> c = 113 \<or> a div 16 = 15)"
proof -
  let ?o = "[a, b, c, d]" and ?i = "in_ipv4_net [a, b, c, d] ([192, 0, 0, 170], 31)"
  have i: "?i \<longrightarrow> a = 192 \<and> b = 0 \<and> c = 0"
    using assms in_net_31 [of b c d a] in_net_24 [of b c d 0 0 a 192] by simp
  have "list_ex (in_ipv4_net ?o) ipv4_private_nets \<longleftrightarrow> (a = 0 \<or> a = 10 \<or> a = 127 \<or> a = 169 \<and> b = 254 \<or> a = 172 \<and> b div 16 = 1 \<or>
      a = 192 \<and> b = 0 \<and> c = 0 \<or> ?i \<or> a = 192 \<and> b = 0 \<and> c = 2 \<or> a = 192 \<and> b = 168 \<or> a = 198 \<and> b div 2 = 9 \<or>
      a = 198 \<and> b = 51 \<and> c = 100 \<or> a = 203 \<and> b = 0 \<and> c = 113 \<or> a div 16 = 15 \<or> a = 255 \<and> b = 255 \<and> c = 255 \<and> d = 255)"
    using assms by (simp add: ipv4_private_nets_def ipv4_nets)
  moreover have "a = 255 \<longrightarrow> a div 16 = 15" by simp
  ultimately have l: "list_ex (in_ipv4_net ?o) ipv4_private_nets \<longleftrightarrow> (a = 0 \<or> a = 10 \<or> a = 127 \<or> a = 169 \<and> b = 254 \<or> a = 172 \<and> b div 16 = 1 \<or>
      a = 192 \<and> b = 0 \<and> c = 0 \<or> a = 192 \<and> b = 0 \<and> c = 2 \<or> a = 192 \<and> b = 168 \<or> a = 198 \<and> b div 2 = 9 \<or>
      a = 198 \<and> b = 51 \<and> c = 100 \<or> a = 203 \<and> b = 0 \<and> c = 113 \<or> a div 16 = 15)"
    using i by satx
  have nine: "in_ipv4_net ?o ([192, 0, 0, 9], 32) \<longleftrightarrow> a = 192 \<and> b = 0 \<and> c = 0 \<and> d = 9"
    and ten: "in_ipv4_net ?o ([192, 0, 0, 10], 32) \<longleftrightarrow> a = 192 \<and> b = 0 \<and> c = 0 \<and> d = 10"
    using assms by (simp_all add: in_net_32)
  show ?thesis
  proof (cases "a = 192 \<and> b = 0 \<and> c = 0")
    case True
    then have "list_ex (in_ipv4_net ?o) ipv4_private_nets" using l by satx
    then show ?thesis using True nine ten by (simp add: ipv4_is_private_def)
  next
    case False
    then show ?thesis unfolding ipv4_is_private_def l nine ten insert_iff empty_iff by satx
  qed
qed

text \<open>With every class blocked exactly the public addresses pass.\<close>

lemma classify_ipv4:
  assumes "blocks_everything st" "b < 256" "c < 256" "d < 256" "a < 256"
  shows "classify_address st (IPv4 [a, b, c, d]) = None \<longleftrightarrow> public_ipv4 [a, b, c, d]"
proof -
  have zero: "ipv4_value [a, b, c, d] = 0 \<longrightarrow> a = 0" by (simp add: ipv4_value_four)
  have ranges: "b div 16 = 1 \<longleftrightarrow> 16 \<le> b \<and> b < 32" "b div 2 = 9 \<longleftrightarrow> b = 18 \<or> b = 19" "b div 64 = 1 \<longleftrightarrow> 64 \<le> b \<and> b < 128"
    "a div 16 = 14 \<or> a div 16 = 15 \<longleftrightarrow> \<not> a < 224"
    subgoal by (intro iffI conjI; linarith)
    subgoal by linarith
    subgoal by (intro iffI conjI; linarith)
    subgoal using assms(5) by linarith
    done
  have "classify_address st (IPv4 [a, b, c, d]) = None \<longleftrightarrow>
      \<not> (ipv4_value [a, b, c, d] = 0 \<or> a = 127 \<or> a = 169 \<and> b = 254 \<or> a = 100 \<and> b div 64 = 1 \<or> ipv4_is_private [a, b, c, d] \<or>
        a div 16 = 14 \<or> a div 16 = 15)"
    using assms by (simp add: classify_address_def is_private_or_shared_def blocks_everything_def ipv4_nets)
  then show ?thesis
    using zero ranges unfolding private_ipv4 [OF assms(2-4)] public_ipv4.simps insert_iff empty_iff by satx
qed

subsection \<open>The guard\<close>

lemma canonical_ok:
  assumes "scoped_ok x" "canonical_address x = (a, z)"
  shows "ip_ok a"
proof (cases x)
  case (Pair ip w)
  then show ?thesis
    using assms ipv4_of_value_ok
    by (cases ip) (auto simp: scoped_ok_def ipv4_mapped_def split: if_splits)
qed

lemma literal_never_matches: "Address_Object a \<notin> set (guard_allowed_ip_literals vs)"
  by (auto simp: guard_allowed_ip_literals_def)

lemma scan_answers_result:
  "scan_answers g items allowed blocked =
    (allowed @ filter (\<lambda>item. rejection_reason_for_address g (record_host item) = None) items,
     blocked \<or> (\<exists>item\<in>set items. rejection_reason_for_address g (record_host item) \<noteq> None))"
  by (induction g items allowed blocked rule: scan_answers.induct) (auto split: option.split)

lemma filter_all_or_nothing:
  "filter_resolved_addresses g items =
    (if \<forall>item\<in>set items. rejection_reason_for_address g (record_host item) = None then items else [])"
  by (simp add: filter_resolved_addresses_def scan_answers_result)

lemma rejection_ipv4:
  assumes "blocks_everything st" "parse_ip_address s = Some x" "canonical_address x = (IPv4 octets, z)"
  shows "rejection_reason_for_address (make_network_guard st nrm) s = None \<longleftrightarrow> public_ipv4 octets"
proof -
  have "ip_ok (IPv4 octets)" by (rule canonical_ok [OF parse_ip_address_ok [OF assms(2)] assms(3)])
  then obtain a b c d where "octets = [a, b, c, d]" "a < 256" "b < 256" "c < 256" "d < 256"
    by (auto simp: length_Suc_conv numeral_eq_Suc)
  then show ?thesis
    using assms classify_ipv4 [OF assms(1)] literal_never_matches
    by (simp add: rejection_reason_for_address_def make_network_guard_def Let_def)
qed

section \<open>Properties\<close>


text \<open>C30: The answers of name resolution are kept all or not at all, and with every class of
  addresses blocked an IPv4 address, or an IPv6 address that maps one, is accepted in any
  spelling exactly when it lies in none of the special blocks; the list of allowed literals
  changes nothing.\<close>

theorem accepted_answers_are_public:
  assumes "blocks_everything st" and "g = make_network_guard st nrm"
  shows "filter_resolved_addresses g items =
      (if \<forall>item\<in>set items. rejection_reason_for_address g (record_host item) = None then items else []) \<and>
    (\<forall>s x octets z. parse_ip_address s = Some x \<and> canonical_address x = (IPv4 octets, z) \<longrightarrow>
      (rejection_reason_for_address g s = None \<longleftrightarrow> public_ipv4 octets))"
  using filter_all_or_nothing rejection_ipv4 [OF assms(1)] unfolding assms(2) by blast

definition strict_network :: network_settings where
  "strict_network =
     \<lparr>block_url_credentials = True, block_local_hostnames = True, blocked_hostname_suffixes = [''localhost''],
      block_private = True, block_loopback = True, block_link_local = True, block_unspecified = True,
      block_multicast = True, block_reserved = True, block_site_local = True,
      allowed_ip_literals = [''127.0.0.1''], allowed_http_ports = [80], allowed_https_ports = [443]\<rparr>"

lemma shortened_loopback: "parse_ip_address ''0x7F.1'' = Some (IPv4 [127, 0, 0, 1], None)"
proof -
  have "py_lower ''0x7F'' = ''0x7f''" "py_lower ''7F'' = ''7f''" "py_lower ''1'' = ''1''" by code_simp+
  then have "parse_ipv4_number ''0x7F'' = Some 127" "parse_ipv4_number ''1'' = Some 1"
    by (simp_all add: parse_ipv4_number_def parse_int_base_def py_strip_def py_space_def space_code_def
      drop_base_prefix_def base_digit_def is_hex_def is_digit_def hex_value_def digit_value_def Let_def del: py_lower_simps)
  then have "parse_obfuscated_ipv4 ''0x7F.1'' = Some [127, 0, 0, 1]"
    by (simp add: parse_obfuscated_ipv4_def combine_ipv4_numbers_def ipv4_of_value_def)
  moreover have "strip_bracket_chars ''0x7F.1'' = ''0x7F.1''" by (simp add: strip_bracket_plain is_bracket_def)
  ultimately show ?thesis
    by (simp add: parse_ip_address_def parse_scoped_ip_def parse_ip_def parse_ipv4_def parse_ipv6_def)
qed

lemma strict_network_blocks: "blocks_everything strict_network"
  by (simp add: blocks_everything_def strict_network_def)


theorem accepted_answers_are_public_witness:
  "filter_resolved_addresses (make_network_guard strict_network id) [Map.empty(''host'' \<mapsto> ''0x7F.1'')] = []"
proof -
  note public = accepted_answers_are_public [OF strict_network_blocks refl, of id "[Map.empty(''host'' \<mapsto> ''0x7F.1'')]"]
  have "canonical_address (IPv4 [127, 0, 0, 1], None) = (IPv4 [127, 0, 0, 1], None)" by simp
  with conjunct2 [OF public] shortened_loopback
  have "rejection_reason_for_address (make_network_guard strict_network id) ''0x7F.1'' = None \<longleftrightarrow> public_ipv4 [127, 0, 0, 1]" by blast
  then show ?thesis using conjunct1 [OF public] by (simp add: record_host_def)
qed

end
