(* ===== verification/Redirect_Rules.thy ===== *)
theory Redirect_Rules imports
  Network_Guard
  Source_Scope
begin

text \<open>
  The rules for one redirect hop, \<open>crawler/governance/redirect/redirect_rules_validator.py\<close>, with
  what they call: the allowed schemes (\<open>url_filter/url_scheme_rules.py\<close>), the host of a URL
  (\<open>extraction/hosts_extractor.py\<close>), the table of blacklisted URLs
  (\<open>blacklist/storage/blacklist_repository.py\<close>), the guard of addresses and the source scopes.
  \<open>urlparse\<close> and \<open>urlsplit\<close>, which agree on scheme, host and port, are one parameter.
\<close>

section \<open>Errors of a request\<close>

datatype request_error =
  Ignored_Fetch (ignored_reason: string) (metrics_recorded: bool)
| Retryable_Fetch (retry_class: string) (retry_error_kind: string)
| Value_Raised
| Environment_Raised string

section \<open>Schemes, hosts and the blacklist\<close>

definition scheme_rules :: "string list \<Rightarrow> string list" where
  "scheme_rules allowed = map (\<lambda>s. py_lower (py_strip s)) (filter (\<lambda>s. s \<noteq> [] \<and> py_strip s \<noteq> []) allowed)"

definition scheme_is_allowed :: "url_parser \<Rightarrow> string list \<Rightarrow> string \<Rightarrow> bool" where
  "scheme_is_allowed urlparse allowed url =
    (let scheme = (case urlparse (py_strip url) of Some v \<Rightarrow> py_lower (py_strip (view_scheme v)) | None \<Rightarrow> [])
     in scheme \<in> set allowed)"

definition extract_host :: "url_parser \<Rightarrow> string \<Rightarrow> host" where
  "extract_host urlparse url =
    (case urlparse url of None \<Rightarrow> None
     | Some v \<Rightarrow> (case view_hostname v of None \<Rightarrow> None | Some h \<Rightarrow> h))"

type_synonym blacklist = "string set"

definition blacklist_add :: "string \<Rightarrow> blacklist \<Rightarrow> blacklist" where
  "blacklist_add url b = insert url b"

definition blacklist_remove :: "string \<Rightarrow> blacklist \<Rightarrow> blacklist" where
  "blacklist_remove url b = b - {url}"

text \<open>The URL is the primary key of the table: renaming to another row's URL raises.\<close>

definition blacklist_update :: "string \<Rightarrow> string \<Rightarrow> blacklist \<Rightarrow> blacklist option" where
  "blacklist_update old target b =
    (if old \<notin> b then Some b
     else if target \<in> b \<and> target \<noteq> old then None
     else Some (insert target (b - {old})))"

definition blacklist_clear :: "blacklist \<Rightarrow> blacklist" where
  "blacklist_clear b = {}"

definition blacklist_contains :: "string \<Rightarrow> blacklist \<Rightarrow> bool" where
  "blacklist_contains url b \<longleftrightarrow> url \<in> b"

section \<open>One hop\<close>

record redirect_settings =
  max_redirects :: int
  robots_max_redirects :: int
  cross_host_mode :: string
  block_https_downgrade :: bool
  max_location_length :: int

record redirect_validator =
  val_settings :: redirect_settings
  val_urlparse :: url_parser
  val_allowed_schemes :: "string list"
  val_blacklist :: blacklist
  val_normalize :: "host \<Rightarrow> host"
  val_guard :: network_guard
  val_scopes :: "scope_registry option"

definition ignored :: "string \<Rightarrow> request_error + 'a" where
  "ignored reason = Inl (Ignored_Fetch reason False)"

definition url_scheme :: "redirect_validator \<Rightarrow> string \<Rightarrow> request_error + string" where
  "url_scheme v url = (case val_urlparse v url of None \<Rightarrow> Inl Value_Raised | Some u \<Rightarrow> Inr (py_lower (view_scheme u)))"

definition reject_https_downgrade :: "redirect_validator \<Rightarrow> string \<Rightarrow> string \<Rightarrow> request_error + unit" where
  "reject_https_downgrade v current target =
    (case url_scheme v current of Inl e \<Rightarrow> Inl e | Inr current_scheme \<Rightarrow>
     case url_scheme v target of Inl e \<Rightarrow> Inl e | Inr target_scheme \<Rightarrow>
       if block_https_downgrade (val_settings v) \<and> current_scheme = ''https'' \<and> target_scheme \<noteq> ''https''
       then ignored ''redirect_https_downgrade_blocked'' else Inr ())"

definition validate_shared_hop :: "redirect_validator \<Rightarrow> string \<Rightarrow> string \<Rightarrow> int \<Rightarrow> int \<Rightarrow> request_error + unit" where
  "validate_shared_hop v current target redirect_count limit =
    (if limit < redirect_count then ignored ''redirect_too_many_redirects''
     else if \<not> scheme_is_allowed (val_urlparse v) (val_allowed_schemes v) target then ignored ''redirect_unsupported_scheme''
     else (case reject_https_downgrade v current target of Inl e \<Rightarrow> Inl e | Inr _ \<Rightarrow>
       (case rejection_reason_for_url (val_urlparse v) (val_guard v) target of
          Some reason \<Rightarrow> ignored (''redirect_'' @ reason)
        | None \<Rightarrow> if blacklist_contains target (val_blacklist v) then Inl (Ignored_Fetch ''redirect_blacklisted'' True) else Inr ())))"

definition normalized_host_from_url :: "redirect_validator \<Rightarrow> string \<Rightarrow> string option" where
  "normalized_host_from_url v url =
    (case val_normalize v (extract_host (val_urlparse v) url) of Some (c # cs) \<Rightarrow> Some (c # cs) | _ \<Rightarrow> None)"

definition ensure_target_in_source_scope :: "redirect_validator \<Rightarrow> string option \<Rightarrow> string \<Rightarrow> request_error + unit" where
  "ensure_target_in_source_scope v source_name target_host =
    (case (val_scopes v, source_name) of
       (Some registry, Some (c # cs)) \<Rightarrow>
         (case require_scope registry (c # cs) of
            Inl _ \<Rightarrow> ignored ''redirect_source_scope_unknown''
          | Inr scope \<Rightarrow> if allows_redirect_host scope target_host then Inr () else ignored ''redirect_target_not_source_approved'')
     | _ \<Rightarrow> ignored ''redirect_source_scope_unavailable'')"

definition validate_hop :: "redirect_validator \<Rightarrow> string \<Rightarrow> string \<Rightarrow> int \<Rightarrow> string option \<Rightarrow> request_error + unit" where
  "validate_hop v current target redirect_count source_name =
    (case validate_shared_hop v current target redirect_count (max_redirects (val_settings v)) of Inl e \<Rightarrow> Inl e | Inr _ \<Rightarrow>
     (case (normalized_host_from_url v current, normalized_host_from_url v target) of
        (Some current_host, Some target_host) \<Rightarrow>
          if current_host = target_host then Inr ()
          else if cross_host_mode (val_settings v) = ''deny'' then ignored ''redirect_cross_host_blocked''
          else ensure_target_in_source_scope v source_name target_host
      | _ \<Rightarrow> ignored ''redirect_host_unresolved''))"

definition validate_robots_hop :: "redirect_validator \<Rightarrow> string \<Rightarrow> string \<Rightarrow> int \<Rightarrow> request_error + unit" where
  "validate_robots_hop v current target redirect_count =
     validate_shared_hop v current target redirect_count (robots_max_redirects (val_settings v))"

section \<open>Lemmas\<close>

text \<open>What an accepted hop fulfils.\<close>

definition shared_hop_ok :: "redirect_validator \<Rightarrow> string \<Rightarrow> string \<Rightarrow> bool" where
  "shared_hop_ok v current target \<longleftrightarrow>
    scheme_is_allowed (val_urlparse v) (val_allowed_schemes v) target \<and>
    (\<exists>cs ts. url_scheme v current = Inr cs \<and> url_scheme v target = Inr ts \<and>
      (block_https_downgrade (val_settings v) \<and> cs = ''https'' \<longrightarrow> ts = ''https'')) \<and>
    rejection_reason_for_url (val_urlparse v) (val_guard v) target = None \<and> target \<notin> val_blacklist v"

definition approved_host :: "redirect_validator \<Rightarrow> string option \<Rightarrow> string \<Rightarrow> bool" where
  "approved_host v source_name h \<longleftrightarrow> cross_host_mode (val_settings v) \<noteq> ''deny'' \<and>
    (\<exists>registry name scope. val_scopes v = Some registry \<and> source_name = Some name \<and> name \<noteq> [] \<and>
      require_scope registry name = Inr scope \<and> allows_redirect_host scope h)"

lemma shared_hop_iff:
  "validate_shared_hop v current target n limit = Inr () \<longleftrightarrow> n \<le> limit \<and> shared_hop_ok v current target"
  by (auto simp: validate_shared_hop_def shared_hop_ok_def reject_https_downgrade_def ignored_def blacklist_contains_def
      split: if_splits sum.splits option.splits)

lemma scope_iff:
  "cross_host_mode (val_settings v) \<noteq> ''deny'' \<Longrightarrow>
   ensure_target_in_source_scope v source_name h = Inr () \<longleftrightarrow> approved_host v source_name h"
  by (auto simp: ensure_target_in_source_scope_def approved_host_def ignored_def
      split: option.splits list.splits sum.splits if_splits)

lemma validate_hop_iff:
  "validate_hop v current target n source_name = Inr () \<longleftrightarrow>
    n \<le> max_redirects (val_settings v) \<and> shared_hop_ok v current target \<and>
    (\<exists>ch th. normalized_host_from_url v current = Some ch \<and> normalized_host_from_url v target = Some th \<and>
      (ch = th \<or> approved_host v source_name th))"
proof (cases "validate_shared_hop v current target n (max_redirects (val_settings v))")
  case (Inr u)
  then have "n \<le> max_redirects (val_settings v) \<and> shared_hop_ok v current target" using shared_hop_iff by simp
  moreover have "validate_hop v current target n source_name = Inr () \<longleftrightarrow>
      (\<exists>ch th. normalized_host_from_url v current = Some ch \<and> normalized_host_from_url v target = Some th \<and>
        (ch = th \<or> approved_host v source_name th))"
  proof (cases "cross_host_mode (val_settings v) = ''deny''")
    case True
    then show ?thesis using Inr by (auto simp: validate_hop_def ignored_def approved_host_def split: option.splits)
  next
    case False
    then show ?thesis
      using Inr scope_iff [OF False] by (auto simp: validate_hop_def ignored_def split: option.splits)
  qed
  ultimately show ?thesis by blast
qed (use shared_hop_iff [of v current target n "max_redirects (val_settings v)"] in \<open>auto simp: validate_hop_def\<close>)

end
