(* ===== verification/Request_Runner.thy ===== *)
theory Request_Runner imports
  Redirect_Rules
begin

text \<open>
  One governed request with its redirects, \<open>crawler/fetching/network/request.py\<close>: the loop over
  hops, the check of the connected peer, the target of a redirect and the headers that survive
  it. The robots gate, the rate limiter, the HTTP client and \<open>urljoin\<close> are arguments; the run is
  the sequence of its events. The caller's use of the response happens at its \<open>Yielded\<close> event.
\<close>

section \<open>Requests\<close>

type_synonym headers = "(string \<times> string) list"

record reply =
  reply_status :: int
  reply_location :: "string option"
  reply_peer :: "string option"

record request_runner =
  run_validator :: redirect_validator
  run_guard :: network_guard
  run_nrm :: "host \<Rightarrow> host"
  run_join :: "string \<Rightarrow> string \<Rightarrow> string option"
  run_enrich :: "(string \<Rightarrow> headers \<Rightarrow> headers) option"

text \<open>The answers of the surroundings in each round of the loop.\<close>

record request_world =
  world_robots :: "nat \<Rightarrow> string \<Rightarrow> request_error option"
  world_acquire :: "nat \<Rightarrow> string \<Rightarrow> request_error option"
  world_serve :: "nat \<Rightarrow> string \<Rightarrow> headers \<Rightarrow> request_error + reply"

datatype request_event = Sent string headers | Opened reply | Yielded | Closed | Released

definition recomputed_headers :: "string list" where
  "recomputed_headers =
    [''host'', ''cookie'', ''if-match'', ''if-none-match'', ''if-modified-since'', ''if-unmodified-since'', ''if-range'']"

definition sensitive_headers :: "string list" where
  "sensitive_headers = [''authorization'', ''proxy-authorization'', ''range'']"

definition redirect_statuses :: "int list" where
  "redirect_statuses = [301, 302, 303, 307, 308]"

definition require_host :: "(host \<Rightarrow> host) \<Rightarrow> host \<Rightarrow> request_error + string" where
  "require_host nrm h = (case nrm h of None \<Rightarrow> Inl Value_Raised | Some k \<Rightarrow> Inr k)"

definition split_hostname :: "request_runner \<Rightarrow> string \<Rightarrow> request_error + host" where
  "split_hostname rr url = (case val_urlparse (run_validator rr) url of None \<Rightarrow> Inl Value_Raised
     | Some u \<Rightarrow> (case view_hostname u of None \<Rightarrow> Inl Value_Raised | Some h \<Rightarrow> Inr h))"

definition url_origin :: "request_runner \<Rightarrow> string \<Rightarrow> request_error + string \<times> string \<times> int option" where
  "url_origin rr url = (case val_urlparse (run_validator rr) url of None \<Rightarrow> Inl Value_Raised | Some u \<Rightarrow>
     (let scheme = py_lower (view_scheme u) in
      case view_hostname u of None \<Rightarrow> Inl Value_Raised | Some h \<Rightarrow>
      (case require_host (run_nrm rr) h of Inl e \<Rightarrow> Inl e | Inr host \<Rightarrow>
       (case view_port u of None \<Rightarrow> Inl Value_Raised | Some port \<Rightarrow>
         Inr (scheme, host, (case port of Some p \<Rightarrow> Some p
           | None \<Rightarrow> if scheme = ''http'' then Some 80 else if scheme = ''https'' then Some 443 else None))))))"

definition utf8_size :: "string \<Rightarrow> int" where
  "utf8_size s = sum_list (map (\<lambda>c. if of_char c < (128 :: nat) then 1 else 2) s)"

definition redirect_target :: "request_runner \<Rightarrow> reply \<Rightarrow> string \<Rightarrow> request_error + string option" where
  "redirect_target rr reply current =
    (if reply_status reply \<notin> set redirect_statuses then Inr None
     else (case reply_location reply of
         Some (c # cs) \<Rightarrow>
           if max_location_length (val_settings (run_validator rr)) < utf8_size (c # cs) then ignored ''redirect_location_too_large''
           else (case run_join rr current (c # cs) of None \<Rightarrow> Inl Value_Raised | Some url \<Rightarrow> Inr (Some url))
       | _ \<Rightarrow> Inr None))"

definition headers_for_redirect :: "request_runner \<Rightarrow> headers \<Rightarrow> string \<Rightarrow> string \<Rightarrow> request_error + headers" where
  "headers_for_redirect rr hs previous target =
    (case url_origin rr previous of Inl e \<Rightarrow> Inl e | Inr o1 \<Rightarrow>
     (case url_origin rr target of Inl e \<Rightarrow> Inl e | Inr o2 \<Rightarrow>
       (let dropped = recomputed_headers @ (if o1 = o2 then [] else sensitive_headers)
        in Inr (filter (\<lambda>(k, _). py_lower k \<notin> set dropped) hs))))"

definition validate_connected_peer :: "request_runner \<Rightarrow> reply \<Rightarrow> request_error + unit" where
  "validate_connected_peer rr reply = (case reply_peer reply of
     None \<Rightarrow> Inl (Retryable_Fetch ''local_transport_metadata'' ''peer_address_unavailable'')
   | Some address \<Rightarrow> (case rejection_reason_for_address (run_guard rr) address of
       None \<Rightarrow> Inr () | Some reason \<Rightarrow> ignored (''blocked_connected_peer:'' @ reason)))"

text \<open>The next hop: validated, with the headers that survive.\<close>

definition next_hop ::
  "request_runner \<Rightarrow> string option \<Rightarrow> headers \<Rightarrow> string \<Rightarrow> string \<Rightarrow> int \<Rightarrow> request_error + headers" where
  "next_hop rr source_name hs current target redirect_count =
    (case validate_hop (run_validator rr) current target redirect_count source_name of Inl e \<Rightarrow> Inl e
     | Inr _ \<Rightarrow> headers_for_redirect rr hs current target)"

definition enriched :: "request_runner \<Rightarrow> string \<Rightarrow> headers \<Rightarrow> headers" where
  "enriched rr url hs = (case run_enrich rr of None \<Rightarrow> hs | Some f \<Rightarrow> f url hs)"

definition open_request ::
  "request_runner \<Rightarrow> request_world \<Rightarrow> nat \<Rightarrow> string \<Rightarrow> headers \<Rightarrow> request_event list \<times> (request_error + reply)" where
  "open_request rr world n current hs =
    (let headers = enriched rr current hs in
     case split_hostname rr current of Inl e \<Rightarrow> ([], Inl e) | Inr h \<Rightarrow>
     (case require_host (run_nrm rr) h of Inl e \<Rightarrow> ([], Inl e) | Inr host \<Rightarrow>
      (case world_robots world n current of Some e \<Rightarrow> ([], Inl e) | None \<Rightarrow>
       (case world_acquire world n host of Some e \<Rightarrow> ([], Inl e) | None \<Rightarrow>
        (case world_serve world n current headers of
           Inl e \<Rightarrow> ([Sent current headers], Inl e)
         | Inr reply \<Rightarrow> ([Sent current headers, Opened reply], Inr reply))))))"

function (sequential) request_loop ::
  "request_runner \<Rightarrow> request_world \<Rightarrow> string option \<Rightarrow> nat \<Rightarrow> string \<Rightarrow> headers \<Rightarrow> request_event list \<times> (request_error + reply)" where
  "request_loop rr world source_name n current hs =
    (case open_request rr world n current hs of
       (evs, Inl e) \<Rightarrow> (evs, Inl e)
     | (evs, Inr reply) \<Rightarrow>
       (case validate_connected_peer rr reply of
          Inl e \<Rightarrow> (evs @ [Closed, Released], Inl e)
        | Inr _ \<Rightarrow>
          (case redirect_target rr reply current of
             Inl e \<Rightarrow> (evs @ [Released], Inl e)
           | Inr None \<Rightarrow> (evs @ [Yielded, Released], Inr reply)
           | Inr (Some target) \<Rightarrow>
             (case next_hop rr source_name hs current target (int n + 1) of
                Inl e \<Rightarrow> (evs @ [Released], Inl e)
              | Inr hs' \<Rightarrow>
                (case request_loop rr world source_name (n + 1) target hs' of (evs', r) \<Rightarrow> (evs @ [Released] @ evs', r))))))"
  by pat_completeness auto

lemma next_hop_ok:
  "next_hop rr source_name hs current target k = Inr hs' \<longleftrightarrow>
    validate_hop (run_validator rr) current target k source_name = Inr () \<and> headers_for_redirect rr hs current target = Inr hs'"
  by (auto simp: next_hop_def split: sum.splits)

termination request_loop
  by (relation "measure (\<lambda>(rr, world, source_name, n, current, hs). nat (max_redirects (val_settings (run_validator rr)) + 1 - int n))")
    (auto simp: next_hop_ok validate_hop_iff)

declare request_loop.simps [simp del]

definition perform_request ::
  "request_runner \<Rightarrow> request_world \<Rightarrow> string option \<Rightarrow> string \<Rightarrow> headers \<Rightarrow> request_event list \<times> (request_error + reply)" where
  "perform_request rr world source_name url base_headers = request_loop rr world source_name 0 url base_headers"

section \<open>Lemmas\<close>

text \<open>A run ends in its first hop, or accepts a redirect and goes on.\<close>

definition last_hop ::
  "request_runner \<Rightarrow> string \<Rightarrow> headers \<Rightarrow> request_event list \<Rightarrow> request_error + reply \<Rightarrow> bool" where
  "last_hop rr current hs evs r \<longleftrightarrow>
    (let sent = Sent current (enriched rr current hs) in
     evs \<in> {[], [sent]} \<and> (\<exists>e. r = Inl e) \<or>
     (\<exists>reply. evs = [sent, Opened reply, Closed, Released] \<and> (\<exists>e. r = Inl e)) \<or>
     (\<exists>reply. evs = [sent, Opened reply, Released] \<and> (\<exists>e. r = Inl e)) \<or>
     (\<exists>reply. evs = [sent, Opened reply, Yielded, Released] \<and> r = Inr reply \<and> validate_connected_peer rr reply = Inr ()))"

inductive request_run ::
  "request_runner \<Rightarrow> string option \<Rightarrow> nat \<Rightarrow> string \<Rightarrow> headers \<Rightarrow> request_event list \<Rightarrow> request_error + reply \<Rightarrow> bool" where
  run_end: "last_hop rr current hs evs r \<Longrightarrow> request_run rr source_name n current hs evs r"
| run_hop: "next_hop rr source_name hs current target (int n + 1) = Inr hs' \<Longrightarrow>
    request_run rr source_name (n + 1) target hs' evs r \<Longrightarrow>
    request_run rr source_name n current hs (Sent current (enriched rr current hs) # Opened reply # Released # evs) r"

lemma open_request_cases:
  "open_request rr world n current hs = (evs, r) \<Longrightarrow>
   (\<exists>e. r = Inl e) \<and> evs \<in> {[], [Sent current (enriched rr current hs)]} \<or>
   (\<exists>reply. r = Inr reply \<and> evs = [Sent current (enriched rr current hs), Opened reply])"
  by (cases r) (auto simp: open_request_def Let_def split: sum.splits option.splits)

lemma request_loop_step:
  assumes "request_loop rr world source_name n current hs = (evs, r)"
  shows "last_hop rr current hs evs r \<or>
    (\<exists>reply target hs' evs'. next_hop rr source_name hs current target (int n + 1) = Inr hs' \<and>
      request_loop rr world source_name (n + 1) target hs' = (evs', r) \<and>
      evs = Sent current (enriched rr current hs) # Opened reply # Released # evs')"
proof -
  obtain evs0 r0 where first: "open_request rr world n current hs = (evs0, r0)" by fastforce
  note shape = open_request_cases [OF first] and run = assms [unfolded request_loop.simps [of rr world source_name n current hs] first]
  show ?thesis
  proof (cases r0)
    case (Inl e)
    then show ?thesis using run shape by (auto simp: last_hop_def Let_def)
  next
    case (Inr reply)
    then have "evs0 = [Sent current (enriched rr current hs), Opened reply]" using shape by auto
    then show ?thesis
      using run Inr by (auto simp: last_hop_def Let_def split: sum.splits option.splits prod.splits)
  qed
qed

lemma request_loop_run:
  "request_loop rr world source_name n current hs = (evs, r) \<Longrightarrow> request_run rr source_name n current hs evs r"
proof (induction "nat (max_redirects (val_settings (run_validator rr)) + 1 - int n)" arbitrary: n current hs evs rule: less_induct)
  case less
  from request_loop_step [OF less.prems] show ?case
  proof (elim disjE exE conjE)
    assume "last_hop rr current hs evs r"
    then show ?thesis by (rule run_end)
  next
    fix reply target hs' evs'
    assume hop: "next_hop rr source_name hs current target (int n + 1) = Inr hs'"
      and rest: "request_loop rr world source_name (n + 1) target hs' = (evs', r)"
      and evs: "evs = Sent current (enriched rr current hs) # Opened reply # Released # evs'"
    have "int n + 1 \<le> max_redirects (val_settings (run_validator rr))"
      using hop by (simp add: next_hop_ok validate_hop_iff)
    then have "request_run rr source_name (n + 1) target hs' evs' r"
      by (intro less.hyps rest) simp
    then show ?thesis unfolding evs by (rule run_hop [OF hop])
  qed
qed

subsection \<open>What is sent\<close>

fun sent_requests :: "request_event list \<Rightarrow> (string \<times> headers) list" where
  "sent_requests [] = []"
| "sent_requests (Sent url hs # evs) = (url, hs) # sent_requests evs"
| "sent_requests (_ # evs) = sent_requests evs"

text \<open>A redirect that the validator accepts.\<close>

definition governed_hop :: "redirect_validator \<Rightarrow> string option \<Rightarrow> string \<Rightarrow> string \<Rightarrow> bool" where
  "governed_hop v source_name current target \<longleftrightarrow> shared_hop_ok v current target \<and>
    (\<exists>ch th. normalized_host_from_url v current = Some ch \<and> normalized_host_from_url v target = Some th \<and>
      (ch = th \<or> approved_host v source_name th))"

fun governed_chain :: "redirect_validator \<Rightarrow> string option \<Rightarrow> string \<Rightarrow> string list \<Rightarrow> bool" where
  "governed_chain v source_name current [] = True"
| "governed_chain v source_name current (u # us) \<longleftrightarrow> governed_hop v source_name current u \<and> governed_chain v source_name u us"

text \<open>Every response is opened, at most handed out once, and released before anything else is sent.\<close>

fun releases :: "bool \<Rightarrow> request_event list \<Rightarrow> bool" where
  "releases is_open [] = (\<not> is_open)"
| "releases is_open (Sent url hs # evs) = (\<not> is_open \<and> releases False evs)"
| "releases is_open (Opened reply # evs) = (\<not> is_open \<and> releases True evs)"
| "releases is_open (Yielded # evs) = (is_open \<and> releases True evs)"
| "releases is_open (Closed # evs) = (is_open \<and> releases True evs)"
| "releases is_open (Released # evs) = (is_open \<and> releases False evs)"

lemma last_hop_sent: "last_hop rr current hs evs r \<Longrightarrow> sent_requests evs \<in> {[], [(current, enriched rr current hs)]}"
  by (auto simp: last_hop_def Let_def)

lemma run_releases: "request_run rr source_name n current hs evs r \<Longrightarrow> releases False evs"
  by (induction rule: request_run.induct) (auto simp: last_hop_def Let_def)

lemma run_yields:
  "request_run rr source_name n current hs evs r \<Longrightarrow>
   (Yielded \<in> set evs \<longleftrightarrow> (\<exists>reply. r = Inr reply)) \<and>
   (\<forall>reply. r = Inr reply \<longrightarrow> validate_connected_peer rr reply = Inr () \<and>
     (\<exists>evs'. evs = evs' @ [Opened reply, Yielded, Released] \<and> Yielded \<notin> set evs'))"
proof (induction rule: request_run.induct)
  case (run_end rr current hs evs r source_name n)
  then show ?case by (fastforce simp: last_hop_def Let_def)
next
  case (run_hop rr source_name hs current target n hs' evs r reply)
  have "\<exists>es. Sent current (enriched rr current hs) # Opened reply # Released # evs = es @ [Opened a, Yielded, Released] \<and> Yielded \<notin> set es"
    if "evs = evs' @ [Opened a, Yielded, Released]" "Yielded \<notin> set evs'" for a evs'
    using that by (intro exI [of _ "Sent current (enriched rr current hs) # Opened reply # Released # evs'"]) simp
  then show ?case using run_hop.IH by auto
qed

lemma run_chain:
  "request_run rr source_name n current hs evs r \<Longrightarrow> int n \<le> max_redirects (val_settings (run_validator rr)) \<Longrightarrow>
   int n + int (length (sent_requests evs)) \<le> max_redirects (val_settings (run_validator rr)) + 1 \<and>
   (sent_requests evs \<noteq> [] \<longrightarrow> fst (hd (sent_requests evs)) = current) \<and>
   governed_chain (run_validator rr) source_name current (map fst (tl (sent_requests evs)))"
proof (induction rule: request_run.induct)
  case (run_end rr current hs evs r source_name n)
  then show ?case using last_hop_sent [OF run_end.hyps] by auto
next
  case (run_hop rr source_name hs current target n hs' evs r reply)
  have ok: "validate_hop (run_validator rr) current target (int n + 1) source_name = Inr ()"
    using run_hop.hyps(1) by (simp add: next_hop_ok)
  then have "int (n + 1) \<le> max_redirects (val_settings (run_validator rr))" and hop: "governed_hop (run_validator rr) source_name current target"
    by (simp_all add: validate_hop_iff governed_hop_def)
  then show ?case using run_hop.IH by (cases "sent_requests evs") auto
qed

subsection \<open>The headers that survive\<close>

definition carries :: "string list \<Rightarrow> headers \<Rightarrow> bool" where
  "carries names hs \<longleftrightarrow> (\<exists>(k, v)\<in>set hs. py_lower k \<in> set names)"

lemma headers_for_redirect_effect:
  "headers_for_redirect rr hs previous target = Inr hs' \<Longrightarrow>
   set hs' \<subseteq> set hs \<and> \<not> carries recomputed_headers hs' \<and>
   (carries sensitive_headers hs' \<longrightarrow> url_origin rr previous = url_origin rr target)"
  by (auto simp: headers_for_redirect_def carries_def Let_def split: sum.splits if_splits)

lemma carries_mono: "set hs' \<subseteq> set hs \<Longrightarrow> carries names hs' \<Longrightarrow> carries names hs"
  by (auto simp: carries_def)

lemma run_headers:
  "request_run rr source_name n current hs evs r \<Longrightarrow> run_enrich rr = None \<Longrightarrow>
   (\<forall>(u, sent)\<in>set (sent_requests evs). set sent \<subseteq> set hs) \<and>
   (\<forall>(u, sent)\<in>set (tl (sent_requests evs)). \<not> carries recomputed_headers sent) \<and>
   (\<forall>i<length (sent_requests evs). carries sensitive_headers (snd (sent_requests evs ! i)) \<longrightarrow>
     (\<forall>j\<le>i. url_origin rr (fst (sent_requests evs ! j)) = url_origin rr current))"
proof (induction rule: request_run.induct)
  case (run_end rr current hs evs r source_name n)
  then show ?case using last_hop_sent [OF run_end.hyps] by (auto simp: enriched_def)
next
  case (run_hop rr source_name hs current target n hs' evs r reply)
  let ?sent = "sent_requests evs"
  have eff: "set hs' \<subseteq> set hs" "\<not> carries recomputed_headers hs'"
      "carries sensitive_headers hs' \<longrightarrow> url_origin rr current = url_origin rr target"
    using run_hop.hyps(1) headers_for_redirect_effect [of rr hs current target hs'] by (simp_all add: next_hop_ok)
  note IH = run_hop.IH [OF run_hop.prems]
  have "\<not> carries recomputed_headers sent" if "(u, sent) \<in> set ?sent" for u sent
    using IH that eff(2) carries_mono by blast
  moreover have "url_origin rr (fst (((current, hs) # ?sent) ! j)) = url_origin rr current"
    if i: "i < length ((current, hs) # ?sent)" "carries sensitive_headers (snd (((current, hs) # ?sent) ! i))" "j \<le> i" for i j
  proof (cases i)
    case (Suc k)
    then have k: "k < length ?sent" "carries sensitive_headers (snd (?sent ! k))" using i by auto
    then have "set (snd (?sent ! k)) \<subseteq> set hs'" using IH nth_mem [OF k(1)] by (cases "?sent ! k") fastforce
    then have "url_origin rr current = url_origin rr target" using eff(3) k(2) carries_mono by blast
    moreover have "\<forall>j\<le>k. url_origin rr (fst (?sent ! j)) = url_origin rr target" using IH k by blast
    ultimately show ?thesis using i(3) Suc by (cases j) auto
  qed (use i in simp)
  moreover have "set sent \<subseteq> set hs" if "(u, sent) \<in> set ?sent" for u sent
    using IH that eff(1) by fastforce
  moreover have "sent_requests (Sent current (enriched rr current hs) # Opened reply # Released # evs) = (current, hs) # ?sent"
    by (simp add: enriched_def run_hop.prems)
  ultimately show ?case unfolding list.sel by (intro conjI; simp; blast)
qed

section \<open>Properties\<close>

text \<open>C31: Whatever the servers answer, a request ends after at most the configured number of
  redirects; it starts at its URL, and every further URL it asks for has an allowed scheme, keeps
  https where that is required, passes the guard of addresses and the blacklist, and stays on the
  host or goes to one that the source's scope approves. Every response is released before the
  next request, and a response is handed out exactly when the run succeeds, once, as the last
  one, from a peer whose address the guard accepts.\<close>

theorem redirects_stay_governed:
  assumes "perform_request rr world source_name url base_headers = (evs, r)"
    and "0 \<le> max_redirects (val_settings (run_validator rr))"
  shows "int (length (sent_requests evs)) \<le> max_redirects (val_settings (run_validator rr)) + 1 \<and>
    (sent_requests evs \<noteq> [] \<longrightarrow> fst (hd (sent_requests evs)) = url) \<and>
    governed_chain (run_validator rr) source_name url (map fst (tl (sent_requests evs))) \<and>
    releases False evs \<and> (Yielded \<in> set evs \<longleftrightarrow> (\<exists>reply. r = Inr reply)) \<and>
    (\<forall>reply. r = Inr reply \<longrightarrow>
      (\<exists>peer. reply_peer reply = Some peer \<and> rejection_reason_for_address (run_guard rr) peer = None) \<and>
      (\<exists>evs'. evs = evs' @ [Opened reply, Yielded, Released] \<and> Yielded \<notin> set evs'))"
proof -
  have run: "request_run rr source_name 0 url base_headers evs r"
    using request_loop_run assms(1) by (simp add: perform_request_def)
  have "validate_connected_peer rr reply = Inr () \<Longrightarrow>
      \<exists>peer. reply_peer reply = Some peer \<and> rejection_reason_for_address (run_guard rr) peer = None" for reply
    by (auto simp: validate_connected_peer_def ignored_def split: option.splits)
  then show ?thesis
    using run_chain [OF run] run_releases [OF run] run_yields [OF run] assms(2) by simp
qed


subsection \<open>A run with a redirect\<close>

declare py_lower_simps [simp del]

definition sample_parser :: url_parser where
  "sample_parser url = Some \<lparr>view_scheme = (if hd url = CHR ''s'' then ''https'' else ''http''), view_hostname = Some (Some ''h''),
     view_username = None, view_password = None, view_port = Some None\<rparr>"

definition open_guard :: network_guard where
  "open_guard = make_network_guard (strict_network\<lparr>blocked_hostname_suffixes := [], allowed_ip_literals := []\<rparr>) id"

definition sample_runner :: request_runner where
  "sample_runner =
     \<lparr>run_validator =
        \<lparr>val_settings = \<lparr>max_redirects = 3, robots_max_redirects = 5, cross_host_mode = ''deny'', block_https_downgrade = True,
           max_location_length = 256\<rparr>,
         val_urlparse = sample_parser, val_allowed_schemes = [''http'', ''https''], val_blacklist = {}, val_normalize = id,
         val_guard = open_guard, val_scopes = None\<rparr>,
      run_guard = open_guard, run_nrm = id, run_join = (\<lambda>_ l. Some l), run_enrich = None\<rparr>"

definition public_peer :: string where
  "public_peer = address_text (IPv4 [8, 8, 8, 8], None)"

definition sample_world :: request_world where
  "sample_world = \<lparr>world_robots = (\<lambda>_ _. None), world_acquire = (\<lambda>_ _. None),
     world_serve = (\<lambda>n _ _. Inr (if n = 0 then \<lparr>reply_status = 302, reply_location = Some ''s'', reply_peer = Some public_peer\<rparr>
       else \<lparr>reply_status = 200, reply_location = None, reply_peer = Some public_peer\<rparr>))\<rparr>"

lemma public_peer_accepted: "rejection_reason_for_address open_guard public_peer = None"
proof -
  have "scoped_ok (IPv4 [8, 8, 8, 8], None)" by (simp add: scoped_ok_def)
  from rejection_ipv4 [OF _ parse_address_text [OF this]] show ?thesis
    by (simp add: open_guard_def public_peer_def blocks_everything_def strict_network_def)
qed

lemma plain_name_accepted: "rejection_reason_for_host open_guard ''h'' = None"
proof -
  have "parse_ip_address ''h'' = None" by code_simp
  then show ?thesis
    by (simp add: rejection_reason_for_host_def open_guard_def make_network_guard_def local_hostname_blocked_def
        cloud_metadata_hosts_def strict_network_def)
qed

lemma sample_run:
  "perform_request sample_runner sample_world None ''p'' [(''Authorization'', ''x''), (''Accept'', ''y'')] =
    ([Sent ''p'' [(''Authorization'', ''x''), (''Accept'', ''y'')],
      Opened \<lparr>reply_status = 302, reply_location = Some ''s'', reply_peer = Some public_peer\<rparr>, Released,
      Sent ''s'' [(''Accept'', ''y'')],
      Opened \<lparr>reply_status = 200, reply_location = None, reply_peer = Some public_peer\<rparr>, Yielded, Released],
     Inr \<lparr>reply_status = 200, reply_location = None, reply_peer = Some public_peer\<rparr>)"
proof -
  have lower: "py_lower ''Authorization'' = ''authorization''" "py_lower ''Accept'' = ''accept''"
      "py_lower ''http'' = ''http''" "py_lower ''https'' = ''https''" "py_strip ''s'' = ''s''" "py_strip ''https'' = ''https''"
    by code_simp+
  note defs = sample_runner_def sample_world_def open_request_def split_hostname_def
    require_host_def enriched_def validate_connected_peer_def public_peer_accepted redirect_target_def redirect_statuses_def
    utf8_size_def next_hop_def validate_hop_def validate_shared_hop_def scheme_is_allowed_def reject_https_downgrade_def
    url_scheme_def rejection_reason_for_url_def plain_name_accepted blacklist_contains_def normalized_host_from_url_def
    extract_host_def headers_for_redirect_def url_origin_def sample_parser_def recomputed_headers_def sensitive_headers_def lower
  have rest: "request_loop sample_runner sample_world None 1 ''s'' [(''Accept'', ''y'')] =
    ([Sent ''s'' [(''Accept'', ''y'')], Opened \<lparr>reply_status = 200, reply_location = None, reply_peer = Some public_peer\<rparr>,
      Yielded, Released], Inr \<lparr>reply_status = 200, reply_location = None, reply_peer = Some public_peer\<rparr>)"
    by (subst request_loop.simps) (simp add: defs Let_def)
  moreover have "url_origin sample_runner ''p'' = Inr (''http'', ''h'', Some 80)" "url_origin sample_runner ''s'' = Inr (''https'', ''h'', Some 443)"
    by (simp_all add: defs Let_def)
  then have "headers_for_redirect sample_runner [(''Authorization'', ''x''), (''Accept'', ''y'')] ''p'' ''s'' = Inr [(''Accept'', ''y'')]"
    by (simp add: headers_for_redirect_def recomputed_headers_def sensitive_headers_def lower)
  moreover have "validate_hop (run_validator sample_runner) ''p'' ''s'' 1 None = Inr ()"
    by (simp add: defs Let_def)
  ultimately have hop: "next_hop sample_runner None [(''Authorization'', ''x''), (''Accept'', ''y'')] ''p'' ''s'' 1 = Inr [(''Accept'', ''y'')]"
    by (simp add: next_hop_ok)
  have "open_request sample_runner sample_world 0 ''p'' [(''Authorization'', ''x''), (''Accept'', ''y'')] =
      ([Sent ''p'' [(''Authorization'', ''x''), (''Accept'', ''y'')],
        Opened \<lparr>reply_status = 302, reply_location = Some ''s'', reply_peer = Some public_peer\<rparr>],
       Inr \<lparr>reply_status = 302, reply_location = Some ''s'', reply_peer = Some public_peer\<rparr>)"
    by (simp add: defs Let_def)
  moreover have "validate_connected_peer sample_runner \<lparr>reply_status = 302, reply_location = Some ''s'', reply_peer = Some public_peer\<rparr> = Inr ()"
    "redirect_target sample_runner \<lparr>reply_status = 302, reply_location = Some ''s'', reply_peer = Some public_peer\<rparr> ''p'' = Inr (Some ''s'')"
    by (simp_all add: defs Let_def)
  ultimately show ?thesis
    unfolding perform_request_def using rest hop by (subst request_loop.simps) simp
qed

theorem redirects_stay_governed_witness:
  "governed_chain (run_validator sample_runner) None ''p'' [''s''] \<and>
   rejection_reason_for_address open_guard public_peer = None"
  using redirects_stay_governed [OF sample_run] by (simp add: sample_runner_def public_peer_accepted)


end
