(* ===== verification/Robots_Rules.thy ===== *)
theory Robots_Rules imports
  Redirect_Rules
  Value_Parser
  Host_Suppression
begin

text \<open>
  Decisions on robots.txt, \<open>crawler/governance/robots\<close>: the result of a check, the evaluation of
  a parsed document with its table of crawl delays, the resolution of loading errors, the memory of
  hosts and the suppression of repeated unknown results. \<open>can_fetch\<close> and \<open>site_maps\<close> of the parsed
  document are fields of a \<open>robots_document\<close>; the path of a URL is the argument \<open>rob_path\<close>.
\<close>

section \<open>Results\<close>

datatype robots_decision = Robots_Allowed | Robots_Disallowed | Robots_Unknown

datatype robots_confidence =
  Authoritative_Allow | Authoritative_Deny | Authoritative_Absent | Weak_Unknown | Transient_Unknown | Hostile_Unknown

datatype access_action = Access_Allow | Access_Block | Access_Defer

record robots_result =
  res_robots_url :: string
  res_decision :: robots_decision
  res_reason :: string
  res_source :: string
  res_authoritative :: bool
  res_error_type :: "string option"
  res_confidence :: robots_confidence
  res_http_status :: "int option"
  res_crawl_delay :: "pyfloat option"
  res_retry_after :: "real option"
  res_host_penalty :: real
  res_discovery_factor :: real
  res_sitemap_urls :: "string list"

definition default_confidence :: "robots_decision \<Rightarrow> bool \<Rightarrow> string \<Rightarrow> robots_confidence" where
  "default_confidence decision authoritative reason =
    (if decision = Robots_Allowed \<and> authoritative then Authoritative_Allow
     else if decision = Robots_Disallowed \<and> authoritative then Authoritative_Deny
     else if decision = Robots_Allowed \<and> reason = ''missing_robots_allows'' then Authoritative_Absent
     else Weak_Unknown)"

definition make_robots_result ::
  "string \<Rightarrow> robots_decision \<Rightarrow> string \<Rightarrow> string \<Rightarrow> bool \<Rightarrow> robots_confidence option \<Rightarrow> robots_result" where
  "make_robots_result url decision reason source authoritative confidence =
     \<lparr>res_robots_url = url, res_decision = decision, res_reason = reason, res_source = source,
      res_authoritative = authoritative, res_error_type = None,
      res_confidence = (case confidence of Some c \<Rightarrow> c | None \<Rightarrow> default_confidence decision authoritative reason),
      res_http_status = None, res_crawl_delay = None, res_retry_after = None, res_host_penalty = 0,
      res_discovery_factor = 1, res_sitemap_urls = []\<rparr>"

definition allowed_absent :: "string \<Rightarrow> string \<Rightarrow> int \<Rightarrow> robots_result" where
  "allowed_absent url error_type status =
    (make_robots_result url Robots_Allowed ''missing_robots_allows'' ''robots_absence'' True (Some Authoritative_Absent))
      \<lparr>res_error_type := Some error_type, res_http_status := Some status\<rparr>"

definition unknown_result ::
  "string \<Rightarrow> robots_confidence \<Rightarrow> string \<Rightarrow> string \<Rightarrow> real \<Rightarrow> real \<Rightarrow> int option \<Rightarrow> real option \<Rightarrow> string \<Rightarrow> robots_result" where
  "unknown_result url confidence reason error_type penalty factor status retry_after source =
    (make_robots_result url Robots_Unknown reason source False (Some confidence))
      \<lparr>res_error_type := Some error_type, res_http_status := status, res_retry_after := retry_after,
       res_host_penalty := penalty, res_discovery_factor := factor\<rparr>"

record robots_policy =
  on_weak_unknown :: access_action
  on_transient_unknown :: access_action
  on_hostile_unknown :: access_action

definition to_access_action :: "robots_policy \<Rightarrow> robots_result \<Rightarrow> access_action" where
  "to_access_action p r = (case res_decision r of
     Robots_Allowed \<Rightarrow> Access_Allow
   | Robots_Disallowed \<Rightarrow> Access_Block
   | Robots_Unknown \<Rightarrow>
       (if res_confidence r = Hostile_Unknown then on_hostile_unknown p
        else if res_confidence r = Transient_Unknown then on_transient_unknown p
        else on_weak_unknown p))"

section \<open>Documents\<close>

type_synonym delay_table = "(string list \<times> pyfloat) list"

record robots_document =
  doc_can_fetch :: "string \<Rightarrow> string \<Rightarrow> bool"
  doc_delay_table :: delay_table
  doc_site_maps :: "string list"

text \<open>\<open>str.splitlines\<close> on code points up to 255.\<close>

definition is_line_break :: "char \<Rightarrow> bool" where
  "is_line_break c \<longleftrightarrow> (let n = of_char c :: nat in 10 \<le> n \<and> n \<le> 13 \<or> 28 \<le> n \<and> n \<le> 30 \<or> n = 133)"

fun join_crlf :: "string \<Rightarrow> string" where
  "join_crlf (c # d # s) = (if of_char c = (13 :: nat) \<and> of_char d = (10 :: nat) then d # join_crlf s else c # join_crlf (d # s))"
| "join_crlf s = s"

fun split_breaks :: "string \<Rightarrow> string \<Rightarrow> string list" where
  "split_breaks line [] = (if line = [] then [] else [line])"
| "split_breaks line (c # s) = (if is_line_break c then line # split_breaks [] s else split_breaks (line @ [c]) s)"

definition splitlines :: "string \<Rightarrow> string list" where
  "splitlines s = split_breaks [] (join_crlf s)"

definition robots_line :: "string \<Rightarrow> string \<times> string" where
  "robots_line raw =
    (let line = py_strip (takeWhile (\<lambda>c. c \<noteq> CHR ''#'') raw); key = takeWhile (\<lambda>c. c \<noteq> CHR '':'') line
     in (py_lower (py_strip key), py_strip (drop (Suc (length key)) line)))"

text \<open>\<open>0 \<le> x\<close> on floats.\<close>

definition not_negative :: "pyfloat \<Rightarrow> bool" where
  "not_negative x = (case x of Fin r \<Rightarrow> 0 \<le> r | PosInf \<Rightarrow> True | _ \<Rightarrow> False)"

definition delay_step :: "(string list \<times> pyfloat option) list \<Rightarrow> string \<Rightarrow> (string list \<times> pyfloat option) list" where
  "delay_step groups raw = (case robots_line raw of (key, v) \<Rightarrow>
     if key = ''user-agent'' \<and> v \<noteq> [] then groups @ [([v], None)]
     else if key = ''crawl-delay'' \<and> groups \<noteq> [] then
       (case parse_float v of
          Some d \<Rightarrow> if not_negative d then butlast groups @ [(fst (last groups), Some d)] else groups
        | None \<Rightarrow> groups)
     else groups)"

definition extract_crawl_delay_table :: "string \<Rightarrow> delay_table" where
  "extract_crawl_delay_table content =
     List.map_filter (\<lambda>(uas, d). map_option (Pair uas) d) (foldl delay_step [] (splitlines content))"

fun delay_for_agent :: "string \<Rightarrow> delay_table \<Rightarrow> pyfloat option \<Rightarrow> pyfloat option" where
  "delay_for_agent agent [] dflt = dflt"
| "delay_for_agent agent ((uas, d) # table) dflt =
    (if list_ex (\<lambda>ua. ua = ''*'') uas then delay_for_agent agent table (Some d)
     else if list_ex (\<lambda>ua. starts_with agent (py_lower (py_strip ua))) uas then Some d
     else delay_for_agent agent table dflt)"

definition crawl_delay_seconds_for_agent :: "delay_table \<Rightarrow> string \<Rightarrow> pyfloat option" where
  "crawl_delay_seconds_for_agent table agent = delay_for_agent (py_lower (py_strip agent)) table None"

section \<open>Evaluation\<close>

record robots_evaluator =
  respect_crawl_delay :: bool
  max_crawl_delay_s :: real
  ev_user_agent :: string

definition make_robots_evaluator :: "bool \<Rightarrow> real \<Rightarrow> string \<Rightarrow> robots_evaluator" where
  "make_robots_evaluator respect max_delay agent =
     \<lparr>respect_crawl_delay = respect, max_crawl_delay_s = max_delay, ev_user_agent = py_strip agent\<rparr>"

definition resolve_user_agent :: "robots_evaluator \<Rightarrow> string option \<Rightarrow> string" where
  "resolve_user_agent ev agent = (case agent of None \<Rightarrow> ev_user_agent ev
     | Some a \<Rightarrow> if py_strip a \<noteq> [] then py_strip a else ev_user_agent ev)"

definition document_delay :: "robots_document \<Rightarrow> string \<Rightarrow> pyfloat option" where
  "document_delay doc agent =
    (if doc_delay_table doc = [] then None else crawl_delay_seconds_for_agent (doc_delay_table doc) agent)"

definition exceeds :: "pyfloat \<Rightarrow> real \<Rightarrow> bool" where
  "exceeds x m = (case x of Fin r \<Rightarrow> m < r | PosInf \<Rightarrow> True | _ \<Rightarrow> False)"

definition evaluate_robots ::
  "robots_evaluator \<Rightarrow> robots_document \<Rightarrow> string \<Rightarrow> string \<Rightarrow> int option \<Rightarrow> string option \<Rightarrow> robots_result" where
  "evaluate_robots ev doc url robots_url status user_agent =
    (let agent = resolve_user_agent ev user_agent;
         delay = (if respect_crawl_delay ev then document_delay doc agent else None)
     in (if (case delay of Some d \<Rightarrow> exceeds d (max_crawl_delay_s ev) | None \<Rightarrow> False)
         then make_robots_result robots_url Robots_Unknown ''robots_crawl_delay_operationally_unsupported'' ''robots_rules'' False
           (Some Weak_Unknown)
         else if \<not> doc_can_fetch doc agent url
         then make_robots_result robots_url Robots_Disallowed ''robots_rules_disallow'' ''robots_rules'' True (Some Authoritative_Deny)
         else make_robots_result robots_url Robots_Allowed ''robots_rules_allow'' ''robots_rules'' True (Some Authoritative_Allow))
        \<lparr>res_http_status := status, res_crawl_delay := delay\<rparr>)"

section \<open>Loading errors\<close>

datatype loader_error =
  Http_Status_Error int string "real option"
| Network_Error string
| Timeout_Error string
| Redirect_Rejected string "int option"
| Fetch_Deferred string "real option"

record error_classification =
  cls_kind :: string
  cls_error_type :: string
  cls_http_status :: "int option"
  cls_retry_after :: "real option"

fun classify_error :: "loader_error \<Rightarrow> error_classification" where
  "classify_error (Http_Status_Error status error_type retry_after) =
     \<lparr>cls_kind = ''http'', cls_error_type = error_type, cls_http_status = Some status, cls_retry_after = retry_after\<rparr>"
| "classify_error (Timeout_Error error_type) =
     \<lparr>cls_kind = ''timeout'', cls_error_type = error_type, cls_http_status = None, cls_retry_after = None\<rparr>"
| "classify_error (Network_Error error_type) =
     \<lparr>cls_kind = ''url_error'', cls_error_type = error_type, cls_http_status = None, cls_retry_after = None\<rparr>"
| "classify_error (Redirect_Rejected reason status) =
     \<lparr>cls_kind = ''client_error'', cls_error_type = reason, cls_http_status = None, cls_retry_after = None\<rparr>"
| "classify_error (Fetch_Deferred reason retry_after) =
     \<lparr>cls_kind = ''unknown'', cls_error_type = ''RobotsFetchDeferredError'', cls_http_status = None, cls_retry_after = None\<rparr>"

record robots_env =
  rob_urlparse :: url_parser
  rob_path :: "string \<Rightarrow> string"
  rob_nrm :: "host \<Rightarrow> host"

definition known_extensions :: "string list" where
  "known_extensions =
    [''.html'', ''.htm'', ''.rss'', ''.xml'', ''.atom'', ''.jpg'', ''.jpeg'', ''.png'', ''.webp'', ''.gif'', ''.tif'', ''.tiff'',
     ''.avif'', ''.bmp'', ''.mp3'', ''.wav'', ''.ogg'', ''.m4a'', ''.webm'', ''.aac'', ''.flac'', ''.opus'', ''.aiff'', ''.mpga'',
     ''.mpeg'', ''.mp4'', ''.mov'', ''.m4v'', ''.mkv'', ''.avi'', ''.m3u8'', ''.pdf'', ''.txt'', ''.md'', ''.vtt'', ''.srt'', ''.doc'',
     ''.docx'', ''.ppt'', ''.pptx'', ''.zip'', ''.epub'', ''.json'', ''.csv'', ''.tsv'', ''.ttml'', ''.ris'', ''.xls'', ''.xlsx'']"

text \<open>The host of a URL; \<open>None\<close> where \<open>urlsplit\<close> raises or the host is invalid.\<close>

definition robots_host :: "robots_env \<Rightarrow> string \<Rightarrow> host" where
  "robots_host env url = (case rob_urlparse env url of None \<Rightarrow> None
     | Some v \<Rightarrow> (case view_hostname v of None \<Rightarrow> None | Some h \<Rightarrow> rob_nrm env h))"

fun normalize_suffixes :: "robots_env \<Rightarrow> string list \<Rightarrow> string list \<Rightarrow> string list" where
  "normalize_suffixes env [] seen = []"
| "normalize_suffixes env (s # ss) seen =
    (if s = [] then normalize_suffixes env ss seen
     else (case rob_nrm env (Some (strip_dots s)) of
         Some (c # cs) \<Rightarrow> if c # cs \<in> set seen then normalize_suffixes env ss seen
           else (c # cs) # normalize_suffixes env ss ((c # cs) # seen)
       | _ \<Rightarrow> normalize_suffixes env ss seen))"

definition under_suffix :: "string \<Rightarrow> string list \<Rightarrow> bool" where
  "under_suffix h suffixes = list_ex (\<lambda>s. h = s \<or> ends_with h (CHR ''.'' # s)) suffixes"

definition is_allowed_host_suffix :: "robots_env \<Rightarrow> string list \<Rightarrow> string option \<Rightarrow> string list option \<Rightarrow> bool" where
  "is_allowed_host_suffix env configured target allowed =
    (case robots_host env (case target of None \<Rightarrow> [] | Some u \<Rightarrow> u) of
       Some (c # cs) \<Rightarrow> under_suffix (c # cs) (case allowed of Some ss \<Rightarrow> normalize_suffixes env ss [] | None \<Rightarrow> configured)
     | _ \<Rightarrow> False)"

definition is_storage_backed_media_asset :: "robots_env \<Rightarrow> string option \<Rightarrow> bool" where
  "is_storage_backed_media_asset env target =
    (let url = (case target of None \<Rightarrow> [] | Some u \<Rightarrow> u); path = py_lower (rob_path env url) in
     case robots_host env url of
       Some (c # cs) \<Rightarrow>
         path \<noteq> [] \<and> list_ex (ends_with path) known_extensions \<and>
         (under_suffix (c # cs) [''amazonaws.com'', ''blob.core.windows.net'', ''cloudfront.net'', ''azureedge.net'', ''googleusercontent.com''] \<or>
          list_ex (\<lambda>l. list_ex (contains_text l) [''s3'', ''cdn'', ''media'', ''assets'', ''static'', ''blob'']) (split_on (CHR ''.'') (c # cs)))
     | _ \<Rightarrow> False)"

record resolver_rules =
  hostile_penalty :: real
  hostile_factor :: real
  transient_penalty :: real
  transient_factor :: real
  weak_penalty :: real
  weak_factor :: real
  rate_limited_penalty :: real
  rate_limited_factor :: real

definition resolve_http_error ::
  "robots_env \<Rightarrow> resolver_rules \<Rightarrow> string list \<Rightarrow> string \<Rightarrow> int \<Rightarrow> string \<Rightarrow> real option \<Rightarrow> string option \<Rightarrow> string list option \<Rightarrow> robots_result" where
  "resolve_http_error env rules configured robots_url status error_type retry_after target allowed =
    (if status \<in> {404, 410} then allowed_absent robots_url error_type status
     else if status = 403 \<and> is_allowed_host_suffix env configured target allowed
     then unknown_result robots_url Weak_Unknown ''http_403_allowed_host_suffix_override_unknown'' error_type (weak_penalty rules)
       (weak_factor rules) (Some status) retry_after ''robots_error_resolver_override''
     else if status = 403 \<and> is_storage_backed_media_asset env target
     then unknown_result robots_url Weak_Unknown ''http_403_storage_media_unknown'' error_type (weak_penalty rules)
       (weak_factor rules) (Some status) retry_after ''robots_error_resolver_storage_media_override''
     else if status = 429
     then unknown_result robots_url Transient_Unknown (''http_'' @ dec_int status @ ''_rate_limited_unknown'') error_type
       (rate_limited_penalty rules) (rate_limited_factor rules) (Some status) retry_after ''robots_error_resolver''
     else if status \<in> {401, 403}
     then unknown_result robots_url Hostile_Unknown (''http_'' @ dec_int status @ ''_unknown'') error_type (hostile_penalty rules)
       (hostile_factor rules) (Some status) retry_after ''robots_error_resolver''
     else if status \<in> {408, 500, 502, 503, 504}
     then unknown_result robots_url Transient_Unknown (''http_'' @ dec_int status @ ''_unknown'') error_type (transient_penalty rules)
       (transient_factor rules) (Some status) retry_after ''robots_error_resolver''
     else unknown_result robots_url Weak_Unknown (''http_'' @ dec_int status @ ''_unknown'') error_type (weak_penalty rules)
       (weak_factor rules) (Some status) retry_after ''robots_error_resolver'')"

definition resolve_robots_error ::
  "robots_env \<Rightarrow> resolver_rules \<Rightarrow> string list \<Rightarrow> string \<Rightarrow> loader_error \<Rightarrow> string option \<Rightarrow> string list option \<Rightarrow> robots_result" where
  "resolve_robots_error env rules configured robots_url e target allowed =
    (let c = classify_error e; plain = (\<lambda>conf reason penalty factor.
           unknown_result robots_url conf reason (cls_error_type c) penalty factor None None ''robots_error_resolver'')
     in case cls_http_status c of
       Some status \<Rightarrow> if cls_kind c = ''http''
         then resolve_http_error env rules configured robots_url status (cls_error_type c) (cls_retry_after c) target allowed
         else plain Weak_Unknown ''loader_error_unknown'' (weak_penalty rules) (weak_factor rules)
     | None \<Rightarrow>
         if cls_kind c = ''timeout'' then plain Transient_Unknown ''loader_timeout_unknown'' (transient_penalty rules) (transient_factor rules)
         else if cls_kind c = ''url_error'' then plain Transient_Unknown ''loader_network_unknown'' (transient_penalty rules) (transient_factor rules)
         else if cls_kind c = ''client_error'' then plain Weak_Unknown ''loader_client_error_unknown'' (weak_penalty rules) (weak_factor rules)
         else plain Weak_Unknown ''loader_error_unknown'' (weak_penalty rules) (weak_factor rules))"

section \<open>The memory of hosts\<close>

record host_rules =
  rules_http_status :: "int option"
  rules_decision :: "robots_decision option"
  rules_confidence :: "robots_confidence option"
  rules_crawl_delay :: "pyfloat option"
  rules_updated :: real
  rules_success :: real
  rules_last_unknown :: real
  unknown_count :: int
  hostile_count :: int
  rules_hostility :: real
  rules_factor :: real
  rules_penalty :: real

definition new_host_rules :: host_rules where
  "new_host_rules = \<lparr>rules_http_status = None, rules_decision = None, rules_confidence = None, rules_crawl_delay = None,
     rules_updated = 0, rules_success = 0, rules_last_unknown = 0, unknown_count = 0, hostile_count = 0, rules_hostility = 0,
     rules_factor = 1, rules_penalty = 0\<rparr>"

definition max_zero :: "pyfloat \<Rightarrow> pyfloat" where
  "max_zero x = (case x of Fin r \<Rightarrow> Fin (max 0 r) | PosInf \<Rightarrow> PosInf | _ \<Rightarrow> Fin 0)"

definition note_result :: "real \<Rightarrow> robots_result \<Rightarrow> host_rules \<Rightarrow> host_rules" where
  "note_result now r s = s\<lparr>rules_http_status := res_http_status r, rules_decision := Some (res_decision r),
     rules_confidence := Some (res_confidence r), rules_updated := now,
     rules_crawl_delay := (case res_crawl_delay r of Some d \<Rightarrow> Some (max_zero d)
       | None \<Rightarrow> if res_authoritative r then None else rules_crawl_delay s),
     rules_factor := min (rules_factor s) (max (1 / 20) (res_discovery_factor r)),
     rules_penalty := max (rules_penalty s) (max 0 (res_host_penalty r))\<rparr>"

definition count_unknown :: "real \<Rightarrow> robots_result \<Rightarrow> host_rules \<Rightarrow> host_rules" where
  "count_unknown now r s = (if res_decision r = Robots_Unknown
     then s\<lparr>unknown_count := unknown_count s + 1, rules_last_unknown := now\<rparr> else s\<lparr>unknown_count := 0\<rparr>)"

definition judge_hostility :: "real \<Rightarrow> robots_result \<Rightarrow> host_rules \<Rightarrow> host_rules" where
  "judge_hostility now r s =
    (if res_confidence r = Hostile_Unknown
     then s\<lparr>hostile_count := hostile_count s + 1, rules_hostility := min 1 (rules_hostility s + 1 / 4)\<rparr>
     else if res_decision r = Robots_Allowed \<and> res_authoritative r
     then s\<lparr>hostile_count := 0, rules_hostility := max 0 (rules_hostility s - 1 / 5), rules_success := now,
       rules_factor := 1, rules_penalty := 0\<rparr>
     else s\<lparr>hostile_count := 0, rules_hostility := max 0 (rules_hostility s - 1 / 20)\<rparr>)"

type_synonym host_rules_store = "string \<rightharpoonup> host_rules"

definition record_robots :: "robots_env \<Rightarrow> real \<Rightarrow> string \<Rightarrow> robots_result \<Rightarrow> host_rules_store \<Rightarrow> host_rules_store" where
  "record_robots env now url r m = (case robots_host env url of
     None \<Rightarrow> m
   | Some h \<Rightarrow> m(h \<mapsto> judge_hostility now r (count_unknown now r (note_result now r
       (case m h of Some s \<Rightarrow> s | None \<Rightarrow> new_host_rules)))))"

definition robots_snapshot :: "robots_env \<Rightarrow> string \<Rightarrow> host_rules_store \<Rightarrow> host_rules" where
  "robots_snapshot env url m = (case robots_host env url of
     None \<Rightarrow> new_host_rules | Some h \<Rightarrow> (case m h of Some s \<Rightarrow> s | None \<Rightarrow> new_host_rules))"

section \<open>Suppression of repeated unknown results\<close>

record unknown_suppressor =
  sup_result_ttl :: real
  sup_prune_every :: int
  sup_max_entries :: int
  sup_insertions :: int
  sup_keys :: "(string \<times> real) list"

definition make_unknown_suppressor :: "real \<Rightarrow> int \<Rightarrow> int \<Rightarrow> unknown_suppressor" where
  "make_unknown_suppressor ttl prune_every max_entries =
     \<lparr>sup_result_ttl = max 0 ttl, sup_prune_every = max 1 prune_every, sup_max_entries = max 1 max_entries,
      sup_insertions = 0, sup_keys = []\<rparr>"

fun decision_text :: "robots_decision \<Rightarrow> string" where
  "decision_text Robots_Allowed = ''allowed''"
| "decision_text Robots_Disallowed = ''disallowed''"
| "decision_text Robots_Unknown = ''unknown''"

fun confidence_text :: "robots_confidence \<Rightarrow> string" where
  "confidence_text Authoritative_Allow = ''authoritative_allow''"
| "confidence_text Authoritative_Deny = ''authoritative_deny''"
| "confidence_text Authoritative_Absent = ''authoritative_absent''"
| "confidence_text Weak_Unknown = ''weak_unknown''"
| "confidence_text Transient_Unknown = ''transient_unknown''"
| "confidence_text Hostile_Unknown = ''hostile_unknown''"

definition suppression_key :: "string \<Rightarrow> robots_result \<Rightarrow> string" where
  "suppression_key h r = join_with ''|'' [h, decision_text (res_decision r), confidence_text (res_confidence r),
     (case res_http_status r of None \<Rightarrow> ''None'' | Some s \<Rightarrow> dec_int s), res_reason r, res_source r]"

definition prune_keys :: "real \<Rightarrow> unknown_suppressor \<Rightarrow> unknown_suppressor" where
  "prune_keys now s = s\<lparr>sup_keys := filter (\<lambda>(k, expires_at). \<not> expires_at \<le> now) (sup_keys s)\<rparr>"

definition enforce_key_bounds :: "real \<Rightarrow> unknown_suppressor \<Rightarrow> unknown_suppressor" where
  "enforce_key_bounds now s =
    (if int (length (sup_keys s)) \<le> sup_max_entries s then s
     else (let s = prune_keys now s in s\<lparr>sup_keys := drop (length (sup_keys s) - nat (sup_max_entries s)) (sup_keys s)\<rparr>))"

definition mark_duplicate :: "real \<Rightarrow> string \<Rightarrow> unknown_suppressor \<Rightarrow> bool \<times> unknown_suppressor" where
  "mark_duplicate now key s =
    (if now < get_default (sup_keys s) key 0 then (True, s)
     else (let s = s\<lparr>sup_keys := AList.update key (now + sup_result_ttl s) (sup_keys s), sup_insertions := sup_insertions s + 1\<rparr>;
               s = (if sup_insertions s mod sup_prune_every s = 0 then prune_keys now s else s)
           in (False, enforce_key_bounds now s)))"

definition should_suppress ::
  "robots_env \<Rightarrow> real \<Rightarrow> string \<Rightarrow> robots_result \<Rightarrow> unknown_suppressor \<Rightarrow> bool \<times> unknown_suppressor" where
  "should_suppress env now url r s =
    (if res_decision r \<noteq> Robots_Unknown then (False, s)
     else (case robots_host env url of None \<Rightarrow> (False, s) | Some h \<Rightarrow> mark_duplicate now (suppression_key h r) s))"

section \<open>Lemmas\<close>

subsection \<open>Crawl delays\<close>

definition group_ok :: "string list \<times> pyfloat option \<Rightarrow> bool" where
  "group_ok g \<longleftrightarrow> length (fst g) = 1 \<and> (case snd g of None \<Rightarrow> True | Some d \<Rightarrow> not_negative d)"

lemma delay_step_ok:
  assumes "\<forall>g\<in>set groups. group_ok g"
  shows "\<forall>g\<in>set (delay_step groups raw). group_ok g"
proof -
  obtain key v where line: "robots_line raw = (key, v)" by fastforce
  have "groups \<noteq> [] \<Longrightarrow> length (fst (last groups)) = 1" using assms last_in_set by (auto simp: group_ok_def)
  moreover have "set (butlast groups) \<subseteq> set groups" using in_set_butlastD by fast
  ultimately show ?thesis
    using assms by (auto simp: delay_step_def line group_ok_def split: option.splits)
qed

lemma delay_steps_ok: "\<forall>g\<in>set groups. group_ok g \<Longrightarrow> \<forall>g\<in>set (foldl delay_step groups ls). group_ok g"
proof (induction ls arbitrary: groups)
  case (Cons l ls)
  from Cons.IH [OF delay_step_ok [OF Cons.prems]] show ?case by simp
qed simp

lemma delay_table_ok: "(uas, d) \<in> set (extract_crawl_delay_table content) \<Longrightarrow> length uas = 1 \<and> not_negative d"
  using delay_steps_ok [of "[]" "splitlines content"]
  by (force simp: extract_crawl_delay_table_def List.map_filter_def group_ok_def)

subsection \<open>Hosts\<close>

definition host_rules_ok :: "host_rules \<Rightarrow> bool" where
  "host_rules_ok s \<longleftrightarrow> 0 \<le> rules_hostility s \<and> rules_hostility s \<le> 1 \<and> 1 / 20 \<le> rules_factor s \<and> rules_factor s \<le> 1 \<and>
     0 \<le> rules_penalty s \<and> 0 \<le> unknown_count s \<and> 0 \<le> hostile_count s"

lemma new_host_rules_ok: "host_rules_ok new_host_rules"
  by (simp add: host_rules_ok_def new_host_rules_def)

lemma record_robots_ok:
  assumes "\<forall>s\<in>ran m. host_rules_ok s"
  shows "\<forall>s\<in>ran (record_robots env now url r m). host_rules_ok s"
proof -
  have "host_rules_ok s \<Longrightarrow> host_rules_ok (judge_hostility now r (count_unknown now r (note_result now r s)))" for s
    by (auto simp: host_rules_ok_def judge_hostility_def count_unknown_def note_result_def)
  then show ?thesis
    using assms new_host_rules_ok by (auto simp: record_robots_def ran_def split: option.splits)
qed

lemma record_all_ok:
  "\<forall>s\<in>ran m. host_rules_ok s \<Longrightarrow> \<forall>s\<in>ran (foldl (\<lambda>m (now, u, r). record_robots env now u r m) m steps). host_rules_ok s"
proof (induction steps arbitrary: m)
  case (Cons x steps)
  from Cons.IH [OF record_robots_ok [OF Cons.prems]] show ?case by (simp add: case_prod_beta)
qed simp

subsection \<open>Repeated results\<close>

definition suppressor_ok :: "unknown_suppressor \<Rightarrow> bool" where
  "suppressor_ok s \<longleftrightarrow> 0 \<le> sup_result_ttl s \<and> 1 \<le> sup_max_entries s \<and> 1 \<le> sup_prune_every s \<and>
     distinct (map fst (sup_keys s)) \<and> int (length (sup_keys s)) \<le> sup_max_entries s"

lemma prune_keys_fields [simp]:
  "sup_result_ttl (prune_keys now s) = sup_result_ttl s" "sup_max_entries (prune_keys now s) = sup_max_entries s"
  "sup_prune_every (prune_keys now s) = sup_prune_every s"
  by (simp_all add: prune_keys_def)

lemma prune_keys_shape:
  "distinct (map fst (sup_keys s)) \<Longrightarrow> distinct (map fst (sup_keys (prune_keys now s)))"
  "length (sup_keys (prune_keys now s)) \<le> length (sup_keys s)"
  by (simp_all add: prune_keys_def distinct_map_filter)

lemma enforce_key_bounds_ok:
  assumes "distinct (map fst (sup_keys s))" "1 \<le> sup_max_entries s" "0 \<le> sup_result_ttl s" "1 \<le> sup_prune_every s"
  shows "suppressor_ok (enforce_key_bounds now s)"
  using assms prune_keys_shape(1) [OF assms(1), of now]
  by (auto simp: suppressor_ok_def enforce_key_bounds_def Let_def drop_map [symmetric] intro: distinct_drop)

text \<open>A key that is marked stays: bounds drop only older keys.\<close>

lemma prune_keys_lookup:
  "distinct (map fst (sup_keys s)) \<Longrightarrow>
   map_of (sup_keys (prune_keys now s)) k = (case map_of (sup_keys s) k of Some e \<Rightarrow> if \<not> e \<le> now then Some e else None | None \<Rightarrow> None)"
  by (simp add: prune_keys_def map_of_filter_snd)

lemma enforce_keeps_new:
  assumes "distinct (map fst (sup_keys s))" "1 \<le> sup_max_entries s" "map_of (sup_keys s) k = Some e" "now < e"
    and "int (length (sup_keys s)) \<le> sup_max_entries s \<or> fst (last (sup_keys s)) = k"
  shows "map_of (sup_keys (enforce_key_bounds now s)) k = Some e"
proof (cases "int (length (sup_keys s)) \<le> sup_max_entries s")
  case False
  let ?p = "filter (\<lambda>(k, expires_at). \<not> expires_at \<le> now) (sup_keys s)"
  have ne: "sup_keys s \<noteq> []" using assms(3) by auto
  then have l: "last (sup_keys s) = (k, e)"
    using assms(1,3,5) False last_in_set [OF ne] by (metis map_of_is_SomeI option.inject prod.collapse)
  then have p: "?p = filter (\<lambda>(k, expires_at). \<not> expires_at \<le> now) (butlast (sup_keys s)) @ [(k, e)]"
    using ne assms(4) by (subst append_butlast_last_id [OF ne, symmetric], subst filter_append) simp
  let ?n = "length ?p - nat (sup_max_entries s)"
  have "?n \<le> length (filter (\<lambda>(k, expires_at). \<not> expires_at \<le> now) (butlast (sup_keys s)))"
    using assms(2) unfolding p by simp
  then have "(k, e) \<in> set (drop ?n ?p)" unfolding p by simp
  moreover have "distinct (map fst (drop ?n ?p))" using assms(1) by (simp add: drop_map [symmetric] distinct_drop distinct_map_filter)
  ultimately show ?thesis using False by (simp add: enforce_key_bounds_def Let_def prune_keys_def)
qed (use assms in \<open>simp add: enforce_key_bounds_def\<close>)

lemma update_length: "k \<in> fst ` set m \<Longrightarrow> length (AList.update k v m) = length m"
  by (induction m) auto

lemma last_update: "k \<notin> fst ` set m \<Longrightarrow> AList.update k v m = m @ [(k, v)]"
  by (induction m) auto

lemma last_filter: "xs \<noteq> [] \<Longrightarrow> P (last xs) \<Longrightarrow> last (filter P xs) = last xs"
  by (induction xs) (auto simp: filter_empty_conv)

lemma mark_duplicate_effect:
  assumes ok: "suppressor_ok s" and fresh: "\<not> now < get_default (sup_keys s) key 0"
  shows "suppressor_ok (snd (mark_duplicate now key s)) \<and> fst (mark_duplicate now key s) = False \<and>
    sup_result_ttl (snd (mark_duplicate now key s)) = sup_result_ttl s \<and>
    (0 < sup_result_ttl s \<longrightarrow> map_of (sup_keys (snd (mark_duplicate now key s))) key = Some (now + sup_result_ttl s))"
proof -
  define a where "a = s\<lparr>sup_keys := AList.update key (now + sup_result_ttl s) (sup_keys s), sup_insertions := sup_insertions s + 1\<rparr>"
  define b where "b = (if sup_insertions a mod sup_prune_every a = 0 then prune_keys now a else a)"
  have run: "mark_duplicate now key s = (False, enforce_key_bounds now b)"
    using fresh by (simp add: mark_duplicate_def Let_def a_def b_def)
  have da: "distinct (map fst (sup_keys a))" using ok by (simp add: a_def suppressor_ok_def distinct_update)
  have b: "distinct (map fst (sup_keys b))" "1 \<le> sup_max_entries b" "0 \<le> sup_result_ttl b" "1 \<le> sup_prune_every b"
      "sup_result_ttl b = sup_result_ttl s" "sup_max_entries b = sup_max_entries s"
    using ok prune_keys_shape(1) [OF da, of now] da by (simp_all add: b_def a_def suppressor_ok_def)
  have "map_of (sup_keys (enforce_key_bounds now b)) key = Some (now + sup_result_ttl s)" if ttl: "0 < sup_result_ttl s"
  proof (rule enforce_keeps_new [OF b(1,2)])
    have la: "map_of (sup_keys a) key = Some (now + sup_result_ttl s)" by (simp add: a_def update_conv')
    then show "map_of (sup_keys b) key = Some (now + sup_result_ttl s)" using ttl prune_keys_lookup [OF da, of now key] by (simp add: b_def)
    show "now < now + sup_result_ttl s" using ttl by simp
    show "int (length (sup_keys b)) \<le> sup_max_entries b \<or> fst (last (sup_keys b)) = key"
    proof (cases "key \<in> fst ` set (sup_keys s)")
      case True
      then have "length (sup_keys a) = length (sup_keys s)" by (simp add: a_def update_length)
      then have "length (sup_keys b) \<le> length (sup_keys s)" using prune_keys_shape(2) [of now a] by (simp add: b_def)
      then show ?thesis using ok b(6) by (simp add: suppressor_ok_def)
    next
      case False
      then have "sup_keys a = sup_keys s @ [(key, now + sup_result_ttl s)]" by (simp add: a_def last_update)
      then show ?thesis
        using ttl last_filter [of "sup_keys a" "\<lambda>(k, expires_at). \<not> expires_at \<le> now"] by (simp add: b_def prune_keys_def)
    qed
  qed
  moreover have "sup_result_ttl (enforce_key_bounds now b) = sup_result_ttl s"
    using b(5) by (simp add: enforce_key_bounds_def Let_def)
  ultimately show ?thesis using enforce_key_bounds_ok [OF b(1,2,3,4), of now] by (simp add: run)
qed

section \<open>Properties\<close>

text \<open>The memory of hosts stays in bounds whatever results are recorded in whatever order: hostility
  between 0 and 1, the discovery factor between a twentieth and 1, penalty and counters
  not negative. An authoritative permission restores the discovery factor and the penalty of its host.\<close>

theorem host_memory_in_bounds:
  "host_rules_ok (robots_snapshot env url (foldl (\<lambda>m (now, u, r). record_robots env now u r m) Map.empty steps)) \<and>
   (robots_host env url \<noteq> None \<and> res_decision r = Robots_Allowed \<and> res_authoritative r \<and> res_confidence r \<noteq> Hostile_Unknown \<longrightarrow>
     rules_factor (robots_snapshot env url (record_robots env now url r m)) = 1 \<and>
     rules_penalty (robots_snapshot env url (record_robots env now url r m)) = 0)"
proof -
  have "\<forall>s\<in>ran (foldl (\<lambda>m (now, u, r). record_robots env now u r m) Map.empty steps). host_rules_ok s"
    by (rule record_all_ok) simp
  then show ?thesis
    using new_host_rules_ok
    by (auto simp: robots_snapshot_def record_robots_def judge_hostility_def ran_def split: option.splits)
qed


definition forbidding_document :: robots_document where
  "forbidding_document = \<lparr>doc_can_fetch = (\<lambda>_ _. False), doc_delay_table = [([''*''], Fin 120)], doc_site_maps = []\<rparr>"


text \<open>An unknown result is reported once per period: what was just reported is suppressed until the
  period ends and reported again from then on, however full the memory was, which stays
  within its bound.\<close>

theorem unknown_reported_once_per_period:
  assumes "suppressor_ok s" and "mark_duplicate now key s = (False, s')" and "0 < sup_result_ttl s"
  shows "suppressor_ok s' \<and> (fst (mark_duplicate t key s') \<longleftrightarrow> t < now + sup_result_ttl s)"
proof -
  have "\<not> now < get_default (sup_keys s) key 0" using assms(2) by (auto simp: mark_duplicate_def)
  from mark_duplicate_effect [OF assms(1) this] show ?thesis
    using assms(2,3) by (simp add: mark_duplicate_def get_default_def Let_def)
qed

theorem unknown_reported_once_per_period_witness:
  "fst (mark_duplicate 12 ''k'' (snd (mark_duplicate 10 ''k'' (make_unknown_suppressor 5 100 1)))) \<and>
   \<not> fst (mark_duplicate 15 ''k'' (snd (mark_duplicate 10 ''k'' (make_unknown_suppressor 5 100 1))))"
proof -
  let ?s = "make_unknown_suppressor 5 100 1"
  have ok: "suppressor_ok ?s" by (simp add: suppressor_ok_def make_unknown_suppressor_def)
  have run: "mark_duplicate 10 ''k'' ?s = (False, snd (mark_duplicate 10 ''k'' ?s))"
    by (simp add: mark_duplicate_def make_unknown_suppressor_def get_default_def Let_def)
  have "0 < sup_result_ttl ?s" "sup_result_ttl ?s = 5" by (simp_all add: make_unknown_suppressor_def)
  then show ?thesis
    using unknown_reported_once_per_period [OF ok run, of 12] unknown_reported_once_per_period [OF ok run, of 15] by simp
qed

end
