(* ===== verification/Robots_Cache.thy ===== *)
theory Robots_Cache imports
  Robots_Rules
  Request_Runner
begin

text \<open>
  The cache of parsed robots documents, \<open>crawler/governance/robots/robots_parser_cache.py\<close>:
  fresh, stale and failed entries under one canonical key, and loads that are shared by all
  callers of a key. Calls and loads interleave at the \<open>await\<close> points, so the cache is a relation
  of steps; a step takes the readings of the clock it makes, \<open>t n\<close> for the \<open>n\<close>-th.
\<close>

section \<open>Keys\<close>

text \<open>\<open>urlunsplit\<close> of a scheme, an authority and an absolute path.\<close>

definition unsplit_url :: "string \<Rightarrow> string \<Rightarrow> string \<Rightarrow> string" where
  "unsplit_url scheme netloc path =
    (let p = (if netloc \<noteq> [] then ''//'' @ netloc @ (if path \<noteq> [] \<and> hd path \<noteq> CHR ''/'' then CHR ''/'' # path else path) else path)
     in if scheme \<noteq> [] then scheme @ '':'' @ p else p)"

definition canonical_port :: "string \<Rightarrow> int option \<Rightarrow> int option" where
  "canonical_port scheme port =
    (if scheme = ''http'' \<and> port = Some 80 \<or> scheme = ''https'' \<and> port = Some 443 then None else port)"

definition render_netloc :: "string \<Rightarrow> int option \<Rightarrow> string" where
  "render_netloc h port = (let r = (if CHR '':'' \<in> set h then ''['' @ h @ '']'' else h)
     in case port of None \<Rightarrow> r | Some p \<Rightarrow> r @ '':'' @ dec_int p)"

definition canonical_netloc :: "(host \<Rightarrow> host) \<Rightarrow> host \<Rightarrow> int option \<Rightarrow> request_error + string" where
  "canonical_netloc nrm h port = (case require_host nrm h of Inl e \<Rightarrow> Inl e | Inr k \<Rightarrow> Inr (render_netloc k port))"

definition url_authority :: "robots_env \<Rightarrow> string \<Rightarrow> request_error + string \<times> string" where
  "url_authority env url = (case rob_urlparse env url of None \<Rightarrow> Inl Value_Raised | Some u \<Rightarrow>
     (let scheme = py_lower (view_scheme u) in
      case view_port u of None \<Rightarrow> Inl Value_Raised | Some port \<Rightarrow>
      (case view_hostname u of None \<Rightarrow> Inl Value_Raised | Some h \<Rightarrow>
        (case canonical_netloc (rob_nrm env) h (canonical_port scheme port) of Inl e \<Rightarrow> Inl e | Inr n \<Rightarrow> Inr (scheme, n)))))"

definition robots_cache_key :: "robots_env \<Rightarrow> string \<Rightarrow> request_error + string" where
  "robots_cache_key env url = (case url_authority env url of Inl e \<Rightarrow> Inl e
     | Inr (scheme, netloc) \<Rightarrow> Inr (unsplit_url scheme netloc (if rob_path env url = [] then ''/'' else rob_path env url)))"

definition robots_path_of :: "string \<Rightarrow> string" where
  "robots_path_of p = (if starts_with p ''/'' then p else CHR ''/'' # p)"

definition build_robots_url :: "robots_env \<Rightarrow> string \<Rightarrow> string \<Rightarrow> request_error + string" where
  "build_robots_url env path url = (case url_authority env url of Inl e \<Rightarrow> Inl e
     | Inr (scheme, netloc) \<Rightarrow> Inr (unsplit_url scheme netloc (robots_path_of path)))"

section \<open>The cache\<close>

record fetch_meta =
  meta_final_url :: string
  meta_status :: int

record cached_document =
  entry_expires :: real
  entry_stale_until :: real
  entry_document :: robots_document
  entry_meta :: "fetch_meta option"

datatype load_failure = Loader_Failed loader_error | Load_Raised string

record robots_cache =
  rc_ttl :: real
  rc_error_ttl :: real
  rc_stale_ttl :: real
  rc_good :: "string \<rightharpoonup> cached_document"
  rc_bad :: "string \<rightharpoonup> real \<times> load_failure"
  rc_inflight :: "string \<rightharpoonup> nat"
  rc_closed :: bool

definition make_robots_cache :: "real \<Rightarrow> real \<Rightarrow> real option \<Rightarrow> robots_cache" where
  "make_robots_cache ttl error_ttl stale_ttl =
     \<lparr>rc_ttl = ttl, rc_error_ttl = error_ttl, rc_stale_ttl = (case stale_ttl of Some s \<Rightarrow> max 0 s | None \<Rightarrow> 0),
      rc_good = Map.empty, rc_bad = Map.empty, rc_inflight = Map.empty, rc_closed = False\<rparr>"

definition cached_parser :: "real \<Rightarrow> string \<Rightarrow> robots_cache \<Rightarrow> robots_document option \<times> robots_cache" where
  "cached_parser now key c = (case rc_good c key of
     None \<Rightarrow> (None, c)
   | Some e \<Rightarrow>
       if entry_expires e \<le> now \<and> entry_stale_until e \<le> now then (None, c\<lparr>rc_good := (rc_good c)(key := None)\<rparr>)
       else if entry_expires e \<le> now then (None, c)
       else (Some (entry_document e), c))"

definition cached_error :: "real \<Rightarrow> string \<Rightarrow> robots_cache \<Rightarrow> load_failure option \<times> robots_cache" where
  "cached_error now key c = (case rc_bad c key of
     None \<Rightarrow> (None, c)
   | Some (until, e) \<Rightarrow> if until \<le> now then (None, c\<lparr>rc_bad := (rc_bad c)(key := None)\<rparr>) else (Some e, c))"

definition stale_parser :: "real \<Rightarrow> string \<Rightarrow> robots_cache \<Rightarrow> robots_document option" where
  "stale_parser now key c = (case rc_good c key of
     None \<Rightarrow> None
   | Some e \<Rightarrow> if entry_expires e \<le> now \<and> now < entry_stale_until e then Some (entry_document e) else None)"

datatype cache_answer = Serve robots_document | Raise load_failure | Miss

definition cached_resolution :: "(nat \<Rightarrow> real) \<Rightarrow> string \<Rightarrow> robots_cache \<Rightarrow> cache_answer \<times> robots_cache" where
  "cached_resolution t key c = (case cached_parser (t 0) key c of
     (Some d, c) \<Rightarrow> (Serve d, c)
   | (None, c) \<Rightarrow> (case cached_error (t 1) key c of
       (Some e, c) \<Rightarrow> (case stale_parser (t 2) key c of Some d \<Rightarrow> (Serve d, c) | None \<Rightarrow> (Raise e, c))
     | (None, c) \<Rightarrow> (Miss, c)))"

definition last_fetch_result :: "string \<Rightarrow> robots_cache \<Rightarrow> fetch_meta option" where
  "last_fetch_result key c = (case rc_good c key of None \<Rightarrow> None | Some e \<Rightarrow> entry_meta e)"

definition cache_error :: "real \<Rightarrow> string \<Rightarrow> load_failure \<Rightarrow> robots_cache \<Rightarrow> robots_cache" where
  "cache_error now key e c = c\<lparr>rc_bad := (rc_bad c)(key \<mapsto> (now + rc_error_ttl c, e))\<rparr>"

definition load_and_cache ::
  "(nat \<Rightarrow> real) \<Rightarrow> string \<Rightarrow> load_failure + robots_document \<times> fetch_meta option \<Rightarrow> robots_cache \<Rightarrow>
   (load_failure + robots_document) \<times> robots_cache" where
  "load_and_cache t key outcome c = (case outcome of
     Inl e \<Rightarrow>
      (case e of
         Loader_Failed (Fetch_Deferred reason retry_after) \<Rightarrow> (Inl e, c)
       | Load_Raised _ \<Rightarrow> (Inl e, cache_error (t 0) key e c)
       | Loader_Failed _ \<Rightarrow>
          (let c = cache_error (t 0) key e c in case stale_parser (t 1) key c of Some d \<Rightarrow> (Inr d, c) | None \<Rightarrow> (Inl e, c)))
   | Inr (doc, meta) \<Rightarrow>
      (Inr doc, c\<lparr>rc_good := (rc_good c)(key \<mapsto> \<lparr>entry_expires = t 0 + rc_ttl c,
         entry_stale_until = t 0 + rc_ttl c + rc_stale_ttl c, entry_document = doc, entry_meta = meta\<rparr>)\<rparr>))"

definition finalize_inflight :: "string \<Rightarrow> nat \<Rightarrow> robots_cache \<Rightarrow> robots_cache" where
  "finalize_inflight key i c = (if rc_inflight c key = Some i then c\<lparr>rc_inflight := (rc_inflight c)(key := None)\<rparr> else c)"

section \<open>Callers and loads\<close>

datatype get_answer = Cache_Closed | Answered cache_answer | Awaiting nat

text \<open>\<open>get\<close> before its first \<open>await\<close>.\<close>

definition get_unlocked :: "(nat \<Rightarrow> real) \<Rightarrow> string \<Rightarrow> robots_cache \<Rightarrow> get_answer \<times> robots_cache" where
  "get_unlocked t key c = (if rc_closed c then (Cache_Closed, c)
     else (case cached_resolution t key c of (a, c) \<Rightarrow> (Answered a, c)))"

text \<open>\<open>get\<close> under the lock, after a miss: \<open>i\<close> is the load it would start.\<close>

definition get_locked :: "(nat \<Rightarrow> real) \<Rightarrow> string \<Rightarrow> nat \<Rightarrow> robots_cache \<Rightarrow> get_answer \<times> robots_cache" where
  "get_locked t key i c = (if rc_closed c then (Cache_Closed, c)
     else (case cached_resolution t key c of
         (Miss, c) \<Rightarrow> (case rc_inflight c key of
             Some j \<Rightarrow> (Awaiting j, c) | None \<Rightarrow> (Awaiting i, c\<lparr>rc_inflight := (rc_inflight c)(key \<mapsto> i)\<rparr>))
       | (a, c) \<Rightarrow> (Answered a, c)))"

definition close_cache :: "robots_cache \<Rightarrow> robots_cache" where
  "close_cache c = c\<lparr>rc_closed := True, rc_good := Map.empty, rc_bad := Map.empty\<rparr>"

text \<open>The loads that are running, the number of the next one, and what has been loaded and has failed so far.\<close>

record cache_world =
  cw_cache :: robots_cache
  cw_running :: "nat \<rightharpoonup> string"
  cw_next :: nat
  cw_loaded :: "(string \<times> real \<times> robots_document) set"
  cw_failed :: "(string \<times> real) set"

datatype cache_event =
  Got string "nat \<Rightarrow> real" get_answer
| Loaded string "nat \<Rightarrow> real" "load_failure + robots_document"
| Silent

definition clock_ok :: "(nat \<Rightarrow> real) \<Rightarrow> bool" where
  "clock_ok t \<longleftrightarrow> t 0 \<le> t 1 \<and> t 1 \<le> t 2"

definition note_outcome ::
  "real \<Rightarrow> string \<Rightarrow> load_failure + robots_document \<times> fetch_meta option \<Rightarrow> cache_world \<Rightarrow> cache_world" where
  "note_outcome now key outcome w = (case outcome of
     Inr (d, _) \<Rightarrow> w\<lparr>cw_loaded := insert (key, now, d) (cw_loaded w)\<rparr>
   | Inl (Loader_Failed (Fetch_Deferred _ _)) \<Rightarrow> w
   | Inl _ \<Rightarrow> w\<lparr>cw_failed := insert (key, now) (cw_failed w)\<rparr>)"

inductive cache_step :: "cache_world \<Rightarrow> cache_event \<Rightarrow> cache_world \<Rightarrow> bool" where
  step_try: "clock_ok t \<Longrightarrow> get_unlocked t key (cw_cache w) = (a, c) \<Longrightarrow> cache_step w (Got key t a) (w\<lparr>cw_cache := c\<rparr>)"
| step_join: "clock_ok t \<Longrightarrow> get_locked t key (cw_next w) (cw_cache w) = (a, c) \<Longrightarrow> a \<noteq> Awaiting (cw_next w) \<Longrightarrow>
    cache_step w (Got key t a) (w\<lparr>cw_cache := c\<rparr>)"
| step_start: "clock_ok t \<Longrightarrow> get_locked t key (cw_next w) (cw_cache w) = (Awaiting (cw_next w), c) \<Longrightarrow>
    cache_step w (Got key t (Awaiting (cw_next w)))
      (w\<lparr>cw_cache := c, cw_running := (cw_running w)(cw_next w \<mapsto> key), cw_next := Suc (cw_next w)\<rparr>)"
| step_load: "clock_ok t \<Longrightarrow> cw_running w i = Some key \<Longrightarrow> load_and_cache t key outcome (cw_cache w) = (r, c) \<Longrightarrow>
    cache_step w (Loaded key t r)
      (note_outcome (t 0) key outcome (w\<lparr>cw_cache := c, cw_running := (cw_running w)(i := None)\<rparr>))"
| step_finalize: "cw_running w i = None \<Longrightarrow> i < cw_next w \<Longrightarrow>
    cache_step w Silent (w\<lparr>cw_cache := finalize_inflight key i (cw_cache w)\<rparr>)"
| step_cancel: "rc_closed (cw_cache w) \<Longrightarrow> cache_step w Silent (w\<lparr>cw_running := (cw_running w)(i := None)\<rparr>)"
| step_close: "cache_step w Silent (w\<lparr>cw_cache := close_cache (cw_cache w)\<rparr>)"

definition new_cache_world :: "robots_cache \<Rightarrow> cache_world" where
  "new_cache_world c = \<lparr>cw_cache = c, cw_running = Map.empty, cw_next = 0, cw_loaded = {}, cw_failed = {}\<rparr>"

inductive cache_run :: "robots_cache \<Rightarrow> cache_world \<Rightarrow> bool" for c where
  run_new: "cache_run c (new_cache_world c)"
| run_step: "cache_run c w \<Longrightarrow> cache_step w ev w' \<Longrightarrow> cache_run c w'"

inductive_cases cache_stepE: "cache_step w ev w'"

section \<open>Lemmas\<close>

declare One_nat_def [simp del]

definition is_deferral :: "load_failure \<Rightarrow> bool" where
  "is_deferral e \<longleftrightarrow> (\<exists>reason retry_after. e = Loader_Failed (Fetch_Deferred reason retry_after))"

definition good_ok :: "robots_cache \<Rightarrow> (string \<times> real \<times> robots_document) set \<Rightarrow> bool" where
  "good_ok c loaded \<longleftrightarrow> (\<forall>key e. rc_good c key = Some e \<longrightarrow>
     (\<exists>t0. (key, t0, entry_document e) \<in> loaded \<and> entry_expires e = t0 + rc_ttl c \<and>
       entry_stale_until e = t0 + rc_ttl c + rc_stale_ttl c))"

definition bad_ok :: "robots_cache \<Rightarrow> (string \<times> real) set \<Rightarrow> bool" where
  "bad_ok c failed \<longleftrightarrow> (\<forall>key until e. rc_bad c key = Some (until, e) \<longrightarrow>
     \<not> is_deferral e \<and> (\<exists>t1. (key, t1) \<in> failed \<and> until = t1 + rc_error_ttl c))"

definition flight_ok :: "robots_cache \<Rightarrow> (nat \<rightharpoonup> string) \<Rightarrow> nat \<Rightarrow> bool" where
  "flight_ok c running n \<longleftrightarrow> (\<forall>i key. running i = Some key \<longrightarrow> rc_inflight c key = Some i) \<and>
     (\<forall>key i. rc_inflight c key = Some i \<longrightarrow> i < n)"

definition same_settings :: "robots_cache \<Rightarrow> robots_cache \<Rightarrow> bool" where
  "same_settings c c' \<longleftrightarrow> rc_ttl c' = rc_ttl c \<and> rc_error_ttl c' = rc_error_ttl c \<and> rc_stale_ttl c' = rc_stale_ttl c"

text \<open>A look-up only forgets entries.\<close>

definition forgets :: "robots_cache \<Rightarrow> robots_cache \<Rightarrow> bool" where
  "forgets c c' \<longleftrightarrow> same_settings c c' \<and> rc_inflight c' = rc_inflight c \<and> rc_closed c' = rc_closed c \<and>
     rc_good c' \<subseteq>\<^sub>m rc_good c \<and> rc_bad c' \<subseteq>\<^sub>m rc_bad c"

lemma forgets_refl [simp]: "forgets c c"
  by (simp add: forgets_def same_settings_def)

lemma forgets_trans: "forgets a b \<Longrightarrow> forgets b c \<Longrightarrow> forgets a c"
  by (auto simp: forgets_def same_settings_def intro: map_le_trans)

lemma map_le_drop: "m(k := None) \<subseteq>\<^sub>m m"
  by (simp add: map_le_def)

lemma cached_parser_forgets: "cached_parser now key c = (d, c') \<Longrightarrow> forgets c c'"
  by (auto simp: cached_parser_def forgets_def same_settings_def map_le_drop split: option.splits if_splits)

lemma cached_error_forgets: "cached_error now key c = (e, c') \<Longrightarrow> forgets c c'"
  by (auto simp: cached_error_def forgets_def same_settings_def map_le_drop split: option.splits if_splits)

lemma cached_resolution_forgets:
  assumes "cached_resolution t key c = (a, c')"
  shows "forgets c c'"
proof -
  obtain d c1 where 1: "cached_parser (t 0) key c = (d, c1)" by fastforce
  obtain e c2 where 2: "cached_error (t 1) key c1 = (e, c2)" by fastforce
  have "c' = c1 \<or> c' = c2" using assms by (auto simp: cached_resolution_def 1 2 split: option.splits)
  then show ?thesis
    using cached_parser_forgets [OF 1] cached_error_forgets [OF 2] forgets_trans by blast
qed

lemma map_leD: "m \<subseteq>\<^sub>m m' \<Longrightarrow> m k = Some v \<Longrightarrow> m' k = Some v"
  by (metis domI map_le_def)

lemma forgets_ok:
  assumes "forgets c c'"
  shows "good_ok c loaded \<Longrightarrow> good_ok c' loaded" "bad_ok c failed \<Longrightarrow> bad_ok c' failed" "flight_ok c running n \<Longrightarrow> flight_ok c' running n"
proof -
  have le: "rc_good c' \<subseteq>\<^sub>m rc_good c" "rc_bad c' \<subseteq>\<^sub>m rc_bad c"
    and s: "rc_ttl c' = rc_ttl c" "rc_error_ttl c' = rc_error_ttl c" "rc_stale_ttl c' = rc_stale_ttl c" "rc_inflight c' = rc_inflight c"
    using assms by (simp_all add: forgets_def same_settings_def)
  note g = map_leD [OF le(1)] map_leD [OF le(2)]
  show "good_ok c loaded \<Longrightarrow> good_ok c' loaded" unfolding good_ok_def s using g(1) by blast
  show "bad_ok c failed \<Longrightarrow> bad_ok c' failed" unfolding bad_ok_def s using g(2) by blast
  show "flight_ok c running n \<Longrightarrow> flight_ok c' running n" unfolding flight_ok_def s .
qed

text \<open>What a look-up serves is fresh, or stale while a reload has failed recently.\<close>

definition serves_ok :: "robots_cache \<Rightarrow> (string \<times> real \<times> robots_document) set \<Rightarrow> (string \<times> real) set \<Rightarrow> string \<Rightarrow> (nat \<Rightarrow> real) \<Rightarrow> robots_document \<Rightarrow> bool" where
  "serves_ok c loaded failed key t d \<longleftrightarrow> (\<exists>t0. (key, t0, d) \<in> loaded \<and>
     (t 0 < t0 + rc_ttl c \<or>
      t0 + rc_ttl c \<le> t 2 \<and> t 2 < t0 + rc_ttl c + rc_stale_ttl c \<and>
        (\<exists>t1. (key, t1) \<in> failed \<and> t 1 < t1 + rc_error_ttl c)))"

lemma cached_parser_serves:
  "cached_parser now key c = (Some d, c') \<Longrightarrow> \<exists>e. rc_good c key = Some e \<and> d = entry_document e \<and> now < entry_expires e"
  by (auto simp: cached_parser_def not_le split: option.splits if_splits)

lemma cached_error_serves:
  "cached_error now key c = (Some e, c') \<Longrightarrow> \<exists>until. rc_bad c key = Some (until, e) \<and> now < until"
  by (auto simp: cached_error_def not_le split: option.splits if_splits)

lemma cached_resolution_answers:
  assumes run: "cached_resolution t key c = (a, c')" and good: "good_ok c loaded" and bad: "bad_ok c failed"
  shows "(\<forall>d. a = Serve d \<longrightarrow> serves_ok c loaded failed key t d) \<and>
    (\<forall>e. a = Raise e \<longrightarrow> \<not> is_deferral e \<and> (\<exists>t1. (key, t1) \<in> failed \<and> t 1 < t1 + rc_error_ttl c))"
proof -
  obtain d1 c1 where 1: "cached_parser (t 0) key c = (d1, c1)" by fastforce
  obtain e2 c2 where 2: "cached_error (t 1) key c1 = (e2, c2)" by fastforce
  note f1 = cached_parser_forgets [OF 1] and f2 = cached_error_forgets [OF 2]
  have set1: "same_settings c c1" "same_settings c c2" using f1 forgets_trans [OF f1 f2] by (simp_all add: forgets_def)
  show ?thesis
  proof (cases d1)
    case (Some d)
    then have a: "a = Serve d" using run by (simp add: cached_resolution_def 1)
    have p: "cached_parser (t 0) key c = (Some d, c1)" using 1 Some by simp
    obtain e where "rc_good c key = Some e" "d = entry_document e" "t 0 < entry_expires e"
      using cached_parser_serves [OF p] by blast
    then have "serves_ok c loaded failed key t d" using good unfolding serves_ok_def good_ok_def by fastforce
    then show ?thesis using a by simp
  next
    case None
    show ?thesis
    proof (cases e2)
      case (Some e)
      have p: "cached_error (t 1) key c1 = (Some e, c2)" using 2 Some by simp
      obtain until where u: "rc_bad c1 key = Some (until, e)" "t 1 < until" using cached_error_serves [OF p] by blast
      then have failed: "\<not> is_deferral e \<and> (\<exists>t1. (key, t1) \<in> failed \<and> t 1 < t1 + rc_error_ttl c)"
        using forgets_ok(2) [OF f1 bad] set1 by (fastforce simp: bad_ok_def same_settings_def)
      have a: "a = (case stale_parser (t 2) key c2 of Some d \<Rightarrow> Serve d | None \<Rightarrow> Raise e)"
        using run None Some by (auto simp: cached_resolution_def 1 2 split: option.splits)
      have good2: "good_ok c2 loaded" using forgets_ok(1) [OF f2 forgets_ok(1) [OF f1 good]] .
      show ?thesis
      proof (cases "stale_parser (t 2) key c2")
        case (Some d)
        then obtain en where "rc_good c2 key = Some en" "entry_expires en \<le> t 2" "t 2 < entry_stale_until en" "d = entry_document en"
          by (auto simp: stale_parser_def split: option.splits if_splits)
        then have "serves_ok c loaded failed key t d"
          using good2 failed set1 unfolding serves_ok_def good_ok_def same_settings_def by fastforce
        then show ?thesis using a Some by simp
      qed (use a failed in simp)
    qed (use run None in \<open>simp add: cached_resolution_def 1 2\<close>)
  qed
qed

subsection \<open>Steps\<close>

definition cache_inv :: "robots_cache \<Rightarrow> cache_world \<Rightarrow> bool" where
  "cache_inv c0 w \<longleftrightarrow> same_settings c0 (cw_cache w) \<and> good_ok (cw_cache w) (cw_loaded w) \<and> bad_ok (cw_cache w) (cw_failed w) \<and>
     flight_ok (cw_cache w) (cw_running w) (cw_next w)"

lemma same_settings_trans: "same_settings a b \<Longrightarrow> same_settings b c \<Longrightarrow> same_settings a c"
  by (simp add: same_settings_def)

lemma cache_inv_forgets:
  "cache_inv c0 w \<Longrightarrow> forgets (cw_cache w) c \<Longrightarrow> cache_inv c0 (w\<lparr>cw_cache := c\<rparr>)"
  using forgets_ok same_settings_trans by (simp add: cache_inv_def forgets_def) blast

lemma get_locked_effect:
  assumes "get_locked t key i c = (a, c')"
  obtains c1 where "forgets c c1" "c' = c1" "a = Awaiting i \<longrightarrow> rc_inflight c key = Some i"
  | c1 where "forgets c c1" "c' = c1\<lparr>rc_inflight := (rc_inflight c1)(key \<mapsto> i)\<rparr>" "a = Awaiting i" "rc_inflight c1 key = None" "\<not> rc_closed c"
proof (cases "rc_closed c")
  case True
  then have "c' = c" "a = Cache_Closed" using assms by (simp_all add: get_locked_def)
  then show ?thesis by (intro that(1) [OF forgets_refl]) simp_all
next
  case False
  obtain x c1 where res: "cached_resolution t key c = (x, c1)" by fastforce
  note f = cached_resolution_forgets [OF res]
  show ?thesis
  proof (cases "x = Miss \<and> rc_inflight c1 key = None")
    case True
    then have "c' = c1\<lparr>rc_inflight := (rc_inflight c1)(key \<mapsto> i)\<rparr>" "a = Awaiting i"
      using assms False by (simp_all add: get_locked_def res)
    then show ?thesis using True False by (intro that(2) [OF f]) simp_all
  next
    case False
    have "rc_inflight c1 = rc_inflight c" using f by (simp add: forgets_def)
    then have "c' = c1 \<and> (a = Awaiting i \<longrightarrow> rc_inflight c key = Some i)"
      using assms False \<open>\<not> rc_closed c\<close> by (cases x) (auto simp: get_locked_def res split: option.splits)
    then show ?thesis by (intro that(1) [OF f]) simp_all
  qed
qed

lemma load_failed:
  "load_and_cache t key (Inl e) c = (r, c') \<Longrightarrow> c' = (if is_deferral e then c else cache_error (t 0) key e c)"
proof (cases e)
  case (Loader_Failed l)
  assume "load_and_cache t key (Inl e) c = (r, c')"
  then show ?thesis
    by (cases l; cases "stale_parser (t 1) key (cache_error (t 0) key e c)")
      (simp_all add: Loader_Failed load_and_cache_def is_deferral_def Let_def)
qed (simp add: load_and_cache_def is_deferral_def)

lemma note_failed: "note_outcome now key (Inl e) w = (if is_deferral e then w else w\<lparr>cw_failed := insert (key, now) (cw_failed w)\<rparr>)"
proof (cases e)
  case (Loader_Failed l)
  then show ?thesis by (cases l) (simp_all add: note_outcome_def is_deferral_def)
qed (simp add: note_outcome_def is_deferral_def)

lemma load_settings: "load_and_cache t key outcome c = (r, c') \<Longrightarrow> same_settings c c' \<and> rc_inflight c' = rc_inflight c"
proof (cases outcome)
  case (Inl e)
  assume "load_and_cache t key outcome c = (r, c')"
  from load_failed [OF this [unfolded Inl]] show ?thesis by (simp add: cache_error_def same_settings_def)
qed (auto simp: load_and_cache_def same_settings_def)

text \<open>A load notes its outcome under its key.\<close>

lemma load_effect:
  assumes run: "load_and_cache t key outcome c = (r, c')" and good: "good_ok c (cw_loaded w)" and bad: "bad_ok c (cw_failed w)"
  shows "good_ok c' (cw_loaded (note_outcome (t 0) key outcome w)) \<and> bad_ok c' (cw_failed (note_outcome (t 0) key outcome w))"
proof (cases outcome)
  case (Inr x)
  obtain d m where x: "x = (d, m)" by fastforce
  have "c' = c\<lparr>rc_good := (rc_good c)(key \<mapsto> \<lparr>entry_expires = t 0 + rc_ttl c,
      entry_stale_until = t 0 + rc_ttl c + rc_stale_ttl c, entry_document = d, entry_meta = m\<rparr>)\<rparr>"
    using run by (simp add: load_and_cache_def Inr x)
  moreover have "note_outcome (t 0) key outcome w = w\<lparr>cw_loaded := insert (key, t 0, d) (cw_loaded w)\<rparr>"
    by (simp add: note_outcome_def Inr x)
  ultimately show ?thesis using good bad by (auto simp: good_ok_def bad_ok_def)
next
  case (Inl e)
  have c': "c' = (if is_deferral e then c else cache_error (t 0) key e c)" by (rule load_failed [OF run [unfolded Inl]])
  show ?thesis
    using good bad unfolding Inl note_failed c' by (auto simp: cache_error_def good_ok_def bad_ok_def)
qed

lemma note_outcome_fields [simp]:
  "cw_cache (note_outcome now key outcome w) = cw_cache w" "cw_running (note_outcome now key outcome w) = cw_running w"
  "cw_next (note_outcome now key outcome w) = cw_next w"
  by (cases outcome; force simp: note_failed note_outcome_def [of now key "Inr _"] split: prod.split)+

lemma cache_step_inv: "cache_step w ev w' \<Longrightarrow> cache_inv c0 w \<Longrightarrow> cache_inv c0 w'"
proof (induction rule: cache_step.induct)
  case (step_try t key w a c)
  then have "forgets (cw_cache w) c"
    by (auto simp: get_unlocked_def dest: cached_resolution_forgets split: if_splits prod.splits)
  then show ?case by (rule cache_inv_forgets [OF step_try.prems])
next
  case (step_join t key w a c)
  have "forgets (cw_cache w) c"
    using step_join.hyps(2) by (rule get_locked_effect) (use step_join.hyps(3) in auto)
  then show ?case by (rule cache_inv_forgets [OF step_join.prems])
next
  case (step_start t key w c)
  from step_start.hyps(2) show ?case
  proof (cases rule: get_locked_effect)
    case (1 c1)
    have "\<And>k j. rc_inflight (cw_cache w) k = Some j \<Longrightarrow> j < cw_next w"
      using step_start.prems by (simp add: cache_inv_def flight_ok_def)
    then show ?thesis using 1(3) by blast
  next
    case (2 c1)
    have inv: "cache_inv c0 (w\<lparr>cw_cache := c1\<rparr>)" by (rule cache_inv_forgets [OF step_start.prems 2(1)])
    then have fl: "flight_ok c1 (cw_running w) (cw_next w)" by (simp add: cache_inv_def)
    then have "\<And>i k. cw_running w i = Some k \<Longrightarrow> k \<noteq> key \<and> i < cw_next w" using 2(4) by (auto simp: flight_ok_def)
    then have "flight_ok c ((cw_running w)(cw_next w \<mapsto> key)) (Suc (cw_next w))"
      using fl 2(2) by (auto simp: flight_ok_def less_Suc_eq)
    moreover have "same_settings c0 c" "good_ok c (cw_loaded w)" "bad_ok c (cw_failed w)"
      using inv unfolding 2(2) cache_inv_def same_settings_def good_ok_def bad_ok_def by auto
    ultimately show ?thesis by (simp add: cache_inv_def)
  qed
next
  case (step_load t w i key outcome r c)
  have inv: "same_settings c0 (cw_cache w)" "good_ok (cw_cache w) (cw_loaded w)" "bad_ok (cw_cache w) (cw_failed w)"
      "flight_ok (cw_cache w) (cw_running w) (cw_next w)"
    using step_load.prems by (simp_all add: cache_inv_def)
  let ?w = "w\<lparr>cw_cache := c, cw_running := (cw_running w)(i := None)\<rparr>"
  have "good_ok c (cw_loaded (note_outcome (t 0) key outcome ?w)) \<and> bad_ok c (cw_failed (note_outcome (t 0) key outcome ?w))"
    by (rule load_effect [OF step_load.hyps(3)]) (simp_all add: inv)
  moreover have "flight_ok c ((cw_running w)(i := None)) (cw_next w)"
    using inv(4) load_settings [OF step_load.hyps(3)] by (simp add: flight_ok_def)
  ultimately show ?case
    using same_settings_trans [OF inv(1)] load_settings [OF step_load.hyps(3)] by (simp add: cache_inv_def)
next
  case (step_finalize w i key)
  then show ?case by (auto simp: cache_inv_def finalize_inflight_def flight_ok_def good_ok_def bad_ok_def same_settings_def)
next
  case (step_cancel w i)
  then show ?case by (simp add: cache_inv_def flight_ok_def)
next
  case (step_close w)
  then show ?case by (simp add: cache_inv_def close_cache_def flight_ok_def good_ok_def bad_ok_def same_settings_def)
qed

lemma cache_run_inv: "cache_run (make_robots_cache ttl ettl sttl) w \<Longrightarrow> cache_inv (make_robots_cache ttl ettl sttl) w"
proof (induction rule: cache_run.induct)
  case (run_step w ev w')
  show ?case by (rule cache_step_inv [OF run_step.hyps(2) run_step.IH])
qed (auto simp: cache_inv_def new_cache_world_def make_robots_cache_def same_settings_def good_ok_def bad_ok_def flight_ok_def)


text \<open>What a caller of the cache may be given.\<close>

definition answer_ok ::
  "robots_cache \<Rightarrow> (string \<times> real \<times> robots_document) set \<Rightarrow> (string \<times> real) set \<Rightarrow> cache_event \<Rightarrow> bool" where
  "answer_ok c loaded failed ev = (case ev of
     Got key t (Answered (Serve d)) \<Rightarrow> serves_ok c loaded failed key t d
   | Got key t (Answered (Raise e)) \<Rightarrow>
       \<not> is_deferral e \<and> (\<exists>t1. (key, t1) \<in> failed \<and> t 1 < t1 + rc_error_ttl c)
   | Loaded key t (Inr d) \<Rightarrow> (\<exists>t0. (key, t0, d) \<in> loaded \<and>
       (t0 = t 0 \<or> t0 + rc_ttl c \<le> t 1 \<and> t 1 < t0 + rc_ttl c + rc_stale_ttl c))
   | _ \<Rightarrow> True)"

lemma answer_ok_simps [simp]:
  "answer_ok c loaded failed (Got key t (Answered (Serve d))) = serves_ok c loaded failed key t d"
  "answer_ok c loaded failed (Got key t (Answered (Raise e))) =
     (\<not> is_deferral e \<and> (\<exists>t1. (key, t1) \<in> failed \<and> t 1 < t1 + rc_error_ttl c))"
  "answer_ok c loaded failed (Got key t (Answered Miss))"
  "answer_ok c loaded failed (Got key t Cache_Closed)" "answer_ok c loaded failed (Got key t (Awaiting i))"
  "answer_ok c loaded failed (Loaded key t (Inl e))" "answer_ok c loaded failed Silent"
  by (simp_all add: answer_ok_def)

lemma cached_answer_ok:
  "cached_resolution t key c = (a, c') \<Longrightarrow> good_ok c loaded \<Longrightarrow> bad_ok c failed \<Longrightarrow>
    answer_ok c loaded failed (Got key t (Answered a))"
  by (cases a) (auto dest!: cached_resolution_answers)

lemma unlocked_answer_ok:
  "get_unlocked t key c = (a, c') \<Longrightarrow> good_ok c loaded \<Longrightarrow> bad_ok c failed \<Longrightarrow> answer_ok c loaded failed (Got key t a)"
  by (auto simp: get_unlocked_def intro: cached_answer_ok split: if_splits prod.splits)

lemma locked_answer_ok:
  "get_locked t key i c = (a, c') \<Longrightarrow> good_ok c loaded \<Longrightarrow> bad_ok c failed \<Longrightarrow> answer_ok c loaded failed (Got key t a)"
  by (auto simp: get_locked_def intro: cached_answer_ok
      split: if_splits prod.splits cache_answer.splits option.splits simp del: answer_ok_simps(1,2))

lemma load_answer_ok:
  assumes "load_and_cache t key outcome c = (r, c')" "good_ok c (cw_loaded w)"
  shows "answer_ok c (cw_loaded (note_outcome (t 0) key outcome w)) failed (Loaded key t r)"
proof (cases r)
  case (Inr d)
  show ?thesis
  proof (cases outcome)
    case (Inr x)
    then have "(key, t 0, d) \<in> cw_loaded (note_outcome (t 0) key outcome w)"
      using assms(1) \<open>r = Inr d\<close> by (auto simp: load_and_cache_def note_outcome_def split: prod.splits)
    then show ?thesis using \<open>r = Inr d\<close> by (auto simp: answer_ok_def)
  next
    case (Inl e)
    then have "stale_parser (t 1) key c = Some d"
      using assms(1) \<open>r = Inr d\<close>
      by (auto simp: load_and_cache_def Let_def cache_error_def stale_parser_def
          split: load_failure.splits loader_error.splits option.splits if_splits)
    then obtain e where "rc_good c key = Some e" "entry_expires e \<le> t 1" "t 1 < entry_stale_until e" "d = entry_document e"
      by (auto simp: stale_parser_def split: option.splits if_splits)
    then show ?thesis
      using assms(2) \<open>r = Inr d\<close> Inl by (fastforce simp: answer_ok_def good_ok_def note_failed)
  qed
qed simp

lemma step_answer_ok:
  assumes "cache_step w ev w'" "good_ok (cw_cache w) (cw_loaded w)" "bad_ok (cw_cache w) (cw_failed w)"
  shows "answer_ok (cw_cache w) (cw_loaded w') (cw_failed w') ev"
  using assms
proof (cases rule: cache_step.cases)
  case (step_load t i key outcome r c)
  show ?thesis unfolding step_load(1,2) by (rule load_answer_ok [OF step_load(5)]) (simp add: assms)
qed (auto intro: unlocked_answer_ok locked_answer_ok assms)

lemma answer_ok_settings: "same_settings c0 c \<Longrightarrow> answer_ok c loaded failed ev = answer_ok c0 loaded failed ev"
  by (simp add: answer_ok_def serves_ok_def same_settings_def split: cache_event.split get_answer.split cache_answer.split sum.split)

lemma flight_inj: "flight_ok c running n \<Longrightarrow> inj_on running (dom running)"
  by (auto simp: flight_ok_def inj_on_def dom_def) (metis option.inject)

text \<open>C34: In every run of the cache a caller is given a document that is valid under its key: it was
  loaded for that key less than the lifetime ago, or it has expired but is within the stale period, and then
  a reload of that key has failed within the error lifetime. A failure that is raised from the cache is
  recent, and never a deferral of a fetch, which is not kept. A load whose fetch failed answers with a stale
  document only within the stale period. And no two loads of one key run at the same time.\<close>

theorem robots_cache_serves_valid:
  assumes "cache_run (make_robots_cache ttl error_ttl stale_ttl) w" and "cache_step w ev w'"
  shows "answer_ok (make_robots_cache ttl error_ttl stale_ttl) (cw_loaded w') (cw_failed w') ev \<and>
    inj_on (cw_running w') (dom (cw_running w'))"
proof -
  let ?c = "make_robots_cache ttl error_ttl stale_ttl"
  have inv: "cache_inv ?c w" by (rule cache_run_inv [OF assms(1)])
  then have "answer_ok (cw_cache w) (cw_loaded w') (cw_failed w') ev"
    by (intro step_answer_ok [OF assms(2)]) (simp_all add: cache_inv_def)
  moreover have "same_settings ?c (cw_cache w)" using inv by (simp add: cache_inv_def)
  moreover have "flight_ok (cw_cache w') (cw_running w') (cw_next w')"
    using cache_step_inv [OF assms(2) inv] by (simp add: cache_inv_def)
  then have "inj_on (cw_running w') (dom (cw_running w'))" by (rule flight_inj)
  ultimately show ?thesis using answer_ok_settings by blast
qed

definition plain_document :: robots_document where
  "plain_document = \<lparr>doc_can_fetch = (\<lambda>_ _. True), doc_delay_table = [], doc_site_maps = []\<rparr>"

definition sample_cache :: robots_cache where
  "sample_cache = make_robots_cache 10 5 (Some 20)"

definition loading_world :: cache_world where
  "loading_world = \<lparr>cw_cache = sample_cache\<lparr>rc_inflight := [''k'' \<mapsto> 0]\<rparr>, cw_running = [0 \<mapsto> ''k''], cw_next = Suc 0,
     cw_loaded = {}, cw_failed = {}\<rparr>"

definition loaded_world :: cache_world where
  "loaded_world = loading_world\<lparr>cw_cache := sample_cache\<lparr>rc_inflight := [''k'' \<mapsto> 0],
       rc_good := [''k'' \<mapsto> \<lparr>entry_expires = 11, entry_stale_until = 31, entry_document = plain_document, entry_meta = None\<rparr>]\<rparr>,
     cw_running := Map.empty, cw_loaded := {(''k'', 1, plain_document)}\<rparr>"

lemmas sample_cache_defs = sample_cache_def make_robots_cache_def loading_world_def loaded_world_def new_cache_world_def

lemma sample_start:
  "cache_step (new_cache_world sample_cache) (Got ''k'' (\<lambda>_. 0) (Awaiting 0)) loading_world"
  using step_start [of "\<lambda>_. 0" "''k''" "new_cache_world sample_cache" "sample_cache\<lparr>rc_inflight := [''k'' \<mapsto> 0]\<rparr>"]
  by (simp add: clock_ok_def get_locked_def cached_resolution_def cached_parser_def cached_error_def sample_cache_defs)

lemma sample_load: "cache_step loading_world (Loaded ''k'' (\<lambda>_. 1) (Inr plain_document)) loaded_world"
  using step_load [of "\<lambda>_. 1" loading_world 0 "''k''" "Inr (plain_document, None)" "Inr plain_document" "cw_cache loaded_world"]
  by (simp add: clock_ok_def load_and_cache_def note_outcome_def sample_cache_defs)

lemma sample_get: "cache_step loaded_world (Got ''k'' (\<lambda>_. 9) (Answered (Serve plain_document))) loaded_world"
  using step_try [of "\<lambda>_. 9" "''k''" loaded_world "Answered (Serve plain_document)" "cw_cache loaded_world"]
  by (simp add: clock_ok_def get_unlocked_def cached_resolution_def cached_parser_def sample_cache_defs)

lemma cache_sample_run: "cache_run sample_cache loaded_world"
  using run_step [OF run_step [OF run_new sample_start] sample_load] .

theorem robots_cache_serves_valid_witness:
  "answer_ok sample_cache {(''k'', 1, plain_document)} {} (Got ''k'' (\<lambda>_. 9) (Answered (Serve plain_document)))"
  using robots_cache_serves_valid [OF cache_sample_run [unfolded sample_cache_def] sample_get]
  by (simp add: loaded_world_def loading_world_def sample_cache_def del: answer_ok_simps)

end
