(* ===== verification/Robots_Gate.thy ===== *)
theory Robots_Gate imports
  Robots_Cache
  Rate_Limit
  Host_Control
begin

text \<open>
  The robots check of one URL, \<open>crawler/governance/robots/robots_checker.py\<close>, and the gate that
  every request passes, \<open>robots_request_gate.py\<close>, composed with the request runner. What the parser
  cache returns or raises is the argument \<open>lookup\<close>; metrics and log output are left out.
\<close>

section \<open>The checker\<close>

type_synonym robots_lookup = "string \<Rightarrow> load_failure + robots_document \<times> fetch_meta option"

record robots_checker =
  chk_env :: robots_env
  chk_path :: string
  chk_evaluator :: robots_evaluator
  chk_rules :: resolver_rules
  chk_suffixes :: "string list"
  chk_user_agent :: string
  chk_blacklist :: "blacklist option"

record robots_memory =
  mem_hosts :: host_rules_store
  mem_suppressor :: unknown_suppressor

definition url_has_host_name :: "robots_env \<Rightarrow> string \<Rightarrow> bool" where
  "url_has_host_name env url = (case rob_urlparse env url of None \<Rightarrow> False | Some v \<Rightarrow> view_hostname v \<noteq> None)"

fun stripped_once :: "string list \<Rightarrow> string list \<Rightarrow> string list" where
  "stripped_once seen [] = []"
| "stripped_once seen (v # vs) = (let url = py_strip v in
     if url = [] \<or> url \<in> set seen then stripped_once seen vs else url # stripped_once (url # seen) vs)"

definition extract_sitemap_urls :: "robots_document \<Rightarrow> string list" where
  "extract_sitemap_urls doc = stripped_once [] (doc_site_maps doc)"

definition blacklisted_result :: robots_result where
  "blacklisted_result =
     make_robots_result [] Robots_Disallowed ''blacklisted'' ''blacklist'' True (Some Authoritative_Deny)"

text \<open>A result is recorded for its host unless it repeats an unknown one.\<close>

definition note_checked :: "robots_env \<Rightarrow> (nat \<Rightarrow> real) \<Rightarrow> string \<Rightarrow> robots_result \<Rightarrow> robots_memory \<Rightarrow> robots_memory" where
  "note_checked env t url r m =
    (case should_suppress env (t 0) url r (mem_suppressor m) of (duplicate, suppressor) \<Rightarrow>
       m\<lparr>mem_suppressor := suppressor, mem_hosts := (if duplicate then mem_hosts m else record_robots env (t 1) url r (mem_hosts m))\<rparr>)"

definition settled_result :: "robots_checker \<Rightarrow> string \<Rightarrow> string \<Rightarrow> robots_document \<Rightarrow> fetch_meta option \<Rightarrow> robots_result" where
  "settled_result c url robots_url doc meta =
    (evaluate_robots (chk_evaluator c) doc url (case meta of Some m \<Rightarrow> meta_final_url m | None \<Rightarrow> robots_url)
       (map_option meta_status meta) (Some (chk_user_agent c)))
      \<lparr>res_sitemap_urls := extract_sitemap_urls doc\<rparr>"

definition check_url ::
  "robots_checker \<Rightarrow> (nat \<Rightarrow> real) \<Rightarrow> robots_lookup \<Rightarrow> string \<Rightarrow> robots_memory \<Rightarrow> (request_error + robots_result) \<times> robots_memory" where
  "check_url c t lookup url m =
    (if (case chk_blacklist c of Some b \<Rightarrow> blacklist_contains url b | None \<Rightarrow> False)
     then if url_has_host_name (chk_env c) url
       then (Inr blacklisted_result, m\<lparr>mem_hosts := record_robots (chk_env c) (t 1) url blacklisted_result (mem_hosts m)\<rparr>)
       else (Inl Value_Raised, m)
     else (case build_robots_url (chk_env c) (chk_path c) url of
         Inl e \<Rightarrow> (Inl e, m)
       | Inr robots_url \<Rightarrow>
          (case lookup robots_url of
             Inl (Load_Raised kind) \<Rightarrow> (Inl (Environment_Raised kind), m)
           | Inl (Loader_Failed e) \<Rightarrow>
              (let r = resolve_robots_error (chk_env c) (chk_rules c) (chk_suffixes c) robots_url e (Some url) (Some [])
               in (Inr r, note_checked (chk_env c) t url r m))
           | Inr (doc, meta) \<Rightarrow>
              (let r = settled_result c url robots_url doc meta in (Inr r, note_checked (chk_env c) t url r m)))))"

definition is_allowed :: "robots_policy \<Rightarrow> (request_error + robots_result) \<Rightarrow> request_error + bool" where
  "is_allowed p answer = (case answer of Inl e \<Rightarrow> Inl e | Inr r \<Rightarrow> Inr (to_access_action p r = Access_Allow))"

section \<open>The gate\<close>

record robots_gate =
  gate_mode :: string
  gate_policy :: robots_policy
  gate_checker :: robots_checker
  gate_limiter :: rate_limiter
  gate_registers_advice :: bool

record gate_state =
  gate_memory :: robots_memory
  gate_limits :: rate_registry
  gate_advice :: "(string \<times> host_advice) list"

definition register_host_advice :: "robots_gate \<Rightarrow> string \<Rightarrow> robots_result \<Rightarrow> gate_state \<Rightarrow> gate_state" where
  "register_host_advice g url r s =
    (if gate_registers_advice g
     then let rules = robots_snapshot (chk_env (gate_checker g)) url (mem_hosts (gate_memory s))
          in s\<lparr>gate_advice := gate_advice s @ [(url, \<lparr>adv_discovery_factor = Some (Fin (rules_factor rules)),
               adv_priority_penalty = Some (Fin (rules_penalty rules)), adv_hostility_score = Some (Fin (rules_hostility rules)),
               adv_crawl_delay_seconds = res_crawl_delay r\<rparr>)]\<rparr>
     else s)"

definition apply_crawl_delay :: "robots_gate \<Rightarrow> string \<Rightarrow> robots_result \<Rightarrow> gate_state \<Rightarrow> unit result \<times> gate_state" where
  "apply_crawl_delay g url r s =
    (if res_decision r \<noteq> Robots_Allowed then (Inr (), s)
     else (case res_crawl_delay r of None \<Rightarrow> (Inr (), s)
       | Some d \<Rightarrow> (case limit_crawl_delay (gate_limiter g) (rob_nrm (chk_env (gate_checker g)))
             (robots_host (chk_env (gate_checker g)) url) (PyFloat d) (gate_limits s) of
           (u, limits) \<Rightarrow> (u, s\<lparr>gate_limits := limits\<rparr>))))"

definition gate_verdict :: "string \<Rightarrow> access_action \<Rightarrow> string \<Rightarrow> request_error option" where
  "gate_verdict mode action reason =
    (if mode = ''observe'' \<and> action = Access_Block then None
     else if action = Access_Block then Some (Ignored_Fetch ''robots_disallowed'' True)
     else if action = Access_Defer then Some (Retryable_Fetch ''robots'' reason)
     else None)"

definition authorize :: "robots_gate \<Rightarrow> (nat \<Rightarrow> real) \<Rightarrow> robots_lookup \<Rightarrow> string \<Rightarrow> gate_state \<Rightarrow> request_error option \<times> gate_state" where
  "authorize g t lookup url s =
    (if gate_mode g = ''disabled'' then (None, s)
     else (case check_url (gate_checker g) t lookup url (gate_memory s) of
         (Inl e, m) \<Rightarrow> (Some e, s\<lparr>gate_memory := m\<rparr>)
       | (Inr r, m) \<Rightarrow>
          (case apply_crawl_delay g url r (register_host_advice g url r (s\<lparr>gate_memory := m\<rparr>)) of
             (Inl _, s) \<Rightarrow> (Some (Environment_Raised ''ValueError''), s)
           | (Inr _, s) \<Rightarrow> (gate_verdict (gate_mode g) (to_access_action (gate_policy g) r) (res_reason r), s))))"

text \<open>The request runner behind the gate: round \<open>n\<close> of its loop finds the state \<open>states n\<close>.\<close>

definition behind_gate ::
  "robots_gate \<Rightarrow> (nat \<Rightarrow> nat \<Rightarrow> real) \<Rightarrow> (nat \<Rightarrow> robots_lookup) \<Rightarrow> (nat \<Rightarrow> gate_state) \<Rightarrow> request_world \<Rightarrow> request_world" where
  "behind_gate g t lookup states world = world\<lparr>world_robots := (\<lambda>n url. fst (authorize g (t n) (lookup n) url (states n)))\<rparr>"

section \<open>Lemmas\<close>

subsection \<open>What is sent has passed the gate\<close>

lemma open_request_passed:
  "open_request rr world n current hs = (evs, r) \<Longrightarrow> (u, h) \<in> set (sent_requests evs) \<Longrightarrow> u = current \<and> world_robots world n u = None"
  by (auto simp: open_request_def Let_def split: sum.splits option.splits)

lemma sent_append [simp]: "sent_requests (xs @ ys) = sent_requests xs @ sent_requests ys"
  by (induction xs rule: sent_requests.induct) simp_all

lemma request_loop_passed:
  "request_loop rr world source_name n current hs = (evs, r) \<Longrightarrow> (u, h) \<in> set (sent_requests evs) \<Longrightarrow>
    \<exists>m. world_robots world m u = None"
proof (induction rr world source_name n current hs arbitrary: evs r rule: request_loop.induct)
  case (1 rr world source_name n current hs)
  obtain evs0 r0 where first: "open_request rr world n current hs = (evs0, r0)" by fastforce
  note run = 1(2) [unfolded request_loop.simps [of rr world source_name n current hs] first]
  show ?case
  proof (cases "(u, h) \<in> set (sent_requests evs0)")
    case True
    then show ?thesis using open_request_passed [OF first] by blast
  next
    case False
    then obtain reply target hs' evs' where rest: "r0 = Inr reply" "redirect_target rr reply current = Inr (Some target)"
        "next_hop rr source_name hs current target (int n + 1) = Inr hs'"
        "request_loop rr world source_name (n + 1) target hs' = (evs', r)" "(u, h) \<in> set (sent_requests evs')"
        "validate_connected_peer rr reply = Inr ()"
      using run 1(3) by (auto split: sum.splits option.splits prod.splits)
    show ?thesis
      by (rule "1.IH" [OF first [symmetric] _ rest(6) rest(2) _ rest(3) rest(4,5)]) (simp_all add: rest(1))
  qed
qed

subsection \<open>Crawl delays\<close>

lemma agent_delay_from_table:
  "delay_for_agent agent table dflt = Some d \<Longrightarrow> dflt = Some d \<or> (\<exists>uas. (uas, d) \<in> set table)"
  by (induction agent table dflt rule: delay_for_agent.induct) (auto split: if_splits)

definition parsed_lookup :: "robots_lookup \<Rightarrow> bool" where
  "parsed_lookup lookup \<longleftrightarrow> (\<forall>u doc meta. lookup u = Inr (doc, meta) \<longrightarrow>
     (\<exists>content. doc_delay_table doc = extract_crawl_delay_table content))"

lemma document_delay_not_negative:
  assumes "doc_delay_table doc = extract_crawl_delay_table content" "document_delay doc agent = Some d"
  shows "not_negative d"
  using assms agent_delay_from_table delay_table_ok
  by (fastforce simp: document_delay_def crawl_delay_seconds_for_agent_def split: if_splits)

lemma evaluate_delay:
  assumes "res_crawl_delay (evaluate_robots ev doc url rurl status agent) = Some d"
    "res_decision (evaluate_robots ev doc url rurl status agent) = Robots_Allowed"
  shows "\<not> exceeds d (max_crawl_delay_s ev) \<and> document_delay doc (resolve_user_agent ev agent) = Some d"
  using assms by (auto simp: evaluate_robots_def make_robots_result_def Let_def split: if_splits option.splits)

lemma allowed_delay_finite:
  assumes "parsed_lookup lookup" "fst (check_url c t lookup url m) = Inr r" "res_decision r = Robots_Allowed"
    "res_crawl_delay r = Some d"
  shows "\<exists>x. d = Fin x \<and> 0 \<le> x \<and> x \<le> max_crawl_delay_s (chk_evaluator c)"
proof -
  have no: "res_crawl_delay (resolve_robots_error env rules conf ru e u a) = None" for env rules conf ru e u a
    by (cases e) (simp_all add: resolve_robots_error_def resolve_http_error_def allowed_absent_def unknown_result_def
        make_robots_result_def Let_def)
  obtain rurl doc meta where "lookup rurl = Inr (doc, meta)" and r: "r = settled_result c url rurl doc meta"
    using assms(2-4) no
    by (auto simp: check_url_def blacklisted_result_def make_robots_result_def Let_def
        split: if_splits sum.splits load_failure.splits prod.splits)
  then obtain content where content: "doc_delay_table doc = extract_crawl_delay_table content"
    using assms(1) by (auto simp: parsed_lookup_def)
  have d: "\<not> exceeds d (max_crawl_delay_s (chk_evaluator c)) \<and>
      document_delay doc (resolve_user_agent (chk_evaluator c) (Some (chk_user_agent c))) = Some d"
    using assms(3,4) unfolding r settled_result_def by (intro evaluate_delay) simp_all
  then have "not_negative d" using document_delay_not_negative [OF content] by blast
  then show ?thesis using d by (cases d) (auto simp: exceeds_def not_negative_def)
qed

lemma finite_delay_accepted: "0 \<le> x \<Longrightarrow> fst (limit_crawl_delay rl nrm h (PyFloat (Fin x)) reg) = Inr ()"
  by (simp add: limit_crawl_delay_def with_host_state_def keep_on_error_def set_host_crawl_delay_def Let_def
      coerce_optional_non_negative_float_def coerce_rate_float_def split: prod.split)


subsection \<open>Results and actions\<close>

lemma resolved_action:
  assumes "to_access_action p (resolve_robots_error env rules conf ru e u a) = Access_Allow"
  shows "(\<exists>status error_type retry_after. e = Http_Status_Error status error_type retry_after \<and> status \<in> {404, 410}) \<or>
    Access_Allow \<in> {on_weak_unknown p, on_transient_unknown p, on_hostile_unknown p}"
  using assms
  by (cases e) (auto simp: resolve_robots_error_def resolve_http_error_def allowed_absent_def unknown_result_def
      make_robots_result_def Let_def to_access_action_def split: if_splits)

definition too_slow :: "robots_checker \<Rightarrow> robots_document \<Rightarrow> bool" where
  "too_slow c doc \<longleftrightarrow> respect_crawl_delay (chk_evaluator c) \<and>
     (case document_delay doc (resolve_user_agent (chk_evaluator c) (Some (chk_user_agent c))) of
        Some d \<Rightarrow> exceeds d (max_crawl_delay_s (chk_evaluator c)) | None \<Rightarrow> False)"

lemma evaluated_action:
  "to_access_action p (settled_result c url rurl doc meta) = Access_Allow \<longleftrightarrow>
    (if too_slow c doc then on_weak_unknown p = Access_Allow
     else doc_can_fetch doc (resolve_user_agent (chk_evaluator c) (Some (chk_user_agent c))) url)"
  by (auto simp: settled_result_def evaluate_robots_def to_access_action_def make_robots_result_def too_slow_def Let_def
      split: option.splits)

text \<open>What permits a request: the blacklist, and the document or the policy for its absence.\<close>

definition permitted :: "robots_checker \<Rightarrow> robots_policy \<Rightarrow> robots_lookup \<Rightarrow> string \<Rightarrow> bool" where
  "permitted c p lookup url \<longleftrightarrow> (case chk_blacklist c of Some b \<Rightarrow> url \<notin> b | None \<Rightarrow> True) \<and>
     (\<exists>robots_url. build_robots_url (chk_env c) (chk_path c) url = Inr robots_url \<and>
       (case lookup robots_url of
          Inr (doc, meta) \<Rightarrow>
            if too_slow c doc then on_weak_unknown p = Access_Allow
            else doc_can_fetch doc (resolve_user_agent (chk_evaluator c) (Some (chk_user_agent c))) url
        | Inl (Loader_Failed e) \<Rightarrow>
            (\<exists>status error_type retry_after. e = Http_Status_Error status error_type retry_after \<and> status \<in> {404, 410}) \<or>
            Access_Allow \<in> {on_weak_unknown p, on_transient_unknown p, on_hostile_unknown p}
        | Inl (Load_Raised _) \<Rightarrow> False))"

lemma checked_permitted:
  assumes "fst (check_url c t lookup url m) = Inr r" "to_access_action p r = Access_Allow"
  shows "permitted c p lookup url"
proof -
  have "to_access_action p blacklisted_result \<noteq> Access_Allow"
    by (simp add: blacklisted_result_def make_robots_result_def to_access_action_def)
  then obtain rurl where ok: "case chk_blacklist c of Some b \<Rightarrow> url \<notin> b | None \<Rightarrow> True"
      and rurl: "build_robots_url (chk_env c) (chk_path c) url = Inr rurl"
      and r: "case lookup rurl of Inr (doc, meta) \<Rightarrow> r = settled_result c url rurl doc meta
        | Inl (Loader_Failed e) \<Rightarrow> r = resolve_robots_error (chk_env c) (chk_rules c) (chk_suffixes c) rurl e (Some url) (Some [])
        | Inl (Load_Raised _) \<Rightarrow> False"
    using assms
    by (auto simp: check_url_def blacklist_contains_def Let_def split: if_splits sum.splits load_failure.splits prod.splits option.splits)
  show ?thesis
  proof (cases "lookup rurl")
    case (Inl x)
    then obtain e where "x = Loader_Failed e" using r by (cases x) auto
    then show ?thesis using ok rurl r Inl resolved_action assms(2) by (auto simp: permitted_def)
  next
    case (Inr x)
    then show ?thesis using ok rurl r assms(2) evaluated_action by (cases x) (simp add: permitted_def)
  qed
qed

section \<open>Properties\<close>

text \<open>C35: The verdict of the gate. With documents from the parser, a request passes exactly if the gate is
  disabled or the check gives a result that the policy allows, or blocks while the gate only observes; a
  deferral stops a request also while the gate only observes. A crawl delay that
  reaches the limiter never makes it raise.\<close>

theorem gate_verdict_by_action:
  assumes "parsed_lookup lookup" and "gate_mode g \<noteq> ''disabled''"
  shows "fst (authorize g t lookup url s) = (case fst (check_url (gate_checker g) t lookup url (gate_memory s)) of
     Inl e \<Rightarrow> Some e
   | Inr r \<Rightarrow> (case to_access_action (gate_policy g) r of
       Access_Allow \<Rightarrow> None
     | Access_Block \<Rightarrow> if gate_mode g = ''observe'' then None else Some (Ignored_Fetch ''robots_disallowed'' True)
     | Access_Defer \<Rightarrow> Some (Retryable_Fetch ''robots'' (res_reason r))))"
proof -
  obtain x m where check: "check_url (gate_checker g) t lookup url (gate_memory s) = (x, m)" by fastforce
  show ?thesis
  proof (cases x)
    case (Inr r)
    have answer: "fst (check_url (gate_checker g) t lookup url (gate_memory s)) = Inr r" by (simp add: check Inr)
    have "fst (apply_crawl_delay g url r s') = Inr ()" for s'
    proof (cases "res_decision r = Robots_Allowed \<and> res_crawl_delay r \<noteq> None")
      case True
      then obtain d where d: "res_crawl_delay r = Some d" by blast
      then obtain v where "d = Fin v" "0 \<le> v"
        using allowed_delay_finite [OF assms(1) answer _ d] True by blast
      moreover obtain u limits where "limit_crawl_delay (gate_limiter g) (rob_nrm (chk_env (gate_checker g)))
          (robots_host (chk_env (gate_checker g)) url) (PyFloat d) (gate_limits s') = (u, limits)" by fastforce
      ultimately show ?thesis
        using finite_delay_accepted [of v "gate_limiter g" "rob_nrm (chk_env (gate_checker g))"
            "robots_host (chk_env (gate_checker g)) url" "gate_limits s'"] True d
        by (simp add: apply_crawl_delay_def)
    qed (auto simp: apply_crawl_delay_def split: option.splits)
    then obtain s1 where "apply_crawl_delay g url r (register_host_advice g url r (s\<lparr>gate_memory := m\<rparr>)) = (Inr (), s1)"
      by (metis prod.collapse)
    then show ?thesis
      using assms(2) Inr by (simp add: authorize_def check gate_verdict_def split: access_action.split)
  qed (use assms(2) in \<open>simp add: authorize_def check\<close>)
qed



subsection \<open>A gate that observes and one that enforces\<close>

definition deferring_policy :: robots_policy where
  "deferring_policy = \<lparr>on_weak_unknown = Access_Block, on_transient_unknown = Access_Defer, on_hostile_unknown = Access_Block\<rparr>"

definition sample_checker :: robots_checker where
  "sample_checker =
     \<lparr>chk_env = \<lparr>rob_urlparse = sample_parser, rob_path = (\<lambda>_. ''/''), rob_nrm = id\<rparr>, chk_path = ''/robots.txt'',
      chk_evaluator = make_robots_evaluator True 60 ''bot'',
      chk_rules = \<lparr>hostile_penalty = 1, hostile_factor = 1, transient_penalty = 1, transient_factor = 1, weak_penalty = 1,
        weak_factor = 1, rate_limited_penalty = 1, rate_limited_factor = 1\<rparr>,
      chk_suffixes = [], chk_user_agent = ''bot'', chk_blacklist = None\<rparr>"

definition sample_gate :: "string \<Rightarrow> rate_limiter \<Rightarrow> robots_gate" where
  "sample_gate mode rl = \<lparr>gate_mode = mode, gate_policy = deferring_policy, gate_checker = sample_checker, gate_limiter = rl,
     gate_registers_advice = True\<rparr>"

definition sample_gate_state :: gate_state where
  "sample_gate_state = \<lparr>gate_memory = \<lparr>mem_hosts = Map.empty, mem_suppressor = make_unknown_suppressor 5 100 10\<rparr>,
     gate_limits = \<lparr>default_adaptive_rps = 1, default_effective_rps = 1, rate_states = []\<rparr>, gate_advice = []\<rparr>"

lemma sample_robots_url: "\<exists>r. build_robots_url (chk_env sample_checker) (chk_path sample_checker) u = Inr r"
  by (simp add: build_robots_url_def url_authority_def canonical_netloc_def Request_Runner.require_host_def sample_checker_def sample_parser_def
      Let_def)

theorem gate_verdict_by_action_witness:
  "\<exists>reason. fst (authorize (sample_gate ''observe'' (sample_limiter 1)) (\<lambda>_. 1)
     (\<lambda>_. Inl (Loader_Failed (Timeout_Error ''timeout''))) ''p'' sample_gate_state) =
     Some (Retryable_Fetch ''robots'' reason)"
proof -
  let ?l = "\<lambda>_. Inl (Loader_Failed (Timeout_Error ''timeout''))"
  have parsed: "parsed_lookup ?l" and mode: "gate_mode (sample_gate ''observe'' (sample_limiter 1)) \<noteq> ''disabled''"
    by (simp_all add: parsed_lookup_def sample_gate_def)
  obtain ru where ru: "build_robots_url (chk_env sample_checker) (chk_path sample_checker) ''p'' = Inr ru"
    using sample_robots_url by blast
  then show ?thesis
    using gate_verdict_by_action [OF parsed mode, of "\<lambda>_. 1" "''p''" sample_gate_state]
    by (simp add: sample_gate_def check_url_def Let_def to_access_action_def resolve_robots_error_def unknown_result_def
        make_robots_result_def deferring_policy_def) (simp add: sample_checker_def)
qed

lemma sample_authorized:
  "fst (authorize (sample_gate ''enforce'' (sample_limiter 1)) (\<lambda>_. 1) (\<lambda>_. Inr (plain_document, None)) u s) = None"
proof -
  obtain ru where ru: "build_robots_url (chk_env sample_checker) (chk_path sample_checker) u = Inr ru"
    using sample_robots_url by blast
  have "fst (check_url sample_checker (\<lambda>_. 1) (\<lambda>_. Inr (plain_document, None)) u (gate_memory s)) =
      Inr (settled_result sample_checker u ru plain_document None)"
    using ru by (simp add: check_url_def Let_def) (simp add: sample_checker_def)
  moreover have "to_access_action deferring_policy (settled_result sample_checker u ru plain_document None) = Access_Allow \<and>
      res_crawl_delay (settled_result sample_checker u ru plain_document None) = None"
    by (simp add: settled_result_def evaluate_robots_def plain_document_def document_delay_def make_robots_result_def
        to_access_action_def Let_def)
  ultimately show ?thesis
    by (auto simp: authorize_def sample_gate_def gate_verdict_def apply_crawl_delay_def split: prod.splits sum.splits if_splits)
qed


end
