(* ===== verification/Robots_Fetcher.thy ===== *)
theory Robots_Fetcher imports
  Robots_Gate
begin

text \<open>
  Fetching a robots document, \<open>crawler/fetching/network/robots/fetcher.py\<close>, and parsing it,
  \<open>RobotsParserLoader.load\<close>. The HTTP client, the rate limiter, \<open>urljoin\<close>, the decoding of a body
  and the parser of the standard library are arguments; a fetch is the sequence of its events.
\<close>

section \<open>The fetcher\<close>

text \<open>\<open>Response_Failed\<close> is a \<open>ClientResponseError\<close>, \<open>Client_Failed\<close> any other error of the client.\<close>

datatype transport_failure = Response_Failed int string | Timed_Out string | Client_Failed string | Other_Failed string

record robots_reply =
  rep_reply :: reply
  rep_final_url :: string
  rep_body :: "transport_failure + string"

record robots_transport =
  rt_validator :: redirect_validator
  rt_guard :: network_guard
  rt_nrm :: "host \<Rightarrow> host"
  rt_join :: "string \<Rightarrow> string \<Rightarrow> string option"

record transport_world =
  tw_acquire :: "nat \<Rightarrow> host \<Rightarrow> string option"
  tw_get :: "nat \<Rightarrow> string \<Rightarrow> transport_failure + robots_reply"
  tw_hints :: "nat \<Rightarrow> real option"

datatype fetch_event =
  Fetch_Sent string | Fetch_Opened | Fetch_Closed | Fetch_Hinted host | Fetch_Released | Fetch_Reported host int

record robots_fetched =
  fetched_requested_url :: string
  fetched_final_url :: string
  fetched_status :: int
  fetched_body :: string
  fetched_retry_after :: "real option"

datatype hop_end = Hop_Failed load_failure | Hop_Loaded robots_fetched | Hop_Redirect string

definition transport_host :: "robots_transport \<Rightarrow> string \<Rightarrow> host" where
  "transport_host rt url = (case val_urlparse (rt_validator rt) url of None \<Rightarrow> None
     | Some v \<Rightarrow> (case view_hostname v of None \<Rightarrow> None | Some h \<Rightarrow> rt_nrm rt h))"

definition robots_redirect_target :: "robots_transport \<Rightarrow> reply \<Rightarrow> string \<Rightarrow> load_failure + string option" where
  "robots_redirect_target rt reply current =
    (if reply_status reply \<notin> set redirect_statuses then Inr None
     else (case reply_location reply of
         Some (c # cs) \<Rightarrow>
           if max_location_length (val_settings (rt_validator rt)) < utf8_size (c # cs)
           then Inl (Loader_Failed (Redirect_Rejected ''redirect_location_too_large'' (Some (reply_status reply))))
           else (case rt_join rt current (c # cs) of None \<Rightarrow> Inl (Load_Raised ''ValueError'') | Some url \<Rightarrow> Inr (Some url))
       | _ \<Rightarrow> Inr None))"

definition validate_robots_redirect :: "robots_transport \<Rightarrow> string \<Rightarrow> string \<Rightarrow> int \<Rightarrow> int \<Rightarrow> load_failure + unit" where
  "validate_robots_redirect rt current target redirect_count status =
    (case validate_robots_hop (rt_validator rt) current target redirect_count of
       Inl (Ignored_Fetch reason _) \<Rightarrow> Inl (Loader_Failed (Redirect_Rejected reason (Some status)))
     | Inl _ \<Rightarrow> Inl (Load_Raised ''ValueError'')
     | Inr _ \<Rightarrow> Inr ())"

definition validate_robots_peer :: "robots_transport \<Rightarrow> reply \<Rightarrow> fetch_event list \<times> (load_failure + unit)" where
  "validate_robots_peer rt reply = (case reply_peer reply of
     None \<Rightarrow> ([Fetch_Closed], Inl (Loader_Failed (Network_Error ''peer_address_unavailable'')))
   | Some address \<Rightarrow> (case rejection_reason_for_address (rt_guard rt) address of
       Some reason \<Rightarrow> ([], Inl (Loader_Failed (Redirect_Rejected (''blocked_connected_peer:'' @ reason) (Some (reply_status reply)))))
     | None \<Rightarrow> ([], Inr ())))"

definition read_bounded_body :: "int \<Rightarrow> string \<Rightarrow> string" where
  "read_bounded_body max_body_bytes body = (if int (length body) \<le> max_body_bytes then body else take (nat max_body_bytes) body)"

text \<open>The handlers of \<open>fetch\<close>, and its \<open>finally\<close>.\<close>

definition report_status :: "host \<Rightarrow> int option \<Rightarrow> fetch_event list" where
  "report_status h status = (case status of None \<Rightarrow> [] | Some s \<Rightarrow> [Fetch_Reported h s])"

definition handle_failure ::
  "transport_world \<Rightarrow> nat \<Rightarrow> host \<Rightarrow> int option \<Rightarrow> transport_failure \<Rightarrow> fetch_event list \<times> hop_end" where
  "handle_failure world n h status f = (case f of
     Response_Failed s error_type \<Rightarrow>
       (Fetch_Hinted h # report_status h (Some s), Hop_Failed (Loader_Failed (Http_Status_Error s error_type (tw_hints world n))))
   | Timed_Out error_type \<Rightarrow> (report_status h status, Hop_Failed (Loader_Failed (Timeout_Error error_type)))
   | Client_Failed error_type \<Rightarrow> (report_status h status, Hop_Failed (Loader_Failed (Network_Error error_type)))
   | Other_Failed kind \<Rightarrow> (report_status h status, Hop_Failed (Load_Raised kind)))"

definition settle_reply ::
  "transport_world \<Rightarrow> nat \<Rightarrow> host \<Rightarrow> string \<Rightarrow> int \<Rightarrow> robots_reply \<Rightarrow> fetch_event list \<times> hop_end" where
  "settle_reply world n h robots_url max_body_bytes rep =
    (let status = reply_status (rep_reply rep) in
     case rep_body rep of
       Inl f \<Rightarrow> (case handle_failure world n h (Some status) f of (evs, e) \<Rightarrow> (Fetch_Released # evs, e))
     | Inr body \<Rightarrow>
        ([Fetch_Hinted h, Fetch_Released, Fetch_Reported h status],
         if 200 \<le> status \<and> status < 300
         then Hop_Loaded \<lparr>fetched_requested_url = robots_url, fetched_final_url = rep_final_url rep, fetched_status = status,
           fetched_body = read_bounded_body max_body_bytes body, fetched_retry_after = tw_hints world n\<rparr>
         else Hop_Failed (Loader_Failed (Http_Status_Error status ''HTTPError'' (tw_hints world n)))))"

definition read_reply ::
  "robots_transport \<Rightarrow> transport_world \<Rightarrow> nat \<Rightarrow> host \<Rightarrow> string \<Rightarrow> string \<Rightarrow> int \<Rightarrow> robots_reply \<Rightarrow> fetch_event list \<times> hop_end" where
  "read_reply rt world n h robots_url current max_body_bytes rep =
    (let reply = rep_reply rep; status = reply_status reply; leave = [Fetch_Released, Fetch_Reported h status] in
     case validate_robots_peer rt reply of
       (before, Inl e) \<Rightarrow> (before @ leave, Hop_Failed e)
     | (_, Inr _) \<Rightarrow>
        (case robots_redirect_target rt reply current of
           Inl e \<Rightarrow> (leave, Hop_Failed e)
         | Inr (Some target) \<Rightarrow>
            (case validate_robots_redirect rt current target (int n + 1) status of
               Inl e \<Rightarrow> (leave, Hop_Failed e) | Inr _ \<Rightarrow> (leave, Hop_Redirect target))
         | Inr None \<Rightarrow> settle_reply world n h robots_url max_body_bytes rep))"

definition fetch_hop ::
  "robots_transport \<Rightarrow> transport_world \<Rightarrow> nat \<Rightarrow> string \<Rightarrow> string \<Rightarrow> int \<Rightarrow> fetch_event list \<times> hop_end" where
  "fetch_hop rt world n robots_url current max_body_bytes =
    (let h = transport_host rt current in
     case rejection_reason_for_url (val_urlparse (rt_validator rt)) (rt_guard rt) current of
       Some reason \<Rightarrow> ([], Hop_Failed (Loader_Failed (Redirect_Rejected (''blocked_initial_url:'' @ reason) None)))
     | None \<Rightarrow>
        (case tw_acquire world n h of
           Some kind \<Rightarrow> ([], Hop_Failed (Load_Raised kind))
         | None \<Rightarrow>
            (case tw_get world n current of
               Inl f \<Rightarrow> (case handle_failure world n h None f of (evs, e) \<Rightarrow> (Fetch_Sent current # evs, e))
             | Inr rep \<Rightarrow> (case read_reply rt world n h robots_url current max_body_bytes rep of
                 (evs, e) \<Rightarrow> (Fetch_Sent current # Fetch_Opened # evs, e)))))"

lemma hop_redirect_ok:
  assumes "fetch_hop rt world n robots_url current max_body_bytes = (evs, Hop_Redirect target)"
  shows "validate_robots_hop (rt_validator rt) current target (int n + 1) = Inr ()"
proof -
  have no: "handle_failure world n h st f \<noteq> (evs', Hop_Redirect target)"
      "settle_reply world n h robots_url max_body_bytes rep \<noteq> (evs', Hop_Redirect target)" for h st f rep evs'
    by (auto simp: handle_failure_def settle_reply_def Let_def split: transport_failure.splits sum.splits prod.splits if_splits)
  show ?thesis
    using assms no
    by (auto simp: fetch_hop_def read_reply_def validate_robots_redirect_def Let_def
        split: option.splits sum.splits prod.splits request_error.splits)
qed

function (sequential) fetch_loop ::
  "robots_transport \<Rightarrow> transport_world \<Rightarrow> nat \<Rightarrow> string \<Rightarrow> string \<Rightarrow> int \<Rightarrow> fetch_event list \<times> (load_failure + robots_fetched)" where
  "fetch_loop rt world n robots_url current max_body_bytes =
    (case fetch_hop rt world n robots_url current max_body_bytes of
       (evs, Hop_Failed e) \<Rightarrow> (evs, Inl e)
     | (evs, Hop_Loaded r) \<Rightarrow> (evs, Inr r)
     | (evs, Hop_Redirect target) \<Rightarrow>
        (case fetch_loop rt world (n + 1) robots_url target max_body_bytes of (evs', r) \<Rightarrow> (evs @ evs', r)))"
  by pat_completeness auto

lemma robots_hop_iff:
  "validate_robots_hop v current target k = Inr () \<longleftrightarrow> k \<le> robots_max_redirects (val_settings v) \<and> shared_hop_ok v current target"
  by (simp add: validate_robots_hop_def shared_hop_iff)

termination fetch_loop
  by (relation "measure (\<lambda>(rt, world, n, robots_url, current, max_body). nat (robots_max_redirects (val_settings (rt_validator rt)) + 1 - int n))")
    (auto dest!: sym [of _ "fetch_hop _ _ _ _ _ _"] hop_redirect_ok simp: robots_hop_iff)

declare fetch_loop.simps [simp del]

definition fetch_robots ::
  "robots_transport \<Rightarrow> transport_world \<Rightarrow> string \<Rightarrow> real \<Rightarrow> int \<Rightarrow> fetch_event list \<times> (load_failure + robots_fetched)" where
  "fetch_robots rt world robots_url timeout max_body_bytes =
    (if timeout \<le> 0 \<or> max_body_bytes \<le> 0 then ([], Inl (Load_Raised ''ValueError''))
     else fetch_loop rt world 0 robots_url robots_url max_body_bytes)"

section \<open>The loader\<close>

text \<open>What decodes a body and what the parser of the standard library makes of its lines.\<close>

record document_parser =
  parse_decode :: "string \<Rightarrow> string"
  parse_can_fetch :: "string \<Rightarrow> string list \<Rightarrow> string \<Rightarrow> string \<Rightarrow> bool"
  parse_site_maps :: "string list \<Rightarrow> string list"

definition max_robots_body_bytes :: int where
  "max_robots_body_bytes = 512 * 1024"

definition parse_document :: "document_parser \<Rightarrow> robots_fetched \<Rightarrow> robots_document" where
  "parse_document p f =
    (let content = parse_decode p (fetched_body f)
     in \<lparr>doc_can_fetch = parse_can_fetch p (fetched_final_url f) (splitlines content),
         doc_delay_table = extract_crawl_delay_table content, doc_site_maps = parse_site_maps p (splitlines content)\<rparr>)"

definition load_robots ::
  "robots_transport \<Rightarrow> document_parser \<Rightarrow> transport_world \<Rightarrow> real \<Rightarrow> string \<Rightarrow>
   fetch_event list \<times> (load_failure + robots_document \<times> fetch_meta option)" where
  "load_robots rt p world timeout robots_url =
    (case fetch_robots rt world robots_url timeout max_robots_body_bytes of
       (evs, Inl e) \<Rightarrow> (evs, Inl e)
     | (evs, Inr f) \<Rightarrow>
        (evs, Inr (parse_document p f, Some \<lparr>meta_final_url = fetched_final_url f, meta_status = fetched_status f\<rparr>)))"

section \<open>Lemmas\<close>

fun fetch_sent :: "fetch_event list \<Rightarrow> string list" where
  "fetch_sent [] = []"
| "fetch_sent (Fetch_Sent u # evs) = u # fetch_sent evs"
| "fetch_sent (_ # evs) = fetch_sent evs"

text \<open>A request is asked for, its response opened, released and reported to the rate limiter, in this order.\<close>

datatype fetch_phase = Idle | Asked | Reading | Left

fun next_phase :: "fetch_phase \<Rightarrow> fetch_event \<Rightarrow> fetch_phase option" where
  "next_phase Idle (Fetch_Sent _) = Some Asked"
| "next_phase Asked Fetch_Opened = Some Reading"
| "next_phase Asked (Fetch_Hinted _) = Some Asked"
| "next_phase Asked (Fetch_Reported _ _) = Some Idle"
| "next_phase Reading Fetch_Closed = Some Reading"
| "next_phase Reading (Fetch_Hinted _) = Some Reading"
| "next_phase Reading Fetch_Released = Some Left"
| "next_phase Left (Fetch_Hinted _) = Some Left"
| "next_phase Left (Fetch_Reported _ _) = Some Idle"
| "next_phase _ _ = None"

fun phase_after :: "fetch_phase \<Rightarrow> fetch_event list \<Rightarrow> fetch_phase option" where
  "phase_after p [] = Some p"
| "phase_after p (e # evs) = (case next_phase p e of None \<Rightarrow> None | Some q \<Rightarrow> phase_after q evs)"

lemma phase_after_append: "phase_after p xs = Some q \<Longrightarrow> phase_after p (xs @ ys) = phase_after q ys"
  by (induction p xs rule: phase_after.induct) (auto split: option.splits)

lemma fetch_sent_append [simp]: "fetch_sent (xs @ ys) = fetch_sent xs @ fetch_sent ys"
  by (induction xs rule: fetch_sent.induct) simp_all

lemma handle_failure_shape:
  assumes "handle_failure world n h status f = (evs, e)"
  shows "fetch_sent evs = [] \<and> (\<exists>x. e = Hop_Failed x \<and> \<not> is_deferral x) \<and>
    (\<exists>p\<in>{Idle, Asked}. phase_after Asked evs = Some p) \<and> (status \<noteq> None \<longrightarrow> phase_after Left evs = Some Idle)"
  using assms by (cases f; cases status) (auto simp: handle_failure_def report_status_def is_deferral_def)

definition hop_answers :: "robots_transport \<Rightarrow> string \<Rightarrow> int \<Rightarrow> hop_end \<Rightarrow> bool" where
  "hop_answers rt robots_url max_body_bytes e = (case e of
     Hop_Failed x \<Rightarrow> \<not> is_deferral x
   | Hop_Loaded f \<Rightarrow> 200 \<le> fetched_status f \<and> fetched_status f < 300 \<and> int (length (fetched_body f)) \<le> max_body_bytes \<and>
       fetched_requested_url f = robots_url
   | Hop_Redirect _ \<Rightarrow> True)"

lemma settle_reply_shape:
  assumes "settle_reply world n h robots_url max_body_bytes rep = (evs, e)" "0 \<le> max_body_bytes"
  shows "fetch_sent evs = [] \<and> phase_after Reading evs = Some Idle \<and> hop_answers rt robots_url max_body_bytes e"
proof (cases "rep_body rep")
  case (Inl f)
  obtain evs' e' where f: "handle_failure world n h (Some (reply_status (rep_reply rep))) f = (evs', e')" by fastforce
  show ?thesis using assms handle_failure_shape [OF f] by (auto simp: settle_reply_def Inl f Let_def hop_answers_def)
next
  case (Inr body)
  then show ?thesis
    using assms by (auto simp: settle_reply_def Let_def hop_answers_def read_bounded_body_def is_deferral_def)
qed

lemma read_reply_shape:
  assumes "read_reply rt world n h robots_url current max_body_bytes rep = (evs, e)" "0 \<le> max_body_bytes"
  shows "fetch_sent evs = [] \<and> phase_after Reading evs = Some Idle \<and> hop_answers rt robots_url max_body_bytes e"
proof -
  have errors: "validate_robots_peer rt reply = (xs, Inl x) \<Longrightarrow> xs \<in> {[], [Fetch_Closed]} \<and> \<not> is_deferral x"
      "robots_redirect_target rt reply current = Inl x \<Longrightarrow> \<not> is_deferral x"
      "validate_robots_redirect rt current target k status = Inl x \<Longrightarrow> \<not> is_deferral x" for reply xs x target k status
    by (auto simp: validate_robots_peer_def robots_redirect_target_def validate_robots_redirect_def is_deferral_def
        split: option.splits list.splits if_splits sum.splits request_error.splits)
  show ?thesis
    using assms settle_reply_shape
    by (auto simp: read_reply_def Let_def hop_answers_def split: prod.splits sum.splits option.splits dest: errors)
qed

lemma fetch_hop_shape:
  assumes "fetch_hop rt world n robots_url current max_body_bytes = (evs, e)" "0 \<le> max_body_bytes"
  shows "hop_answers rt robots_url max_body_bytes e \<and>
    (evs = [] \<and> (\<exists>x. e = Hop_Failed x) \<or>
     fetch_sent evs = [current] \<and> rejection_reason_for_url (val_urlparse (rt_validator rt)) (rt_guard rt) current = None \<and>
     (phase_after Idle evs = Some Idle \<or> phase_after Idle evs = Some Asked \<and> (\<exists>x. e = Hop_Failed x)))"
proof (cases "rejection_reason_for_url (val_urlparse (rt_validator rt)) (rt_guard rt) current")
  case (Some reason)
  then show ?thesis using assms by (auto simp: fetch_hop_def hop_answers_def is_deferral_def)
next
  case passed: None
  show ?thesis
  proof (cases "tw_acquire world n (transport_host rt current)")
    case (Some kind)
    then show ?thesis using assms passed by (auto simp: fetch_hop_def hop_answers_def is_deferral_def)
  next
    case None
    show ?thesis
    proof (cases "tw_get world n current")
      case (Inl f)
      obtain evs' e' where f: "handle_failure world n (transport_host rt current) None f = (evs', e')" by fastforce
      show ?thesis
        using assms handle_failure_shape [OF f] passed None Inl by (auto simp: fetch_hop_def f hop_answers_def)
    next
      case (Inr rep)
      obtain evs' e' where f: "read_reply rt world n (transport_host rt current) robots_url current max_body_bytes rep = (evs', e')"
        by fastforce
      show ?thesis
        using assms read_reply_shape [OF f] passed None Inr by (auto simp: fetch_hop_def f)
    qed
  qed
qed

fun shared_chain :: "redirect_validator \<Rightarrow> string \<Rightarrow> string list \<Rightarrow> bool" where
  "shared_chain v current [] = True"
| "shared_chain v current (u # us) \<longleftrightarrow> shared_hop_ok v current u \<and> shared_chain v u us"

lemma fetch_loop_run:
  "fetch_loop rt world n robots_url current max_body_bytes = (evs, r) \<Longrightarrow> 0 \<le> max_body_bytes \<Longrightarrow>
   int n \<le> robots_max_redirects (val_settings (rt_validator rt)) \<Longrightarrow>
   int n + int (length (fetch_sent evs)) \<le> robots_max_redirects (val_settings (rt_validator rt)) + 1 \<and>
   (\<forall>u\<in>set (fetch_sent evs). rejection_reason_for_url (val_urlparse (rt_validator rt)) (rt_guard rt) u = None) \<and>
   (fetch_sent evs \<noteq> [] \<longrightarrow> hd (fetch_sent evs) = current) \<and>
   shared_chain (rt_validator rt) current (tl (fetch_sent evs)) \<and>
   (\<exists>p\<in>{Idle, Asked}. phase_after Idle evs = Some p) \<and>
   hop_answers rt robots_url max_body_bytes (case r of Inl x \<Rightarrow> Hop_Failed x | Inr f \<Rightarrow> Hop_Loaded f)"
proof (induction rt world n robots_url current max_body_bytes arbitrary: evs r rule: fetch_loop.induct)
  case (1 rt world n robots_url current max_body_bytes)
  obtain evs0 e where first: "fetch_hop rt world n robots_url current max_body_bytes = (evs0, e)" by fastforce
  note shape = fetch_hop_shape [OF first "1.prems"(2)]
  note run = "1.prems"(1) [unfolded fetch_loop.simps [of rt world n robots_url current max_body_bytes] first]
  show ?case
  proof (cases e)
    case (Hop_Redirect target)
    obtain evs' r' where rest: "fetch_loop rt world (n + 1) robots_url target max_body_bytes = (evs', r')" by fastforce
    have hop: "validate_robots_hop (rt_validator rt) current target (int n + 1) = Inr ()"
      by (rule hop_redirect_ok [OF first [unfolded Hop_Redirect]])
    then have k: "int (n + 1) \<le> robots_max_redirects (val_settings (rt_validator rt))"
        and ok: "shared_hop_ok (rt_validator rt) current target" by (simp_all add: robots_hop_iff)
    note IH = "1.IH" [OF first [symmetric] Hop_Redirect rest "1.prems"(2) k]
    have evs: "evs = evs0 @ evs'" "r = r'" using run rest by (simp_all add: Hop_Redirect)
    have "fetch_sent evs0 = [current] \<and> phase_after Idle evs0 = Some Idle \<and>
        rejection_reason_for_url (val_urlparse (rt_validator rt)) (rt_guard rt) current = None"
      using shape by (auto simp: Hop_Redirect)
    moreover have "shared_chain (rt_validator rt) current (fetch_sent evs')"
      using IH ok by (cases "fetch_sent evs'") auto
    ultimately show ?thesis using IH k by (auto simp: evs phase_after_append)
  qed (use run shape "1.prems"(3) in auto)
qed

section \<open>Properties\<close>


text \<open>The documents of the loader have the table of delays of their text.\<close>

lemma load_robots_parsed: "parsed_lookup (\<lambda>u. snd (load_robots rt p world timeout u))"
  by (auto simp: parsed_lookup_def load_robots_def parse_document_def Let_def split: prod.splits sum.splits)


definition sample_transport :: robots_transport where
  "sample_transport = \<lparr>rt_validator = run_validator sample_runner, rt_guard = open_guard, rt_nrm = id, rt_join = (\<lambda>_ l. Some l)\<rparr>"

definition sample_transport_world :: transport_world where
  "sample_transport_world = \<lparr>tw_acquire = (\<lambda>_ _. None),
     tw_get = (\<lambda>_ u. Inr \<lparr>rep_reply = \<lparr>reply_status = 200, reply_location = None, reply_peer = Some public_peer\<rparr>,
       rep_final_url = u, rep_body = Inr ''User-agent: *''\<rparr>),
     tw_hints = (\<lambda>_. None)\<rparr>"

lemma sample_fetch:
  "fetch_robots sample_transport sample_transport_world ''p'' 1 5 =
    ([Fetch_Sent ''p'', Fetch_Opened, Fetch_Hinted (Some ''h''), Fetch_Released, Fetch_Reported (Some ''h'') 200],
     Inr \<lparr>fetched_requested_url = ''p'', fetched_final_url = ''p'', fetched_status = 200, fetched_body = ''User-'',
       fetched_retry_after = None\<rparr>)"
proof -
  have "fetch_hop sample_transport sample_transport_world 0 ''p'' ''p'' 5 =
    ([Fetch_Sent ''p'', Fetch_Opened, Fetch_Hinted (Some ''h''), Fetch_Released, Fetch_Reported (Some ''h'') 200],
     Hop_Loaded \<lparr>fetched_requested_url = ''p'', fetched_final_url = ''p'', fetched_status = 200, fetched_body = ''User-'',
       fetched_retry_after = None\<rparr>)"
    by (simp add: fetch_hop_def sample_transport_def sample_transport_world_def sample_runner_def sample_parser_def
        rejection_reason_for_url_def plain_name_accepted transport_host_def read_reply_def validate_robots_peer_def
        public_peer_accepted robots_redirect_target_def redirect_statuses_def settle_reply_def read_bounded_body_def Let_def)
  then show ?thesis unfolding fetch_robots_def by (subst fetch_loop.simps) simp
qed


end
