(* ===== verification/Write_Journal.thy ===== *)
theory Write_Journal imports
  Value_Parser
  "HOL-Library.Sublist"
begin

text \<open>
  The rollback journal of dataset writes, \<open>crawler/storage/datasets/writing/dataset_write_journal.py\<close>,
  over a model of a disk that can lose what has not been flushed: a file has the content the program
  sees and the contents a crash may leave. Every operation is a list of effects, so a crash or a
  raising call is a prefix of it. The digest of a journal and the resolution of paths are arguments.
\<close>

section \<open>The disk\<close>

text \<open>The fields of a journal, and a journal file: its checksum and payload, or text that is no journal.\<close>

record journal =
  jn_state :: string
  jn_id :: string
  jn_tracked :: "(string \<times> bool \<times> int) list"
  jn_payload :: string
  jn_payload_existed :: bool

datatype stored_journal = Garbled | Stored string journal

text \<open>\<open>vis\<close> is what the program sees, \<open>poss\<close> what may be found after a crash.\<close>

record disk =
  vis :: "string \<rightharpoonup> string"
  poss :: "string \<Rightarrow> string option set"
  journals :: "string \<rightharpoonup> stored_journal"
  journals_poss :: "string \<Rightarrow> stored_journal option set"

datatype disk_effect =
  Append_File string string | Replace_File string string | Truncate_File string int | Remove_File string
| Sync_File string | Sync_Dir string | Put_Journal string stored_journal | Drop_Journal string | Sync_Journals

definition parent_of :: "string \<Rightarrow> string" where
  "parent_of p = rev (tl (dropWhile (\<lambda>c. c \<noteq> CHR ''/'') (rev p)))"

text \<open>\<open>os.truncate\<close>, which pads with zero bytes.\<close>

definition truncated :: "int \<Rightarrow> string \<Rightarrow> string" where
  "truncated n c = take (nat n) c @ replicate (nat n - length c) (CHR 0x00)"

definition set_file :: "string \<Rightarrow> string option \<Rightarrow> string option set \<Rightarrow> disk \<Rightarrow> disk" where
  "set_file p c found d = d\<lparr>vis := (vis d)(p := c), poss := (poss d)(p := poss d p \<union> found)\<rparr>"

fun effect :: "disk_effect \<Rightarrow> disk \<Rightarrow> disk" where
  "effect (Append_File p x) d = (let c = (case vis d p of Some c \<Rightarrow> c | None \<Rightarrow> [])
     in set_file p (Some (c @ x)) (Some ` set (map (\<lambda>y. c @ y) (prefixes x))) d)"
| "effect (Replace_File p c) d = set_file p (Some c) {Some c} d"
| "effect (Truncate_File p n) d = (case vis d p of None \<Rightarrow> d | Some c \<Rightarrow> set_file p (Some (truncated n c)) {Some (truncated n c)} d)"
| "effect (Remove_File p) d = set_file p None {None} d"
| "effect (Sync_File p) d = (case vis d p of None \<Rightarrow> d | Some c \<Rightarrow> d\<lparr>poss := (poss d)(p := insert (Some c) (poss d p \<inter> {None}))\<rparr>)"
| "effect (Sync_Dir s) d = d\<lparr>poss := (\<lambda>p. if parent_of p \<noteq> s then poss d p
     else if vis d p = None then {None} else poss d p - {None})\<rparr>"
| "effect (Put_Journal i j) d = d\<lparr>journals := (journals d)(i \<mapsto> j), journals_poss := (journals_poss d)(i := insert (Some j) (journals_poss d i))\<rparr>"
| "effect (Drop_Journal i) d = d\<lparr>journals := (journals d)(i := None), journals_poss := (journals_poss d)(i := insert None (journals_poss d i))\<rparr>"
| "effect Sync_Journals d = d\<lparr>journals_poss := (\<lambda>i. {journals d i})\<rparr>"

fun effects :: "disk_effect list \<Rightarrow> disk \<Rightarrow> disk" where
  "effects [] d = d"
| "effects (e # es) d = effects es (effect e d)"

definition settled :: "disk \<Rightarrow> bool" where
  "settled d \<longleftrightarrow> poss d = (\<lambda>p. {vis d p}) \<and> journals_poss d = (\<lambda>i. {journals d i})"

text \<open>After a crash each file has one of its possible contents.\<close>

definition crashes :: "disk \<Rightarrow> disk \<Rightarrow> bool" where
  "crashes d d' \<longleftrightarrow> settled d' \<and> (\<forall>p. vis d' p \<in> poss d p) \<and> (\<forall>i. journals d' i \<in> journals_poss d i)"

section \<open>The journal\<close>

record journal_env =
  je_digest :: "journal \<Rightarrow> string"
  je_resolve :: "string \<Rightarrow> string option"

datatype journal_error = Journal_Corrupt string | Path_Escapes | Unsafe_Transaction_Id

definition safe_characters :: string where
  "safe_characters = ''abcdefghijklmnopqrstuvwxyzABCDEFGHIJKLMNOPQRSTUVWXYZ0123456789-_''"

definition safe_transaction_id :: "string \<Rightarrow> journal_error + string" where
  "safe_transaction_id v = (let t = py_strip v in
     if t = [] \<or> \<not> list_all (\<lambda>c. c \<in> set safe_characters) t then Inl Unsafe_Transaction_Id else Inr t)"

definition relative_path :: "journal_env \<Rightarrow> string \<Rightarrow> journal_error + string" where
  "relative_path env p = (case je_resolve env p of None \<Rightarrow> Inl Path_Escapes | Some q \<Rightarrow> Inr q)"

definition absolute_path :: "journal_env \<Rightarrow> string \<Rightarrow> journal_error + string" where
  "absolute_path env p = (if p = [] then Inl (Journal_Corrupt ''empty path'')
     else (case je_resolve env p of None \<Rightarrow> Inl (Journal_Corrupt ''escaping path'') | Some q \<Rightarrow> Inr q))"

fun path_snapshots ::
  "journal_env \<Rightarrow> disk \<Rightarrow> string list \<Rightarrow> (string \<times> bool \<times> int) list \<Rightarrow> journal_error + (string \<times> bool \<times> int) list" where
  "path_snapshots env d [] acc = Inr acc"
| "path_snapshots env d (p # ps) acc = (case relative_path env p of Inl e \<Rightarrow> Inl e
     | Inr q \<Rightarrow> path_snapshots env d ps (AList.update q (case vis d q of Some c \<Rightarrow> (True, int (length c)) | None \<Rightarrow> (False, 0)) acc))"

definition write_json_atomic :: "journal_env \<Rightarrow> journal \<Rightarrow> disk_effect list" where
  "write_json_atomic env j = [Put_Journal (jn_id j) (Stored (je_digest env j) j), Sync_Journals]"

definition begin_journal :: "journal_env \<Rightarrow> string \<Rightarrow> string list \<Rightarrow> string \<Rightarrow> disk \<Rightarrow> journal_error + journal" where
  "begin_journal env transaction_id tracked payload d =
    (case safe_transaction_id transaction_id of Inl e \<Rightarrow> Inl e | Inr i \<Rightarrow>
     (case relative_path env payload of Inl e \<Rightarrow> Inl e | Inr q \<Rightarrow>
      (case path_snapshots env d tracked [] of Inl e \<Rightarrow> Inl e | Inr snapshots \<Rightarrow>
        Inr \<lparr>jn_state = ''pending'', jn_id = i, jn_tracked = snapshots, jn_payload = q, jn_payload_existed = (vis d q \<noteq> None)\<rparr>)))"

definition read_verified :: "journal_env \<Rightarrow> disk \<Rightarrow> string \<Rightarrow> journal_error + journal" where
  "read_verified env d i = (case journals d i of
     Some (Stored checksum j) \<Rightarrow> if checksum = je_digest env j then Inr j else Inl (Journal_Corrupt ''checksum mismatch'')
   | _ \<Rightarrow> Inl (Journal_Corrupt ''unreadable''))"

definition require_journal_state :: "journal \<Rightarrow> journal_error + string" where
  "require_journal_state j =
    (if jn_state j \<in> {''pending'', ''committed''} then Inr (jn_state j) else Inl (Journal_Corrupt ''state''))"

definition committed_form :: "journal \<Rightarrow> journal" where
  "committed_form j = j\<lparr>jn_state := ''committed''\<rparr>"

text \<open>\<open>commit\<close>: the durable marker, and the clean-up after it, whose failure only makes the result False.\<close>

definition commit_marker :: "journal_env \<Rightarrow> disk \<Rightarrow> string \<Rightarrow> journal_error + disk_effect list" where
  "commit_marker env d i = (case read_verified env d i of Inl e \<Rightarrow> Inl e | Inr j \<Rightarrow>
     (case require_journal_state j of Inl e \<Rightarrow> Inl e | Inr s \<Rightarrow>
       if s \<noteq> ''pending'' then Inl (Journal_Corrupt ''not pending'') else Inr (write_json_atomic env (committed_form j))))"

definition commit_cleanup :: "string \<Rightarrow> disk_effect list" where
  "commit_cleanup i = [Drop_Journal i, Sync_Journals]"

text \<open>The restoring of tracked files, with the paths that were truncated and the directories to flush.\<close>

fun restore_tracked ::
  "journal_env \<Rightarrow> disk \<Rightarrow> (string \<times> bool \<times> int) list \<Rightarrow> disk_effect list \<times> string list \<times> string list \<times> journal_error option" where
  "restore_tracked env d [] = ([], [], [], None)"
| "restore_tracked env d ((p, existed, bytes) # ts) =
    (case absolute_path env p of Inl e \<Rightarrow> ([], [], [], Some e) | Inr q \<Rightarrow>
      if bytes < 0 then ([], [], [], Some (Journal_Corrupt ''size''))
      else if existed \<and> vis d q = None then ([], [], [], Some (Journal_Corrupt ''tracked file disappeared''))
      else (let e = (if existed then Truncate_File q bytes else Remove_File q) in
        case restore_tracked env (effect e d) ts of (es, files, dirs, err) \<Rightarrow>
          (e # es, (if existed then q # files else files), parent_of q # dirs, err)))"

definition restore_effects :: "journal_env \<Rightarrow> disk \<Rightarrow> journal \<Rightarrow> disk_effect list \<times> journal_error option" where
  "restore_effects env d j = (case restore_tracked env d (jn_tracked j) of
     (es, files, dirs, Some e) \<Rightarrow> (es, Some e)
   | (es, files, dirs, None) \<Rightarrow>
      (case absolute_path env (jn_payload j) of Inl e \<Rightarrow> (es, Some e) | Inr q \<Rightarrow>
        (es @ (if jn_payload_existed j then [] else [Remove_File q]) @ map Sync_File files @
           map Sync_Dir (dirs @ (if jn_payload_existed j then [] else [parent_of q])), None)))"

definition rollback_effects :: "journal_env \<Rightarrow> disk \<Rightarrow> string \<Rightarrow> disk_effect list \<times> journal_error option" where
  "rollback_effects env d i = (case read_verified env d i of Inl e \<Rightarrow> ([], Some e) | Inr j \<Rightarrow>
     (case require_journal_state j of Inl e \<Rightarrow> ([], Some e) | Inr _ \<Rightarrow>
       (case restore_effects env d j of
          (es, Some e) \<Rightarrow> (es, Some e) | (es, None) \<Rightarrow> (es @ [Drop_Journal i, Sync_Journals], None))))"

text \<open>\<open>recover_pending\<close>, over the journals in the order of their names.\<close>

definition recover_one :: "journal_env \<Rightarrow> disk \<Rightarrow> string \<Rightarrow> disk_effect list \<times> journal_error option" where
  "recover_one env d i = (case read_verified env d i of Inl e \<Rightarrow> ([], Some e) | Inr j \<Rightarrow>
     (case require_journal_state j of Inl e \<Rightarrow> ([], Some e) | Inr s \<Rightarrow>
       (case (if s = ''pending'' then restore_effects env d j else ([], None)) of
          (es, Some e) \<Rightarrow> (es, Some e) | (es, None) \<Rightarrow> (es @ [Drop_Journal i], None))))"

fun recover_all :: "journal_env \<Rightarrow> disk \<Rightarrow> string list \<Rightarrow> disk_effect list \<times> journal_error option" where
  "recover_all env d [] = ([], None)"
| "recover_all env d (i # is) = (case recover_one env d i of
     (es, Some e) \<Rightarrow> (es, Some e)
   | (es, None) \<Rightarrow> (case recover_all env (effects es d) is of (es', err) \<Rightarrow> (es @ es', err)))"

definition recover_pending :: "journal_env \<Rightarrow> disk \<Rightarrow> string list \<Rightarrow> disk_effect list \<times> journal_error option" where
  "recover_pending env d is = (case recover_all env d is of
     (es, Some e) \<Rightarrow> (es, Some e) | (es, None) \<Rightarrow> (es @ (if is = [] then [] else [Sync_Journals]), None))"

section \<open>Lemmas\<close>

subsection \<open>Transactions\<close>

lemma effects_append: "effects (xs @ ys) d = effects ys (effects xs d)"
  by (induction xs arbitrary: d) simp_all

text \<open>What is relied on of the resolution of paths: a resolved path is its own resolution.\<close>

definition resolve_ok :: "journal_env \<Rightarrow> bool" where
  "resolve_ok env \<longleftrightarrow> (\<forall>p q. je_resolve env p = Some q \<longrightarrow> q \<noteq> [] \<and> je_resolve env q = Some q)"

definition snapshot_ok :: "journal_env \<Rightarrow> disk \<Rightarrow> string \<times> bool \<times> int \<Rightarrow> bool" where
  "snapshot_ok env D s = (case s of (p, existed, n) \<Rightarrow> p \<noteq> [] \<and> je_resolve env p = Some p \<and>
     (case vis D p of Some c \<Rightarrow> existed \<and> n = int (length c) | None \<Rightarrow> \<not> existed \<and> n = 0))"

definition tx_ok :: "journal_env \<Rightarrow> disk \<Rightarrow> journal \<Rightarrow> bool" where
  "tx_ok env D j \<longleftrightarrow> distinct (map fst (jn_tracked j)) \<and> (\<forall>s\<in>set (jn_tracked j). snapshot_ok env D s) \<and>
     jn_payload j \<noteq> [] \<and> je_resolve env (jn_payload j) = Some (jn_payload j) \<and>
     jn_payload_existed j = (vis D (jn_payload j) \<noteq> None) \<and> jn_state j = ''pending''"

lemma update_snapshots: "s \<in> set (AList.update k v xs) \<Longrightarrow> s = (k, v) \<or> s \<in> set xs"
  by (induction xs) (auto split: if_splits)

lemma path_snapshots_ok:
  "path_snapshots env D ps acc = Inr ss \<Longrightarrow> resolve_ok env \<Longrightarrow> distinct (map fst acc) \<Longrightarrow> \<forall>s\<in>set acc. snapshot_ok env D s \<Longrightarrow>
   distinct (map fst ss) \<and> (\<forall>s\<in>set ss. snapshot_ok env D s)"
proof (induction env D ps acc arbitrary: ss rule: path_snapshots.induct)
  case (2 env d p ps acc)
  obtain q where q: "relative_path env p = Inr q" using "2.prems"(1) by (cases "relative_path env p") auto
  then have "je_resolve env q = Some q" "q \<noteq> []"
    using "2.prems"(2) by (auto simp: relative_path_def resolve_ok_def split: option.splits)
  then have "snapshot_ok env d (q, case vis d q of Some c \<Rightarrow> (True, int (length c)) | None \<Rightarrow> (False, 0))"
    by (simp add: snapshot_ok_def split: option.splits)
  then show ?case
    using "2.IH" [OF q] "2.prems" by (auto simp: q distinct_update dest: update_snapshots)
qed simp

lemma begin_journal_ok: "begin_journal env tid tracked payload D = Inr j \<Longrightarrow> resolve_ok env \<Longrightarrow> tx_ok env D j"
  using path_snapshots_ok [of env D tracked "[]"]
  by (auto simp: begin_journal_def tx_ok_def relative_path_def resolve_ok_def split: sum.splits option.splits)

definition touchable :: "journal \<Rightarrow> string \<Rightarrow> bool" where
  "touchable j p \<longleftrightarrow> p \<in> fst ` set (jn_tracked j) \<or> p = jn_payload j \<and> \<not> jn_payload_existed j"

text \<open>What a transaction may do to files: existing ones only grow, and go back to their old size.\<close>

fun allowed :: "disk \<Rightarrow> journal \<Rightarrow> disk_effect \<Rightarrow> bool" where
  "allowed D j (Append_File p x) = touchable j p"
| "allowed D j (Replace_File p c) = (touchable j p \<and> vis D p = None)"
| "allowed D j (Remove_File p) = (touchable j p \<and> vis D p = None)"
| "allowed D j (Truncate_File p n) = (touchable j p \<and> (case vis D p of Some c \<Rightarrow> n = int (length c) | None \<Rightarrow> True))"
| "allowed D j (Sync_File p) = True"
| "allowed D j (Sync_Dir s) = True"
| "allowed D j _ = False"

definition kept :: "disk \<Rightarrow> journal \<Rightarrow> string \<Rightarrow> string option \<Rightarrow> bool" where
  "kept D j p c \<longleftrightarrow> (if touchable j p then (case vis D p of Some b \<Rightarrow> (\<exists>x. c = Some (b @ x)) | None \<Rightarrow> True) else c = vis D p)"

definition inside_tx :: "disk \<Rightarrow> journal \<Rightarrow> disk \<Rightarrow> bool" where
  "inside_tx D j d \<longleftrightarrow> (\<forall>p. vis d p \<in> poss d p \<and> (\<forall>c\<in>poss d p. kept D j p c))"

lemma inside_txD: "inside_tx D j d \<Longrightarrow> kept D j p (vis d p)"
  by (auto simp: inside_tx_def)

lemma inside_tx_set_file:
  assumes "inside_tx D j d" "c \<in> found" "\<forall>c\<in>found. kept D j p c"
  shows "inside_tx D j (set_file p c found d)"
  using assms by (auto simp: inside_tx_def set_file_def)

lemma inside_tx_effect:
  assumes w: "inside_tx D j d" and e: "allowed D j e"
  shows "inside_tx D j (effect e d)"
proof (cases e)
  case (Append_File p x)
  then have t: "touchable j p" using e by simp
  let ?c = "case vis d p of Some c \<Rightarrow> c | None \<Rightarrow> []"
  have "kept D j p (Some (?c @ y))" for y
    using inside_txD [OF w, of p] t by (auto simp: kept_def split: option.splits)
  then show ?thesis unfolding Append_File effect.simps Let_def by (intro inside_tx_set_file [OF w]) auto
next
  case (Truncate_File p n)
  show ?thesis
  proof (cases "vis d p")
    case (Some c)
    have "kept D j p (Some (truncated n c))"
      using inside_txD [OF w, of p] e Truncate_File Some by (auto simp: kept_def truncated_def split: option.splits)
    then show ?thesis unfolding Truncate_File effect.simps Some option.case by (intro inside_tx_set_file [OF w]) auto
  qed (use w in \<open>simp add: Truncate_File\<close>)
next
  case (Sync_File p)
  then show ?thesis using w inside_txD [OF w, of p] by (cases "vis d p") (auto simp: inside_tx_def)
next
  case (Sync_Dir s)
  have "kept D j p (vis d p)" for p by (rule inside_txD [OF w])
  then show ?thesis using w unfolding Sync_Dir inside_tx_def by simp metis
qed (use w e in \<open>auto simp: kept_def intro!: inside_tx_set_file\<close>)

lemma inside_tx_effects: "inside_tx D j d \<Longrightarrow> \<forall>e\<in>set es. allowed D j e \<Longrightarrow> inside_tx D j (effects es d)"
  by (induction es arbitrary: d) (auto intro: inside_tx_effect)

lemma allowed_journals: "allowed D j e \<Longrightarrow> journals (effect e d) = journals d \<and> journals_poss (effect e d) = journals_poss d"
  by (cases e) (auto simp: set_file_def Let_def split: option.splits)

lemma allowed_journals_all:
  "\<forall>e\<in>set es. allowed D j e \<Longrightarrow> journals (effects es d) = journals d \<and> journals_poss (effects es d) = journals_poss d"
  by (induction es arbitrary: d) (auto simp: allowed_journals)

subsection \<open>Restoring\<close>

definition restore_effect :: "string \<times> bool \<times> int \<Rightarrow> disk_effect" where
  "restore_effect s = (case s of (p, existed, n) \<Rightarrow> if existed then Truncate_File p n else Remove_File p)"

lemma restore_effect_allowed:
  assumes "tx_ok env D j" "s \<in> set (jn_tracked j)"
  shows "allowed D j (restore_effect s)"
proof -
  obtain p existed n where s: "s = (p, existed, n)" by (cases s)
  have "snapshot_ok env D s" using assms by (simp add: tx_ok_def)
  moreover have "touchable j p" using assms(2) by (force simp: touchable_def s)
  ultimately show ?thesis by (auto simp: s snapshot_ok_def restore_effect_def split: option.splits)
qed

lemma tracked_visible:
  assumes "tx_ok env D j" "inside_tx D j d" "(p, True, n) \<in> set (jn_tracked j)"
  shows "vis d p \<noteq> None"
proof -
  have "snapshot_ok env D (p, True, n)" using assms(1,3) by (simp add: tx_ok_def)
  moreover have "touchable j p" using assms(3) by (force simp: touchable_def)
  ultimately show ?thesis using inside_txD [OF assms(2), of p] by (auto simp: snapshot_ok_def kept_def split: option.splits)
qed

lemma restore_tracked_eq:
  assumes "tx_ok env D j"
  shows "set ts \<subseteq> set (jn_tracked j) \<Longrightarrow> inside_tx D j d \<Longrightarrow>
    restore_tracked env d ts =
      (map restore_effect ts, map fst (filter (\<lambda>s. fst (snd s)) ts), map (\<lambda>s. parent_of (fst s)) ts, None)"
proof (induction ts arbitrary: d)
  case (Cons s ts)
  obtain p existed n where s: "s = (p, existed, n)" by (cases s)
  have "snapshot_ok env D s" using assms Cons.prems(1) by (simp add: tx_ok_def)
  then have p: "absolute_path env p = Inr p" "\<not> n < 0"
    by (auto simp: s snapshot_ok_def absolute_path_def split: option.splits)
  have "existed \<Longrightarrow> vis d p \<noteq> None"
    using tracked_visible [OF assms Cons.prems(2), of p n] Cons.prems(1) by (simp add: s)
  moreover have "inside_tx D j (effect (restore_effect s) d)"
    using inside_tx_effect [OF Cons.prems(2) restore_effect_allowed [OF assms, of s]] Cons.prems(1) by simp
  then have "restore_tracked env (effect (restore_effect s) d) ts =
      (map restore_effect ts, map fst (filter (\<lambda>s. fst (snd s)) ts), map (\<lambda>s. parent_of (fst s)) ts, None)"
    using Cons.IH Cons.prems(1) by simp
  ultimately show ?case using p by (simp add: s restore_effect_def)
qed simp

definition restore_list :: "journal \<Rightarrow> disk_effect list" where
  "restore_list j = map restore_effect (jn_tracked j) @ (if jn_payload_existed j then [] else [Remove_File (jn_payload j)])"

definition flush_list :: "journal \<Rightarrow> disk_effect list" where
  "flush_list j = map Sync_File (map fst (filter (\<lambda>s. fst (snd s)) (jn_tracked j))) @
     map Sync_Dir (map (\<lambda>s. parent_of (fst s)) (jn_tracked j) @
       (if jn_payload_existed j then [] else [parent_of (jn_payload j)]))"

lemma restore_effects_eq:
  assumes "tx_ok env D j" "inside_tx D j d"
  shows "restore_effects env d j = (restore_list j @ flush_list j, None)"
proof -
  have "absolute_path env (jn_payload j) = Inr (jn_payload j)" using assms(1) by (simp add: tx_ok_def absolute_path_def)
  then show ?thesis
    using restore_tracked_eq [OF assms(1) subset_refl assms(2)] by (simp add: restore_effects_def restore_list_def flush_list_def)
qed

lemma restore_allowed: "tx_ok env D j \<Longrightarrow> e \<in> set (restore_list j @ flush_list j) \<Longrightarrow> allowed D j e"
  using restore_effect_allowed [of env D j]
  by (auto simp: restore_list_def flush_list_def tx_ok_def touchable_def split: if_splits)

text \<open>After the first part every file is seen as it was at the beginning.\<close>

lemma allowed_keeps_original:
  assumes "vis d p = vis D p" "(\<exists>n. e = Truncate_File q n) \<or> e = Remove_File q" "allowed D j e"
  shows "vis (effect e d) p = vis D p"
  using assms by (cases "q = p") (auto simp: set_file_def truncated_def split: option.splits)

lemma restore_step_visible:
  assumes "tx_ok env D j" "inside_tx D j d" "(p, existed, n) \<in> set (jn_tracked j)"
  shows "vis (effect (restore_effect (p, existed, n)) d) p = vis D p"
proof -
  have s: "snapshot_ok env D (p, existed, n)" and t: "touchable j p"
    using assms(1,3) by (force simp: tx_ok_def touchable_def)+
  show ?thesis
  proof (cases existed)
    case True
    then obtain b where b: "vis D p = Some b" "n = int (length b)" using s by (auto simp: snapshot_ok_def split: option.splits)
    obtain x where "vis d p = Some (b @ x)" using inside_txD [OF assms(2), of p] b t by (auto simp: kept_def)
    then show ?thesis using b True by (simp add: restore_effect_def set_file_def truncated_def)
  next
    case False
    then have "vis D p = None" using s by (auto simp: snapshot_ok_def split: option.splits)
    then show ?thesis using False by (simp add: restore_effect_def set_file_def)
  qed
qed

lemma restore_effect_shape: "\<exists>q. (\<exists>n. restore_effect s = Truncate_File q n) \<or> restore_effect s = Remove_File q"
  by (cases s) (simp add: restore_effect_def)

lemma restore_map_visible:
  assumes "tx_ok env D j"
  shows "set ts \<subseteq> set (jn_tracked j) \<Longrightarrow> inside_tx D j d \<Longrightarrow> vis d p = vis D p \<or> p \<in> fst ` set ts \<Longrightarrow>
    vis (effects (map restore_effect ts) d) p = vis D p"
proof (induction ts arbitrary: d)
  case (Cons s ts)
  have al: "allowed D j (restore_effect s)" using restore_effect_allowed [OF assms] Cons.prems(1) by simp
  have w: "inside_tx D j (effect (restore_effect s) d)" by (rule inside_tx_effect [OF Cons.prems(2) al])
  have "vis (effect (restore_effect s) d) p = vis D p \<or> p \<in> fst ` set ts"
  proof (cases "fst s = p")
    case True
    then show ?thesis using restore_step_visible [OF assms Cons.prems(2), of p "fst (snd s)" "snd (snd s)"] Cons.prems(1) by auto
  next
    case False
    then show ?thesis
      using Cons.prems(3) allowed_keeps_original [of d p D "restore_effect s"] al restore_effect_shape [of s] by auto
  qed
  then show ?case using Cons.IH [OF _ w] Cons.prems(1) by simp
qed simp

lemma restore_list_visible:
  assumes "tx_ok env D j" "inside_tx D j d"
  shows "vis (effects (restore_list j) d) = vis D"
proof
  fix p
  let ?d = "effects (map restore_effect (jn_tracked j)) d"
  have w: "inside_tx D j ?d" using restore_effect_allowed [OF assms(1)] by (intro inside_tx_effects [OF assms(2)]) auto
  have tracked: "p \<in> fst ` set (jn_tracked j) \<Longrightarrow> vis ?d p = vis D p"
    using restore_map_visible [OF assms(1) subset_refl assms(2)] by blast
  have other: "\<not> touchable j p \<Longrightarrow> vis ?d p = vis D p" using inside_txD [OF w, of p] by (simp add: kept_def)
  show "vis (effects (restore_list j) d) p = vis D p"
  proof (cases "jn_payload_existed j")
    case True
    then show ?thesis using tracked other by (auto simp: restore_list_def touchable_def)
  next
    case False
    then have "vis D (jn_payload j) = None" using assms(1) by (simp add: tx_ok_def)
    then show ?thesis using tracked other False by (auto simp: restore_list_def effects_append set_file_def touchable_def)
  qed
qed

text \<open>After the flushes nothing else may be found.\<close>

definition fixed :: "string \<Rightarrow> disk \<Rightarrow> bool" where
  "fixed p d \<longleftrightarrow> poss d p = {vis d p}"

lemma flush_keeps: "e = Sync_File q \<or> e = Sync_Dir q \<Longrightarrow> vis (effect e d) = vis d \<and> (fixed p d \<longrightarrow> fixed p (effect e d))"
  by (auto simp: fixed_def split: option.splits if_splits)

lemma flushes_keep:
  "\<forall>e\<in>set es. (\<exists>q. e = Sync_File q \<or> e = Sync_Dir q) \<Longrightarrow> vis (effects es d) = vis d \<and> (fixed p d \<longrightarrow> fixed p (effects es d))"
proof (induction es arbitrary: d)
  case (Cons e es)
  then obtain q where q: "e = Sync_File q \<or> e = Sync_Dir q" by auto
  show ?case using flush_keeps [OF q, of d p] Cons.IH [of "effect e d"] Cons.prems by (simp del: effect.simps)
qed simp

lemma flush_fixes:
  assumes "\<forall>e\<in>set es. \<exists>q. e = Sync_File q \<or> e = Sync_Dir q"
    and "Sync_File p \<in> set es \<and> None \<notin> poss d p \<and> vis d p \<noteq> None \<or> Sync_Dir (parent_of p) \<in> set es \<and> vis d p = None \<or> fixed p d"
  shows "fixed p (effects es d)"
  using assms
proof (induction es arbitrary: d)
  case (Cons e es)
  obtain q where q: "e = Sync_File q \<or> e = Sync_Dir q" using Cons.prems(1) by auto
  have v: "vis (effect e d) = vis d" using flush_keeps [OF q] by simp
  have n: "None \<notin> poss d p \<Longrightarrow> vis d p \<noteq> None \<Longrightarrow> None \<notin> poss (effect e d) p" using q by (auto split: option.splits if_splits)
  consider "fixed p (effect e d)" | "Sync_File p \<in> set es" "None \<notin> poss d p" "vis d p \<noteq> None"
    | "Sync_Dir (parent_of p) \<in> set es" "vis d p = None"
    using Cons.prems(2) flush_keeps [OF q, of d p] q by (auto simp: fixed_def split: option.splits if_splits)
  then show ?case
  proof cases
    case 1
    then show ?thesis using flushes_keep [of es "effect e d" p] Cons.prems(1) by simp
  next
    case 2
    then show ?thesis using Cons.IH [of "effect e d"] Cons.prems(1) v n by simp
  next
    case 3
    then show ?thesis using Cons.IH [of "effect e d"] Cons.prems(1) v by simp
  qed
qed simp

definition files_are :: "(string \<rightharpoonup> string) \<Rightarrow> disk \<Rightarrow> bool" where
  "files_are F d \<longleftrightarrow> vis d = F \<and> poss d = (\<lambda>p. {F p})"

lemma flush_list_dir: "touchable j p \<Longrightarrow> Sync_Dir (parent_of p) \<in> set (flush_list j)"
  unfolding touchable_def flush_list_def by (elim disjE imageE conjE) simp_all

lemma flush_list_file: "(p, True, n) \<in> set (jn_tracked j) \<Longrightarrow> Sync_File p \<in> set (flush_list j)"
  unfolding flush_list_def by (simp add: image_iff) (metis fst_conv snd_conv)

lemma restore_settles:
  assumes "tx_ok env D j" "inside_tx D j d"
  shows "files_are (vis D) (effects (restore_list j @ flush_list j) d)"
proof -
  let ?d = "effects (restore_list j) d"
  have v: "vis ?d = vis D" by (rule restore_list_visible [OF assms])
  have w: "inside_tx D j ?d" using restore_allowed [OF assms(1)] by (intro inside_tx_effects [OF assms(2)]) auto
  have fl: "\<forall>e\<in>set (flush_list j). \<exists>q. e = Sync_File q \<or> e = Sync_Dir q" by (auto simp: flush_list_def split: if_splits)
  have "fixed p (effects (flush_list j) ?d)" for p
  proof (rule flush_fixes [OF fl])
    have k: "\<forall>c\<in>poss ?d p. kept D j p c" and i: "vis ?d p \<in> poss ?d p" using w by (simp_all add: inside_tx_def)
    show "Sync_File p \<in> set (flush_list j) \<and> None \<notin> poss ?d p \<and> vis ?d p \<noteq> None \<or>
        Sync_Dir (parent_of p) \<in> set (flush_list j) \<and> vis ?d p = None \<or> fixed p ?d"
    proof (cases "touchable j p")
      case False
      then have "kept D j p = (\<lambda>c. c = vis ?d p)" unfolding v by (intro ext) (simp add: kept_def)
      then have "poss ?d p \<subseteq> {vis ?d p}" using k by (metis singletonI subsetI)
      then have "fixed p ?d" using i unfolding fixed_def by blast
      then show ?thesis by blast
    next
      case True
      show ?thesis
      proof (cases "vis D p")
        case None
        have "Sync_Dir (parent_of p) \<in> set (flush_list j)" by (rule flush_list_dir [OF True])
        then show ?thesis using v None by simp
      next
        case (Some b)
        have "p = jn_payload j \<Longrightarrow> jn_payload_existed j" using assms(1) Some by (simp add: tx_ok_def)
        then have "p \<in> fst ` set (jn_tracked j)" using True by (auto simp: touchable_def)
        then obtain ex n where s: "(p, ex, n) \<in> set (jn_tracked j)" by auto
        then have "snapshot_ok env D (p, ex, n)" using assms(1) by (simp add: tx_ok_def)
        then have ex by (simp add: snapshot_ok_def Some)
        then have "Sync_File p \<in> set (flush_list j)" using s by (intro flush_list_file) simp
        moreover have "None \<notin> poss ?d p" using k True Some by (auto simp: kept_def)
        ultimately show ?thesis using v Some by simp
      qed
    qed
  qed
  moreover have "vis (effects (flush_list j) ?d) = vis D" using flushes_keep [OF fl, of ?d] v by simp
  ultimately show ?thesis by (auto simp: files_are_def fixed_def effects_append)
qed

subsection \<open>Recovery\<close>

definition pending_form :: "journal_env \<Rightarrow> journal \<Rightarrow> stored_journal option" where
  "pending_form env j = Some (Stored (je_digest env j) j)"

text \<open>A journal that a completed commit may leave behind.\<close>

definition leftover :: "journal_env \<Rightarrow> stored_journal option \<Rightarrow> bool" where
  "leftover env s \<longleftrightarrow> s = None \<or> (\<exists>c. s = Some (Stored (je_digest env c) c) \<and> jn_state c = ''committed'')"

lemma leftover_simps [simp]: "leftover env None" "tx_ok env D j \<Longrightarrow> \<not> leftover env (pending_form env j)"
  by (auto simp: leftover_def pending_form_def tx_ok_def)

text \<open>Recovery leads back to \<open>D\<close>: the journal is pending, or the files are as in \<open>D\<close>.\<close>

definition leads_to :: "journal_env \<Rightarrow> disk \<Rightarrow> journal \<Rightarrow> disk \<Rightarrow> bool" where
  "leads_to env D j d \<longleftrightarrow> inside_tx D j d \<and> (\<forall>i. journals d i \<in> journals_poss d i) \<and>
     (\<forall>i. \<forall>s\<in>journals_poss d i. leftover env s \<or> i = jn_id j \<and> s = pending_form env j \<and> tx_ok env D j) \<and>
     ((\<exists>s\<in>journals_poss d (jn_id j). leftover env s) \<longrightarrow> files_are (vis D) d)"

lemma files_are_inside: "files_are (vis D) d \<Longrightarrow> inside_tx D j d"
  by (auto simp: files_are_def inside_tx_def kept_def split: option.splits)

lemma leads_to_crash:
  assumes "leads_to env D j d" "crashes d d'"
  shows "leads_to env D j d'"
proof -
  have c: "poss d' = (\<lambda>p. {vis d' p})" "journals_poss d' = (\<lambda>i. {journals d' i})" "\<And>p. vis d' p \<in> poss d p"
      "\<And>i. journals d' i \<in> journals_poss d i"
    using assms(2) by (auto simp: crashes_def settled_def)
  have "inside_tx D j d'" using assms(1) c(3) by (simp add: leads_to_def inside_tx_def c(1))
  moreover have "files_are (vis D) d \<Longrightarrow> files_are (vis D) d'"
    using c(3) by (auto simp: files_are_def c(1))
  ultimately show ?thesis using assms(1) c(4) unfolding leads_to_def c(2) by blast
qed

lemma leads_to_sync: "leads_to env D j d \<Longrightarrow> leads_to env D j (effect Sync_Journals d)"
  by (auto simp: leads_to_def inside_tx_def files_are_def)

lemma leads_to_allowed:
  assumes "leads_to env D j d" "\<forall>s\<in>journals_poss d (jn_id j). \<not> leftover env s" "\<forall>e\<in>set es. allowed D j e"
  shows "leads_to env D j (effects es d)"
  using assms allowed_journals_all [OF assms(3), of d] inside_tx_effects [OF _ assms(3), of d]
  by (auto simp: leads_to_def)

lemma leads_to_drop:
  "leads_to env D j d \<Longrightarrow> i = jn_id j \<longrightarrow> files_are (vis D) d \<Longrightarrow> leads_to env D j (effect (Drop_Journal i) d)"
  by (auto simp: leads_to_def inside_tx_def files_are_def)

lemma take_append_cases: "\<exists>k. take m (xs @ ys) = take k xs \<or> take m (xs @ ys) = xs @ take k ys"
  by (metis take_all linear take_append append_Nil2 take_0 diff_is_0_eq)

lemma prefixes_snoc: "(\<And>m. P (take m es)) \<Longrightarrow> P (es @ [x]) \<Longrightarrow> P (take m (es @ [x]))"
  by (cases "m \<le> length es") simp_all

lemma take_single_cases: "take m [x] = [] \<or> take m [x] = [x]"
  by (cases m) simp_all

lemma take_in_set: "\<forall>e\<in>set es. P e \<Longrightarrow> \<forall>e\<in>set (take m es). P e"
  by (meson in_set_takeD)

lemma recover_one_leads:
  assumes "leads_to env D j d" "journals d i \<noteq> None" "i = jn_id j \<longrightarrow> journals_poss d i = {journals d i}"
  shows "\<exists>es. recover_one env d i = (es, None) \<and> (\<forall>m. leads_to env D j (effects (take m es) d)) \<and>
    journals (effects es d) = (journals d)(i := None) \<and>
    (\<forall>k. k \<noteq> i \<longrightarrow> journals_poss (effects es d) k = journals_poss d k)"
proof (cases "leftover env (journals d i)")
  case True
  then obtain c where c: "journals d i = Some (Stored (je_digest env c) c)" "jn_state c = ''committed''"
    using assms(2) by (auto simp: leftover_def)
  then have "recover_one env d i = ([Drop_Journal i], None)"
    by (simp add: recover_one_def read_verified_def require_journal_state_def)
  moreover have "i = jn_id j \<longrightarrow> files_are (vis D) d"
    using assms(1) True by (auto simp: leads_to_def)
  then have "leads_to env D j (effect (Drop_Journal i) d)" by (rule leads_to_drop [OF assms(1)])
  then have "leads_to env D j (effects (take m [Drop_Journal i]) d)" for m
    using assms(1) take_single_cases [of m "Drop_Journal i"] by auto
  ultimately show ?thesis by auto
next
  case False
  then have i: "i = jn_id j" "journals d i = pending_form env j" and ok: "tx_ok env D j"
    using assms(1) unfolding leads_to_def by blast+
  have w: "inside_tx D j d" using assms(1) by (simp add: leads_to_def)
  let ?r = "restore_list j @ flush_list j"
  have run: "recover_one env d i = (?r @ [Drop_Journal i], None)"
    using i ok by (simp add: recover_one_def read_verified_def pending_form_def require_journal_state_def tx_ok_def
        restore_effects_eq [OF ok w])
  have al: "\<forall>e\<in>set ?r. allowed D j e" using restore_allowed [OF ok] by blast
  have nl: "\<forall>s\<in>journals_poss d (jn_id j). \<not> leftover env s" using assms(3) i False by simp
  have part: "leads_to env D j (effects (take m ?r) d)" for m
    by (rule leads_to_allowed [OF assms(1) nl take_in_set [OF al]])
  have whole: "leads_to env D j (effects ?r d)" using part [of "length ?r"] by simp
  have "leads_to env D j (effect (Drop_Journal i) (effects ?r d))"
    using leads_to_drop [OF whole] restore_settles [OF ok w] by simp
  then have "leads_to env D j (effects (take m (?r @ [Drop_Journal i])) d)" for m
    using part by (intro prefixes_snoc [of "\<lambda>es. leads_to env D j (effects es d)"]) (simp_all add: effects_append del: append_assoc)
  moreover have "journals (effects (?r @ [Drop_Journal i]) d) = (journals d)(i := None)"
      "k \<noteq> i \<longrightarrow> journals_poss (effects (?r @ [Drop_Journal i]) d) k = journals_poss d k" for k
    using allowed_journals_all [OF al, of d] by (simp_all add: effects_append del: append_assoc)
  ultimately show ?thesis using run by blast
qed

lemma recover_all_leads:
  "leads_to env D j d \<Longrightarrow> distinct is \<Longrightarrow> set is \<subseteq> dom (journals d) \<Longrightarrow>
   jn_id j \<in> set is \<longrightarrow> journals_poss d (jn_id j) = {journals d (jn_id j)} \<Longrightarrow>
   \<exists>es. recover_all env d is = (es, None) \<and> (\<forall>m. leads_to env D j (effects (take m es) d)) \<and>
     journals (effects es d) = journals d |` (- set is)"
proof (induction "is" arbitrary: d)
  case Nil
  then show ?case by simp
next
  case (Cons i "is")
  obtain es where es: "recover_one env d i = (es, None)" "\<And>m. leads_to env D j (effects (take m es) d)"
      "journals (effects es d) = (journals d)(i := None)" "\<And>k. k \<noteq> i \<Longrightarrow> journals_poss (effects es d) k = journals_poss d k"
    using recover_one_leads [OF Cons.prems(1), of i] Cons.prems(3,4) by (auto simp: dom_def)
  have "leads_to env D j (effects es d)" using es(2) [of "length es"] by simp
  moreover have "set is \<subseteq> dom (journals (effects es d))" using Cons.prems(2,3) by (auto simp: es(3))
  moreover have "jn_id j \<in> set is \<longrightarrow> journals_poss (effects es d) (jn_id j) = {journals (effects es d) (jn_id j)}"
    using Cons.prems(2,4) es(3,4) by auto
  ultimately obtain es' where es': "recover_all env (effects es d) is = (es', None)"
      "\<And>m. leads_to env D j (effects (take m es') (effects es d))"
      "journals (effects es' (effects es d)) = journals (effects es d) |` (- set is)"
    using Cons.IH [of "effects es d"] Cons.prems(2) by auto
  have "leads_to env D j (effects (take m (es @ es')) d)" for m
    using take_append_cases [of m es es'] es(2) es'(2) by (metis effects_append)
  moreover have "journals (effects (es @ es') d) = journals d |` (- set (i # is))"
    unfolding effects_append es'(3) es(3) by (auto simp: restrict_map_def)
  ultimately show ?case using es(1) es'(1) by simp
qed

lemma recover_pending_leads:
  assumes "leads_to env D j d" "settled d" "distinct is" "set is = dom (journals d)"
  shows "\<exists>es. recover_pending env d is = (es, None) \<and> (\<forall>m. leads_to env D j (effects (take m es) d)) \<and>
    journals (effects es d) = Map.empty \<and> settled (effects es d) \<and> vis (effects es d) = vis D"
proof -
  have one: "journals_poss d (jn_id j) = {journals d (jn_id j)}" using assms(2) by (simp add: settled_def)
  obtain es where es: "recover_all env d is = (es, None)" "\<And>m. leads_to env D j (effects (take m es) d)"
      "journals (effects es d) = journals d |` (- set is)"
    using recover_all_leads [OF assms(1,3)] one assms(4) by auto
  let ?s = "if is = [] then [] else [Sync_Journals]"
  have whole: "leads_to env D j (effects es d)" using es(2) [of "length es"] by simp
  then have "leads_to env D j (effect Sync_Journals (effects es d))" by (rule leads_to_sync)
  then have "leads_to env D j (effects (take m (es @ [Sync_Journals])) d)" for m
    using es(2) by (intro prefixes_snoc [of "\<lambda>es. leads_to env D j (effects es d)"]) (simp_all add: effects_append)
  then have "leads_to env D j (effects (take m (es @ ?s)) d)" for m
    using es(2) by simp
  moreover have none: "journals (effects es d) = Map.empty"
    unfolding es(3) assms(4) by (auto simp: restrict_map_def)
  have "None \<in> journals_poss (effects es d) (jn_id j)"
    using whole none unfolding leads_to_def by (metis fun_upd_same fun_upd_triv)
  then have files: "files_are (vis D) (effects es d)"
    using whole leftover_simps(1) unfolding leads_to_def by blast
  moreover have "settled (effects (es @ ?s) d)"
  proof (cases "is = []")
    case True
    then have "es = []" using es(1) by simp
    then show ?thesis using True assms(2) by simp
  next
    case False
    then show ?thesis using files by (simp add: effects_append settled_def files_are_def)
  qed
  ultimately show ?thesis
    using es(1) none by (simp add: recover_pending_def effects_append files_are_def)
qed


section \<open>Properties\<close>

text \<open>Recovery at start-up, any number of times interrupted by another crash.\<close>

inductive recovery_rounds :: "journal_env \<Rightarrow> disk \<Rightarrow> disk \<Rightarrow> bool" for env d0 where
  no_round: "recovery_rounds env d0 d0"
| crashed_round: "recovery_rounds env d0 d \<Longrightarrow> distinct is \<Longrightarrow> set is = dom (journals d) \<Longrightarrow>
    crashes (effects (take m (fst (recover_pending env d is))) d) d' \<Longrightarrow> recovery_rounds env d0 d'"

lemma rounds_lead:
  "recovery_rounds env d0 d \<Longrightarrow> leads_to env D j d0 \<Longrightarrow> settled d0 \<Longrightarrow> leads_to env D j d \<and> settled d"
proof (induction rule: recovery_rounds.induct)
  case (crashed_round d "is" m d')
  then have d: "leads_to env D j d" "settled d" by simp_all
  from recover_pending_leads [OF this crashed_round.hyps(2,3)]
  have "leads_to env D j (effects (take m (fst (recover_pending env d is))) d)" by auto
  from leads_to_crash [OF this crashed_round.hyps(4)] show ?case
    using crashed_round.hyps(4) by (simp add: crashes_def)
qed simp

definition undisturbed :: "journal_env \<Rightarrow> disk \<Rightarrow> bool" where
  "undisturbed env d \<longleftrightarrow> settled d \<and> (\<forall>i. leftover env (journals d i))"

text \<open>The effects of a transaction: the journal, the writes, the marker of the commit and the clean-up.\<close>

definition transaction_effects :: "journal_env \<Rightarrow> journal \<Rightarrow> disk_effect list \<Rightarrow> disk_effect list \<Rightarrow> disk_effect list" where
  "transaction_effects env j ws marker = write_json_atomic env j @ ws @ marker @ commit_cleanup (jn_id j)"

lemma before_marker_leads:
  assumes "undisturbed env D" "tx_ok env D j" "\<forall>e\<in>set ws. allowed D j e"
  shows "leads_to env D j (effects (take k (write_json_atomic env j @ ws)) D)"
proof -
  have D: "files_are (vis D) D" "journals_poss D = (\<lambda>i. {journals D i})" "\<And>i. leftover env (journals D i)"
    using assms(1) by (auto simp: undisturbed_def settled_def files_are_def)
  have "leads_to env D j D" using D files_are_inside [OF D(1)] by (auto simp: leads_to_def)
  moreover have put: "leads_to env D j (effect (Put_Journal (jn_id j) (Stored (je_digest env j) j)) D)"
    using D files_are_inside [OF D(1), of j] assms(2)
    by (auto simp: leads_to_def inside_tx_def files_are_def pending_form_def)
  moreover have sync: "leads_to env D j (effects (write_json_atomic env j) D)"
    using leads_to_sync [OF put] by (simp add: write_json_atomic_def)
  moreover have "leads_to env D j (effects (take m ws) (effects (write_json_atomic env j) D))" for m
  proof (rule leads_to_allowed [OF sync _ take_in_set [OF assms(3)]])
    show "\<forall>s\<in>journals_poss (effects (write_json_atomic env j) D) (jn_id j). \<not> leftover env s"
      using leftover_simps(2) [OF assms(2)] by (simp add: write_json_atomic_def pending_form_def)
  qed
  ultimately show ?thesis
    by (cases k; cases "k - 1"; cases "k - 2") (auto simp: write_json_atomic_def effects_append)
qed


lemma allowed_files_journals:
  assumes "undisturbed env D" "\<forall>e\<in>set ws. allowed D j e"
  defines "E \<equiv> effects (write_json_atomic env j @ ws) D"
  shows "journals E = (journals D)(jn_id j \<mapsto> Stored (je_digest env j) j)" "journals_poss E = (\<lambda>i. {journals E i})"
  using allowed_journals_all [OF assms(2), of "effects (write_json_atomic env j) D"]
  by (simp_all add: E_def effects_append write_json_atomic_def)

lemma commit_marker_written:
  assumes "undisturbed env D" "tx_ok env D j" "\<forall>e\<in>set ws. allowed D j e"
    "commit_marker env (effects (write_json_atomic env j @ ws) D) (jn_id j) = Inr marker"
  shows "marker = write_json_atomic env (committed_form j)"
  using assms(2,4) allowed_files_journals(1) [OF assms(1,3)]
  by (auto simp: commit_marker_def read_verified_def require_journal_state_def tx_ok_def split: sum.splits)

lemma committed_leads:
  assumes "undisturbed env D" "tx_ok env D j" "\<forall>e\<in>set ws. allowed D j e"
  defines "E \<equiv> effects (write_json_atomic env j @ ws) D"
  assumes flushed: "files_are (vis E) E"
  shows "leads_to env E j (effects (write_json_atomic env (committed_form j) @ take m (commit_cleanup (jn_id j))) E)"
proof -
  note jE = allowed_files_journals [OF assms(1,3), folded E_def]
  let ?M = "effects (write_json_atomic env (committed_form j)) E"
  have files: "files_are (vis E) ?M" using flushed by (simp add: write_json_atomic_def files_are_def)
  have committed: "leftover env (Some (Stored (je_digest env (committed_form j)) (committed_form j)))"
    by (auto simp: leftover_def committed_form_def)
  have "leftover env (journals D i)" for i using assms(1) by (simp add: undisturbed_def)
  then have M: "leads_to env E j ?M"
    using committed files files_are_inside [OF files]
    by (auto simp: leads_to_def write_json_atomic_def committed_form_def jE)
  have drop: "leads_to env E j (effect (Drop_Journal (jn_id j)) ?M)" by (rule leads_to_drop [OF M]) (simp add: files)
  then have "leads_to env E j (effect Sync_Journals (effect (Drop_Journal (jn_id j)) ?M))" by (rule leads_to_sync)
  then show ?thesis
    using M drop by (cases m; cases "m - 1") (simp_all add: commit_cleanup_def effects_append)
qed

text \<open>C38: Writing a record is atomic under crashes. A transaction begins on a disk at rest, does what it may to
  the tracked files and the payload, flushes it, and commits. Wherever a crash interrupts it, and however often
  recovery itself is interrupted by further crashes, a recovery that is left alone succeeds, removes every
  journal, and leaves durably either exactly the files from before the transaction or exactly the
  files it wrote: the former when the crash came before the marker of the commit, the latter when it came after
  the marker was flushed.\<close>

theorem crashed_write_is_atomic:
  assumes "resolve_ok env" "undisturbed env D" "begin_journal env tid tracked payload D = Inr j"
    and "\<forall>e\<in>set ws. allowed D j e" "E = effects (write_json_atomic env j @ ws) D" "files_are (vis E) E"
    and "commit_marker env E (jn_id j) = Inr marker"
    and "crashes (effects (take k (transaction_effects env j ws marker)) D) d0" "recovery_rounds env d0 d"
    and "distinct is" "set is = dom (journals d)" "recover_pending env d is = (es, err)"
  shows "err = None \<and> journals (effects es d) = Map.empty \<and> settled (effects es d) \<and>
    (vis (effects es d) = vis D \<and> k \<le> length ws + 3 \<or> vis (effects es d) = vis E \<and> length ws + 3 \<le> k)"
proof -
  have ok: "tx_ok env D j" by (rule begin_journal_ok [OF assms(3,1)])
  have marker: "marker = write_json_atomic env (committed_form j)"
    using commit_marker_written [OF assms(2) ok assms(4)] assms(5,7) by simp
  let ?b = "write_json_atomic env j @ ws" and ?M = "write_json_atomic env (committed_form j) @ commit_cleanup (jn_id j)"
  have len: "length ?b = length ws + 2" by (simp add: write_json_atomic_def)
  have seq: "transaction_effects env j ws marker = ?b @ ?M" by (simp add: transaction_effects_def marker)
  have d0: "settled d0" using assms(8) by (simp add: crashes_def)
  note jE = allowed_files_journals [OF assms(2,4), folded assms(5)]
  have before: "leads_to env D j E" using before_marker_leads [OF assms(2) ok assms(4), of "length ?b"] by (simp add: assms(5))
  have after: "leads_to env E j (effects (write_json_atomic env (committed_form j) @ take m (commit_cleanup (jn_id j))) E)" for m
    using committed_leads [OF assms(2) ok assms(4)] assms(5,6) by simp
  have "leads_to env D j d0 \<and> k \<le> length ws + 3 \<or> leads_to env E j d0 \<and> length ws + 3 \<le> k"
  proof (cases "k \<le> length ws + 2")
    case True
    then have "take k (transaction_effects env j ws marker) = take k ?b" using len unfolding seq by (subst take_append) simp
    then show ?thesis
      using leads_to_crash [OF before_marker_leads [OF assms(2) ok assms(4), of k], of d0] assms(8) True by simp
  next
    case False
    then have cr: "crashes (effects (take (k - length ?b) ?M) E) d0"
      using assms(5,8) len by (simp add: seq effects_append [symmetric] del: append_assoc)
    show ?thesis
    proof (cases "k = length ws + 3")
      case True
      then have cr1: "crashes (effect (Put_Journal (jn_id j) (Stored (je_digest env (committed_form j)) (committed_form j))) E) d0"
        using cr len by (simp add: write_json_atomic_def committed_form_def numeral_3_eq_3)
      show ?thesis
      proof (cases "journals d0 (jn_id j) = journals E (jn_id j)")
        case same: True
        then have "crashes E d0" using cr1 jE by (auto simp: crashes_def split: if_splits)
        then show ?thesis using leads_to_crash [OF before] True by simp
      next
        case False
        have "crashes (effects (write_json_atomic env (committed_form j) @ take 0 (commit_cleanup (jn_id j))) E) d0"
          using cr1 jE False by (auto simp: crashes_def write_json_atomic_def committed_form_def split: if_splits)
        then show ?thesis using leads_to_crash [OF after] True by blast
      qed
    next
      case far: False
      define m where "m = k - length ws - 4"
      have "k - length ?b = Suc (Suc m)" using False far unfolding len m_def by linarith
      then have "take (k - length ?b) ?M = write_json_atomic env (committed_form j) @ take m (commit_cleanup (jn_id j))"
        by (simp add: write_json_atomic_def)
      then show ?thesis using leads_to_crash [OF after [of m]] cr far False by simp
    qed
  qed
  moreover have "err = None \<and> journals (effects es d) = Map.empty \<and> settled (effects es d) \<and> vis (effects es d) = vis F"
    if "leads_to env F j d0" for F
    using rounds_lead [OF assms(9) that d0] recover_pending_leads [OF _ _ assms(10,11), of env F j] assms(12) by auto
  ultimately show ?thesis by blast
qed


lemma rollback_run:
  assumes "resolve_ok env" "undisturbed env D" "begin_journal env tid tracked payload D = Inr j"
    and "\<forall>e\<in>set ws. allowed D j e" "E = effects (write_json_atomic env j @ ws) D"
    and "commit_marker env E (jn_id j) = Inr marker" "2 \<le> k" "k \<le> length ws + 3"
    and "rollback_effects env (effects (take k (transaction_effects env j ws marker)) D) (jn_id j) = (es, err)"
    and "c = effects (take k (transaction_effects env j ws marker)) D"
  shows "tx_ok env D j" "inside_tx D j c" "es = (restore_list j @ flush_list j) @ [Drop_Journal (jn_id j), Sync_Journals]" "err = None"
    "\<And>i. journals c i \<in> journals_poss c i"
    "k = length ws + 3 \<Longrightarrow> journals c = (journals D)(jn_id j \<mapsto> Stored (je_digest env (committed_form j)) (committed_form j))"
proof -
  show ok: "tx_ok env D j" by (rule begin_journal_ok [OF assms(3,1)])
  have marker: "marker = write_json_atomic env (committed_form j)"
    using commit_marker_written [OF assms(2) ok assms(4)] assms(5,6) by simp
  let ?b = "effects (write_json_atomic env j) D"
  let ?P = "Put_Journal (jn_id (committed_form j)) (Stored (je_digest env (committed_form j)) (committed_form j))"
  obtain n where n: "k = Suc (Suc n)" using assms(7) by (metis add_2_eq_Suc le_Suc_ex)
  have "files_are (vis D) ?b" using assms(2) by (auto simp: undisturbed_def settled_def files_are_def write_json_atomic_def)
  then have b: "inside_tx D j ?b" by (rule files_are_inside)
  have jb: "journals ?b = (journals D)(jn_id j \<mapsto> Stored (je_digest env j) j)" "\<And>i. journals ?b i \<in> journals_poss ?b i"
    by (simp_all add: write_json_atomic_def)
  have part: "inside_tx D j (effects (take n ws) ?b) \<and> journals (effects (take n ws) ?b) = journals ?b \<and>
      journals_poss (effects (take n ws) ?b) = journals_poss ?b" for n
    using inside_tx_effects [OF b take_in_set [OF assms(4)]] allowed_journals_all [OF take_in_set [OF assms(4)]] by blast
  have c: "c = (if n \<le> length ws then effects (take n ws) ?b else effect ?P (effects ws ?b))"
    using assms(8) n by (auto simp: assms(10) transaction_effects_def marker write_json_atomic_def effects_append take_Cons' not_le)
  show w: "inside_tx D j c"
    using part [of n] part [of "length ws"] by (auto simp: c inside_tx_def)
  show "\<And>i. journals c i \<in> journals_poss c i" using part [of n] part [of "length ws"] jb by (auto simp: c)
  show "k = length ws + 3 \<Longrightarrow> journals c = (journals D)(jn_id j \<mapsto> Stored (je_digest env (committed_form j)) (committed_form j))"
    using part [of "length ws"] jb n by (simp add: c) (simp add: committed_form_def)
  have "\<exists>x. read_verified env c (jn_id j) = Inr x \<and> require_journal_state x = Inr (jn_state x) \<and>
      jn_tracked x = jn_tracked j \<and> jn_payload x = jn_payload j \<and> jn_payload_existed x = jn_payload_existed j"
    using part [of n] jb ok by (auto simp: c read_verified_def committed_form_def require_journal_state_def tx_ok_def)
  then obtain x where x: "read_verified env c (jn_id j) = Inr x" "require_journal_state x = Inr (jn_state x)"
      "jn_tracked x = jn_tracked j" "jn_payload x = jn_payload j" "jn_payload_existed x = jn_payload_existed j" by blast
  have "restore_effects env c x = (restore_list j @ flush_list j, None)"
    using restore_effects_eq [OF ok w] unfolding restore_effects_def x(3-5) .
  then show "es = (restore_list j @ flush_list j) @ [Drop_Journal (jn_id j), Sync_Journals]" "err = None"
    using assms(9) x(1,2) by (simp_all add: rollback_effects_def assms(10))
qed

text \<open>C39: A write that fails is rolled back: wherever a transaction stops before the clean-up of its commit, also
  when only the flush of the commit's marker fails, the rollback succeeds and leaves durably the files from before
  the transaction and no journal of it.\<close>

theorem failed_write_is_rolled_back:
  assumes "resolve_ok env" "undisturbed env D" "begin_journal env tid tracked payload D = Inr j"
    and "\<forall>e\<in>set ws. allowed D j e" "E = effects (write_json_atomic env j @ ws) D"
    and "commit_marker env E (jn_id j) = Inr marker" "2 \<le> k" "k \<le> length ws + 3"
    and "rollback_effects env (effects (take k (transaction_effects env j ws marker)) D) (jn_id j) = (es, err)"
    and "d = effects es (effects (take k (transaction_effects env j ws marker)) D)"
  shows "err = None \<and> files_are (vis D) d \<and> journals d (jn_id j) = None \<and> journals_poss d (jn_id j) = {None}"
proof -
  note run = rollback_run [OF assms(1-9) refl]
  show ?thesis
    using restore_settles [OF run(1,2)] run(4)
    unfolding assms(10) run(3) effects_append [of "restore_list j @ flush_list j"] by (simp add: files_are_def)
qed

text \<open>C40: A rollback is not itself safe against crashes once the marker of the commit has been seen: when the flush of
  the marker fails, the journal says committed while the rollback restores the files. A crash at any point
  of it can leave just this state, and recovery then keeps the half restored files and drops
  the journal.\<close>

theorem interrupted_rollback_tears:
  assumes "resolve_ok env" "undisturbed env D" "begin_journal env tid tracked payload D = Inr j"
    and "\<forall>e\<in>set ws. allowed D j e" "E = effects (write_json_atomic env j @ ws) D"
    and "commit_marker env E (jn_id j) = Inr marker"
    and "c = effects (take (length ws + 3) (transaction_effects env j ws marker)) D"
    and "rollback_effects env c (jn_id j) = (es, err)" "m + 2 \<le> length es"
    and "distinct is" "set is = dom (journals c)"
  shows "\<exists>d0 es'. crashes (effects (take m es) c) d0 \<and> recover_pending env d0 is = (es', None) \<and>
    vis (effects es' d0) = vis (effects (take m es) c) \<and> journals (effects es' d0) = Map.empty"
proof -
  note run = rollback_run [OF assms(1-6) _ _ assms(8) [unfolded assms(7)] assms(7)]
  have ok: "tx_ok env D j" and w: "inside_tx D j c" by (rule run(1,2); simp)+
  have es: "take m es = take m (restore_list j @ flush_list j)" using run(3) assms(9) by simp
  have al: "\<forall>e\<in>set (take m es). allowed D j e" unfolding es using restore_allowed [OF ok] by (intro take_in_set) blast
  let ?d = "effects (take m es) c"
  define d0 where "d0 = ?d\<lparr>poss := (\<lambda>p. {vis ?d p}), journals_poss := (\<lambda>i. {journals ?d i})\<rparr>"
  have j: "journals ?d = journals c" "journals_poss ?d = journals_poss c" using allowed_journals_all [OF al] by simp_all
  have "vis ?d p \<in> poss ?d p" for p using inside_tx_effects [OF w al] by (simp add: inside_tx_def)
  moreover have "journals ?d i \<in> journals_poss ?d i" for i unfolding j by (rule run(5)) simp_all
  ultimately have crash: "crashes ?d d0" by (simp add: crashes_def settled_def d0_def)
  have "leftover env (journals d0 i)" for i
  proof -
    have "journals d0 = (journals D)(jn_id j \<mapsto> Stored (je_digest env (committed_form j)) (committed_form j))"
      using run(6) by (simp add: d0_def j)
    then show ?thesis using assms(2) by (auto simp: undisturbed_def leftover_def committed_form_def)
  qed
  moreover have "files_are (vis d0) d0" "settled d0" by (simp_all add: files_are_def settled_def d0_def)
  ultimately have "leads_to env d0 j d0" "settled d0"
    using files_are_inside [of d0 d0 j] by (auto simp: leads_to_def settled_def)
  from recover_pending_leads [OF this assms(10)] show ?thesis using crash assms(11) by (auto simp: d0_def j)
qed

subsection \<open>A transaction over two files\<close>

definition sample_env :: journal_env where
  "sample_env = \<lparr>je_digest = (\<lambda>_. ''d''), je_resolve = (\<lambda>p. if p = [] then None else Some p)\<rparr>"

definition sample_disk :: disk where
  "sample_disk = \<lparr>vis = [''a'' \<mapsto> ''1'', ''b'' \<mapsto> ''2''], poss = (\<lambda>p. {[''a'' \<mapsto> ''1'', ''b'' \<mapsto> ''2''] p}),
     journals = Map.empty, journals_poss = (\<lambda>_. {None})\<rparr>"

definition sample_journal :: journal where
  "sample_journal = \<lparr>jn_state = ''pending'', jn_id = ''t'', jn_tracked = [(''a'', True, 1), (''b'', True, 1)], jn_payload = ''p'',
     jn_payload_existed = False\<rparr>"

definition sample_writes :: "disk_effect list" where
  "sample_writes = [Append_File ''a'' ''x'', Sync_File ''a'', Append_File ''b'' ''y'', Sync_File ''b'']"

definition sample_written :: disk where
  "sample_written = effects (write_json_atomic sample_env sample_journal @ sample_writes) sample_disk"

definition sample_marker :: "disk_effect list" where
  "sample_marker = write_json_atomic sample_env (committed_form sample_journal)"

lemma sample_resolve: "resolve_ok sample_env"
  by (simp add: resolve_ok_def sample_env_def)

lemma sample_undisturbed: "undisturbed sample_env sample_disk"
  by (simp add: undisturbed_def settled_def sample_disk_def)

lemma sample_begin: "begin_journal sample_env ''t'' [''a'', ''b''] ''p'' sample_disk = Inr sample_journal"
proof -
  have "safe_transaction_id ''t'' = Inr ''t''" by code_simp
  then show ?thesis
    by (simp add: begin_journal_def relative_path_def sample_env_def sample_disk_def sample_journal_def)
qed

lemma sample_allowed: "\<forall>e\<in>set sample_writes. allowed sample_disk sample_journal e"
  by (simp add: sample_writes_def sample_journal_def touchable_def sample_disk_def)

lemma sample_written_eq:
  "sample_written = \<lparr>vis = [''a'' \<mapsto> ''1x'', ''b'' \<mapsto> ''2y''], poss = (\<lambda>p. {[''a'' \<mapsto> ''1x'', ''b'' \<mapsto> ''2y''] p}),
     journals = [''t'' \<mapsto> Stored ''d'' sample_journal], journals_poss = (\<lambda>i. {[''t'' \<mapsto> Stored ''d'' sample_journal] i})\<rparr>"
proof -
  let ?j = "[''t'' \<mapsto> Stored ''d'' sample_journal]"
  have 1: "effects (write_json_atomic sample_env sample_journal) sample_disk = sample_disk\<lparr>journals := ?j, journals_poss := (\<lambda>i. {?j i})\<rparr>"
    by (simp add: write_json_atomic_def sample_disk_def sample_env_def) (simp add: sample_journal_def)
  have 2: "effects [Append_File ''a'' ''x'', Sync_File ''a''] (sample_disk\<lparr>journals := ?j, journals_poss := (\<lambda>i. {?j i})\<rparr>) =
      \<lparr>vis = [''a'' \<mapsto> ''1x'', ''b'' \<mapsto> ''2''], poss = (\<lambda>p. {[''a'' \<mapsto> ''1x'', ''b'' \<mapsto> ''2''] p}), journals = ?j, journals_poss = (\<lambda>i. {?j i})\<rparr>"
    by (auto simp: sample_disk_def set_file_def Let_def fun_eq_iff)
  have 3: "effects [Append_File ''b'' ''y'', Sync_File ''b'']
      \<lparr>vis = [''a'' \<mapsto> ''1x'', ''b'' \<mapsto> ''2''], poss = (\<lambda>p. {[''a'' \<mapsto> ''1x'', ''b'' \<mapsto> ''2''] p}), journals = ?j, journals_poss = (\<lambda>i. {?j i})\<rparr> =
      \<lparr>vis = [''a'' \<mapsto> ''1x'', ''b'' \<mapsto> ''2y''], poss = (\<lambda>p. {[''a'' \<mapsto> ''1x'', ''b'' \<mapsto> ''2y''] p}), journals = ?j, journals_poss = (\<lambda>i. {?j i})\<rparr>"
    by (auto simp: set_file_def Let_def fun_eq_iff)
  have w: "sample_writes = [Append_File ''a'' ''x'', Sync_File ''a''] @ [Append_File ''b'' ''y'', Sync_File ''b'']"
    by (simp add: sample_writes_def)
  show ?thesis unfolding sample_written_def w by (simp only: effects_append 1 2 3)
qed

lemma sample_flushed: "files_are (vis sample_written) sample_written"
  by (simp add: sample_written_eq files_are_def)

lemma sample_commit: "commit_marker sample_env sample_written (jn_id sample_journal) = Inr sample_marker"
  by (simp add: commit_marker_def read_verified_def sample_written_eq sample_env_def sample_journal_def require_journal_state_def
      sample_marker_def)

definition sample_committed :: disk where
  "sample_committed = sample_written\<lparr>journals := [''t'' \<mapsto> Stored ''d'' (committed_form sample_journal)],
     journals_poss := (\<lambda>i. {[''t'' \<mapsto> Stored ''d'' (committed_form sample_journal)] i})\<rparr>"

lemma sample_seq:
  "effects (take 8 (transaction_effects sample_env sample_journal sample_writes sample_marker)) sample_disk = sample_committed"
proof -
  have "take 8 (transaction_effects sample_env sample_journal sample_writes sample_marker) =
      (write_json_atomic sample_env sample_journal @ sample_writes) @ sample_marker"
    by (simp add: transaction_effects_def write_json_atomic_def sample_writes_def sample_marker_def)
  moreover have "effects sample_marker sample_written = sample_committed"
    by (simp add: sample_marker_def write_json_atomic_def sample_committed_def sample_env_def sample_written_eq committed_form_def)
      (auto simp: sample_journal_def fun_eq_iff)
  ultimately show ?thesis by (simp only: effects_append sample_written_def)
qed

lemma sample_crash: "crashes sample_committed sample_committed"
  by (simp add: crashes_def settled_def sample_committed_def sample_written_eq)

lemma sample_recovery: "recover_pending sample_env sample_committed [''t''] = ([Drop_Journal ''t'', Sync_Journals], None)"
  by (simp add: recover_pending_def recover_one_def read_verified_def sample_committed_def sample_env_def committed_form_def
      require_journal_state_def)

theorem crashed_write_is_atomic_witness:
  "vis (effects [Drop_Journal ''t'', Sync_Journals] sample_committed) = [''a'' \<mapsto> ''1x'', ''b'' \<mapsto> ''2y''] \<and>
   settled (effects [Drop_Journal ''t'', Sync_Journals] sample_committed)"
proof -
  have crash: "crashes (effects (take 8 (transaction_effects sample_env sample_journal sample_writes sample_marker)) sample_disk) sample_committed"
    unfolding sample_seq by (rule sample_crash)
  have dom: "set [''t''] = dom (journals sample_committed)" by (simp add: sample_committed_def)
  show ?thesis
    using crashed_write_is_atomic [OF sample_resolve sample_undisturbed sample_begin sample_allowed sample_written_def sample_flushed
        sample_commit crash no_round _ dom sample_recovery]
    by (simp add: sample_written_eq sample_writes_def del: effects.simps)
qed

lemma sample_stopped:
  "effects (take 7 (transaction_effects sample_env sample_journal sample_writes sample_marker)) sample_disk =
      effect (hd sample_marker) sample_written"
proof -
  have "take 7 (transaction_effects sample_env sample_journal sample_writes sample_marker) =
      (write_json_atomic sample_env sample_journal @ sample_writes) @ [hd sample_marker]"
    by (simp add: transaction_effects_def write_json_atomic_def sample_writes_def sample_marker_def)
  then show ?thesis by (simp only: effects_append sample_written_def effects.simps)
qed

lemma sample_rollback:
  "rollback_effects sample_env (effects (take 7 (transaction_effects sample_env sample_journal sample_writes sample_marker)) sample_disk)
     (jn_id sample_journal) =
   ([Truncate_File ''a'' 1, Truncate_File ''b'' 1, Remove_File ''p'', Sync_File ''a'', Sync_File ''b'', Sync_Dir [], Sync_Dir [],
     Sync_Dir [], Drop_Journal ''t'', Sync_Journals], None)"
  unfolding sample_stopped
  by (simp add: rollback_effects_def read_verified_def sample_written_eq sample_marker_def write_json_atomic_def
      sample_env_def committed_form_def require_journal_state_def restore_effects_def absolute_path_def sample_journal_def
      parent_of_def set_file_def truncated_def)

theorem failed_write_is_rolled_back_witness:
  "vis (effects [Truncate_File ''a'' 1, Truncate_File ''b'' 1, Remove_File ''p'', Sync_File ''a'', Sync_File ''b'', Sync_Dir [],
     Sync_Dir [], Sync_Dir [], Drop_Journal ''t'', Sync_Journals]
     (effects (take 7 (transaction_effects sample_env sample_journal sample_writes sample_marker)) sample_disk)) =
   [''a'' \<mapsto> ''1'', ''b'' \<mapsto> ''2'']"
  using failed_write_is_rolled_back [OF sample_resolve sample_undisturbed sample_begin sample_allowed sample_written_def sample_commit
      _ _ sample_rollback refl]
  by (simp add: sample_writes_def files_are_def) (simp add: sample_disk_def)


theorem interrupted_rollback_tears_witness:
  "\<exists>d0 es'. recover_pending sample_env d0 [''t''] = (es', None) \<and> vis (effects es' d0) = [''a'' \<mapsto> ''1'', ''b'' \<mapsto> ''2y'']"
proof -
  let ?c = "effects (take (length sample_writes + 3) (transaction_effects sample_env sample_journal sample_writes sample_marker)) sample_disk"
  let ?es = "[Truncate_File ''a'' 1, Truncate_File ''b'' 1, Remove_File ''p'', Sync_File ''a'', Sync_File ''b'', Sync_Dir [],
     Sync_Dir [], Sync_Dir [], Drop_Journal ''t'', Sync_Journals]"
  have seven: "length sample_writes + 3 = 7" by (simp add: sample_writes_def)
  have rb: "rollback_effects sample_env ?c (jn_id sample_journal) = (?es, None)"
    unfolding seven by (rule sample_rollback)
  have c: "?c = effect (hd sample_marker) sample_written" unfolding seven by (rule sample_stopped)
  have dom: "set [''t''] = dom (journals ?c)"
    unfolding c by (auto simp: sample_marker_def write_json_atomic_def sample_written_eq committed_form_def sample_journal_def split: if_splits)
  have "vis (effects (take 1 ?es) ?c) = [''a'' \<mapsto> ''1'', ''b'' \<mapsto> ''2y'']"
    unfolding c by (simp add: sample_marker_def write_json_atomic_def sample_written_eq set_file_def truncated_def fun_upd_twist)
  then show ?thesis
    using interrupted_rollback_tears [OF sample_resolve sample_undisturbed sample_begin sample_allowed sample_written_def sample_commit
        refl rb _ _ dom, of 1] by (auto simp del: take_Suc_Cons)
qed

end
