(* ===== verification/Spec2Isabelle.thy ===== *)
theory Spec2Isabelle imports
  Value_Parser
  Crawl_Context
  Crawl_Task
  Scheduling_Settings
  Host_Task_Queue
  Delayed_Task_Queue
  Host_Eligibility
  Seen_Url_Registry
  Retry_Budget
  Active_Task_Registry
  Progress_State
  Discovery_Signal
  Host_Control
  Source_Scope
  Run_Url_Feedback
  Task_Priority
  Admission
  Frontier
  Tracked_Work
  Completion
  Dispatcher
  Checkpoint_Codec
  Checkpoint_Restore
  Checkpoint_Limits
  Url_Scheduler
  Snapshot_Reader
  Ip_Address
  Host_Normalizer
  Crawl_System
  Rate_Limit
  Circuit_Breaker
  Host_Suppression
  Network_Guard
  Redirect_Rules
  Request_Runner
  Robots_Rules
  Robots_Cache
  Robots_Gate
  Robots_Fetcher
  Write_Journal
begin

text \<open>
  A verification of the core of a crawler: what is crawled next, what may be requested at all,
  how fast, and what survives a crash. File names are relative to \<open>src/\<close>; \<open>scheduling/\<close> stands for
  \<open>crawler/scheduling/\<close> and \<open>governance/\<close> for \<open>crawler/governance/\<close>. The definitions are translations of
  the sources: a class is a record, an enumeration a datatype, a dictionary a map or, where its order or
  its size matters, an association list with the oldest key first, an exception an \<open>Inl\<close> of a sum, and a
  method that changes its object returns the changed record.

  \<^bold>\<open>The scheduler.\<close> A crawl task with its context (\<open>Crawl_Task\<close>, \<open>Crawl_Context\<close>: \<open>crawler/crawl_tasks\<close>,
  coercions in \<open>Value_Parser\<close>) enters through admission (\<open>Admission\<close>, \<open>Task_Priority\<close>, \<open>Discovery_Signal\<close>,
  \<open>Source_Scope\<close>, \<open>Seen_Url_Registry\<close>, \<open>Run_Url_Feedback\<close>) into one of two queues, the fair queue of ready
  tasks (\<open>Host_Task_Queue\<close>) or the queue of delayed ones (\<open>Delayed_Task_Queue\<close>). Dispatch (\<open>Dispatcher\<close>,
  \<open>Host_Eligibility\<close>) picks a host, takes its most urgent task and registers it as active
  (\<open>Active_Task_Registry\<close>); completion (\<open>Completion\<close>, \<open>Retry_Budget\<close>) puts it back, stages it as a dead
  letter or drops it. \<open>Host_Control\<close> holds advice and budgets per host, \<open>Progress_State\<close> the counters,
  \<open>Snapshot_Reader\<close> the views for reports. The state of all of this is the record \<open>scheduler\<close> of
  \<open>Frontier\<close>; its fields are the components that \<open>scheduling/url_scheduler.py\<close> holds. \<open>Url_Scheduler\<close> has the public
  operations and the relation \<open>scheduler_step\<close> of their locked sections, in which the calls of concurrent
  workers interleave. \<open>Tracked_Work\<close> says for each move of a task what it does to the multiset of
  everything the scheduler is responsible for, \<open>tracked\<close>; nearly all properties of the scheduler rest on it. Checkpoints
  are \<open>Checkpoint_Codec\<close> (task payloads and the export), \<open>Checkpoint_Restore\<close> (the validated plan and its
  commit) and \<open>Checkpoint_Limits\<close> (what admission does to them). \<open>Crawl_System\<close> puts the scheduler together
  with the one host normaliser of the crawler.

  \<^bold>\<open>Hosts and addresses.\<close> \<open>Host_Normalizer\<close> is \<open>governance/domains/host_normalizer.py\<close> over \<open>Ip_Address\<close>, a model of
  the standard library's \<open>ipaddress\<close>; \<open>Network_Guard\<close> is \<open>governance/network_access\<close>, the guard against
  requests into private networks, with the historical spellings of IPv4 addresses.

  \<^bold>\<open>Governance of requests.\<close> \<open>Rate_Limit\<close> is \<open>governance/rate_limit\<close> (slots, windows, reservations and their
  cancellation), \<open>Circuit_Breaker\<close> the breaker with the ends of a fetch attempt that reach it,
  \<open>Host_Suppression\<close> the back-off after 403 responses, \<open>Redirect_Rules\<close> the rules for one redirect hop.
  \<open>Request_Runner\<close> is the loop of \<open>crawler/fetching/network/request.py\<close>: guard, robots gate, rate limiter, request, peer
  check, redirect; a run is the list of its events.

  \<^bold>\<open>Robots.\<close> \<open>Robots_Rules\<close> evaluates documents and loading errors and remembers hosts, \<open>Robots_Cache\<close> is the cache
  with its shared loads, as a relation of interleaved steps, \<open>Robots_Fetcher\<close> fetches and parses documents, and
  \<open>Robots_Gate\<close> is the checker and the gate, composed with the request runner by \<open>behind_gate\<close>.

  \<^bold>\<open>Storage.\<close> \<open>Write_Journal\<close> is the rollback journal of dataset writes over a disk that loses what has not been
  flushed: every operation is a list of effects, so that a crash is a prefix of it.

  \<^bold>\<open>How the lemmas are organised.\<close> Each theory gives first its definitions in the order of the source, then an
  invariant (\<open>htq_inv\<close>, \<open>dtq_inv\<close>, \<open>atr_inv\<close>, \<open>sur_inv\<close>, \<open>scheduler_inv\<close>, \<open>suppressor_ok\<close>, \<open>cache_inv\<close>, \<open>inside_tx\<close> and others) with one
  preservation lemma per operation, then characterisations of each branch, then the
  properties, which apply them. \<open>Prelude\<close> has the collections \<open>host_simps\<close> and \<open>queue_defs\<close> and the contract of
  \<open>heapq\<close> as the locale \<open>priority_heap\<close>, interpreted for the three heaps (\<open>host_heap\<close>, \<open>delayed_heap\<close>, \<open>elig_order\<close>); \<open>host_canonical\<close>
  states what the components rely on of the host normaliser, interpreted by \<open>hosts\<close> on the normaliser itself;
  \<open>host_buffer\<close> is what the two queues have in common; \<open>preserved\<close> and \<open>configured\<close> carry invariants along
  runs of the scheduler, and \<open>crawl\<close> interprets them for the assembled system.

  \<^bold>\<open>Arguments of the model.\<close> Code outside \<open>src/\<close> is an argument: the splitting of URLs (\<open>url_parser\<close>), \<open>urljoin\<close>, the
  idna codec, the HTTP client, the parser of robots documents, random draws, SHA-256 and the resolution of paths. What a theorem
  needs of one is a named hypothesis with a witness. Clocks are readings, one per call of the
  source, and where several readings matter they are indexed; nothing is assumed of them unless the statement
  says so. Floating-point numbers are reals extended by infinities and nan, so rounding is not modelled (a
  finding of \<open>Rate_Limit\<close> depends on it); characters are the code points up to 255. Log output and metrics
  are left out. What happens between two acquisitions of a lock or two \<open>await\<close> points is one step.

  \<^bold>\<open>Loops and termination.\<close> Loops over data are structural. \<open>preview_loop\<close> ends because each round removes an
  entry from the window; \<open>request_loop\<close> and \<open>fetch_loop\<close> end because a redirect is followed only under the
  configured limit, which is their measure. \<open>get_round\<close> is one round of the waiting loop of \<open>get\<close>; that it
  returns is a property of the state it finds (\<open>shutdown_reaches_idle\<close>), and \<open>acquire_round\<close> one round of the
  rate limiter's (\<open>acquire_settles\<close>). No fuel is used.

  \<^bold>\<open>What the properties say.\<close> In every interleaving of the workers the scheduler invariant holds, no
  host exceeds its limit and no task is lost or duplicated; the queue is a round robin of priority lists and serves each host within a
  round; retries are bounded; a closed scheduler winds down; a checkpoint keeps the work, and restoring it
  is all or nothing. A host has one key and every spelling of an address gets the verdict of the
  address. Requests keep the limits of their host, ask only for governed URLs that robots rules permit, release each response
  and do not carry credentials to another origin. The robots cache serves only documents that are
  valid, and dataset transactions are atomic under crashes. Where the code falls short of what it
  means to do, the property is the exact statement of it: an overfull checkpoint is refused, waiting
  requests overrun a burst, a slow document is not a forbidding one, an observing gate defers, and an
  interrupted rollback tears a transaction.

  \<^bold>\<open>Not modelled.\<close> The reading of pages and feeds, media processing, classification, curation and the
  preparation of datasets (\<open>crawler/extraction\<close>, \<open>crawler/processing\<close>, \<open>crawler/analysis\<close>, \<open>crawler/curation\<close>,
  \<open>preprocessing\<close>) are mostly calls into libraries for HTML, audio and video; training, evaluation and the
  multimodal model (\<open>training\<close>, \<open>evaluator\<close>, \<open>multimodal\<close>, \<open>mmcrawler_datasets\<close>) compute with tensors; the rest of
  \<open>crawler/fetching\<close>, the worker pool and the writers of storage move bytes between libraries and the parts modelled
  here; \<open>config\<close>, \<open>orchestration\<close> and \<open>logger\<close> are wiring. The limits of the settings classes are modelled where an
  operation reads them.
\<close>

end
